(* ===== verification/JsPrelude.thy ===== *)
theory JsPrelude
  imports Main "HOL-Library.List_Lexorder" "HOL-Library.Char_ord"
begin

text \<open>
  The fragment of the JavaScript standard library that the modelled code uses, as total functions on
  lists: indexed reads that may miss (\<open>undefined\<close> is \<open>None\<close>), \<open>slice\<close> with its negative and out of
  range arguments, substring tests, insertion-ordered sets, \<open>split\<close>, \<open>join\<close> and \<open>replaceAll\<close>.

  A JavaScript string that may hold any character is a list of UTF-16 code units (\<open>jstr\<close>, a list of
  natural numbers); a string the code has already reduced to ASCII is a HOL \<open>string\<close>. \<open>js\<close> turns a
  HOL string into the code units JavaScript has for it. The default \<open>sort\<close> of JavaScript compares
  code units from left to right, which is the order \<open>List_Lexorder\<close> gives to lists of numbers.
\<close>

named_theorems js_simps \<open>rewriting rules of the JavaScript library\<close>

section \<open>Code units\<close>

type_synonym unit16 = nat
type_synonym jstr = "unit16 list"

definition js :: "string \<Rightarrow> jstr" where
  "js s = map of_char s"

lemma js_Nil [simp]: "js [] = []" and js_Cons [simp]: "js (c # cs) = of_char c # js cs"
  by (simp_all add: js_def)

lemma js_append [simp]: "js (a @ b) = js a @ js b"
  by (simp add: js_def)

lemma js_inj [simp]: "js a = js b \<longleftrightarrow> a = b"
  by (auto simp: js_def inj_map_eq_map inj_on_def)

lemma js_eq_Nil [simp]: "js a = [] \<longleftrightarrow> a = []" "[] = js a \<longleftrightarrow> a = []"
  by (auto simp: js_def)

definition is_digit :: "unit16 \<Rightarrow> bool" where "is_digit c \<longleftrightarrow> 48 \<le> c \<and> c \<le> 57"
definition is_upper :: "unit16 \<Rightarrow> bool" where "is_upper c \<longleftrightarrow> 65 \<le> c \<and> c \<le> 90"
definition is_lower :: "unit16 \<Rightarrow> bool" where "is_lower c \<longleftrightarrow> 97 \<le> c \<and> c \<le> 122"

definition ascii :: "jstr \<Rightarrow> bool" where
  "ascii s \<longleftrightarrow> list_all (\<lambda>c. c < 128) s"

text \<open>The ASCII part of \<open>toUpperCase\<close> and \<open>toLowerCase\<close>.\<close>

definition up1 :: "unit16 \<Rightarrow> unit16" where "up1 c = (if is_lower c then c - 32 else c)"
definition low1 :: "unit16 \<Rightarrow> unit16" where "low1 c = (if is_upper c then c + 32 else c)"

lemma low1_idem [simp]: "low1 (low1 c) = low1 c"
  by (simp add: low1_def is_upper_def)

lemma up1_low1 [simp]: "up1 (low1 c) = up1 c"
  by (auto simp: low1_def up1_def is_upper_def is_lower_def)

section \<open>Reads, slices and substring tests\<close>

definition js_at :: "'a list \<Rightarrow> int \<Rightarrow> 'a option" where
  "js_at s i = (if 0 \<le> i \<and> i < int (length s) then Some (s ! nat i) else None)"

definition js_clip :: "int \<Rightarrow> int \<Rightarrow> int" where
  "js_clip n a = (if a < 0 then max (n + a) 0 else min a n)"

definition js_slice :: "int \<Rightarrow> int \<Rightarrow> 'a list \<Rightarrow> 'a list" where
  "js_slice a b s =
     (let n = int (length s); i = js_clip n a; j = js_clip n b
      in take (nat (j - i)) (drop (nat i) s))"

fun starts_with :: "'a list \<Rightarrow> 'a list \<Rightarrow> bool" where
  "starts_with [] s = True"
| "starts_with (p # ps) [] = False"
| "starts_with (p # ps) (c # cs) = (p = c \<and> starts_with ps cs)"

fun js_includes :: "'a list \<Rightarrow> 'a list \<Rightarrow> bool" where
  "js_includes p [] = (p = [])"
| "js_includes p (c # cs) = (starts_with p (c # cs) \<or> js_includes p cs)"

lemma starts_with_iff: "starts_with p s \<longleftrightarrow> (\<exists>t. s = p @ t)"
  by (induction p s rule: starts_with.induct) auto

lemma js_includes_iff: "js_includes p s \<longleftrightarrow> (\<exists>a b. s = a @ p @ b)"
proof (induction s)
  case Nil
  then show ?case by simp
next
  case (Cons c cs)
  have "js_includes p (c # cs) \<longleftrightarrow> (\<exists>t. c # cs = p @ t) \<or> (\<exists>a b. cs = a @ p @ b)"
    using Cons.IH by (simp add: starts_with_iff)
  also have "\<dots> \<longleftrightarrow> (\<exists>a b. c # cs = a @ p @ b)"
  proof
    assume "(\<exists>t. c # cs = p @ t) \<or> (\<exists>a b. cs = a @ p @ b)"
    then show "\<exists>a b. c # cs = a @ p @ b"
    proof
      assume "\<exists>t. c # cs = p @ t"
      then show ?thesis by (metis append_Nil)
    next
      assume "\<exists>a b. cs = a @ p @ b"
      then show ?thesis by (metis append_Cons)
    qed
  next
    assume "\<exists>a b. c # cs = a @ p @ b"
    then show "(\<exists>t. c # cs = p @ t) \<or> (\<exists>a b. cs = a @ p @ b)"
      by (metis append_eq_Cons_conv)
  qed
  finally show ?case .
qed

lemma js_at_None_neg [simp]: "i < 0 \<Longrightarrow> js_at s i = None"
  by (simp add: js_at_def)

lemma js_at_Some: "0 \<le> i \<Longrightarrow> i < int (length s) \<Longrightarrow> js_at s i = Some (s ! nat i)"
  by (simp add: js_at_def)

lemma set_js_slice: "set (js_slice a b s) \<subseteq> set s"
  unfolding js_slice_def Let_def by (meson set_drop_subset set_take_subset subset_trans)

section \<open>Insertion-ordered sets\<close>

text \<open>
  \<open>new Set()\<close> with \<open>add\<close>, \<open>delete\<close> and \<open>has\<close>: a list without duplicates, in order of insertion.
\<close>

definition set_add :: "'a \<Rightarrow> 'a list \<Rightarrow> 'a list" where
  "set_add x xs = (if x \<in> set xs then xs else xs @ [x])"

fun set_add_all :: "'a list \<Rightarrow> 'a list \<Rightarrow> 'a list" where
  "set_add_all [] acc = acc"
| "set_add_all (x # xs) acc = set_add_all xs (set_add x acc)"

definition set_of :: "'a list \<Rightarrow> 'a list" where
  "set_of xs = set_add_all xs []"

lemma set_set_add [simp]: "set (set_add x xs) = insert x (set xs)"
  by (auto simp: set_add_def)

lemma distinct_set_add [simp]: "distinct (set_add x xs) = distinct xs"
  by (auto simp: set_add_def)

lemma set_set_add_all [simp]: "set (set_add_all xs acc) = set xs \<union> set acc"
  by (induction xs arbitrary: acc) auto

lemma distinct_set_add_all [simp]: "distinct (set_add_all xs acc) = distinct acc"
  by (induction xs arbitrary: acc) auto

lemma set_set_of [simp]: "set (set_of xs) = set xs"
  by (simp add: set_of_def)

lemma distinct_set_of [simp]: "distinct (set_of xs)"
  by (simp add: set_of_def)

lemma length_set_add_le: "length (set_add x xs) \<le> Suc (length xs)"
  by (simp add: set_add_def)

lemma length_set_add_all_le: "length (set_add_all xs acc) \<le> length xs + length acc"
proof (induction xs arbitrary: acc)
  case (Cons x xs)
  then show ?case using length_set_add_le [of x acc] by (fastforce intro: le_trans)
qed simp

lemma length_set_of_le: "length (set_of xs) \<le> length xs"
  using length_set_add_all_le [of xs "[]"] by (simp add: set_of_def)

section \<open>Text operations\<close>

text \<open>\<open>replaceAll\<close>, or \<open>replace\<close> with a literal global pattern: leftmost matches, not overlapping. The
  counter is the number of characters of the last match still to be skipped.\<close>

fun repl :: "nat \<Rightarrow> 'a list \<Rightarrow> 'a list \<Rightarrow> 'a list \<Rightarrow> 'a list" where
  "repl k p r [] = []"
| "repl (Suc k) p r (c # cs) = repl k p r cs"
| "repl 0 p r (c # cs) =
     (if starts_with p (c # cs) then r @ repl (length p - 1) p r cs else c # repl 0 p r cs)"

definition replace_all :: "'a list \<Rightarrow> 'a list \<Rightarrow> 'a list \<Rightarrow> 'a list" where
  "replace_all p r s = repl 0 p r s"

lemma set_repl: "set (repl k p r s) \<subseteq> set r \<union> set s"
  by (induction k p r s rule: repl.induct) auto

lemma set_replace_all: "set (replace_all p r s) \<subseteq> set r \<union> set s"
  by (simp add: replace_all_def set_repl)

text \<open>\<open>trim\<close>, with the white space and line terminators of the language standard.\<close>

definition is_space :: "unit16 \<Rightarrow> bool" where
  "is_space c \<longleftrightarrow> (9 \<le> c \<and> c \<le> 13) \<or> c = 32 \<or> c = 160 \<or> c = 5760 \<or> (8192 \<le> c \<and> c \<le> 8202)
     \<or> c = 8232 \<or> c = 8233 \<or> c = 8239 \<or> c = 8287 \<or> c = 12288 \<or> c = 65279"

definition js_trim :: "jstr \<Rightarrow> jstr" where
  "js_trim s = rev (dropWhile is_space (rev (dropWhile is_space s)))"

text \<open>\<open>split\<close> on a run of characters outside a class, without the empty pieces (\<open>filter(Boolean)\<close>).\<close>

fun tokens_acc :: "('a \<Rightarrow> bool) \<Rightarrow> 'a list \<Rightarrow> 'a list \<Rightarrow> 'a list list" where
  "tokens_acc keep acc [] = (if acc = [] then [] else [acc])"
| "tokens_acc keep acc (c # cs) =
     (if keep c then tokens_acc keep (acc @ [c]) cs
      else (if acc = [] then [] else [acc]) @ tokens_acc keep [] cs)"

definition tokens :: "('a \<Rightarrow> bool) \<Rightarrow> 'a list \<Rightarrow> 'a list list" where
  "tokens keep s = tokens_acc keep [] s"

fun join :: "'a list \<Rightarrow> 'a list list \<Rightarrow> 'a list" where
  "join sep [] = []"
| "join sep [x] = x"
| "join sep (x # y # xs) = x @ sep @ join sep (y # xs)"

lemma tokens_acc_ok:
  "list_all keep acc \<Longrightarrow> t \<in> set (tokens_acc keep acc s) \<Longrightarrow> t \<noteq> [] \<and> list_all keep t"
  by (induction keep acc s rule: tokens_acc.induct) (auto split: if_splits)

lemma tokens_ok: "t \<in> set (tokens keep s) \<Longrightarrow> t \<noteq> [] \<and> list_all keep t"
  unfolding tokens_def by (rule tokens_acc_ok) simp_all

text \<open>\<open>[...set].sort()\<close>.\<close>

definition sorted_set :: "('a::linorder) list \<Rightarrow> 'a list" where
  "sorted_set xs = sort (set_of xs)"

lemma set_sorted_set [simp]: "set (sorted_set xs) = set xs"
  by (simp add: sorted_set_def)

lemma distinct_sorted_set [simp]: "distinct (sorted_set xs)"
  by (simp add: sorted_set_def)

lemma sorted_sorted_set [simp]: "sorted (sorted_set xs)"
  by (simp add: sorted_set_def)

lemma length_sorted_set_le: "length (sorted_set xs) \<le> length xs"
  by (simp add: sorted_set_def length_set_of_le)

section \<open>First of each key\<close>

text \<open>
  The loop \<open>const k = key(t); if (!k || seen.has(k)) continue; seen.add(k); out.push(t)\<close>: an element
  without a key, or whose key was seen, is passed over. \<open>nonempty\<close> is JavaScript's truth value of a
  string key.
\<close>

fun first_per_key :: "('a \<Rightarrow> 'k option) \<Rightarrow> 'k list \<Rightarrow> 'a list \<Rightarrow> 'a list" where
  "first_per_key key seen [] = []"
| "first_per_key key seen (t # ts) =
     (case key t of None \<Rightarrow> first_per_key key seen ts
      | Some k \<Rightarrow> if k \<in> set seen then first_per_key key seen ts
                 else t # first_per_key key (set_add k seen) ts)"

definition nonempty :: "'a list \<Rightarrow> 'a list option" where
  "nonempty s = (if s = [] then None else Some s)"

lemma nonempty_Some [simp]: "nonempty s = Some k \<longleftrightarrow> s = k \<and> k \<noteq> []"
  by (auto simp: nonempty_def)

lemma nonempty_None [simp]: "nonempty s = None \<longleftrightarrow> s = []"
  by (simp add: nonempty_def)

lemma first_per_key_subset: "set (first_per_key key seen ts) \<subseteq> set ts"
  by (induction key seen ts rule: first_per_key.induct) (auto split: option.splits)

lemma first_per_key_new:
  "t \<in> set (first_per_key key seen ts) \<Longrightarrow> \<exists>k. key t = Some k \<and> k \<notin> set seen"
  by (induction key seen ts rule: first_per_key.induct) (auto split: option.splits if_splits)

lemma first_per_key_distinct: "distinct (map key (first_per_key key seen ts))"
proof (induction key seen ts rule: first_per_key.induct)
  case (2 key seen t ts)
  have "key t \<notin> set (map key (first_per_key key (set_add k seen) ts))" if "key t = Some k" for k
    using that first_per_key_new [of _ key "set_add k seen" ts] by fastforce
  then show ?case using 2 by (auto split: option.splits)
qed simp

lemma first_per_key_complete:
  "t \<in> set ts \<Longrightarrow> key t = Some k \<Longrightarrow> k \<notin> set seen \<Longrightarrow> \<exists>x \<in> set (first_per_key key seen ts). key x = Some k"
proof (induction key seen ts rule: first_per_key.induct)
  case (2 key seen y ts)
  then show ?case by (cases "key y") auto
qed simp

lemma first_per_key_keys:
  "{k. \<exists>x \<in> set (first_per_key key seen ts). key x = Some k} = {k. \<exists>x \<in> set ts. key x = Some k} - set seen"
  using first_per_key_complete [of _ ts key _ seen] first_per_key_subset [of key seen ts]
    first_per_key_new [of _ key seen ts]
  by fastforce

section \<open>Unicode services of the engine\<close>

text \<open>
  \<open>String.prototype.normalize\<close>, \<open>toUpperCase\<close> and \<open>toLowerCase\<close> rest on the Unicode database of the
  JavaScript engine, which is not part of the repository: they are a parameter, a record. So are the
  classes its regular expressions name: \<open>\p{Script=Latin}\<close>, \<open>[\p{Script=Greek}\p{Script=Cyrillic}]\<close>,
  \<open>\p{M}\<close> and \<open>[\p{L}\p{N}\p{M}]\<close>, as predicates on a code unit (characters outside the basic plane are
  not modelled). The locale states the documented behaviour the code relies on, the values on ASCII.
\<close>

record unicode =
  nfd :: "jstr \<Rightarrow> jstr"
  to_upper :: "jstr \<Rightarrow> jstr"
  to_lower :: "jstr \<Rightarrow> jstr"
  nfkd :: "jstr \<Rightarrow> jstr"
  latin_script :: "unit16 \<Rightarrow> bool"
  greek_cyrillic :: "unit16 \<Rightarrow> bool"
  mark_class :: "unit16 \<Rightarrow> bool"
  word_class :: "unit16 \<Rightarrow> bool"

locale unicode_ascii =
  fixes u :: unicode
  assumes nfd_ascii: "ascii s \<Longrightarrow> nfd u s = s"
    and to_upper_ascii: "ascii s \<Longrightarrow> to_upper u s = map up1 s"
    and to_lower_ascii: "ascii s \<Longrightarrow> to_lower u s = map low1 s"
    and nfkd_ascii: "ascii s \<Longrightarrow> nfkd u s = s"
    and latin_ascii: "c < 128 \<Longrightarrow> latin_script u c \<longleftrightarrow> is_upper c \<or> is_lower c"
    and greek_ascii: "c < 128 \<Longrightarrow> \<not> greek_cyrillic u c"
    and mark_ascii: "c < 128 \<Longrightarrow> \<not> mark_class u c"
    and word_ascii: "c < 128 \<Longrightarrow> word_class u c \<longleftrightarrow> is_upper c \<or> is_lower c \<or> is_digit c"

text \<open>
  A concrete instance: the decompositions and case mappings of the accented Latin letters that the code
  itself lists (\<open>DIACRITIC_MAP\<close> in \<open>driver/form-neighbourhood.mjs\<close>), and the script classes of those and
  of the basic Greek and Cyrillic letters; every other character is left alone.
\<close>

definition latin_decomp :: "(unit16 \<times> jstr) list" where
  "latin_decomp =
     [(225, [97, 769]), (224, [97, 768]), (226, [97, 770]), (228, [97, 776]), (227, [97, 771]),
      (229, [97, 778]), (233, [101, 769]), (232, [101, 768]), (234, [101, 770]), (235, [101, 776]),
      (237, [105, 769]), (236, [105, 768]), (238, [105, 770]), (239, [105, 776]), (243, [111, 769]),
      (242, [111, 768]), (244, [111, 770]), (246, [111, 776]), (245, [111, 771]), (250, [117, 769]),
      (249, [117, 768]), (251, [117, 770]), (252, [117, 776]), (241, [110, 771]), (231, [99, 807]),
      (353, [115, 780]), (253, [121, 769]), (255, [121, 776]), (382, [122, 780])]"

definition latin_nfd :: "jstr \<Rightarrow> jstr" where
  "latin_nfd s = concat (map (\<lambda>c. case map_of latin_decomp c of None \<Rightarrow> [c] | Some d \<Rightarrow> d) s)"

definition latin_upper :: "jstr \<Rightarrow> jstr" where
  "latin_upper s = concat (map (\<lambda>c. if c = 223 then [83, 83]
     else if 224 \<le> c \<and> c \<le> 254 \<and> c \<noteq> 247 then [c - 32] else [up1 c]) s)"

definition latin_lower :: "jstr \<Rightarrow> jstr" where
  "latin_lower s = map (\<lambda>c. if 192 \<le> c \<and> c \<le> 222 \<and> c \<noteq> 215 then c + 32 else low1 c) s"

definition latin_unicode :: unicode where
  "latin_unicode = \<lparr>nfd = latin_nfd, to_upper = latin_upper, to_lower = latin_lower, nfkd = latin_nfd,
     latin_script = (\<lambda>c. is_upper c \<or> is_lower c \<or> (192 \<le> c \<and> c \<le> 382 \<and> c \<noteq> 215 \<and> c \<noteq> 247)),
     greek_cyrillic = (\<lambda>c. (945 \<le> c \<and> c \<le> 969) \<or> (1072 \<le> c \<and> c \<le> 1103)),
     mark_class = (\<lambda>c. 768 \<le> c \<and> c \<le> 879),
     word_class = (\<lambda>c. is_upper c \<or> is_lower c \<or> is_digit c \<or> (192 \<le> c \<and> c \<le> 382 \<and> c \<noteq> 215 \<and> c \<noteq> 247)
       \<or> (768 \<le> c \<and> c \<le> 879) \<or> (945 \<le> c \<and> c \<le> 969) \<or> (1072 \<le> c \<and> c \<le> 1103))\<rparr>"

lemma latin_decomp_ascii: "c < 128 \<Longrightarrow> map_of latin_decomp c = None"
  by (auto simp: latin_decomp_def)

lemma latin_nfd_ascii: "ascii s \<Longrightarrow> latin_nfd s = s"
  unfolding latin_nfd_def by (induction s) (auto simp: ascii_def latin_decomp_ascii)

lemma latin_upper_ascii: "ascii s \<Longrightarrow> latin_upper s = map up1 s"
  unfolding latin_upper_def by (induction s) (auto simp: ascii_def)

lemma latin_lower_ascii: "ascii s \<Longrightarrow> latin_lower s = map low1 s"
  unfolding latin_lower_def by (induction s) (auto simp: ascii_def)

interpretation latin: unicode_ascii latin_unicode
  by unfold_locales
    (simp_all add: latin_unicode_def latin_nfd_ascii latin_upper_ascii latin_lower_ascii)

end
