(* ===== verification/Phonetic.thy ===== *)
theory Phonetic
  imports JsPrelude
begin

text \<open>
  The sound-alike key of \<open>driver/phonetic-key.mjs\<close>: a Double Metaphone that walks the normalised word
  once and, per cluster of letters, appends to a primary and to a secondary code and advances by one to
  four places. Every \<open>case\<close> of the \<open>switch\<close> in \<open>doubleMetaphone\<close> is one function \<open>case_\<dots>\<close> that
  gives what the branch appends to the two codes and how far the index moves; \<open>dm_step\<close> is the
  \<open>switch\<close>, \<open>dm_loop\<close> the \<open>while\<close> loop. A read \<open>characters[i]\<close> outside the word is \<open>None\<close>, and a
  regular expression tested on \<open>undefined\<close> fails, as the code's upper-case classes do on the text
  \<open>undefined\<close>.
\<close>

section \<open>Normalisation\<close>

definition is_mark :: "unit16 \<Rightarrow> bool" where
  "is_mark c \<longleftrightarrow> 768 \<le> c \<and> c \<le> 879"

fun squash :: "bool \<Rightarrow> jstr \<Rightarrow> string" where
  "squash inrun [] = []"
| "squash inrun (c # cs) =
     (if is_upper c then char_of c # squash False cs
      else if inrun then squash True cs
      else CHR '' '' # squash True cs)"

definition strip_ends :: "string \<Rightarrow> string" where
  "strip_ends s =
     (let t = (case s of [] \<Rightarrow> [] | c # cs \<Rightarrow> if c = CHR '' '' then cs else s)
      in if t \<noteq> [] \<and> last t = CHR '' '' then butlast t else t)"

definition normalize :: "unicode \<Rightarrow> jstr \<Rightarrow> string" where
  "normalize u s =
     strip_ends (squash False (to_upper u (filter (\<lambda>c. \<not> is_mark c) (nfd u s))))"

section \<open>The word and its named matchers\<close>

record dmword =
  norm :: string
  wlen :: int
  slavo :: bool
  germ :: bool

definition ch :: "dmword \<Rightarrow> int \<Rightarrow> char option" where
  "ch w i = js_at (norm w) i"

definition sub :: "dmword \<Rightarrow> int \<Rightarrow> int \<Rightarrow> string" where
  "sub w a b = js_slice a b (norm w)"

definition one_of :: "char option \<Rightarrow> string \<Rightarrow> bool" where
  "one_of c cs = (case c of None \<Rightarrow> False | Some x \<Rightarrow> x \<in> set cs)"

abbreviation vowel :: "char option \<Rightarrow> bool" where
  "vowel c \<equiv> one_of c ''AEIOUY''"

definition slavoGermanic :: "string \<Rightarrow> bool" where
  "slavoGermanic s \<longleftrightarrow> js_includes ''W'' s \<or> js_includes ''K'' s \<or> js_includes ''CZ'' s \<or> js_includes ''WITZ'' s"

definition germanic :: "string \<Rightarrow> bool" where
  "germanic s \<longleftrightarrow> starts_with ''VAN '' s \<or> starts_with ''VON '' s \<or> starts_with ''SCH'' s"

definition initialExceptions :: "string \<Rightarrow> bool" where
  "initialExceptions s \<longleftrightarrow> starts_with ''GN'' s \<or> starts_with ''KN'' s \<or> starts_with ''PN'' s
     \<or> starts_with ''WR'' s \<or> starts_with ''PS'' s"

definition initialGreekCh :: "string \<Rightarrow> bool" where
  "initialGreekCh s \<longleftrightarrow> starts_with ''CHIA'' s \<or> starts_with ''CHEM'' s
     \<or> (starts_with ''CHOR'' s \<and> (case js_at s 4 of None \<Rightarrow> False | Some c \<Rightarrow> c \<noteq> CHR ''E''))
     \<or> starts_with ''CHYM'' s \<or> starts_with ''CHARAC'' s \<or> starts_with ''CHARIS'' s"

definition greekCh :: "string \<Rightarrow> bool" where
  "greekCh s \<longleftrightarrow> js_includes ''ORCHES'' s \<or> js_includes ''ARCHIT'' s \<or> js_includes ''ORCHID'' s"

definition initialGForKj :: "string \<Rightarrow> bool" where
  "initialGForKj s \<longleftrightarrow>
     js_includes ''Y'' (butlast s)
     \<or> (\<exists>c \<in> set ''BILPRSY''. js_includes [CHR ''E'', c] s)
     \<or> (\<exists>c \<in> set ''BELN''. js_includes [CHR ''I'', c] s)"

definition initialAngerException :: "string \<Rightarrow> bool" where
  "initialAngerException s \<longleftrightarrow> starts_with ''DANGER'' s \<or> starts_with ''MANGER'' s \<or> starts_with ''RANGER'' s"

definition alle :: "string \<Rightarrow> bool" where
  "alle s \<longleftrightarrow> js_includes ''AS'' s \<or> js_includes ''OS'' s"

definition hForS :: "string \<Rightarrow> bool" where
  "hForS s \<longleftrightarrow> js_includes ''EIM'' s \<or> js_includes ''OEK'' s \<or> js_includes ''OLM'' s \<or> js_includes ''OLZ'' s"

definition dutchSch :: "string \<Rightarrow> bool" where
  "dutchSch s \<longleftrightarrow> (\<exists>c \<in> set ''DMNR''. js_includes [CHR ''E'', c] s) \<or> js_includes ''UY'' s \<or> js_includes ''OO'' s"

section \<open>The branches of the switch\<close>

type_synonym emission = "string \<times> string \<times> nat"

abbreviation both :: "string \<Rightarrow> nat \<Rightarrow> emission" where
  "both c k \<equiv> (c, c, k)"

definition case_vowel :: "dmword \<Rightarrow> int \<Rightarrow> emission" where
  "case_vowel w i = (if i = 0 then both ''A'' 1 else both '''' 1)"

definition case_B :: "dmword \<Rightarrow> int \<Rightarrow> emission" where
  "case_B w i = both ''P'' (if one_of (ch w (i + 1)) ''B'' then 2 else 1)"

definition case_CH :: "dmword \<Rightarrow> int \<Rightarrow> emission" where
  "case_CH w i =
     (let p = ch w (i - 1); nn = ch w (i + 2) in
      if i > 0 \<and> one_of nn ''A'' \<and> one_of (ch w (i + 3)) ''E'' then (''K'', ''X'', 2)
      else if i = 0 \<and> initialGreekCh (norm w) then both ''K'' 2
      else if germ w \<or> greekCh (sub w (i - 2) (i + 4)) \<or> one_of nn ''T'' \<or> one_of nn ''S''
        \<or> ((i = 0 \<or> one_of p ''AEOU'') \<and> one_of nn '' BFHLMNRVW'') then both ''K'' 2
      else if i = 0 then both ''X'' 2
      else if sub w 0 2 = ''MC'' then both ''K'' 2
      else (''X'', ''K'', 2))"

definition case_CC :: "dmword \<Rightarrow> int \<Rightarrow> emission" where
  "case_CC w i =
     (let p = ch w (i - 1); nn = ch w (i + 2) in
      if one_of nn ''IEH'' \<and> sub w (i + 2) (i + 4) \<noteq> ''HU'' then
        (if (i = 1 \<and> one_of p ''A'') \<or> sub w (i - 1) (i + 4) = ''UCCEE'' \<or> sub w (i - 1) (i + 4) = ''UCCES''
         then both ''KS'' 3 else both ''X'' 3)
      else both ''K'' 2)"

definition case_C :: "dmword \<Rightarrow> int \<Rightarrow> emission" where
  "case_C w i =
     (let p = ch w (i - 1); n = ch w (i + 1); nn = ch w (i + 2) in
      if one_of p ''A'' \<and> one_of n ''H'' \<and> \<not> one_of nn ''I'' \<and> \<not> vowel (ch w (i - 2))
        \<and> (\<not> one_of nn ''E'' \<or> sub w (i - 2) (i + 4) = ''BACHER'' \<or> sub w (i - 2) (i + 4) = ''MACHER'')
      then both ''K'' 2
      else if i = 0 \<and> sub w (i + 1) (i + 6) = ''AESAR'' then both ''S'' 2
      else if sub w (i + 1) (i + 4) = ''HIA'' then both ''K'' 2
      else if one_of n ''H'' then case_CH w i
      else if one_of n ''Z'' \<and> sub w (i - 2) i \<noteq> ''WI'' then (''S'', ''X'', 2)
      else if sub w (i + 1) (i + 4) = ''CIA'' then both ''X'' 3
      else if one_of n ''C'' \<and> \<not> (i = 1 \<and> one_of (ch w 0) ''M'') then case_CC w i
      else if one_of n ''GKQ'' then both ''K'' 2
      else if one_of n ''I'' \<and> one_of nn ''EO'' then (''S'', ''X'', 2)
      else if one_of n ''IEY'' then both ''S'' 2
      else both ''K'' (if one_of n '' '' \<and> one_of nn ''CGQ'' then 3 else 1))"

definition case_D :: "dmword \<Rightarrow> int \<Rightarrow> emission" where
  "case_D w i =
     (let n = ch w (i + 1); nn = ch w (i + 2) in
      if one_of n ''G'' then (if one_of nn ''EIY'' then both ''J'' 3 else both ''TK'' 2)
      else if one_of n ''TD'' then both ''T'' 2
      else both ''T'' 1)"

definition case_F :: "dmword \<Rightarrow> int \<Rightarrow> emission" where
  "case_F w i = both ''F'' (if one_of (ch w (i + 1)) ''F'' then 2 else 1)"

definition case_GH :: "dmword \<Rightarrow> int \<Rightarrow> emission" where
  "case_GH w i =
     (let p = ch w (i - 1); nn = ch w (i + 2) in
      if i > 0 \<and> \<not> vowel p then both ''K'' 2
      else if i = 0 then (if one_of nn ''I'' then both ''J'' 2 else both ''K'' 2)
      else if one_of (ch w (i - 2)) ''BHD'' \<or> one_of (ch w (i - 3)) ''BHD'' \<or> one_of (ch w (i - 4)) ''BH''
      then both '''' 2
      else if i > 2 \<and> one_of p ''U'' \<and> one_of (ch w (i - 3)) ''CGLRT'' then both ''F'' 2
      else if i > 0 \<and> \<not> one_of p ''I'' then both ''K'' 2
      else both '''' 2)"

definition case_GN :: "dmword \<Rightarrow> int \<Rightarrow> emission" where
  "case_GN w i =
     (if i = 1 \<and> vowel (ch w 0) \<and> \<not> slavo w then (''KN'', ''N'', 2)
      else if sub w (i + 2) (i + 4) \<noteq> ''EY'' \<and> sub w (i + 1) (int (length (norm w))) \<noteq> ''Y'' \<and> \<not> slavo w
      then (''N'', ''KN'', 2)
      else both ''KN'' 2)"

definition case_G :: "dmword \<Rightarrow> int \<Rightarrow> emission" where
  "case_G w i =
     (let p = ch w (i - 1); n = ch w (i + 1); nn = ch w (i + 2) in
      if one_of n ''H'' then case_GH w i
      else if one_of n ''N'' then case_GN w i
      else if sub w (i + 1) (i + 3) = ''LI'' \<and> \<not> slavo w then (''KL'', ''L'', 2)
      else if i = 0 \<and> initialGForKj (sub w 1 3) then (''K'', ''J'', 2)
      else if (sub w (i + 1) (i + 3) = ''ER'' \<and> \<not> one_of p ''I'' \<and> \<not> one_of p ''E''
                 \<and> \<not> initialAngerException (sub w 0 6))
              \<or> (one_of n ''Y'' \<and> \<not> one_of p ''EGIR'')
      then (''K'', ''J'', 2)
      else if one_of n ''EIY'' \<or> (one_of p ''AO'' \<and> one_of n ''G'' \<and> one_of nn ''I'')
      then (if sub w (i + 1) (i + 3) = ''ET'' \<or> germ w then both ''K'' 2
            else (''J'', (if sub w (i + 1) (i + 5) = ''IER '' then ''J'' else ''K''), 2))
      else both ''K'' (if one_of n ''G'' then 2 else 1))"

definition case_H :: "dmword \<Rightarrow> int \<Rightarrow> emission" where
  "case_H w i =
     (if vowel (ch w (i + 1)) \<and> (i = 0 \<or> vowel (ch w (i - 1))) then both ''H'' 2 else both '''' 1)"

definition case_J :: "dmword \<Rightarrow> int \<Rightarrow> emission" where
  "case_J w i =
     (let p = ch w (i - 1); n = ch w (i + 1) in
      if sub w i (i + 4) = ''JOSE'' \<or> sub w 0 4 = ''SAN '' then
        (if sub w 0 4 = ''SAN '' \<or> (i = 0 \<and> one_of (ch w (i + 4)) '' '') then both ''H'' 1
         else (''J'', ''H'', 1))
      else if i = 0 then (''J'', ''A'', 1)
      else if \<not> slavo w \<and> one_of n ''AO'' \<and> vowel p then (''J'', ''H'', 1)
      else if i = wlen w - 1 then (''J'', '''', 1)
      else if \<not> one_of p ''S'' \<and> \<not> one_of p ''K'' \<and> \<not> one_of p ''L'' \<and> \<not> one_of n ''LTKSNMBZ''
      then both ''J'' 1
      else if one_of n ''J'' then both '''' 2
      else both '''' 1)"

definition case_K :: "dmword \<Rightarrow> int \<Rightarrow> emission" where
  "case_K w i = both ''K'' (if one_of (ch w (i + 1)) ''K'' then 2 else 1)"

definition case_L :: "dmword \<Rightarrow> int \<Rightarrow> emission" where
  "case_L w i =
     (let p = ch w (i - 1); n = ch w (i + 1); nn = ch w (i + 2); last = wlen w - 1 in
      if one_of n ''L'' then
        (if (i = wlen w - 3 \<and> ((one_of p ''A'' \<and> one_of nn ''E'') \<or> (one_of p ''I'' \<and> one_of nn ''OA'')))
            \<or> (one_of p ''A'' \<and> one_of nn ''E''
                \<and> (one_of (ch w last) ''A'' \<or> one_of (ch w last) ''O'' \<or> alle (sub w (last - 1) (wlen w))))
         then (''L'', '''', 2) else both ''L'' 2)
      else both ''L'' 1)"

definition case_M :: "dmword \<Rightarrow> int \<Rightarrow> emission" where
  "case_M w i =
     (let p = ch w (i - 1); n = ch w (i + 1) in
      both ''M''
        (if one_of n ''M'' \<or> (one_of p ''U'' \<and> one_of n ''B''
              \<and> (i + 1 = wlen w - 1 \<or> sub w (i + 2) (i + 4) = ''ER''))
         then 2 else 1))"

definition case_N :: "dmword \<Rightarrow> int \<Rightarrow> emission" where
  "case_N w i = both ''N'' (if one_of (ch w (i + 1)) ''N'' then 2 else 1)"

definition case_P :: "dmword \<Rightarrow> int \<Rightarrow> emission" where
  "case_P w i =
     (let n = ch w (i + 1) in
      if one_of n ''H'' then both ''F'' 2 else both ''P'' (if one_of n ''PB'' then 2 else 1))"

definition case_Q :: "dmword \<Rightarrow> int \<Rightarrow> emission" where
  "case_Q w i = both ''K'' (if one_of (ch w (i + 1)) ''Q'' then 2 else 1)"

definition case_R :: "dmword \<Rightarrow> int \<Rightarrow> emission" where
  "case_R w i =
     (let k = (if one_of (ch w (i + 1)) ''R'' then 2 else 1) in
      if i = wlen w - 1 \<and> \<not> slavo w \<and> one_of (ch w (i - 1)) ''E'' \<and> one_of (ch w (i - 2)) ''I''
        \<and> \<not> one_of (ch w (i - 4)) ''M'' \<and> \<not> one_of (ch w (i - 3)) ''E'' \<and> \<not> one_of (ch w (i - 3)) ''A''
      then ('''', ''R'', k) else both ''R'' k)"

definition case_SC :: "dmword \<Rightarrow> int \<Rightarrow> emission" where
  "case_SC w i =
     (let nn = ch w (i + 2) in
      if one_of nn ''H'' then
        (let s = sub w (i + 3) (i + 5) in
         if dutchSch s then (if s = ''ER'' \<or> s = ''EN'' then (''X'', ''SK'', 3) else both ''SK'' 3)
         else if i = 0 \<and> \<not> vowel (ch w 3) \<and> \<not> one_of (ch w 3) ''W'' then (''X'', ''S'', 3)
         else both ''X'' 3)
      else if one_of nn ''IEY'' then both ''S'' 3
      else both ''SK'' 3)"

definition case_S :: "dmword \<Rightarrow> int \<Rightarrow> emission" where
  "case_S w i =
     (let p = ch w (i - 1); n = ch w (i + 1); nn = ch w (i + 2) in
      if one_of n ''L'' \<and> one_of p ''IY'' then both '''' 1
      else if i = 0 \<and> sub w 1 5 = ''UGAR'' then (''X'', ''S'', 1)
      else if one_of n ''H'' then (if hForS (sub w (i + 1) (i + 5)) then both ''S'' 2 else both ''X'' 2)
      else if one_of n ''I'' \<and> one_of nn ''OA'' then (if slavo w then both ''S'' 3 else (''S'', ''X'', 3))
      else if one_of n ''Z'' \<or> (i = 0 \<and> one_of n ''LMNW'')
      then (''S'', ''X'', if one_of n ''Z'' then 2 else 1)
      else if one_of n ''C'' then case_SC w i
      else (let k = (if one_of n ''S'' then 2 else 1); s = sub w (i - 2) i in
            if i = wlen w - 1 \<and> (s = ''AI'' \<or> s = ''OI'') then ('''', ''S'', k) else both ''S'' k))"

definition case_T :: "dmword \<Rightarrow> int \<Rightarrow> emission" where
  "case_T w i =
     (let n = ch w (i + 1); nn = ch w (i + 2) in
      if one_of n ''I'' \<and> one_of nn ''O'' \<and> one_of (ch w (i + 3)) ''N'' then both ''X'' 3
      else if (one_of n ''I'' \<and> one_of nn ''A'') \<or> (one_of n ''C'' \<and> one_of nn ''H'') then both ''X'' 3
      else if one_of n ''H'' \<or> (one_of n ''T'' \<and> one_of nn ''H'')
      then (if germ w \<or> (one_of nn ''OA'' \<and> one_of (ch w (i + 3)) ''M'') then both ''T'' 2
            else (''0'', ''T'', 2))
      else both ''T'' (if one_of n ''TD'' then 2 else 1))"

definition case_V :: "dmword \<Rightarrow> int \<Rightarrow> emission" where
  "case_V w i = both ''F'' (if one_of (ch w (i + 1)) ''V'' then 2 else 1)"

definition case_W :: "dmword \<Rightarrow> int \<Rightarrow> emission" where
  "case_W w i =
     (let p = ch w (i - 1); n = ch w (i + 1); nn = ch w (i + 2); nnn = ch w (i + 3) in
      if one_of n ''R'' then both ''R'' 2
      else (let (a, b) = (if i = 0 then (if vowel n then (''A'', ''F'')
                                         else if one_of n ''H'' then (''A'', ''A'') else ('''', ''''))
                          else ('''', '''')) in
        if (one_of p ''EO'' \<and> one_of n ''S'' \<and> one_of nn ''K'' \<and> one_of nnn ''IY'')
           \<or> sub w 0 3 = ''SCH'' \<or> (i = wlen w - 1 \<and> vowel p)
        then (a, b @ ''F'', 1)
        else if one_of n ''I'' \<and> one_of nn ''CT'' \<and> one_of nnn ''Z'' then (a @ ''TS'', b @ ''FX'', 4)
        else (a, b, 1)))"

definition case_X :: "dmword \<Rightarrow> int \<Rightarrow> emission" where
  "case_X w i =
     (let p = ch w (i - 1); n = ch w (i + 1);
          c = (if \<not> (i = wlen w - 1 \<and> one_of p ''U'' \<and> one_of (ch w (i - 2)) ''AO'') then ''KS'' else '''')
      in both c (if one_of n ''CX'' then 2 else 1))"

definition case_Z :: "dmword \<Rightarrow> int \<Rightarrow> emission" where
  "case_Z w i =
     (let p = ch w (i - 1); n = ch w (i + 1); nn = ch w (i + 2) in
      if one_of n ''H'' then both ''J'' 2
      else (let k = (if one_of n ''Z'' then 2 else 1) in
        if (one_of n ''Z'' \<and> one_of nn ''AIO'') \<or> (slavo w \<and> i > 0 \<and> \<not> one_of p ''T'')
        then (''S'', ''TS'', k) else both ''S'' k))"

definition dm_step :: "dmword \<Rightarrow> int \<Rightarrow> emission" where
  "dm_step w i =
     (let c = ch w i in
      if vowel c then case_vowel w i
      else if one_of c ''B'' then case_B w i
      else if one_of c ''C'' then case_C w i
      else if one_of c ''D'' then case_D w i
      else if one_of c ''F'' then case_F w i
      else if one_of c ''G'' then case_G w i
      else if one_of c ''H'' then case_H w i
      else if one_of c ''J'' then case_J w i
      else if one_of c ''K'' then case_K w i
      else if one_of c ''L'' then case_L w i
      else if one_of c ''M'' then case_M w i
      else if one_of c ''N'' then case_N w i
      else if one_of c ''P'' then case_P w i
      else if one_of c ''Q'' then case_Q w i
      else if one_of c ''R'' then case_R w i
      else if one_of c ''S'' then case_S w i
      else if one_of c ''T'' then case_T w i
      else if one_of c ''V'' then case_V w i
      else if one_of c ''W'' then case_W w i
      else if one_of c ''X'' then case_X w i
      else if one_of c ''Z'' then case_Z w i
      else both '''' 1)"

lemmas case_defs =
  case_vowel_def case_B_def case_CH_def case_CC_def case_C_def case_D_def case_F_def case_GH_def
  case_GN_def case_G_def case_H_def case_J_def case_K_def case_L_def case_M_def case_N_def case_P_def
  case_Q_def case_R_def case_SC_def case_S_def case_T_def case_V_def case_W_def case_X_def case_Z_def

section \<open>What one step may do\<close>

text \<open>
  Every branch appends code letters, at most two (three only where it reads a \<open>Z\<close> three places ahead and
  moves four places), moves the index by one to four places, and emits the vowel mark \<open>A\<close> only as the first letter of a code and only at index 0.
\<close>

definition code_letters :: "string" where
  "code_letters = ''AFHJKLMNPRSTX0''"

definition ok_code :: "bool \<Rightarrow> string \<Rightarrow> bool" where
  "ok_code start a \<longleftrightarrow> set a \<subseteq> set code_letters
     \<and> (\<not> start \<longrightarrow> CHR ''A'' \<notin> set a) \<and> CHR ''A'' \<notin> set (tl a)"

definition ok_emission :: "bool \<Rightarrow> bool \<Rightarrow> emission \<Rightarrow> bool" where
  "ok_emission start z e \<longleftrightarrow>
     (case e of (a, b, k) \<Rightarrow> 1 \<le> k \<and> k \<le> 4 \<and> ok_code start a \<and> ok_code start b
        \<and> (length a \<le> 2 \<and> length b \<le> 2 \<or> z \<and> k = 4 \<and> length a \<le> 3 \<and> length b \<le> 3))"

named_theorems ok_intros \<open>rules that take a branch of the switch apart\<close>

lemma ok_if [ok_intros]: "ok_emission s z x \<Longrightarrow> ok_emission s z y \<Longrightarrow> ok_emission s z (if c then x else y)"
  by simp

lemma ok_triple [ok_intros]:
  "ok_code s a \<Longrightarrow> ok_code s b \<Longrightarrow> 1 \<le> k \<Longrightarrow> k \<le> 4 \<Longrightarrow> length a \<le> 2 \<Longrightarrow> length b \<le> 2
   \<Longrightarrow> ok_emission s z (a, b, k)"
  by (simp add: ok_emission_def)

lemma ok_code_if [ok_intros]: "ok_code s x \<Longrightarrow> ok_code s y \<Longrightarrow> ok_code s (if c then x else y)"
  by simp

lemma nat_le_if [ok_intros]: "(k::nat) \<le> a \<Longrightarrow> k \<le> b \<Longrightarrow> k \<le> (if c then a else b)"
  by simp

lemma if_le_nat [ok_intros]: "a \<le> (k::nat) \<Longrightarrow> b \<le> k \<Longrightarrow> (if c then a else b) \<le> k"
  by simp

lemma ok_codes [simp]:
  "ok_code s ''''" "ok_code s ''P''" "ok_code s ''K''" "ok_code s ''X''" "ok_code s ''S''" "ok_code s ''KS''"
  "ok_code s ''J''" "ok_code s ''T''" "ok_code s ''TK''" "ok_code s ''F''" "ok_code s ''N''" "ok_code s ''KN''"
  "ok_code s ''L''" "ok_code s ''KL''" "ok_code s ''H''" "ok_code s ''M''" "ok_code s ''R''" "ok_code s ''SK''"
  "ok_code s ''0''" "ok_code s ''TS''" "ok_code s ''FX''" "ok_code True ''A''"
  by (simp_all add: ok_code_def code_letters_def)

lemma ok_W_codes [simp]:
  "ok_code True ''FF''" "ok_code True ''AF''" "ok_code True ''ATS''" "ok_code True ''FFX''" "ok_code True ''AFX''"
  by (simp_all add: ok_code_def code_letters_def)

lemma ok_case_vowel: "ok_emission (i = 0) z (case_vowel w i)"
  by (cases "i = 0") (simp_all add: case_vowel_def ok_emission_def)

lemma ok_case_CH: "ok_emission s z (case_CH w i)"
  unfolding case_CH_def Let_def by (intro ok_intros) simp_all

lemma ok_case_CC: "ok_emission s z (case_CC w i)"
  unfolding case_CC_def Let_def by (intro ok_intros) simp_all

lemma ok_case_C: "ok_emission s z (case_C w i)"
  unfolding case_C_def Let_def by (intro ok_intros ok_case_CH ok_case_CC) simp_all

lemma ok_case_GH: "ok_emission s z (case_GH w i)"
  unfolding case_GH_def Let_def by (intro ok_intros) simp_all

lemma ok_case_GN: "ok_emission s z (case_GN w i)"
  unfolding case_GN_def Let_def by (intro ok_intros) simp_all

lemma ok_case_G: "ok_emission s z (case_G w i)"
  unfolding case_G_def Let_def by (intro ok_intros ok_case_GH ok_case_GN) simp_all

lemma ok_case_J: "ok_emission (i = 0) z (case_J w i)"
proof (cases "i = 0")
  case True
  have "ok_emission True z (case_J w 0)"
    unfolding case_J_def Let_def if_P [OF refl] by (intro ok_intros) simp_all
  with True show ?thesis by simp
next
  case False
  have "ok_emission False z (case_J w i)"
    unfolding case_J_def Let_def if_not_P [OF False] by (intro ok_intros) simp_all
  with False show ?thesis by simp
qed

lemma ok_case_SC: "ok_emission s z (case_SC w i)"
  unfolding case_SC_def Let_def by (intro ok_intros) simp_all

lemma ok_case_S: "ok_emission s z (case_S w i)"
  unfolding case_S_def Let_def by (intro ok_intros ok_case_SC) simp_all

lemma ok_case_T: "ok_emission s z (case_T w i)"
  unfolding case_T_def Let_def by (intro ok_intros) simp_all

lemma ok_case_W_start: "ok_emission True (one_of (ch w 3) ''Z'') (case_W w 0)"
  unfolding case_W_def Let_def if_P [OF refl]
  by (cases "vowel (ch w (0 + 1))"; cases "one_of (ch w (0 + 1)) ''H''"; cases "one_of (ch w 3) ''Z''")
    (simp_all add: ok_emission_def)

lemma ok_case_W_later: "i \<noteq> 0 \<Longrightarrow> ok_emission False z (case_W w i)"
  unfolding case_W_def Let_def by (simp only: if_False split_conv append_Nil) (intro ok_intros; simp)

lemma ok_case_W: "ok_emission (i = 0) (one_of (ch w (i + 3)) ''Z'') (case_W w i)"
  using ok_case_W_start [of w] ok_case_W_later [of i "one_of (ch w (i + 3)) ''Z''" w]
  by (cases "i = 0") simp_all

lemma ok_simple_cases:
  "ok_emission s z (case_B w i)" "ok_emission s z (case_D w i)" "ok_emission s z (case_F w i)"
  "ok_emission s z (case_H w i)" "ok_emission s z (case_K w i)" "ok_emission s z (case_L w i)"
  "ok_emission s z (case_M w i)" "ok_emission s z (case_N w i)" "ok_emission s z (case_P w i)"
  "ok_emission s z (case_Q w i)" "ok_emission s z (case_R w i)" "ok_emission s z (case_V w i)"
  "ok_emission s z (case_X w i)" "ok_emission s z (case_Z w i)"
  unfolding case_B_def case_D_def case_F_def case_H_def case_K_def case_L_def case_M_def case_N_def
    case_P_def case_Q_def case_R_def case_V_def case_X_def case_Z_def Let_def
  by (intro ok_intros; simp)+

lemma ok_dm_step: "ok_emission (i = 0) (one_of (ch w (i + 3)) ''Z'') (dm_step w i)"
  unfolding dm_step_def Let_def
  by (intro ok_if ok_case_vowel ok_case_C ok_case_G ok_case_J ok_case_S ok_case_T ok_case_W
      ok_simple_cases ok_triple ok_codes) simp_all

section \<open>The loop\<close>

lemma dm_step_adv: "dm_step w i = (a, b, k) \<Longrightarrow> 1 \<le> k \<and> k \<le> 4"
  using ok_dm_step [of i w] by (simp add: ok_emission_def)

function dm_loop :: "dmword \<Rightarrow> int \<Rightarrow> string \<Rightarrow> string \<Rightarrow> string \<times> string" where
  "dm_loop w i pri sec =
     (if i < wlen w
      then (case dm_step w i of (a, b, k) \<Rightarrow> dm_loop w (i + int k) (pri @ a) (sec @ b))
      else (pri, sec))"
  by pat_completeness auto
termination
  by (relation "measure (\<lambda>(w, i, pri, sec). nat (wlen w - i))") (auto dest: dm_step_adv [OF sym])

declare dm_loop.simps [simp del]

definition dm_word :: "string \<Rightarrow> dmword" where
  "dm_word s = (let n = s @ ''     '' in
     \<lparr>norm = n, wlen = int (length s), slavo = slavoGermanic n, germ = germanic n\<rparr>)"

definition dm_codes :: "string \<Rightarrow> string \<times> string" where
  "dm_codes s =
     (let w = dm_word s in
      if s = [] then ([], [])
      else (let i0 = (if initialExceptions (norm w) then 1 else 0) in
            if one_of (ch w 0) ''X'' then dm_loop w (i0 + 1) ''S'' ''S''
            else dm_loop w i0 [] []))"

definition doubleMetaphone :: "unicode \<Rightarrow> jstr \<Rightarrow> string \<times> string" where
  "doubleMetaphone u value = dm_codes (normalize u value)"

definition phoneticKey :: "unicode \<Rightarrow> jstr \<Rightarrow> string" where
  "phoneticKey u value = fst (doubleMetaphone u value)"

section \<open>Shape of the codes\<close>

text \<open>Both codes use the code letters only and carry \<open>A\<close> at their first place or nowhere.\<close>

definition ok_codeword :: "string \<Rightarrow> bool" where
  "ok_codeword p \<longleftrightarrow> set p \<subseteq> set code_letters \<and> CHR ''A'' \<notin> set (tl p)"

lemma ok_codeword_append:
  assumes "ok_codeword p" "ok_code (i = 0) a" "i = 0 \<longrightarrow> p = []"
  shows "ok_codeword (p @ a)"
  using assms by (cases p) (auto simp: ok_codeword_def ok_code_def)

lemma dm_loop_ok:
  "ok_codeword p \<Longrightarrow> ok_codeword s \<Longrightarrow> 0 \<le> i \<Longrightarrow> (i = 0 \<longrightarrow> p = [] \<and> s = [])
   \<Longrightarrow> ok_codeword (fst (dm_loop w i p s)) \<and> ok_codeword (snd (dm_loop w i p s))"
proof (induction w i p s rule: dm_loop.induct)
  case (1 w i p s)
  obtain a b k where st: "dm_step w i = (a, b, k)" by (cases "dm_step w i") auto
  have "ok_emission (i = 0) (one_of (ch w (i + 3)) ''Z'') (a, b, k)" using ok_dm_step [of i w] st by simp
  then have ok: "ok_code (i = 0) a" "ok_code (i = 0) b" "1 \<le> k" by (auto simp: ok_emission_def)
  show ?case
  proof (cases "i < wlen w")
    case True
    have "ok_codeword (p @ a)" "ok_codeword (s @ b)"
      using ok_codeword_append ok 1 by blast+
    then show ?thesis
      using True 1 ok st by (simp add: dm_loop.simps [of w i p s])
  next
    case False
    then show ?thesis using "1.prems" by (simp add: dm_loop.simps [of w i p s])
  qed
qed

lemma wlen_dm_word [simp]: "wlen (dm_word s) = int (length s)"
  by (simp add: dm_word_def Let_def)

lemma ch_dm_word: "0 \<le> i \<Longrightarrow> i < int (length s) + 5 \<Longrightarrow> ch (dm_word s) i = Some ((s @ ''     '') ! nat i)"
  by (simp add: ch_def dm_word_def Let_def js_at_def)

lemma ch_dm_word_in:
  assumes "0 \<le> i" "one_of (ch (dm_word s) i) cs" "CHR '' '' \<notin> set cs"
  shows "i < int (length s)"
proof (rule ccontr)
  assume "\<not> i < int (length s)"
  then have ge: "int (length s) \<le> i" by simp
  have lt: "i < int (length s) + 5"
    using assms(2) by (auto simp: one_of_def ch_def js_at_def dm_word_def Let_def split: if_splits)
  have "nat i - length s < 5" using ge lt by linarith
  then have "(s @ ''     '') ! nat i = CHR '' ''"
    using ge by (auto simp: nth_append less_Suc_eq numeral_eq_Suc)
  then show False using assms ch_dm_word [OF assms(1) lt] by (simp add: one_of_def)
qed

lemma dm_loop_length:
  "w = dm_word s \<Longrightarrow> 0 \<le> i \<Longrightarrow>
    length (fst (dm_loop w i p q)) \<le> length p + 2 * nat (wlen w - i)
   \<and> length (snd (dm_loop w i p q)) \<le> length q + 2 * nat (wlen w - i)"
proof (induction w i p q rule: dm_loop.induct)
  case (1 w i p q)
  obtain a b k where st: "dm_step w i = (a, b, k)" by (cases "dm_step w i") auto
  have "ok_emission (i = 0) (one_of (ch w (i + 3)) ''Z'') (a, b, k)" using ok_dm_step [of i w] st by simp
  then have ok: "1 \<le> k" and short: "length a \<le> 2 \<and> length b \<le> 2
      \<or> one_of (ch w (i + 3)) ''Z'' \<and> k = 4 \<and> length a \<le> 3 \<and> length b \<le> 3"
    by (auto simp: ok_emission_def)
  show ?case
  proof (cases "i < wlen w")
    case True
    have "length a + 2 * nat (wlen w - (i + int k)) \<le> 2 * nat (wlen w - i)
        \<and> length b + 2 * nat (wlen w - (i + int k)) \<le> 2 * nat (wlen w - i)"
    proof (cases "length a \<le> 2 \<and> length b \<le> 2")
      case le2: True
      then show ?thesis using True ok by linarith
    next
      case False
      then have "one_of (ch w (i + 3)) ''Z''" "k = 4" "length a \<le> 3" "length b \<le> 3" using short by auto
      moreover from this have "i + 3 < wlen w"
        using ch_dm_word_in [of "i + 3" s "''Z''"] "1.prems" by simp
      ultimately show ?thesis by linarith
    qed
    then show ?thesis
      using "1.IH" [OF True st [symmetric] refl "1.prems"(1)] True st "1.prems"(2)
      by (simp add: dm_loop.simps [of w i p q])
  next
    case False
    then show ?thesis by (simp add: dm_loop.simps [of w i p q])
  qed
qed

lemma doubleMetaphone_cases:
  obtains (empty) "normalize u v = []" "doubleMetaphone u v = ([], [])"
  | (plain) i0 where "normalize u v \<noteq> []" "0 \<le> i0" "i0 \<le> 1"
      "doubleMetaphone u v = dm_loop (dm_word (normalize u v)) i0 [] []"
  | (initial_X) i0 where "normalize u v \<noteq> []" "1 \<le> i0" "i0 \<le> 2"
      "doubleMetaphone u v = dm_loop (dm_word (normalize u v)) i0 ''S'' ''S''"
proof (cases "normalize u v = []")
  case True
  then show thesis using empty by (simp add: doubleMetaphone_def dm_codes_def)
next
  case False
  define w where "w = dm_word (normalize u v)"
  define i0 :: int where "i0 = (if initialExceptions (norm w) then 1 else 0)"
  have "0 \<le> i0" "i0 \<le> 1" by (simp_all add: i0_def)
  show thesis
  proof (cases "one_of (ch w 0) ''X''")
    case True
    then have "doubleMetaphone u v = dm_loop w (i0 + 1) ''S'' ''S''"
      using False by (simp add: doubleMetaphone_def dm_codes_def Let_def w_def i0_def)
    then show thesis using initial_X [of "i0 + 1"] False \<open>0 \<le> i0\<close> \<open>i0 \<le> 1\<close> by (simp add: w_def)
  next
    case no: False
    then have "doubleMetaphone u v = dm_loop w i0 [] []"
      using False by (simp add: doubleMetaphone_def dm_codes_def Let_def w_def i0_def)
    then show thesis using plain [of i0] False \<open>0 \<le> i0\<close> \<open>i0 \<le> 1\<close> by (simp add: w_def)
  qed
qed

section \<open>Normalisation: shape and stability\<close>

fun no_double_space :: "string \<Rightarrow> bool" where
  "no_double_space (c # d # s) = (\<not> (c = CHR '' '' \<and> d = CHR '' '') \<and> no_double_space (d # s))"
| "no_double_space _ = True"

definition spaced_word :: "string \<Rightarrow> bool" where
  "spaced_word s \<longleftrightarrow> list_all (\<lambda>c. is_upper (of_char c) \<or> c = CHR '' '') s \<and> no_double_space s
     \<and> (s \<noteq> [] \<longrightarrow> hd s \<noteq> CHR '' '' \<and> last s \<noteq> CHR '' '')"

lemma is_upper_char [simp]: "is_upper c \<Longrightarrow> of_char (char_of c) = c"
  by (simp add: is_upper_def)

lemma is_upper_mod [simp]: "is_upper c \<Longrightarrow> c mod 256 = c"
  by (simp add: is_upper_def)

lemma char_of_upper_neq [simp]: "is_upper c \<Longrightarrow> char_of c \<noteq> CHR '' ''"
  by (auto simp: is_upper_def dest!: arg_cong [where f = "of_char :: char \<Rightarrow> nat"])

lemma squash_chars: "list_all (\<lambda>c. is_upper (of_char c) \<or> c = CHR '' '') (squash b s)"
  by (induction b s rule: squash.induct) auto

lemma squash_no_space_start: "squash True s = c # cs \<Longrightarrow> c \<noteq> CHR '' ''"
  by (induction s arbitrary: c cs) (auto split: if_splits)

lemma no_double_Cons: "no_double_space (c # s) \<longleftrightarrow> no_double_space s \<and> (c = CHR '' '' \<longrightarrow> s = [] \<or> hd s \<noteq> CHR '' '')"
  by (cases s) auto

lemma squash_no_double: "no_double_space (squash b s)"
proof (induction b s rule: squash.induct)
  case (2 b c cs)
  have "squash True cs = [] \<or> hd (squash True cs) \<noteq> CHR '' ''"
    using squash_no_space_start by (cases "squash True cs") auto
  then show ?case using 2 by (auto simp: no_double_Cons)
qed simp

lemma no_double_butlast: "no_double_space s \<Longrightarrow> no_double_space (butlast s)"
  by (induction s rule: no_double_space.induct) (auto simp: no_double_Cons)

lemma no_double_last2:
  "no_double_space s \<Longrightarrow> butlast s \<noteq> [] \<Longrightarrow> last s = CHR '' '' \<Longrightarrow> last (butlast s) \<noteq> CHR '' ''"
  by (induction s rule: no_double_space.induct) (auto split: if_splits)

lemma strip_ends_shape:
  assumes "list_all (\<lambda>c. is_upper (of_char c) \<or> c = CHR '' '') s" "no_double_space s"
  shows "spaced_word (strip_ends s)"
proof -
  define t where "t = (case s of [] \<Rightarrow> [] | c # cs \<Rightarrow> if c = CHR '' '' then cs else s)"
  have t: "list_all (\<lambda>c. is_upper (of_char c) \<or> c = CHR '' '') t" "no_double_space t"
    "t \<noteq> [] \<longrightarrow> hd t \<noteq> CHR '' ''"
    using assms by (auto simp: t_def no_double_Cons split: list.splits)
  have r: "strip_ends s = (if t \<noteq> [] \<and> last t = CHR '' '' then butlast t else t)"
    by (simp add: strip_ends_def t_def Let_def)
  show ?thesis
  proof (cases "t \<noteq> [] \<and> last t = CHR '' ''")
    case True
    have "list_all (\<lambda>c. is_upper (of_char c) \<or> c = CHR '' '') (butlast t)"
      using t(1) by (auto simp: list_all_iff dest: in_set_butlastD)
    moreover have "butlast t \<noteq> [] \<Longrightarrow> hd (butlast t) \<noteq> CHR '' ''"
      using t(3) True by (cases t) (auto split: if_splits)
    ultimately show ?thesis
      using True t no_double_butlast no_double_last2 by (simp add: r spaced_word_def)
  next
    case False
    then show ?thesis using t by (simp only: r spaced_word_def if_False) auto
  qed
qed

lemma normalize_shape: "spaced_word (normalize u s)"
  by (simp add: normalize_def strip_ends_shape squash_chars squash_no_double)

lemma squash_js:
  "list_all (\<lambda>c. is_upper (of_char c) \<or> c = CHR '' '') s \<Longrightarrow> no_double_space s
   \<Longrightarrow> (b \<longrightarrow> s = [] \<or> hd s \<noteq> CHR '' '') \<Longrightarrow> squash b (js s) = s"
proof (induction s arbitrary: b)
  case (Cons c s)
  show ?case
  proof (cases "is_upper (of_char c)")
    case True
    then show ?thesis using Cons by (simp add: no_double_Cons)
  next
    case False
    then have "c = CHR '' ''" using Cons.prems by simp
    then show ?thesis using Cons False by (auto simp: no_double_Cons)
  qed
qed simp

lemma strip_ends_id: "s \<noteq> [] \<longrightarrow> hd s \<noteq> CHR '' '' \<and> last s \<noteq> CHR '' '' \<Longrightarrow> strip_ends s = s"
  by (cases s) (auto simp: strip_ends_def)

lemma spaced_word_ascii: "spaced_word s \<Longrightarrow> ascii (js s) \<and> map up1 (js s) = js s \<and> filter (\<lambda>c. \<not> is_mark c) (js s) = js s"
  by (induction s)
    (auto simp: spaced_word_def ascii_def js_def list_all_iff is_upper_def up1_def is_lower_def is_mark_def
      no_double_Cons filter_id_conv)

context unicode_ascii
begin

lemma normalize_spaced: "spaced_word s \<Longrightarrow> normalize u (js s) = s"
  using spaced_word_ascii [of s]
  by (simp add: normalize_def nfd_ascii to_upper_ascii squash_js strip_ends_id spaced_word_def)

lemma normalize_idem: "normalize u (js (normalize u s)) = normalize u s"
  by (rule normalize_spaced [OF normalize_shape])

lemma normalize_ascii: "ascii s \<Longrightarrow> normalize u s = strip_ends (squash False (map up1 s))"
proof -
  assume s: "ascii s"
  then have "filter (\<lambda>c. \<not> is_mark c) s = s"
    by (auto simp: ascii_def list_all_iff is_mark_def filter_id_conv)
  then show ?thesis using s by (simp add: normalize_def nfd_ascii to_upper_ascii)
qed

lemma normalize_low1: "ascii s \<Longrightarrow> normalize u (map low1 s) = normalize u s"
proof -
  assume s: "ascii s"
  then have "ascii (map low1 s)"
    by (auto simp: ascii_def list_all_iff low1_def is_upper_def)
  moreover have "map up1 (map low1 s) = map up1 s" by simp
  ultimately show ?thesis using s by (simp only: normalize_ascii)
qed

lemma squash_letter_free: "list_all (\<lambda>c. \<not> is_upper c) s \<Longrightarrow> squash b s = (if b \<or> s = [] then [] else '' '')"
  by (induction b s rule: squash.induct) auto

lemma normalize_letter_free:
  assumes "ascii s" "list_all (\<lambda>c. \<not> is_upper c \<and> \<not> is_lower c) s"
  shows "normalize u s = []"
proof -
  have "list_all (\<lambda>c. \<not> is_upper c) (map up1 s)"
    using assms(2) by (auto simp: list_all_iff up1_def)
  then show ?thesis
    using assms(1) squash_letter_free [of "map up1 s" False]
    by (auto simp: normalize_ascii strip_ends_def split: if_splits)
qed

end

section \<open>Properties\<close>

lemma initial_X_room: "s \<noteq> [] \<Longrightarrow> 1 \<le> i \<Longrightarrow> Suc (2 * nat (int (length s) - i)) \<le> 2 * length s"
  by (cases s) auto

text \<open>C39: The two codes \<open>doubleMetaphone\<close> returns are words over the fourteen code letters in which the
  vowel mark \<open>A\<close> can only be the first letter, and each has at most two letters per character of the
  normalised word; so the walk always ends, for every input and any Unicode service.\<close>

theorem doubleMetaphone_codes:
  "ok_codeword (fst (doubleMetaphone u v)) \<and> ok_codeword (snd (doubleMetaphone u v))
   \<and> length (fst (doubleMetaphone u v)) \<le> 2 * length (normalize u v)
   \<and> length (snd (doubleMetaphone u v)) \<le> 2 * length (normalize u v)"
proof (cases rule: doubleMetaphone_cases [of u v])
  case empty
  then show ?thesis by (simp add: ok_codeword_def)
next
  case (plain i0)
  then show ?thesis
    using dm_loop_ok [of "[]" "[]" i0] dm_loop_length [OF refl, of i0 "normalize u v" "[]" "[]"]
    by (auto simp: ok_codeword_def)
next
  case (initial_X i0)
  then show ?thesis
    using dm_loop_ok [of "''S''" "''S''" i0 "dm_word (normalize u v)"]
      dm_loop_length [OF refl, of i0 "normalize u v" "''S''" "''S''"]
      initial_X_room [OF initial_X(1-2)]
    by (auto simp: ok_codeword_def code_letters_def)
qed

text \<open>Inside the loop every look-ahead of the code, at most five places, reads a character (the five
  padding spaces suffice), and the step taken there moves the index by one to four places.\<close>

theorem dm_lookahead_defined:
  assumes "0 \<le> i" "i < wlen (dm_word s)" "0 \<le> k" "k \<le> 5"
  shows "ch (dm_word s) (i + k) \<noteq> None \<and> (\<exists>a b adv. dm_step (dm_word s) i = (a, b, adv) \<and> 1 \<le> adv \<and> adv \<le> 4)"
proof -
  obtain a b adv where "dm_step (dm_word s) i = (a, b, adv)" by (cases "dm_step (dm_word s) i") auto
  moreover from this have "1 \<le> adv \<and> adv \<le> 4" by (rule dm_step_adv)
  moreover have "ch (dm_word s) (i + k) \<noteq> None"
    using assms ch_dm_word [of "i + k" s] by simp
  ultimately show ?thesis by blast
qed

theorem dm_lookahead_defined_witness:
  "ch (dm_word ''FILIPOWICZ'') (6 + 4) \<noteq> None
   \<and> (\<exists>a b adv. dm_step (dm_word ''FILIPOWICZ'') 6 = (a, b, adv) \<and> 1 \<le> adv \<and> adv \<le> 4)"
  by (rule dm_lookahead_defined) simp_all

text \<open>The normalised word consists of capital letters and single inner spaces, whatever the input;
  and on ASCII text the key ignores case, so a name and its lower-case form share both codes.\<close>

theorem doubleMetaphone_case_insensitive:
  assumes "unicode_ascii u" "ascii v"
  shows "spaced_word (normalize u v) \<and> doubleMetaphone u (map low1 v) = doubleMetaphone u v"
  using unicode_ascii.normalize_low1 [OF assms] by (simp add: doubleMetaphone_def normalize_shape)

theorem doubleMetaphone_case_insensitive_witness:
  "spaced_word (normalize latin_unicode (js ''Mac Gregor''))
   \<and> doubleMetaphone latin_unicode (map low1 (js ''Mac Gregor'')) = doubleMetaphone latin_unicode (js ''Mac Gregor'')"
  by (rule doubleMetaphone_case_insensitive) (simp_all add: latin.unicode_ascii_axioms ascii_def)

text \<open>Normalising twice is normalising once, and a text with no letter (digits, punctuation, blanks)
  has the empty pair of codes.\<close>

theorem normalize_stable:
  assumes "unicode_ascii u"
  shows "normalize u (js (normalize u v)) = normalize u v
    \<and> (ascii d \<and> list_all (\<lambda>c. \<not> is_upper c \<and> \<not> is_lower c) d \<longrightarrow> doubleMetaphone u d = ('''', ''''))"
  using unicode_ascii.normalize_idem [OF assms] unicode_ascii.normalize_letter_free [OF assms]
  by (simp add: doubleMetaphone_def dm_codes_def)

theorem normalize_stable_witness:
  "normalize latin_unicode (js (normalize latin_unicode (js ''  e-Trade 24/7 ''))) = normalize latin_unicode (js ''  e-Trade 24/7 '')
   \<and> doubleMetaphone latin_unicode (js ''24/7'') = ('''', '''')"
proof -
  have "list_all (\<lambda>c. \<not> is_upper c \<and> \<not> is_lower c) (js ''24/7'')" and "ascii (js ''24/7'')"
    by (simp_all add: is_upper_def is_lower_def ascii_def)
  then show ?thesis
    using normalize_stable [OF latin.unicode_ascii_axioms, of "js ''  e-Trade 24/7 ''" "js ''24/7''"] by blast
qed

definition known_answers :: "(string \<times> string \<times> string) list" where
  "known_answers =
     [(''THOMPSON'', ''TMPSN'', ''TMPSN''), (''SMITH'', ''SM0'', ''XMT''), (''SCHMIDT'', ''XMT'', ''SMT''),
      (''CATHERINE'', ''K0RN'', ''KTRN''), (''KATHERINE'', ''K0RN'', ''KTRN''), (''TYMCZAK'', ''TMSK'', ''TMXK''),
      (''PFISTER'', ''PFSTR'', ''PFSTR''), (''WRIGHT'', ''RT'', ''RT''), (''XAVIER'', ''SF'', ''SFR''),
      (''CAESAR'', ''SSR'', ''SSR''), (''KNIGHT'', ''NT'', ''NT''), (''PSALM'', ''SLM'', ''SLM''),
      (''ARNOW'', ''ARN'', ''ARNF''), (''ARNOFF'', ''ARNF'', ''ARNF''), (''HOCHMEIER'', ''HKMR'', ''HKMR''),
      (''GNARL'', ''NRL'', ''NRL''), (''KNACK'', ''NK'', ''NK''), (''PNEUMATIC'', ''NMTK'', ''NMTK''),
      (''WRACK'', ''RK'', ''RK''), (''PSYCHO'', ''SX'', ''SK''), (''CHEMICAL'', ''KMKL'', ''KMKL''),
      (''CHORAL'', ''KRL'', ''KRL''), (''MICHAEL'', ''MKL'', ''MXL''), (''ACCIDENT'', ''AKSTNT'', ''AKSTNT''),
      (''SUCCEED'', ''SKST'', ''SKST''), (''FOCACCIA'', ''FKX'', ''FKX''), (''EDGE'', ''AJ'', ''AJ''),
      (''EDGAR'', ''ATKR'', ''ATKR''), (''THUMB'', ''0M'', ''TM''), (''DUMBER'', ''TMR'', ''TMR''),
      (''VAN AGEMA'', ''FNKM'', ''FNKM''), (''MCHUGH'', ''MK'', ''MK''), (''GHISLANE'', ''JLN'', ''JLN''),
      (''GHOUL'', ''KL'', ''KL''), (''LAUGH'', ''LF'', ''LF''), (''WEIGHT'', ''AT'', ''FT''),
      (''TAGLIARO'', ''TKLR'', ''TLR''), (''CAGNEY'', ''KKN'', ''KKN''), (''JOSE'', ''HS'', ''HS''),
      (''JOSEPH'', ''JSF'', ''HSF''), (''JANKELOWICZ'', ''JNKLTS'', ''ANKLFX''), (''BAJADOR'', ''PJTR'', ''PHTR''),
      (''SVARAJ'', ''SFRJ'', ''SFR''), (''ISLAND'', ''ALNT'', ''ALNT''), (''SUGAR'', ''XKR'', ''SKR''),
      (''SCHENKER'', ''XNKR'', ''SKNKR''), (''SCHOONER'', ''SKNR'', ''SKNR''), (''SCHLEPP'', ''XLP'', ''SLP''),
      (''TION'', ''XN'', ''XN''), (''CZERNY'', ''SRN'', ''XRN''), (''ZHAO'', ''J'', ''J''),
      (''MATRIX'', ''MTRKS'', ''MTRKS''), (''BREAUX'', ''PR'', ''PR''), (''FILIPOWICZ'', ''FLPTS'', ''FLPFX''),
      (''MAZURKIEWICZ'', ''MSRKTS'', ''MTSRKFX''), (''ANCIENT'', ''ANSNT'', ''ANXNT''), (''DELICIOUS'', ''TLSS'', ''TLXS'')]"


lemma known_answers_spaced: "list_all (\<lambda>(w, p, s). spaced_word w) known_answers"
  by (simp add: known_answers_def spaced_word_def is_upper_def)

lemma known_answers_codes: "list_all (\<lambda>(w, p, s). dm_codes w = (p, s)) known_answers"
  by code_simp

text \<open>On every published vector that \<open>driver/test/phonetic-key.test.mjs\<close> checks the code against, in
  capitals and in lower case, the key is the pair of codes of the reference implementation.\<close>

theorem doubleMetaphone_known_answers:
  assumes "unicode_ascii u" "(w, p, s) \<in> set known_answers"
  shows "doubleMetaphone u (js w) = (p, s) \<and> doubleMetaphone u (map low1 (js w)) = (p, s)"
proof -
  have w: "spaced_word w" "dm_codes w = (p, s)"
    using known_answers_spaced known_answers_codes assms(2) by (auto simp: list_all_iff)
  then have "ascii (js w)" using spaced_word_ascii by blast
  then show ?thesis
    using w unicode_ascii.normalize_spaced [OF assms(1)] unicode_ascii.normalize_low1 [OF assms(1)]
    by (simp add: doubleMetaphone_def)
qed

theorem doubleMetaphone_known_answers_witness:
  "doubleMetaphone latin_unicode (js ''SMITH'') = (''SM0'', ''XMT'')
   \<and> doubleMetaphone latin_unicode (map low1 (js ''SMITH'')) = (''SM0'', ''XMT'')"
  by (rule doubleMetaphone_known_answers [OF latin.unicode_ascii_axioms]) (simp add: known_answers_def)

end
