(* ===== verification/FormNeighbourhood.thy ===== *)
theory FormNeighbourhood
  imports Phonetic
begin

text \<open>
  The mechanical form neighbourhood of \<open>driver/form-neighbourhood.mjs\<close>: from one distinctive element of a
  mark, every spelling one edit away, the visual look-alikes, the transliterations, the consonant skeleton
  patterns and the phonetic keys, joined into the band of terms the register is searched for
  (\<open>formNeighbourhood\<close>). Terms are lists of code units, sets are insertion-ordered lists, and
  \<open>[...set].sort()\<close> is \<open>sorted_set\<close>.
\<close>

section \<open>Folding and normalisation\<close>

definition special_letters :: "(unit16 \<times> jstr) list" where
  "special_letters =
     [(223, js ''ss''), (216, js ''O''), (248, js ''o''), (198, js ''AE''), (230, js ''ae''), (338, js ''OE''),
      (339, js ''oe''), (208, js ''D''), (240, js ''d''), (222, js ''TH''), (254, js ''th''), (322, js ''l''),
      (321, js ''L'')]"

definition foldDiacritics :: "unicode \<Rightarrow> jstr \<Rightarrow> jstr" where
  "foldDiacritics u s =
     concat (map (\<lambda>c. case map_of special_letters c of None \<Rightarrow> [c] | Some r \<Rightarrow> r)
       (filter (\<lambda>c. \<not> is_mark c) (nfd u s)))"

definition is_alnum :: "unit16 \<Rightarrow> bool" where
  "is_alnum c \<longleftrightarrow> is_lower c \<or> is_digit c"

abbreviation is_element :: "jstr \<Rightarrow> bool" where
  "is_element w \<equiv> list_all is_alnum w"

definition normalizeElement :: "unicode \<Rightarrow> jstr \<Rightarrow> jstr" where
  "normalizeElement u s = filter is_alnum (to_lower u (foldDiacritics u s))"

definition AZ :: "unit16 list" where
  "AZ = js ''abcdefghijklmnopqrstuvwxyz''"

definition is_vowel :: "unit16 \<Rightarrow> bool" where
  "is_vowel c \<longleftrightarrow> c \<in> set (js ''aeiouy'')"

section \<open>The radius\<close>

datatype crowd_risk = High | Moderate | Low

record radius =
  r_element :: jstr
  r_length :: nat
  r_editRadius :: nat
  r_includePhoneticFamily :: bool
  r_includeConfusables :: bool
  r_crowdRisk :: crowd_risk

definition radiusFor :: "unicode \<Rightarrow> jstr \<Rightarrow> radius" where
  "radiusFor u element =
     (let el = normalizeElement u element; L = length el in
      \<lparr>r_element = el, r_length = L, r_editRadius = 1, r_includePhoneticFamily = True,
       r_includeConfusables = True,
       r_crowdRisk = (if L \<le> 4 then High else if L \<le> 6 then Moderate else Low)\<rparr>)"

section \<open>Generators\<close>

definition deletions :: "jstr \<Rightarrow> jstr list" where
  "deletions w = map (\<lambda>i. take i w @ drop (i + 1) w) [0 ..< length w]"

definition transpositions :: "jstr \<Rightarrow> jstr list" where
  "transpositions w = map (\<lambda>i. take i w @ [w ! (i + 1), w ! i] @ drop (i + 2) w) [0 ..< length w - 1]"

definition substitutions :: "jstr \<Rightarrow> jstr list" where
  "substitutions w =
     concat (map (\<lambda>i. map (\<lambda>c. take i w @ [c] @ drop (i + 1) w) (filter (\<lambda>c. c \<noteq> w ! i) AZ)) [0 ..< length w])"

definition insertions :: "jstr \<Rightarrow> jstr list" where
  "insertions w = concat (map (\<lambda>i. map (\<lambda>c. take i w @ [c] @ drop i w) AZ) [0 ..< length w + 1])"

definition editNeighbourhood :: "unicode \<Rightarrow> jstr \<Rightarrow> jstr list" where
  "editNeighbourhood u element =
     (let w = normalizeElement u element in
      sort (filter (\<lambda>t. t \<noteq> w)
        (set_of (deletions w @ transpositions w @ substitutions w @ insertions w))))"

definition dm_keys :: "unicode \<Rightarrow> jstr \<Rightarrow> string list" where
  "dm_keys u t = filter (\<lambda>k. k \<noteq> []) [fst (doubleMetaphone u t), snd (doubleMetaphone u t)]"

definition ordinaryWordDifferentSound :: "unicode \<Rightarrow> jstr \<Rightarrow> jstr list option \<Rightarrow> jstr list" where
  "ordinaryWordDifferentSound u element ordinaryWords =
     (let el = normalizeElement u element in
      case ordinaryWords of None \<Rightarrow> []
      | Some ws \<Rightarrow>
          if el = [] \<or> ws = [] then []
          else (let own = set_of (dm_keys u el) in
                filter (\<lambda>t. t \<in> set ws \<and> \<not> (\<exists>k \<in> set (dm_keys u t). k \<in> set own)) (editNeighbourhood u el)))"

definition consonantSkeleton :: "unicode \<Rightarrow> jstr \<Rightarrow> jstr" where
  "consonantSkeleton u element = remdups_adj (filter (\<lambda>c. \<not> is_vowel c) (normalizeElement u element))"

fun vowel_slots :: "bool \<Rightarrow> jstr \<Rightarrow> jstr" where
  "vowel_slots inrun [] = []"
| "vowel_slots inrun (c # cs) =
     (if is_vowel c then (if inrun then vowel_slots True cs else 63 # vowel_slots True cs)
      else c # vowel_slots False cs)"

definition has_wildcard :: "jstr \<Rightarrow> bool" where
  "has_wildcard p \<longleftrightarrow> 42 \<in> set p \<or> 63 \<in> set p"

definition skeletonPatterns :: "unicode \<Rightarrow> jstr \<Rightarrow> jstr list" where
  "skeletonPatterns u element =
     (let w = normalizeElement u element in
      if w = [] then []
      else (let pat = vowel_slots False w;
                sk = consonantSkeleton u w;
                out = (if length sk \<ge> 2 then set_add [hd sk, 42, last sk] [pat] else [pat])
            in filter has_wildcard out))"

definition HOMOGLYPH_SUB :: "(unit16 \<times> jstr list) list" where
  "HOMOGLYPH_SUB =
     [(111, [js ''0'']), (48, [js ''o'']), (108, [js ''1'', js ''i'']), (105, [js ''1'', js ''l'']),
      (49, [js ''l'', js ''i'']), (115, [js ''5'', js ''z'']), (122, [js ''s'']), (98, [js ''8'']),
      (97, [js ''@'']), (101, [js ''3'']), (103, [js ''9'', js ''q'']), (116, [js ''7'']), (117, [js ''v'']),
      (118, [js ''u'']), (99, [js ''k'']), (107, [js ''c'']), (102, [js ''ph'']), (121, [js ''i''])]"

definition MULTIGRAPH :: "(jstr \<times> jstr) list" where
  "MULTIGRAPH = [(js ''m'', js ''rn''), (js ''w'', js ''vv''), (js ''d'', js ''cl''), (js ''m'', js ''nn'')]"

definition confusableSkeleton :: "unicode \<Rightarrow> jstr \<Rightarrow> jstr" where
  "confusableSkeleton u s =
     (let w = to_lower u (foldDiacritics u s);
          w1 = map (\<lambda>c. if c = 48 then 111 else if c = 49 \<or> c = 33 \<or> c = 124 then 108 else if c = 53 then 115
             else if c = 56 then 98 else if c = 51 then 101 else if c = 64 then 97 else if c = 55 then 116 else c) w;
          w2 = replace_all (js ''cl'') (js ''d'') (replace_all (js ''vv'') (js ''w'') (replace_all (js ''rn'') (js ''m'') w1))
      in filter is_alnum w2)"

definition glyph_swaps :: "jstr \<Rightarrow> jstr list" where
  "glyph_swaps w =
     concat (map (\<lambda>i. case map_of HOMOGLYPH_SUB (w ! i) of None \<Rightarrow> []
       | Some subs \<Rightarrow> map (\<lambda>r. take i w @ r @ drop (i + 1) w) subs) [0 ..< length w])"

definition multigraph_swaps :: "jstr \<Rightarrow> jstr list" where
  "multigraph_swaps w =
     concat (map (\<lambda>(a, b). (if js_includes a w then [replace_all a b w] else [])
       @ (if js_includes b w then [replace_all b a w] else [])) MULTIGRAPH)"

definition visualConfusables :: "unicode \<Rightarrow> jstr \<Rightarrow> nat \<Rightarrow> jstr list" where
  "visualConfusables u element mx =
     (let w = normalizeElement u element in
      take mx (sort (filter (\<lambda>t. t \<noteq> w) (set_of (glyph_swaps w @ multigraph_swaps w)))))"

datatype script = LatinDiacritic | German | Nordic | CyrillicHomoglyph | GreekHomoglyph

definition SUPPORTED_SCRIPTS :: "script list" where
  "SUPPORTED_SCRIPTS = [LatinDiacritic, German, Nordic, CyrillicHomoglyph, GreekHomoglyph]"

definition DIACRITIC_MAP :: "(unit16 \<times> unit16 list) list" where
  "DIACRITIC_MAP =
     [(97, [225, 224, 226, 228, 227, 229]), (101, [233, 232, 234, 235]), (105, [237, 236, 238, 239]),
      (111, [243, 242, 244, 246, 245, 248]), (117, [250, 249, 251, 252]), (110, [241]), (99, [231]),
      (115, [353, 223]), (121, [253, 255]), (122, [382])]"

definition CYRILLIC_LOOKALIKE :: "(unit16 \<times> unit16) list" where
  "CYRILLIC_LOOKALIKE =
     [(97, 1072), (101, 1077), (111, 1086), (112, 1088), (99, 1089), (121, 1091), (120, 1093), (107, 1082),
      (109, 1084), (116, 1090), (104, 1085), (98, 1074)]"

definition GREEK_LOOKALIKE :: "(unit16 \<times> unit16) list" where
  "GREEK_LOOKALIKE =
     [(97, 945), (98, 946), (101, 949), (105, 953), (111, 959), (112, 961), (116, 964), (120, 967), (121, 965),
      (110, 951), (107, 954), (109, 956)]"

fun index_of :: "'a \<Rightarrow> 'a list \<Rightarrow> nat option" where
  "index_of x [] = None"
| "index_of x (c # cs) = (if c = x then Some 0 else map_option Suc (index_of x cs))"

definition diacritic_forms :: "jstr \<Rightarrow> jstr list" where
  "diacritic_forms w =
     concat (map (\<lambda>(base, accents). case index_of base w of None \<Rightarrow> []
       | Some i \<Rightarrow> map (\<lambda>acc. take i w @ [acc] @ drop (i + 1) w) accents) DIACRITIC_MAP)"

definition lookalike :: "(unit16 \<times> unit16) list \<Rightarrow> jstr \<Rightarrow> jstr" where
  "lookalike tab w = map (\<lambda>c. case map_of tab c of None \<Rightarrow> c | Some d \<Rightarrow> d) w"

definition transliterations :: "unicode \<Rightarrow> jstr \<Rightarrow> script list \<Rightarrow> jstr list" where
  "transliterations u element scripts =
     (let w = normalizeElement u element;
          conv = (if German \<in> set scripts \<or> Nordic \<in> set scripts
            then [replace_all (js ''ue'') (js ''u'') (replace_all (js ''oe'') (js ''o'') (replace_all (js ''ae'') (js ''a'') w)),
                  replace_all (js ''u'') (js ''ue'') (replace_all (js ''o'') (js ''oe'') (replace_all (js ''a'') (js ''ae'') w)),
                  replace_all (js ''ss'') (js ''s'') w] else []);
          dia = (if LatinDiacritic \<in> set scripts then diacritic_forms w else []);
          cyr = (if CyrillicHomoglyph \<in> set scripts \<and> lookalike CYRILLIC_LOOKALIKE w \<noteq> w
            then [lookalike CYRILLIC_LOOKALIKE w] else []);
          grk = (if GreekHomoglyph \<in> set scripts \<and> lookalike GREEK_LOOKALIKE w \<noteq> w
            then [lookalike GREEK_LOOKALIKE w] else [])
      in sort (filter (\<lambda>t. t \<noteq> []) (filter (\<lambda>t. t \<noteq> w) (set_of (conv @ dia @ cyr @ grk)))))"

definition mixesLatinWithGreekOrCyrillic :: "unicode \<Rightarrow> jstr \<Rightarrow> bool" where
  "mixesLatinWithGreekOrCyrillic u s \<longleftrightarrow> list_ex (latin_script u) s \<and> list_ex (greek_cyrillic u) s"

section \<open>The band\<close>

definition fold_key :: "unicode \<Rightarrow> jstr \<Rightarrow> jstr" where
  "fold_key u s = to_lower u (foldDiacritics u s)"

definition dedupeOnFold :: "unicode \<Rightarrow> jstr list \<Rightarrow> jstr \<Rightarrow> jstr list" where
  "dedupeOnFold u terms element =
     first_per_key (\<lambda>t. nonempty (fold_key u t)) [fold_key u element] (sorted_set terms)"

datatype mechanism =
    EditExhaustive | EditLessOrdinary | DroppedByScope | SkeletonAndKeys "string list"
  | NoPatternKeysVerify "string list" | NoPatternNoKeys | HomoglyphTable | ScopedScripts "script list"

record axis_row =
  ax_axis :: string
  ax_count :: nat
  ax_generated :: "nat option"
  ax_not_searched :: "nat option"
  ax_mechanism :: mechanism

record band =
  b_element :: jstr
  b_radius :: radius
  b_exactQueries :: "jstr list"
  b_wildcardPatterns :: "jstr list"
  b_phoneticKeys :: "string list"
  b_confusables :: "jstr list"
  b_transliterations :: "jstr list"
  b_ordinary :: "jstr list"
  b_mixedNotSearched :: "jstr list option"
  b_dropped_axes :: "string list"
  b_axes :: "axis_row list"

record band_opts =
  o_scripts :: "script list"
  o_droppedAxes :: "string list"
  o_ordinaryWords :: "jstr list option"
  o_mixedScriptQuery :: "bool option"

definition formNeighbourhood :: "unicode \<Rightarrow> jstr \<Rightarrow> band_opts \<Rightarrow> band" where
  "formNeighbourhood u element opts =
     (let rad = radiusFor u element; el = r_element rad in
      if el = [] then
        \<lparr>b_element = [], b_radius = rad, b_exactQueries = [], b_wildcardPatterns = [], b_phoneticKeys = [],
         b_confusables = [], b_transliterations = [], b_ordinary = [], b_mixedNotSearched = None,
         b_dropped_axes = [], b_axes = []\<rparr>
      else
       (let drp = set_of (o_droppedAxes opts);
            generatedEdits = editNeighbourhood u el;
            notSearched = ordinaryWordDifferentSound u el (o_ordinaryWords opts);
            edits = filter (\<lambda>t. t \<notin> set notSearched) generatedEdits;
            confs = (if ''visual-confusable'' \<in> set drp then [] else visualConfusables u el 60);
            generatedTrans = (if ''transliteration'' \<in> set drp then [] else transliterations u el (o_scripts opts));
            noMixed = (o_mixedScriptQuery opts = Some False);
            mixedNotSearched = (if noMixed then filter (mixesLatinWithGreekOrCyrillic u) generatedTrans else []);
            trans = filter (\<lambda>t. t \<notin> set mixedNotSearched) generatedTrans;
            wildcards = (if ''phonetic-family'' \<in> set drp then [] else skeletonPatterns u el);
            keys = (if ''phonetic-family'' \<in> set drp then [] else dm_keys u el);
            exactQueries = dedupeOnFold u (edits @ confs @ trans) el
        in
        \<lparr>b_element = el, b_radius = rad, b_exactQueries = exactQueries, b_wildcardPatterns = wildcards,
         b_phoneticKeys = keys, b_confusables = confs, b_transliterations = trans, b_ordinary = notSearched,
         b_mixedNotSearched = (if noMixed then Some mixedNotSearched else None),
         b_dropped_axes = sort drp,
         b_axes =
          [\<lparr>ax_axis = ''edit-1'', ax_count = length edits, ax_generated = Some (length generatedEdits),
            ax_not_searched = Some (length notSearched),
            ax_mechanism = (if notSearched \<noteq> [] then EditLessOrdinary else EditExhaustive)\<rparr>,
           \<lparr>ax_axis = ''phonetic-family'', ax_count = length wildcards, ax_generated = None,
            ax_not_searched = None,
            ax_mechanism = (if ''phonetic-family'' \<in> set drp then DroppedByScope
              else if wildcards \<noteq> [] then SkeletonAndKeys keys
              else if keys \<noteq> [] then NoPatternKeysVerify keys else NoPatternNoKeys)\<rparr>,
           \<lparr>ax_axis = ''visual-confusable'', ax_count = length confs, ax_generated = None,
            ax_not_searched = None,
            ax_mechanism = (if ''visual-confusable'' \<in> set drp then DroppedByScope else HomoglyphTable)\<rparr>,
           \<lparr>ax_axis = ''transliteration'', ax_count = length trans,
            ax_generated = (if noMixed then Some (length generatedTrans) else None),
            ax_not_searched = (if noMixed then Some (length mixedNotSearched) else None),
            ax_mechanism = (if ''transliteration'' \<in> set drp then DroppedByScope
              else ScopedScripts (o_scripts opts))\<rparr>]\<rparr>))"

section \<open>The coverage oracle\<close>

record gaps =
  g_complete :: bool
  g_missingExact :: "jstr list"
  g_familyDispatched :: bool
  g_familyExplained :: bool

definition coverageGaps :: "unicode \<Rightarrow> band \<Rightarrow> jstr list \<Rightarrow> jstr list \<Rightarrow> gaps" where
  "coverageGaps u b dispatched explained =
     (let nrm = normalizeElement u;
          have = set_of (map nrm dispatched);
          excused = set_of (map nrm explained);
          missing = filter (\<lambda>q. nrm q \<notin> set have \<and> nrm q \<notin> set excused) (b_exactQueries b);
          family = ((\<exists>p \<in> set (b_wildcardPatterns b). nrm p \<in> set have)
            \<or> (\<exists>k \<in> set (b_phoneticKeys b). nrm (js k) \<in> set have)
            \<or> (\<exists>d \<in> set dispatched. has_wildcard d));
          famExplained = (\<exists>p \<in> set (b_wildcardPatterns b). nrm p \<in> set excused)
      in \<lparr>g_complete = (missing = [] \<and> (if b_wildcardPatterns b \<noteq> [] then family \<or> famExplained else True)),
          g_missingExact = missing, g_familyDispatched = family, g_familyExplained = famExplained\<rparr>)"

datatype directive =
    Systemic jstr nat "jstr list"
  | MissingForm jstr jstr
  | MissingFamily jstr "jstr list"

definition directives_for :: "unicode \<Rightarrow> jstr list \<Rightarrow> jstr list \<Rightarrow> nat \<Rightarrow> jstr \<times> band \<Rightarrow> directive list" where
  "directives_for u dispatched explained maxIndividual el =
     (let g = coverageGaps u (snd el) dispatched explained; miss = g_missingExact g in
      if g_complete g then []
      else (if length miss > maxIndividual then [Systemic (fst el) (length miss) (take 6 miss)]
            else map (MissingForm (fst el)) miss)
        @ (if \<not> g_familyDispatched g \<and> \<not> g_familyExplained g \<and> b_wildcardPatterns (snd el) \<noteq> []
           then [MissingFamily (fst el) (b_wildcardPatterns (snd el))] else []))"

definition formGapDirectives ::
  "unicode \<Rightarrow> (jstr \<times> band) list \<Rightarrow> jstr list \<Rightarrow> jstr list \<Rightarrow> nat \<Rightarrow> directive list" where
  "formGapDirectives u elements dispatched explained maxIndividual =
     concat (map (directives_for u dispatched explained maxIndividual) elements)"

section \<open>Elements\<close>

lemma alnum_ascii: "is_alnum c \<Longrightarrow> c < 128"
  by (auto simp: is_alnum_def is_lower_def is_digit_def)

lemma element_ascii: "is_element w \<Longrightarrow> ascii w"
  by (auto simp: ascii_def list_all_iff dest: alnum_ascii)

lemma normalizeElement_element [simp]: "is_element (normalizeElement u s)"
  by (simp add: normalizeElement_def list_all_iff)

lemma special_letters_ascii: "c < 128 \<Longrightarrow> map_of special_letters c = None"
  by (auto simp: special_letters_def)

lemma AZ_upt: "AZ = [97 ..< 123]"
  by (simp add: AZ_def upt_rec)

lemma AZ_lower: "c \<in> set AZ \<longleftrightarrow> is_lower c"
  unfolding AZ_upt set_upt by (auto simp: is_lower_def)

lemma length_AZ [simp]: "length AZ = 26" and distinct_AZ [simp]: "distinct AZ"
  by (simp_all add: AZ_def)

context unicode_ascii
begin

lemma fold_ascii: "ascii s \<Longrightarrow> foldDiacritics u s = s"
proof -
  assume s: "ascii s"
  then have "filter (\<lambda>c. \<not> is_mark c) s = s"
    by (auto simp: ascii_def list_all_iff is_mark_def filter_id_conv)
  moreover have "concat (map (\<lambda>c. case map_of special_letters c of None \<Rightarrow> [c] | Some r \<Rightarrow> r) s) = s"
    using s by (induction s) (auto simp: ascii_def special_letters_ascii)
  ultimately show ?thesis using s by (simp add: foldDiacritics_def nfd_ascii)
qed

lemma fold_key_ascii: "ascii s \<Longrightarrow> fold_key u s = map low1 s"
  by (simp add: fold_key_def fold_ascii to_lower_ascii)

lemma map_low1_element: "is_element w \<Longrightarrow> map low1 w = w"
  by (induction w) (auto simp: is_alnum_def low1_def is_upper_def is_lower_def is_digit_def)

lemma fold_key_element: "is_element w \<Longrightarrow> fold_key u w = w"
  by (simp add: fold_key_ascii element_ascii map_low1_element)

lemma normalizeElement_id: "is_element w \<Longrightarrow> normalizeElement u w = w"
  using map_low1_element [of w]
  by (simp add: normalizeElement_def fold_ascii to_lower_ascii element_ascii filter_id_conv list_all_iff)

lemma normalizeElement_idem [simp]: "normalizeElement u (normalizeElement u s) = normalizeElement u s"
  by (rule normalizeElement_id) simp

end

section \<open>Edit-1\<close>

text \<open>The specification: one deletion, adjacent transposition, substitution or insertion of a letter.\<close>

inductive edit1 :: "jstr \<Rightarrow> jstr \<Rightarrow> bool" where
  edit_delete: "edit1 (a @ x # b) (a @ b)"
| edit_transpose: "edit1 (a @ x # y # b) (a @ y # x # b)"
| edit_substitute: "is_lower c \<Longrightarrow> edit1 (a @ x # b) (a @ c # b)"
| edit_insert: "is_lower c \<Longrightarrow> edit1 (a @ b) (a @ c # b)"

lemma split_at: "i < length w \<Longrightarrow> w = take i w @ w ! i # drop (i + 1) w"
  using id_take_nth_drop [of i w] by simp

lemma set_deletions: "t \<in> set (deletions w) \<longleftrightarrow> (\<exists>a x b. w = a @ x # b \<and> t = a @ b)"
proof
  assume "t \<in> set (deletions w)"
  then obtain i where "i < length w" "t = take i w @ drop (i + 1) w" by (auto simp: deletions_def)
  then show "\<exists>a x b. w = a @ x # b \<and> t = a @ b" using split_at [of i w] by blast
next
  assume "\<exists>a x b. w = a @ x # b \<and> t = a @ b"
  then obtain a x b where "w = a @ x # b" "t = a @ b" by blast
  then show "t \<in> set (deletions w)"
    by (auto simp: deletions_def intro!: image_eqI [where x = "length a"])
qed

lemma set_transpositions: "t \<in> set (transpositions w) \<longleftrightarrow> (\<exists>a x y b. w = a @ x # y # b \<and> t = a @ y # x # b)"
proof
  assume "t \<in> set (transpositions w)"
  then obtain i where i: "i < length w - 1" "t = take i w @ [w ! (i + 1), w ! i] @ drop (i + 2) w"
    by (auto simp: transpositions_def)
  have "w = take i w @ w ! i # w ! (i + 1) # drop (i + 2) w"
    using split_at [of i w] i(1) Cons_nth_drop_Suc [of "i + 1" w] by simp
  then show "\<exists>a x y b. w = a @ x # y # b \<and> t = a @ y # x # b" using i(2) by fastforce
next
  assume "\<exists>a x y b. w = a @ x # y # b \<and> t = a @ y # x # b"
  then obtain a x y b where "w = a @ x # y # b" "t = a @ y # x # b" by blast
  then show "t \<in> set (transpositions w)"
    by (auto simp: transpositions_def nth_append intro!: image_eqI [where x = "length a"])
qed

lemma set_substitutions:
  "t \<in> set (substitutions w) \<longleftrightarrow> (\<exists>a x b c. w = a @ x # b \<and> t = a @ c # b \<and> is_lower c \<and> c \<noteq> x)"
proof
  assume "t \<in> set (substitutions w)"
  then obtain i c where i: "i < length w" "c \<in> set AZ" "c \<noteq> w ! i" "t = take i w @ [c] @ drop (i + 1) w"
    by (auto simp: substitutions_def)
  then show "\<exists>a x b c. w = a @ x # b \<and> t = a @ c # b \<and> is_lower c \<and> c \<noteq> x"
    using split_at [of i w] by (fastforce simp: AZ_lower)
next
  assume "\<exists>a x b c. w = a @ x # b \<and> t = a @ c # b \<and> is_lower c \<and> c \<noteq> x"
  then obtain a x b c where "w = a @ x # b" "t = a @ c # b" "is_lower c" "c \<noteq> x" by blast
  then show "t \<in> set (substitutions w)"
    by (auto simp: substitutions_def AZ_lower intro!: bexI [where x = "length a"] image_eqI [where x = c])
qed

lemma set_insertions: "t \<in> set (insertions w) \<longleftrightarrow> (\<exists>a b c. w = a @ b \<and> t = a @ c # b \<and> is_lower c)"
proof
  assume "t \<in> set (insertions w)"
  then obtain i c where i: "i \<le> length w" "c \<in> set AZ" "t = take i w @ [c] @ drop i w"
    by (auto simp: insertions_def less_Suc_eq_le simp del: upt_Suc)
  then have "w = take i w @ drop i w" "t = take i w @ c # drop i w" "is_lower c"
    by (simp_all add: AZ_lower)
  then show "\<exists>a b c. w = a @ b \<and> t = a @ c # b \<and> is_lower c" by blast
next
  assume "\<exists>a b c. w = a @ b \<and> t = a @ c # b \<and> is_lower c"
  then obtain a b c where "w = a @ b" "t = a @ c # b" "is_lower c" by blast
  then show "t \<in> set (insertions w)"
    by (auto simp: insertions_def AZ_lower intro!: bexI [where x = "length a"] image_eqI [where x = c])
qed

lemma edit1_iff:
  "t \<noteq> w \<Longrightarrow> edit1 w t \<longleftrightarrow>
     t \<in> set (deletions w) \<or> t \<in> set (transpositions w) \<or> t \<in> set (substitutions w) \<or> t \<in> set (insertions w)"
  unfolding edit1.simps set_deletions set_transpositions set_substitutions set_insertions by blast

lemma set_editNeighbourhood:
  "t \<in> set (editNeighbourhood u s) \<longleftrightarrow> edit1 (normalizeElement u s) t \<and> t \<noteq> normalizeElement u s"
  by (auto simp: editNeighbourhood_def Let_def edit1_iff)

lemma sorted_editNeighbourhood: "sorted (editNeighbourhood u s)" "distinct (editNeighbourhood u s)"
  by (simp_all add: editNeighbourhood_def Let_def)

lemma length_const_concat: "(\<And>x. x \<in> set xs \<Longrightarrow> length (f x) = k) \<Longrightarrow> length (concat (map f xs)) = k * length xs"
  by (induction xs) auto

lemma length_substitutions:
  "list_all is_lower w \<Longrightarrow> length (substitutions w) = 25 * length w"
  unfolding substitutions_def
proof (subst length_const_concat [where k = 25])
  fix i assume w: "list_all is_lower w" and "i \<in> set [0 ..< length w]"
  then have "w ! i \<in> set AZ" by (auto simp: AZ_lower list_all_length)
  moreover have "filter (\<lambda>c. c \<noteq> w ! i) AZ = remove1 (w ! i) AZ"
    by (auto simp: distinct_remove1_removeAll removeAll_filter_not_eq intro: filter_cong)
  ultimately show "length (map (\<lambda>c. take i w @ [c] @ drop (i + 1) w) (filter (\<lambda>c. c \<noteq> w ! i) AZ)) = 25"
    by (simp add: length_remove1)
qed simp

lemma length_insertions: "length (insertions w) = 26 * length w + 26"
  unfolding insertions_def by (subst length_const_concat [where k = 26]) simp_all

lemma length_editNeighbourhood:
  assumes "list_all is_lower (normalizeElement u s)" "normalizeElement u s \<noteq> []"
  shows "length (editNeighbourhood u s) \<le> 53 * length (normalizeElement u s) + 25"
proof -
  define w where "w = normalizeElement u s"
  define c where "c = deletions w @ transpositions w @ substitutions w @ insertions w"
  have "length c = length w + (length w - 1) + 25 * length w + (26 * length w + 26)"
    using assms(1) by (simp add: c_def w_def deletions_def transpositions_def length_substitutions length_insertions)
  also have "\<dots> = 53 * length w + 25" using assms(2) by (cases w) (simp_all add: w_def)
  finally have "length (set_of c) \<le> 53 * length w + 25" using length_set_of_le [of c] by simp
  moreover have "length (editNeighbourhood u s) \<le> length (set_of c)"
    by (simp add: editNeighbourhood_def Let_def w_def [symmetric] c_def [symmetric])
  ultimately show ?thesis by (simp add: w_def)
qed

section \<open>Deduplication on the fold\<close>

text \<open>
  The contract of a fold that decides when two terms are the same search: it leaves the normalised
  elements alone. Whatever fold keeps it, a list deduplicated on the fold still answers for every element.
\<close>

locale term_fold =
  fixes fold :: "jstr \<Rightarrow> jstr"
  assumes fold_elem: "is_element w \<Longrightarrow> fold w = w"
begin

lemma represented:
  assumes "t \<in> set ts" "is_element t" "t \<noteq> []" "t \<notin> set seen"
  shows "\<exists>q \<in> set (first_per_key (\<lambda>t. nonempty (fold t)) seen ts). fold q = t"
  using first_per_key_complete [of t ts "\<lambda>t. nonempty (fold t)" t seen] assms fold_elem by auto

end

sublocale unicode_ascii \<subseteq> fk: term_fold "fold_key u"
  by unfold_locales (rule fold_key_element)

lemma dedupe_subset: "q \<in> set (dedupeOnFold u ts el) \<Longrightarrow> q \<in> set ts"
  using first_per_key_subset [of _ _ "sorted_set ts"] by (auto simp: dedupeOnFold_def)

lemma dedupe_new: "q \<in> set (dedupeOnFold u ts el) \<Longrightarrow> fold_key u q \<noteq> [] \<and> fold_key u q \<noteq> fold_key u el"
  unfolding dedupeOnFold_def by (drule first_per_key_new) auto

lemma dedupe_distinct: "distinct (map (fold_key u) (dedupeOnFold u ts el))"
proof -
  let ?r = "dedupeOnFold u ts el"
  have "distinct (map (\<lambda>t. nonempty (fold_key u t)) ?r)"
    unfolding dedupeOnFold_def by (rule first_per_key_distinct)
  then have "inj_on (\<lambda>t. nonempty (fold_key u t)) (set ?r)" "distinct ?r"
    by (simp_all add: distinct_map)
  moreover have "inj_on (fold_key u) (set ?r)"
    using calculation(1) by (simp add: inj_on_def nonempty_def)
  ultimately show ?thesis by (simp add: distinct_map)
qed

lemma dedupe_complete:
  "t \<in> set ts \<Longrightarrow> fold_key u t \<noteq> [] \<Longrightarrow> fold_key u t \<noteq> fold_key u el
   \<Longrightarrow> \<exists>q \<in> set (dedupeOnFold u ts el). fold_key u q = fold_key u t"
  using first_per_key_complete [of t "sorted_set ts" "\<lambda>t. nonempty (fold_key u t)" "fold_key u t" "[fold_key u el]"]
  by (auto simp: dedupeOnFold_def)

section \<open>Characters of the generated terms\<close>

lemma edit1_element: "edit1 w t \<Longrightarrow> is_element w \<Longrightarrow> is_element t"
  by (induction rule: edit1.induct) (auto simp: is_alnum_def)

lemma editNeighbourhood_element: "t \<in> set (editNeighbourhood u s) \<Longrightarrow> is_element t"
  using set_editNeighbourhood edit1_element normalizeElement_element by blast

lemma HOMOGLYPH_SUB_ascii: "map_of HOMOGLYPH_SUB c = Some rs \<Longrightarrow> r \<in> set rs \<Longrightarrow> ascii r"
  by (auto simp: HOMOGLYPH_SUB_def ascii_def split: if_splits)

lemma glyph_swaps_ascii:
  assumes "ascii w" "t \<in> set (glyph_swaps w)"
  shows "ascii t"
proof -
  obtain i rs r where "map_of HOMOGLYPH_SUB (w ! i) = Some rs" "r \<in> set rs" "t = take i w @ r @ drop (i + 1) w"
    using assms(2) by (auto simp: glyph_swaps_def split: option.splits dest!: sym [of "Some _"])
  then show ?thesis
    using assms(1) HOMOGLYPH_SUB_ascii by (auto simp: ascii_def list_all_iff dest: in_set_takeD in_set_dropD)
qed

lemma ascii_replace_all: "ascii r \<Longrightarrow> ascii s \<Longrightarrow> ascii (replace_all p r s)"
  using set_replace_all [of p r s] by (auto simp: ascii_def list_all_iff)

lemma multigraph_swaps_ascii: "ascii w \<Longrightarrow> t \<in> set (multigraph_swaps w) \<Longrightarrow> ascii t"
  by (auto simp: multigraph_swaps_def MULTIGRAPH_def intro!: ascii_replace_all split: if_splits)
    (simp_all add: ascii_def)

lemma visualConfusables_ascii: "t \<in> set (visualConfusables u s mx) \<Longrightarrow> ascii t"
proof -
  assume "t \<in> set (visualConfusables u s mx)"
  then have "t \<in> set (glyph_swaps (normalizeElement u s)) \<or> t \<in> set (multigraph_swaps (normalizeElement u s))"
    by (auto simp: visualConfusables_def Let_def dest!: in_set_takeD)
  then show "ascii t"
    using glyph_swaps_ascii multigraph_swaps_ascii element_ascii normalizeElement_element by blast
qed

context unicode_ascii
begin

lemma ascii_not_mixed: "ascii t \<Longrightarrow> \<not> mixesLatinWithGreekOrCyrillic u t"
  by (auto simp: mixesLatinWithGreekOrCyrillic_def list_ex_iff ascii_def list_all_iff greek_ascii)

end

section \<open>Consonant skeleton patterns\<close>

text \<open>What the register's wildcards mean: \<open>?\<close> (63) is any one character, \<open>*\<close> (42) any run.\<close>

fun glob :: "jstr \<Rightarrow> jstr \<Rightarrow> bool" where
  "glob [] t = (t = [])"
| "glob (p # ps) t =
     (if p = 42 then list_ex (\<lambda>k. glob ps (drop k t)) [0 ..< Suc (length t)]
      else case t of [] \<Rightarrow> False | c # cs \<Rightarrow> (p = 63 \<or> p = c) \<and> glob ps cs)"

fun no_adjacent_vowels :: "jstr \<Rightarrow> bool" where
  "no_adjacent_vowels (a # b # s) = (\<not> (is_vowel a \<and> is_vowel b) \<and> no_adjacent_vowels (b # s))"
| "no_adjacent_vowels _ = True"

text \<open>Two spellings of one family: equal but for which vowel stands at a vowel place.\<close>

definition vowel_family :: "jstr \<Rightarrow> jstr \<Rightarrow> bool" where
  "vowel_family w t \<longleftrightarrow> list_all2 (\<lambda>a b. if is_vowel a then is_vowel b else b = a) w t"

lemma vowel_family_refl: "vowel_family w w"
  by (simp add: vowel_family_def list_all2_same)

lemma alnum_not_wild: "is_alnum c \<Longrightarrow> c \<noteq> 42 \<and> c \<noteq> 63"
  by (auto simp: is_alnum_def is_lower_def is_digit_def)

lemma vowel_slots_True_False:
  "no_adjacent_vowels (v # w) \<Longrightarrow> is_vowel v \<Longrightarrow> vowel_slots True w = vowel_slots False w"
  by (cases w) auto

lemma no_adjacent_vowels_tl: "no_adjacent_vowels (a # w) \<Longrightarrow> no_adjacent_vowels w"
  by (cases w) auto

lemma vowel_slots_glob:
  "is_element w \<Longrightarrow> no_adjacent_vowels w \<Longrightarrow> vowel_family w t \<Longrightarrow> glob (vowel_slots False w) t"
proof (induction w arbitrary: t)
  case Nil
  then show ?case by (simp add: vowel_family_def)
next
  case (Cons a w)
  from Cons.prems(3) obtain b t' where t: "t = b # t'" "if is_vowel a then is_vowel b else b = a" "vowel_family w t'"
    by (auto simp: vowel_family_def list_all2_Cons1)
  have IH: "glob (vowel_slots False w) t'"
    using Cons t no_adjacent_vowels_tl by auto
  show ?case
    using IH t Cons.prems vowel_slots_True_False [of a w] alnum_not_wild [of a] by auto
qed

lemma glob_length: "42 \<notin> set p \<Longrightarrow> glob p t \<Longrightarrow> length t = length p"
  by (induction p t rule: glob.induct) (auto split: list.splits)

lemma vowel_slots_no_star: "is_element w \<Longrightarrow> 42 \<notin> set (vowel_slots b w)"
  by (induction b w rule: vowel_slots.induct) (auto dest: alnum_not_wild)

lemma vowel_slots_length: "length (vowel_slots b w) \<le> length w"
  by (induction b w rule: vowel_slots.induct) auto

lemma vowel_slots_shorter: "\<not> no_adjacent_vowels w \<Longrightarrow> length (vowel_slots b w) < length w"
proof (induction w arbitrary: b rule: no_adjacent_vowels.induct)
  case (1 x y s)
  show ?case
  proof (cases "is_vowel x \<and> is_vowel y")
    case True
    then show ?thesis using vowel_slots_length [of True s] by (auto simp: less_Suc_eq_le le_SucI)
  next
    case False
    then have IH: "length (vowel_slots b' (y # s)) < length (y # s)" for b' using 1 by simp
    show ?thesis using IH [of True] IH [of False] by (auto simp del: vowel_slots.simps simp: vowel_slots.simps(2) [of _ x])
  qed
qed simp_all

lemma set_skeletonPatterns:
  "p \<in> set (skeletonPatterns u s) \<longleftrightarrow>
    (let w = normalizeElement u s; sk = consonantSkeleton u w in
     w \<noteq> [] \<and> has_wildcard p \<and> (p = vowel_slots False w \<or> (length sk \<ge> 2 \<and> p = [hd sk, 42, last sk])))"
  by (auto simp: skeletonPatterns_def Let_def)

section \<open>Facts about the band\<close>

lemma vowel_slots_wildcard: "list_ex is_vowel w \<Longrightarrow> has_wildcard (vowel_slots False w)"
  by (induction w) (auto simp: has_wildcard_def)

lemma b_element_form: "b_element (formNeighbourhood u s opts) = normalizeElement u s"
  by (simp add: formNeighbourhood_def Let_def radiusFor_def)

lemma form_empty:
  "normalizeElement u s = [] \<Longrightarrow> b_exactQueries (formNeighbourhood u s opts) = []
    \<and> b_ordinary (formNeighbourhood u s opts) = [] \<and> b_mixedNotSearched (formNeighbourhood u s opts) = None"
  by (simp add: formNeighbourhood_def Let_def radiusFor_def)

lemma form_fields:
  assumes "normalizeElement u s \<noteq> []"
  shows form_ordinary: "b_ordinary (formNeighbourhood u s opts)
      = ordinaryWordDifferentSound u (normalizeElement u s) (o_ordinaryWords opts)"
    and form_confusables: "b_confusables (formNeighbourhood u s opts)
      = (if ''visual-confusable'' \<in> set (o_droppedAxes opts) then [] else visualConfusables u (normalizeElement u s) 60)"
    and form_transliterations: "b_transliterations (formNeighbourhood u s opts)
      = (if ''transliteration'' \<in> set (o_droppedAxes opts) then []
         else filter (\<lambda>t. o_mixedScriptQuery opts = Some False \<longrightarrow> \<not> mixesLatinWithGreekOrCyrillic u t)
           (transliterations u (normalizeElement u s) (o_scripts opts)))"
    and form_mixed: "b_mixedNotSearched (formNeighbourhood u s opts)
      = (if o_mixedScriptQuery opts = Some False
         then Some (if ''transliteration'' \<in> set (o_droppedAxes opts) then []
           else filter (mixesLatinWithGreekOrCyrillic u) (transliterations u (normalizeElement u s) (o_scripts opts)))
         else None)"
    and form_patterns: "b_wildcardPatterns (formNeighbourhood u s opts)
      = (if ''phonetic-family'' \<in> set (o_droppedAxes opts) then [] else skeletonPatterns u (normalizeElement u s))"
    and form_keys: "b_phoneticKeys (formNeighbourhood u s opts)
      = (if ''phonetic-family'' \<in> set (o_droppedAxes opts) then [] else dm_keys u (normalizeElement u s))"
    and form_exact: "b_exactQueries (formNeighbourhood u s opts)
      = dedupeOnFold u (filter (\<lambda>t. t \<notin> set (b_ordinary (formNeighbourhood u s opts)))
            (editNeighbourhood u (normalizeElement u s))
          @ b_confusables (formNeighbourhood u s opts) @ b_transliterations (formNeighbourhood u s opts))
          (normalizeElement u s)"
  using assms by (auto simp: formNeighbourhood_def Let_def radiusFor_def intro!: filter_cong)

lemma ordinary_iff:
  "t \<in> set (ordinaryWordDifferentSound u el ws) \<longleftrightarrow>
    (\<exists>l. ws = Some l \<and> normalizeElement u el \<noteq> [] \<and> t \<in> set l
      \<and> set (dm_keys u t) \<inter> set (dm_keys u (normalizeElement u el)) = {}
      \<and> t \<in> set (editNeighbourhood u (normalizeElement u el)))"
  by (cases ws) (auto simp: ordinaryWordDifferentSound_def Let_def disjoint_iff)

lemma coverageGaps_complete_iff:
  "g_complete (coverageGaps u b dispatched explained) \<longleftrightarrow>
     (\<forall>q. q \<in> set (b_exactQueries b) \<longrightarrow> normalizeElement u q \<in> normalizeElement u ` set (dispatched @ explained))
     \<and> (b_wildcardPatterns b = [] \<or> g_familyDispatched (coverageGaps u b dispatched explained)
         \<or> g_familyExplained (coverageGaps u b dispatched explained))"
  by (auto simp: coverageGaps_def Let_def filter_empty_conv image_Un)

lemma g_missing_complete:
  "g_complete (coverageGaps u b d e) \<longleftrightarrow> g_missingExact (coverageGaps u b d e) = []
     \<and> (b_wildcardPatterns b = [] \<or> g_familyDispatched (coverageGaps u b d e) \<or> g_familyExplained (coverageGaps u b d e))"
  by (auto simp: coverageGaps_def Let_def)

lemma directives_for_Nil: "directives_for u d e m el = [] \<longleftrightarrow> g_complete (coverageGaps u (snd el) d e)"
  by (auto simp: directives_for_def Let_def g_missing_complete)

section \<open>Properties\<close>

text \<open>The edit-1 neighbourhood is exactly the set of strings one deletion, one adjacent transposition,
  one substitution by a letter a-z or one insertion of a letter a-z away from the normalised element, the
  element itself excluded; it is listed once each, in code-unit order.\<close>

theorem editNeighbourhood_exact:
  "set (editNeighbourhood u s) = {t. edit1 (normalizeElement u s) t \<and> t \<noteq> normalizeElement u s}
   \<and> sorted (editNeighbourhood u s) \<and> distinct (editNeighbourhood u s)"
  by (auto simp: set_editNeighbourhood sorted_editNeighbourhood)

text \<open>An element of L letters has at most 53 L + 25 edit-1 neighbours, the figure the code gives.\<close>

theorem editNeighbourhood_bound:
  assumes "list_all is_lower (normalizeElement u s)" "normalizeElement u s \<noteq> []"
  shows "length (editNeighbourhood u s) \<le> 53 * length (normalizeElement u s) + 25"
  using assms by (rule length_editNeighbourhood)

lemma latin_normalize_js:
  "is_element (map low1 (js w)) \<Longrightarrow> ascii (js w) \<Longrightarrow> normalizeElement latin_unicode (js w) = map low1 (js w)"
  using latin.fold_ascii [of "js w"] latin.to_lower_ascii [of "js w"]
  by (simp add: normalizeElement_def filter_id_conv list_all_iff)

lemma latin_CAT: "normalizeElement latin_unicode (js ''CAT'') = js ''cat''"
  by (subst latin_normalize_js) (simp_all add: is_alnum_def is_lower_def low1_def is_upper_def ascii_def)

theorem editNeighbourhood_bound_witness:
  "length (editNeighbourhood latin_unicode (js ''CAT'')) \<le> 184"
  using editNeighbourhood_bound [of latin_unicode "js ''CAT''", unfolded latin_CAT] by (simp add: is_lower_def)

text \<open>C36: No neighbour is lost in silence. Every non-empty string one edit away from the element is either
  answered by a dispatched term with the same diacritic fold, or listed as not searched, and then it is an
  ordinary word that shares no sound key with the element.\<close>

theorem formNeighbourhood_covers_edits:
  assumes "unicode_ascii u" "edit1 (normalizeElement u s) t" "t \<noteq> []" "t \<noteq> normalizeElement u s"
    "normalizeElement u s \<noteq> []"
  shows "(\<exists>q \<in> set (b_exactQueries (formNeighbourhood u s opts)). fold_key u q = t)
    \<or> (t \<in> set (b_ordinary (formNeighbourhood u s opts)) \<and> (\<exists>ws. o_ordinaryWords opts = Some ws \<and> t \<in> set ws)
        \<and> set (dm_keys u t) \<inter> set (dm_keys u (normalizeElement u s)) = {})"
proof -
  define b where "b = formNeighbourhood u s opts"
  define el where "el = normalizeElement u s"
  have el: "is_element el" "normalizeElement u el = el"
    by (simp_all add: el_def unicode_ascii.normalizeElement_idem [OF assms(1)])
  have t: "is_element t" "t \<in> set (editNeighbourhood u el)"
    using assms edit1_element [of el t] el by (auto simp: set_editNeighbourhood el_def)
  show ?thesis
  proof (cases "t \<in> set (b_ordinary b)")
    case True
    then show ?thesis
      using assms(5) el by (auto simp: b_def form_ordinary ordinary_iff el_def)
  next
    case False
    have ft: "fold_key u t = t" "fold_key u el = el"
      using unicode_ascii.fold_key_element [OF assms(1)] t el by auto
    then have "\<exists>q \<in> set (b_exactQueries b). fold_key u q = fold_key u t"
      unfolding b_def form_exact [OF assms(5)]
      using False t assms by (intro dedupe_complete) (auto simp: b_def el_def)
    then show ?thesis using ft by (simp add: b_def)
  qed
qed

definition demo_opts :: band_opts where
  "demo_opts = \<lparr>o_scripts = SUPPORTED_SCRIPTS, o_droppedAxes = [],
     o_ordinaryWords = Some [js ''bat''], o_mixedScriptQuery = Some False\<rparr>"

theorem formNeighbourhood_covers_edits_witness:
  "(\<exists>q \<in> set (b_exactQueries (formNeighbourhood latin_unicode (js ''CAT'') demo_opts)). fold_key latin_unicode q = js ''bat'')
    \<or> (js ''bat'' \<in> set (b_ordinary (formNeighbourhood latin_unicode (js ''CAT'') demo_opts))
        \<and> (\<exists>ws. o_ordinaryWords demo_opts = Some ws \<and> js ''bat'' \<in> set ws)
        \<and> set (dm_keys latin_unicode (js ''bat'')) \<inter> set (dm_keys latin_unicode (normalizeElement latin_unicode (js ''CAT''))) = {})"
proof (rule formNeighbourhood_covers_edits)
  show "unicode_ascii latin_unicode" by (rule latin.unicode_ascii_axioms)
  have "edit1 ([] @ 99 # js ''at'') ([] @ 98 # js ''at'')"
    by (rule edit_substitute) (simp add: is_lower_def)
  then show "edit1 (normalizeElement latin_unicode (js ''CAT'')) (js ''bat'')"
    unfolding latin_CAT by simp
qed (unfold latin_CAT, simp_all)

text \<open>The dispatched terms are pairwise different searches: no two of them, and none of them and the
  element, have the same diacritic fold, and none folds to nothing; and every generated look-alike and
  transliteration has a dispatched term of its own fold unless it folds onto the element.\<close>

theorem formNeighbourhood_queries_distinct:
  "distinct (map (fold_key u) (b_exactQueries (formNeighbourhood u s opts)))
   \<and> (\<forall>q. q \<in> set (b_exactQueries (formNeighbourhood u s opts)) \<longrightarrow>
        fold_key u q \<noteq> [] \<and> fold_key u q \<noteq> fold_key u (normalizeElement u s))
   \<and> (\<forall>t. t \<in> set (b_confusables (formNeighbourhood u s opts)) \<union> set (b_transliterations (formNeighbourhood u s opts)) \<longrightarrow>
        fold_key u t = [] \<or> fold_key u t = fold_key u (normalizeElement u s)
        \<or> (\<exists>q. q \<in> set (b_exactQueries (formNeighbourhood u s opts)) \<and> fold_key u q = fold_key u t))"
proof (cases "normalizeElement u s = []")
  case True
  then show ?thesis by (simp add: formNeighbourhood_def Let_def radiusFor_def)
next
  case False
  define ts where "ts = filter (\<lambda>t. t \<notin> set (b_ordinary (formNeighbourhood u s opts)))
       (editNeighbourhood u (normalizeElement u s))
     @ b_confusables (formNeighbourhood u s opts) @ b_transliterations (formNeighbourhood u s opts)"
  have e: "b_exactQueries (formNeighbourhood u s opts) = dedupeOnFold u ts (normalizeElement u s)"
    using form_exact [OF False] by (simp add: ts_def)
  have "\<exists>q. q \<in> set (dedupeOnFold u ts (normalizeElement u s)) \<and> fold_key u q = fold_key u t"
    if "t \<in> set (b_confusables (formNeighbourhood u s opts)) \<union> set (b_transliterations (formNeighbourhood u s opts))"
      "fold_key u t \<noteq> []" "fold_key u t \<noteq> fold_key u (normalizeElement u s)" for t
    using dedupe_complete [of t ts u "normalizeElement u s"] that by (auto simp: ts_def)
  then show ?thesis
    unfolding e using dedupe_distinct [of u ts] dedupe_new [of _ u ts] by blast
qed

theorem formNeighbourhood_queries_distinct_witness:
  "distinct (map (fold_key latin_unicode) (b_exactQueries (formNeighbourhood latin_unicode (js ''CAT'') demo_opts)))
   \<and> list_all (\<lambda>q. fold_key latin_unicode q \<noteq> [] \<and> fold_key latin_unicode q \<noteq> js ''cat'')
        (b_exactQueries (formNeighbourhood latin_unicode (js ''CAT'') demo_opts))"
proof -
  have f: "fold_key latin_unicode (js ''cat'') = js ''cat''"
    by (rule latin.fold_key_element, simp add: is_alnum_def is_lower_def is_digit_def)
  show ?thesis
    unfolding list_all_iff
    using formNeighbourhood_queries_distinct [of latin_unicode "js ''CAT''" demo_opts, unfolded latin_CAT f] by blast
qed

text \<open>On a register that cannot search a term mixing Latin with Greek or Cyrillic letters, no dispatched
  term mixes them, and the transliterations left out are exactly the mixed ones, listed as not searched.\<close>

theorem formNeighbourhood_mixed_script:
  assumes "unicode_ascii u" "o_mixedScriptQuery opts = Some False" "normalizeElement u s \<noteq> []"
    "''transliteration'' \<notin> set (o_droppedAxes opts)"
  shows "(\<forall>q \<in> set (b_exactQueries (formNeighbourhood u s opts)). \<not> mixesLatinWithGreekOrCyrillic u q)
    \<and> b_mixedNotSearched (formNeighbourhood u s opts) =
        Some (filter (mixesLatinWithGreekOrCyrillic u) (transliterations u (normalizeElement u s) (o_scripts opts)))
    \<and> (\<forall>t \<in> set (transliterations u (normalizeElement u s) (o_scripts opts)).
        t \<in> set (b_transliterations (formNeighbourhood u s opts))
        \<or> t \<in> set (the (b_mixedNotSearched (formNeighbourhood u s opts))))"
proof -
  have "\<not> mixesLatinWithGreekOrCyrillic u q" if "q \<in> set (b_exactQueries (formNeighbourhood u s opts))" for q
  proof -
    have "q \<in> set (editNeighbourhood u (normalizeElement u s)) \<or> q \<in> set (b_confusables (formNeighbourhood u s opts))
        \<or> q \<in> set (b_transliterations (formNeighbourhood u s opts))"
      using dedupe_subset [OF that [unfolded form_exact [OF assms(3)]]] by auto
    then show ?thesis
      using assms(2,3) unicode_ascii.ascii_not_mixed [OF assms(1)] editNeighbourhood_element element_ascii
        visualConfusables_ascii
      by (auto simp: form_confusables form_transliterations split: if_splits)
  qed
  then show ?thesis using assms by (auto simp: form_mixed form_transliterations)
qed

theorem formNeighbourhood_mixed_script_witness:
  "list_all (\<lambda>q. \<not> mixesLatinWithGreekOrCyrillic latin_unicode q)
     (b_exactQueries (formNeighbourhood latin_unicode (js ''CAT'') demo_opts))"
  unfolding list_all_iff using formNeighbourhood_mixed_script [OF latin.unicode_ascii_axioms, of demo_opts "js ''CAT''", unfolded latin_CAT]
  by (simp add: demo_opts_def)

text \<open>Every retrieval pattern carries wildcard syntax, so an element without a vowel yields no
  degenerate pattern; and where the element has no two adjacent vowels its vowel-slot pattern retrieves
  the whole vowel family: every spelling that differs only in which vowel stands at a vowel place.\<close>

theorem skeletonPatterns_retrieve:
  "(\<forall>p. p \<in> set (skeletonPatterns u s) \<longrightarrow> has_wildcard p)
   \<and> (no_adjacent_vowels (normalizeElement u s) \<and> vowel_family (normalizeElement u s) t
      \<and> list_ex is_vowel (normalizeElement u s) \<longrightarrow>
        (\<exists>p. p \<in> set (skeletonPatterns u s) \<and> glob p t))"
proof -
  define w where "w = normalizeElement u s"
  have "\<exists>p. p \<in> set (skeletonPatterns u s) \<and> glob p t"
    if "no_adjacent_vowels w" "vowel_family w t" "list_ex is_vowel w"
  proof -
    have "w \<noteq> []" using that(3) by auto
    moreover have "has_wildcard (vowel_slots False w)"
      using that(3) vowel_slots_wildcard by simp
    ultimately have "vowel_slots False w \<in> set (skeletonPatterns u s)"
      by (simp add: set_skeletonPatterns Let_def w_def)
    moreover have "glob (vowel_slots False w) t"
      using that by (intro vowel_slots_glob) (simp_all add: w_def)
    ultimately show ?thesis by blast
  qed
  then show ?thesis by (auto simp: w_def [symmetric] set_skeletonPatterns Let_def)
qed

lemma latin_VALENA: "normalizeElement latin_unicode (js ''VALENA'') = js ''valena''"
  by (subst latin_normalize_js) (simp_all add: is_alnum_def is_lower_def low1_def is_upper_def ascii_def)

theorem skeletonPatterns_retrieve_witness:
  "\<exists>p. p \<in> set (skeletonPatterns latin_unicode (js ''VALENA'')) \<and> glob p (js ''vylona'')"
  using skeletonPatterns_retrieve [of latin_unicode "js ''VALENA''" "js ''vylona''", unfolded latin_VALENA]
  by (simp add: is_vowel_def vowel_family_def)

text \<open>A run of several vowels becomes one \<open>?\<close>, which stands for exactly one character: the vowel-slot
  pattern of an element retrieves the element's own spelling only if it has no two adjacent vowels.\<close>

theorem vowel_slots_self:
  "glob (vowel_slots False (normalizeElement u s)) (normalizeElement u s) \<longleftrightarrow> no_adjacent_vowels (normalizeElement u s)"
proof -
  define w where "w = normalizeElement u s"
  have w: "is_element w" by (simp add: w_def)
  have "no_adjacent_vowels w" if g: "glob (vowel_slots False w) w"
  proof (rule ccontr)
    assume "\<not> no_adjacent_vowels w"
    then have "length (vowel_slots False w) < length w" by (rule vowel_slots_shorter)
    then show False using glob_length [OF vowel_slots_no_star [OF w] g] by simp
  qed
  then show ?thesis
    using vowel_slots_glob [OF w _ vowel_family_refl] unfolding w_def [symmetric] by blast
qed

text \<open>The coverage oracle neither excuses nor invents a gap. It reports a band complete exactly when every
  exact query was dispatched or explained (up to the normalised seed) and the wildcard family, if any, was
  dispatched or explained; a run that dispatched the whole band is complete; and the gap directives are
  empty exactly when every band is complete.\<close>

theorem coverage_oracle_exact:
  "(g_complete (coverageGaps u b dispatched explained) \<longleftrightarrow>
     (\<forall>q. q \<in> set (b_exactQueries b) \<longrightarrow> normalizeElement u q \<in> normalizeElement u ` set (dispatched @ explained))
     \<and> (b_wildcardPatterns b = [] \<or> g_familyDispatched (coverageGaps u b dispatched explained)
         \<or> g_familyExplained (coverageGaps u b dispatched explained)))
   \<and> g_complete (coverageGaps u b (b_exactQueries b @ b_wildcardPatterns b) [])
   \<and> (formGapDirectives u els dispatched explained n = [] \<longleftrightarrow>
        list_all (\<lambda>el. g_complete (coverageGaps u (snd el) dispatched explained)) els)"
proof -
  have "g_complete (coverageGaps u b (b_exactQueries b @ b_wildcardPatterns b) [])"
    by (cases "b_wildcardPatterns b") (auto simp: coverageGaps_def Let_def filter_empty_conv)
  moreover have "formGapDirectives u els dispatched explained n = [] \<longleftrightarrow>
      list_all (\<lambda>el. g_complete (coverageGaps u (snd el) dispatched explained)) els"
    by (auto simp: formGapDirectives_def directives_for_Nil list_all_iff)
  ultimately show ?thesis using coverageGaps_complete_iff [of u b dispatched explained] by blast
qed

theorem coverage_oracle_exact_witness:
  "g_complete (coverageGaps latin_unicode (formNeighbourhood latin_unicode (js ''VALENA'') demo_opts)
     (b_exactQueries (formNeighbourhood latin_unicode (js ''VALENA'') demo_opts)
      @ b_wildcardPatterns (formNeighbourhood latin_unicode (js ''VALENA'') demo_opts)) [])"
  using coverage_oracle_exact by blast

end
