(* ===== verification/VariantFloor.thy ===== *)
theory VariantFloor
  imports FormNeighbourhood
begin

text \<open>
  The variant floor of \<open>driver/form-neighbourhood.mjs\<close>: which elements the mechanical bands are built for
  (\<open>floorSeeds\<close>), the partition of the dispatched terms by the generator that made them
  (\<open>variantFloorFamilies\<close>), and the point where a model's own variants are joined to the floor
  (\<open>mergeVariantFloor\<close>), on the identity fold \<open>formKey\<close> of \<open>providers/_shared/script-form.mjs\<close>.

  Two inputs are parsed from the manifest's prose by regular expressions of \<open>driver/scope-ledger.mjs\<close>
  (the dominant element and the formative root): they are arguments here. A JavaScript value whose shape
  the code tests (a mark that may be a string or an object, a model variant likewise) is a datatype.
\<close>

section \<open>The identity fold\<close>

fun strip_latin_marks :: "unicode \<Rightarrow> bool \<Rightarrow> jstr \<Rightarrow> jstr" where
  "strip_latin_marks u after [] = []"
| "strip_latin_marks u after (c # cs) =
     (if after \<and> mark_class u c then strip_latin_marks u True cs
      else c # strip_latin_marks u (latin_script u c) cs)"

definition formKey :: "unicode \<Rightarrow> jstr \<Rightarrow> jstr" where
  "formKey u s =
     (let t = filter (word_class u) (strip_latin_marks u False (nfkd u (to_lower u s)))
      in if t \<noteq> [] then t else js_trim s)"

section \<open>The job's mark and the seeds\<close>

datatype mark_value = MarkNull | MarkString jstr | MarkObject jstr
datatype mark_arg = OneMark mark_value | ManyMarks "mark_value list"

fun mark_one :: "mark_value \<Rightarrow> jstr" where
  "mark_one MarkNull = []"
| "mark_one (MarkString s) = s"
| "mark_one (MarkObject nm) = nm"

fun mark_list :: "mark_arg \<Rightarrow> mark_value list" where
  "mark_list (OneMark m) = [m]"
| "mark_list (ManyMarks ms) = ms"

definition markText :: "mark_arg \<Rightarrow> jstr" where
  "markText mark = join (js '' '') (filter (\<lambda>s. s \<noteq> []) (map (\<lambda>m. js_trim (mark_one m)) (mark_list mark)))"

definition MAX_SEED_LENGTH :: nat where
  "MAX_SEED_LENGTH = 24"

definition markSeedTokens :: "unicode \<Rightarrow> mark_arg \<Rightarrow> jstr list" where
  "markSeedTokens u mark =
     filter (\<lambda>t. 2 \<le> length t \<and> length t \<le> MAX_SEED_LENGTH)
       (sorted_set (tokens is_alnum (to_lower u (foldDiacritics u (markText mark)))))"

datatype role = Dominant | FormativeRoot | DistinctiveElement | MarkToken

datatype seed_refusal = EmptyAfterNormalisation | TooShort nat | TooLong nat
  | NoMark | NoLatinToken | SingleCharacterTokens

datatype seed_source = FromModel | FromProse | FromJobMark | NoSource

record seeding =
  seeds :: "(jstr \<times> role) list"
  rejected :: "(jstr \<times> role \<times> seed_refusal) list"

definition seed_guard :: "jstr \<Rightarrow> seed_refusal option" where
  "seed_guard n =
     (if n = [] then Some EmptyAfterNormalisation
      else if length n < 2 then Some (TooShort (length n))
      else if length n > MAX_SEED_LENGTH then Some (TooLong (length n))
      else None)"

definition add_seed :: "unicode \<Rightarrow> bool \<Rightarrow> role \<Rightarrow> jstr \<Rightarrow> seeding \<Rightarrow> seeding" where
  "add_seed u guarded rl value st =
     (let n = normalizeElement u value in
      if n = [] \<or> n \<in> set (map fst (seeds st)) then st
      else case (if guarded then seed_guard n else None) of
        Some why \<Rightarrow> st\<lparr>rejected := rejected st @ [(take 60 value, rl, why)]\<rparr>
      | None \<Rightarrow> st\<lparr>seeds := seeds st @ [(n, rl)]\<rparr>)"

record variant_model =
  m_dominant :: jstr
  m_elements :: "(jstr \<times> jstr) list"

definition isStemOfNamedElement :: "unicode \<Rightarrow> jstr \<Rightarrow> jstr \<Rightarrow> variant_model option \<Rightarrow> bool" where
  "isStemOfNamedElement u root dominant model =
     (let r = normalizeElement u root;
          named = filter (\<lambda>n. n \<noteq> []) (map (normalizeElement u)
            (dominant # (case model of None \<Rightarrow> [] | Some m \<Rightarrow> map snd (m_elements m))))
      in if r = [] then False else if named = [] then True else length r \<le> Max (set (map length named)))"

definition distinctiveElements :: "unicode \<Rightarrow> variant_model option \<Rightarrow> jstr list" where
  "distinctiveElements u model =
     sorted_set (filter (\<lambda>v. v \<noteq> []) (map (\<lambda>e. js_trim (snd e))
       (filter (\<lambda>e. to_lower u (js_trim (fst e)) = js ''distinctive'')
         (case model of None \<Rightarrow> [] | Some m \<Rightarrow> m_elements m))))"

definition modelDominant :: "variant_model option \<Rightarrow> jstr" where
  "modelDominant model = js_trim (case model of None \<Rightarrow> [] | Some m \<Rightarrow> m_dominant m)"

definition modelSeeds :: "unicode \<Rightarrow> jstr \<Rightarrow> jstr \<Rightarrow> variant_model option \<Rightarrow> seeding" where
  "modelSeeds u proseDominant proseRoot model =
     (let fromModel = modelDominant model;
          dom = (if fromModel \<noteq> [] then fromModel else proseDominant);
          st0 = \<lparr>seeds = [], rejected = []\<rparr>;
          st1 = (if dom \<noteq> [] then add_seed u (fromModel = []) Dominant dom st0 else st0);
          st2 = (if proseRoot \<noteq> [] \<and> normalizeElement u proseRoot \<noteq> []
                   \<and> normalizeElement u proseRoot \<noteq> normalizeElement u dom
                   \<and> isStemOfNamedElement u proseRoot dom model
                 then add_seed u True FormativeRoot proseRoot st1 else st1)
      in fold (add_seed u True DistinctiveElement) (distinctiveElements u model) st2)"

definition floorSeeds ::
  "unicode \<Rightarrow> jstr \<Rightarrow> jstr \<Rightarrow> variant_model option \<Rightarrow> mark_arg \<Rightarrow> seeding \<times> seed_source" where
  "floorSeeds u proseDominant proseRoot model mark =
     (let st3 = modelSeeds u proseDominant proseRoot model
      in if seeds st3 \<noteq> [] then (st3, if modelDominant model \<noteq> [] then FromModel else FromProse)
         else
          (let st4 = fold (add_seed u True MarkToken) (markSeedTokens u mark) st3;
               txt = markText mark;
               latin = tokens is_alnum (to_lower u (foldDiacritics u txt))
           in if seeds st4 \<noteq> [] then (st4, FromJobMark)
              else (st4\<lparr>rejected := rejected st4 @
                [(take 60 txt, MarkToken,
                  if txt = [] then NoMark else if latin = [] then NoLatinToken else SingleCharacterTokens)]\<rparr>,
                NoSource)))"

definition spacingPunctuationForms :: "unicode \<Rightarrow> jstr \<Rightarrow> jstr list" where
  "spacingPunctuationForms u raw =
     (let folded = js_trim (to_lower u (foldDiacritics u raw)); ts = tokens is_alnum folded in
      if folded = [] then []
      else if length ts < 2 then []
      else sort (filter (\<lambda>t. t \<noteq> []) (filter (\<lambda>t. t \<noteq> join (js '' '') (tokens (\<lambda>c. \<not> is_space c) folded))
        (filter (\<lambda>t. t \<noteq> folded)
          (set_of [join [] ts, join (js '' '') ts, join (js ''-'') ts, join (js ''.'') ts])))))"

section \<open>Families\<close>

datatype family_name = EditOne | SpacingPunctuation | VisualConfusable | Transliteration | PhoneticFamily
  | OtherFamily | OrdinaryWordDifferentSound | MixedScriptLookAlike

record family =
  f_name :: family_name
  f_searched :: bool
  f_dropped :: bool
  f_terms :: "jstr list"
  f_keys :: "string list"

record fam_sets =
  s_edit :: "jstr list"
  s_visual :: "jstr list"
  s_translit :: "jstr list"
  s_other :: "jstr list"

definition classify :: "jstr list \<Rightarrow> jstr list \<Rightarrow> jstr list \<Rightarrow> jstr \<Rightarrow> fam_sets \<Rightarrow> fam_sets" where
  "classify edits confs trs q fs =
     (if q \<in> set edits then fs\<lparr>s_edit := set_add q (s_edit fs)\<rparr>
      else if q \<in> set confs then fs\<lparr>s_visual := set_add q (s_visual fs)\<rparr>
      else if q \<in> set trs then fs\<lparr>s_translit := set_add q (s_translit fs)\<rparr>
      else fs\<lparr>s_other := set_add q (s_other fs)\<rparr>)"

definition classify_band :: "unicode \<Rightarrow> jstr \<times> band \<Rightarrow> fam_sets \<Rightarrow> fam_sets" where
  "classify_band u el fs =
     fold (classify (editNeighbourhood u (fst el)) (b_confusables (snd el)) (b_transliterations (snd el)))
       (b_exactQueries (snd el)) fs"

definition mk_family :: "family_name \<Rightarrow> bool \<Rightarrow> bool \<Rightarrow> jstr list \<Rightarrow> family" where
  "mk_family n sr dr ts = \<lparr>f_name = n, f_searched = sr, f_dropped = dr, f_terms = ts, f_keys = []\<rparr>"

definition variantFloorFamilies ::
  "unicode \<Rightarrow> (jstr \<times> band) list \<Rightarrow> jstr \<Rightarrow> string list \<Rightarrow> family list" where
  "variantFloorFamilies u elements mark droppedAxes =
     (let bands = map snd elements;
          fs = fold (classify_band u) elements \<lparr>s_edit = [], s_visual = [], s_translit = [], s_other = []\<rparr>;
          notSearched = concat (map b_ordinary bands);
          mixed = concat (map (\<lambda>b. case b_mixedNotSearched b of None \<Rightarrow> [] | Some ms \<Rightarrow> ms) bands);
          wildcards = concat (map b_wildcardPatterns bands);
          keys = concat (map b_phoneticKeys bands)
      in [mk_family EditOne True False (sort (s_edit fs)),
          mk_family SpacingPunctuation True False (spacingPunctuationForms u mark),
          mk_family VisualConfusable True (''visual-confusable'' \<in> set droppedAxes) (sort (s_visual fs)),
          mk_family Transliteration True (''transliteration'' \<in> set droppedAxes) (sort (s_translit fs)),
          (mk_family PhoneticFamily True (''phonetic-family'' \<in> set droppedAxes) (sorted_set wildcards))
            \<lparr>f_keys := sorted_set keys\<rparr>]
         @ (if s_other fs \<noteq> [] then [mk_family OtherFamily True False (sort (s_other fs))] else [])
         @ (if notSearched \<noteq> [] then [mk_family OrdinaryWordDifferentSound False True (sorted_set notSearched)] else [])
         @ (if mixed \<noteq> [] then [mk_family MixedScriptLookAlike False True (sorted_set mixed)] else []))"

section \<open>The merge\<close>

datatype model_variant = VString jstr | VObject jstr jstr

fun variant_value :: "model_variant \<Rightarrow> jstr" where
  "variant_value (VString s) = js_trim s"
| "variant_value (VObject v c) = js_trim v"

fun variant_category :: "unicode \<Rightarrow> model_variant \<Rightarrow> jstr" where
  "variant_category u (VString s) = []"
| "variant_category u (VObject v c) = to_lower u (js_trim c)"

text \<open>\<open>floorByKey\<close>: the family of the first searched floor term of each non-empty key, in order.\<close>

definition floor_terms :: "family list \<Rightarrow> (jstr \<times> family_name) list" where
  "floor_terms fams = concat (map (\<lambda>f. map (\<lambda>t. (t, f_name f)) (f_terms f)) (filter f_searched fams))"

definition floorByKey :: "unicode \<Rightarrow> family list \<Rightarrow> (jstr \<times> family_name) list" where
  "floorByKey u fams =
     map (\<lambda>(t, n). (formKey u t, n)) (first_per_key (\<lambda>(t, n). nonempty (formKey u t)) [] (floor_terms fams))"

record merged =
  mg_families :: "family list"
  mg_restatements :: "(jstr \<times> jstr \<times> family_name) list"
  mg_additions :: "(jstr \<times> jstr) list"
  mg_floor :: nat
  mg_union :: nat

definition variant_key :: "unicode \<Rightarrow> model_variant \<Rightarrow> jstr option" where
  "variant_key u v = (if variant_value v = [] then None else nonempty (formKey u (variant_value v)))"

definition mergeVariantFloor :: "unicode \<Rightarrow> family list \<Rightarrow> model_variant list \<Rightarrow> merged" where
  "mergeVariantFloor u families modelVariants =
     (let byKey = floorByKey u families;
          kept = first_per_key (variant_key u) [] modelVariants;
          hit = (\<lambda>v. map_of byKey (formKey u (variant_value v)));
          restated = concat (map (\<lambda>v. case hit v of None \<Rightarrow> []
            | Some f \<Rightarrow> [(variant_value v, variant_category u v, f)]) kept);
          added = concat (map (\<lambda>v. case hit v of None \<Rightarrow> [(variant_value v, variant_category u v)]
            | Some f \<Rightarrow> []) kept)
      in \<lparr>mg_families = families, mg_restatements = restated, mg_additions = added,
          mg_floor = length byKey, mg_union = length byKey + length added\<rparr>)"


section \<open>The fold on elements\<close>

lemma js_trim_id: "(s \<noteq> [] \<longrightarrow> \<not> is_space (hd s) \<and> \<not> is_space (last s)) \<Longrightarrow> js_trim s = s"
proof -
  assume a: "s \<noteq> [] \<longrightarrow> \<not> is_space (hd s) \<and> \<not> is_space (last s)"
  have d: "dropWhile is_space t = t" if "t \<noteq> [] \<longrightarrow> \<not> is_space (hd t)" for t
    using that by (cases t) auto
  have "dropWhile is_space s = s" using a by (intro d) simp
  moreover have "dropWhile is_space (rev s) = rev s" using a by (intro d) (simp add: hd_rev)
  ultimately show ?thesis by (simp add: js_trim_def)
qed

context unicode_ascii
begin

lemma strip_latin_marks_ascii: "ascii s \<Longrightarrow> strip_latin_marks u b s = s"
  by (induction s arbitrary: b) (auto simp: ascii_def mark_ascii)

lemma formKey_element: "is_element w \<Longrightarrow> formKey u w = w"
proof -
  assume w: "is_element w"
  have "filter (word_class u) w = w"
    using w by (auto simp: filter_id_conv list_all_iff word_ascii alnum_ascii is_alnum_def)
  moreover have "js_trim w = w" if "w = []" using that by (simp add: js_trim_def)
  ultimately show ?thesis
    using w element_ascii [OF w]
    by (simp add: formKey_def Let_def to_lower_ascii nfkd_ascii map_low1_element strip_latin_marks_ascii)
qed

end

sublocale unicode_ascii \<subseteq> formkey: term_fold "formKey u"
  by unfold_locales (rule formKey_element)

section \<open>Seeds\<close>

definition seeding_ok :: "unicode \<Rightarrow> seeding \<Rightarrow> bool" where
  "seeding_ok u st \<longleftrightarrow> distinct (map fst (seeds st))
     \<and> list_all (\<lambda>(n, rl). n \<noteq> [] \<and> is_element n
         \<and> (rl = Dominant \<or> 2 \<le> length n \<and> length n \<le> MAX_SEED_LENGTH)) (seeds st)"

lemma seed_guard_None: "seed_guard n = None \<longleftrightarrow> 2 \<le> length n \<and> length n \<le> MAX_SEED_LENGTH"
  by (auto simp: seed_guard_def)

lemma add_seed_ok:
  "seeding_ok u st \<Longrightarrow> guarded \<or> rl = Dominant \<Longrightarrow> seeding_ok u (add_seed u guarded rl v st)"
  by (auto simp: add_seed_def Let_def seeding_ok_def seed_guard_None split: option.splits)

lemma fold_add_seed_ok:
  "seeding_ok u st \<Longrightarrow> seeding_ok u (fold (add_seed u True rl) vs st)"
  by (induction vs arbitrary: st) (auto simp: add_seed_ok)

lemma add_seed_mono: "set (seeds st) \<subseteq> set (seeds (add_seed u g rl v st))"
  by (auto simp: add_seed_def Let_def split: option.splits)

lemma fold_add_seed_mono: "set (seeds st) \<subseteq> set (seeds (fold (add_seed u g rl) vs st))"
proof (induction vs arbitrary: st)
  case (Cons v vs)
  then show ?case using add_seed_mono [of st u g rl v] by fastforce
qed simp

lemma add_seed_accepts:
  "seed_guard (normalizeElement u v) = None \<Longrightarrow> normalizeElement u v \<in> set (map fst (seeds (add_seed u True rl v st)))"
  by (auto simp: add_seed_def Let_def) (auto simp: seed_guard_def)

lemma fold_add_seed_accepts:
  "v \<in> set vs \<Longrightarrow> seed_guard (normalizeElement u v) = None
   \<Longrightarrow> normalizeElement u v \<in> set (map fst (seeds (fold (add_seed u True rl) vs st)))"
proof (induction vs arbitrary: st)
  case (Cons x vs)
  show ?case
  proof (cases "x = v")
    case True
    then have "normalizeElement u v \<in> set (map fst (seeds (add_seed u True rl x st)))"
      using Cons.prems add_seed_accepts by auto
    then show ?thesis using fold_add_seed_mono [of "add_seed u True rl x st" u True rl vs] by auto
  next
    case False
    then show ?thesis using Cons by simp
  qed
qed simp

lemma markSeedTokens_guard: "t \<in> set (markSeedTokens u m) \<Longrightarrow> is_element t \<and> seed_guard t = None"
  by (auto simp: markSeedTokens_def seed_guard_None dest: tokens_ok)

section \<open>Families and merge\<close>

definition fam_all :: "fam_sets \<Rightarrow> jstr set" where
  "fam_all fs = set (s_edit fs) \<union> set (s_visual fs) \<union> set (s_translit fs) \<union> set (s_other fs)"

lemma fam_all_classify: "fam_all (classify a b c q fs) = insert q (fam_all fs)"
  by (auto simp: classify_def fam_all_def)

lemma fam_all_fold_classify: "fam_all (fold (classify a b c) qs fs) = set qs \<union> fam_all fs"
  by (induction qs arbitrary: fs) (auto simp: fam_all_classify)

lemma fam_all_bands:
  "fam_all (fold (classify_band u) els fs) = (\<Union>el \<in> set els. set (b_exactQueries (snd el))) \<union> fam_all fs"
  by (induction els arbitrary: fs) (auto simp: classify_band_def fam_all_fold_classify)

definition fam_disjoint :: "fam_sets \<Rightarrow> jstr set \<Rightarrow> jstr set \<Rightarrow> jstr set \<Rightarrow> bool" where
  "fam_disjoint fs e c t \<longleftrightarrow> set (s_edit fs) \<subseteq> e \<and> set (s_visual fs) \<subseteq> c - e
     \<and> set (s_translit fs) \<subseteq> t - (e \<union> c) \<and> set (s_other fs) \<inter> (e \<union> c \<union> t) = {}"

lemma fold_classify_disjoint:
  "fam_disjoint fs (set a) (set b) (set c) \<Longrightarrow> fam_disjoint (fold (classify a b c) qs fs) (set a) (set b) (set c)"
  by (induction qs arbitrary: fs) (auto simp: classify_def fam_disjoint_def)

lemma keys_floorByKey:
  "set (map fst (floorByKey u fams)) = {formKey u t |t n. (t, n) \<in> set (floor_terms fams)} - {[]}"
  (is "?l = ?r")
proof
  let ?key = "\<lambda>(t, n). nonempty (formKey u t)"
  show "?l \<subseteq> ?r"
  proof
    fix k assume "k \<in> ?l"
    then obtain t n where tn: "(t, n) \<in> set (first_per_key ?key [] (floor_terms fams))" "k = formKey u t"
      by (auto simp: floorByKey_def)
    then show "k \<in> ?r"
      using first_per_key_subset [of ?key "[]" "floor_terms fams"] first_per_key_new [OF tn(1)] by auto
  qed
  show "?r \<subseteq> ?l"
  proof
    fix k assume "k \<in> ?r"
    then obtain t n where "(t, n) \<in> set (floor_terms fams)" "k = formKey u t" "k \<noteq> []" by auto
    then obtain x where "x \<in> set (first_per_key ?key [] (floor_terms fams))" "?key x = Some k"
      using first_per_key_complete [of "(t, n)" "floor_terms fams" ?key k "[]"] by auto
    then show "k \<in> ?l" by (force simp: floorByKey_def split: prod.splits)
  qed
qed

lemma distinct_floorByKey: "distinct (map fst (floorByKey u fams))"
proof -
  let ?key = "\<lambda>(t, n). nonempty (formKey u t)"
  let ?r = "first_per_key ?key [] (floor_terms fams)"
  have "map fst (floorByKey u fams) = map (formKey u \<circ> fst) ?r"
    by (simp add: floorByKey_def comp_def case_prod_beta')
  moreover have eq: "map ?key ?r = map nonempty (map (formKey u \<circ> fst) ?r)"
    by (simp add: case_prod_beta')
  have "distinct (map nonempty (map (formKey u \<circ> fst) ?r))"
    unfolding eq [symmetric] by (rule first_per_key_distinct)
  then have "distinct (map (formKey u \<circ> fst) ?r)" by (simp only: distinct_map)
  ultimately show ?thesis by simp
qed

definition kept_variants :: "unicode \<Rightarrow> model_variant list \<Rightarrow> model_variant list" where
  "kept_variants u vs = first_per_key (variant_key u) [] vs"

lemma variant_key_Some: "variant_key u v = Some k \<longleftrightarrow> variant_value v \<noteq> [] \<and> k = formKey u (variant_value v) \<and> k \<noteq> []"
  by (auto simp: variant_key_def)

lemma merge_fields:
  "mg_families (mergeVariantFloor u fams vs) = fams"
  "mg_floor (mergeVariantFloor u fams vs) = length (floorByKey u fams)"
  "mg_union (mergeVariantFloor u fams vs)
     = length (floorByKey u fams) + length (mg_additions (mergeVariantFloor u fams vs))"
  "mg_additions (mergeVariantFloor u fams vs)
     = concat (map (\<lambda>v. case map_of (floorByKey u fams) (formKey u (variant_value v)) of
         None \<Rightarrow> [(variant_value v, variant_category u v)] | Some f \<Rightarrow> []) (kept_variants u vs))"
  "mg_restatements (mergeVariantFloor u fams vs)
     = concat (map (\<lambda>v. case map_of (floorByKey u fams) (formKey u (variant_value v)) of
         None \<Rightarrow> [] | Some f \<Rightarrow> [(variant_value v, variant_category u v, f)]) (kept_variants u vs))"
  by (simp_all add: mergeVariantFloor_def Let_def kept_variants_def)

lemma concat_case_filter:
  "concat (map (\<lambda>v. case f v of None \<Rightarrow> [g v] | Some y \<Rightarrow> []) xs) = map g (filter (\<lambda>v. f v = None) xs)"
  by (induction xs) (auto split: option.splits)

lemma addition_keys:
  "map (formKey u \<circ> fst) (mg_additions (mergeVariantFloor u fams vs))
    = filter (\<lambda>k. k \<notin> set (map fst (floorByKey u fams))) (map (formKey u \<circ> variant_value) (kept_variants u vs))"
  unfolding merge_fields concat_case_filter
  by (simp add: map_of_eq_None_iff filter_map comp_def)

lemma kept_keys:
  "set (map (formKey u \<circ> variant_value) (kept_variants u vs)) = {k. \<exists>v \<in> set vs. variant_key u v = Some k}"
proof -
  have "variant_key u v = Some (formKey u (variant_value v))" if "v \<in> set (kept_variants u vs)" for v
    using first_per_key_new [of v "variant_key u" "[]" vs] that by (auto simp: kept_variants_def variant_key_Some)
  then have "set (map (formKey u \<circ> variant_value) (kept_variants u vs)) = {k. \<exists>v \<in> set (kept_variants u vs). variant_key u v = Some k}"
    by force
  then show ?thesis using first_per_key_keys [of "variant_key u" "[]" vs] by (simp add: kept_variants_def)
qed

lemma kept_keys_distinct: "distinct (map (formKey u \<circ> variant_value) (kept_variants u vs))"
proof -
  have eq: "map (variant_key u) (kept_variants u vs) = map Some (map (formKey u \<circ> variant_value) (kept_variants u vs))"
    using first_per_key_new [of _ "variant_key u" "[]" vs] by (auto simp: kept_variants_def variant_key_Some)
  have "distinct (map Some (map (formKey u \<circ> variant_value) (kept_variants u vs)))"
    unfolding eq [symmetric] by (simp only: kept_variants_def first_per_key_distinct)
  then show ?thesis by (simp only: distinct_map)
qed

lemma modelSeeds_ok: "seeding_ok u (modelSeeds u pd pr model)"
proof -
  have "seeding_ok u \<lparr>seeds = [], rejected = []\<rparr>" by (simp add: seeding_ok_def)
  then show ?thesis unfolding modelSeeds_def Let_def
    by (intro fold_add_seed_ok) (simp add: add_seed_ok)
qed

lemma seeding_ok_rejected: "seeding_ok u (st\<lparr>rejected := r\<rparr>) = seeding_ok u st"
  by (simp add: seeding_ok_def)

lemma floorSeeds_ok: "seeding_ok u (fst (floorSeeds u pd pr model mark))"
  using modelSeeds_ok [of u pd pr model]
  by (simp add: floorSeeds_def Let_def fold_add_seed_ok seeding_ok_rejected)

text \<open>Every seed of the floor is a normalised element, no two are equal, and every seed but the
  dominant one has 2 to 24 characters; a floor that has no seed at all always carries a refusal saying why.\<close>

theorem floorSeeds_wellformed:
  "distinct (map fst (seeds (fst (floorSeeds u pd pr model mark))))
   \<and> list_all (\<lambda>(n, rl). n \<noteq> [] \<and> is_element n
         \<and> (rl = Dominant \<or> 2 \<le> length n \<and> length n \<le> 24)) (seeds (fst (floorSeeds u pd pr model mark)))
   \<and> \<not> (seeds (fst (floorSeeds u pd pr model mark)) = [] \<and> rejected (fst (floorSeeds u pd pr model mark)) = [])"
proof -
  have "rejected (fst (floorSeeds u pd pr model mark)) \<noteq> []" if "seeds (fst (floorSeeds u pd pr model mark)) = []"
    using that by (auto simp: floorSeeds_def Let_def split: if_splits)
  then show ?thesis
    using floorSeeds_ok [of u pd pr model mark] by (auto simp: seeding_ok_def MAX_SEED_LENGTH_def)
qed

text \<open>The floor is never silently empty: if the job's mark has a Latin token of 2 to 24 characters there
  is at least one seed, whatever the model said.\<close>

theorem floorSeeds_never_empty:
  assumes "unicode_ascii u" "markSeedTokens u mark \<noteq> []"
  shows "seeds (fst (floorSeeds u pd pr model mark)) \<noteq> []"
proof -
  obtain t where t: "t \<in> set (markSeedTokens u mark)" using assms(2) by (cases "markSeedTokens u mark") auto
  have "normalizeElement u t = t"
    using markSeedTokens_guard [OF t] unicode_ascii.normalizeElement_id [OF assms(1)] by simp
  then have "seeds (fold (add_seed u True MarkToken) (markSeedTokens u mark) st) \<noteq> []" for st
    using fold_add_seed_accepts [OF t, of u MarkToken st] markSeedTokens_guard [OF t] by auto
  then show ?thesis by (auto simp: floorSeeds_def Let_def)
qed

lemma latin_BIO: "markSeedTokens latin_unicode (OneMark (MarkString (js ''BIO-X''))) = [js ''bio'']"
proof -
  have a: "ascii (js ''BIO-X'')" by (simp add: ascii_def)
  have "markText (OneMark (MarkString (js ''BIO-X''))) = js ''BIO-X''"
    by (simp add: markText_def js_trim_def is_space_def)
  then show ?thesis
    using latin.fold_ascii [OF a] latin.to_lower_ascii [OF a]
    by (simp add: markSeedTokens_def tokens_def is_alnum_def is_lower_def is_digit_def low1_def is_upper_def
        sorted_set_def set_of_def set_add_def MAX_SEED_LENGTH_def)
qed

theorem floorSeeds_never_empty_witness:
  "seeds (fst (floorSeeds latin_unicode [] [] None (OneMark (MarkString (js ''BIO-X''))))) \<noteq> []"
  by (rule floorSeeds_never_empty [OF latin.unicode_ascii_axioms]) (simp only: latin_BIO, simp)

text \<open>The seed set does not depend on the order in which a model lists the elements of a mark.\<close>

theorem floorSeeds_order_independent:
  assumes "set (m_elements m1) = set (m_elements m2)" "m_dominant m1 = m_dominant m2"
  shows "floorSeeds u pd pr (Some m1) mark = floorSeeds u pd pr (Some m2) mark"
proof -
  have srt: "sorted_set xs = sorted_set ys" if "set xs = set ys" for xs ys :: "jstr list"
    unfolding sorted_set_def using that by (intro sorted_distinct_set_unique) simp_all
  have d: "distinctiveElements u (Some m1) = distinctiveElements u (Some m2)"
    unfolding distinctiveElements_def by (rule srt) (use assms(1) in auto)
  have st: "isStemOfNamedElement u r d (Some m1) = isStemOfNamedElement u r d (Some m2)" for r d
  proof -
    let ?nm = "\<lambda>m. filter (\<lambda>n. n \<noteq> []) (map (normalizeElement u) (d # map snd (m_elements m)))"
    have e: "set (?nm m1) = set (?nm m2)" using assms(1) by auto
    then have iff: "(?nm m1 = []) = (?nm m2 = [])" by (simp only: set_empty [symmetric])
    have len: "set (map length (?nm m1)) = set (map length (?nm m2))" by (simp only: set_map e)
    show ?thesis unfolding isStemOfNamedElement_def Let_def option.case iff len ..
  qed
  show ?thesis
    by (simp only: floorSeeds_def modelSeeds_def modelDominant_def Let_def option.case d st assms(2))
qed

theorem floorSeeds_order_independent_witness:
  "floorSeeds latin_unicode [] [] (Some \<lparr>m_dominant = js ''VELTRIS'', m_elements = [(js ''distinctive'', js ''NOVA''), (js ''distinctive'', js ''BIO'')]\<rparr>)
      (OneMark MarkNull)
   = floorSeeds latin_unicode [] [] (Some \<lparr>m_dominant = js ''VELTRIS'', m_elements = [(js ''distinctive'', js ''BIO''), (js ''distinctive'', js ''NOVA'')]\<rparr>)
      (OneMark MarkNull)"
  by (rule floorSeeds_order_independent) auto

text \<open>The families account for what is searched. Over all elements, the terms of the generator families
  are exactly the dispatched exact queries, and for one element no term is in two of them.\<close>

theorem families_partition:
  "(let fs = fold (classify_band u) els \<lparr>s_edit = [], s_visual = [], s_translit = [], s_other = []\<rparr> in
      variantFloorFamilies u els mark drp \<noteq> []
      \<and> (\<Union>f \<in> set (filter (\<lambda>f. f_name f \<noteq> SpacingPunctuation \<and> f_name f \<noteq> PhoneticFamily \<and> f_searched f)
            (variantFloorFamilies u els mark drp)). set (f_terms f))
        = (\<Union>el \<in> set els. set (b_exactQueries (snd el)))
      \<and> (length els = 1 \<longrightarrow> set (s_edit fs) \<inter> set (s_visual fs) = {} \<and> set (s_edit fs) \<inter> set (s_translit fs) = {}
          \<and> set (s_visual fs) \<inter> set (s_translit fs) = {}
          \<and> set (s_other fs) \<inter> (set (s_edit fs) \<union> set (s_visual fs) \<union> set (s_translit fs)) = {}))"
proof -
  define fs where "fs = fold (classify_band u) els \<lparr>s_edit = [], s_visual = [], s_translit = [], s_other = []\<rparr>"
  have un: "fam_all fs = (\<Union>el \<in> set els. set (b_exactQueries (snd el)))"
    unfolding fs_def fam_all_bands by (simp add: fam_all_def)
  have u: "(\<Union>f \<in> set (filter (\<lambda>f. f_name f \<noteq> SpacingPunctuation \<and> f_name f \<noteq> PhoneticFamily \<and> f_searched f)
            (variantFloorFamilies u els mark drp)). set (f_terms f)) = fam_all fs"
    by (auto simp: variantFloorFamilies_def Let_def fs_def [symmetric] mk_family_def fam_all_def)
  have d: "fam_disjoint fs (set a) (set b) (set c)"
    if "els = [el]" "a = editNeighbourhood u (fst el)" "b = b_confusables (snd el)" "c = b_transliterations (snd el)" for el a b c
    unfolding fs_def that
    by (simp add: classify_band_def, rule fold_classify_disjoint, simp add: fam_disjoint_def)
  have "set (s_edit fs) \<inter> set (s_visual fs) = {} \<and> set (s_edit fs) \<inter> set (s_translit fs) = {}
          \<and> set (s_visual fs) \<inter> set (s_translit fs) = {}
          \<and> set (s_other fs) \<inter> (set (s_edit fs) \<union> set (s_visual fs) \<union> set (s_translit fs)) = {}" if one: "length els = 1"
  proof -
    obtain el where "els = [el]" using one by (cases els) auto
    from d [OF this refl refl refl] show ?thesis by (auto simp: fam_disjoint_def)
  qed
  then show ?thesis
    using u un by (simp add: fs_def [symmetric]) (simp add: variantFloorFamilies_def Let_def)
qed

theorem families_partition_witness:
  "length [(js ''cat'', formNeighbourhood latin_unicode (js ''CAT'') demo_opts)] = 1
   \<and> (\<Union>f \<in> set (filter (\<lambda>f. f_name f \<noteq> SpacingPunctuation \<and> f_name f \<noteq> PhoneticFamily \<and> f_searched f)
        (variantFloorFamilies latin_unicode [(js ''cat'', formNeighbourhood latin_unicode (js ''CAT'') demo_opts)] [] [])). set (f_terms f))
      = set (b_exactQueries (formNeighbourhood latin_unicode (js ''CAT'') demo_opts))"
  using families_partition [of latin_unicode "[(js ''cat'', formNeighbourhood latin_unicode (js ''CAT'') demo_opts)]" "[]" "[]"]
  unfolding Let_def by (simp only: list.set snd_conv UN_insert UN_empty Un_empty_right list.size) simp

lemma first_per_key_nth:
  "x \<in> set (first_per_key key seen ts) \<longleftrightarrow>
     (\<exists>n < length ts. ts ! n = x \<and> (\<exists>k. key x = Some k \<and> k \<notin> set seen \<and> (\<forall>m < n. key (ts ! m) \<noteq> Some k)))"
proof (induction key seen ts rule: first_per_key.induct)
  case (2 key seen t ts)
  show ?case
  proof (cases "key t")
    case None
    then show ?thesis using "2.IH"(1) by (auto simp: Ex_less_Suc2 All_less_Suc2)
  next
    case (Some k)
    show ?thesis
    proof (cases "k \<in> set seen")
      case True
      then show ?thesis using "2.IH"(2)[OF Some True] Some by (auto simp: Ex_less_Suc2 All_less_Suc2)
    next
      case False
      then show ?thesis using "2.IH"(3)[OF Some False] Some by (auto simp: Ex_less_Suc2 All_less_Suc2)
    qed
  qed
qed simp

text \<open>What the merge should find: the family that holds a key, the first in order that is searched and has a term of the key;
  and the variant that stands for a key, the first of the model's list whose value has it.\<close>

definition holding :: "unicode \<Rightarrow> family list \<Rightarrow> jstr \<Rightarrow> family_name option" where
  "holding u fams k =
     map_option f_name (List.find (\<lambda>F. f_searched F \<and> (\<exists>t \<in> set (f_terms F). formKey u t = k)) fams)"

definition stands_for :: "unicode \<Rightarrow> model_variant list \<Rightarrow> model_variant \<Rightarrow> jstr \<Rightarrow> bool" where
  "stands_for u vs v k \<longleftrightarrow> k \<noteq> [] \<and>
     (\<exists>n < length vs. vs ! n = v \<and> variant_value v \<noteq> [] \<and> formKey u (variant_value v) = k
        \<and> (\<forall>m < n. variant_value (vs ! m) = [] \<or> formKey u (variant_value (vs ! m)) \<noteq> k))"

lemma map_of_first:
  "k \<noteq> [] \<Longrightarrow> k \<notin> set seen \<Longrightarrow>
     map_of (map (\<lambda>(t, n). (formKey u t, n)) (first_per_key (\<lambda>(t, n). nonempty (formKey u t)) seen xs)) k
       = map_option snd (List.find (\<lambda>(t, n). formKey u t = k) xs)"
proof (induction xs arbitrary: seen)
  case (Cons x xs)
  obtain t n where x: "x = (t, n)" by fastforce
  then show ?case using Cons by (cases "formKey u t = []") (auto simp: nonempty_def)
qed simp

lemma find_app: "List.find P (xs @ ys) = (case List.find P xs of None \<Rightarrow> List.find P ys | Some x \<Rightarrow> Some x)"
  by (induction xs) simp_all

lemma find_tagged:
  "map_option snd (List.find (\<lambda>(t, n). formKey u t = k) (map (\<lambda>t. (t, m)) ts)) = (if \<exists>t \<in> set ts. formKey u t = k then Some m else None)"
proof (induction ts)
  case (Cons a ts)
  then show ?case by (cases "formKey u a = k") simp_all
qed simp

lemma holding_floor: "k \<noteq> [] \<Longrightarrow> map_of (floorByKey u fams) k = holding u fams k"
proof -
  have "map_option snd (List.find (\<lambda>(t, n). formKey u t = k) (floor_terms fams)) = holding u fams k" for k
  proof (induction fams)
    case (Cons F fams)
    show ?case
      using Cons find_tagged[of u k "f_name F" "f_terms F"]
      by (auto simp: floor_terms_def holding_def find_app split: option.splits if_splits)
  qed (simp add: floor_terms_def holding_def)
  then show "k \<noteq> [] \<Longrightarrow> ?thesis" using map_of_first[of k "[]" u "floor_terms fams"] by (simp add: floorByKey_def)
qed

lemma kept_stands: "v \<in> set (kept_variants u vs) \<longleftrightarrow> (\<exists>k. stands_for u vs v k)"
  by (auto simp: kept_variants_def first_per_key_nth variant_key_def stands_for_def)

lemma stands_for_key: "stands_for u vs v k \<Longrightarrow> k \<noteq> [] \<and> formKey u (variant_value v) = k"
  by (auto simp: stands_for_def)

lemma kept_distinct: "distinct (map (formKey u \<circ> variant_value) (filter P (kept_variants u vs)))"
  using kept_keys_distinct by (simp add: distinct_map_filter)

lemma concat_hit_filter:
  "concat (map (\<lambda>v. case f v of None \<Rightarrow> [] | Some y \<Rightarrow> [g v y]) xs) = map (\<lambda>v. g v (the (f v))) (filter (\<lambda>v. f v \<noteq> None) xs)"
  by (induction xs) (auto split: option.splits)

lemma searched_terms: "{t. \<exists>n. (t, n) \<in> set (floor_terms fams)} = {t. \<exists>F \<in> set fams. f_searched F \<and> t \<in> set (f_terms F)}"
  by (auto simp: floor_terms_def)

text \<open>C35: What the merge of the floor with the model's variants holds. The families pass through untouched. The
  restatements are exactly the variants that stand first for a key some searched family holds, each with its category and the
  first family that holds it; the additions are exactly the variants that stand first for a key that no searched family holds,
  each with its category; no key occurs twice in either. The count of the floor is the number of keys of its searched
  terms, and that of the union the number of keys of those and the variants together.\<close>

theorem merge_no_removal:
  "mg_families (mergeVariantFloor u fams vs) = fams
   \<and> set (mg_restatements (mergeVariantFloor u fams vs))
       = {(variant_value v, variant_category u v, f) |v k f. stands_for u vs v k \<and> holding u fams k = Some f}
   \<and> set (mg_additions (mergeVariantFloor u fams vs))
       = {(variant_value v, variant_category u v) |v k. stands_for u vs v k \<and> holding u fams k = None}
   \<and> distinct (map (formKey u \<circ> fst) (mg_restatements (mergeVariantFloor u fams vs)))
   \<and> distinct (map (formKey u \<circ> fst) (mg_additions (mergeVariantFloor u fams vs)))
   \<and> mg_floor (mergeVariantFloor u fams vs)
       = card (formKey u ` {t. \<exists>F \<in> set fams. f_searched F \<and> t \<in> set (f_terms F)} - {[]})
   \<and> mg_union (mergeVariantFloor u fams vs)
       = card ((formKey u ` {t. \<exists>F \<in> set fams. f_searched F \<and> t \<in> set (f_terms F)} - {[]})
           \<union> (formKey u ` variant_value ` {v \<in> set vs. variant_value v \<noteq> []} - {[]}))"
proof -
  let ?F = "set (map fst (floorByKey u fams))" and ?K = "set (map (formKey u \<circ> variant_value) (kept_variants u vs))"
  let ?hit = "\<lambda>v. map_of (floorByKey u fams) (formKey u (variant_value v))"
  have hit: "?hit v = holding u fams k" if "stands_for u vs v k" for v k
    using stands_for_key[OF that] holding_floor by blast
  have added: "mg_additions (mergeVariantFloor u fams vs)
      = map (\<lambda>v. (variant_value v, variant_category u v)) (filter (\<lambda>v. ?hit v = None) (kept_variants u vs))"
    unfolding merge_fields concat_case_filter ..
  have restated: "mg_restatements (mergeVariantFloor u fams vs)
      = map (\<lambda>v. (variant_value v, variant_category u v, the (?hit v))) (filter (\<lambda>v. ?hit v \<noteq> None) (kept_variants u vs))"
    unfolding merge_fields concat_hit_filter ..
  have "set (mg_restatements (mergeVariantFloor u fams vs))
       = {(variant_value v, variant_category u v, f) |v k f. stands_for u vs v k \<and> holding u fams k = Some f}"
    unfolding restated using hit by (fastforce simp: kept_stands)
  moreover have "set (mg_additions (mergeVariantFloor u fams vs))
       = {(variant_value v, variant_category u v) |v k. stands_for u vs v k \<and> holding u fams k = None}"
    unfolding added using hit by (fastforce simp: kept_stands)
  moreover have "distinct (map (formKey u \<circ> fst) (mg_restatements (mergeVariantFloor u fams vs)))"
    unfolding restated using kept_distinct[of u "\<lambda>v. ?hit v \<noteq> None" vs] by (simp add: comp_def)
  moreover have "distinct (map (formKey u \<circ> fst) (mg_additions (mergeVariantFloor u fams vs)))"
    unfolding added using kept_distinct[of u "\<lambda>v. ?hit v = None" vs] by (simp add: comp_def)
  moreover have F: "?F = formKey u ` {t. \<exists>F \<in> set fams. f_searched F \<and> t \<in> set (f_terms F)} - {[]}"
    unfolding keys_floorByKey searched_terms[symmetric] by blast
  moreover have K: "?K = formKey u ` variant_value ` {v \<in> set vs. variant_value v \<noteq> []} - {[]}"
    unfolding kept_keys by (auto simp: variant_key_Some)
  moreover have floor: "mg_floor (mergeVariantFloor u fams vs) = card ?F"
    using distinct_card [OF distinct_floorByKey, of u fams] by (simp add: merge_fields)
  moreover have "mg_union (mergeVariantFloor u fams vs) = card (?F \<union> ?K)"
  proof -
    have "length (mg_additions (mergeVariantFloor u fams vs))
        = length (filter (\<lambda>k. k \<notin> ?F) (map (formKey u \<circ> variant_value) (kept_variants u vs)))"
      by (metis addition_keys length_map)
    also have "\<dots> = card (set (filter (\<lambda>k. k \<notin> ?F) (map (formKey u \<circ> variant_value) (kept_variants u vs))))"
      by (rule distinct_card [symmetric]) (rule distinct_filter [OF kept_keys_distinct])
    also have "set (filter (\<lambda>k. k \<notin> ?F) (map (formKey u \<circ> variant_value) (kept_variants u vs))) = ?K - ?F" by auto
    finally have "mg_union (mergeVariantFloor u fams vs) = card ?F + card (?K - ?F)"
      using floor by (simp only: merge_fields(2,3))
    also have "\<dots> = card (?F \<union> ?K)"
      by (metis Diff_disjoint List.finite_set Un_Diff_cancel card_Un_disjoint finite_Diff)
    finally show ?thesis .
  qed
  ultimately show ?thesis unfolding F K merge_fields(1) by blast
qed

definition demo_family :: family where
  "demo_family = mk_family EditOne True False [js ''bat'']"

theorem merge_no_removal_witness:
  "mg_families (mergeVariantFloor latin_unicode [demo_family] [VString (js ''BAT'')]) = [demo_family]"
  using merge_no_removal by blast

end
