(* ===== verification/JsonValue.thy ===== *)
theory JsonValue
  imports JsPrelude "HOL-Library.AList"
begin

text \<open>JavaScript values as \<open>JSON.parse\<close> delivers them, and what the code does with a value it has not
  checked: optional chaining (\<open>v?.k\<close>), truthiness, \<open>v ?? d\<close>, the text \<open>String(v)\<close> gives. A property that
  is absent (\<open>undefined\<close>) is \<open>None\<close>. Numbers are the integers the modelled files hold. An object is the
  list of its properties in insertion order.\<close>

datatype json = JNull | JBool bool | JNum int | JStr jstr | JArr "json list" | JObj "(jstr \<times> json) list"

fun member :: "jstr \<Rightarrow> json option \<Rightarrow> json option" where
  "member k (Some (JObj fs)) = map_of fs k"
| "member k _ = None"

fun truthy :: "json option \<Rightarrow> bool" where
  "truthy None = False"
| "truthy (Some JNull) = False"
| "truthy (Some (JBool b)) = b"
| "truthy (Some (JNum n)) = (n \<noteq> 0)"
| "truthy (Some (JStr s)) = (s \<noteq> [])"
| "truthy (Some _) = True"

text \<open>\<open>v == null\<close>: absent or null.\<close>

fun nullish :: "json option \<Rightarrow> bool" where
  "nullish None = True"
| "nullish (Some v) = (v = JNull)"

fun digits_fuel :: "nat \<Rightarrow> nat \<Rightarrow> jstr" where
  "digits_fuel 0 n = []"
| "digits_fuel (Suc k) n = (if n < 10 then [48 + n] else digits_fuel k (n div 10) @ [48 + n mod 10])"

text \<open>The decimal text of an integer; a number has no more digits than its value plus one.\<close>

definition int_text :: "int \<Rightarrow> jstr" where
  "int_text i = (if i < 0 then 45 # digits_fuel (Suc (nat (- i))) (nat (- i)) else digits_fuel (Suc (nat i)) (nat i))"

fun js_string :: "json \<Rightarrow> jstr" where
  "js_string JNull = js ''null''"
| "js_string (JBool b) = (if b then js ''true'' else js ''false'')"
| "js_string (JNum n) = int_text n"
| "js_string (JStr s) = s"
| "js_string (JArr xs) = join [44] (map (\<lambda>x. if x = JNull then [] else js_string x) xs)"
| "js_string (JObj _) = js ''[object Object]''"

text \<open>A template literal \<open>${v}\<close>.\<close>

fun template :: "json option \<Rightarrow> jstr" where
  "template None = js ''undefined''"
| "template (Some v) = js_string v"

text \<open>\<open>String(v ?? d)\<close>.\<close>

definition string_or :: "json option \<Rightarrow> jstr \<Rightarrow> jstr" where
  "string_or v d = (if nullish v then d else template v)"

lemma truthy_JStr_iff [simp]: "truthy (Some (JStr s)) \<longleftrightarrow> s \<noteq> []" by simp

lemma string_or_JStr [simp]: "string_or (Some (JStr s)) d = s"
  by (simp add: string_or_def)

lemma string_or_absent [simp]: "string_or None d = d" "string_or (Some JNull) d = d"
  by (simp_all add: string_or_def)

section \<open>Fields of an object\<close>

type_synonym fields = "(jstr \<times> json) list"

fun enum_fields :: "nat \<Rightarrow> json list \<Rightarrow> fields" where
  "enum_fields i [] = []"
| "enum_fields i (x # xs) = (int_text (int i), x) # enum_fields (Suc i) xs"

text \<open>\<open>{ ...(v ?? {}) }\<close>.\<close>

fun spread :: "json option \<Rightarrow> fields" where
  "spread (Some (JObj fs)) = fs"
| "spread (Some (JArr xs)) = enum_fields 0 xs"
| "spread (Some (JStr s)) = enum_fields 0 (map (\<lambda>c. JStr [c]) s)"
| "spread _ = []"

text \<open>\<open>Array.isArray(v) ? v : []\<close>.\<close>

fun elems :: "json option \<Rightarrow> json list" where
  "elems (Some (JArr xs)) = xs"
| "elems _ = []"

fun set_field :: "jstr \<Rightarrow> json \<Rightarrow> json \<Rightarrow> json" where
  "set_field k v (JObj fs) = JObj (AList.update k v fs)"
| "set_field k v j = j"

section \<open>Directories\<close>

text \<open>A directory tree: \<open>readdirSync\<close> lists a directory and throws on a file, a path that does not exist
  has no node.\<close>

datatype node = File jstr | Dir "(jstr \<times> node) list"

fun readdir :: "node option \<Rightarrow> jstr list option" where
  "readdir (Some (Dir es)) = Some (map fst es)"
| "readdir _ = None"

fun child :: "jstr \<Rightarrow> node option \<Rightarrow> node option" where
  "child n (Some (Dir es)) = map_of es n"
| "child n _ = None"

fun file_text :: "node option \<Rightarrow> jstr option" where
  "file_text (Some (File t)) = Some t"
| "file_text _ = None"

section \<open>Association lists\<close>

text \<open>A file table or a plain object is an association list; \<open>AList\<close> of the library updates it in place.\<close>

lemma update_entries:
  "distinct (map fst xs) \<Longrightarrow> (p, a) \<in> set (AList.update k x xs) \<longleftrightarrow> (if p = k then a = x else (p, a) \<in> set xs)"
  by (metis distinct_update map_of_eq_Some_iff update_Some_unfold)

lemma update_names [simp]: "fst ` set (AList.update k x xs) = insert k (fst ` set xs)"
  by (induction xs) auto

lemma js_ends_iff: "starts_with (rev p) (rev s) \<longleftrightarrow> (\<exists>t. s = t @ p)"
  by (auto simp: starts_with_iff) (metis rev_append rev_rev_ident)

definition ends_with :: "'a list \<Rightarrow> 'a list \<Rightarrow> bool" where
  "ends_with p s = starts_with (rev p) (rev s)"

lemma ends_with_iff: "ends_with p s \<longleftrightarrow> (\<exists>t. s = t @ p)"
  by (simp add: ends_with_def js_ends_iff)

lemma ends_with_append [simp]: "ends_with p (t @ p)"
  by (auto simp: ends_with_iff)

lemma find_in: "List.find P xs = Some x \<Longrightarrow> x \<in> set xs \<and> P x"
  by (induction xs) (auto split: if_splits)

text \<open>The positions at which a text occurs, for \<open>indexOf\<close> (the first) and \<open>lastIndexOf\<close> (the last).\<close>

definition occurrences :: "'a list \<Rightarrow> 'a list \<Rightarrow> nat list" where
  "occurrences p s = filter (\<lambda>i. starts_with p (drop i s)) [0..<Suc (length s)]"

end
