(* ===== verification/Outbox.thy ===== *)
theory Outbox
  imports JsonValue "HOL-Library.AList"
begin

text \<open>The delivery outbox (\<open>driver/outbox-backoff.mjs\<close>): the pacing of failed wakes, the circuit-breaker that
  sets aside a marker that good wakes do not consume, and the rescan that re-drops lost markers.

  The state is the directories the module reads and writes: the two outbox directories, the quarantine
  directory with its alert log, the backoff sidecars and the workspace tree. The module swallows every failure
  of a file operation; \<open>host\<close> says which ones succeed, so each \<open>catch\<close> is a branch here. \<open>JSON.parse\<close> and
  \<open>toLowerCase\<close> are parameters; nothing is assumed of them.\<close>

section \<open>State\<close>

datatype box = Root | LegacyBox

type_synonym path = "box \<times> jstr"

record host =
  json_parse :: "jstr \<Rightarrow> json option"
  to_lower_case :: "jstr \<Rightarrow> jstr"
  can_read :: "path \<Rightarrow> bool"
  can_remove :: "path \<Rightarrow> bool"
  can_move :: "path \<Rightarrow> bool"
  can_log :: bool
  can_save :: "jstr \<Rightarrow> bool"
  can_drop :: "jstr \<Rightarrow> bool"

record settings =
  baseSec :: int
  capSec :: int
  maxRetries :: int
  giveupCooldownSec :: int
  noProgressMax :: int

text \<open>Numbers read from the environment; an unset or empty variable takes the default. (A setting that is not
  an integer is outside the model.)\<close>

definition tunables :: "(string \<Rightarrow> int option) \<Rightarrow> settings" where
  "tunables env =
     (let num = \<lambda>name d. max 1 (case env name of Some n \<Rightarrow> n | None \<Rightarrow> d) in
      \<lparr> baseSec = num ''CLEAROTRON_OUTBOX_BACKOFF_BASE_SEC'' 60,
        capSec = num ''CLEAROTRON_OUTBOX_BACKOFF_CAP_SEC'' 900,
        maxRetries = num ''CLEAROTRON_OUTBOX_BACKOFF_MAX_RETRIES'' 5,
        giveupCooldownSec = num ''CLEAROTRON_OUTBOX_GIVEUP_COOLDOWN_SEC'' 3600,
        noProgressMax = num ''CLEAROTRON_OUTBOX_NOPROGRESS_MAX'' 5 \<rparr>)"

definition settings_ok :: "settings \<Rightarrow> bool" where
  "settings_ok t \<longleftrightarrow> 1 \<le> baseSec t \<and> 1 \<le> capSec t \<and> 1 \<le> maxRetries t \<and> 1 \<le> giveupCooldownSec t \<and> 1 \<le> noProgressMax t"

lemma tunables_ok: "settings_ok (tunables env)"
  by (simp add: settings_ok_def tunables_def Let_def)

record sidecar =
  sc_retries :: int
  sc_strikes :: "(jstr \<times> int) list"
  sc_reason :: jstr
  sc_due :: int
  sc_updated :: int

record alert =
  al_agent :: jstr
  al_marker :: jstr
  al_kind :: jstr
  al_strikes :: int
  al_at :: int

record outbox =
  rootBox :: "(jstr \<times> jstr) list"
  legacyBox :: "(jstr \<times> jstr) list"
  quarantine :: "(jstr \<times> jstr) list"
  alerts :: "alert list"
  sidecars :: "(jstr \<times> sidecar) list"
  tree :: "node option"

fun files :: "outbox \<Rightarrow> box \<Rightarrow> (jstr \<times> jstr) list" where
  "files s Root = rootBox s"
| "files s LegacyBox = legacyBox s"

fun remove_file :: "path \<Rightarrow> outbox \<Rightarrow> outbox" where
  "remove_file (Root, f) s = s\<lparr> rootBox := AList.delete f (rootBox s) \<rparr>"
| "remove_file (LegacyBox, f) s = s\<lparr> legacyBox := AList.delete f (legacyBox s) \<rparr>"

definition readSidecar :: "jstr \<Rightarrow> outbox \<Rightarrow> sidecar option" where
  "readSidecar agent s = map_of (sidecars s) agent"

section \<open>Reading a wake\<close>

text \<open>The whole text, else from the last line that opens an object, else from the first brace.\<close>

definition parseJsonStdout :: "host \<Rightarrow> jstr \<Rightarrow> json option" where
  "parseJsonStdout h out =
     (let s = js_trim out in
      if s = [] then None
      else case json_parse h s of Some j \<Rightarrow> Some j
      | None \<Rightarrow>
          let late = occurrences (10 # js ''{'') s;
              early = occurrences (js ''{'') s;
              from_brace = (case early of [] \<Rightarrow> None | i # _ \<Rightarrow> json_parse h (drop i s))
          in (if late = [] then from_brace
              else case json_parse h (drop (Suc (last late)) s) of Some j \<Rightarrow> Some j | None \<Rightarrow> from_brace))"

text \<open>\<open>None\<close>: the wake was good; otherwise why not. An exit code that is not a number is \<open>None\<close>.\<close>

definition classifyWake :: "host \<Rightarrow> int option \<Rightarrow> jstr \<Rightarrow> jstr option" where
  "classifyWake h code out =
     (if code \<noteq> Some 0 then Some (js ''nonzero_exit_'' @ (case code of Some n \<Rightarrow> int_text n | None \<Rightarrow> js ''NaN''))
      else let json = parseJsonStdout h out in
        if \<not> truthy json then Some (js ''unparseable_json'')
        else if member (js ''status'') json \<noteq> Some (JStr (js ''ok'')) then
          Some (js ''status_'' @ template (member (js ''status'') json))
        else if member (js ''stopReason'') (member (js ''result'') json) = Some (JStr (js ''error'')) then
          Some (js ''stop_reason_error'')
        else None)"

section \<open>Pacing\<close>

record due_answer =
  is_due :: bool
  due_retries :: int
  due_wait :: int

definition checkDue :: "jstr \<Rightarrow> int \<Rightarrow> outbox \<Rightarrow> due_answer" where
  "checkDue agent now s =
     (case readSidecar agent s of
        None \<Rightarrow> \<lparr> is_due = True, due_retries = 0, due_wait = 0 \<rparr>
      | Some sc \<Rightarrow>
          let waitMs = sc_due sc - now in
          if waitMs \<le> 0 then \<lparr> is_due = True, due_retries = sc_retries sc, due_wait = 0 \<rparr>
          else \<lparr> is_due = False, due_retries = sc_retries sc, due_wait = (waitMs + 999) div 1000 \<rparr>)"

datatype verdict = VOk | VRetry | VGiveup | VStuck | VQuarantine

record outcome =
  verdict :: verdict
  waitSec :: int
  retries :: int
  set_aside :: "jstr list"
  reason :: "jstr option"

definition recordSuccess :: "jstr \<Rightarrow> host \<Rightarrow> outbox \<Rightarrow> outbox" where
  "recordSuccess agent h s =
     (if can_save h agent then s\<lparr> sidecars := AList.delete agent (sidecars s) \<rparr> else s)"

definition saveSidecar :: "jstr \<Rightarrow> sidecar \<Rightarrow> host \<Rightarrow> outbox \<Rightarrow> outbox" where
  "saveSidecar agent sc h s =
     (if can_save h agent then s\<lparr> sidecars := AList.update agent sc (sidecars s) \<rparr> else s)"

definition backoff :: "settings \<Rightarrow> int \<Rightarrow> int" where
  "backoff t n = min (baseSec t * 2 ^ nat (n - 1)) (capSec t)"

definition recordFailure :: "settings \<Rightarrow> host \<Rightarrow> jstr \<Rightarrow> jstr \<Rightarrow> int \<Rightarrow> outbox \<Rightarrow> outcome \<times> outbox" where
  "recordFailure t h agent why now s =
     (let n = (case readSidecar agent s of Some sc \<Rightarrow> sc_retries sc | None \<Rightarrow> 0) + 1;
          giveup = (n \<ge> maxRetries t);
          delaySec = (if giveup then giveupCooldownSec t else backoff t n);
          sc = \<lparr> sc_retries = n, sc_strikes = [], sc_reason = why, sc_due = now + delaySec * 1000, sc_updated = now \<rparr>
      in (\<lparr> verdict = (if giveup then VGiveup else VRetry), waitSec = delaySec, retries = n,
            set_aside = [], reason = Some why \<rparr>,
          saveSidecar agent sc h s))"

section \<open>The markers of an agent\<close>

record marker =
  mbox :: box
  mfile :: jstr
  mkind :: jstr

definition PENDING :: jstr where "PENDING = js ''.pending''"
definition DELIVERED :: jstr where "DELIVERED = js ''delivered''"

abbreviation mpath :: "marker \<Rightarrow> path" where "mpath m \<equiv> (mbox m, mfile m)"

text \<open>Whom a marker wakes and of which kind it is. A marker that is neither an object nor readable as one
  wakes whoever its first line names.\<close>

definition read_marker :: "host \<Rightarrow> jstr \<Rightarrow> jstr option \<times> jstr" where
  "read_marker h raw =
     (if starts_with (js ''{'') (dropWhile is_space raw) then
        (case json_parse h raw of
           None \<Rightarrow> (None, DELIVERED)
         | Some j \<Rightarrow>
             let a = member (js ''agent'') (Some j); k = member (js ''kind'') (Some j) in
             (if nullish a then None else Some (template a),
              if nullish k then DELIVERED else template k))
      else (Some (js_trim (takeWhile (\<lambda>c. c \<noteq> 10) raw)), DELIVERED))"

definition box_markers :: "host \<Rightarrow> jstr \<Rightarrow> outbox \<Rightarrow> box \<Rightarrow> marker list" where
  "box_markers h agent s b =
     concat (map (\<lambda>f. case map_of (files s b) f of
                        None \<Rightarrow> []
                      | Some raw \<Rightarrow>
                          if can_read h (b, f) \<and> fst (read_marker h raw) = Some agent
                          then [\<lparr> mbox = b, mfile = f, mkind = snd (read_marker h raw) \<rparr>] else [])
                 (sorted_set (filter (ends_with PENDING) (map fst (files s b)))))"

definition markersForAgent :: "host \<Rightarrow> jstr \<Rightarrow> outbox \<Rightarrow> marker list" where
  "markersForAgent h agent s = box_markers h agent s Root @ box_markers h agent s LegacyBox"

section \<open>The run directories\<close>

definition dir_or_empty :: "node option \<Rightarrow> jstr list" where
  "dir_or_empty n = (case readdir n of Some ns \<Rightarrow> ns | None \<Rightarrow> [])"

text \<open>\<open>shared/pre-rename-spellings.mjs\<close>: the old spelling of the studio directory wins where it exists.\<close>

definition studioSegmentFor :: "node option \<Rightarrow> jstr" where
  "studioSegmentFor ws =
     (if child (js ''prelim-search'') (child (js ''studio'') ws) \<noteq> None
      then js ''prelim-search'' else js ''clearance-search'')"

definition studioDirFor :: "node option \<Rightarrow> node option" where
  "studioDirFor ws = child (studioSegmentFor ws) (child (js ''studio'') ws)"

text \<open>A run directory is its path below the workspace root and its contents.\<close>

type_synonym run_dir = "jstr list \<times> node option"

definition leaves :: "jstr list \<Rightarrow> node option \<Rightarrow> run_dir list" where
  "leaves p n = map (\<lambda>leaf. (p @ [leaf], child leaf n)) (dir_or_empty n)"

definition eachRunDir :: "node option \<Rightarrow> run_dir list" where
  "eachRunDir root =
     concat (map (\<lambda>ws.
       let studio = studioDirFor (child ws root) in
       case readdir studio of
         None \<Rightarrow> []
       | Some slugs \<Rightarrow>
           concat (map (\<lambda>slug. if slug = js ''queue'' \<or> slug = js ''archive'' then []
                               else leaves [ws, slug] (child slug studio)) slugs)
           @ concat (map (\<lambda>month.
               let m = child month (child (js ''archive'') studio) in
               concat (map (\<lambda>slug. leaves [ws, js ''archive'', month, slug] (child slug m)) (dir_or_empty m)))
             (dir_or_empty (child (js ''archive'') studio))))
       (filter (starts_with (js ''workspace-'')) (dir_or_empty root)))"

definition run_status :: "host \<Rightarrow> run_dir \<Rightarrow> json option" where
  "run_status h d = (case file_text (child (js ''status.json'') (snd d)) of
                       None \<Rightarrow> None | Some t \<Rightarrow> json_parse h t)"

definition is_sent :: "run_dir \<Rightarrow> bool" where
  "is_sent d = (child (js ''.sent'') (snd d) \<noteq> None)"

definition legacy_id :: "json option \<Rightarrow> jstr option" where
  "legacy_id status =
     (if truthy (member (js ''slug'') status) \<and> truthy (member (js ''codename'') status)
      then Some (template (member (js ''slug'') status) @ js ''-'' @ template (member (js ''codename'') status))
      else None)"

text \<open>The first run directory that carries the id, in either form, decides.\<close>

fun first_sent :: "host \<Rightarrow> jstr \<Rightarrow> run_dir list \<Rightarrow> bool" where
  "first_sent h runId [] = False"
| "first_sent h runId (d # ds) =
     (case run_status h d of
        None \<Rightarrow> first_sent h runId ds
      | Some st \<Rightarrow>
          if runId = string_or (member (js ''runId'') (Some st)) (last (fst d)) \<or> legacy_id (Some st) = Some runId
          then is_sent d
          else first_sent h runId ds)"

definition runIsSent :: "host \<Rightarrow> outbox \<Rightarrow> jstr \<Rightarrow> bool" where
  "runIsSent h s runId = first_sent h runId (eachRunDir (tree s))"

text \<open>The run id in a marker's file name: the name without its \<open>.pending\<close>.\<close>

definition marker_run :: "jstr \<Rightarrow> jstr" where
  "marker_run f = (if ends_with PENDING f then take (length f - length PENDING) f else f)"

section \<open>The circuit-breaker\<close>

definition quarantineStuckMarker :: "host \<Rightarrow> jstr \<Rightarrow> marker \<Rightarrow> int \<Rightarrow> int \<Rightarrow> outbox \<Rightarrow> (bool \<times> outbox)" where
  "quarantineStuckMarker h agent m strikes now s =
     (case map_of (files s (mbox m)) (mfile m) of
        None \<Rightarrow> (False, s)
      | Some raw \<Rightarrow>
          if \<not> can_move h (mpath m) then (False, s)
          else
            let moved = (remove_file (mpath m) s)\<lparr> quarantine := AList.update (mfile m) raw (quarantine s) \<rparr>;
                rec = \<lparr> al_agent = agent, al_marker = mfile m, al_kind = mkind m, al_strikes = strikes, al_at = now \<rparr>
            in (True, if can_log h then moved\<lparr> alerts := alerts s @ [rec] \<rparr> else moved))"

record tally =
  ta_strikes :: "(jstr \<times> int) list"
  ta_set_aside :: "jstr list"
  ta_cleared :: nat

text \<open>One marker still present after a good wake: cleared in silence when it announces a delivery that was
  sent, set aside at the threshold, struck otherwise.\<close>

definition settle_marker ::
  "settings \<Rightarrow> host \<Rightarrow> jstr \<Rightarrow> (jstr \<times> int) list \<Rightarrow> int \<Rightarrow> marker \<Rightarrow> tally \<times> outbox \<Rightarrow> tally \<times> outbox" where
  "settle_marker t h agent prev now m ts =
     (let (ta, s) = ts in
      if mkind m = DELIVERED \<and> runIsSent h s (marker_run (mfile m)) \<and> can_remove h (mpath m) then
        (ta\<lparr> ta_cleared := Suc (ta_cleared ta) \<rparr>, remove_file (mpath m) s)
      else
        let n = (case map_of prev (mfile m) of Some k \<Rightarrow> k | None \<Rightarrow> 0) + 1;
            (moved, s') = (if n \<ge> noProgressMax t then quarantineStuckMarker h agent m n now s else (False, s))
        in if moved then (ta\<lparr> ta_set_aside := ta_set_aside ta @ [mfile m] \<rparr>, s')
           else (ta\<lparr> ta_strikes := AList.update (mfile m) n (ta_strikes ta) \<rparr>, s'))"

definition settle_markers ::
  "settings \<Rightarrow> host \<Rightarrow> jstr \<Rightarrow> (jstr \<times> int) list \<Rightarrow> int \<Rightarrow> marker list \<Rightarrow> tally \<times> outbox \<Rightarrow> tally \<times> outbox" where
  "settle_markers t h agent prev now ms ts = List.fold (settle_marker t h agent prev now) ms ts"

definition writeStrikeSidecar :: "jstr \<Rightarrow> (jstr \<times> int) list \<Rightarrow> int \<Rightarrow> int \<Rightarrow> host \<Rightarrow> outbox \<Rightarrow> outbox" where
  "writeStrikeSidecar agent strikes wait now h s =
     (if strikes = [] then recordSuccess agent h s
      else saveSidecar agent
             \<lparr> sc_retries = (case readSidecar agent s of Some sc \<Rightarrow> sc_retries sc | None \<Rightarrow> 0),
               sc_strikes = strikes, sc_reason = js ''no_progress'',
               sc_due = now + wait * 1000, sc_updated = now \<rparr> h s)"

definition worst :: "(jstr \<times> int) list \<Rightarrow> int" where
  "worst strikes = List.fold (\<lambda>kv a. max a (snd kv)) strikes 0"

definition settleProgress :: "settings \<Rightarrow> host \<Rightarrow> jstr \<Rightarrow> int \<Rightarrow> outbox \<Rightarrow> outcome \<times> outbox" where
  "settleProgress t h agent now s =
     (let clean = \<lparr> verdict = VOk, waitSec = 0, retries = 0, set_aside = [], reason = None \<rparr>;
          present = markersForAgent h agent s in
      if present = [] then (clean, recordSuccess agent h s)
      else
        let prev = (case readSidecar agent s of Some sc \<Rightarrow> sc_strikes sc | None \<Rightarrow> []);
            (ta, s') = settle_markers t h agent prev now present
                         (\<lparr> ta_strikes = [], ta_set_aside = [], ta_cleared = 0 \<rparr>, s)
        in if ta_strikes ta = [] \<and> ta_set_aside ta = [] then (clean, recordSuccess agent h s')
           else
             let w = worst (ta_strikes ta);
                 wait = (if w > 0 then backoff t w else baseSec t)
             in (\<lparr> verdict = (if ta_set_aside ta \<noteq> [] then VQuarantine else VStuck), waitSec = wait, retries = 0,
                   set_aside = ta_set_aside ta, reason = Some (js ''no_progress'') \<rparr>,
                 writeStrikeSidecar agent (ta_strikes ta) wait now h s'))"

definition settleWake :: "settings \<Rightarrow> host \<Rightarrow> jstr \<Rightarrow> int option \<Rightarrow> jstr \<Rightarrow> int \<Rightarrow> outbox \<Rightarrow> outcome \<times> outbox" where
  "settleWake t h agent code out now s =
     (case classifyWake h code out of
        Some why \<Rightarrow> recordFailure t h agent why now s
      | None \<Rightarrow> settleProgress t h agent now s)"

section \<open>The rescan\<close>

definition OWED_TERMINAL_STATES :: "jstr list" where
  "OWED_TERMINAL_STATES = [js ''delivered'', js ''failed'', js ''parked'', js ''cancelled'']"

definition owedANotification :: "host \<Rightarrow> json option \<Rightarrow> bool" where
  "owedANotification h status =
     (if member (js ''sendPending'') status \<noteq> Some (JBool True) then False
      else let terminal = to_lower_case h (js_trim (string_or (member (js ''state'') status) [])) in
           terminal = [] \<or> terminal \<in> set OWED_TERMINAL_STATES)"

definition agent_char :: "unit16 \<Rightarrow> bool" where
  "agent_char c \<longleftrightarrow> is_upper c \<or> is_lower c \<or> is_digit c \<or> c = 95 \<or> c = 45"

definition agent_name :: "jstr \<Rightarrow> bool" where
  "agent_name a \<longleftrightarrow> a \<noteq> [] \<and> list_all agent_char a"

definition sanitize :: "jstr \<Rightarrow> jstr" where
  "sanitize s = map (\<lambda>c. if agent_char c \<or> c = 46 then c else 95) s"

record dropped =
  dr_run :: jstr
  dr_agent :: jstr
  dr_dir :: "jstr list"

text \<open>What the rescan would drop for a run directory: the agent and the marker's run id, with every form of
  the id that may already be queued or set aside.\<close>

definition rescan_candidate :: "host \<Rightarrow> run_dir \<Rightarrow> (jstr \<times> jstr list) option" where
  "rescan_candidate h d =
     (if is_sent d then None
      else case run_status h d of
        None \<Rightarrow> None
      | Some st \<Rightarrow>
          let agent = string_or (member (js ''agent'') (Some st)) [];
              runId = sanitize (string_or (member (js ''runId'') (Some st)) (last (fst d)));
              forms = (case legacy_id (Some st) of
                         None \<Rightarrow> [runId]
                       | Some l \<Rightarrow> if sanitize l \<noteq> runId then [runId, sanitize l] else [runId])
          in if owedANotification h (Some st) \<and> agent_name agent then Some (agent, forms) else None)"

definition rescan_dir :: "host \<Rightarrow> run_dir \<Rightarrow> dropped list \<times> outbox \<Rightarrow> dropped list \<times> outbox" where
  "rescan_dir h d ds =
     (case rescan_candidate h d of
        None \<Rightarrow> ds
      | Some (agent, forms) \<Rightarrow>
          let (out, s) = ds; file = (\<lambda>i. i @ PENDING) in
          if \<exists>i\<in>set forms. file i \<in> fst ` set (rootBox s) then (out, s)
          else if \<exists>i\<in>set forms. file i \<in> fst ` set (quarantine s) then (out, s)
          else if can_drop h (hd forms) then
            (out @ [\<lparr> dr_run = hd forms, dr_agent = agent, dr_dir = fst d \<rparr>],
             s\<lparr> rootBox := AList.update (file (hd forms)) (agent @ [10]) (rootBox s) \<rparr>)
          else (out, s))"

definition rescanOwedRuns :: "host \<Rightarrow> outbox \<Rightarrow> dropped list \<times> outbox" where
  "rescanOwedRuns h s = List.fold (rescan_dir h) (eachRunDir (tree s)) ([], s)"

section \<open>Facts about the directories\<close>

lemma files_remove [simp]:
  "map_of (files (remove_file p s) b) f = (if p = (b, f) then None else map_of (files s b) f)"
  by (cases p; cases "fst p"; cases b) (auto simp: AList.delete_conv')

lemma remove_file_frame [simp]:
  "quarantine (remove_file p s) = quarantine s" "tree (remove_file p s) = tree s"
  "sidecars (remove_file p s) = sidecars s" "alerts (remove_file p s) = alerts s"
  by (cases p; cases "fst p"; auto)+

lemma files_update_other [simp]:
  "files (s\<lparr> quarantine := q \<rparr>) b = files s b" "files (s\<lparr> alerts := a \<rparr>) b = files s b"
  "files (s\<lparr> sidecars := c \<rparr>) b = files s b"
  by (cases b; simp)+

lemma runIsSent_cong: "tree s' = tree s \<Longrightarrow> runIsSent h s' f = runIsSent h s f"
  by (simp add: runIsSent_def)

lemma files_sidecars [simp]:
  "files (recordSuccess a h s) b = files s b" "files (saveSidecar a sc h s) b = files s b"
  "quarantine (recordSuccess a h s) = quarantine s" "quarantine (saveSidecar a sc h s) = quarantine s"
  "tree (recordSuccess a h s) = tree s" "tree (saveSidecar a sc h s) = tree s"
  by (simp_all add: recordSuccess_def saveSidecar_def)

lemma strike_sidecar_frame [simp]:
  "files (writeStrikeSidecar a k w n h s) b = files s b"
  "quarantine (writeStrikeSidecar a k w n h s) = quarantine s"
  "tree (writeStrikeSidecar a k w n h s) = tree s"
  by (simp_all add: writeStrikeSidecar_def)

section \<open>The markers of an agent, as a set\<close>

lemma box_markers_set:
  "m \<in> set (box_markers h agent s b) \<longleftrightarrow>
     mbox m = b \<and> ends_with PENDING (mfile m) \<and> can_read h (mpath m)
     \<and> (\<exists>raw. map_of (files s b) (mfile m) = Some raw \<and> read_marker h raw = (Some agent, mkind m))"
  (is "?l \<longleftrightarrow> ?r")
proof
  assume ?l
  then show ?r
    by (auto simp: box_markers_def prod_eq_iff split: option.splits if_splits) (metis option.inject)
next
  assume ?r
  then obtain raw where raw: "map_of (files s b) (mfile m) = Some raw" "read_marker h raw = (Some agent, mkind m)"
    and m: "m = \<lparr> mbox = b, mfile = mfile m, mkind = mkind m \<rparr>" "ends_with PENDING (mfile m)" "can_read h (b, mfile m)"
    by (cases m) auto
  have "mfile m \<in> fst ` set (files s b)"
    using map_of_SomeD[OF raw(1)] by force
  then show ?l
    unfolding box_markers_def set_concat set_map image_image
    by (intro UN_I[of "mfile m"]) (use raw m in auto)
qed

lemma markersForAgent_set:
  "m \<in> set (markersForAgent h agent s) \<longleftrightarrow>
     ends_with PENDING (mfile m) \<and> can_read h (mpath m)
     \<and> (\<exists>raw. map_of (files s (mbox m)) (mfile m) = Some raw \<and> read_marker h raw = (Some agent, mkind m))"
  by (cases "mbox m") (auto simp: markersForAgent_def box_markers_set)

lemma distinct_concat_map:
  assumes "distinct fs" and "\<And>f. f \<in> set fs \<Longrightarrow> g f = [] \<or> (\<exists>m. g f = [m] \<and> k m = (f :: 'b))"
  shows "distinct (map k (concat (map g fs)))"
  using assms
proof (induction fs)
  case (Cons f fs)
  have only: "k m \<in> set fs" if "m \<in> set (concat (map g fs))" for m
    using that Cons.prems(2) by fastforce
  have "f \<notin> k ` set (concat (map g fs))"
    using only Cons.prems(1) by auto
  moreover have "distinct (map k (concat (map g fs)))"
    using Cons by simp
  ultimately show ?case
    using Cons.prems(2)[of f] by auto
qed simp

lemma distinct_box_markers: "distinct (map mfile (box_markers h agent s b))"
  unfolding box_markers_def
  by (rule distinct_concat_map) (simp_all split: option.split)

lemma distinct_markers: "distinct (map mpath (markersForAgent h agent s))"
proof -
  have d: "distinct (map mpath (box_markers h agent s b))" for b
    using distinct_box_markers[of h agent s b] by (auto simp: distinct_map inj_on_def)
  show ?thesis
    using d by (auto simp: markersForAgent_def box_markers_set)
qed

section \<open>What becomes of a marker\<close>

text \<open>The contract of the circuit-breaker: the fate of each marker is read off the state before the wake was
  settled, whatever happens to the other markers.\<close>

datatype fate = Cleared | SetAside | Struck

definition strike_count :: "(jstr \<times> int) list \<Rightarrow> jstr \<Rightarrow> int" where
  "strike_count prev f = (case map_of prev f of Some k \<Rightarrow> k | None \<Rightarrow> 0) + 1"

definition fate :: "settings \<Rightarrow> host \<Rightarrow> (jstr \<times> int) list \<Rightarrow> outbox \<Rightarrow> marker \<Rightarrow> fate" where
  "fate t h prev s m =
     (if mkind m = DELIVERED \<and> runIsSent h s (marker_run (mfile m)) \<and> can_remove h (mpath m) then Cleared
      else if noProgressMax t \<le> strike_count prev (mfile m) \<and> can_move h (mpath m) then SetAside
      else Struck)"

lemma fate_cong: "tree s' = tree s \<Longrightarrow> fate t h prev s' m = fate t h prev s m"
  unfolding fate_def runIsSent_def by simp

definition settled :: "fate \<Rightarrow> (jstr \<times> int) list \<Rightarrow> marker \<Rightarrow> tally \<Rightarrow> tally" where
  "settled k prev m ta =
     (case k of Cleared \<Rightarrow> ta\<lparr> ta_cleared := Suc (ta_cleared ta) \<rparr>
      | SetAside \<Rightarrow> ta\<lparr> ta_set_aside := ta_set_aside ta @ [mfile m] \<rparr>
      | Struck \<Rightarrow> ta\<lparr> ta_strikes := AList.update (mfile m) (strike_count prev (mfile m)) (ta_strikes ta) \<rparr>)"

lemma quarantine_moves:
  assumes "map_of (files s (mbox m)) (mfile m) = Some raw" and "can_move h (mpath m)"
  obtains s' where "quarantineStuckMarker h agent m n now s = (True, s')"
    and "tree s' = tree s" and "sidecars s' = sidecars s"
    and "\<And>b f. map_of (files s' b) f = (if mpath m = (b, f) then None else map_of (files s b) f)"
    and "\<And>f. f \<in> fst ` set (quarantine s') \<longleftrightarrow> f \<in> fst ` set (quarantine s) \<or> f = mfile m"
proof
  show "quarantineStuckMarker h agent m n now s = (True, snd (quarantineStuckMarker h agent m n now s))"
    using assms by (simp add: quarantineStuckMarker_def Let_def)
  show "f \<in> fst ` set (quarantine (snd (quarantineStuckMarker h agent m n now s))) \<longleftrightarrow>
          f \<in> fst ` set (quarantine s) \<or> f = mfile m" for f
    using assms AList.update_keys[of "mfile m" raw "quarantine s"]
    by (auto simp: quarantineStuckMarker_def Let_def simp flip: set_map)
qed (use assms in \<open>simp_all add: quarantineStuckMarker_def Let_def\<close>)

lemma quarantine_fails:
  "\<not> can_move h (mpath m) \<Longrightarrow> quarantineStuckMarker h agent m n now s = (False, s)"
  by (simp add: quarantineStuckMarker_def split: option.split)

lemma settle_marker_fate:
  assumes here: "map_of (files s (mbox m)) (mfile m) = Some raw"
  obtains s' where "settle_marker t h agent prev now m (ta, s) = (settled (fate t h prev s m) prev m ta, s')"
    and "tree s' = tree s" and "sidecars s' = sidecars s"
    and "\<And>b f. map_of (files s' b) f =
           (if fate t h prev s m \<noteq> Struck \<and> mpath m = (b, f) then None else map_of (files s b) f)"
    and "\<And>f. f \<in> fst ` set (quarantine s') \<longleftrightarrow>
           f \<in> fst ` set (quarantine s) \<or> fate t h prev s m = SetAside \<and> f = mfile m"
proof (cases "fate t h prev s m")
  case Cleared
  then have "mkind m = DELIVERED \<and> runIsSent h s (marker_run (mfile m)) \<and> can_remove h (mpath m)"
    by (simp add: fate_def split: if_splits)
  then have "settle_marker t h agent prev now m (ta, s) = (settled Cleared prev m ta, remove_file (mpath m) s)"
    by (simp add: settle_marker_def settled_def)
  then show thesis
    by (intro that[of "remove_file (mpath m) s"]) (use Cleared in simp_all)
next
  case SetAside
  then have c: "\<not> (mkind m = DELIVERED \<and> runIsSent h s (marker_run (mfile m)) \<and> can_remove h (mpath m))"
    "noProgressMax t \<le> strike_count prev (mfile m)" "can_move h (mpath m)"
    by (simp_all add: fate_def split: if_splits)
  obtain s' where s': "quarantineStuckMarker h agent m (strike_count prev (mfile m)) now s = (True, s')"
    "tree s' = tree s" "sidecars s' = sidecars s"
    "\<And>b f. map_of (files s' b) f = (if mpath m = (b, f) then None else map_of (files s b) f)"
    "\<And>f. f \<in> fst ` set (quarantine s') \<longleftrightarrow> f \<in> fst ` set (quarantine s) \<or> f = mfile m"
    using quarantine_moves[OF here c(3)] by metis
  have "settle_marker t h agent prev now m (ta, s) = (settled SetAside prev m ta, s')"
    using c(2) s'(1) unfolding settle_marker_def settled_def strike_count_def Let_def prod.case if_not_P[OF c(1)]
    by (simp split del: option.split)
  then show thesis
    by (intro that[of s']) (use SetAside s' in simp_all)
next
  case Struck
  then have c: "\<not> (mkind m = DELIVERED \<and> runIsSent h s (marker_run (mfile m)) \<and> can_remove h (mpath m))"
    "noProgressMax t \<le> strike_count prev (mfile m) \<Longrightarrow> \<not> can_move h (mpath m)"
    by (simp_all add: fate_def split: if_splits)
  have "settle_marker t h agent prev now m (ta, s) = (settled Struck prev m ta, s)"
    using c(1) quarantine_fails[OF c(2)] unfolding settle_marker_def settled_def strike_count_def Let_def prod.case if_not_P[OF c(1)]
    by (simp split del: option.split)
  then show thesis
    by (intro that[of s]) (use Struck in simp_all)
qed

lemma settle_markers_fate:
  assumes "distinct (map mpath ms)" and "\<forall>m\<in>set ms. map_of (files s (mbox m)) (mfile m) \<noteq> None"
  shows "\<exists>s'. settle_markers t h agent prev now ms (ta, s)
           = (List.fold (\<lambda>m. settled (fate t h prev s m) prev m) ms ta, s')
         \<and> tree s' = tree s \<and> sidecars s' = sidecars s
         \<and> (\<forall>b f. map_of (files s' b) f =
              (if \<exists>m\<in>set ms. mpath m = (b, f) \<and> fate t h prev s m \<noteq> Struck then None else map_of (files s b) f))
         \<and> (\<forall>f. f \<in> fst ` set (quarantine s') \<longleftrightarrow>
              f \<in> fst ` set (quarantine s) \<or> (\<exists>m\<in>set ms. mfile m = f \<and> fate t h prev s m = SetAside))"
  using assms
proof (induction ms arbitrary: s ta)
  case Nil
  then show ?case by (simp add: settle_markers_def)
next
  case (Cons m ms)
  let ?k = "\<lambda>m. fate t h prev s m"
  obtain raw where "map_of (files s (mbox m)) (mfile m) = Some raw"
    using Cons.prems(2) by auto
  then obtain s1 where s1: "settle_marker t h agent prev now m (ta, s) = (settled (?k m) prev m ta, s1)"
    "tree s1 = tree s" "sidecars s1 = sidecars s"
    "\<And>b f. map_of (files s1 b) f = (if ?k m \<noteq> Struck \<and> mpath m = (b, f) then None else map_of (files s b) f)"
    "\<And>f. f \<in> fst ` set (quarantine s1) \<longleftrightarrow> f \<in> fst ` set (quarantine s) \<or> ?k m = SetAside \<and> f = mfile m"
    using settle_marker_fate[of s m raw t h agent prev now ta] by metis
  have same: "fate t h prev s1 = ?k"
    by (rule ext) (rule fate_cong[OF s1(2)])
  have dist: "distinct (map mpath ms)" and away: "m' \<in> set ms \<Longrightarrow> mpath m' \<noteq> mpath m" for m'
    using Cons.prems(1) by (auto simp: image_iff)
  have pres: "\<forall>m'\<in>set ms. map_of (files s1 (mbox m')) (mfile m') \<noteq> None"
  proof
    fix m' assume "m' \<in> set ms"
    then have "map_of (files s (mbox m')) (mfile m') \<noteq> None" and "mpath m \<noteq> (mbox m', mfile m')"
      using Cons.prems(2) away[of m'] by auto
    then show "map_of (files s1 (mbox m')) (mfile m') \<noteq> None"
      unfolding s1(4) by simp
  qed
  from Cons.IH[OF dist pres, of "settled (?k m) prev m ta", unfolded same]
  obtain s' where s': "settle_markers t h agent prev now ms (settled (?k m) prev m ta, s1)
        = (List.fold (\<lambda>m. settled (?k m) prev m) ms (settled (?k m) prev m ta), s')"
    "tree s' = tree s1" "sidecars s' = sidecars s1"
    "\<forall>b f. map_of (files s' b) f =
       (if \<exists>m\<in>set ms. mpath m = (b, f) \<and> ?k m \<noteq> Struck then None else map_of (files s1 b) f)"
    "\<forall>f. f \<in> fst ` set (quarantine s') \<longleftrightarrow>
       f \<in> fst ` set (quarantine s1) \<or> (\<exists>m\<in>set ms. mfile m = f \<and> ?k m = SetAside)"
    by (elim exE conjE) (rule that, assumption+)
  show ?case
  proof (intro exI[of _ s'] conjI)
    show "settle_markers t h agent prev now (m # ms) (ta, s)
            = (List.fold (\<lambda>m. settled (?k m) prev m) (m # ms) ta, s')"
      using s'(1) s1(1) by (simp add: settle_markers_def)
    show "tree s' = tree s" "sidecars s' = sidecars s"
      using s' s1 by simp_all
    show "\<forall>b f. map_of (files s' b) f =
       (if \<exists>m\<in>set (m # ms). mpath m = (b, f) \<and> ?k m \<noteq> Struck then None else map_of (files s b) f)"
      unfolding s'(4)[rule_format] s1(4) by auto
    show "\<forall>f. f \<in> fst ` set (quarantine s') \<longleftrightarrow>
       f \<in> fst ` set (quarantine s) \<or> (\<exists>m\<in>set (m # ms). mfile m = f \<and> ?k m = SetAside)"
      unfolding s'(5)[rule_format] s1(5) by auto
  qed
qed

lemma tally_set_aside:
  "ta_set_aside (List.fold (\<lambda>m. settled (k m) prev m) ms ta) =
     ta_set_aside ta @ map mfile (filter (\<lambda>m. k m = SetAside) ms)"
  by (induction ms arbitrary: ta) (auto simp: settled_def split: fate.split)

lemma tally_strikes:
  "map_of (ta_strikes (List.fold (\<lambda>m. settled (k m) prev m) ms ta)) f =
     (if \<exists>m\<in>set ms. mfile m = f \<and> k m = Struck then Some (strike_count prev f) else map_of (ta_strikes ta) f)"
  by (induction ms arbitrary: ta) (auto simp: settled_def AList.update_conv' split: fate.split)

definition strikes_of :: "jstr \<Rightarrow> outbox \<Rightarrow> (jstr \<times> int) list" where
  "strikes_of agent s = (case readSidecar agent s of Some sc \<Rightarrow> sc_strikes sc | None \<Rightarrow> [])"

text \<open>The whole wake: what \<open>settleProgress\<close> does to the directories, in terms of the fates.\<close>

lemma settleProgress_fate:
  assumes "settleProgress t h agent now s = (r, s')"
  defines "k \<equiv> fate t h (strikes_of agent s) s"
  defines "ms \<equiv> markersForAgent h agent s"
  shows "tree s' = tree s"
    and "\<And>b f. map_of (files s' b) f =
           (if \<exists>m\<in>set ms. mpath m = (b, f) \<and> k m \<noteq> Struck then None else map_of (files s b) f)"
    and "\<And>f. f \<in> fst ` set (quarantine s') \<longleftrightarrow>
           f \<in> fst ` set (quarantine s) \<or> (\<exists>m\<in>set ms. mfile m = f \<and> k m = SetAside)"
    and "can_save h agent \<Longrightarrow> map_of (strikes_of agent s') f =
           (if \<exists>m\<in>set ms. mfile m = f \<and> k m = Struck then Some (strike_count (strikes_of agent s) f) else None)"
    and "verdict r = (if \<exists>m\<in>set ms. k m = SetAside then VQuarantine
                      else if \<exists>m\<in>set ms. k m = Struck then VStuck else VOk)"
    and "set_aside r = map mfile (filter (\<lambda>m. k m = SetAside) ms)"
proof -
  let ?prev = "strikes_of agent s"
  let ?ta0 = "\<lparr> ta_strikes = [], ta_set_aside = [], ta_cleared = 0 \<rparr>"
  define ta where "ta = List.fold (\<lambda>m. settled (k m) ?prev m) ms ?ta0"
  have "\<forall>m\<in>set ms. map_of (files s (mbox m)) (mfile m) \<noteq> None"
    by (auto simp: ms_def markersForAgent_set)
  from settle_markers_fate[OF distinct_markers[of h agent s, folded ms_def] this,
      of t h agent ?prev now ?ta0, folded k_def, folded ta_def]
  obtain s1 where s1: "settle_markers t h agent ?prev now ms (?ta0, s) = (ta, s1)"
    "tree s1 = tree s" "sidecars s1 = sidecars s"
    "\<forall>b f. map_of (files s1 b) f =
       (if \<exists>m\<in>set ms. mpath m = (b, f) \<and> k m \<noteq> Struck then None else map_of (files s b) f)"
    "\<forall>f. f \<in> fst ` set (quarantine s1) \<longleftrightarrow>
       f \<in> fst ` set (quarantine s) \<or> (\<exists>m\<in>set ms. mfile m = f \<and> k m = SetAside)"
    by (elim exE conjE) (rule that, assumption+)
  have aside: "ta_set_aside ta = map mfile (filter (\<lambda>m. k m = SetAside) ms)"
    unfolding ta_def by (simp add: tally_set_aside)
  have strikes: "map_of (ta_strikes ta) f =
      (if \<exists>m\<in>set ms. mfile m = f \<and> k m = Struck then Some (strike_count ?prev f) else None)" for f
    unfolding ta_def tally_strikes by simp
  have none: "ta_strikes ta = [] \<longleftrightarrow> \<not> (\<exists>m\<in>set ms. k m = Struck)"
    using strikes by (metis map_of_eq_empty_iff option.distinct(1))
  have none': "ta_set_aside ta = [] \<longleftrightarrow> \<not> (\<exists>m\<in>set ms. k m = SetAside)"
    by (auto simp: aside filter_empty_conv)
  have s1': "settle_markers t h agent (case readSidecar agent s of Some sc \<Rightarrow> sc_strikes sc | None \<Rightarrow> []) now ms
      (?ta0, s) = (ta, s1)"
    using s1(1) by (simp add: strikes_of_def)
  have cases: "(ms = [] \<and> s' = recordSuccess agent h s \<and> verdict r = VOk \<and> set_aside r = [])
      \<or> (ms \<noteq> [] \<and> ta_strikes ta = [] \<and> ta_set_aside ta = [] \<and> s' = recordSuccess agent h s1 \<and> verdict r = VOk
         \<and> set_aside r = [])
      \<or> (\<not> (ta_strikes ta = [] \<and> ta_set_aside ta = []) \<and> (\<exists>w. s' = writeStrikeSidecar agent (ta_strikes ta) w now h s1)
         \<and> verdict r = (if ta_set_aside ta \<noteq> [] then VQuarantine else VStuck) \<and> set_aside r = ta_set_aside ta)"
  proof (cases "ms = []")
    case True
    then show ?thesis
      using assms(1) unfolding settleProgress_def Let_def ms_def[symmetric] by auto
  next
    case nonempty: False
    show ?thesis
    proof (cases "ta_strikes ta = [] \<and> ta_set_aside ta = []")
      case True
      then show ?thesis
        using assms(1) nonempty unfolding settleProgress_def Let_def ms_def[symmetric] s1' by auto
    next
      case False
      then show ?thesis
        using assms(1) nonempty unfolding settleProgress_def Let_def ms_def[symmetric] s1' prod.case
          if_not_P[OF False] if_not_P[OF nonempty] by auto
    qed
  qed
  have frame: "tree s' = tree s" "(\<forall>b f. map_of (files s' b) f = map_of (files s1 b) f)"
    "quarantine s' = quarantine s1 \<or> ms = [] \<and> quarantine s' = quarantine s"
    using cases s1(2) s1(4) by auto
  show "tree s' = tree s" by (rule frame(1))
  show "map_of (files s' b) f =
      (if \<exists>m\<in>set ms. mpath m = (b, f) \<and> k m \<noteq> Struck then None else map_of (files s b) f)" for b f
    using frame(2) s1(4) by simp
  show "f \<in> fst ` set (quarantine s') \<longleftrightarrow>
      f \<in> fst ` set (quarantine s) \<or> (\<exists>m\<in>set ms. mfile m = f \<and> k m = SetAside)" for f
    using frame(3) s1(5)[rule_format, of f] by auto
  show "verdict r = (if \<exists>m\<in>set ms. k m = SetAside then VQuarantine
                     else if \<exists>m\<in>set ms. k m = Struck then VStuck else VOk)"
    using cases none none' by (elim disjE) auto
  show "set_aside r = map mfile (filter (\<lambda>m. k m = SetAside) ms)"
    using cases aside by (elim disjE) auto
  show "map_of (strikes_of agent s') f =
      (if \<exists>m\<in>set ms. mfile m = f \<and> k m = Struck then Some (strike_count ?prev f) else None)"
    if save: "can_save h agent"
  proof -
    have clean: "strikes_of agent (recordSuccess agent h x) = []" for x
      using save by (simp add: strikes_of_def readSidecar_def recordSuccess_def AList.delete_conv')
    have wrote: "strikes_of agent (writeStrikeSidecar agent ks w now h x) = ks" for ks w x
      using save clean by (simp add: strikes_of_def readSidecar_def writeStrikeSidecar_def saveSidecar_def AList.update_conv')
    show ?thesis
      using cases none strikes[of f] by (elim disjE) (auto simp: clean wrote)
  qed
qed

section \<open>Runs of the outbox\<close>

definition pending_names :: "outbox \<Rightarrow> jstr set" where
  "pending_names s = fst ` set (rootBox s) \<union> fst ` set (legacyBox s)"

definition quarantine_names :: "outbox \<Rightarrow> jstr set" where
  "quarantine_names s = fst ` set (quarantine s)"

text \<open>What may happen between two looks at the outbox: an agent's wake is settled, the timer rescans the runs, a delivery drops
  a marker, or the runs change under it (one is sent, another archived). Settings and clock are free at each step, and so
  is which file operations succeed; only what the engine's own functions compute is the same throughout.\<close>

definition same_engine :: "host \<Rightarrow> host \<Rightarrow> bool" where
  "same_engine h h' \<longleftrightarrow> json_parse h' = json_parse h \<and> to_lower_case h' = to_lower_case h"

inductive outbox_step :: "host \<Rightarrow> outbox \<Rightarrow> outbox \<Rightarrow> bool" for h0 where
  wake: "same_engine h0 h \<Longrightarrow> outbox_step h0 s (snd (settleWake t h agent code out now s))"
| sweep: "same_engine h0 h \<Longrightarrow> outbox_step h0 s (snd (rescanOwedRuns h s))"
| arrives: "outbox_step h0 s (s\<lparr> rootBox := AList.update f raw (rootBox s) \<rparr>)"
| runs_change: "outbox_step h0 s (s\<lparr> tree := tr \<rparr>)"

lemma runIsSent_engine: "same_engine h h' \<Longrightarrow> runIsSent h' s i = runIsSent h s i"
proof -
  assume "same_engine h h'"
  then have "run_status h' d = run_status h d" for d by (auto simp: same_engine_def run_status_def split: option.split)
  then have "first_sent h' i ds = first_sent h i ds" for ds by (induction ds) (simp_all split: option.split)
  then show ?thesis by (simp add: runIsSent_def)
qed

lemma pending_iff: "f \<in> pending_names s \<longleftrightarrow> (\<exists>b. map_of (files s b) f \<noteq> None)"
proof -
  have "(\<exists>b. map_of (files s b) f \<noteq> None) \<longleftrightarrow> map_of (files s Root) f \<noteq> None \<or> map_of (files s LegacyBox) f \<noteq> None"
    by (metis box.exhaust)
  then show ?thesis
    by (simp add: pending_names_def map_of_eq_None_iff)
qed

lemma recordFailure_frame:
  "files (snd (recordFailure t h agent why now s)) b = files s b"
  "quarantine (snd (recordFailure t h agent why now s)) = quarantine s"
  "tree (snd (recordFailure t h agent why now s)) = tree s"
  by (simp_all add: recordFailure_def Let_def)

lemma wake_keeps:
  assumes "settleWake t h agent code out now s = (r, s')"
  shows "tree s' = tree s \<and> quarantine_names s \<subseteq> quarantine_names s'
    \<and> (\<forall>f\<in>pending_names s. f \<in> pending_names s' \<or> f \<in> quarantine_names s' \<or> runIsSent h s (marker_run f))"
proof (cases "classifyWake h code out")
  case (Some why)
  then have s': "s' = snd (recordFailure t h agent why now s)"
    using assms by (simp add: settleWake_def)
  show ?thesis
    by (simp add: s' recordFailure_frame quarantine_names_def pending_iff)
next
  case None
  then have eq: "settleProgress t h agent now s = (r, s')"
    using assms by (simp add: settleWake_def)
  note fs = settleProgress_fate[OF eq]
  have frame: "tree s' = tree s" "quarantine_names s \<subseteq> quarantine_names s'"
    using fs(1,3) by (auto simp: quarantine_names_def)
  have "f \<in> pending_names s' \<or> f \<in> quarantine_names s' \<or> runIsSent h s (marker_run f)" if "f \<in> pending_names s" for f
  proof -
  from that
  obtain b where b: "map_of (files s b) f \<noteq> None"
    by (auto simp: pending_iff)
  show ?thesis
  proof (cases "\<exists>m\<in>set (markersForAgent h agent s). mpath m = (b, f) \<and> fate t h (strikes_of agent s) s m \<noteq> Struck")
    case False
    then have "map_of (files s' b) f \<noteq> None"
      using b by (simp add: fs(2))
    then show ?thesis by (auto simp: pending_iff)
  next
    case True
    then obtain m where m: "m \<in> set (markersForAgent h agent s)" "mpath m = (b, f)"
      "fate t h (strikes_of agent s) s m \<noteq> Struck" by auto
    then consider "fate t h (strikes_of agent s) s m = Cleared" | "fate t h (strikes_of agent s) s m = SetAside"
      by (cases "fate t h (strikes_of agent s) s m") auto
    then show ?thesis
    proof cases
      case 1
      then have "runIsSent h s (marker_run f)"
        using m(2) by (auto simp: fate_def split: if_splits)
      then show ?thesis by simp
    next
      case 2
      then show ?thesis
        using m fs(3)[of f] by (auto simp: quarantine_names_def)
    qed
  qed
  qed
  then show ?thesis
    using frame by blast
qed

lemma rescan_dir_keeps:
  "tree (snd (rescan_dir h d (out, s))) = tree s \<and> quarantine (snd (rescan_dir h d (out, s))) = quarantine s
   \<and> legacyBox (snd (rescan_dir h d (out, s))) = legacyBox s
   \<and> fst ` set (rootBox s) \<subseteq> fst ` set (rootBox (snd (rescan_dir h d (out, s))))"
  by (auto simp: rescan_dir_def Let_def AList.update_keys simp flip: set_map split: option.split)

lemma rescan_dirs_keep:
  "List.fold (rescan_dir h) ds (out, s) = (out', s') \<Longrightarrow>
     tree s' = tree s \<and> quarantine s' = quarantine s \<and> legacyBox s' = legacyBox s
     \<and> fst ` set (rootBox s) \<subseteq> fst ` set (rootBox s')"
proof (induction ds arbitrary: out s)
  case (Cons d ds)
  obtain o1 s1 where s1: "rescan_dir h d (out, s) = (o1, s1)" by fastforce
  then show ?case
    using Cons.IH[of o1 s1] Cons.prems rescan_dir_keeps[of h d out s] by simp blast
qed simp

lemma step_keeps:
  "outbox_step h0 s s' \<Longrightarrow> quarantine_names s \<subseteq> quarantine_names s'
    \<and> (\<forall>f\<in>pending_names s. f \<in> pending_names s' \<or> f \<in> quarantine_names s' \<or> runIsSent h0 s (marker_run f))"
proof (induction rule: outbox_step.induct)
  case (wake h s t agent code out now)
  show ?case
    using wake_keeps[of t h agent code out now s] runIsSent_engine[OF wake] by (metis prod.collapse)
next
  case (sweep h s)
  show ?case
    using rescan_dirs_keep[of h "eachRunDir (tree s)" "[]" s]
    by (metis (no_types, lifting) Un_iff pending_names_def prod.collapse quarantine_names_def rescanOwedRuns_def subset_iff order_refl)
next
  case (arrives s f raw)
  have "pending_names s \<subseteq> pending_names (s\<lparr> rootBox := AList.update f raw (rootBox s) \<rparr>)"
    by (auto simp: pending_names_def AList.update_keys simp flip: set_map)
  then show ?case by (auto simp: quarantine_names_def)
next
  case (runs_change s tr)
  show ?case by (auto simp: quarantine_names_def pending_names_def)
qed

section \<open>Rescanning\<close>

lemma candidate_forms: "rescan_candidate h d = Some (agent, forms) \<Longrightarrow> forms \<noteq> [] \<and> agent_name agent \<and> \<not> is_sent d"
  by (auto simp: rescan_candidate_def Let_def split: if_splits option.splits)

text \<open>A run directory the rescan has nothing to do for: it is owed nothing, or a form of its id is queued or
  set aside.\<close>

definition covered :: "host \<Rightarrow> outbox \<Rightarrow> run_dir \<Rightarrow> bool" where
  "covered h s d = (case rescan_candidate h d of None \<Rightarrow> True
     | Some (agent, forms) \<Rightarrow>
         \<exists>i\<in>set forms. i @ PENDING \<in> fst ` set (rootBox s) \<or> i @ PENDING \<in> quarantine_names s)"

lemma covered_idle: "covered h s d \<Longrightarrow> rescan_dir h d (out, s) = (out, s)"
  by (auto simp: covered_def rescan_dir_def Let_def quarantine_names_def split: option.splits)

lemma covered_mono:
  "covered h s d \<Longrightarrow> fst ` set (rootBox s) \<subseteq> fst ` set (rootBox s') \<Longrightarrow> quarantine s' = quarantine s \<Longrightarrow> covered h s' d"
  unfolding covered_def quarantine_names_def by (simp split: option.splits) blast

lemma rescan_dir_covers:
  assumes "\<forall>i. can_drop h i"
  shows "covered h (snd (rescan_dir h d (out, s))) d"
proof (cases "rescan_candidate h d")
  case (Some af)
  then obtain agent forms where af: "rescan_candidate h d = Some (agent, forms)" by (cases af) auto
  have "hd forms \<in> set forms"
    using candidate_forms[OF af] by simp
  then show ?thesis
    using assms af by (auto simp: covered_def rescan_dir_def Let_def quarantine_names_def AList.update_keys simp flip: set_map)
qed (simp add: covered_def rescan_dir_def)

lemma rescan_covers:
  assumes "\<forall>i. can_drop h i" and "List.fold (rescan_dir h) ds (out, s) = (out', s')"
  shows "\<forall>d\<in>set ds. covered h s' d"
  using assms(2)
proof (induction ds arbitrary: out s)
  case (Cons d ds)
  obtain o1 s1 where s1: "rescan_dir h d (out, s) = (o1, s1)" by fastforce
  then have rest: "List.fold (rescan_dir h) ds (o1, s1) = (out', s')"
    using Cons.prems by simp
  have "covered h s1 d"
    using rescan_dir_covers[OF assms(1), of d out s] s1 by simp
  then have "covered h s' d"
    using covered_mono rescan_dirs_keep[OF rest] by blast
  then show ?case
    using Cons.IH[OF rest] by simp
qed simp

lemma rescan_idle: "\<forall>d\<in>set ds. covered h s d \<Longrightarrow> List.fold (rescan_dir h) ds (out, s) = (out, s)"
  by (induction ds) (simp_all add: covered_idle)

text \<open>What a rescan adds, in terms of the state before it.\<close>

definition drop_ok :: "host \<Rightarrow> outbox \<Rightarrow> run_dir list \<Rightarrow> dropped \<Rightarrow> bool" where
  "drop_ok h s ds r \<longleftrightarrow> dr_run r @ PENDING \<notin> fst ` set (rootBox s) \<and> dr_run r @ PENDING \<notin> quarantine_names s
     \<and> (\<exists>d forms. d \<in> set ds \<and> fst d = dr_dir r \<and> rescan_candidate h d = Some (dr_agent r, dr_run r # forms))"

lemma drop_ok_mono: "set ds \<subseteq> set ds' \<Longrightarrow> drop_ok h s ds r \<Longrightarrow> drop_ok h s ds' r"
  unfolding drop_ok_def by blast

lemma rescan_dir_drops:
  assumes "rescan_dir h d (out, s) = (out', s')"
  shows "out' = out \<and> s' = s \<or>
     (\<exists>r. out' = out @ [r] \<and> drop_ok h s [d] r \<and>
        s' = s\<lparr> rootBox := AList.update (dr_run r @ PENDING) (dr_agent r @ [10]) (rootBox s) \<rparr>)"
proof (cases "rescan_candidate h d")
  case None
  then show ?thesis using assms by (simp add: rescan_dir_def)
next
  case (Some af)
  obtain agent forms where af: "af = (agent, forms)" by (cases af)
  have cand: "rescan_candidate h d = Some (agent, hd forms # tl forms)"
    using Some af candidate_forms[of h d agent forms] by simp
  show ?thesis
    using assms cand unfolding rescan_dir_def drop_ok_def Let_def quarantine_names_def
    by (auto split: if_splits)
qed

lemma rescan_drops:
  assumes "List.fold (rescan_dir h) ds (out, s) = (out', s')"
  shows "\<exists>new. out' = out @ new \<and> (\<forall>r\<in>set new. drop_ok h s ds r) \<and> distinct (map dr_run new)
     \<and> (\<forall>f. map_of (rootBox s') f =
          (case map_of (map (\<lambda>r. (dr_run r @ PENDING, dr_agent r @ [10])) new) f of
             Some raw \<Rightarrow> Some raw | None \<Rightarrow> map_of (rootBox s) f))"
  using assms
proof (induction ds arbitrary: out s)
  case (Cons d ds)
  obtain o1 s1 where s1: "rescan_dir h d (out, s) = (o1, s1)" by fastforce
  have rest: "List.fold (rescan_dir h) ds (o1, s1) = (out', s')"
    using Cons.prems s1 by simp
  have weaken: "drop_ok h s ds r \<Longrightarrow> drop_ok h s (d # ds) r" "drop_ok h s [d] r \<Longrightarrow> drop_ok h s (d # ds) r" for r
    by (rule drop_ok_mono; auto)+
  from rescan_dir_drops[OF s1] show ?case
  proof (elim disjE exE conjE)
    assume "o1 = out" "s1 = s"
    then show ?thesis
      using Cons.IH[OF rest] weaken by blast
  next
    fix r assume r: "o1 = out @ [r]" "drop_ok h s [d] r"
      "s1 = s\<lparr> rootBox := AList.update (dr_run r @ PENDING) (dr_agent r @ [10]) (rootBox s) \<rparr>"
    have names: "fst ` set (rootBox s1) = insert (dr_run r @ PENDING) (fst ` set (rootBox s))"
      "quarantine_names s1 = quarantine_names s"
      by (auto simp: r(3) AList.update_keys quarantine_names_def simp flip: set_map)
    obtain new where new: "out' = o1 @ new" "\<forall>r\<in>set new. drop_ok h s1 ds r" "distinct (map dr_run new)"
      "\<forall>f. map_of (rootBox s') f =
          (case map_of (map (\<lambda>r. (dr_run r @ PENDING, dr_agent r @ [10])) new) f of
             Some raw \<Rightarrow> Some raw | None \<Rightarrow> map_of (rootBox s1) f)"
      using Cons.IH[OF rest] by blast
    have fresh: "\<forall>x\<in>set new. dr_run x \<noteq> dr_run r \<and> drop_ok h s ds x"
      using new(2) unfolding drop_ok_def names by auto
    show ?thesis
    proof (intro exI[of _ "r # new"] conjI)
      show "\<forall>x\<in>set (r # new). drop_ok h s (d # ds) x"
        using fresh r(2) weaken by auto
      show "distinct (map dr_run (r # new))"
        using fresh new(3) by auto
      have "map_of (map (\<lambda>r. (dr_run r @ PENDING, dr_agent r @ [10])) new) (dr_run r @ PENDING) = None"
        using fresh by (auto simp: map_of_eq_None_iff)
      then show "\<forall>f. map_of (rootBox s') f =
          (case map_of (map (\<lambda>r. (dr_run r @ PENDING, dr_agent r @ [10])) (r # new)) f of
             Some raw \<Rightarrow> Some raw | None \<Rightarrow> map_of (rootBox s) f)"
        unfolding new(4)[rule_format] by (auto simp: r(3) AList.update_conv' split: option.split)
    qed (use new r in simp)
  qed
qed simp

section \<open>A marker that good wakes do not consume\<close>

definition wakes :: "settings \<Rightarrow> host \<Rightarrow> jstr \<Rightarrow> int list \<Rightarrow> outbox \<Rightarrow> outbox" where
  "wakes t h agent nows s = List.fold (\<lambda>now s. snd (settleProgress t h agent now s)) nows s"

definition already_sent :: "host \<Rightarrow> outbox \<Rightarrow> marker \<Rightarrow> bool" where
  "already_sent h s m \<longleftrightarrow> mkind m = DELIVERED \<and> runIsSent h s (marker_run (mfile m))"

lemma marker_gone:
  assumes "settleProgress t h agent now s = (r, s')" and "m \<in> set (markersForAgent h agent s')"
  shows "m \<in> set (markersForAgent h agent s) \<and> fate t h (strikes_of agent s) s m = Struck"
  using assms(2) settleProgress_fate(2)[OF assms(1), of "mbox m" "mfile m"]
  by (auto simp: markersForAgent_set split: if_splits)


lemma wake_strikes:
  assumes "settleProgress t h agent now s = (r, s')" and "can_save h agent"
    and m: "m \<in> set (markersForAgent h agent s)" and "\<not> already_sent h s m"
    and "strike_count (strikes_of agent s) (mfile m) < noProgressMax t"
  shows "m \<in> set (markersForAgent h agent s')
    \<and> strike_count (strikes_of agent s') (mfile m) = strike_count (strikes_of agent s) (mfile m) + 1"
proof -
  have struck: "fate t h (strikes_of agent s) s m = Struck"
    using assms(4,5) by (auto simp: fate_def already_sent_def)
  have "\<not> (\<exists>m'\<in>set (markersForAgent h agent s). mpath m' = (mbox m, mfile m) \<and> fate t h (strikes_of agent s) s m' \<noteq> Struck)"
  proof
    assume "\<exists>m'\<in>set (markersForAgent h agent s). mpath m' = (mbox m, mfile m) \<and> fate t h (strikes_of agent s) s m' \<noteq> Struck"
    then obtain m' where m': "m' \<in> set (markersForAgent h agent s)" "mpath m' = mpath m"
      "fate t h (strikes_of agent s) s m' \<noteq> Struck" by auto
    then have "m' = m"
      using m distinct_markers[of h agent s] by (auto simp: distinct_map dest: inj_onD)
    then show False using m'(3) struck by simp
  qed
  then have "map_of (files s' (mbox m)) (mfile m) = map_of (files s (mbox m)) (mfile m)"
    unfolding settleProgress_fate(2)[OF assms(1)] by (rule if_not_P)
  then have here: "m \<in> set (markersForAgent h agent s')"
    using m by (simp add: markersForAgent_set)
  have "map_of (strikes_of agent s') (mfile m) = Some (strike_count (strikes_of agent s) (mfile m))"
    using settleProgress_fate(4)[OF assms(1,2), of "mfile m"] m struck by auto
  then show ?thesis
    using here by (simp add: strike_count_def)
qed

lemma wake_trips:
  assumes "settleProgress t h agent now s = (r, s')" and "can_move h (mpath m)"
    and "m \<in> set (markersForAgent h agent s)" and "\<not> already_sent h s m"
    and "noProgressMax t \<le> strike_count (strikes_of agent s) (mfile m)"
  shows "m \<notin> set (markersForAgent h agent s') \<and> mfile m \<in> quarantine_names s'"
proof -
  have aside: "fate t h (strikes_of agent s) s m = SetAside"
    using assms(2,4,5) by (auto simp: fate_def already_sent_def)
  then show ?thesis
    using marker_gone[OF assms(1), of m] settleProgress_fate(3)[OF assms(1), of "mfile m"] assms(3)
    by (auto simp: quarantine_names_def)
qed

lemma wakes_gone:
  assumes "m \<notin> set (markersForAgent h agent s)" and "f \<in> quarantine_names s"
  shows "m \<notin> set (markersForAgent h agent (wakes t h agent nows s)) \<and> f \<in> quarantine_names (wakes t h agent nows s)"
  using assms
proof (induction nows arbitrary: s)
  case (Cons now nows)
  obtain r s' where s': "settleProgress t h agent now s = (r, s')" by fastforce
  have "m \<notin> set (markersForAgent h agent s')" and "f \<in> quarantine_names s'"
    using Cons.prems marker_gone[OF s'] settleProgress_fate(3)[OF s'] by (auto simp: quarantine_names_def)
  then show ?case
    using Cons.IH s' by (simp add: wakes_def)
qed (simp add: wakes_def)

lemma wakes_count:
  assumes "can_save h agent" and "can_move h (mpath m)"
    and "m \<in> set (markersForAgent h agent s)" and "\<not> already_sent h s m"
    and "strike_count (strikes_of agent s) (mfile m) \<le> noProgressMax t"
  shows "(m \<in> set (markersForAgent h agent (wakes t h agent nows s)) \<longleftrightarrow>
           strike_count (strikes_of agent s) (mfile m) + int (length nows) \<le> noProgressMax t)
       \<and> (mfile m \<in> quarantine_names (wakes t h agent nows s) \<or>
           strike_count (strikes_of agent s) (mfile m) + int (length nows) \<le> noProgressMax t)"
  using assms(3-5)
proof (induction nows arbitrary: s)
  case (Cons now nows)
  obtain r s' where s': "settleProgress t h agent now s = (r, s')" by fastforce
  have w: "wakes t h agent (now # nows) s = wakes t h agent nows s'"
    using s' by (simp add: wakes_def)
  have sent: "\<not> already_sent h s' m"
    using Cons.prems(2) settleProgress_fate(1)[OF s'] by (simp add: already_sent_def runIsSent_def)
  show ?case
  proof (cases "strike_count (strikes_of agent s) (mfile m) < noProgressMax t")
    case True
    show ?thesis
      using wake_strikes[OF s' assms(1) Cons.prems(1,2) True] Cons.IH[OF _ sent] True w by auto
  next
    case False
    have "m \<notin> set (markersForAgent h agent s') \<and> mfile m \<in> quarantine_names s'"
      using wake_trips[OF s' assms(2) Cons.prems(1,2)] False by simp
    then show ?thesis
      using wakes_gone[of m h agent s' "mfile m" t nows] False Cons.prems(3) w by auto
  qed
qed (use assms in \<open>simp add: wakes_def\<close>)

text \<open>A line that names an agent reads back as that agent.\<close>

lemma agent_char_plain: "agent_char c \<Longrightarrow> \<not> is_space c \<and> c \<noteq> 10 \<and> c \<noteq> 123"
  by (auto simp: agent_char_def is_space_def is_upper_def is_lower_def is_digit_def)

lemma dropWhile_none: "a \<noteq> [] \<Longrightarrow> \<not> P (hd a) \<Longrightarrow> dropWhile P a = a"
  by (cases a) auto

lemma agent_line_read:
  assumes "agent_name a"
  shows "read_marker h (a @ [10]) = (Some a, DELIVERED)"
proof -
  obtain c cs where a: "a = c # cs" and plain: "\<forall>x\<in>set a. \<not> is_space x \<and> x \<noteq> 10 \<and> x \<noteq> 123"
    using assms agent_char_plain unfolding agent_name_def list_all_iff by (metis neq_Nil_conv)
  have "takeWhile (\<lambda>c. c \<noteq> 10) (a @ [10]) = a"
    using plain by (simp add: takeWhile_append)
  moreover have "js_trim a = a"
    using plain a unfolding js_trim_def
    by (metis dropWhile_none empty_set hd_in_set rev_is_Nil_conv rev_rev_ident set_rev neq_Nil_conv)
  moreover have "dropWhile is_space (a @ [10]) = a @ [10]" and "c \<noteq> 123"
    using plain a by auto
  ultimately show ?thesis
    using a by (simp add: read_marker_def)
qed

section \<open>A small outbox for the instances\<close>

text \<open>One workspace, one delivered run of agent \<open>bot\<close> that was never sent; every file operation succeeds.\<close>

definition demo_status :: json where
  "demo_status = JObj [(js ''runId'', JStr (js ''r1'')), (js ''agent'', JStr (js ''bot'')),
                       (js ''state'', JStr (js ''delivered'')), (js ''sendPending'', JBool True)]"

definition demo_host :: host where
  "demo_host = \<lparr> json_parse = (\<lambda>t. if t = js ''S'' then Some demo_status
                                  else if t = js ''ok'' then Some (JObj [(js ''status'', JStr (js ''ok''))]) else None),
     to_lower_case = map low1,
     can_read = (\<lambda>_. True), can_remove = (\<lambda>_. True), can_move = (\<lambda>_. True), can_log = True,
     can_save = (\<lambda>_. True), can_drop = (\<lambda>_. True) \<rparr>"

definition demo_tree :: "node option" where
  "demo_tree = Some (Dir [(js ''workspace-a'', Dir [(js ''studio'', Dir [(js ''clearance-search'',
     Dir [(js ''acme'', Dir [(js ''run1'', Dir [(js ''status.json'', File (js ''S''))])])])])])])"

definition demo_outbox :: "(jstr \<times> jstr) list \<Rightarrow> outbox" where
  "demo_outbox fs = \<lparr> rootBox = fs, legacyBox = [], quarantine = [], alerts = [], sidecars = [], tree = demo_tree \<rparr>"

lemma demo_dirs: "eachRunDir demo_tree =
    [([js ''workspace-a'', js ''acme'', js ''run1''], Some (Dir [(js ''status.json'', File (js ''S''))]))]"
  by (simp add: demo_tree_def eachRunDir_def studioDirFor_def studioSegmentFor_def dir_or_empty_def leaves_def Let_def)

lemma demo_candidate: "rescan_candidate demo_host
    ([js ''workspace-a'', js ''acme'', js ''run1''], Some (Dir [(js ''status.json'', File (js ''S''))]))
    = Some (js ''bot'', [js ''r1''])"
  by (simp add: rescan_candidate_def is_sent_def run_status_def demo_host_def demo_status_def legacy_id_def
      owedANotification_def OWED_TERMINAL_STATES_def string_or_def agent_name_def agent_char_def sanitize_def
      is_upper_def is_lower_def is_digit_def js_trim_def is_space_def low1_def)

lemma demo_rescan: "rescanOwedRuns demo_host (demo_outbox []) =
    ([\<lparr> dr_run = js ''r1'', dr_agent = js ''bot'', dr_dir = [js ''workspace-a'', js ''acme'', js ''run1''] \<rparr>],
     demo_outbox [(js ''r1'' @ PENDING, js ''bot'' @ [10])])"
  unfolding rescanOwedRuns_def demo_outbox_def outbox.simps demo_dirs List.fold.simps comp_apply id_apply
    rescan_dir_def demo_candidate Let_def option.case prod.case
  by (simp add: demo_host_def)

lemma demo_sent: "runIsSent demo_host (demo_outbox fs) f = False"
  unfolding runIsSent_def demo_outbox_def outbox.simps demo_dirs
  by (simp add: run_status_def demo_host_def is_sent_def split: option.split)

lemma demo_markers: "\<lparr> mbox = Root, mfile = js ''r1'' @ PENDING, mkind = DELIVERED \<rparr>
    \<in> set (markersForAgent demo_host (js ''bot'') (demo_outbox [(js ''r1'' @ PENDING, js ''bot'' @ [10])]))"
  unfolding markersForAgent_set marker.simps using ends_with_append[of PENDING "js ''r1''"]
  by (simp add: demo_host_def demo_outbox_def read_marker_def is_space_def js_trim_def)

section \<open>Properties\<close>

text \<open>C29: No delivery is lost. Through any sequence of settled wakes (good, failed, of any agent), rescans, new markers and
  changes to the runs, and whichever file operations fail at each step, a marker that was queued is still queued, or set aside
  in quarantine, or, at some point on the way, announced a run that was sent.\<close>

theorem outbox_no_loss:
  assumes "(outbox_step h)\<^sup>*\<^sup>* s s'" and "f \<in> pending_names s"
  shows "f \<in> pending_names s' \<or> f \<in> quarantine_names s'
    \<or> (\<exists>u. (outbox_step h)\<^sup>*\<^sup>* s u \<and> (outbox_step h)\<^sup>*\<^sup>* u s' \<and> runIsSent h u (marker_run f))"
  using assms(1)
proof (induction rule: rtranclp_induct)
  case base
  then show ?case using assms(2) by simp
next
  case (step y z)
  then consider (sent) u where "(outbox_step h)\<^sup>*\<^sup>* s u" "(outbox_step h)\<^sup>*\<^sup>* u y" "runIsSent h u (marker_run f)"
    | (there) "f \<in> pending_names y \<or> f \<in> quarantine_names y" by blast
  then show ?case
  proof cases
    case sent
    then show ?thesis using step.hyps(2) by (meson rtranclp.rtrancl_into_rtrancl)
  next
    case there
    then have "f \<in> pending_names z \<or> f \<in> quarantine_names z \<or> runIsSent h y (marker_run f)"
      using step_keeps[OF step.hyps(2)] by blast
    then show ?thesis using step.hyps by blast
  qed
qed

theorem outbox_no_loss_witness:
  "js ''r1'' @ PENDING \<in> pending_names (snd (settleWake (tunables Map.empty) demo_host (js ''bot'') (Some 1) [] 0
        (demo_outbox [(js ''r1'' @ PENDING, js ''bot'' @ [10])])))
   \<or> js ''r1'' @ PENDING \<in> quarantine_names (snd (settleWake (tunables Map.empty) demo_host (js ''bot'') (Some 1) [] 0
        (demo_outbox [(js ''r1'' @ PENDING, js ''bot'' @ [10])])))
   \<or> (\<exists>u. (outbox_step demo_host)\<^sup>*\<^sup>* (demo_outbox [(js ''r1'' @ PENDING, js ''bot'' @ [10])]) u \<and> runIsSent demo_host u (js ''r1''))"
proof -
  let ?s = "demo_outbox [(js ''r1'' @ PENDING, js ''bot'' @ [10])]"
  have "outbox_step demo_host ?s (snd (settleWake (tunables Map.empty) demo_host (js ''bot'') (Some 1) [] 0 ?s))"
    by (rule outbox_step.wake) (simp add: same_engine_def)
  then have run: "(outbox_step demo_host)\<^sup>*\<^sup>* ?s (snd (settleWake (tunables Map.empty) demo_host (js ''bot'') (Some 1) [] 0 ?s))"
    by (rule r_into_rtranclp)
  have there: "js ''r1'' @ PENDING \<in> pending_names ?s" by (simp add: pending_names_def demo_outbox_def)
  have id: "marker_run (js ''r1'' @ PENDING) = js ''r1''" by (simp add: marker_run_def ends_with_def PENDING_def)
  show ?thesis using outbox_no_loss[OF run there] unfolding id by blast
qed

text \<open>A lane that is given up keeps its markers: the module clears none, whatever the comment beside its settings says of the
  shell.\<close>

lemma giveup_keeps_markers:
  "verdict (fst (settleWake t h agent code out now s)) = VGiveup \<Longrightarrow>
     pending_names (snd (settleWake t h agent code out now s)) = pending_names s"
proof -
  have clean: "verdict (fst (settleProgress t h agent now s)) \<noteq> VGiveup"
    by (simp add: settleProgress_def Let_def split: prod.split)
  assume "verdict (fst (settleWake t h agent code out now s)) = VGiveup"
  then obtain why where "settleWake t h agent code out now s = recordFailure t h agent why now s"
    using clean by (auto simp: settleWake_def split: option.splits)
  then show ?thesis by (auto simp: pending_iff recordFailure_frame set_eq_iff)
qed

text \<open>C30: The circuit-breaker trips exactly at the threshold. A marker without a strike that announces nothing
  already sent is still queued after fewer than \<open>noProgressMax\<close> good wakes that do not consume it, and after
  that many it has left the outbox and lies in quarantine. The threshold is at least one whatever the
  environment says.\<close>

theorem breaker_trips_on_time:
  assumes "can_save h agent" and "can_move h (mpath m)"
    and "m \<in> set (markersForAgent h agent s)" and "\<not> already_sent h s m"
    and "map_of (strikes_of agent s) (mfile m) = None"
  shows "(m \<in> set (markersForAgent h agent (wakes (tunables env) h agent nows s))
            \<longleftrightarrow> int (length nows) < noProgressMax (tunables env))
       \<and> (mfile m \<in> quarantine_names (wakes (tunables env) h agent nows s)
            \<or> int (length nows) < noProgressMax (tunables env))"
proof -
  have one: "strike_count (strikes_of agent s) (mfile m) = 1"
    using assms(5) by (simp add: strike_count_def)
  have "1 \<le> noProgressMax (tunables env)"
    using tunables_ok[of env] by (simp add: settings_ok_def)
  then show ?thesis
    using wakes_count[OF assms(1-4), of "tunables env" nows] unfolding one by auto
qed

theorem breaker_trips_on_time_witness:
  "js ''r1'' @ PENDING \<in> quarantine_names (wakes (tunables Map.empty) demo_host (js ''bot'') [0, 60, 180, 420, 900]
      (demo_outbox [(js ''r1'' @ PENDING, js ''bot'' @ [10])]))"
  using breaker_trips_on_time[of demo_host "js ''bot''" "\<lparr> mbox = Root, mfile = js ''r1'' @ PENDING, mkind = DELIVERED \<rparr>"
      "demo_outbox [(js ''r1'' @ PENDING, js ''bot'' @ [10])]" Map.empty "[0, 60, 180, 420, 900]"] demo_markers
  by (simp add: already_sent_def demo_sent strikes_of_def readSidecar_def tunables_def Let_def del: js_append)
     (simp add: demo_host_def demo_outbox_def)

text \<open>The verdict tells the truth about the outbox. After a good wake it is \<open>ok\<close> exactly when no marker of
  the agent is left and none was set aside, \<open>quarantine\<close> exactly when one was set aside, \<open>stuck\<close> exactly when
  one is left and none was set aside.\<close>

theorem settle_verdict_exact:
  assumes "settleProgress t h agent now s = (r, s')"
  shows "(verdict r = VOk \<longleftrightarrow> markersForAgent h agent s' = [] \<and> set_aside r = [])
       \<and> (verdict r = VQuarantine \<longleftrightarrow> set_aside r \<noteq> [])
       \<and> (verdict r = VStuck \<longleftrightarrow> markersForAgent h agent s' \<noteq> [] \<and> set_aside r = [])"
proof -
  let ?k = "fate t h (strikes_of agent s) s" and ?ms = "set (markersForAgent h agent s)"
  note fs = settleProgress_fate[OF assms]
  have aside: "set_aside r = [] \<longleftrightarrow> \<not> (\<exists>m\<in>?ms. ?k m = SetAside)"
    unfolding fs(6) by (auto simp: filter_empty_conv)
  have left: "markersForAgent h agent s' = [] \<longleftrightarrow> \<not> (\<exists>m\<in>?ms. ?k m = Struck)"
  proof
    assume none: "markersForAgent h agent s' = []"
    show "\<not> (\<exists>m\<in>?ms. ?k m = Struck)"
    proof
      assume "\<exists>m\<in>?ms. ?k m = Struck"
      then obtain m where m: "m \<in> ?ms" "?k m = Struck" by blast
      have "m' = m" if "m' \<in> ?ms" "mpath m' = mpath m" for m'
        using that m(1) distinct_markers[of h agent s] by (auto simp: distinct_map dest: inj_onD)
      then have "\<not> (\<exists>m'\<in>?ms. mpath m' = (mbox m, mfile m) \<and> ?k m' \<noteq> Struck)"
        using m(2) by metis
      then have "map_of (files s' (mbox m)) (mfile m) = map_of (files s (mbox m)) (mfile m)"
        unfolding fs(2) by (rule if_not_P)
      then have "m \<in> set (markersForAgent h agent s')"
        using m(1) by (simp add: markersForAgent_set)
      then show False using none by simp
    qed
  next
    assume "\<not> (\<exists>m\<in>?ms. ?k m = Struck)"
    then have "m \<notin> set (markersForAgent h agent s')" for m
      using marker_gone[OF assms, of m] by blast
    then show "markersForAgent h agent s' = []"
      by (metis list.set_intros(1) neq_Nil_conv)
  qed
  show ?thesis
    unfolding aside left fs(5) by auto
qed

theorem settle_verdict_exact_witness:
  "(verdict (fst (settleProgress (tunables Map.empty) demo_host (js ''bot'') 0 (demo_outbox []))) = VQuarantine)
    = (set_aside (fst (settleProgress (tunables Map.empty) demo_host (js ''bot'') 0 (demo_outbox []))) \<noteq> [])"
  using settle_verdict_exact[OF prod.collapse[symmetric, of "settleProgress (tunables Map.empty) demo_host (js ''bot'') 0 (demo_outbox [])"]]
  by blast

text \<open>Failed wakes are paced. Whatever the environment sets, a failed wake asks for a positive wait no
  longer than the cap (or, once it gives up, the cooldown); it gives up exactly from the \<open>maxRetries\<close>-th
  failure on, the count being one more than the sidecar held; and \<open>checkDue\<close> then refuses the agent until
  exactly that many seconds have passed, telling it at every moment how many seconds are left, rounded up.\<close>

theorem failure_paced:
  assumes "can_save h agent" and "recordFailure (tunables env) h agent why now s = (r, s')"
  shows "1 \<le> waitSec r
    \<and> waitSec r \<le> (if verdict r = VGiveup then giveupCooldownSec (tunables env) else capSec (tunables env))
    \<and> (verdict r = VGiveup \<longleftrightarrow> maxRetries (tunables env) \<le> retries r)
    \<and> retries r = due_retries (checkDue agent now s) + 1
    \<and> due_retries (checkDue agent later s') = retries r
    \<and> (is_due (checkDue agent later s') \<longleftrightarrow> now + 1000 * waitSec r \<le> later)
    \<and> (is_due (checkDue agent later s')
        \<or> later + 1000 * (due_wait (checkDue agent later s') - 1) < now + 1000 * waitSec r
          \<and> now + 1000 * waitSec r \<le> later + 1000 * due_wait (checkDue agent later s'))"
proof -
  let ?t = "tunables env"
  let ?n = "(case readSidecar agent s of Some sc \<Rightarrow> sc_retries sc | None \<Rightarrow> 0) + 1"
  have ok: "1 \<le> baseSec ?t" "1 \<le> capSec ?t" "1 \<le> giveupCooldownSec ?t"
    using tunables_ok[of env] by (simp_all add: settings_ok_def)
  have pow: "1 \<le> baseSec ?t * 2 ^ k" for k :: nat
    using mult_mono[of 1 "baseSec ?t" 1 "2 ^ k"] ok(1) by simp
  have r: "verdict r = (if maxRetries ?t \<le> ?n then VGiveup else VRetry)" "retries r = ?n"
    "waitSec r = (if maxRetries ?t \<le> ?n then giveupCooldownSec ?t else backoff ?t ?n)"
    using assms(2) by (auto simp: recordFailure_def Let_def)
  obtain sc where sc: "readSidecar agent s' = Some sc" "sc_retries sc = ?n" "sc_due sc = now + waitSec r * 1000"
    using assms by (auto simp: recordFailure_def saveSidecar_def readSidecar_def AList.update_conv' Let_def)
  have bounds: "1 \<le> waitSec r" "waitSec r \<le> (if verdict r = VGiveup then giveupCooldownSec ?t else capSec ?t)"
    using ok pow[of "nat (?n - 1)"] by (auto simp: r backoff_def)
  have before: "retries r = due_retries (checkDue agent now s) + 1"
    by (simp add: r checkDue_def Let_def split: option.split)
  have ceil: "1000 * ((w + 999) div 1000 - 1) < w \<and> w \<le> 1000 * ((w + 999) div 1000)" for w :: int
  proof -
    define q m where "q = (w + 999) div 1000" and "m = (w + 999) mod 1000"
    then have "1000 * q + m = w + 999" and "0 \<le> m" and "m < 1000"
      by (simp_all add: mult_div_mod_eq)
    then show ?thesis
      unfolding q_def[symmetric] right_diff_distrib by (intro conjI; simp)
  qed
  let ?w = "now + 1000 * waitSec r - later"
  have cd: "due_retries (checkDue agent later s') = retries r" "is_due (checkDue agent later s') \<longleftrightarrow> ?w \<le> 0"
    "is_due (checkDue agent later s') \<or> due_wait (checkDue agent later s') = (?w + 999) div 1000"
    using sc r(2) unfolding checkDue_def sc(1) option.case Let_def by (simp_all add: mult.commute)
  have "is_due (checkDue agent later s') \<or> later + 1000 * (due_wait (checkDue agent later s') - 1) < now + 1000 * waitSec r
      \<and> now + 1000 * waitSec r \<le> later + 1000 * due_wait (checkDue agent later s')"
  proof (cases "is_due (checkDue agent later s')")
    case False
    then have wait: "due_wait (checkDue agent later s') = (?w + 999) div 1000"
      using cd(3) by simp
    show ?thesis
      using ceil[of ?w] unfolding wait[symmetric] by auto
  qed simp
  moreover have "verdict r = VGiveup \<longleftrightarrow> maxRetries ?t \<le> retries r"
    by (simp add: r(1,2))
  moreover have "is_due (checkDue agent later s') \<longleftrightarrow> now + 1000 * waitSec r \<le> later"
    unfolding cd(2) by linarith
  ultimately show ?thesis
    using bounds before cd(1) by (intro conjI)
qed

theorem failure_paced_witness:
  "\<not> is_due (checkDue (js ''bot'') 1500
     (snd (recordFailure (tunables Map.empty) demo_host (js ''bot'') (js ''x'') 1000 (demo_outbox []))))"
proof -
  let ?w = "recordFailure (tunables Map.empty) demo_host (js ''bot'') (js ''x'') 1000 (demo_outbox [])"
  have "can_save demo_host (js ''bot'')"
    by (simp add: demo_host_def)
  from failure_paced[OF this prod.collapse[symmetric], of Map.empty "js ''x''" 1000 "demo_outbox []" 1500]
  have "is_due (checkDue (js ''bot'') 1500 (snd ?w)) \<longleftrightarrow> 1000 + 1000 * waitSec (fst ?w) \<le> 1500" and "1 \<le> waitSec (fst ?w)"
    by blast+
  then show ?thesis by linarith
qed

text \<open>Over consecutive failures the waits never shrink until the lane gives up.\<close>

theorem backoff_monotone:
  "backoff (tunables env) n \<le> backoff (tunables env) (n + 1)"
proof -
  have "1 \<le> baseSec (tunables env)"
    using tunables_ok[of env] by (simp add: settings_ok_def)
  moreover have "(2::int) ^ nat (n - 1) \<le> 2 ^ nat n"
    by (rule power_increasing) auto
  ultimately have "baseSec (tunables env) * 2 ^ nat (n - 1) \<le> baseSec (tunables env) * 2 ^ nat n"
    by (simp add: mult_left_mono)
  then show ?thesis by (simp add: backoff_def)
qed

text \<open>A rescan is complete, and a second one changes nothing. When the drops succeed, every run that is
  owed a notification, was not sent and names a well-formed agent has a marker under one of its ids queued or
  set aside afterwards, and rescanning again drops nothing and leaves the outbox as it is.\<close>

theorem rescan_complete_and_idempotent:
  assumes "\<forall>i. can_drop h i" and "rescanOwedRuns h s = (out, s')"
  shows "(\<forall>d\<in>set (eachRunDir (tree s)). covered h s' d) \<and> rescanOwedRuns h s' = ([], s')"
proof -
  have eq: "List.fold (rescan_dir h) (eachRunDir (tree s)) ([], s) = (out, s')"
    using assms(2) by (simp add: rescanOwedRuns_def)
  have cov: "\<forall>d\<in>set (eachRunDir (tree s)). covered h s' d"
    by (rule rescan_covers[OF assms(1) eq])
  moreover have "tree s' = tree s"
    using rescan_dirs_keep[OF eq] by simp
  ultimately show ?thesis
    using rescan_idle[of "eachRunDir (tree s')" h s' "[]"] by (simp add: rescanOwedRuns_def)
qed

theorem rescan_complete_and_idempotent_witness:
  "rescanOwedRuns demo_host (demo_outbox [(js ''r1'' @ PENDING, js ''bot'' @ [10])]) =
     ([], demo_outbox [(js ''r1'' @ PENDING, js ''bot'' @ [10])])"
  using rescan_complete_and_idempotent[OF _ demo_rescan] by (simp add: demo_host_def)

text \<open>A rescan queues nothing twice and resurrects nothing. The ids it drops are pairwise different; none
  was queued and none was in quarantine; each belongs to a run directory that was not sent and is still owed;
  apart from the new markers the outbox, the quarantine and the legacy outbox are as they were.\<close>

theorem rescan_only_adds_what_is_owed:
  assumes "rescanOwedRuns h s = (out, s')"
  shows "distinct (map dr_run out) \<and> (\<forall>r\<in>set out. drop_ok h s (eachRunDir (tree s)) r)
    \<and> quarantine s' = quarantine s \<and> legacyBox s' = legacyBox s
    \<and> (\<forall>f. f \<notin> (\<lambda>r. dr_run r @ PENDING) ` set out \<longrightarrow> map_of (rootBox s') f = map_of (rootBox s) f)"
proof -
  have eq: "List.fold (rescan_dir h) (eachRunDir (tree s)) ([], s) = (out, s')"
    using assms by (simp add: rescanOwedRuns_def)
  obtain new where new: "out = new" "\<forall>r\<in>set new. drop_ok h s (eachRunDir (tree s)) r" "distinct (map dr_run new)"
    "\<forall>f. map_of (rootBox s') f = (case map_of (map (\<lambda>r. (dr_run r @ PENDING, dr_agent r @ [10])) new) f of
             Some raw \<Rightarrow> Some raw | None \<Rightarrow> map_of (rootBox s) f)"
    using rescan_drops[OF eq] by auto
  have "map_of (rootBox s') f = map_of (rootBox s) f" if "f \<notin> (\<lambda>r. dr_run r @ PENDING) ` set out" for f
  proof -
    have "map_of (map (\<lambda>r. (dr_run r @ PENDING, dr_agent r @ [10])) new) f = None"
      using that new(1) by (auto simp: map_of_eq_None_iff)
    then show ?thesis using new(4) by simp
  qed
  then show ?thesis
    using new rescan_dirs_keep[OF eq] by simp
qed

theorem rescan_only_adds_what_is_owed_witness:
  "drop_ok demo_host (demo_outbox []) (eachRunDir demo_tree)
     \<lparr> dr_run = js ''r1'', dr_agent = js ''bot'', dr_dir = [js ''workspace-a'', js ''acme'', js ''run1''] \<rparr>"
  using rescan_only_adds_what_is_owed[OF demo_rescan] by (simp add: demo_outbox_def)

text \<open>What the rescan writes, the wake reads. Every marker it drops that can be read back is listed among
  the markers of the agent it names, as a delivery.\<close>

theorem rescan_markers_read_back:
  assumes "rescanOwedRuns h s = (out, s')" and "r \<in> set out" and "can_read h (Root, dr_run r @ PENDING)"
  shows "\<lparr> mbox = Root, mfile = dr_run r @ PENDING, mkind = DELIVERED \<rparr> \<in> set (markersForAgent h (dr_agent r) s')"
proof -
  have eq: "List.fold (rescan_dir h) (eachRunDir (tree s)) ([], s) = (out, s')"
    using assms by (simp add: rescanOwedRuns_def)
  let ?new = "map (\<lambda>r. (dr_run r @ PENDING, dr_agent r @ [10])) out"
  have new: "\<forall>r\<in>set out. drop_ok h s (eachRunDir (tree s)) r" "distinct (map dr_run out)"
    "map_of (rootBox s') f = (case map_of ?new f of Some raw \<Rightarrow> Some raw | None \<Rightarrow> map_of (rootBox s) f)" for f
    using rescan_drops[OF eq] by auto
  have "distinct (map fst ?new)"
    using new(2) by (auto simp: distinct_map inj_on_def)
  then have "map_of ?new (dr_run r @ PENDING) = Some (dr_agent r @ [10])"
    using assms(2) by (auto simp: map_of_eq_Some_iff)
  then have raw: "map_of (rootBox s') (dr_run r @ PENDING) = Some (dr_agent r @ [10])"
    using new(3) by simp
  have "agent_name (dr_agent r)"
    using new(1) assms(2) candidate_forms unfolding drop_ok_def by blast
  then have "read_marker h (dr_agent r @ [10]) = (Some (dr_agent r), DELIVERED)"
    by (rule agent_line_read)
  then show ?thesis
    using raw assms(3) by (simp add: markersForAgent_set)
qed

theorem rescan_markers_read_back_witness:
  "\<lparr> mbox = Root, mfile = js ''r1'' @ PENDING, mkind = DELIVERED \<rparr>
     \<in> set (markersForAgent demo_host (js ''bot'') (demo_outbox [(js ''r1'' @ PENDING, js ''bot'' @ [10])]))"
  using rescan_markers_read_back[OF demo_rescan] by (simp add: demo_host_def)
end
