(* ===== verification/Grants.thy ===== *)
theory Grants
  imports JsonValue
begin

text \<open>The guest list of \<open>shared/scope.mjs\<close>: what a grants file may say (\<open>assertGrantsShape\<close>), and the person an
  address resolves to (\<open>resolvePerson\<close>), the one resolver the portal and the connector share.

  The file is the JSON value the code holds. The errors carry the place they name; their prose is not
  modelled. \<open>lower\<close> is \<open>toLowerCase\<close>, of which nothing is assumed. Names that are not text in a list the
  shape check has refused are not modelled in \<open>resolvePerson\<close>.\<close>

section \<open>Reading the JSON\<close>

fun obj :: "json option \<Rightarrow> (jstr \<times> json) list" where
  "obj (Some (JObj fs)) = fs"
| "obj _ = []"

fun is_obj :: "json option \<Rightarrow> bool" where
  "is_obj (Some (JObj _)) = True"
| "is_obj _ = False"

fun is_str :: "json \<Rightarrow> bool" where
  "is_str (JStr _) = True"
| "is_str _ = False"

fun is_keys :: "json option \<Rightarrow> bool" where
  "is_keys (Some (JArr xs)) = list_all is_str xs"
| "is_keys _ = False"

fun texts :: "json list \<Rightarrow> jstr list" where
  "texts [] = []"
| "texts (JStr s # xs) = s # texts xs"
| "texts (_ # xs) = texts xs"

fun key_list :: "json option \<Rightarrow> jstr list" where
  "key_list (Some (JArr xs)) = texts xs"
| "key_list _ = []"

definition GENERIC :: jstr where "GENERIC = js ''generic''"
definition STAR :: json where "STAR = JStr (js ''*'')"

definition tenants_of :: "json option \<Rightarrow> (jstr \<times> json) list" where
  "tenants_of g = obj (member (js ''tenants'') g)"

definition accounts_of :: "json \<Rightarrow> json option" where
  "accounts_of v = member (js ''accounts'') (Some v)"

section \<open>The shape of the file\<close>

datatype grant_error =
    CannotLoad
  | NoTenants
  | BadTenant jstr
  | BadName jstr
  | WildcardTenant jstr
  | BadAccounts jstr
  | CompanyInTwo jstr jstr jstr
  | BadUsers jstr
  | BadUserEntry jstr jstr
  | BadPeople
  | BadPerson jstr
  | UnknownField jstr jstr
  | BadSwitch jstr jstr
  | DomainHolds jstr

text \<open>The companies of a tenant, entered under it unless another tenant (or an earlier line) has them.\<close>

fun hold :: "jstr \<Rightarrow> jstr list \<Rightarrow> (jstr \<times> jstr) list \<Rightarrow> grant_error + (jstr \<times> jstr) list" where
  "hold t [] holder = Inr holder"
| "hold t (a # as) holder =
     (if a = GENERIC then hold t as holder
      else case map_of holder a of
        Some t' \<Rightarrow> Inl (CompanyInTwo a t' t)
      | None \<Rightarrow> hold t as ((a, t) # holder))"

definition tenant_shape :: "jstr \<Rightarrow> json \<Rightarrow> (jstr \<times> jstr) list \<Rightarrow> grant_error + (jstr \<times> jstr) list" where
  "tenant_shape t v holder =
     (let name = member (js ''name'') (Some v);
          acc = accounts_of v;
          users = member (js ''users'') (Some v) in
      if \<not> is_obj (Some v) then Inl (BadTenant t)
      else if name \<noteq> None \<and> \<not> (case name of Some (JStr s) \<Rightarrow> js_trim s \<noteq> [] | _ \<Rightarrow> False) then Inl (BadName t)
      else if acc = Some STAR then Inl (WildcardTenant t)
      else if acc \<noteq> None \<and> \<not> is_keys acc then Inl (BadAccounts t)
      else case hold t (key_list acc) holder of
        Inl e \<Rightarrow> Inl e
      | Inr holder' \<Rightarrow>
          if users \<noteq> None \<and> \<not> is_obj users then Inl (BadUsers t)
          else case List.find (\<lambda>(pat, a). a \<noteq> STAR \<and> \<not> is_keys (Some a)) (obj users) of
            Some (pat, _) \<Rightarrow> Inl (BadUserEntry t pat)
          | None \<Rightarrow> Inr holder')"

fun tenants_shape :: "(jstr \<times> json) list \<Rightarrow> (jstr \<times> jstr) list \<Rightarrow> grant_error + (jstr \<times> jstr) list" where
  "tenants_shape [] holder = Inr holder"
| "tenants_shape ((t, v) # ts) holder =
     (case tenant_shape t v holder of Inl e \<Rightarrow> Inl e | Inr holder' \<Rightarrow> tenants_shape ts holder')"

definition PERSON_FIELDS :: "jstr list" where
  "PERSON_FIELDS = [js ''run'', js ''manage'', js ''everything'']"

fun switches_shape :: "jstr \<Rightarrow> (jstr \<times> json) list \<Rightarrow> grant_error option" where
  "switches_shape who [] = None"
| "switches_shape who ((k, v) # kvs) =
     (if k \<notin> set PERSON_FIELDS then Some (UnknownField who k)
      else case v of JBool _ \<Rightarrow> switches_shape who kvs | _ \<Rightarrow> Some (BadSwitch who k))"

definition person_shape :: "jstr \<Rightarrow> json \<Rightarrow> grant_error option" where
  "person_shape who entry =
     (if \<not> is_obj (Some entry) then Some (BadPerson who)
      else case switches_shape who (obj (Some entry)) of
        Some e \<Rightarrow> Some e
      | None \<Rightarrow>
          if starts_with (js ''*@'') who
            \<and> (truthy (member (js ''manage'') (Some entry)) \<or> truthy (member (js ''everything'') (Some entry)))
          then Some (DomainHolds who) else None)"

fun people_shape :: "(jstr \<times> json) list \<Rightarrow> grant_error option" where
  "people_shape [] = None"
| "people_shape ((who, entry) # ps) =
     (case person_shape who entry of Some e \<Rightarrow> Some e | None \<Rightarrow> people_shape ps)"

text \<open>\<open>None\<close>: the file may be used.\<close>

definition assertGrantsShape :: "json option \<Rightarrow> grant_error option" where
  "assertGrantsShape g =
     (case tenants_shape (tenants_of g) [] of
        Inl e \<Rightarrow> Some e
      | Inr _ \<Rightarrow>
          let people = member (js ''people'') g in
          if people = None then None
          else if \<not> is_obj people then Some BadPeople
          else people_shape (obj people))"

text \<open>The configured file as it is found: no path configured, a file that cannot be read or parsed, or its
  JSON.\<close>

datatype grants_file = NotConfigured | Unloadable | Loaded json

definition loadGrants :: "grants_file \<Rightarrow> grant_error + json option" where
  "loadGrants f =
     (case f of
        NotConfigured \<Rightarrow> Inr None
      | Unloadable \<Rightarrow> Inl CannotLoad
      | Loaded g \<Rightarrow>
          if \<not> truthy (Some g) \<or> \<not> (case member (js ''tenants'') (Some g) of Some (JObj _) \<Rightarrow> True | Some JNull \<Rightarrow> True | _ \<Rightarrow> False)
          then Inl NoTenants
          else case assertGrantsShape (Some g) of Some e \<Rightarrow> Inl e | None \<Rightarrow> Inr (Some g))"

section \<open>The person an address resolves to\<close>

datatype access = Everything | Organisation jstr | Company jstr jstr

datatype reach = All | Only "jstr list"

record person =
  p_email :: jstr
  p_everything :: bool
  p_run :: bool
  p_manage :: bool
  p_access :: "access list"
  p_accounts :: reach
  p_organisations :: "jstr list"
  p_genericOrgs :: "jstr list"
  p_accountOrgs :: "(jstr \<times> jstr) list"

text \<open>The domain of an address with exactly one \<open>@\<close>, not in front.\<close>

definition email_domain :: "jstr \<Rightarrow> jstr option" where
  "email_domain e =
     (let ats = occurrences [64] e in
      if ats = [] \<or> last ats = 0 \<or> hd ats \<noteq> last ats then None else Some (drop (Suc (last ats)) e))"

definition matches :: "(jstr \<Rightarrow> jstr) \<Rightarrow> jstr \<Rightarrow> jstr \<Rightarrow> jstr \<Rightarrow> bool" where
  "matches lower e domain pat =
     (let p = lower pat in p = e \<or> starts_with (js ''*@'') p \<and> drop 2 p = domain)"

text \<open>Which organisation holds a company: the first that lists it. Generic is held by none.\<close>

definition holder_of :: "(jstr \<times> json) list \<Rightarrow> (jstr \<times> jstr) list" where
  "holder_of tenants =
     List.fold (\<lambda>(a, t) h. if a = GENERIC \<or> map_of h a \<noteq> None then h else h @ [(a, t)])
       (concat (map (\<lambda>(t, v). map (\<lambda>a. (a, t)) (key_list (accounts_of v))) tenants)) []"

definition person_entry :: "(jstr \<Rightarrow> jstr) \<Rightarrow> jstr \<Rightarrow> jstr \<Rightarrow> json option \<Rightarrow> bool \<times> json option" where
  "person_entry lower e domain g =
     (let people = obj (member (js ''people'') g) in
      case List.find (\<lambda>k. lower k = e) (map fst people) of
        Some k \<Rightarrow> (True, map_of people k)
      | None \<Rightarrow>
          (case List.find (\<lambda>k. lower k = js ''*@'' @ domain) (map fst people) of
             Some k \<Rightarrow> (False, map_of people k)
           | None \<Rightarrow> (False, None)))"

text \<open>The rows of the tree that match the address, in the order of the file.\<close>

definition rows :: "(jstr \<Rightarrow> jstr) \<Rightarrow> jstr \<Rightarrow> jstr \<Rightarrow> (jstr \<times> json) list \<Rightarrow> (jstr \<times> jstr \<times> json) list" where
  "rows lower e domain tenants =
     concat (map (\<lambda>(t, v). map (\<lambda>(pat, acc). (t, pat, acc))
       (filter (\<lambda>(pat, acc). matches lower e domain pat) (obj (member (js ''users'') (Some v))))) tenants)"

fun walk :: "(jstr \<times> jstr) list \<Rightarrow> (jstr \<times> jstr \<times> json) list \<Rightarrow> jstr list \<Rightarrow> jstr list
    \<Rightarrow> grant_error + jstr list \<times> jstr list" where
  "walk holder [] orgs companies = Inr (orgs, companies)"
| "walk holder ((t, pat, acc) # rs) orgs companies =
     (if acc = STAR then walk holder rs (set_add t orgs) companies
      else case acc of
        JNull \<Rightarrow> walk holder rs orgs companies
      | JArr xs \<Rightarrow> walk holder rs orgs
                     (set_add_all (filter (\<lambda>k. map_of holder k = Some t) (texts xs)) companies)
      | _ \<Rightarrow> Inl (BadUserEntry t pat))"

definition flag :: "string \<Rightarrow> json option \<Rightarrow> bool" where
  "flag k entry = (member (js k) entry = Some (JBool True))"

definition resolvePerson :: "(jstr \<Rightarrow> jstr) \<Rightarrow> jstr \<Rightarrow> json option \<Rightarrow> grant_error + person option" where
  "resolvePerson lower email grants =
     (if \<not> truthy grants then Inr None
      else let e = lower (js_trim email) in
      case email_domain e of
        None \<Rightarrow> Inr None
      | Some domain \<Rightarrow>
          let tenants = tenants_of grants in
          (case List.find (\<lambda>(t, v). accounts_of v = Some STAR) tenants of
             Some (t, _) \<Rightarrow> Inl (WildcardTenant t)
           | None \<Rightarrow>
               let holder = holder_of tenants;
                   (exact, entry) = person_entry lower e domain grants;
                   everything = (flag ''everything'' entry \<and> exact);
                   run = flag ''run'' entry;
                   manage = (flag ''manage'' entry \<and> exact)
               in (case walk holder (rows lower e domain tenants) [] [] of
                     Inl err \<Rightarrow> Inl err
                   | Inr (orgs, companies) \<Rightarrow>
                       if \<not> everything \<and> orgs = [] \<and> companies = [] then Inr None
                       else if everything then
                         Inr (Some \<lparr> p_email = e, p_everything = True, p_run = run, p_manage = manage,
                           p_access = [Everything], p_accounts = All,
                           p_organisations = map fst tenants, p_genericOrgs = map fst tenants,
                           p_accountOrgs = holder \<rparr>)
                       else
                         let org_of = (\<lambda>k. the (map_of holder k));
                             loose = filter (\<lambda>k. org_of k \<notin> set orgs) companies;
                             accounts = set_add_all loose
                               (set_add_all (concat (map (\<lambda>t. filter (\<lambda>a. map_of holder a = Some t)
                                   (case map_of tenants t of Some v \<Rightarrow> key_list (accounts_of v) | None \<Rightarrow> [])) orgs)) []);
                             organisations = set_add_all (map org_of loose) orgs
                         in Inr (Some \<lparr> p_email = e, p_everything = False, p_run = run, p_manage = manage,
                              p_access = map Organisation orgs @ map (\<lambda>k. Company k (org_of k)) loose,
                              p_accounts = Only accounts, p_organisations = organisations,
                              p_genericOrgs = orgs, p_accountOrgs = map (\<lambda>a. (a, org_of a)) accounts \<rparr>))))"

definition accountsForEmail :: "(jstr \<Rightarrow> jstr) \<Rightarrow> jstr \<Rightarrow> json option \<Rightarrow> grant_error + reach" where
  "accountsForEmail lower email grants =
     (if \<not> truthy grants then Inr All
      else case resolvePerson lower email grants of
        Inl e \<Rightarrow> Inl e
      | Inr None \<Rightarrow> Inr (Only [])
      | Inr (Some p) \<Rightarrow> Inr (p_accounts p))"

section \<open>Facts about the tree\<close>

lemma texts_iff: "s \<in> set (texts xs) \<longleftrightarrow> JStr s \<in> set xs"
  by (induction xs rule: texts.induct) auto

definition listings :: "(jstr \<times> json) list \<Rightarrow> (jstr \<times> jstr) list" where
  "listings ts = concat (map (\<lambda>(t, v). map (\<lambda>a. (a, t)) (key_list (accounts_of v))) ts)"

lemma listings_iff: "(a, t) \<in> set (listings ts) \<longleftrightarrow> (\<exists>v. (t, v) \<in> set ts \<and> a \<in> set (key_list (accounts_of v)))"
  by (force simp: listings_def)

lemma holder_fold:
  "map_of (List.fold (\<lambda>(a, t) h. if a = GENERIC \<or> map_of h a \<noteq> None then h else h @ [(a, t)]) ls h) a =
     (case map_of h a of Some t \<Rightarrow> Some t
      | None \<Rightarrow> if a = GENERIC then None else map_of ls a)"
  by (induction ls arbitrary: h) (auto split: option.splits prod.splits)

lemma holder_lookup: "map_of (holder_of ts) a = (if a = GENERIC then None else map_of (listings ts) a)"
  unfolding holder_of_def listings_def[symmetric] holder_fold by simp

lemma holder_listed: "map_of (holder_of ts) a = Some t \<Longrightarrow> a \<noteq> GENERIC \<and> (\<exists>v. (t, v) \<in> set ts \<and> a \<in> set (key_list (accounts_of v)))"
  using map_of_SomeD[of "listings ts" a t] by (auto simp: holder_lookup listings_iff split: if_splits)

lemma rows_Cons: "set (rows lower e domain ((t, v) # ts)) =
    {(t, pat, acc) | pat acc. matches lower e domain pat \<and> (pat, acc) \<in> set (obj (member (js ''users'') (Some v)))}
    \<union> set (rows lower e domain ts)"
  by (auto simp: rows_def image_iff)

lemma rows_iff: "(t, pat, acc) \<in> set (rows lower e domain ts) \<longleftrightarrow>
    matches lower e domain pat \<and> (\<exists>v. (t, v) \<in> set ts \<and> (pat, acc) \<in> set (obj (member (js ''users'') (Some v))))"
proof (induction ts)
  case Nil
  then show ?case by (simp add: rows_def)
next
  case (Cons tv ts)
  obtain t' v' where "tv = (t', v')" by (cases tv)
  then show ?case
    using Cons by (simp only: rows_Cons Un_iff list.set insert_iff prod.inject mem_Collect_eq) blast
qed

lemma walk_result:
  assumes "walk holder rs orgs companies = Inr (orgs', companies')"
  shows "set orgs' = set orgs \<union> {t. \<exists>pat. (t, pat, STAR) \<in> set rs}
    \<and> set companies' = set companies \<union>
        {k. \<exists>t pat xs. (t, pat, JArr xs) \<in> set rs \<and> k \<in> set (texts xs) \<and> map_of holder k = Some t}
    \<and> (distinct orgs \<longrightarrow> distinct orgs') \<and> (distinct companies \<longrightarrow> distinct companies')"
  using assms
proof (induction holder rs orgs companies rule: walk.induct)
  case (1 holder orgs companies)
  then show ?case by simp
next
  case (2 holder t pat acc rs orgs companies)
  show ?case
  proof (cases "acc = STAR")
    case True
    then show ?thesis
      using 2 by (auto simp: STAR_def)
  next
    case False
    then consider "acc = JNull" | xs where "acc = JArr xs"
      using "2.prems" by (cases acc) (simp_all)
    then show ?thesis
    proof cases
      case 1
      then show ?thesis using 2 False by (auto simp: STAR_def)
    next
      case (2 ys)
      then have ih: "set orgs' = set orgs \<union> {t. \<exists>pat. (t, pat, STAR) \<in> set rs}
          \<and> set companies' = (set (filter (\<lambda>k. map_of holder k = Some t) (texts ys)) \<union> set companies) \<union>
              {k. \<exists>t pat xs. (t, pat, JArr xs) \<in> set rs \<and> k \<in> set (texts xs) \<and> map_of holder k = Some t}
          \<and> (distinct orgs \<longrightarrow> distinct orgs') \<and> (distinct companies \<longrightarrow> distinct companies')"
        using "2.IH"(3)[OF False 2] "2.prems" False by simp
      then show ?thesis
        unfolding 2 STAR_def by auto
    qed
  qed
qed

text \<open>The rights the file gives an address over a company: the organisation that holds the company has a row
  that matches the address and gives the whole organisation or names the company.\<close>

definition granted :: "(jstr \<Rightarrow> jstr) \<Rightarrow> jstr \<Rightarrow> json option \<Rightarrow> jstr \<Rightarrow> bool" where
  "granted lower email g a \<longleftrightarrow>
     (\<exists>domain t pat acc. email_domain (lower (js_trim email)) = Some domain
        \<and> map_of (holder_of (tenants_of g)) a = Some t
        \<and> (t, pat, acc) \<in> set (rows lower (lower (js_trim email)) domain (tenants_of g))
        \<and> (acc = STAR \<or> (\<exists>xs. acc = JArr xs \<and> a \<in> set (texts xs))))"

definition grants_whole_org :: "(jstr \<Rightarrow> jstr) \<Rightarrow> jstr \<Rightarrow> json option \<Rightarrow> jstr \<Rightarrow> bool" where
  "grants_whole_org lower email g t \<longleftrightarrow>
     (\<exists>domain pat. email_domain (lower (js_trim email)) = Some domain
        \<and> (t, pat, STAR) \<in> set (rows lower (lower (js_trim email)) domain (tenants_of g)))"

text \<open>What \<open>resolvePerson\<close> computed when it names a person.\<close>

definition resolution :: "(jstr \<Rightarrow> jstr) \<Rightarrow> jstr \<Rightarrow> json option \<Rightarrow> person \<Rightarrow> jstr \<Rightarrow> bool \<Rightarrow> json option
    \<Rightarrow> jstr list \<Rightarrow> jstr list \<Rightarrow> bool" where
  "resolution lower email g p domain exact entry orgs companies \<longleftrightarrow>
     (let e = lower (js_trim email); ts = tenants_of g; holder = holder_of ts in
      email_domain e = Some domain \<and> person_entry lower e domain g = (exact, entry)
      \<and> walk holder (rows lower e domain ts) [] [] = Inr (orgs, companies)
      \<and> p_everything p = (flag ''everything'' entry \<and> exact)
      \<and> p_manage p = (flag ''manage'' entry \<and> exact) \<and> p_run p = flag ''run'' entry
      \<and> (if p_everything p then p_accounts p = All \<and> p_genericOrgs p = map fst ts
         else p_genericOrgs p = orgs \<and> p_accounts p = Only
           (set_add_all (filter (\<lambda>k. the (map_of holder k) \<notin> set orgs) companies)
              (set_add_all (concat (map (\<lambda>t. filter (\<lambda>a. map_of holder a = Some t)
                 (case map_of ts t of Some v \<Rightarrow> key_list (accounts_of v) | None \<Rightarrow> [])) orgs)) []))))"

lemma resolved:
  assumes "resolvePerson lower email g = Inr (Some p)"
  shows "\<exists>domain exact entry orgs companies. resolution lower email g p domain exact entry orgs companies"
proof -
  let ?e = "lower (js_trim email)"
  obtain domain where d: "email_domain ?e = Some domain"
    using assms by (auto simp: resolvePerson_def Let_def split: if_splits option.splits)
  obtain exact entry where x: "person_entry lower ?e domain g = (exact, entry)" by fastforce
  have w: "List.find (\<lambda>(t, v). accounts_of v = Some STAR) (tenants_of g) = None"
    using assms by (auto simp: resolvePerson_def Let_def d split: if_splits option.splits)
  obtain orgs companies where
    k: "walk (holder_of (tenants_of g)) (rows lower ?e domain (tenants_of g)) [] [] = Inr (orgs, companies)"
    using assms[unfolded resolvePerson_def Let_def d option.case w x prod.case] that
    by (cases "walk (holder_of (tenants_of g)) (rows lower ?e domain (tenants_of g)) [] []")
       (auto split: if_splits)
  have "resolution lower email g p domain exact entry orgs companies"
    using assms[unfolded resolvePerson_def Let_def d option.case w x prod.case k sum.case]
    unfolding resolution_def Let_def d x k by (auto split: if_splits)
  then show ?thesis by blast
qed

section \<open>Facts about an accepted file\<close>

lemma hold_result:
  "hold t as h = Inr h' \<Longrightarrow> h' = rev (map (\<lambda>a. (a, t)) (filter (\<lambda>a. a \<noteq> GENERIC) as)) @ h
     \<and> (distinct (map fst h) \<longrightarrow> distinct (map fst h'))"
proof (induction t as h rule: hold.induct)
  case (2 t a as holder)
  show ?case
  proof (cases "a = GENERIC")
    case True
    then have "hold t as holder = Inr h'" and "filter (\<lambda>a. a \<noteq> GENERIC) (a # as) = filter (\<lambda>a. a \<noteq> GENERIC) as"
      using "2.prems" by simp_all
    then show ?thesis using "2.IH"(1)[OF True] by metis
  next
    case nongeneric: False
    then have False: "a \<noteq> GENERIC" "map_of holder a = None"
      using "2.prems" by (auto split: option.splits)
    then have "hold t as ((a, t) # holder) = Inr h'"
      using "2.prems" by simp
    note "2.IH"(2)[OF False this]
    moreover have "rev (map (\<lambda>a. (a, t)) (filter (\<lambda>a. a \<noteq> GENERIC) (a # as))) @ holder
        = rev (map (\<lambda>a. (a, t)) (filter (\<lambda>a. a \<noteq> GENERIC) as)) @ (a, t) # holder"
      and "distinct (map fst ((a, t) # holder)) \<longleftrightarrow> distinct (map fst holder)"
      using False by (simp_all add: map_of_eq_None_iff)
    ultimately show ?thesis by metis
  qed
qed simp

definition tenant_ok :: "json \<Rightarrow> bool" where
  "tenant_ok v \<longleftrightarrow> is_obj (Some v) \<and> accounts_of v \<noteq> Some STAR
     \<and> (\<forall>(pat, a)\<in>set (obj (member (js ''users'') (Some v))). a = STAR \<or> is_keys (Some a))"

lemma tenant_shape_result:
  assumes "tenant_shape t v h = Inr h'"
  shows "hold t (key_list (accounts_of v)) h = Inr h' \<and> tenant_ok v"
proof -
  have h: "hold t (key_list (accounts_of v)) h = Inr h'"
    using assms by (auto simp: tenant_shape_def Let_def split: if_splits sum.splits option.splits)
  have "List.find (\<lambda>(pat, a). a \<noteq> STAR \<and> \<not> is_keys (Some a)) (obj (member (js ''users'') (Some v))) = None"
    and "is_obj (Some v)" and "accounts_of v \<noteq> Some STAR"
    using assms unfolding tenant_shape_def Let_def h sum.case by (auto split: if_splits option.splits)
  then show ?thesis
    using h by (auto simp: tenant_ok_def find_None_iff)
qed

lemma tenants_shape_result:
  "tenants_shape ts h = Inr h' \<Longrightarrow>
     h' = rev (filter (\<lambda>(a, t). a \<noteq> GENERIC) (listings ts)) @ h
     \<and> (distinct (map fst h) \<longrightarrow> distinct (map fst h')) \<and> (\<forall>(t, v)\<in>set ts. tenant_ok v)"
proof (induction ts h rule: tenants_shape.induct)
  case (2 t v ts h)
  then obtain h1 where h1: "tenant_shape t v h = Inr h1" "tenants_shape ts h1 = Inr h'"
    by (auto split: sum.splits)
  have l: "filter (\<lambda>(a, t). a \<noteq> GENERIC) (listings ((t, v) # ts)) =
      map (\<lambda>a. (a, t)) (filter (\<lambda>a. a \<noteq> GENERIC) (key_list (accounts_of v))) @ filter (\<lambda>(a, t). a \<noteq> GENERIC) (listings ts)"
    by (simp add: listings_def filter_map comp_def)
  have hold: "hold t (key_list (accounts_of v)) h = Inr h1" and ok: "tenant_ok v"
    using tenant_shape_result[OF h1(1)] by auto
  have "rev (filter (\<lambda>(a, t). a \<noteq> GENERIC) (listings ((t, v) # ts))) @ h
      = rev (filter (\<lambda>(a, t). a \<noteq> GENERIC) (listings ts)) @ h1"
    unfolding l using hold_result[OF hold] by simp
  moreover have "distinct (map fst h) \<longrightarrow> distinct (map fst h')"
    using hold_result[OF hold] "2.IH"[OF h1] by blast
  moreover have "\<forall>(t, v)\<in>set ((t, v) # ts). tenant_ok v"
    using ok "2.IH"[OF h1] by simp
  ultimately show ?case
    using "2.IH"[OF h1] by simp
qed (simp add: listings_def)

lemma people_shape_result: "people_shape ps = None \<Longrightarrow> (who, entry) \<in> set ps \<Longrightarrow> person_shape who entry = None"
  by (induction ps rule: people_shape.induct) (auto split: option.splits)

lemma shape_result:
  assumes "assertGrantsShape g = None"
  shows "distinct (map fst (filter (\<lambda>(a, t). a \<noteq> GENERIC) (listings (tenants_of g))))"
    and "\<forall>(t, v)\<in>set (tenants_of g). tenant_ok v"
    and "(who, entry) \<in> set (obj (member (js ''people'') g)) \<Longrightarrow> person_shape who entry = None"
proof -
  obtain h where h: "tenants_shape (tenants_of g) [] = Inr h"
    using assms by (auto simp: assertGrantsShape_def split: sum.splits)
  note r = tenants_shape_result[OF h]
  have "map fst h = rev (map fst (filter (\<lambda>(a, t). a \<noteq> GENERIC) (listings (tenants_of g))))"
    using r by (simp add: rev_map)
  then show "distinct (map fst (filter (\<lambda>(a, t). a \<noteq> GENERIC) (listings (tenants_of g))))"
    using r by (metis distinct_rev distinct.simps(1) list.simps(8))
  show "\<forall>(t, v)\<in>set (tenants_of g). tenant_ok v"
    using r by blast
  assume p: "(who, entry) \<in> set (obj (member (js ''people'') g))"
  then have "people_shape (obj (member (js ''people'') g)) = None"
    using assms unfolding assertGrantsShape_def h sum.case Let_def by (auto split: if_splits)
  then show "person_shape who entry = None"
    using p by (rule people_shape_result)
qed

lemma walk_total:
  "\<forall>(t, pat, a)\<in>set rs. a = STAR \<or> is_keys (Some a) \<Longrightarrow> \<exists>r. walk holder rs orgs companies = Inr r"
proof (induction holder rs orgs companies rule: walk.induct)
  case (2 holder t pat acc rs orgs companies)
  then have "acc = STAR \<or> is_keys (Some acc)" and rest: "\<forall>(t, pat, a)\<in>set rs. a = STAR \<or> is_keys (Some a)"
    by auto
  then show ?case
    using 2 by (cases acc) (auto simp: STAR_def)
qed simp

section \<open>A small tree for the instances\<close>

definition demo_grants :: json where
  "demo_grants = JObj [
     (js ''tenants'', JObj [
        (js ''acme'', JObj [(js ''accounts'', JArr [JStr (js ''am''), JStr (js ''ag'')]),
                            (js ''users'', JObj [(js ''*@a.c'', JArr [JStr (js ''am'')])])]),
        (js ''beta'', JObj [(js ''accounts'', JArr [JStr (js ''be'')]),
                            (js ''users'', JObj [(js ''u@a.c'', STAR)])])]),
     (js ''people'', JObj [(js ''u@a.c'', JObj [(js ''run'', JBool True), (js ''manage'', JBool True)])])]"

definition demo_person :: person where
  "demo_person = \<lparr> p_email = js ''u@a.c'', p_everything = False, p_run = True, p_manage = True,
     p_access = [Organisation (js ''beta''), Company (js ''am'') (js ''acme'')],
     p_accounts = Only [js ''be'', js ''am''], p_organisations = [js ''beta'', js ''acme''],
     p_genericOrgs = [js ''beta''], p_accountOrgs = [(js ''be'', js ''beta''), (js ''am'', js ''acme'')] \<rparr>"

lemma demo_shape: "assertGrantsShape (Some demo_grants) = None"
  by (simp add: demo_grants_def assertGrantsShape_def tenants_of_def accounts_of_def tenant_shape_def STAR_def
      GENERIC_def person_shape_def PERSON_FIELDS_def Let_def)

lemma demo_resolves: "resolvePerson (map low1) (js ''U@a.c'') (Some demo_grants) = Inr (Some demo_person)"
  by (simp add: demo_grants_def demo_person_def resolvePerson_def tenants_of_def accounts_of_def STAR_def GENERIC_def
      email_domain_def occurrences_def js_trim_def is_space_def low1_def is_upper_def person_entry_def holder_of_def
      rows_def matches_def flag_def set_add_def Let_def)

section \<open>Properties\<close>

text \<open>In an accepted grants file a company belongs to exactly one organisation: two listings of a company
  other than Generic are in the same tenant. No tenant holds the wildcard, every user row is the whole
  organisation or a list of names, and no entry for a whole email domain holds Manage or everything.\<close>

theorem shape_one_holder:
  assumes "assertGrantsShape g = None"
  shows "(\<forall>a t t'. a = GENERIC \<or> (a, t) \<notin> set (listings (tenants_of g)) \<or> (a, t') \<notin> set (listings (tenants_of g)) \<or> t = t')
    \<and> (\<forall>(t, v)\<in>set (tenants_of g). tenant_ok v)
    \<and> (\<forall>(who, entry)\<in>set (obj (member (js ''people'') g)).
         \<not> starts_with (js ''*@'') who \<or> \<not> flag ''manage'' (Some entry) \<and> \<not> flag ''everything'' (Some entry))"
proof (intro conjI allI)
  fix a t t'
  have "t = t'" if "a \<noteq> GENERIC" "(a, t) \<in> set (listings (tenants_of g))" "(a, t') \<in> set (listings (tenants_of g))"
    using eq_key_imp_eq_value[OF shape_result(1)[OF assms], of a t t'] that by simp
  then show "a = GENERIC \<or> (a, t) \<notin> set (listings (tenants_of g)) \<or> (a, t') \<notin> set (listings (tenants_of g)) \<or> t = t'"
    by blast
next
  show "\<forall>(t, v)\<in>set (tenants_of g). tenant_ok v"
    by (rule shape_result(2)[OF assms])
next
  have "\<not> starts_with (js ''*@'') who \<or> \<not> flag ''manage'' (Some entry) \<and> \<not> flag ''everything'' (Some entry)"
    if "(who, entry) \<in> set (obj (member (js ''people'') g))" for who entry
    using shape_result(3)[OF assms that] unfolding person_shape_def flag_def
    by (auto simp del: js_Cons js_Nil split: if_splits option.splits)
  then show "\<forall>(who, entry)\<in>set (obj (member (js ''people'') g)).
         \<not> starts_with (js ''*@'') who \<or> \<not> flag ''manage'' (Some entry) \<and> \<not> flag ''everything'' (Some entry)"
    by blast
qed

theorem shape_one_holder_witness:
  "list_all (\<lambda>(t, v). tenant_ok v) (tenants_of (Some demo_grants))"
  unfolding list_all_iff using shape_one_holder[OF demo_shape] by blast

text \<open>C40: An accepted file never makes \<open>resolvePerson\<close> throw: whoever asks, the answer is a person or nobody.\<close>

theorem accepted_file_resolves:
  assumes "assertGrantsShape g = None"
  shows "\<exists>r. resolvePerson lower email g = Inr r"
proof -
  let ?e = "lower (js_trim email)"
  have wild: "List.find (\<lambda>(t, v). accounts_of v = Some STAR) (tenants_of g) = None"
    using shape_result(2)[OF assms] by (auto simp: find_None_iff tenant_ok_def)
  have "\<forall>(t, pat, a)\<in>set (rows lower ?e d (tenants_of g)). a = STAR \<or> is_keys (Some a)" for d
  proof -
    have "a = STAR \<or> is_keys (Some a)" if row: "(t, pat, a) \<in> set (rows lower ?e d (tenants_of g))" for t pat a
    proof -
      obtain v where "(t, v) \<in> set (tenants_of g)" "(pat, a) \<in> set (obj (member (js ''users'') (Some v)))"
        using row unfolding rows_iff by blast
      then show ?thesis
        using shape_result(2)[OF assms] unfolding tenant_ok_def by blast
    qed
    then show ?thesis by blast
  qed
  note total = walk_total[OF this]
  show ?thesis
  proof (cases "email_domain ?e")
    case None
    then show ?thesis by (simp add: resolvePerson_def Let_def)
  next
    case (Some d)
    obtain orgs companies where
      w: "walk (holder_of (tenants_of g)) (rows lower ?e d (tenants_of g)) [] [] = Inr (orgs, companies)"
      using total by (metis surj_pair)
    obtain exact entry where x: "person_entry lower ?e d g = (exact, entry)" by fastforce
    show ?thesis
      unfolding resolvePerson_def Let_def Some option.case wild x prod.case w sum.case by (simp split: if_split)
  qed
qed

theorem accepted_file_resolves_witness:
  "\<exists>r. resolvePerson (map low1) (js ''U@a.c'') (Some demo_grants) = Inr r"
  by (rule accepted_file_resolves[OF demo_shape])

text \<open>C5: A person sees exactly the companies the file grants. For a person without access to everything,
  over a file whose organisations have different names, the resolved accounts are, without repetition, the
  companies an organisation both holds and grants to the address, by a row for the address or its domain; the
  organisations whose Generic they see are exactly those that grant them the whole organisation.\<close>

theorem resolvePerson_exact:
  assumes "resolvePerson lower email g = Inr (Some p)" and "\<not> p_everything p"
    and "distinct (map fst (tenants_of g))"
  shows "\<exists>accs. p_accounts p = Only accs \<and> distinct accs \<and> (\<forall>a. a \<in> set accs \<longleftrightarrow> granted lower email g a)
    \<and> (\<forall>t. t \<in> set (p_genericOrgs p) \<longleftrightarrow> grants_whole_org lower email g t)"
proof -
  let ?e = "lower (js_trim email)" and ?ts = "tenants_of g"
  obtain domain exact entry orgs companies where "resolution lower email g p domain exact entry orgs companies"
    using resolved[OF assms(1)] by blast
  then have d: "email_domain ?e = Some domain"
    and w: "walk (holder_of ?ts) (rows lower ?e domain ?ts) [] [] = Inr (orgs, companies)"
    and p: "p_genericOrgs p = orgs" "p_accounts p = Only
        (set_add_all (filter (\<lambda>k. the (map_of (holder_of ?ts) k) \<notin> set orgs) companies)
           (set_add_all (concat (map (\<lambda>t. filter (\<lambda>a. map_of (holder_of ?ts) a = Some t)
              (case map_of ?ts t of Some v \<Rightarrow> key_list (accounts_of v) | None \<Rightarrow> [])) orgs)) []))"
    using assms(2) unfolding resolution_def Let_def by simp_all
  note k = walk_result[OF w]
  define own where "own t = set (case map_of ?ts t of Some v \<Rightarrow> key_list (accounts_of v) | None \<Rightarrow> [])" for t
  have own: "a \<in> own t" if h: "map_of (holder_of ?ts) a = Some t" for a t
  proof -
    obtain v where "(t, v) \<in> set ?ts" "a \<in> set (key_list (accounts_of v))"
      using holder_listed[OF h] by blast
    then show ?thesis using assms(3) by (simp add: own_def)
  qed
  have g: "granted lower email g a \<longleftrightarrow> (\<exists>t. map_of (holder_of ?ts) a = Some t \<and> t \<in> set orgs) \<or> a \<in> set companies" for a
    using k unfolding granted_def d by auto
  have "a \<in> set companies \<Longrightarrow> \<exists>t. map_of (holder_of ?ts) a = Some t" for a
    using k by auto
  moreover have "a \<in> set (case p_accounts p of Only accs \<Rightarrow> accs) \<longleftrightarrow>
      (\<exists>t\<in>set orgs. map_of (holder_of ?ts) a = Some t \<and> a \<in> own t)
      \<or> a \<in> set companies \<and> the (map_of (holder_of ?ts) a) \<notin> set orgs" for a
    unfolding p reach.case own_def by auto
  ultimately have "\<forall>a. a \<in> set (case p_accounts p of Only accs \<Rightarrow> accs) \<longleftrightarrow> granted lower email g a"
    unfolding g using own by (metis option.sel)
  moreover have "\<forall>t. t \<in> set (p_genericOrgs p) \<longleftrightarrow> grants_whole_org lower email g t"
    using k unfolding p grants_whole_org_def d by auto
  ultimately show ?thesis
    unfolding p reach.case by (intro exI conjI) auto
qed

theorem resolvePerson_exact_witness:
  "granted (map low1) (js ''U@a.c'') (Some demo_grants) (js ''be'')
   \<and> \<not> granted (map low1) (js ''U@a.c'') (Some demo_grants) (js ''ag'')"
proof -
  have "\<exists>accs. p_accounts demo_person = Only accs \<and> distinct accs
      \<and> (\<forall>a. a \<in> set accs \<longleftrightarrow> granted (map low1) (js ''U@a.c'') (Some demo_grants) a)
      \<and> (\<forall>t. t \<in> set (p_genericOrgs demo_person) \<longleftrightarrow> grants_whole_org (map low1) (js ''U@a.c'') (Some demo_grants) t)"
    by (rule resolvePerson_exact[OF demo_resolves])
       (simp_all add: demo_person_def demo_grants_def tenants_of_def)
  then have "\<forall>a. a \<in> {js ''be'', js ''am''} \<longleftrightarrow> granted (map low1) (js ''U@a.c'') (Some demo_grants) a"
    by (simp add: demo_person_def)
  from spec[OF this, of "js ''be''"] spec[OF this, of "js ''ag''"] show ?thesis by simp
qed

text \<open>Manage and access to everything are held by name only: whoever resolves with either has an entry of
  their own address (folded for case) that sets that switch; a row for an email domain never confers them.\<close>

theorem elevation_by_name_only:
  assumes "resolvePerson lower email g = Inr (Some p)" and "p_everything p \<or> p_manage p"
  shows "\<exists>who entry. (who, entry) \<in> set (obj (member (js ''people'') g)) \<and> lower who = lower (js_trim email)
    \<and> (p_everything p \<longrightarrow> flag ''everything'' (Some entry)) \<and> (p_manage p \<longrightarrow> flag ''manage'' (Some entry))"
proof -
  obtain domain exact entry orgs companies where "resolution lower email g p domain exact entry orgs companies"
    using resolved[OF assms(1)] by blast
  then have x: "person_entry lower (lower (js_trim email)) domain g = (exact, entry)"
    "p_everything p \<longleftrightarrow> flag ''everything'' entry \<and> exact" "p_manage p \<longleftrightarrow> flag ''manage'' entry \<and> exact"
    unfolding resolution_def Let_def by simp_all
  have exact
    using assms(2) x(2,3) by blast
  then obtain k where k: "List.find (\<lambda>k. lower k = lower (js_trim email)) (map fst (obj (member (js ''people'') g))) = Some k"
    "map_of (obj (member (js ''people'') g)) k = entry"
    using x(1) unfolding person_entry_def Let_def by (auto split: option.splits)
  then have "k \<in> fst ` set (obj (member (js ''people'') g))" and lk: "lower k = lower (js_trim email)"
    using find_in[OF k(1)] by (simp_all only: set_map)
  then obtain v where v: "entry = Some v"
    using k(2) by (metis map_of_eq_None_iff not_None_eq)
  then have "(k, v) \<in> set (obj (member (js ''people'') g))"
    using k(2) by (auto dest: map_of_SomeD)
  then show ?thesis
    using lk x(2,3) v by blast
qed

theorem elevation_by_name_only_witness:
  "\<exists>who entry. (who, entry) \<in> set (obj (member (js ''people'') (Some demo_grants)))
     \<and> map low1 who = map low1 (js_trim (js ''U@a.c'')) \<and> flag ''manage'' (Some entry)"
  using elevation_by_name_only[OF demo_resolves] by (auto simp: demo_person_def)
end
