(* ===== verification/GrantsEdit.thy ===== *)
theory GrantsEdit
  imports Grants
begin

text \<open>The changes a person makes to the grants file, \<open>shared/grants-edit.mjs\<close>: give someone access, take it
  away, file a company under its organisation, add an organisation.

  The file is the JSON object of \<open>Grants\<close>; an edit returns the whole new file or the error it throws
  (\<open>Refused\<close> carries what \<open>assertGrantsShape\<close> says of the result). A value that is not an object where a
  property of it is assigned is one error, \<open>NotAnObject\<close>; the keys of \<open>Object.prototype\<close> and a \<open>tenants\<close>
  that is not an object are not modelled (no loaded file has one). \<open>u\<close> is the Unicode of the engine.\<close>

section \<open>Reading and writing a field\<close>

datatype edit_error =
    NotOneAddress jstr
  | NotAnObject
  | NoOrganisation jstr
  | NotHeld jstr jstr
  | Refused grant_error
  | NoAddress
  | NothingNamed
  | HoldsEverything jstr
  | HoldsWhole jstr jstr
  | NoName
  | AlreadyAnOrganisation jstr

type_synonym point = "jstr \<times> jstr option"

definition set_tenant :: "jstr \<Rightarrow> json \<Rightarrow> fields \<Rightarrow> fields" where
  "set_tenant t v fs =
     AList.update (js ''tenants'') (JObj (AList.update t v (tenants_of (Some (JObj fs))))) fs"

text \<open>\<open>structuredClone(grants ?? { tenants: {} })\<close> and \<open>g.tenants ??= {}\<close>.\<close>

definition open_grants :: "json option \<Rightarrow> edit_error + fields" where
  "open_grants g =
     (case g of
        None \<Rightarrow> Inr [(js ''tenants'', JObj [])]
      | Some JNull \<Rightarrow> Inr [(js ''tenants'', JObj [])]
      | Some (JObj fs) \<Rightarrow>
          Inr (if nullish (map_of fs (js ''tenants'')) then AList.update (js ''tenants'') (JObj []) fs else fs)
      | _ \<Rightarrow> Inl NotAnObject)"

definition close_grants :: "fields \<Rightarrow> edit_error + json" where
  "close_grants fs =
     (case assertGrantsShape (Some (JObj fs)) of Some e \<Rightarrow> Inl (Refused e) | None \<Rightarrow> Inr (JObj fs))"

text \<open>\<open>String(email ?? "").trim().toLowerCase()\<close>, and the test that it is one address.\<close>

definition address :: "unicode \<Rightarrow> json option \<Rightarrow> jstr" where
  "address u email = to_lower u (js_trim (string_or email []))"

definition one_address :: "jstr \<Rightarrow> bool" where
  "one_address e = (let ats = occurrences [64] e in e \<noteq> [] \<and> ats \<noteq> [] \<and> hd ats \<noteq> 0 \<and> hd ats = last ats)"

fun each :: "('a \<Rightarrow> 's \<Rightarrow> 'e + 's) \<Rightarrow> 'a list \<Rightarrow> 's \<Rightarrow> 'e + 's" where
  "each f [] s = Inr s"
| "each f (x # xs) s = (case f x s of Inl e \<Rightarrow> Inl e | Inr s' \<Rightarrow> each f xs s')"

section \<open>Giving access\<close>

definition add_point :: "jstr \<Rightarrow> point \<Rightarrow> fields \<Rightarrow> edit_error + fields" where
  "add_point e p fs =
     (let (t, acc) = p in
      case map_of (tenants_of (Some (JObj fs))) t of
        None \<Rightarrow> Inl (NoOrganisation t)
      | Some v \<Rightarrow>
          if \<not> truthy (Some v) then Inl (NoOrganisation t)
          else if \<not> is_obj (Some v) then Inl NotAnObject
          else
            let users = spread (member (js ''users'') (Some v));
                put_users = (\<lambda>us. set_tenant t (set_field (js ''users'') (JObj us) v) fs)
            in case acc of
                 None \<Rightarrow> Inr (put_users (AList.update e STAR users))
               | Some a \<Rightarrow>
                   if JStr a \<notin> set (elems (accounts_of v)) then Inl (NotHeld t a)
                   else
                     let held = map_of users e in
                     if held = Some STAR then Inr (put_users users)
                     else Inr (put_users (AList.update e (JArr (set_of (elems held @ [JStr a]))) users)))"

definition person_switches :: "json option \<Rightarrow> json" where
  "person_switches sw =
     JObj ([(js ''run'', JBool (flag ''run'' sw)), (js ''manage'', JBool (flag ''manage'' sw))]
       @ (if flag ''everything'' sw then [(js ''everything'', JBool True)] else []))"

definition withPerson ::
  "unicode \<Rightarrow> json option \<Rightarrow> json option \<Rightarrow> point list \<Rightarrow> json option \<Rightarrow> bool \<Rightarrow> edit_error + json" where
  "withPerson u grants email points switches setSwitches =
     (let e = address u email in
      if \<not> one_address e then Inl (NotOneAddress (template email))
      else case open_grants grants of
        Inl err \<Rightarrow> Inl err
      | Inr g0 \<Rightarrow>
          (case each (add_point e) points g0 of
             Inl err \<Rightarrow> Inl err
           | Inr g1 \<Rightarrow>
               close_grants
                 (if setSwitches then
                    AList.update (js ''people'')
                      (JObj (AList.update e (person_switches switches) (spread (map_of g1 (js ''people''))))) g1
                  else g1)))"

section \<open>What a person holds\<close>

record holding =
  h_points :: "(jstr \<times> json option) list"
  h_run :: bool
  h_manage :: bool
  h_everything :: bool
  h_listed :: bool

text \<open>The key of a table that is this address when case is folded: the first one.\<close>

definition key_in :: "unicode \<Rightarrow> jstr \<Rightarrow> json option \<Rightarrow> jstr option" where
  "key_in u e table = List.find (\<lambda>k. to_lower u k = e) (map fst (spread table))"

definition personPoints :: "unicode \<Rightarrow> fields \<Rightarrow> json option \<Rightarrow> holding" where
  "personPoints u fs email =
     (let e = address u email;
          points = concat (map (\<lambda>(t, v).
            let users = member (js ''users'') (Some v) in
            case key_in u e users of
              None \<Rightarrow> []
            | Some k \<Rightarrow> (if map_of (spread users) k = Some STAR then [(t, None)]
                        else map (\<lambda>a. (t, Some a)) (elems (map_of (spread users) k)))) (tenants_of (Some (JObj fs))));
          people = map_of fs (js ''people'');
          entry = (case key_in u e people of None \<Rightarrow> None | Some k \<Rightarrow> map_of (spread people) k)
      in \<lparr> h_points = points, h_run = flag ''run'' entry, h_manage = flag ''manage'' entry,
           h_everything = flag ''everything'' entry, h_listed = (entry \<noteq> None) \<rparr>)"

section \<open>Taking access away\<close>

definition strike_user :: "unicode \<Rightarrow> jstr \<Rightarrow> json \<Rightarrow> json" where
  "strike_user u e v =
     (let users = member (js ''users'') (Some v) in
      case key_in u e users of
        None \<Rightarrow> v
      | Some k \<Rightarrow> set_field (js ''users'') (JObj (AList.delete k (spread users))) v)"

definition strike_person :: "unicode \<Rightarrow> jstr \<Rightarrow> fields \<Rightarrow> fields" where
  "strike_person u e fs =
     (let people = map_of fs (js ''people'') in
      case key_in u e people of
        None \<Rightarrow> fs
      | Some k \<Rightarrow> AList.update (js ''people'') (JObj (AList.delete k (spread people))) fs)"

definition strike_tenants :: "unicode \<Rightarrow> jstr \<Rightarrow> fields \<Rightarrow> fields" where
  "strike_tenants u e fs =
     (case map_of fs (js ''tenants'') of
        Some (JObj ts) \<Rightarrow> AList.update (js ''tenants'') (JObj (map (\<lambda>(t, v). (t, strike_user u e v)) ts)) fs
      | _ \<Rightarrow> fs)"

definition drop_point :: "unicode \<Rightarrow> jstr \<Rightarrow> point \<Rightarrow> fields \<Rightarrow> edit_error + fields" where
  "drop_point u e p fs =
     (let (t, acc) = p in
      case map_of (tenants_of (Some (JObj fs))) t of
        None \<Rightarrow> Inl (NoOrganisation t)
      | Some v \<Rightarrow>
          if \<not> truthy (Some v) then Inl (NoOrganisation t)
          else
            let users = member (js ''users'') (Some v);
                put_users = (\<lambda>us. set_tenant t (set_field (js ''users'') (JObj us) v) fs)
            in case key_in u e users of
                 None \<Rightarrow> Inr fs
               | Some k \<Rightarrow>
                   let have = map_of (spread users) k in
                   (case acc of
                      None \<Rightarrow> Inr (put_users (AList.delete k (spread users)))
                    | Some a \<Rightarrow>
                        if have = Some STAR then Inl (HoldsWhole t a)
                        else
                          let left = filter (\<lambda>x. x \<noteq> JStr a) (elems have) in
                          Inr (put_users (if left \<noteq> [] then AList.update k (JArr left) (spread users)
                                          else AList.delete k (spread users)))))"

definition withoutPerson :: "unicode \<Rightarrow> json option \<Rightarrow> json option \<Rightarrow> point list \<Rightarrow> bool \<Rightarrow> edit_error + json" where
  "withoutPerson u grants email points all =
     (let e = address u email in
      if e = [] then Inl NoAddress
      else case open_grants grants of
        Inl err \<Rightarrow> Inl err
      | Inr g0 \<Rightarrow>
          let held = personPoints u g0 (Some (JStr e)) in
          if \<not> all \<and> points = [] then Inl NothingNamed
          else if \<not> all \<and> h_everything held then Inl (HoldsEverything e)
          else if all then close_grants (strike_person u e (strike_tenants u e g0))
          else (case each (drop_point u e) points g0 of Inl err \<Rightarrow> Inl err | Inr g1 \<Rightarrow> close_grants g1))"

section \<open>Companies and organisations\<close>

definition withCompany :: "json option \<Rightarrow> jstr \<Rightarrow> jstr \<Rightarrow> edit_error + json" where
  "withCompany grants t account =
     (case grants of
        Some (JObj fs) \<Rightarrow>
          (case map_of (tenants_of grants) t of
             None \<Rightarrow> Inl (NoOrganisation t)
           | Some v \<Rightarrow>
               if \<not> truthy (Some v) then Inl (NoOrganisation t)
               else if \<not> is_obj (Some v) then Inl NotAnObject
               else close_grants (set_tenant t
                 (set_field (js ''accounts'') (JArr (set_of (elems (accounts_of v) @ [JStr account]))) v) fs))
      | _ \<Rightarrow> Inl (NoOrganisation t))"

definition org_char :: "unit16 \<Rightarrow> bool" where
  "org_char c \<longleftrightarrow> is_lower c \<or> is_digit c"

text \<open>Lower case, decomposed, without combining marks; every run of other characters is one hyphen, none
  of them at an end: the pieces between, joined.\<close>

definition organisation_key :: "unicode \<Rightarrow> jstr \<Rightarrow> jstr" where
  "organisation_key u n =
     (let k = join [45] (tokens org_char (filter (\<lambda>c. c < 768 \<or> 879 < c) (nfkd u (to_lower u n))))
      in if k = [] then js ''organisation'' else k)"

definition withOrganisation :: "unicode \<Rightarrow> json option \<Rightarrow> json option \<Rightarrow> edit_error + (json \<times> jstr)" where
  "withOrganisation u grants name =
     (let n = js_trim (string_or name []) in
      if n = [] then Inl NoName
      else case open_grants grants of
        Inl err \<Rightarrow> Inl err
      | Inr g \<Rightarrow>
          let key = organisation_key u n in
          if truthy (map_of (tenants_of (Some (JObj g))) key) then Inl (AlreadyAnOrganisation key)
          else case close_grants (set_tenant key
                 (JObj [(js ''name'', JStr n), (js ''accounts'', JArr []), (js ''users'', JObj [])]) g) of
                 Inl err \<Rightarrow> Inl err
               | Inr g' \<Rightarrow> Inr (g', key))"

section \<open>What an edit does to the tree\<close>

text \<open>The names of the properties stay names in the proofs below.\<close>

declare js_Cons [simp del] js_Nil [simp del] set_field.simps [simp del]

lemma update_split:
  "map_of ts t = Some v \<Longrightarrow>
     \<exists>pre post. ts = pre @ (t, v) # post \<and> (\<forall>v'. AList.update t v' ts = pre @ (t, v') # post)"
proof (induction ts)
  case (Cons x ts)
  obtain t' w where x: "x = (t', w)" by (cases x)
  show ?case
  proof (cases "t' = t")
    case True
    then have "x # ts = [] @ (t, v) # ts \<and> (\<forall>v'. AList.update t v' (x # ts) = [] @ (t, v') # ts)"
      using Cons.prems x by simp
    then show ?thesis by blast
  next
    case False
    then obtain pre post where p: "ts = pre @ (t, v) # post" "\<forall>v'. AList.update t v' ts = pre @ (t, v') # post"
      using Cons.IH Cons.prems x by auto
    then have "x # ts = (x # pre) @ (t, v) # post \<and> (\<forall>v'. AList.update t v' (x # ts) = (x # pre) @ (t, v') # post)"
      using False x p(2) by (simp add: p(1)[symmetric])
    then show ?thesis by blast
  qed
qed simp

lemma update_fresh: "map_of ts t = None \<Longrightarrow> AList.update t v ts = ts @ [(t, v)]"
  by (induction ts) (auto split: if_splits)

definition users_of :: "json \<Rightarrow> fields" where
  "users_of v = obj (member (js ''users'') (Some v))"

lemma tenants_set_tenant [simp]:
  "tenants_of (Some (JObj (set_tenant t v fs))) = AList.update t v (tenants_of (Some (JObj fs)))"
  unfolding tenants_of_def set_tenant_def member.simps update_conv by simp

lemma people_set_tenant [simp]:
  "map_of (set_tenant t v fs) (js ''people'') = map_of fs (js ''people'')"
  unfolding set_tenant_def update_conv by simp

lemma users_set_users [simp]: "users_of (set_field (js ''users'') (JObj us) (JObj vs)) = us"
  unfolding users_of_def set_field.simps member.simps update_conv by simp

lemma accounts_set_users [simp]: "accounts_of (set_field (js ''users'') x (JObj vs)) = accounts_of (JObj vs)"
  unfolding accounts_of_def set_field.simps member.simps update_conv by simp

text \<open>A guest list that is read the same by the resolver and by the editor.\<close>

definition plain_users :: "(jstr \<times> json) list \<Rightarrow> bool" where
  "plain_users ts \<longleftrightarrow> (\<forall>(t, v)\<in>set ts. spread (member (js ''users'') (Some v)) = users_of v)"

lemma plain_set_users [simp]:
  "spread (member (js ''users'') (Some (set_field (js ''users'') (JObj us) (JObj vs)))) = us"
  unfolding set_field.simps member.simps update_conv by simp

text \<open>What a guest list gives: the whole organisation, or a company by name.\<close>

definition names :: "json \<Rightarrow> jstr \<Rightarrow> bool" where
  "names acc a \<longleftrightarrow> acc = STAR \<or> (\<exists>xs. acc = JArr xs \<and> a \<in> set (texts xs))"

definition list_gives :: "(jstr \<Rightarrow> bool) \<Rightarrow> fields \<Rightarrow> jstr \<Rightarrow> bool" where
  "list_gives M us a \<longleftrightarrow> (\<exists>(pat, acc)\<in>set us. M pat \<and> names acc a)"

definition list_whole :: "(jstr \<Rightarrow> bool) \<Rightarrow> fields \<Rightarrow> bool" where
  "list_whole M us \<longleftrightarrow> (\<exists>(pat, acc)\<in>set us. M pat \<and> acc = STAR)"

definition tree_gives :: "(jstr \<Rightarrow> bool) \<Rightarrow> (jstr \<times> json) list \<Rightarrow> jstr \<Rightarrow> jstr \<Rightarrow> bool" where
  "tree_gives M ts t a \<longleftrightarrow> (\<exists>v. (t, v) \<in> set ts \<and> list_gives M (users_of v) a)"

definition tree_whole :: "(jstr \<Rightarrow> bool) \<Rightarrow> (jstr \<times> json) list \<Rightarrow> jstr \<Rightarrow> bool" where
  "tree_whole M ts t \<longleftrightarrow> (\<exists>v. (t, v) \<in> set ts \<and> list_whole M (users_of v))"

lemma granted_tree:
  "granted lower email g a \<longleftrightarrow>
     (\<exists>domain t. email_domain (lower (js_trim email)) = Some domain \<and> map_of (holder_of (tenants_of g)) a = Some t
        \<and> tree_gives (matches lower (lower (js_trim email)) domain) (tenants_of g) t a)"
  unfolding granted_def rows_iff tree_gives_def list_gives_def names_def users_of_def by blast

lemma whole_tree:
  "grants_whole_org lower email g t \<longleftrightarrow>
     (\<exists>domain. email_domain (lower (js_trim email)) = Some domain
        \<and> tree_whole (matches lower (lower (js_trim email)) domain) (tenants_of g) t)"
  unfolding grants_whole_org_def rows_iff tree_whole_def list_whole_def users_of_def by blast

lemma names_STAR [simp]: "names STAR a"
  by (simp add: names_def)

lemma names_added: "acc \<noteq> STAR \<Longrightarrow> names (JArr (set_of (elems (Some acc) @ [JStr b]))) a \<longleftrightarrow> names acc a \<or> a = b"
  by (cases acc) (auto simp: names_def texts_iff STAR_def)

lemma names_first: "names (JArr (set_of (elems None @ [JStr b]))) a \<longleftrightarrow> a = b"
  by (auto simp: names_def texts_iff STAR_def)

lemma JArr_STAR [simp]: "JArr xs \<noteq> STAR" "STAR \<noteq> JArr xs"
  by (simp_all add: STAR_def)

lemma list_give_star:
  shows "list_gives M (AList.update e STAR us) a \<longleftrightarrow> list_gives M us a \<or> M e"
    and "list_whole M (AList.update e STAR us) \<longleftrightarrow> list_whole M us \<or> M e"
proof -
  have both: "(list_gives M (AList.update e STAR us) a \<longleftrightarrow> list_gives M us a \<or> M e)
    \<and> (list_whole M (AList.update e STAR us) \<longleftrightarrow> list_whole M us \<or> M e)"
  proof (cases "map_of us e")
    case None
    then have u: "AList.update e STAR us = us @ [(e, STAR)]" by (rule update_fresh)
    show ?thesis
      unfolding u by (auto simp: list_gives_def list_whole_def)
  next
    case (Some acc)
    obtain pre post where p: "us = pre @ (e, acc) # post" "AList.update e STAR us = pre @ (e, STAR) # post"
      using update_split[OF Some] by blast
    show ?thesis
      unfolding p(2) by (auto simp: list_gives_def list_whole_def p(1))
  qed
  show "list_gives M (AList.update e STAR us) a \<longleftrightarrow> list_gives M us a \<or> M e"
    and "list_whole M (AList.update e STAR us) \<longleftrightarrow> list_whole M us \<or> M e"
    using both by blast+
qed

lemma list_give_one:
  fixes b :: jstr
  assumes "map_of us e \<noteq> Some STAR"
  defines "us' \<equiv> AList.update e (JArr (set_of (elems (map_of us e) @ [JStr b]))) us"
  shows "list_gives M us' a \<longleftrightarrow> list_gives M us a \<or> M e \<and> a = b"
    and "list_whole M us' \<longleftrightarrow> list_whole M us"
proof -
  have both: "(list_gives M us' a \<longleftrightarrow> list_gives M us a \<or> M e \<and> a = b) \<and> (list_whole M us' \<longleftrightarrow> list_whole M us)"
  proof (cases "map_of us e")
    case None
    then have u: "us' = us @ [(e, JArr (set_of (elems None @ [JStr b])))]"
      unfolding us'_def by (simp add: update_fresh)
    show ?thesis
      unfolding u list_gives_def list_whole_def by (auto simp: names_first simp del: elems.simps)
  next
    case (Some acc)
    obtain pre post where p: "us = pre @ (e, acc) # post"
      "us' = pre @ (e, JArr (set_of (elems (Some acc) @ [JStr b]))) # post"
      using update_split[OF Some] unfolding us'_def Some by blast
    have "acc \<noteq> STAR" using assms Some by simp
    then show ?thesis
      unfolding p(2) list_gives_def list_whole_def
      by (auto simp: p(1) names_added simp del: elems.simps)
  qed
  show "list_gives M us' a \<longleftrightarrow> list_gives M us a \<or> M e \<and> a = b" and "list_whole M us' \<longleftrightarrow> list_whole M us"
    using both by blast+
qed

text \<open>Replacing the guest list of one organisation.\<close>

lemma relist:
  fixes us :: fields
  assumes "map_of ts t = Some (JObj vs)" and "plain_users ts"
  defines "ts' \<equiv> AList.update t (set_field (js ''users'') (JObj us) (JObj vs)) ts"
  shows "listings ts' = listings ts" and "plain_users ts'" and "map fst ts' = map fst ts"
    and "(\<And>a. list_gives M us a \<longleftrightarrow> list_gives M (users_of (JObj vs)) a \<or> G a) \<Longrightarrow>
         tree_gives M ts' t' a \<longleftrightarrow> tree_gives M ts t' a \<or> t' = t \<and> G a"
    and "(list_whole M us \<longleftrightarrow> list_whole M (users_of (JObj vs)) \<or> W) \<Longrightarrow>
         tree_whole M ts' t' \<longleftrightarrow> tree_whole M ts t' \<or> t' = t \<and> W"
proof -
  obtain pre post where p: "ts = pre @ (t, JObj vs) # post"
    "ts' = pre @ (t, set_field (js ''users'') (JObj us) (JObj vs)) # post"
    using update_split[OF assms(1)] unfolding ts'_def by blast
  show "listings ts' = listings ts"
    unfolding p(2) by (simp add: p(1) listings_def)
  show "plain_users ts'"
    using assms(2) unfolding p(2) plain_users_def
    by (simp add: p(1) del: member.simps spread.simps)
  show "map fst ts' = map fst ts"
    unfolding p(2) by (simp add: p(1))
  show "tree_gives M ts' t' a \<longleftrightarrow> tree_gives M ts t' a \<or> t' = t \<and> G a"
    if "\<And>a. list_gives M us a \<longleftrightarrow> list_gives M (users_of (JObj vs)) a \<or> G a"
    unfolding p(2) tree_gives_def using that by (auto simp: p(1))
  show "tree_whole M ts' t' \<longleftrightarrow> tree_whole M ts t' \<or> t' = t \<and> W"
    if "list_whole M us \<longleftrightarrow> list_whole M (users_of (JObj vs)) \<or> W"
    unfolding p(2) tree_whole_def using that by (auto simp: p(1))
qed

lemma add_point_effect:
  assumes "add_point e (t, acc) fs = Inr fs'" and "plain_users (tenants_of (Some (JObj fs)))"
  defines "ts \<equiv> tenants_of (Some (JObj fs))" and "ts' \<equiv> tenants_of (Some (JObj fs'))"
  shows "listings ts' = listings ts \<and> plain_users ts' \<and> map fst ts' = map fst ts
    \<and> map_of fs' (js ''people'') = map_of fs (js ''people'')
    \<and> (\<forall>M t' a. tree_gives M ts' t' a \<longleftrightarrow> tree_gives M ts t' a \<or> t' = t \<and> M e \<and> (acc = None \<or> acc = Some a))
    \<and> (\<forall>M t'. tree_whole M ts' t' \<longleftrightarrow> tree_whole M ts t' \<or> t' = t \<and> M e \<and> acc = None)"
proof -
  obtain v where v: "map_of ts t = Some v" and obj: "is_obj (Some v)" and tr: "truthy (Some v)"
    using assms(1) unfolding add_point_def Let_def prod.case ts_def[symmetric]
    by (auto split: option.splits if_splits)
  then obtain vs where vs: "v = JObj vs" by (cases v) simp_all
  have pl: "plain_users ts" using assms(2) unfolding ts_def .
  have sp: "spread (member (js ''users'') (Some v)) = users_of v"
    using pl map_of_SomeD[OF v] unfolding plain_users_def by blast
  note step = assms(1)[unfolded add_point_def Let_def prod.case ts_def[symmetric] v option.case if_P[OF obj] sp]
  have r: "ts' = AList.update t (set_field (js ''users'') (JObj us) v) ts"
    "map_of fs' (js ''people'') = map_of fs (js ''people'')"
    if "fs' = set_tenant t (set_field (js ''users'') (JObj us) v) fs" for us
    unfolding ts'_def that by (simp_all add: ts_def)
  have main: "listings ts' = listings ts \<and> plain_users ts' \<and> map fst ts' = map fst ts
    \<and> map_of fs' (js ''people'') = map_of fs (js ''people'')
    \<and> (\<forall>M t' a. tree_gives M ts' t' a \<longleftrightarrow> tree_gives M ts t' a \<or> t' = t \<and> M e \<and> (acc = None \<or> acc = Some a))
    \<and> (\<forall>M t'. tree_whole M ts' t' \<longleftrightarrow> tree_whole M ts t' \<or> t' = t \<and> M e \<and> acc = None)"
    if f: "fs' = set_tenant t (set_field (js ''users'') (JObj us) v) fs"
      and G: "\<And>M a. list_gives M us a \<longleftrightarrow> list_gives M (users_of v) a \<or> M e \<and> (acc = None \<or> acc = Some a)"
      and W: "\<And>M. list_whole M us \<longleftrightarrow> list_whole M (users_of v) \<or> M e \<and> acc = None" for us
  proof -
    have v': "map_of ts t = Some (JObj vs)" using v unfolding vs .
    have ts': "ts' = AList.update t (set_field (js ''users'') (JObj us) (JObj vs)) ts"
      using r(1)[OF f] unfolding vs .
    note rel = relist[OF v' pl, where us = us, folded ts']
    have "\<forall>M t' a. tree_gives M ts' t' a \<longleftrightarrow> tree_gives M ts t' a \<or> t' = t \<and> M e \<and> (acc = None \<or> acc = Some a)"
    proof (intro allI)
      fix M t' a
      show "tree_gives M ts' t' a \<longleftrightarrow> tree_gives M ts t' a \<or> t' = t \<and> M e \<and> (acc = None \<or> acc = Some a)"
        by (rule rel(4)[where G = "\<lambda>a. M e \<and> (acc = None \<or> acc = Some a)"]) (rule G[unfolded vs])
    qed
    moreover have "\<forall>M t'. tree_whole M ts' t' \<longleftrightarrow> tree_whole M ts t' \<or> t' = t \<and> M e \<and> acc = None"
    proof (intro allI)
      fix M t'
      show "tree_whole M ts' t' \<longleftrightarrow> tree_whole M ts t' \<or> t' = t \<and> M e \<and> acc = None"
        by (rule rel(5)[where W = "M e \<and> acc = None"]) (rule W[unfolded vs])
    qed
    ultimately show ?thesis
      using rel(1-3) r(2)[OF f] by blast
  qed
  show ?thesis
  proof (cases acc)
    case None
    have f: "fs' = set_tenant t (set_field (js ''users'') (JObj (AList.update e STAR (users_of v))) v) fs"
      using step tr obj unfolding None by (simp add: ts_def[symmetric] del: truthy.simps)
    show ?thesis
      by (rule main[OF f]) (auto simp: list_give_star None)
  next
    case (Some b)
    show ?thesis
    proof (cases "map_of (users_of v) e = Some STAR")
      case True
      have f: "fs' = set_tenant t (set_field (js ''users'') (JObj (users_of v)) v) fs"
        using step tr obj True unfolding Some by (simp add: ts_def[symmetric] del: truthy.simps split: if_splits)
      have "(e, STAR) \<in> set (users_of v)" using True by (rule map_of_SomeD)
      then have "M e \<Longrightarrow> list_gives M (users_of v) b" for M
        unfolding list_gives_def by (rule bexI[rotated]) simp
      then show ?thesis
        by (intro main[OF f]) (auto simp: Some)
    next
      case False
      have f: "fs' = set_tenant t (set_field (js ''users'')
          (JObj (AList.update e (JArr (set_of (elems (map_of (users_of v) e) @ [JStr b]))) (users_of v))) v) fs"
        using step tr obj False unfolding Some by (simp add: ts_def[symmetric] del: truthy.simps split: if_splits)
      show ?thesis
        by (rule main[OF f]) (auto simp: list_give_one[OF False] Some)
    qed
  qed
qed

text \<open>All the points of one edit.\<close>

definition points_give :: "point list \<Rightarrow> jstr \<Rightarrow> jstr \<Rightarrow> bool" where
  "points_give ps t a \<longleftrightarrow> (t, None) \<in> set ps \<or> (t, Some a) \<in> set ps"

lemma add_points_effect:
  assumes "each (add_point e) ps fs = Inr fs'" and "plain_users (tenants_of (Some (JObj fs)))"
  shows "listings (tenants_of (Some (JObj fs'))) = listings (tenants_of (Some (JObj fs)))
    \<and> map_of fs' (js ''people'') = map_of fs (js ''people'')
    \<and> (\<forall>M t a. tree_gives M (tenants_of (Some (JObj fs'))) t a
          \<longleftrightarrow> tree_gives M (tenants_of (Some (JObj fs))) t a \<or> M e \<and> points_give ps t a)
    \<and> (\<forall>M t. tree_whole M (tenants_of (Some (JObj fs'))) t
          \<longleftrightarrow> tree_whole M (tenants_of (Some (JObj fs))) t \<or> M e \<and> (t, None) \<in> set ps)"
  using assms
proof (induction ps arbitrary: fs)
  case Nil
  then show ?case by (simp add: points_give_def)
next
  case (Cons p ps)
  obtain t0 acc where p: "p = (t0, acc)" by (cases p)
  obtain fs1 where step: "add_point e (t0, acc) fs = Inr fs1" and rest: "each (add_point e) ps fs1 = Inr fs'"
    using Cons.prems(1) unfolding p by (auto split: sum.splits)
  note one = add_point_effect[OF step Cons.prems(2)]
  then have "plain_users (tenants_of (Some (JObj fs1)))" by blast
  note ih = Cons.IH[OF rest this]
  have "\<forall>M t a. tree_gives M (tenants_of (Some (JObj fs'))) t a
      \<longleftrightarrow> tree_gives M (tenants_of (Some (JObj fs))) t a \<or> M e \<and> points_give (p # ps) t a"
    using one ih unfolding p points_give_def by auto
  moreover have "\<forall>M t. tree_whole M (tenants_of (Some (JObj fs'))) t
      \<longleftrightarrow> tree_whole M (tenants_of (Some (JObj fs))) t \<or> M e \<and> (t, None) \<in> set (p # ps)"
    using one ih unfolding p by auto
  ultimately show ?case
    using one ih by simp
qed

lemma tenants_shape_users:
  "tenants_shape ts h = Inr h' \<Longrightarrow> (t, v) \<in> set ts \<Longrightarrow>
     member (js ''users'') (Some v) = None \<or> is_obj (member (js ''users'') (Some v))"
proof (induction ts h rule: tenants_shape.induct)
  case (2 t' v' ts h)
  then obtain h1 where h1: "tenant_shape t' v' h = Inr h1" "tenants_shape ts h1 = Inr h'"
    by (auto split: sum.splits)
  have "member (js ''users'') (Some v') = None \<or> is_obj (member (js ''users'') (Some v'))"
    using h1(1) unfolding tenant_shape_def Let_def by (auto split: if_splits sum.splits option.splits)
  then show ?case using 2 h1 by auto
qed simp

lemma is_obj_cases: "is_obj v \<Longrightarrow> (\<And>fs. v = Some (JObj fs) \<Longrightarrow> P) \<Longrightarrow> P"
  by (cases v rule: is_obj.cases) auto

lemma accepted_plain:
  assumes "assertGrantsShape g = None"
  shows "plain_users (tenants_of g)"
proof -
  obtain h where h: "tenants_shape (tenants_of g) [] = Inr h"
    using assms by (auto simp: assertGrantsShape_def split: sum.splits)
  have "spread (member (js ''users'') (Some v)) = users_of v" if "(t, v) \<in> set (tenants_of g)" for t v
    using tenants_shape_users[OF h that] unfolding users_of_def by (auto elim: is_obj_cases)
  then show ?thesis unfolding plain_users_def by blast
qed

lemma opened:
  assumes "open_grants g = Inr fs"
  shows "tenants_of (Some (JObj fs)) = tenants_of g \<and> map_of fs (js ''people'') = member (js ''people'') g"
proof -
  have nul: "obj (Some JNull) = []" "obj None = []" by simp_all
  show ?thesis
  proof (cases g)
    case None
    then show ?thesis using assms by (auto simp: open_grants_def tenants_of_def)
  next
    case (Some j)
    then show ?thesis
    proof (cases j)
      case JNull
      then show ?thesis using assms Some by (auto simp: open_grants_def tenants_of_def)
    next
      case (JObj fs0)
      show ?thesis
      proof (cases "nullish (map_of fs0 (js ''tenants''))")
        case True
        then have "obj (map_of fs0 (js ''tenants'')) = []"
          by (cases "map_of fs0 (js ''tenants'')") auto
        moreover have "fs = AList.update (js ''tenants'') (JObj []) fs0"
          using assms Some JObj True by (simp add: open_grants_def)
        ultimately show ?thesis
          using Some JObj by (simp add: tenants_of_def update_conv)
      next
        case False
        then show ?thesis using assms Some JObj by (simp add: open_grants_def)
      qed
    qed (use assms in \<open>simp_all add: open_grants_def\<close>)
  qed
qed

lemma closed: "close_grants fs = Inr g' \<Longrightarrow> g' = JObj fs \<and> assertGrantsShape (Some g') = None"
  unfolding close_grants_def by (auto split: option.splits)

lemma tenants_put_people [simp]: "tenants_of (Some (JObj (AList.update (js ''people'') p fs))) = tenants_of (Some (JObj fs))"
  unfolding tenants_of_def member.simps update_conv by simp

text \<open>What a successful \<open>withPerson\<close> is made of.\<close>

lemma withPerson_result:
  assumes "withPerson u g email ps sw setSw = Inr g'"
  obtains fs fs1 where "open_grants g = Inr fs" and "each (add_point (address u email)) ps fs = Inr fs1"
    and "assertGrantsShape (Some g') = None" and "one_address (address u email)"
    and "tenants_of (Some g') = tenants_of (Some (JObj fs1))"
    and "member (js ''people'') (Some g') =
      (if setSw then Some (JObj (AList.update (address u email) (person_switches sw) (spread (map_of fs1 (js ''people'')))))
       else map_of fs1 (js ''people''))"
proof -
  have one: "one_address (address u email)"
    using assms unfolding withPerson_def Let_def by (simp split: if_splits)
  then obtain fs where fs: "open_grants g = Inr fs"
    using assms unfolding withPerson_def Let_def by (auto split: sum.splits)
  then obtain fs1 where fs1: "each (add_point (address u email)) ps fs = Inr fs1"
    using assms one unfolding withPerson_def Let_def by (auto split: sum.splits)
  define fs2 where "fs2 = (if setSw then AList.update (js ''people'')
      (JObj (AList.update (address u email) (person_switches sw) (spread (map_of fs1 (js ''people''))))) fs1 else fs1)"
  have "close_grants fs2 = Inr g'"
    using assms one unfolding withPerson_def Let_def fs sum.case fs1 fs2_def by simp
  note c = closed[OF this]
  have "member (js ''people'') (Some g') =
      (if setSw then Some (JObj (AList.update (address u email) (person_switches sw) (spread (map_of fs1 (js ''people'')))))
       else map_of fs1 (js ''people''))"
    unfolding conjunct1[OF c] fs2_def by (simp add: update_conv)
  moreover have "tenants_of (Some g') = tenants_of (Some (JObj fs1))"
    unfolding conjunct1[OF c] fs2_def by simp
  ultimately show thesis
    using that[OF fs fs1 conjunct2[OF c] one] by blast
qed


lemma same_listings_same_holder:
  "listings ts' = listings ts \<Longrightarrow> map_of (holder_of ts') a = map_of (holder_of ts) a"
  by (simp add: holder_lookup)

text \<open>Company lookup in a tree one organisation at a time.\<close>

lemma listings_lookup:
  "map_of (listings ((t, v) # ts)) a =
     (if a \<in> set (key_list (accounts_of v)) then Some t else map_of (listings ts) a)"
proof -
  have "map_of (map (\<lambda>a. (a, t)) xs) a = (if a \<in> set xs then Some t else None)" for xs
    by (induction xs) auto
  then show ?thesis by (simp add: listings_def map_add_def)
qed

lemma listings_append: "listings (xs @ ys) = listings xs @ listings ys"
  by (simp add: listings_def)

lemma texts_added: "set (texts (set_of (xs @ [JStr a]))) = insert a (set (texts xs))"
  by (auto simp: texts_iff)

lemma key_list_elems: "set (key_list acc) = set (texts (elems acc))"
  by (cases acc rule: elems.cases) auto

lemma accounts_set_accounts [simp]:
  "accounts_of (set_field (js ''accounts'') x (JObj vs)) = Some x"
  unfolding accounts_of_def set_field.simps member.simps update_conv by simp

lemma users_set_accounts [simp]:
  "users_of (set_field (js ''accounts'') x (JObj vs)) = users_of (JObj vs)"
  unfolding users_of_def set_field.simps member.simps update_conv by simp

lemma filed_company:
  assumes v: "map_of ts t = Some (JObj vs)"
    and d: "distinct (map fst (filter (\<lambda>(a, t). a \<noteq> GENERIC) (listings ts')))"
    and ts': "ts' = AList.update t (set_field (js ''accounts'')
      (JArr (set_of (elems (accounts_of (JObj vs)) @ [JStr c]))) (JObj vs)) ts"
  shows "map_of (holder_of ts') a = (if a = c \<and> a \<noteq> GENERIC then Some t else map_of (holder_of ts) a)"
    and "tree_gives M ts' t' a \<longleftrightarrow> tree_gives M ts t' a"
    and "tree_whole M ts' t' \<longleftrightarrow> tree_whole M ts t'"
proof -
  let ?v' = "set_field (js ''accounts'') (JArr (set_of (elems (accounts_of (JObj vs)) @ [JStr c]))) (JObj vs)"
  obtain pre post where p: "ts = pre @ (t, JObj vs) # post" "ts' = pre @ (t, ?v') # post"
    using update_split[OF v] unfolding ts' by blast
  have keys: "set (key_list (accounts_of ?v')) = insert c (set (key_list (accounts_of (JObj vs))))"
    by (simp add: texts_added key_list_elems)
  have pre: "map_of (listings pre) c = None" if "c \<noteq> GENERIC"
  proof (rule ccontr)
    assume "map_of (listings pre) c \<noteq> None"
    then have "c \<in> fst ` set (filter (\<lambda>(a, t). a \<noteq> GENERIC) (listings pre))"
      using that by (force dest: map_of_SomeD)
    moreover have "(c, t) \<in> set (filter (\<lambda>(a, t). a \<noteq> GENERIC) (listings ((t, ?v') # post)))"
      using keys that by (simp add: listings_def image_iff)
    then have "c \<in> fst ` set (filter (\<lambda>(a, t). a \<noteq> GENERIC) (listings ((t, ?v') # post)))"
      by force
    ultimately show False
      using d unfolding p(2) listings_append[of pre] filter_append map_append distinct_append set_map by blast
  qed
  show "map_of (holder_of ts') a = (if a = c \<and> a \<noteq> GENERIC then Some t else map_of (holder_of ts) a)"
    unfolding p holder_lookup listings_append map_of_append map_add_def listings_lookup keys
    using pre by (auto split: option.splits)
  show "tree_gives M ts' t' a \<longleftrightarrow> tree_gives M ts t' a"
    unfolding p tree_gives_def by auto
  show "tree_whole M ts' t' \<longleftrightarrow> tree_whole M ts t'"
    unfolding p tree_whole_def by auto
qed

lemma filed_holder_only:
  assumes v: "map_of ts t = Some (JObj vs)"
    and d: "distinct (map fst (filter (\<lambda>(a, t). a \<noteq> GENERIC) (listings ts')))"
    and ts': "ts' = AList.update t (set_field (js ''accounts'')
      (JArr (set_of (elems (accounts_of (JObj vs)) @ [JStr c]))) (JObj vs)) ts"
    and h: "map_of (holder_of ts) c = Some t'" "c \<noteq> GENERIC"
  shows "t' = t"
proof -
  let ?v' = "set_field (js ''accounts'') (JArr (set_of (elems (accounts_of (JObj vs)) @ [JStr c]))) (JObj vs)"
  obtain pre post where p: "ts = pre @ (t, JObj vs) # post" "ts' = pre @ (t, ?v') # post"
    using update_split[OF v] unfolding ts' by blast
  have keys: "set (key_list (accounts_of ?v')) = insert c (set (key_list (accounts_of (JObj vs))))"
    by (simp add: texts_added key_list_elems)
  have "(c, t) \<in> set (listings ts')"
    unfolding p(2) listings_iff using keys by auto
  then have ct: "(c, t) \<in> set (filter (\<lambda>(a, t). a \<noteq> GENERIC) (listings ts'))"
    using h(2) by simp
  obtain w where "(t', w) \<in> set ts" "c \<in> set (key_list (accounts_of w))"
    using holder_listed[OF h(1)] by blast
  then have "(c, t') \<in> set (listings ts')"
    unfolding p listings_iff using keys by auto
  then have "(c, t') \<in> set (filter (\<lambda>(a, t). a \<noteq> GENERIC) (listings ts'))"
    using h(2) by simp
  then show ?thesis
    using eq_key_imp_eq_value[OF d _ ct] by blast
qed

lemma organisation_key_parts:
  "\<exists>parts. parts \<noteq> [] \<and> list_all (\<lambda>t. t \<noteq> [] \<and> list_all org_char t) parts \<and> organisation_key u n = join [45] parts"
proof -
  let ?ts = "tokens org_char (filter (\<lambda>c. c < 768 \<or> 879 < c) (nfkd u (to_lower u n)))"
  show ?thesis
  proof (cases "join [45] ?ts = []")
    case True
    then have "organisation_key u n = join [45] [js ''organisation'']"
      by (simp add: organisation_key_def)
    moreover have "list_all (\<lambda>t. t \<noteq> [] \<and> list_all org_char t) [js ''organisation'']"
      by (simp add: js_Cons js_Nil org_char_def is_lower_def)
    ultimately show ?thesis by blast
  next
    case False
    then have "organisation_key u n = join [45] ?ts" and "?ts \<noteq> []"
      by (auto simp: organisation_key_def Let_def)
    moreover have "list_all (\<lambda>t. t \<noteq> [] \<and> list_all org_char t) ?ts"
      by (simp add: list_all_iff tokens_ok[unfolded list_all_iff])
    ultimately show ?thesis by blast
  qed
qed

section \<open>Removing an address\<close>

text \<open>An address is written one way in a table: no two keys that differ in case only.\<close>

definition one_spelling :: "unicode \<Rightarrow> jstr \<Rightarrow> fields \<Rightarrow> bool" where
  "one_spelling u e us \<longleftrightarrow> distinct (map fst us)
     \<and> (\<forall>k \<in> set (map fst us). \<forall>k' \<in> set (map fst us). to_lower u k = e \<longrightarrow> to_lower u k' = e \<longrightarrow> k = k')"

definition tree_once :: "unicode \<Rightarrow> jstr \<Rightarrow> (jstr \<times> json) list \<Rightarrow> bool" where
  "tree_once u e ts \<longleftrightarrow> distinct (map fst ts) \<and> plain_users ts
     \<and> (\<forall>(t, v)\<in>set ts. one_spelling u e (users_of v))"

lemma key_in_None: "key_in u e table = None \<Longrightarrow> (k, x) \<in> set (spread table) \<Longrightarrow> to_lower u k \<noteq> e"
  unfolding key_in_def find_None_iff by force

lemma key_in_Some: "key_in u e table = Some k \<Longrightarrow> k \<in> set (map fst (spread table)) \<and> to_lower u k = e"
  unfolding key_in_def by (rule find_in)

lemma one_spelling_key:
  assumes "one_spelling u e us" and "k \<in> set (map fst us)" and "to_lower u k = e"
    and "(k', x) \<in> set us"
  shows "to_lower u k' = e \<longleftrightarrow> k' = k"
proof -
  have "k' \<in> set (map fst us)" using assms(4) by force
  then show ?thesis using assms(1-3) unfolding one_spelling_def by blast
qed

lemma spelled_gives:
  assumes "one_spelling u e us" and "to_lower u k = e" and "map_of us k = Some x"
  shows "list_gives (\<lambda>p. to_lower u p = e) us a \<longleftrightarrow> names x a"
proof -
  have k: "(k, x) \<in> set us" "k \<in> set (map fst us)" using map_of_SomeD[OF assms(3)] by force+
  have d: "distinct (map fst us)" using assms(1) unfolding one_spelling_def by blast
  have "(p, acc) \<in> set us \<and> to_lower u p = e \<longleftrightarrow> p = k \<and> acc = x" for p acc
    using one_spelling_key[OF assms(1) k(2) assms(2), of p acc] eq_key_imp_eq_value[OF d, of k] k(1) assms(2) by blast
  note h = this
  have "list_gives (\<lambda>p. to_lower u p = e) us a \<longleftrightarrow> (\<exists>p acc. ((p, acc) \<in> set us \<and> to_lower u p = e) \<and> names acc a)"
    unfolding list_gives_def by blast
  then show ?thesis unfolding h by simp
qed

lemma delete_only:
  assumes "one_spelling u e us" and "k \<in> set (map fst us)" and "to_lower u k = e"
  shows "AList.delete k us = filter (\<lambda>(p, a). to_lower u p \<noteq> e) us"
  unfolding AList.delete_eq by (rule filter_cong) (use one_spelling_key[OF assms] in auto)

lemma one_spelling_filter: "one_spelling u e us \<Longrightarrow> one_spelling u e (filter P us)"
  unfolding one_spelling_def by (auto simp: distinct_map_filter)

lemma one_spelling_update:
  "one_spelling u e us \<Longrightarrow> k \<in> set (map fst us) \<Longrightarrow> one_spelling u e (AList.update k x us)"
  unfolding one_spelling_def by (simp add: distinct_update update_keys)

text \<open>Exchanging the guest list of one organisation in a tree whose organisations have different names.\<close>

lemma swap_tenant:
  assumes v: "map_of ts t = Some (JObj vs)" and once: "tree_once u e ts"
    and us: "one_spelling u e us"
    and rest: "\<And>p a. to_lower u p \<noteq> e \<Longrightarrow> (p, a) \<in> set us \<longleftrightarrow> (p, a) \<in> set (users_of (JObj vs))"
    and G: "\<And>a. list_gives (\<lambda>p. to_lower u p = e) us a
          \<longleftrightarrow> list_gives (\<lambda>p. to_lower u p = e) (users_of (JObj vs)) a \<and> \<not> G a"
  defines "ts' \<equiv> AList.update t (set_field (js ''users'') (JObj us) (JObj vs)) ts"
  shows "tree_once u e ts' \<and> listings ts' = listings ts
    \<and> (\<forall>t' a. tree_gives (\<lambda>p. to_lower u p = e) ts' t' a
          \<longleftrightarrow> tree_gives (\<lambda>p. to_lower u p = e) ts t' a \<and> \<not> (t' = t \<and> G a))
    \<and> (\<forall>x d t' p a. to_lower u p \<noteq> e \<longrightarrow>
          ((t', p, a) \<in> set (rows (to_lower u) x d ts') \<longleftrightarrow> (t', p, a) \<in> set (rows (to_lower u) x d ts)))"
proof -
  let ?v' = "set_field (js ''users'') (JObj us) (JObj vs)"
  have d: "distinct (map fst ts)" and pl: "plain_users ts"
    using once unfolding tree_once_def by blast+
  note rel = relist[OF v pl, where us = us, folded ts'_def]
  have ent: "(t', w) \<in> set ts' \<longleftrightarrow> (if t' = t then w = ?v' else (t', w) \<in> set ts)" for t' w
    unfolding ts'_def by (rule update_entries[OF d])
  have old: "(t, w) \<in> set ts \<longleftrightarrow> w = JObj vs" for w
    using v d by (metis map_of_eq_Some_iff option.inject)
  have "one_spelling u e (users_of w)" if "(t', w) \<in> set ts'" for t' w
    using that once us ent unfolding tree_once_def by (cases "t' = t") auto
  then have "tree_once u e ts'"
    using rel(2,3) d unfolding tree_once_def by auto
  moreover have "tree_gives (\<lambda>p. to_lower u p = e) ts' t' a
      \<longleftrightarrow> tree_gives (\<lambda>p. to_lower u p = e) ts t' a \<and> \<not> (t' = t \<and> G a)" for t' a
  proof (cases "t' = t")
    case True
    then show ?thesis unfolding tree_gives_def ent using old G by simp
  next
    case False
    then show ?thesis unfolding tree_gives_def ent by simp
  qed
  moreover have "(t', p, a) \<in> set (rows (to_lower u) x d ts') \<longleftrightarrow> (t', p, a) \<in> set (rows (to_lower u) x d ts)"
    if "to_lower u p \<noteq> e" for x d t' p a
  proof (cases "t' = t")
    case True
    then show ?thesis unfolding rows_iff users_of_def[symmetric] ent using old rest[OF that] by simp
  next
    case False
    then show ?thesis unfolding rows_iff users_of_def[symmetric] ent by simp
  qed
  ultimately show ?thesis using rel(1) by blast
qed

lemma drop_point_effect:
  assumes "drop_point u e (t, acc) fs = Inr fs'" and "tree_once u e (tenants_of (Some (JObj fs)))"
  defines "ts \<equiv> tenants_of (Some (JObj fs))" and "ts' \<equiv> tenants_of (Some (JObj fs'))"
  shows "map_of fs' (js ''people'') = map_of fs (js ''people'')
    \<and> (tree_once u e ts' \<and> listings ts' = listings ts
    \<and> (\<forall>t' a. tree_gives (\<lambda>p. to_lower u p = e) ts' t' a
          \<longleftrightarrow> tree_gives (\<lambda>p. to_lower u p = e) ts t' a \<and> \<not> (t' = t \<and> (acc = None \<or> acc = Some a)))
    \<and> (\<forall>x d t' p a. to_lower u p \<noteq> e \<longrightarrow>
          ((t', p, a) \<in> set (rows (to_lower u) x d ts') \<longleftrightarrow> (t', p, a) \<in> set (rows (to_lower u) x d ts))))"
proof -
  let ?P = "\<lambda>p. to_lower u p = e"
  obtain v where v: "map_of ts t = Some v" and tr: "truthy (Some v)"
    using assms(1) unfolding drop_point_def Let_def prod.case ts_def[symmetric]
    by (auto split: option.splits if_splits)
  have once: "tree_once u e ts" using assms(2) unfolding ts_def .
  have sp: "spread (member (js ''users'') (Some v)) = users_of v"
    and one: "one_spelling u e (users_of v)"
    using once map_of_SomeD[OF v] unfolding tree_once_def plain_users_def by blast+
  have only: "v' = v" if "(t, v') \<in> set ts" for v'
    using once that v unfolding tree_once_def by (metis map_of_is_SomeI option.inject)
  note step = assms(1)[unfolded drop_point_def Let_def prod.case ts_def[symmetric] v option.case]
  show ?thesis
  proof (cases "key_in u e (member (js ''users'') (Some v))")
    case None
    then have same: "fs' = fs" using step tr by simp
    have "\<not> list_gives ?P (users_of v) a" for a
      using key_in_None[OF None] unfolding sp list_gives_def by blast
    then have "\<not> tree_gives ?P ts t a" for a
      unfolding tree_gives_def using only by blast
    then show ?thesis
      using once unfolding same ts'_def ts_def by blast
  next
    case (Some k)
    have k: "k \<in> set (map fst (users_of v))" "to_lower u k = e"
      using key_in_Some[OF Some] unfolding sp by blast+
    then obtain vs where vs: "v = JObj vs"
      by (cases v) (simp_all add: users_of_def)
    have d: "distinct (map fst (users_of v))" using one unfolding one_spelling_def by blast
    obtain have' where have': "map_of (users_of v) k = Some have'"
      using k(1) by (metis map_of_eq_None_iff list.set_map option.exhaust)
    have gk: "list_gives ?P (users_of v) a \<longleftrightarrow> names have' a" for a
      by (rule spelled_gives[OF one k(2) have'])
    have main: ?thesis
      if f: "fs' = set_tenant t (set_field (js ''users'') (JObj us) v) fs" and us: "one_spelling u e us"
        and rest: "\<And>p a. to_lower u p \<noteq> e \<Longrightarrow> (p, a) \<in> set us \<longleftrightarrow> (p, a) \<in> set (users_of v)"
        and G: "\<And>a. list_gives ?P us a \<longleftrightarrow> list_gives ?P (users_of v) a \<and> \<not> (acc = None \<or> acc = Some a)" for us
    proof -
      have "ts' = AList.update t (set_field (js ''users'') (JObj us) (JObj vs)) ts"
        unfolding ts'_def f ts_def vs by simp
      then show ?thesis
        using swap_tenant[OF v[unfolded vs] once us rest[unfolded vs] G[unfolded vs]] unfolding f by simp
    qed
    have del: ?thesis
      if f: "fs' = set_tenant t (set_field (js ''users'') (JObj (AList.delete k (users_of v))) v) fs"
        and all: "\<And>a. names have' a \<Longrightarrow> acc = None \<or> acc = Some a"
    proof (rule main[OF f])
      show "one_spelling u e (AList.delete k (users_of v))"
        unfolding delete_only[OF one k] by (rule one_spelling_filter[OF one])
      show "(p, a) \<in> set (AList.delete k (users_of v)) \<longleftrightarrow> (p, a) \<in> set (users_of v)" if "to_lower u p \<noteq> e" for p a
        unfolding delete_only[OF one k] using that by simp
      show "list_gives ?P (AList.delete k (users_of v)) a
          \<longleftrightarrow> list_gives ?P (users_of v) a \<and> \<not> (acc = None \<or> acc = Some a)" for a
        unfolding gk using all[of a] unfolding delete_only[OF one k] list_gives_def by auto
    qed
    show ?thesis
    proof (cases acc)
      case None
      have "fs' = set_tenant t (set_field (js ''users'') (JObj (AList.delete k (users_of v))) v) fs"
        using step tr unfolding None Some sp option.case by (simp del: truthy.simps)
      then show ?thesis by (rule del) (simp add: None)
    next
      case acc: (Some b)
      have ns: "have' \<noteq> STAR" and
        st: "fs' = set_tenant t (set_field (js ''users'') (JObj
          (if filter (\<lambda>x. x \<noteq> JStr b) (elems (Some have')) \<noteq> []
           then AList.update k (JArr (filter (\<lambda>x. x \<noteq> JStr b) (elems (Some have')))) (users_of v)
           else AList.delete k (users_of v))) v) fs"
        using step tr unfolding acc Some sp have' option.case
        by (simp_all del: truthy.simps elems.simps split: if_splits)
      have left: "names (JArr (filter (\<lambda>x. x \<noteq> JStr b) (elems (Some have')))) a \<longleftrightarrow> names have' a \<and> a \<noteq> b" for a
        using ns by (cases have') (auto simp: names_def texts_iff STAR_def)
      show ?thesis
      proof (cases "filter (\<lambda>x. x \<noteq> JStr b) (elems (Some have')) = []")
        case True
        have "\<not> names (JArr []) a" for a by (simp add: names_def)
        then have "names have' a \<Longrightarrow> a = b" for a using left[of a] unfolding True by blast
        then show ?thesis
          using st True by (intro del) (auto simp: acc)
      next
        case False
        let ?us = "AList.update k (JArr (filter (\<lambda>x. x \<noteq> JStr b) (elems (Some have')))) (users_of v)"
        show ?thesis
        proof (rule main)
          show "fs' = set_tenant t (set_field (js ''users'') (JObj ?us) v) fs"
            using st False by simp
          show "one_spelling u e ?us"
            by (rule one_spelling_update[OF one k(1)])
          show "(p, a) \<in> set ?us \<longleftrightarrow> (p, a) \<in> set (users_of v)" if "to_lower u p \<noteq> e" for p a
            unfolding update_entries[OF d] using that k(2) by auto
          have "list_gives ?P ?us a \<longleftrightarrow> names (JArr (filter (\<lambda>x. x \<noteq> JStr b) (elems (Some have')))) a" for a
            by (rule spelled_gives[OF one_spelling_update[OF one k(1)] k(2)]) (simp add: update_conv)
          then show "list_gives ?P ?us a
              \<longleftrightarrow> list_gives ?P (users_of v) a \<and> \<not> (acc = None \<or> acc = Some a)" for a
            unfolding gk left acc by auto
        qed
      qed
    qed
  qed
qed

lemma drop_points_effect:
  assumes "each (drop_point u e) ps fs = Inr fs'" and "tree_once u e (tenants_of (Some (JObj fs)))"
  shows "map_of fs' (js ''people'') = map_of fs (js ''people'')
    \<and> listings (tenants_of (Some (JObj fs'))) = listings (tenants_of (Some (JObj fs)))
    \<and> (\<forall>t a. tree_gives (\<lambda>p. to_lower u p = e) (tenants_of (Some (JObj fs'))) t a
          \<longleftrightarrow> tree_gives (\<lambda>p. to_lower u p = e) (tenants_of (Some (JObj fs))) t a \<and> \<not> points_give ps t a)
    \<and> (\<forall>x d t p a. to_lower u p \<noteq> e \<longrightarrow>
          ((t, p, a) \<in> set (rows (to_lower u) x d (tenants_of (Some (JObj fs'))))
           \<longleftrightarrow> (t, p, a) \<in> set (rows (to_lower u) x d (tenants_of (Some (JObj fs))))))"
  using assms
proof (induction ps arbitrary: fs)
  case Nil
  then show ?case by (simp add: points_give_def)
next
  case (Cons p ps)
  obtain t0 acc where p: "p = (t0, acc)" by (cases p)
  obtain fs1 where step: "drop_point u e (t0, acc) fs = Inr fs1" and rest: "each (drop_point u e) ps fs1 = Inr fs'"
    using Cons.prems(1) unfolding p by (auto split: sum.splits)
  note one = drop_point_effect[OF step Cons.prems(2)]
  then have "tree_once u e (tenants_of (Some (JObj fs1)))" by blast
  note ih = Cons.IH[OF rest this]
  have "points_give (p # ps) t a \<longleftrightarrow> t = t0 \<and> (acc = None \<or> acc = Some a) \<or> points_give ps t a" for t a
    unfolding p points_give_def by auto
  then show ?case using one ih by simp
qed

lemma strike_user_users:
  assumes "spread (member (js ''users'') (Some v)) = users_of v" and "one_spelling u e (users_of v)"
  shows "users_of (strike_user u e v) = filter (\<lambda>(p, a). to_lower u p \<noteq> e) (users_of v)
    \<and> accounts_of (strike_user u e v) = accounts_of v"
proof (cases "key_in u e (member (js ''users'') (Some v))")
  case None
  have "\<forall>(p, a)\<in>set (users_of v). to_lower u p \<noteq> e"
    using key_in_None[OF None] unfolding assms(1) by blast
  then have "filter (\<lambda>(p, a). to_lower u p \<noteq> e) (users_of v) = users_of v"
    by (simp add: filter_id_conv)
  then show ?thesis unfolding strike_user_def Let_def None by simp
next
  case (Some k)
  have k: "k \<in> set (map fst (users_of v))" "to_lower u k = e"
    using key_in_Some[OF Some] unfolding assms(1) by blast+
  then obtain vs where vs: "v = JObj vs"
    by (cases v) (simp_all add: users_of_def)
  have "strike_user u e v
      = set_field (js ''users'') (JObj (filter (\<lambda>(p, a). to_lower u p \<noteq> e) (users_of v))) v"
    unfolding strike_user_def Let_def Some option.case assms(1) delete_only[OF assms(2) k] ..
  then show ?thesis unfolding vs by simp
qed

lemma strike_tenants_tenants:
  "tenants_of (Some (JObj (strike_tenants u e fs)))
     = map (\<lambda>(t, v). (t, strike_user u e v)) (tenants_of (Some (JObj fs)))
   \<and> map_of (strike_tenants u e fs) (js ''people'') = map_of fs (js ''people'')"
proof (cases "map_of fs (js ''tenants'')")
  case None
  then show ?thesis by (simp add: strike_tenants_def tenants_of_def)
next
  case (Some j)
  then show ?thesis by (cases j) (simp_all add: strike_tenants_def tenants_of_def update_conv)
qed

lemma strike_person_people:
  assumes "map_of fs (js ''people'') = None \<or> is_obj (map_of fs (js ''people''))"
    and "one_spelling u e (obj (map_of fs (js ''people'')))"
  shows "obj (map_of (strike_person u e fs) (js ''people''))
     = filter (\<lambda>(k, x). to_lower u k \<noteq> e) (obj (map_of fs (js ''people'')))
   \<and> tenants_of (Some (JObj (strike_person u e fs))) = tenants_of (Some (JObj fs))"
proof -
  have sp: "spread (map_of fs (js ''people'')) = obj (map_of fs (js ''people''))"
    using assms(1) by (auto elim: is_obj_cases)
  show ?thesis
  proof (cases "key_in u e (map_of fs (js ''people''))")
    case None
    have "\<forall>(k, x)\<in>set (obj (map_of fs (js ''people''))). to_lower u k \<noteq> e"
      using key_in_None[OF None] unfolding sp by blast
    then show ?thesis unfolding strike_person_def Let_def None by (simp add: filter_id_conv)
  next
    case (Some k)
    have k: "k \<in> set (map fst (obj (map_of fs (js ''people''))))" "to_lower u k = e"
      using key_in_Some[OF Some] unfolding sp by blast+
    show ?thesis
      unfolding strike_person_def Let_def Some option.case sp delete_only[OF assms(2) k] by (simp add: update_conv)
  qed
qed

lemma accepted_people:
  "assertGrantsShape g = None \<Longrightarrow> member (js ''people'') g = None \<or> is_obj (member (js ''people'') g)"
  unfolding assertGrantsShape_def Let_def by (auto split: sum.splits if_splits)

text \<open>The files in which an address is written one way: names of organisations differ, and no guest list and
  no \<open>people\<close> section has two keys that differ in case only.\<close>

definition address_once :: "unicode \<Rightarrow> jstr \<Rightarrow> json option \<Rightarrow> bool" where
  "address_once u e g \<longleftrightarrow> distinct (map fst (tenants_of g))
     \<and> (\<forall>(t, v)\<in>set (tenants_of g). one_spelling u e (users_of v))
     \<and> one_spelling u e (obj (member (js ''people'') g))"

lemma once_tree: "assertGrantsShape g = None \<Longrightarrow> address_once u e g \<Longrightarrow> tree_once u e (tenants_of g)"
  unfolding address_once_def tree_once_def using accepted_plain by blast

lemma find_updated_key:
  assumes "to_lower u e = e" and "\<And>k. k \<in> set (map fst us) \<Longrightarrow> to_lower u k = e \<longleftrightarrow> k = e"
  shows "List.find (\<lambda>k. to_lower u k = y) (map fst (AList.update e s us)) =
    (if y = e then Some e else List.find (\<lambda>k. to_lower u k = y) (map fst us))"
  using assms(2)
proof (induction us)
  case Nil
  then show ?case using assms(1) by simp
next
  case (Cons x us)
  obtain k v where "x = (k, v)" by (cases x)
  then show ?case using Cons assms(1) by auto
qed

section \<open>Properties\<close>


text \<open>Filing a company under an organisation takes nothing from anyone and gives the company only to those
  the organisation's own guest list reaches: every other company is seen by exactly those who saw it, and the
  company filed by exactly those who have the organisation whole or are listed under it by that name. If
  another organisation held the company, the edit is refused.\<close>

theorem withCompany_exact:
  assumes "withCompany g t c = Inr g'"
  shows "assertGrantsShape (Some g') = None
    \<and> (\<forall>who a. granted (to_lower u) who (Some g') a \<longleftrightarrow>
        (if a = c \<and> a \<noteq> GENERIC
         then \<exists>d. email_domain (to_lower u (js_trim who)) = Some d
            \<and> tree_gives (matches (to_lower u) (to_lower u (js_trim who)) d) (tenants_of g) t a
         else granted (to_lower u) who g a))
    \<and> (c = GENERIC \<or> (\<forall>t'. map_of (holder_of (tenants_of g)) c = Some t' \<longrightarrow> t' = t))
    \<and> member (js ''people'') (Some g') = member (js ''people'') g"
proof -
  obtain fs where g: "g = Some (JObj fs)"
    using assms unfolding withCompany_def by (auto split: option.splits json.splits)
  obtain v where v: "map_of (tenants_of g) t = Some v" and ob: "is_obj (Some v)" and tr: "truthy (Some v)"
    using assms unfolding withCompany_def g by (auto split: option.splits if_splits)
  obtain vs where vs: "v = JObj vs" using ob by (cases v) simp_all
  let ?v' = "set_field (js ''accounts'') (JArr (set_of (elems (accounts_of v) @ [JStr c]))) v"
  have "close_grants (set_tenant t ?v' fs) = Inr g'"
    using assms ob tr v unfolding withCompany_def g by simp
  note cl = closed[OF this]
  have ts': "tenants_of (Some g') = AList.update t ?v' (tenants_of g)"
    unfolding conjunct1[OF cl] g by simp
  have people: "member (js ''people'') (Some g') = member (js ''people'') g"
    unfolding conjunct1[OF cl] g by simp
  note filed = filed_company[OF v[unfolded vs] shape_result(1)[OF conjunct2[OF cl]] ts'[unfolded vs]]
  have first: "map_of (holder_of (tenants_of g)) c = Some t' \<Longrightarrow> c \<noteq> GENERIC \<Longrightarrow> t' = t" for t'
    using filed_holder_only[OF v[unfolded vs] shape_result(1)[OF conjunct2[OF cl]] ts'[unfolded vs]] by blast
  have "granted (to_lower u) who (Some g') a \<longleftrightarrow>
        (if a = c \<and> a \<noteq> GENERIC
         then \<exists>d. email_domain (to_lower u (js_trim who)) = Some d
            \<and> tree_gives (matches (to_lower u) (to_lower u (js_trim who)) d) (tenants_of g) t a
         else granted (to_lower u) who g a)" for who a
    unfolding granted_tree filed by auto
  then show ?thesis
    using conjunct2[OF cl] people first by blast
qed

text \<open>Adding an organisation changes nobody's access: its key is new, made of lower-case letters, digits and
  single hyphens between them, and everybody sees exactly the companies and holds exactly the organisations
  they did.\<close>

theorem withOrganisation_fresh:
  assumes "assertGrantsShape g = None" and "withOrganisation u g nm = Inr (g', key)"
  shows "assertGrantsShape (Some g') = None
    \<and> map_of (tenants_of g) key = None \<and> key \<in> set (map fst (tenants_of (Some g')))
    \<and> (\<exists>parts. parts \<noteq> [] \<and> list_all (\<lambda>t. t \<noteq> [] \<and> list_all org_char t) parts \<and> key = join [45] parts)
    \<and> (\<forall>who a. granted (to_lower u) who (Some g') a \<longleftrightarrow> granted (to_lower u) who g a)
    \<and> (\<forall>who t. grants_whole_org (to_lower u) who (Some g') t \<longleftrightarrow> grants_whole_org (to_lower u) who g t)"
proof -
  let ?n = "js_trim (string_or nm [])"
  let ?v = "JObj [(js ''name'', JStr ?n), (js ''accounts'', JArr []), (js ''users'', JObj [])]"
  obtain fs where fs: "open_grants g = Inr fs" and n: "?n \<noteq> []"
    using assms(2) unfolding withOrganisation_def Let_def by (auto split: if_splits sum.splits)
  have ts: "tenants_of (Some (JObj fs)) = tenants_of g" using opened[OF fs] by blast
  note step = assms(2)[unfolded withOrganisation_def Let_def fs sum.case if_not_P[OF n] ts]
  have key: "key = organisation_key u ?n" and fal: "\<not> truthy (map_of (tenants_of g) key)"
    and cl: "close_grants (set_tenant key ?v fs) = Inr g'"
    using step by (auto split: if_splits sum.splits)
  have none: "map_of (tenants_of g) key = None"
  proof (cases "map_of (tenants_of g) key")
    case (Some v)
    then have "tenant_ok v" using shape_result(2)[OF assms(1)] map_of_SomeD by fast
    then have "is_obj (Some v)" unfolding tenant_ok_def by blast
    then show ?thesis using fal unfolding Some by (cases v) simp_all
  qed
  have ts': "tenants_of (Some g') = tenants_of g @ [(key, ?v)]"
    unfolding conjunct1[OF closed[OF cl]] by (simp add: ts update_fresh[OF none])
  have us: "users_of ?v = []" "accounts_of ?v = Some (JArr [])"
    by (simp_all add: users_of_def accounts_of_def)
  have lst: "listings (tenants_of (Some g')) = listings (tenants_of g)"
    unfolding ts' listings_append by (simp add: listings_def us(2))
  have gv: "tree_gives M (tenants_of (Some g')) t a \<longleftrightarrow> tree_gives M (tenants_of g) t a" for M t a
    unfolding ts' tree_gives_def by (auto simp: us(1) list_gives_def)
  have wh: "tree_whole M (tenants_of (Some g')) t \<longleftrightarrow> tree_whole M (tenants_of g) t" for M t
    unfolding ts' tree_whole_def by (auto simp: us(1) list_whole_def)
  have "\<exists>parts. parts \<noteq> [] \<and> list_all (\<lambda>t. t \<noteq> [] \<and> list_all org_char t) parts \<and> key = join [45] parts"
    unfolding key by (rule organisation_key_parts)
  moreover have "granted (to_lower u) who (Some g') a \<longleftrightarrow> granted (to_lower u) who g a" for who a
    unfolding granted_tree gv same_listings_same_holder[OF lst] ..
  moreover have "grants_whole_org (to_lower u) who (Some g') t \<longleftrightarrow> grants_whole_org (to_lower u) who g t" for who t
    unfolding whole_tree wh ..
  moreover have "key \<in> set (map fst (tenants_of (Some g')))" unfolding ts' by simp
  ultimately show ?thesis
    using conjunct2[OF closed[OF cl]] none by blast
qed

text \<open>Removing a person from the install removes every entry of their address and nothing else: over a file
  the product loads that writes the address one way, the guest-list rows left are exactly those under other
  keys, so are the entries left under \<open>people\<close>, and every organisation holds the companies it held.\<close>

theorem withoutPerson_all_exact:
  assumes "assertGrantsShape g = None" and "address_once u (address u email) g"
    and "withoutPerson u g email ps True = Inr g'"
  shows "assertGrantsShape (Some g') = None
    \<and> listings (tenants_of (Some g')) = listings (tenants_of g)
    \<and> (\<forall>x d t p a. (t, p, a) \<in> set (rows (to_lower u) x d (tenants_of (Some g')))
        \<longleftrightarrow> (t, p, a) \<in> set (rows (to_lower u) x d (tenants_of g)) \<and> to_lower u p \<noteq> address u email)
    \<and> obj (member (js ''people'') (Some g'))
        = filter (\<lambda>(k, x). to_lower u k \<noteq> address u email) (obj (member (js ''people'') g))"
proof -
  let ?e = "address u email"
  obtain fs where fs: "open_grants g = Inr fs" and e: "?e \<noteq> []"
    using assms(3) unfolding withoutPerson_def Let_def by (auto split: if_splits sum.splits)
  note o = opened[OF fs]
  let ?fs' = "strike_person u ?e (strike_tenants u ?e fs)"
  have "close_grants ?fs' = Inr g'"
    using assms(3) e unfolding withoutPerson_def Let_def fs sum.case by simp
  note c = closed[OF this]
  have ppl: "map_of (strike_tenants u ?e fs) (js ''people'') = member (js ''people'') g"
    using strike_tenants_tenants o by metis
  have once: "one_spelling u ?e (obj (member (js ''people'') g))"
    and tr: "tree_once u ?e (tenants_of g)"
    using assms(2) once_tree[OF assms(1,2)] unfolding address_once_def by blast+
  note sp = strike_person_people[of "strike_tenants u ?e fs" u ?e, unfolded ppl, OF accepted_people[OF assms(1)] once]
  have ts': "tenants_of (Some g') = map (\<lambda>(t, v). (t, strike_user u ?e v)) (tenants_of g)"
    unfolding conjunct1[OF c] using sp strike_tenants_tenants o by metis
  have us: "users_of (strike_user u ?e v) = filter (\<lambda>(p, a). to_lower u p \<noteq> ?e) (users_of v)
      \<and> accounts_of (strike_user u ?e v) = accounts_of v" if "(t, v) \<in> set (tenants_of g)" for t v
    using that tr unfolding tree_once_def plain_users_def by (intro strike_user_users) blast+
  have "listings (tenants_of (Some g')) = listings (tenants_of g)"
    unfolding ts' listings_def using us by (auto simp: comp_def intro!: arg_cong[where f = concat])
  moreover have "(t, p, a) \<in> set (rows (to_lower u) x d (tenants_of (Some g')))
      \<longleftrightarrow> (t, p, a) \<in> set (rows (to_lower u) x d (tenants_of g)) \<and> to_lower u p \<noteq> ?e" for x d t p a
  proof -
    have "(\<exists>w. (t, w) \<in> set (tenants_of (Some g')) \<and> (p, a) \<in> set (users_of w))
        \<longleftrightarrow> (\<exists>v. (t, v) \<in> set (tenants_of g) \<and> (p, a) \<in> set (users_of (strike_user u ?e v)))"
      unfolding ts' by auto
    also have "\<dots> \<longleftrightarrow> (\<exists>v. (t, v) \<in> set (tenants_of g) \<and> (p, a) \<in> set (users_of v)) \<and> to_lower u p \<noteq> ?e"
      using us by fastforce
    finally show ?thesis unfolding rows_iff users_of_def[symmetric] by blast
  qed
  moreover have "obj (member (js ''people'') (Some g'))
      = filter (\<lambda>(k, x). to_lower u k \<noteq> ?e) (obj (member (js ''people'') g))"
    unfolding conjunct1[OF c] member.simps using sp by blast
  ultimately show ?thesis using conjunct2[OF c] by blast
qed

text \<open>Narrowing takes away exactly the points named: over such a file, after \<open>withoutPerson\<close> with points the
  rows of the address give what they gave except the organisations and companies named; rows under other keys,
  the \<open>people\<close> section and what every organisation holds are untouched. A person with access to everything is
  refused, so no narrowing is accepted that would leave them seeing what they saw.\<close>

theorem withoutPerson_narrow_exact:
  assumes "assertGrantsShape g = None" and "address_once u (address u email) g"
    and "withoutPerson u g email ps False = Inr g'"
  shows "assertGrantsShape (Some g') = None
    \<and> member (js ''people'') (Some g') = member (js ''people'') g
    \<and> listings (tenants_of (Some g')) = listings (tenants_of g)
    \<and> (\<forall>t a. tree_gives (\<lambda>p. to_lower u p = address u email) (tenants_of (Some g')) t a
          \<longleftrightarrow> tree_gives (\<lambda>p. to_lower u p = address u email) (tenants_of g) t a \<and> \<not> points_give ps t a)
    \<and> (\<forall>x d t p a. to_lower u p = address u email \<or>
          ((t, p, a) \<in> set (rows (to_lower u) x d (tenants_of (Some g')))
           \<longleftrightarrow> (t, p, a) \<in> set (rows (to_lower u) x d (tenants_of g))))
    \<and> \<not> h_everything (personPoints u (obj g) (Some (JStr (address u email))))"
proof -
  let ?e = "address u email"
  obtain fs where fs: "open_grants g = Inr fs" and e: "?e \<noteq> []"
    using assms(3) unfolding withoutPerson_def Let_def by (auto split: if_splits sum.splits)
  note o = opened[OF fs]
  note step = assms(3)[unfolded withoutPerson_def Let_def if_not_P[OF e] fs sum.case]
  obtain fs1 where fs1: "each (drop_point u ?e) ps fs = Inr fs1" and c: "close_grants fs1 = Inr g'"
    using step by (auto split: if_splits sum.splits)
  have ev: "\<not> h_everything (personPoints u fs (Some (JStr ?e)))"
    using step by (auto split: if_splits)
  have "map_of (obj g) (js ''people'') = member (js ''people'') g"
  proof (cases g)
    case (Some j)
    then show ?thesis by (cases j) auto
  qed simp
  note people = conjunct2[OF o] this
  have same: "h_everything (personPoints u fs x) = h_everything (personPoints u (obj g) x)" for x
    unfolding personPoints_def Let_def people by simp
  note eff = drop_points_effect[OF fs1, unfolded conjunct1[OF o] conjunct2[OF o], OF once_tree[OF assms(1,2)]]
  note g' = closed[OF c]
  have "tenants_of (Some g') = tenants_of (Some (JObj fs1))" "member (js ''people'') (Some g') = map_of fs1 (js ''people'')"
    unfolding conjunct1[OF g'] by simp_all
  then show ?thesis
    using eff conjunct2[OF g'] ev same by simp blast
qed

text \<open>The switches an edit sets are the ones the person is read with: when the address is written one way, the
  entry \<open>resolvePerson\<close> finds after the edit is exactly the one the switches make, everybody else's entry is
  the one it was, and an edit that may not set switches leaves every entry as it was.\<close>

theorem withPerson_switches:
  assumes "assertGrantsShape g = None" and "withPerson u g email ps sw setSw = Inr g'"
    and "to_lower u (address u email) = address u email"
    and "\<forall>(k, x)\<in>set (obj (member (js ''people'') g)). to_lower u k \<noteq> address u email \<or> k = address u email"
  shows "person_entry (to_lower u) x d (Some g') =
    (if setSw \<and> x = address u email then (True, Some (person_switches sw))
     else if setSw \<and> js ''*@'' @ d = address u email
          \<and> \<not> list_ex (\<lambda>(k, v). to_lower u k = x) (obj (member (js ''people'') g))
     then (False, Some (person_switches sw))
     else person_entry (to_lower u) x d g)"
proof -
  let ?e = "address u email" and ?old = "obj (member (js ''people'') g)"
  obtain fs fs1 where fs: "open_grants g = Inr fs"
    and fs1: "each (add_point ?e) ps fs = Inr fs1"
    and pp: "member (js ''people'') (Some g') =
      (if setSw then Some (JObj (AList.update ?e (person_switches sw) (spread (map_of fs1 (js ''people'')))))
       else map_of fs1 (js ''people''))"
    using withPerson_result[OF assms(2)] by metis
  note o = opened[OF fs]
  have "map_of fs1 (js ''people'') = member (js ''people'') g"
    using add_points_effect[OF fs1, unfolded conjunct1[OF o], OF accepted_plain[OF assms(1)]] o by metis
  then have new: "obj (member (js ''people'') (Some g'))
      = (if setSw then AList.update ?e (person_switches sw) ?old else ?old)"
    using accepted_people[OF assms(1)] unfolding pp by (auto elim: is_obj_cases)
  show ?thesis
  proof (cases setSw)
    case False
    then have same: "obj (member (js ''people'') (Some g')) = ?old" using new by simp
    show ?thesis using False unfolding person_entry_def Let_def same by simp
  next
    case True
    have e: "to_lower u ?e = ?e" by (rule assms(3))
    have only: "to_lower u k = ?e \<longleftrightarrow> k = ?e" if "k \<in> set (map fst ?old)" for k
      using that assms(4) e by auto
    have find: "List.find (\<lambda>k. to_lower u k = y) (map fst (AList.update ?e s ?old)) =
        (if y = ?e then Some ?e else List.find (\<lambda>k. to_lower u k = y) (map fst ?old))" for y s
      by (rule find_updated_key[where u = u, OF e only])
    have miss: "\<not> list_ex (\<lambda>(k, v). to_lower u k = x) ?old \<longleftrightarrow> List.find (\<lambda>k. to_lower u k = x) (map fst ?old) = None"
      by (force simp: find_None_iff list_ex_iff)
    have other: "map_of (AList.update ?e s ?old) k = map_of ?old k"
      if "List.find (\<lambda>k. to_lower u k = y) (map fst ?old) = Some k" "y \<noteq> ?e" for y k s
      using find_in[OF that(1)] that(2) e by (auto simp: update_conv)
    show ?thesis
      using True other
      unfolding person_entry_def Let_def new if_P[OF True] find miss
      by (auto simp: update_conv split: option.splits)
  qed
qed



section \<open>Instances\<close>

declare js_Cons [simp] js_Nil [simp] set_field.simps [simp]

lemmas edit_eval = assertGrantsShape_def tenants_of_def accounts_of_def tenant_shape_def STAR_def GENERIC_def
  person_shape_def PERSON_FIELDS_def Let_def email_domain_def occurrences_def js_trim_def is_space_def low1_def
  is_upper_def person_entry_def holder_of_def rows_def matches_def flag_def set_add_def set_of_def string_or_def
  withPerson_def withoutPerson_def withCompany_def withOrganisation_def address_def one_address_def
  open_grants_def close_grants_def add_point_def drop_point_def set_tenant_def person_switches_def
  strike_user_def strike_person_def strike_tenants_def key_in_def personPoints_def
  organisation_key_def tokens_def org_char_def is_lower_def is_digit_def
  latin_unicode_def latin_lower_def latin_nfd_def latin_decomp_def

lemma demo_gives:
  "\<exists>g'. withPerson latin_unicode (Some demo_grants) (Some (JStr (js ''N@b.c'')))
      [(js ''beta'', None), (js ''acme'', Some (js ''am''))] None True = Inr g'"
  by (simp add: demo_grants_def edit_eval)

lemma demo_takes:
  "\<exists>g'. withoutPerson latin_unicode (Some demo_grants) (Some (JStr (js ''U@a.c''))) [] True = Inr g'"
  "\<exists>g'. withoutPerson latin_unicode (Some demo_grants) (Some (JStr (js ''U@a.c''))) [(js ''beta'', None)] False = Inr g'"
  by (simp_all add: demo_grants_def edit_eval)

lemma demo_once: "address_once latin_unicode (address latin_unicode (Some (JStr (js ''U@a.c'')))) (Some demo_grants)"
  by (simp add: address_once_def one_spelling_def users_of_def demo_grants_def edit_eval)

lemma demo_files: "\<exists>g'. withCompany (Some demo_grants) (js ''beta'') (js ''bx'') = Inr g'"
  by (simp add: demo_grants_def edit_eval)

lemma demo_adds: "\<exists>g' k. withOrganisation latin_unicode (Some demo_grants) (Some (JStr (js ''New Co''))) = Inr (g', k)"
  by (simp add: demo_grants_def edit_eval)


theorem withPerson_switches_witness:
  "\<exists>g'. withPerson latin_unicode (Some demo_grants) (Some (JStr (js ''N@b.c'')))
      [(js ''beta'', None), (js ''acme'', Some (js ''am''))] None True = Inr g'
    \<and> person_entry (to_lower latin_unicode) (address latin_unicode (Some (JStr (js ''N@b.c'')))) (js ''b.c'') (Some g')
      = (True, Some (person_switches None))"
proof -
  obtain g' where g': "withPerson latin_unicode (Some demo_grants) (Some (JStr (js ''N@b.c'')))
      [(js ''beta'', None), (js ''acme'', Some (js ''am''))] None True = Inr g'"
    using demo_gives by blast
  have "to_lower latin_unicode (address latin_unicode (Some (JStr (js ''N@b.c''))))
      = address latin_unicode (Some (JStr (js ''N@b.c'')))"
    by (simp add: edit_eval)
  moreover have "\<forall>(k, x)\<in>set (obj (member (js ''people'') (Some demo_grants))).
      to_lower latin_unicode k \<noteq> address latin_unicode (Some (JStr (js ''N@b.c'')))
      \<or> k = address latin_unicode (Some (JStr (js ''N@b.c'')))"
    by (simp add: demo_grants_def edit_eval)
  ultimately show ?thesis
    using g' withPerson_switches[OF demo_shape g'] by simp
qed

theorem withoutPerson_all_exact_witness:
  "\<exists>g'. withoutPerson latin_unicode (Some demo_grants) (Some (JStr (js ''U@a.c''))) [] True = Inr g'
    \<and> obj (member (js ''people'') (Some g')) = []"
proof -
  obtain g' where g': "withoutPerson latin_unicode (Some demo_grants) (Some (JStr (js ''U@a.c''))) [] True = Inr g'"
    using demo_takes by blast
  have "filter (\<lambda>(k, x). to_lower latin_unicode k \<noteq> address latin_unicode (Some (JStr (js ''U@a.c''))))
      (obj (member (js ''people'') (Some demo_grants))) = []"
    by (simp add: demo_grants_def edit_eval)
  then show ?thesis
    using g' withoutPerson_all_exact[OF demo_shape demo_once g'] by auto
qed

theorem withoutPerson_narrow_exact_witness:
  "\<exists>g'. withoutPerson latin_unicode (Some demo_grants) (Some (JStr (js ''U@a.c''))) [(js ''beta'', None)] False = Inr g'
    \<and> \<not> tree_gives (\<lambda>p. to_lower latin_unicode p = address latin_unicode (Some (JStr (js ''U@a.c''))))
        (tenants_of (Some g')) (js ''beta'') (js ''be'')"
proof -
  obtain g' where g': "withoutPerson latin_unicode (Some demo_grants) (Some (JStr (js ''U@a.c'')))
      [(js ''beta'', None)] False = Inr g'"
    using demo_takes by blast
  show ?thesis
    using g' withoutPerson_narrow_exact[OF demo_shape demo_once g'] unfolding points_give_def by auto
qed

theorem withCompany_exact_witness:
  "\<exists>g'. withCompany (Some demo_grants) (js ''beta'') (js ''bx'') = Inr g' \<and> assertGrantsShape (Some g') = None"
  using demo_files withCompany_exact by blast

theorem withOrganisation_fresh_witness:
  "\<exists>g' k. withOrganisation latin_unicode (Some demo_grants) (Some (JStr (js ''New Co''))) = Inr (g', k)
    \<and> map_of (tenants_of (Some demo_grants)) k = None"
  using demo_adds withOrganisation_fresh[OF demo_shape] by blast

section \<open>Two spellings of one address\<close>

text \<open>An operator writes the file by hand and may write an address with capitals; every edit writes it in lower
  case. Both functions that look an address up again take the first key that matches.\<close>

definition two_spellings :: json where
  "two_spellings = JObj [(js ''tenants'', JObj [(js ''t'', JObj [(js ''accounts'', JArr [JStr (js ''c'')]),
      (js ''users'', JObj [(js ''D@x.y'', JArr [JStr (js ''c'')])])])]),
    (js ''people'', JObj [(js ''D@x.y'', JObj [(js ''run'', JBool False), (js ''manage'', JBool False)])])]"

text \<open>Removed from the install, the person still sees the company: the key in lower case is left.\<close>

theorem removed_person_keeps_access:
  "\<exists>g1 g2. assertGrantsShape (Some two_spellings) = None
    \<and> withPerson latin_unicode (Some two_spellings) (Some (JStr (js ''d@x.y''))) [(js ''t'', Some (js ''c''))] None False = Inr g1
    \<and> withoutPerson latin_unicode (Some g1) (Some (JStr (js ''d@x.y''))) [] True = Inr g2
    \<and> accountsForEmail (to_lower latin_unicode) (js ''d@x.y'') (Some g2) = Inr (Only [js ''c''])"
  by (simp add: two_spellings_def edit_eval accountsForEmail_def resolvePerson_def)

text \<open>The switch given has no effect: the entry first in the file is read.\<close>

theorem given_switch_not_read:
  "\<exists>g1 p. withPerson latin_unicode (Some two_spellings) (Some (JStr (js ''d@x.y''))) []
        (Some (JObj [(js ''run'', JBool True)])) True = Inr g1
    \<and> resolvePerson (to_lower latin_unicode) (js ''d@x.y'') (Some g1) = Inr (Some p) \<and> \<not> p_run p"
  by (simp add: two_spellings_def edit_eval resolvePerson_def)

end
