(* ===== verification/Scope.thy ===== *)
theory Scope
  imports Grants
begin

text \<open>Who may do what over the connector (\<open>shared/scope.mjs\<close>): scoped tokens and their revocation, the scope a
  session resolves to on each surface, and the check every tool call passes (\<open>authorize\<close>).

  What lies outside the file is a field of \<open>world\<close>: the two signing secrets, the signature (\<open>createHmac\<close> and
  its base64url text), the base64url codec, \<open>JSON\<close>, \<open>toLowerCase\<close>, the denylist file and the grants file.
  Tool names are HOL strings; call arguments are the properties of a JSON object. A refusal is a value of
  \<open>refusal\<close> with one constructor per \<open>throw\<close>; the prose of the messages (and \<open>otherDoor\<close>, which only adds to
  it) is not modelled.\<close>

section \<open>State\<close>

datatype denylist = DenyText jstr | DenyMissing | DenyUnreadable

record world =
  secret :: jstr
  previous_secret :: jstr
  sign :: "jstr \<Rightarrow> jstr \<Rightarrow> jstr"
  b64_encode :: "jstr \<Rightarrow> jstr"
  b64_decode :: "jstr \<Rightarrow> jstr"
  parse_json :: "jstr \<Rightarrow> json option"
  print_json :: "json \<Rightarrow> jstr"
  lower_case :: "jstr \<Rightarrow> jstr"
  denylist_named :: bool
  denylist :: denylist
  grants :: grants_file

datatype kind = Ops | User | Account | Internal

datatype refusal =
    NoSecret | BadScope | UserTokenWithoutRun | AccountTokenWithoutSub | AccountTokenWithRun
  | VerbsNotForThisScope | VerbsEmpty | UnknownVerbs "jstr list" | AccountsNotForThisScope | AccountsEmpty
  | MalformedToken | BadSignature | PayloadNotJson | ScopeInvalid | Expired | Revoked | RevocationUncheckable
  | GrantsRefused grant_error | NoGrantsFile | NotGrantedAny | CapOutsideGrant
  | ClientSurfaceNeedsToken | AccountAccessOff | ClientSurfaceNeedsUserToken | AccountKeyOnStaffSurface | NotStaff
  | TenantNotCovered | NameTheTenant
  | ProfileNotGranted | VerbNotHeld | NotForAccounts | ArtifactNotReadable | FindingKind | FindingGroup
  | ModelNotAvailable | RunNotNamed | NeedsRunPermission | ReadOnlySession | NotForUsers | CrossRun
  | NoRunBinding | OtherRun
  | NoAccountTag | AccountNotGranted

section \<open>Tools\<close>

record rule =
  clientSafe :: bool
  accountSafe :: bool
  r_write :: bool
  crossRun :: bool
  readOnly :: "bool option"

definition no_rule :: rule where
  "no_rule = \<lparr> clientSafe = False, accountSafe = False, r_write = False, crossRun = False, readOnly = None \<rparr>"

definition TOOL_SCOPES :: "(string \<times> rule) list" where
  "TOOL_SCOPES =
    [(''server_info'', no_rule\<lparr> clientSafe := True, accountSafe := True \<rparr>),
     (''brief'', no_rule\<lparr> clientSafe := True, accountSafe := True \<rparr>),
     (''read_artifact'', no_rule\<lparr> clientSafe := True, accountSafe := True \<rparr>),
     (''list_findings'', no_rule\<lparr> clientSafe := True, accountSafe := True \<rparr>),
     (''list_evidence'', no_rule\<lparr> accountSafe := True \<rparr>),
     (''list_searches'', no_rule\<lparr> accountSafe := True \<rparr>),
     (''get_search_coverage'', no_rule\<lparr> accountSafe := True \<rparr>),
     (''get_run'', no_rule\<lparr> accountSafe := True \<rparr>),
     (''get_finding'', no_rule\<lparr> accountSafe := True \<rparr>),
     (''trace'', no_rule\<lparr> accountSafe := True \<rparr>),
     (''decision_timeline'', no_rule\<lparr> accountSafe := True \<rparr>),
     (''get_telemetry'', no_rule), (''get_provider_usage'', no_rule),
     (''get_coverage'', no_rule), (''search'', no_rule),
     (''run_changes'', no_rule), (''diff_artifact'', no_rule),
     (''list_runs'', no_rule\<lparr> crossRun := True, accountSafe := True \<rparr>),
     (''search_runs'', no_rule\<lparr> crossRun := True \<rparr>),
     (''list_profiles'', no_rule\<lparr> crossRun := True \<rparr>),
     (''plan_run'', no_rule\<lparr> crossRun := True, accountSafe := True \<rparr>),
     (''describe_options'', no_rule\<lparr> crossRun := True, accountSafe := True \<rparr>),
     (''what_if_plan'', no_rule\<lparr> r_write := True, readOnly := Some True, accountSafe := True \<rparr>),
     (''what_if_run'', no_rule\<lparr> r_write := True, accountSafe := True \<rparr>),
     (''what_if_result'', no_rule\<lparr> accountSafe := True \<rparr>),
     (''start_run'', no_rule\<lparr> r_write := True, crossRun := True, accountSafe := True \<rparr>),
     (''stop_run'', no_rule\<lparr> r_write := True, accountSafe := True \<rparr>),
     (''feed_context'', no_rule\<lparr> r_write := True \<rparr>),
     (''mark_sent'', no_rule\<lparr> r_write := True \<rparr>), (''ack_event'', no_rule\<lparr> r_write := True \<rparr>),
     (''list_outbox_events'', no_rule\<lparr> crossRun := True \<rparr>), (''get_delivery_packet'', no_rule)]"

definition rule_of :: "string \<Rightarrow> rule" where
  "rule_of tool = (case map_of TOOL_SCOPES tool of Some r \<Rightarrow> r | None \<Rightarrow> no_rule)"

definition readOnlyFor :: "string \<Rightarrow> bool" where
  "readOnlyFor tool = (case map_of TOOL_SCOPES tool of
     None \<Rightarrow> False
   | Some r \<Rightarrow> (case readOnly r of Some b \<Rightarrow> b | None \<Rightarrow> \<not> r_write r))"

definition USER_ARTIFACTS :: "jstr list" where "USER_ARTIFACTS = [js ''report'']"

definition ACCOUNT_ARTIFACTS :: "jstr list" where
  "ACCOUNT_ARTIFACTS = [js ''report'', js ''audit'', js ''narrative'', js ''registerFindings'', js ''commonLaw'',
     js ''caseLaw'', js ''matterContext'']"

text \<open>\<open>/^register-?[Uu]nit:[a-z][a-z0-9-]{2,40}$/\<close>.\<close>

definition axis_prefixed :: "jstr \<Rightarrow> bool" where
  "axis_prefixed n =
     list_ex (\<lambda>p. starts_with p n \<and> (case drop (length p) n of
         c # cs \<Rightarrow> is_lower c \<and> 2 \<le> length cs \<and> length cs \<le> 40
                   \<and> list_all (\<lambda>d. is_lower d \<or> is_digit d \<or> d = 45) cs
       | [] \<Rightarrow> False))
       [js ''register-Unit:'', js ''register-unit:'', js ''registerUnit:'', js ''registerunit:'']"

definition accountMayReadArtifact :: "json option \<Rightarrow> bool" where
  "accountMayReadArtifact name = (let n = string_or name [] in n \<in> set ACCOUNT_ARTIFACTS \<or> axis_prefixed n)"

definition ACCOUNT_FINDING_KINDS :: "jstr list" where
  "ACCOUNT_FINDING_KINDS = [js ''findings'', js ''negatives'', js ''audit'']"

definition USER_FINDING_GROUPS :: "jstr list" where
  "USER_FINDING_GROUPS = [js ''on-field'', js ''off-field'', js ''out-of-scope'']"

definition text_in :: "json option \<Rightarrow> jstr list \<Rightarrow> bool" where
  "text_in v xs = (case v of Some (JStr s) \<Rightarrow> s \<in> set xs | _ \<Rightarrow> False)"

section \<open>Revocation\<close>

definition lines :: "jstr \<Rightarrow> jstr list" where
  "lines t = (let (ls, l) = List.fold (\<lambda>c (ls, l). if c = 10 then (ls @ [l], []) else (ls, l @ [c])) t ([], []) in ls @ [l])"

definition isRevoked :: "world \<Rightarrow> jstr option \<Rightarrow> refusal + bool" where
  "isRevoked w jti =
     (case jti of
        None \<Rightarrow> Inr False
      | Some j \<Rightarrow>
          (case denylist w of
             DenyText t \<Rightarrow> Inr (j \<in> set (filter (\<lambda>l. l \<noteq> [] \<and> \<not> starts_with (js ''#'') l) (map js_trim (lines t))))
           | DenyMissing \<Rightarrow> if denylist_named w then Inl RevocationUncheckable else Inr False
           | DenyUnreadable \<Rightarrow> Inl RevocationUncheckable))"

section \<open>Tokens\<close>

definition split_on :: "unit16 \<Rightarrow> jstr \<Rightarrow> jstr list" where
  "split_on d t = (let (ls, l) = List.fold (\<lambda>c (ls, l). if c = d then (ls @ [l], []) else (ls, l @ [c])) t ([], []) in ls @ [l])"

definition nonempty_text :: "json option \<Rightarrow> jstr option" where
  "nonempty_text v = (case v of Some (JStr s) \<Rightarrow> if s = [] then None else Some s | _ \<Rightarrow> None)"

definition nonempty_keys :: "json option \<Rightarrow> jstr list option" where
  "nonempty_keys v = (if is_keys v \<and> key_list v \<noteq> [] then Some (key_list v) else None)"

record token_id =
  ti_jti :: jstr
  ti_exp :: "int option"
  ti_sub :: "jstr option"

definition tokenId :: "world \<Rightarrow> jstr \<Rightarrow> token_id option" where
  "tokenId w tok =
     (case split_on 46 tok of
        [v, body, sig] \<Rightarrow>
          if v \<noteq> js ''v1'' then None
          else (case nonempty_text (member (js ''jti'') (parse_json w (b64_decode w body))) of
            None \<Rightarrow> None
          | Some jti \<Rightarrow> Some \<lparr> ti_jti = jti,
              ti_exp = (case member (js ''exp'') (parse_json w (b64_decode w body)) of Some (JNum n) \<Rightarrow> Some n | _ \<Rightarrow> None),
              ti_sub = nonempty_text (member (js ''sub'') (parse_json w (b64_decode w body))) \<rparr>)
      | _ \<Rightarrow> None)"

record mint_request =
  m_scope :: jstr
  m_runId :: "jstr option"
  m_ttlSec :: int
  m_sub :: "jstr option"
  m_verbs :: "jstr list option"
  m_accounts :: "jstr list option"

definition writable :: "jstr list" where
  "writable = map (js \<circ> fst) (filter (r_write \<circ> snd) TOOL_SCOPES)"

definition mint_refusal :: "world \<Rightarrow> mint_request \<Rightarrow> refusal option" where
  "mint_refusal w r =
     (if secret w = [] then Some NoSecret
      else if m_scope r \<notin> {js ''ops'', js ''user'', js ''account''} then Some BadScope
      else if m_scope r = js ''user'' \<and> m_runId r \<in> {None, Some []} then Some UserTokenWithoutRun
      else if m_scope r = js ''account'' \<and> m_sub r \<in> {None, Some []} then Some AccountTokenWithoutSub
      else if m_scope r = js ''account'' \<and> m_runId r \<notin> {None, Some []} then Some AccountTokenWithRun
      else case (case m_verbs r of
          None \<Rightarrow> None
        | Some vs \<Rightarrow>
            if m_scope r \<noteq> js ''ops'' then Some VerbsNotForThisScope
            else if vs = [] then Some VerbsEmpty
            else let unknown = filter (\<lambda>v. v \<notin> set writable) vs in
              if unknown \<noteq> [] then Some (UnknownVerbs unknown) else None) of
        Some e \<Rightarrow> Some e
      | None \<Rightarrow>
          (case m_accounts r of
             None \<Rightarrow> None
           | Some as \<Rightarrow>
               if m_scope r \<noteq> js ''ops'' \<and> m_scope r \<noteq> js ''account'' then Some AccountsNotForThisScope
               else if as = [] \<or> [] \<in> set as then Some AccountsEmpty else None))"

definition mint_payload :: "mint_request \<Rightarrow> int \<Rightarrow> jstr \<Rightarrow> json" where
  "mint_payload r now jti =
     JObj ([(js ''scope'', JStr (m_scope r)),
            (js ''runId'', case m_runId r of Some i \<Rightarrow> if m_scope r = js ''user'' then JStr i else JNull | None \<Rightarrow> JNull),
            (js ''exp'', JNum (now div 1000 + m_ttlSec r))]
        @ (case m_sub r of Some s \<Rightarrow> [(js ''sub'', JStr s)] | None \<Rightarrow> [])
        @ (case m_verbs r of Some vs \<Rightarrow> [(js ''verbs'', JArr (map JStr vs))] | None \<Rightarrow> [])
        @ (case m_accounts r of Some as \<Rightarrow> [(js ''accounts'', JArr (map JStr as))] | None \<Rightarrow> [])
        @ [(js ''jti'', JStr jti)])"

text \<open>\<open>jti\<close> is what \<open>randomBytes\<close> gave.\<close>

definition mintToken :: "world \<Rightarrow> mint_request \<Rightarrow> int \<Rightarrow> jstr \<Rightarrow> refusal + jstr" where
  "mintToken w r now jti =
     (case mint_refusal w r of
        Some e \<Rightarrow> Inl e
      | None \<Rightarrow>
          let body = b64_encode w (print_json w (mint_payload r now jti)) in
          Inr (js ''v1.'' @ body @ js ''.'' @ sign w (secret w) body))"

record token =
  t_scope :: kind
  t_runId :: "json option"
  t_exp :: int
  t_sub :: "jstr option"
  t_verbs :: "jstr list option"
  t_accounts :: "jstr list option"
  t_jti :: "jstr option"

definition secrets :: "world \<Rightarrow> jstr list" where
  "secrets w = filter (\<lambda>s. s \<noteq> []) [secret w, previous_secret w]"

definition token_kind :: "json option \<Rightarrow> kind option" where
  "token_kind p = (let s = member (js ''scope'') p in
     if s = Some (JStr (js ''ops'')) then Some Ops
     else if s = Some (JStr (js ''user'')) then Some User
     else if s = Some (JStr (js ''account'')) then Some Account else None)"

text \<open>The checks on a payload whose signature matched.\<close>

definition read_payload :: "world \<Rightarrow> int \<Rightarrow> json \<Rightarrow> refusal + token" where
  "read_payload w now j =
     (let f = (\<lambda>k. member (js k) (Some j)); jti = nonempty_text (f ''jti'') in
      case token_kind (Some j) of
        None \<Rightarrow> Inl ScopeInvalid
      | Some k \<Rightarrow>
          if k = User \<and> \<not> truthy (f ''runId'') then Inl UserTokenWithoutRun
          else if k = Account \<and> nonempty_text (f ''sub'') = None then Inl AccountTokenWithoutSub
          else (case f ''exp'' of
            Some (JNum e) \<Rightarrow>
              if e \<le> now div 1000 then Inl Expired
              else (case isRevoked w jti of
                Inl err \<Rightarrow> Inl err
              | Inr True \<Rightarrow> Inl Revoked
              | Inr False \<Rightarrow> Inr \<lparr> t_scope = k, t_runId = (if nullish (f ''runId'') then None else f ''runId''), t_exp = e,
                  t_sub = nonempty_text (f ''sub''), t_verbs = nonempty_keys (f ''verbs''),
                  t_accounts = nonempty_keys (f ''accounts''), t_jti = jti \<rparr>)
          | _ \<Rightarrow> Inl Expired))"

definition verifyToken :: "world \<Rightarrow> jstr \<Rightarrow> int \<Rightarrow> refusal + token" where
  "verifyToken w tok now =
     (if secret w = [] then Inl NoSecret
      else case split_on 46 tok of
        [v, body, sig] \<Rightarrow>
          if v \<noteq> js ''v1'' then Inl MalformedToken
          else if \<not> list_ex (\<lambda>s. sig = sign w s body) (secrets w) then Inl BadSignature
          else (case parse_json w (b64_decode w body) of
            None \<Rightarrow> Inl PayloadNotJson
          | Some j \<Rightarrow> read_payload w now j)
      | _ \<Rightarrow> Inl MalformedToken)"

section \<open>The scope of a session\<close>

record scope =
  s_kind :: kind
  s_runId :: "json option"
  s_sub :: "jstr option"
  s_verbs :: "jstr list option"
  s_accounts :: "reach option"
  s_everything :: bool
  s_run :: bool
  s_manage :: bool
  s_genericOrgs :: "jstr list"

definition plain_scope :: "kind \<Rightarrow> json option \<Rightarrow> jstr option \<Rightarrow> jstr list option \<Rightarrow> reach option \<Rightarrow> scope" where
  "plain_scope k r sub vs acc = \<lparr> s_kind = k, s_runId = r, s_sub = sub, s_verbs = vs, s_accounts = acc,
     s_everything = False, s_run = False, s_manage = False, s_genericOrgs = [] \<rparr>"

definition load :: "world \<Rightarrow> refusal + json option" where
  "load w = (case loadGrants (grants w) of Inl e \<Rightarrow> Inl (GrantsRefused e) | Inr g \<Rightarrow> Inr g)"

definition resolve :: "world \<Rightarrow> jstr option \<Rightarrow> json option \<Rightarrow> refusal + person option" where
  "resolve w email g =
     (case resolvePerson (lower_case w) (case email of Some e \<Rightarrow> e | None \<Rightarrow> []) g of
        Inl e \<Rightarrow> Inl (GrantsRefused e) | Inr p \<Rightarrow> Inr p)"

definition assertAccountAccess :: "scope \<Rightarrow> jstr option \<Rightarrow> jstr option \<Rightarrow> refusal option" where
  "assertAccountAccess sc account organisation =
     (case s_accounts sc of
        None \<Rightarrow> None
      | Some All \<Rightarrow> None
      | Some (Only acc) \<Rightarrow>
          (case account of
             None \<Rightarrow> Some NoAccountTag
           | Some a \<Rightarrow>
               if a = GENERIC \<and> (case organisation of Some t \<Rightarrow> t \<in> set (s_genericOrgs sc) | None \<Rightarrow> False) then None
               else if a \<notin> set acc then Some AccountNotGranted else None))"

definition accountVisible :: "scope \<Rightarrow> jstr option \<Rightarrow> jstr option \<Rightarrow> bool" where
  "accountVisible sc account organisation = (assertAccountAccess sc account organisation = None)"

definition grantsGeneric :: "scope \<Rightarrow> bool" where
  "grantsGeneric sc =
     (if s_kind sc = Account then s_everything sc \<or> s_genericOrgs sc \<noteq> []
      else case s_accounts sc of None \<Rightarrow> True | Some All \<Rightarrow> True | Some (Only acc) \<Rightarrow> GENERIC \<in> set acc)"

text \<open>The account scope of an identity, narrowed by a key's cap.\<close>

definition personScope :: "world \<Rightarrow> jstr option \<Rightarrow> jstr list option \<Rightarrow> refusal + scope" where
  "personScope w identity cap =
     (case load w of
        Inl e \<Rightarrow> Inl e
      | Inr None \<Rightarrow> Inl NoGrantsFile
      | Inr (Some g) \<Rightarrow>
          (case resolve w identity (Some g) of
             Inl e \<Rightarrow> Inl e
           | Inr None \<Rightarrow> Inl NotGrantedAny
           | Inr (Some p) \<Rightarrow>
               let whole = \<lparr> s_kind = Account, s_runId = None, s_sub = identity, s_verbs = None,
                     s_accounts = Some (p_accounts p), s_everything = p_everything p, s_run = p_run p,
                     s_manage = p_manage p, s_genericOrgs = p_genericOrgs p \<rparr> in
               (case cap of
                  None \<Rightarrow> Inr whole
                | Some [] \<Rightarrow> Inr whole
                | Some c \<Rightarrow>
                    let narrowed = (case p_accounts p of All \<Rightarrow> c | Only as \<Rightarrow> filter (\<lambda>a. a \<in> set c) as) in
                    if narrowed = [] then Inl CapOutsideGrant
                    else Inr (whole\<lparr> s_accounts := Some (Only narrowed), s_everything := False, s_genericOrgs := [] \<rparr>))))"

definition isFirmDomain :: "world \<Rightarrow> jstr option \<Rightarrow> jstr list \<Rightarrow> bool" where
  "isFirmDomain w email firmDomains =
     (case email of
        None \<Rightarrow> False
      | Some e \<Rightarrow>
          let ats = occurrences [64] e in
          ats \<noteq> [] \<and> lower_case w (drop (Suc (last ats)) e)
            \<in> set (filter (\<lambda>d. d \<noteq> []) (map (\<lambda>d. let l = lower_case w d in if starts_with [64] l then tl l else l) firmDomains)))"

record session =
  q_local :: bool
  q_innerToken :: "jstr option"
  q_email :: "jstr option"
  q_firmStaff :: bool
  q_clientSurface :: bool
  q_accountAccess :: bool
  q_now :: int

definition resolveScope :: "world \<Rightarrow> session \<Rightarrow> refusal + scope" where
  "resolveScope w q =
     (let inner = (case q_innerToken q of Some [] \<Rightarrow> None | t \<Rightarrow> t) in
      if q_clientSurface q then
        (case inner of
           None \<Rightarrow> if \<not> q_accountAccess q then Inl ClientSurfaceNeedsToken else personScope w (q_email q) None
         | Some tok \<Rightarrow>
             (case verifyToken w tok (q_now q) of
                Inl e \<Rightarrow> Inl e
              | Inr t \<Rightarrow>
                  if t_scope t = Account then
                    (if \<not> q_accountAccess q then Inl AccountAccessOff else personScope w (t_sub t) (t_accounts t))
                  else if t_scope t \<noteq> User then Inl ClientSurfaceNeedsUserToken
                  else Inr (plain_scope User (t_runId t) (t_sub t) None None)))
      else if q_local q then Inr (plain_scope Ops None (Some (js ''local'')) None (Some All))
      else case inner of
        Some tok \<Rightarrow>
          (case verifyToken w tok (q_now q) of
             Inl e \<Rightarrow> Inl e
           | Inr t \<Rightarrow>
               if t_scope t = Account then Inl AccountKeyOnStaffSurface
               else if t_scope t = Ops then
                 Inr (plain_scope Ops None (t_sub t) (t_verbs t)
                        (Some (case t_accounts t of Some as \<Rightarrow> Only as | None \<Rightarrow> All)))
               else Inr (plain_scope User (t_runId t) (t_sub t) None None))
      | None \<Rightarrow>
          if q_firmStaff q then
            (case load w of
               Inl e \<Rightarrow> Inl e
             | Inr None \<Rightarrow> Inr ((plain_scope Internal None (q_email q) None (Some All))\<lparr> s_everything := True \<rparr>)
             | Inr (Some g) \<Rightarrow>
                 (case resolve w (q_email q) (Some g) of
                    Inl e \<Rightarrow> Inl e
                  | Inr None \<Rightarrow> Inr (plain_scope Internal None (q_email q) None (Some (Only [])))
                  | Inr (Some p) \<Rightarrow> Inr \<lparr> s_kind = Internal, s_runId = None, s_sub = q_email q, s_verbs = None,
                      s_accounts = Some (p_accounts p), s_everything = p_everything p, s_run = p_run p,
                      s_manage = p_manage p, s_genericOrgs = p_genericOrgs p \<rparr>))
          else Inl NotStaff)"

section \<open>What a call may do\<close>

type_synonym args = "(jstr \<times> json) list"

definition arg :: "string \<Rightarrow> args \<Rightarrow> json option" where "arg k a = map_of a (js k)"
definition put :: "string \<Rightarrow> json \<Rightarrow> args \<Rightarrow> args" where "put k v a = AList.update (js k) v a"

definition keep_arg :: "string \<Rightarrow> json option \<Rightarrow> args" where
  "keep_arg k v = (case v of Some j \<Rightarrow> [(js k, j)] | None \<Rightarrow> [])"

definition drop_arg :: "string \<Rightarrow> args \<Rightarrow> args" where "drop_arg k a = AList.delete (js k) a"

text \<open>\<open>args.profileKey ?? "generic"\<close>, and whether a text argument is there and not blank.\<close>

definition profile_key :: "args \<Rightarrow> json" where
  "profile_key a = (if nullish (arg ''profileKey'' a) then JStr GENERIC else the (arg ''profileKey'' a))"

definition trimmed_text :: "json option \<Rightarrow> jstr option" where
  "trimmed_text v = (case v of Some (JStr s) \<Rightarrow> if js_trim s = [] then None else Some (js_trim s) | _ \<Rightarrow> None)"

text \<open>The tenant a Generic job is filed under; \<open>None\<close> files it under none.\<close>

definition tenantStamp :: "scope \<Rightarrow> json option \<Rightarrow> refusal + jstr option" where
  "tenantStamp sc asked =
     (case trimmed_text asked of
        Some t \<Rightarrow> if t \<notin> set (s_genericOrgs sc) then Inl TenantNotCovered else Inr (Some t)
      | None \<Rightarrow>
          (case s_genericOrgs sc of
             [o1] \<Rightarrow> Inr (Some o1)
           | _ \<Rightarrow> if s_everything sc then Inr None else Inl NameTheTenant))"

definition soleOrganisation :: "world \<Rightarrow> refusal + jstr option" where
  "soleOrganisation w =
     (case load w of Inl e \<Rightarrow> Inl e
      | Inr g \<Rightarrow> Inr (case map fst (tenants_of g) of [t] \<Rightarrow> Some t | _ \<Rightarrow> None))"

definition stampForwarder :: "scope \<Rightarrow> args \<Rightarrow> args" where
  "stampForwarder sc a =
     (let sub = (case s_sub sc of Some [] \<Rightarrow> None | s \<Rightarrow> s);
          fw = (if truthy (arg ''forwarder'' a) then the (arg ''forwarder'' a)
                else case sub of Some s \<Rightarrow> JStr s | None \<Rightarrow> JStr (js ''cordillera-mcp''));
          out = put ''forwarder'' fw a
      in case sub of
           Some s \<Rightarrow> if \<not> truthy (arg ''forwarderEmail'' out) \<and> 64 \<in> set s then put ''forwarderEmail'' (JStr s) out else out
         | None \<Rightarrow> out)"

definition starts_job :: "string \<Rightarrow> bool" where
  "starts_job tool \<longleftrightarrow> tool = ''start_run'' \<or> tool = ''plan_run''"

definition authorize_ops :: "world \<Rightarrow> scope \<Rightarrow> string \<Rightarrow> args \<Rightarrow> refusal + args" where
  "authorize_ops w sc tool a =
     (if r_write (rule_of tool) \<and> (case s_verbs sc of Some vs \<Rightarrow> js tool \<notin> set vs | None \<Rightarrow> False) then Inl VerbNotHeld
      else if starts_job tool \<and> (case s_accounts sc of
            Some (Only acc) \<Rightarrow>
              \<not> (if profile_key a = JStr GENERIC then grantsGeneric sc else text_in (Some (profile_key a)) acc)
          | _ \<Rightarrow> False) then Inl ProfileNotGranted
      else
        let placed = (if starts_job tool \<and> profile_key a = JStr GENERIC \<and> trimmed_text (arg ''tenant'' a) = None
                      then soleOrganisation w else Inr None) in
        case placed of
          Inl e \<Rightarrow> Inl e
        | Inr p \<Rightarrow>
            let routed = (case p of Some (c # cs) \<Rightarrow> put ''tenant'' (JStr (c # cs)) a | _ \<Rightarrow> a) in
            Inr (if tool = ''plan_run'' then stampForwarder sc routed else routed))"

text \<open>A job a client account orders: its forwarder is the identity, its tenant is not the caller's to choose,
  and it is marked as a client's unless the person has access to everything.\<close>

definition account_job :: "scope \<Rightarrow> string \<Rightarrow> args \<Rightarrow> refusal + args" where
  "account_job sc tool a =
     (if (if profile_key a = JStr GENERIC then \<not> grantsGeneric sc
          else \<not> (s_accounts sc = Some All
                  \<or> (case s_accounts sc of Some (Only acc) \<Rightarrow> text_in (Some (profile_key a)) acc | _ \<Rightarrow> False)))
      then Inl ProfileNotGranted
      else
        let rest = drop_arg ''tenant'' a;
            fw = (if truthy (arg ''forwarder'' a) then the (arg ''forwarder'' a)
                  else case s_sub sc of Some (c # cs) \<Rightarrow> JStr (c # cs) | _ \<Rightarrow> JStr (js ''client-mcp''));
            named = put ''forwarder'' fw rest;
            mailed = (case s_sub sc of Some s \<Rightarrow> put ''forwarderEmail'' (JStr s) named | None \<Rightarrow> named)
        in case (if profile_key a = JStr GENERIC then tenantStamp sc (arg ''tenant'' a) else Inr None) of
             Inl e \<Rightarrow> Inl e
           | Inr t \<Rightarrow>
               let stamped = (case t of Some x \<Rightarrow> put ''tenant'' (JStr x) mailed | None \<Rightarrow> mailed) in
               Inr (if tool = ''start_run'' \<and> \<not> s_everything sc then put ''clientPrincipal'' (JBool True) stamped else stamped))"

definition authorize_account :: "scope \<Rightarrow> string \<Rightarrow> args \<Rightarrow> refusal + args" where
  "authorize_account sc tool a =
     (if \<not> accountSafe (rule_of tool) then Inl NotForAccounts
      else if tool = ''read_artifact'' \<and> \<not> accountMayReadArtifact (arg ''name'' a) then Inl ArtifactNotReadable
      else if tool = ''list_findings'' \<and> \<not> truthy (arg ''group'' a)
          \<and> \<not> (nullish (arg ''kind'' a) \<or> text_in (arg ''kind'' a) ACCOUNT_FINDING_KINDS) then Inl FindingKind
      else if tool = ''list_findings'' \<and> truthy (arg ''group'' a) then
        (if \<not> text_in (arg ''group'' a) USER_FINDING_GROUPS then Inl FindingGroup
         else Inr (keep_arg ''runId'' (arg ''runId'' a) @ keep_arg ''group'' (arg ''group'' a)))
      else if (tool = ''what_if_plan'' \<or> tool = ''what_if_run'') \<and> \<not> nullish (arg ''model'' a) then Inl ModelNotAvailable
      else if tool = ''what_if_run'' \<and> \<not> truthy (arg ''runId'' a) then Inl RunNotNamed
      else if (r_write (rule_of tool) \<or> tool = ''plan_run'') \<and> \<not> s_run sc then Inl NeedsRunPermission
      else if starts_job tool then account_job sc tool a
      else Inr a)"

definition authorize_user :: "scope \<Rightarrow> string \<Rightarrow> args \<Rightarrow> refusal + args" where
  "authorize_user sc tool a =
     (if \<not> clientSafe (rule_of tool) then Inl NotForUsers
      else if tool = ''read_artifact'' \<and> \<not> text_in (arg ''name'' a) USER_ARTIFACTS then Inl ArtifactNotReadable
      else if tool = ''list_findings'' \<and> \<not> text_in (arg ''group'' a) USER_FINDING_GROUPS then Inl FindingGroup
      else if crossRun (rule_of tool) then Inl CrossRun
      else if \<not> truthy (s_runId sc) then Inl NoRunBinding
      else if \<not> nullish (arg ''runId'' a) \<and> template (arg ''runId'' a) \<noteq> template (s_runId sc) then Inl OtherRun
      else if tool = ''list_findings'' then Inr (keep_arg ''runId'' (s_runId sc) @ keep_arg ''group'' (arg ''group'' a))
      else Inr (put ''runId'' (the (s_runId sc)) a))"

definition authorize :: "world \<Rightarrow> scope \<Rightarrow> string \<Rightarrow> args \<Rightarrow> refusal + args" where
  "authorize w sc tool a =
     (if tool = ''describe_options'' \<and> truthy (arg ''profileKey'' a)
        \<and> (case s_accounts sc of Some (Only acc) \<Rightarrow> template (arg ''profileKey'' a) \<notin> set acc | _ \<Rightarrow> False)
      then Inl ProfileNotGranted
      else if s_kind sc = Ops then authorize_ops w sc tool a
      else if s_kind sc = Account then authorize_account sc tool a
      else if r_write (rule_of tool) then Inl ReadOnlySession
      else if s_kind sc = Internal then Inr (if tool = ''plan_run'' then stampForwarder sc a else a)
      else authorize_user sc tool a)"

definition DEMO_WITHHELD_TOOLS :: "string list" where
  "DEMO_WITHHELD_TOOLS = [''start_run'', ''what_if_plan'', ''what_if_run'', ''what_if_result'']"

definition visibleTools :: "kind \<Rightarrow> bool \<Rightarrow> bool \<Rightarrow> string \<Rightarrow> bool" where
  "visibleTools k local demo tool =
     (if demo \<and> tool \<in> set DEMO_WITHHELD_TOOLS then False
      else if k = User then clientSafe (rule_of tool)
      else if k = Account then accountSafe (rule_of tool)
      else if k \<noteq> Ops then \<not> r_write (rule_of tool)
      else if tool = ''what_if_plan'' \<or> tool = ''what_if_run'' then local else True)"

definition kind_text :: "kind \<Rightarrow> jstr" where
  "kind_text k = (case k of Ops \<Rightarrow> js ''ops'' | User \<Rightarrow> js ''user'' | Account \<Rightarrow> js ''account'' | Internal \<Rightarrow> js ''internal'')"

definition delegate_char :: "unit16 \<Rightarrow> bool" where
  "delegate_char c \<longleftrightarrow> is_upper c \<or> is_lower c \<or> is_digit c \<or> c \<in> set (js ''._%+@-'')"

text \<open>Whom an action is recorded under: the identity the scope proved, and at most beside it the delegate the
  caller names.\<close>

definition attributionOf :: "scope \<Rightarrow> json option \<Rightarrow> jstr" where
  "attributionOf sc onBehalfOf =
     (let self = (case s_sub sc of
            Some s \<Rightarrow> if js_trim s \<noteq> [] then js_trim s else js ''unidentified:'' @ kind_text (s_kind sc)
          | None \<Rightarrow> js ''unidentified:'' @ kind_text (s_kind sc)) in
      case trimmed_text onBehalfOf of
        None \<Rightarrow> self
      | Some d \<Rightarrow> if length d \<le> 128 \<and> list_all delegate_char d then self @ js '':'' @ d else self)"

section \<open>Facts about calls\<close>

named_theorems arg_simps \<open>reading back call arguments\<close>

lemma arg_put [arg_simps]: "arg k (put k' v a) = (if k = k' then Some v else arg k a)"
  by (simp add: arg_def put_def AList.update_conv' js_inj)

lemma arg_drop [arg_simps]: "arg k (drop_arg k' a) = (if k = k' then None else arg k a)"
  by (simp add: arg_def drop_arg_def AList.delete_conv' js_inj)

lemma arg_keep [arg_simps]:
  "arg k (keep_arg k' v @ b) = (if k = k' \<and> v \<noteq> None then v else arg k b)"
  "arg k (keep_arg k' v) = (if k = k' then v else None)"
  by (auto simp: arg_def keep_arg_def js_inj split: option.split)

text \<open>The tool table, as \<open>authorize\<close> and the tool list read it: what a report link may call is read-only and
  stays in its run, and a client account may call it too.\<close>

lemma tool_table:
  "list_all (\<lambda>(t, r). (\<not> clientSafe r \<or> accountSafe r \<and> \<not> r_write r \<and> \<not> crossRun r)
     \<and> (readOnly r = None \<or> t = ''what_if_plan'')) TOOL_SCOPES"
  by code_simp

lemma rule_cases: "rule_of t = no_rule \<or> (t, rule_of t) \<in> set TOOL_SCOPES"
  by (auto simp: rule_of_def dest: map_of_SomeD split: option.split)

lemma clientSafe_rule: "clientSafe (rule_of t) \<Longrightarrow> accountSafe (rule_of t) \<and> \<not> r_write (rule_of t) \<and> \<not> crossRun (rule_of t)"
  using rule_cases[of t] tool_table by (auto simp: list_all_iff no_rule_def)

lemma authorize_user_ok:
  assumes "authorize_user sc tool a = Inr a'"
  shows "clientSafe (rule_of tool) \<and> truthy (s_runId sc) \<and> arg ''runId'' a' = s_runId sc
    \<and> (nullish (arg ''runId'' a) \<or> template (arg ''runId'' a) = template (s_runId sc))
    \<and> (tool \<noteq> ''read_artifact'' \<or> text_in (arg ''name'' a) USER_ARTIFACTS)
    \<and> (tool \<noteq> ''list_findings'' \<or> text_in (arg ''group'' a') USER_FINDING_GROUPS \<and> arg ''kind'' a' = None)"
proof -
  have "truthy (s_runId sc)" and run: "\<exists>r. s_runId sc = Some r"
    using assms by (cases "s_runId sc"; auto simp: authorize_user_def split: if_splits)+
  then show ?thesis
    using assms by (auto simp: authorize_user_def arg_simps split: if_splits)
qed

lemma tenantStamp_ok:
  "tenantStamp sc v = Inr t \<Longrightarrow> t = None \<and> s_everything sc \<or> (\<exists>o1\<in>set (s_genericOrgs sc). t = Some o1)"
  unfolding tenantStamp_def
  by (cases "trimmed_text v"; cases "s_genericOrgs sc" rule: remdups_adj.cases) (auto split: if_splits dest: sym[of "Some _"])

lemma account_job_ok:
  assumes "account_job sc tool a = Inr a'"
  shows "profile_key a' = profile_key a
    \<and> (case s_sub sc of Some s \<Rightarrow> arg ''forwarderEmail'' a' = Some (JStr s) | None \<Rightarrow> True)
    \<and> (tool \<noteq> ''start_run'' \<or> s_everything sc \<or> arg ''clientPrincipal'' a' = Some (JBool True))
    \<and> (if profile_key a = JStr GENERIC
       then grantsGeneric sc \<and> (s_everything sc \<and> arg ''tenant'' a' = None
              \<or> (\<exists>t\<in>set (s_genericOrgs sc). arg ''tenant'' a' = Some (JStr t)))
       else arg ''tenant'' a' = None
         \<and> (s_accounts sc = Some All \<or> (\<exists>acc. s_accounts sc = Some (Only acc) \<and> text_in (Some (profile_key a)) acc)))"
proof -
  define fw where "fw = (if truthy (arg ''forwarder'' a) then the (arg ''forwarder'' a)
                  else case s_sub sc of Some (c # cs) \<Rightarrow> JStr (c # cs) | _ \<Rightarrow> JStr (js ''client-mcp''))"
  define named where "named = put ''forwarder'' fw (drop_arg ''tenant'' a)"
  define mailed where "mailed = (case s_sub sc of Some s \<Rightarrow> put ''forwarderEmail'' (JStr s) named | None \<Rightarrow> named)"
  have m: "arg ''profileKey'' mailed = arg ''profileKey'' a" "arg ''tenant'' mailed = None"
    "(case s_sub sc of Some s \<Rightarrow> arg ''forwarderEmail'' mailed = Some (JStr s) | None \<Rightarrow> True)"
    by (simp_all add: mailed_def named_def arg_simps split: option.split)
  obtain t where t: "(if profile_key a = JStr GENERIC then tenantStamp sc (arg ''tenant'' a) else Inr None) = Inr t"
    and held: "if profile_key a = JStr GENERIC then grantsGeneric sc
      else s_accounts sc = Some All \<or> (\<exists>acc. s_accounts sc = Some (Only acc) \<and> text_in (Some (profile_key a)) acc)"
    and a': "a' = (let stamped = (case t of Some x \<Rightarrow> put ''tenant'' (JStr x) mailed | None \<Rightarrow> mailed) in
      if tool = ''start_run'' \<and> \<not> s_everything sc then put ''clientPrincipal'' (JBool True) stamped else stamped)"
    using assms unfolding account_job_def Let_def fw_def[symmetric] named_def[symmetric] mailed_def[symmetric]
    by (auto split: if_splits sum.splits option.splits reach.splits)
  have tt: "t = None \<and> (profile_key a \<noteq> JStr GENERIC \<or> s_everything sc)
      \<or> profile_key a = JStr GENERIC \<and> (\<exists>o1\<in>set (s_genericOrgs sc). t = Some o1)"
    using t tenantStamp_ok[of sc "arg ''tenant'' a" t] by (cases "profile_key a = JStr GENERIC") auto
  show ?thesis
    using tt
  proof (elim disjE conjE bexE)
    assume "t = None" "profile_key a \<noteq> JStr GENERIC"
    then show ?thesis
      using m held unfolding a' by (auto simp: profile_key_def arg_simps Let_def split: option.splits)
  next
    assume "t = None" "s_everything sc"
    then show ?thesis
      using m held unfolding a' by (auto simp: profile_key_def arg_simps Let_def split: option.splits)
  next
    fix o1 assume "profile_key a = JStr GENERIC" "o1 \<in> set (s_genericOrgs sc)" "t = Some o1"
    then show ?thesis
      using m held unfolding a' by (auto simp: profile_key_def arg_simps Let_def split: option.splits)
  qed
qed

section \<open>Facts about sessions\<close>

text \<open>One reach within another.\<close>

fun within :: "reach option \<Rightarrow> reach \<Rightarrow> bool" where
  "within (Some All) r = (r = All)"
| "within (Some (Only as)) All = True"
| "within (Some (Only as)) (Only bs) = (set as \<subseteq> set bs)"
| "within None r = False"

lemma within_refl [simp]: "within (Some r) r"
  by (cases r) simp_all

text \<open>The scope is no more than the grants file gives the identity it names, at the moment it is resolved.\<close>

definition backed_by_grants :: "world \<Rightarrow> scope \<Rightarrow> bool" where
  "backed_by_grants w sc \<longleftrightarrow>
     (\<exists>g p. load w = Inr (Some g) \<and> resolve w (s_sub sc) (Some g) = Inr (Some p)
        \<and> within (s_accounts sc) (p_accounts p) \<and> set (s_genericOrgs sc) \<subseteq> set (p_genericOrgs p)
        \<and> (s_everything sc \<longrightarrow> p_everything p) \<and> s_run sc = p_run p \<and> s_manage sc = p_manage p)"

lemma personScope_backed:
  assumes "personScope w identity cap = Inr sc"
  shows "s_kind sc = Account \<and> s_sub sc = identity \<and> backed_by_grants w sc
    \<and> (case cap of Some (c # cs) \<Rightarrow>
          (\<exists>as. s_accounts sc = Some (Only as) \<and> as \<noteq> [] \<and> set as \<subseteq> set (c # cs)) \<and> \<not> s_everything sc \<and> s_genericOrgs sc = []
        | _ \<Rightarrow> True)"
proof -
  obtain g where g: "load w = Inr (Some g)"
    using assms by (auto simp: personScope_def split: sum.splits option.splits)
  obtain p where p: "resolve w identity (Some g) = Inr (Some p)"
    using assms by (auto simp: personScope_def g split: sum.splits option.splits)
  define whole where "whole = \<lparr> s_kind = Account, s_runId = None, s_sub = identity, s_verbs = None,
                     s_accounts = Some (p_accounts p), s_everything = p_everything p, s_run = p_run p,
                     s_manage = p_manage p, s_genericOrgs = p_genericOrgs p \<rparr>"
  note eq = assms[unfolded personScope_def g sum.case option.case p Let_def whole_def[symmetric]]
  show ?thesis
  proof (cases "cap = None \<or> cap = Some []")
    case True
    then have "sc = whole" using eq by auto
    then show ?thesis
      using True g p by (auto simp: backed_by_grants_def whole_def)
  next
    case False
    then obtain c cs where cap: "cap = Some (c # cs)"
      by (cases cap) (auto simp: neq_Nil_conv)
    define narrowed where "narrowed = (case p_accounts p of All \<Rightarrow> c # cs | Only as \<Rightarrow> filter (\<lambda>a. a \<in> set (c # cs)) as)"
    have n: "narrowed \<noteq> []" "sc = whole\<lparr> s_accounts := Some (Only narrowed), s_everything := False, s_genericOrgs := [] \<rparr>"
      using eq unfolding cap option.case list.case narrowed_def[symmetric] by (simp_all split: if_splits)
    have "set narrowed \<subseteq> set (c # cs)" and "within (Some (Only narrowed)) (p_accounts p)"
      by (auto simp: narrowed_def split: reach.splits)
    then show ?thesis
      using n g p by (auto simp: backed_by_grants_def whole_def cap)
  qed
qed

lemma verify_read:
  assumes "verifyToken w tok now = Inr t"
  obtains body sig s j where "split_on 46 tok = [js ''v1'', body, sig]" "s \<in> set (secrets w)" "sig = sign w s body"
    "parse_json w (b64_decode w body) = Some j" "read_payload w now j = Inr t"
proof -
  obtain v body sig where parts: "split_on 46 tok = [v, body, sig]"
    using assms unfolding verifyToken_def by (auto split: if_splits list.splits)
  have v: "v = js ''v1''" and s: "list_ex (\<lambda>s. sig = sign w s body) (secrets w)"
    using assms unfolding verifyToken_def parts list.case by (auto split: if_splits)
  obtain j where "parse_json w (b64_decode w body) = Some j" "read_payload w now j = Inr t"
    using assms unfolding verifyToken_def parts list.case by (auto split: if_splits option.splits)
  then show thesis
    using that parts s by (auto simp: v list_ex_iff)
qed

lemma read_payload_ok:
  assumes "read_payload w now j = Inr t"
  shows "token_kind (Some j) = Some (t_scope t) \<and> now div 1000 < t_exp t \<and> isRevoked w (t_jti t) = Inr False
    \<and> (t_scope t = User \<longrightarrow> truthy (t_runId t)) \<and> (t_scope t = Account \<longrightarrow> t_sub t \<noteq> None)
    \<and> t_verbs t \<noteq> Some [] \<and> t_accounts t \<noteq> Some []"
proof -
  let ?f = "\<lambda>k. member (js k) (Some j)"
  obtain k where k: "token_kind (Some j) = Some k"
    using assms unfolding read_payload_def Let_def by (cases "token_kind (Some j)") simp_all
  note eq = assms[unfolded read_payload_def Let_def k option.case]
  have run: "k \<noteq> User \<or> truthy (?f ''runId'')"
    and sub: "k \<noteq> Account \<or> nonempty_text (?f ''sub'') \<noteq> None"
    using eq by (simp_all only: split: if_splits) simp_all
  have neg: "\<not> (k = User \<and> \<not> truthy (?f ''runId''))" "\<not> (k = Account \<and> nonempty_text (?f ''sub'') = None)"
    using run sub by auto
  note eq2 = eq[unfolded if_not_P[OF neg(1)] if_not_P[OF neg(2)]]
  obtain e where e: "?f ''exp'' = Some (JNum e)" and fresh: "now div 1000 < e"
    using eq2 by (auto split: option.splits json.splits if_splits)
  have nle: "\<not> e \<le> now div 1000" using fresh by simp
  note eq3 = eq2[unfolded e option.case json.case if_not_P[OF nle]]
  have rev: "isRevoked w (nonempty_text (?f ''jti'')) = Inr False"
    using eq3 by (cases "isRevoked w (nonempty_text (?f ''jti''))") (auto split: bool.splits)
  have t: "t = \<lparr> t_scope = k, t_runId = (if nullish (?f ''runId'') then None else ?f ''runId''), t_exp = e,
      t_sub = nonempty_text (?f ''sub''), t_verbs = nonempty_keys (?f ''verbs''),
      t_accounts = nonempty_keys (?f ''accounts''), t_jti = nonempty_text (?f ''jti'') \<rparr>"
    using eq3 unfolding rev by simp
  have "truthy v \<Longrightarrow> \<not> nullish v" for v
    by (cases v rule: nullish.cases) auto
  then show ?thesis
    using k run sub fresh rev unfolding t by (auto simp: nonempty_keys_def)
qed

lemma split_fold:
  "d \<notin> set a \<Longrightarrow> List.fold (\<lambda>c (ls, l). if c = d then (ls @ [l], []) else (ls, l @ [c])) a (ls, l) = (ls, l @ a)"
  by (induction a arbitrary: l) auto

lemma split_three:
  assumes "d \<notin> set a" and "d \<notin> set b" and "d \<notin> set c"
  shows "split_on d (a @ [d] @ b @ [d] @ c) = [a, b, c]"
  unfolding split_on_def using assms by (simp add: split_fold)

lemma texts_map [simp]: "texts (map JStr xs) = xs"
  by (induction xs) auto

lemma keys_map [simp]: "list_all is_str (map JStr xs)"
  by (induction xs) auto

text \<open>What a minted payload reads back as.\<close>

lemma minted_members:
  "member (js ''scope'') (Some (mint_payload r now jti)) = Some (JStr (m_scope r))"
  "member (js ''exp'') (Some (mint_payload r now jti)) = Some (JNum (now div 1000 + m_ttlSec r))"
  "member (js ''jti'') (Some (mint_payload r now jti)) = Some (JStr jti)"
  "member (js ''runId'') (Some (mint_payload r now jti)) =
     Some (case m_runId r of Some i \<Rightarrow> if m_scope r = js ''user'' then JStr i else JNull | None \<Rightarrow> JNull)"
  "member (js ''sub'') (Some (mint_payload r now jti)) = map_option JStr (m_sub r)"
  "member (js ''verbs'') (Some (mint_payload r now jti)) = map_option (JArr \<circ> map JStr) (m_verbs r)"
  "member (js ''accounts'') (Some (mint_payload r now jti)) = map_option (JArr \<circ> map JStr) (m_accounts r)"
  unfolding mint_payload_def
  by (cases "m_sub r"; cases "m_verbs r"; cases "m_accounts r"; simp)+

lemma mint_ok_lists:
  assumes "mint_refusal w r = None"
  shows "secret w \<noteq> []" and "m_verbs r \<noteq> Some []" and "m_accounts r \<noteq> Some []"
    and "\<exists>k. token_kind (Some (mint_payload r now jti)) = Some k \<and> kind_text k = m_scope r"
    and "m_scope r = js ''user'' \<Longrightarrow> m_runId r \<notin> {None, Some []}"
    and "m_scope r = js ''account'' \<Longrightarrow> m_sub r \<notin> {None, Some []}"
proof -
  have head: "secret w \<noteq> [] \<and> m_scope r \<in> {js ''ops'', js ''user'', js ''account''}
      \<and> (m_scope r = js ''user'' \<longrightarrow> m_runId r \<notin> {None, Some []}) \<and> (m_scope r = js ''account'' \<longrightarrow> m_sub r \<notin> {None, Some []})"
    using assms unfolding mint_refusal_def by (simp only: option.distinct simp_thms split: if_splits; blast)
  then show "secret w \<noteq> []" "m_scope r = js ''user'' \<Longrightarrow> m_runId r \<notin> {None, Some []}"
    "m_scope r = js ''account'' \<Longrightarrow> m_sub r \<notin> {None, Some []}" by blast+
  have "js ''ops'' \<noteq> js ''user''" "js ''ops'' \<noteq> js ''account''" "js ''user'' \<noteq> js ''account''" by simp_all
  then show "\<exists>k. token_kind (Some (mint_payload r now jti)) = Some k \<and> kind_text k = m_scope r"
    using head unfolding token_kind_def Let_def minted_members kind_text_def by (auto simp del: js_Cons js_Nil)
  show "m_verbs r \<noteq> Some []" "m_accounts r \<noteq> Some []"
    using assms unfolding mint_refusal_def by (auto split: if_splits option.splits)
qed

section \<open>What a session rests on\<close>

definition given_token :: "session \<Rightarrow> jstr option" where
  "given_token q = (case q_innerToken q of Some [] \<Rightarrow> None | t \<Rightarrow> t)"

lemma given_token: "given_token q = Some tok \<Longrightarrow> q_innerToken q = Some tok"
  by (auto simp: given_token_def split: option.splits list.splits)

definition has_proof :: "world \<Rightarrow> session \<Rightarrow> scope \<Rightarrow> bool" where
  "has_proof w q sc \<longleftrightarrow> (case s_kind sc of
      Internal \<Rightarrow> q_firmStaff q \<and> \<not> q_clientSurface q \<and> \<not> q_local q \<and> given_token q = None \<and> s_sub sc = q_email q
        \<and> (load w = Inr None \<or> backed_by_grants w sc \<or> s_accounts sc = Some (Only []) \<and> \<not> s_everything sc \<and> \<not> s_run sc)
    | Ops \<Rightarrow> \<not> q_clientSurface q \<and> (q_local q \<or>
        (\<exists>tok t. given_token q = Some tok \<and> verifyToken w tok (q_now q) = Inr t \<and> t_scope t = Ops \<and> s_verbs sc = t_verbs t
           \<and> s_sub sc = t_sub t \<and> s_accounts sc = Some (case t_accounts t of Some as \<Rightarrow> Only as | None \<Rightarrow> All)))
    | User \<Rightarrow> \<exists>tok t. given_token q = Some tok \<and> verifyToken w tok (q_now q) = Inr t \<and> t_scope t = User
        \<and> s_runId sc = t_runId t \<and> truthy (s_runId sc) \<and> s_sub sc = t_sub t
    | Account \<Rightarrow> q_clientSurface q \<and> q_accountAccess q \<and> backed_by_grants w sc
        \<and> (case given_token q of
             None \<Rightarrow> s_sub sc = q_email q
           | Some tok \<Rightarrow> \<exists>t. verifyToken w tok (q_now q) = Inr t \<and> t_scope t = Account \<and> s_sub sc = t_sub t
               \<and> (case t_accounts t of
                    Some (c # cs) \<Rightarrow> \<exists>as. s_accounts sc = Some (Only as) \<and> as \<noteq> [] \<and> set as \<subseteq> set (c # cs)
                  | _ \<Rightarrow> True)))"

lemma token_kind_not_internal: "token_kind p \<noteq> Some Internal"
  by (simp add: token_kind_def Let_def)

lemma token_never_internal: "verifyToken w tok now = Inr t \<Longrightarrow> t_scope t \<noteq> Internal"
  by (elim verify_read) (metis read_payload_ok token_kind_not_internal)

lemma token_run_bound: "verifyToken w tok now = Inr t \<Longrightarrow> t_scope t = User \<Longrightarrow> truthy (t_runId t)"
  using read_payload_ok by (elim verify_read) blast

lemma client_surface_proof:
  assumes "resolveScope w q = Inr sc" and surface: "q_clientSurface q"
  shows "has_proof w q sc"
proof -
  note eq1 = assms(1)[unfolded resolveScope_def given_token_def[symmetric] Let_def if_P[OF surface]]
  show ?thesis
  proof (cases "given_token q")
    case None
    then have "q_accountAccess q" and "personScope w (q_email q) None = Inr sc"
      using eq1 by (auto split: if_splits)
    then show ?thesis
      using personScope_backed[of w "q_email q" None sc] surface None by (simp add: has_proof_def)
  next
    case (Some tok)
    then obtain t where t: "verifyToken w tok (q_now q) = Inr t"
      using eq1 by (auto split: sum.splits)
    note eq2 = eq1[unfolded Some option.case t sum.case]
    show ?thesis
    proof (cases "t_scope t = Account")
      case True
      then have "q_accountAccess q" and "personScope w (t_sub t) (t_accounts t) = Inr sc"
        using eq2 by (auto split: if_splits)
      then show ?thesis
        using personScope_backed[of w "t_sub t" "t_accounts t" sc] surface Some t True
        by (auto simp: has_proof_def split: option.splits list.splits)
    next
      case False
      then have "t_scope t = User" and "sc = plain_scope User (t_runId t) (t_sub t) None None"
        using eq2 by (auto split: if_splits)
      then show ?thesis
        using t Some token_run_bound[OF t] by (simp add: plain_scope_def has_proof_def)
    qed
  qed
qed

lemma staff_surface_proof:
  assumes "resolveScope w q = Inr sc" and surface: "\<not> q_clientSurface q" and notlocal: "\<not> q_local q"
  shows "has_proof w q sc"
proof -
  note eq2 = assms(1)[unfolded resolveScope_def given_token_def[symmetric] Let_def if_not_P[OF surface] if_not_P[OF notlocal]]
  show ?thesis
  proof (cases "given_token q")
    case (Some tok)
    then obtain t where t: "verifyToken w tok (q_now q) = Inr t"
      using eq2 by (auto split: sum.splits)
    show ?thesis
      using eq2[unfolded Some option.case t sum.case] t Some surface token_run_bound[OF t]
        token_never_internal[OF t]
      by (cases "t_scope t") (auto simp: plain_scope_def has_proof_def)
  next
    case None
    note eq3 = eq2[unfolded None option.case]
    have staff: "q_firmStaff q" using eq3 by (auto split: if_splits)
    note eq4 = eq3[unfolded if_P[OF staff]]
    obtain gl where gl: "load w = Inr gl" using eq4 by (auto split: sum.splits)
    show ?thesis
    proof (cases gl)
      case None
      then show ?thesis
        using eq4 gl staff surface notlocal \<open>given_token q = None\<close> by (auto simp: plain_scope_def has_proof_def)
    next
      case (Some g)
      then obtain pl where pl: "resolve w (q_email q) (Some g) = Inr pl"
        using eq4 gl by (auto split: sum.splits)
      show ?thesis
        using eq4[unfolded gl sum.case Some option.case pl] staff surface notlocal \<open>given_token q = None\<close> gl Some pl
        by (cases pl) (auto simp: plain_scope_def backed_by_grants_def has_proof_def)
    qed
  qed
qed

section \<open>Sample sessions\<close>

definition demo_request :: mint_request where
  "demo_request = \<lparr> m_scope = js ''account'', m_runId = None, m_ttlSec = 3600, m_sub = Some (js ''U@a.c''),
     m_verbs = None, m_accounts = Some [js ''am''] \<rparr>"

definition demo_world :: world where
  "demo_world = \<lparr> secret = js ''k'', previous_secret = [], sign = (\<lambda>s b. map (\<lambda>c. c + 47) s @ b),
     b64_encode = map (\<lambda>c. c + 47), b64_decode = map (\<lambda>c. c - 47),
     parse_json = (\<lambda>t. if t = js ''P'' then Some (mint_payload demo_request 0 (js ''id'')) else None),
     print_json = (\<lambda>j. if j = mint_payload demo_request 0 (js ''id'') then js ''P'' else []), lower_case = map low1,
     denylist_named = False, denylist = DenyMissing, grants = Loaded demo_grants \<rparr>"

definition demo_token :: token where
  "demo_token = \<lparr> t_scope = Account, t_runId = None, t_exp = 3600, t_sub = Some (js ''U@a.c''), t_verbs = None,
     t_accounts = Some [js ''am''], t_jti = Some (js ''id'') \<rparr>"

definition demo_user :: scope where "demo_user = plain_scope User (Some (JStr (js ''r1''))) None None None"

definition demo_account :: scope where
  "demo_account = \<lparr> s_kind = Account, s_runId = None, s_sub = Some (js ''u@a.c''), s_verbs = None,
     s_accounts = Some (Only [js ''am'']), s_everything = False, s_run = True, s_manage = False, s_genericOrgs = [] \<rparr>"

lemma demo_load: "load demo_world = Inr (Some demo_grants)"
proof -
  have "truthy (Some demo_grants)" "\<exists>fs. member (js ''tenants'') (Some demo_grants) = Some (JObj fs)"
    by (simp_all add: demo_grants_def)
  then show ?thesis
    using demo_shape by (auto simp: load_def demo_world_def loadGrants_def simp del: js_Cons js_Nil)
qed

lemma demo_resolve: "resolve demo_world (Some (js ''U@a.c'')) (Some demo_grants) = Inr (Some demo_person)"
  using demo_resolves by (simp add: resolve_def demo_world_def)

section \<open>Properties\<close>

text \<open>C2: A run-bound (report link) session stays in its run and reads only. Whatever the tool and the
  arguments, a call it may make is of a tool of the client layer, which neither writes nor crosses runs; the
  call goes out with the session's own run id, and had named that run or none; it reads no artifact but the
  report, and lists findings only by a curated group, never the raw trail.\<close>

theorem user_session_pinned:
  assumes "authorize w sc tool a = Inr a'" and "s_kind sc = User"
  shows "clientSafe (rule_of tool) \<and> \<not> r_write (rule_of tool) \<and> \<not> crossRun (rule_of tool)
    \<and> truthy (s_runId sc) \<and> arg ''runId'' a' = s_runId sc
    \<and> (nullish (arg ''runId'' a) \<or> template (arg ''runId'' a) = template (s_runId sc))
    \<and> (tool \<noteq> ''read_artifact'' \<or> text_in (arg ''name'' a) USER_ARTIFACTS)
    \<and> (tool \<noteq> ''list_findings'' \<or> text_in (arg ''group'' a') USER_FINDING_GROUPS \<and> arg ''kind'' a' = None)"
proof -
  have "authorize_user sc tool a = Inr a'"
    using assms by (auto simp: authorize_def split: if_splits)
  note ok = authorize_user_ok[OF this]
  then show ?thesis
    using clientSafe_rule[of tool] by blast
qed

theorem user_session_pinned_witness:
  "arg ''runId'' (put ''runId'' (JStr (js ''r1'')) []) = Some (JStr (js ''r1''))"
proof -
  have "rule_of ''brief'' = no_rule\<lparr> clientSafe := True, accountSafe := True \<rparr>"
    by (simp add: rule_of_def TOOL_SCOPES_def)
  then have "authorize demo_world demo_user ''brief'' [] = Inr (put ''runId'' (JStr (js ''r1'')) [])"
    by (simp add: authorize_def authorize_user_def demo_user_def plain_scope_def no_rule_def arg_def)
  from user_session_pinned[OF this] show ?thesis
    by (simp add: demo_user_def plain_scope_def)
qed

text \<open>C3: Writing takes authority. A call of a tool that changes state passes only for an ops session whose
  verbs, if it has any, name the tool, or for a client account whose person holds Run; a planned run takes Run
  from an account too. An internal or a report-link session never writes.\<close>

theorem write_needs_authority:
  assumes "authorize w sc tool a = Inr a'" and "r_write (rule_of tool) \<or> tool = ''plan_run'' \<and> s_kind sc = Account"
  shows "s_kind sc = Ops \<and> (case s_verbs sc of None \<Rightarrow> True | Some vs \<Rightarrow> js tool \<in> set vs)
    \<or> s_kind sc = Account \<and> s_run sc \<and> accountSafe (rule_of tool)"
proof (cases "s_kind sc")
  case Ops
  then have "authorize_ops w sc tool a = Inr a'" and "r_write (rule_of tool)"
    using assms by (auto simp: authorize_def split: if_splits)
  then show ?thesis
    using Ops by (auto simp: authorize_ops_def split: if_splits option.splits)
next
  case Account
  then have acc: "authorize_account sc tool a = Inr a'"
    using assms(1) by (auto simp: authorize_def split: if_splits)
  have list_findings_read: "\<not> r_write (rule_of ''list_findings'')"
    by (simp add: rule_of_def TOOL_SCOPES_def no_rule_def)
  have "accountSafe (rule_of tool)" and "s_run sc"
    using acc assms(2) list_findings_read Account by (auto simp: authorize_account_def split: if_splits)
  then show ?thesis using Account by simp
qed (use assms in \<open>auto simp: authorize_def split: if_splits\<close>)

theorem write_needs_authority_witness:
  "s_run demo_account \<and> accountSafe (rule_of ''stop_run'')"
proof -
  have "rule_of ''stop_run'' = no_rule\<lparr> r_write := True, accountSafe := True \<rparr>"
    by (simp add: rule_of_def TOOL_SCOPES_def)
  then have "authorize demo_world demo_account ''stop_run'' [] = Inr [] \<and> r_write (rule_of ''stop_run'')"
    by (simp add: authorize_def authorize_account_def demo_account_def no_rule_def starts_job_def)
  then show ?thesis
    using write_needs_authority[of demo_world demo_account "''stop_run''" "[]" "[]"] by (auto simp: demo_account_def)
qed

text \<open>What is not listed is refused: for a report link, a client account or a staff session, a call of a tool
  that the tool list hides from the session is refused whatever its arguments. (An ops session is the
  exception, as in the code: over HTTP the what-if tools are unlisted, and authorised.)\<close>

theorem hidden_tool_refused:
  assumes "\<not> visibleTools (s_kind sc) here False tool" and "s_kind sc \<noteq> Ops"
  shows "\<exists>e. authorize w sc tool a = Inl e"
proof (cases "s_kind sc")
  case Account
  then show ?thesis
    using assms by (simp add: authorize_def authorize_account_def visibleTools_def)
next
  case User
  then show ?thesis
    using assms by (simp add: authorize_def authorize_user_def visibleTools_def)
next
  case Internal
  then show ?thesis
    using assms by (simp add: authorize_def visibleTools_def)
qed (use assms in simp)

theorem hidden_tool_refused_witness:
  "\<exists>e. authorize demo_world demo_user ''get_telemetry'' [] = Inl e"
  by (rule hidden_tool_refused[of demo_user True])
     (simp_all add: visibleTools_def demo_user_def plain_scope_def rule_of_def TOOL_SCOPES_def no_rule_def)

text \<open>C4: What a client account may order. A search or a plan that passes is for a profile within the person's
  access; it names the session's identity, where it has one, as its email, whatever the caller wrote; a search that a person
  without access to everything starts is marked as a client's; a Generic job is filed under an organisation whose Generic the
  person sees (or under none, for a person who sees everything), and on any other job the tenant the caller
  asked for is dropped.\<close>

theorem account_order_confined:
  assumes "authorize w sc tool a = Inr a'" and "s_kind sc = Account" and "starts_job tool"
  shows "s_run sc \<and> profile_key a' = profile_key a
    \<and> (case s_sub sc of Some s \<Rightarrow> arg ''forwarderEmail'' a' = Some (JStr s) | None \<Rightarrow> True)
    \<and> (tool \<noteq> ''start_run'' \<or> s_everything sc \<or> arg ''clientPrincipal'' a' = Some (JBool True))
    \<and> (if profile_key a = JStr GENERIC
       then grantsGeneric sc \<and> (s_everything sc \<and> arg ''tenant'' a' = None
              \<or> (\<exists>t\<in>set (s_genericOrgs sc). arg ''tenant'' a' = Some (JStr t)))
       else arg ''tenant'' a' = None
         \<and> (s_accounts sc = Some All \<or> (\<exists>acc. s_accounts sc = Some (Only acc) \<and> text_in (Some (profile_key a)) acc)))"
proof -
  have acc: "authorize_account sc tool a = Inr a'"
    using assms by (auto simp: authorize_def split: if_splits)
  have "s_run sc \<and> account_job sc tool a = Inr a'"
    using acc assms(3) unfolding authorize_account_def starts_job_def
    by (auto simp: rule_of_def TOOL_SCOPES_def no_rule_def split: if_splits)
  then show ?thesis
    using account_job_ok[of sc tool a a'] by blast
qed

theorem account_order_confined_witness:
  "\<exists>a'. authorize demo_world demo_account ''start_run'' [(js ''profileKey'', JStr (js ''am'')), (js ''tenant'', JStr (js ''beta''))] = Inr a'
     \<and> arg ''tenant'' a' = None \<and> arg ''clientPrincipal'' a' = Some (JBool True)"
proof -
  let ?a = "[(js ''profileKey'', JStr (js ''am'')), (js ''tenant'', JStr (js ''beta''))]"
  have key: "profile_key ?a = JStr (js ''am'')" "js ''am'' \<noteq> GENERIC"
    by (simp_all add: profile_key_def arg_def GENERIC_def)
  have "rule_of ''start_run'' = no_rule\<lparr> r_write := True, crossRun := True, accountSafe := True \<rparr>"
    by (simp add: rule_of_def TOOL_SCOPES_def)
  then obtain a' where a': "authorize demo_world demo_account ''start_run'' ?a = Inr a'"
    using key by (auto simp: authorize_def authorize_account_def account_job_def demo_account_def no_rule_def
        starts_job_def text_in_def Let_def simp del: js_Cons js_Nil)
  from account_order_confined[OF this] show ?thesis
    using a' key by (auto simp: demo_account_def starts_job_def simp del: js_Cons js_Nil)
qed

text \<open>C1: No session without a proof. A session resolves to internal only for proven firm staff without a token, under
  their own address; to ops only locally or by a verified ops token, with that token's verbs, subject and accounts; to a
  report link only by a verified token bound to that run; and to a client account only on the client surface with account
  access switched on, for the address that signed in when there is no token and else for the subject of a verified
  account key, within the accounts the key is capped to, and with no more reach, no more organisations and no other
  switches than the grants file gives that identity now. A key that does not verify is never passed over for the
  address. The client surface yields neither ops nor internal.\<close>

theorem session_has_proof:
  assumes "resolveScope w q = Inr sc"
  shows "(case s_kind sc of
      Internal \<Rightarrow> q_firmStaff q \<and> \<not> q_clientSurface q \<and> \<not> q_local q \<and> given_token q = None \<and> s_sub sc = q_email q
        \<and> (load w = Inr None \<or> backed_by_grants w sc \<or> s_accounts sc = Some (Only []) \<and> \<not> s_everything sc \<and> \<not> s_run sc)
    | Ops \<Rightarrow> \<not> q_clientSurface q \<and> (q_local q \<or>
        (\<exists>tok t. given_token q = Some tok \<and> verifyToken w tok (q_now q) = Inr t \<and> t_scope t = Ops \<and> s_verbs sc = t_verbs t
           \<and> s_sub sc = t_sub t \<and> s_accounts sc = Some (case t_accounts t of Some as \<Rightarrow> Only as | None \<Rightarrow> All)))
    | User \<Rightarrow> \<exists>tok t. given_token q = Some tok \<and> verifyToken w tok (q_now q) = Inr t \<and> t_scope t = User
        \<and> s_runId sc = t_runId t \<and> truthy (s_runId sc) \<and> s_sub sc = t_sub t
    | Account \<Rightarrow> q_clientSurface q \<and> q_accountAccess q \<and> backed_by_grants w sc
        \<and> (case given_token q of
             None \<Rightarrow> s_sub sc = q_email q
           | Some tok \<Rightarrow> \<exists>t. verifyToken w tok (q_now q) = Inr t \<and> t_scope t = Account \<and> s_sub sc = t_sub t
               \<and> (case t_accounts t of
                    Some (c # cs) \<Rightarrow> \<exists>as. s_accounts sc = Some (Only as) \<and> as \<noteq> [] \<and> set as \<subseteq> set (c # cs)
                  | _ \<Rightarrow> True)))"
proof -
  have "has_proof w q sc" if "q_local q" "\<not> q_clientSurface q"
    using assms that by (auto simp: resolveScope_def Let_def has_proof_def plain_scope_def)
  then have "has_proof w q sc"
    using client_surface_proof[OF assms] staff_surface_proof[OF assms] by blast
  then show ?thesis unfolding has_proof_def .
qed

definition demo_session :: session where
  "demo_session = \<lparr> q_local = False, q_innerToken = None, q_email = Some (js ''U@a.c''), q_firmStaff = True,
     q_clientSurface = True, q_accountAccess = True, q_now = 0 \<rparr>"

theorem session_has_proof_witness:
  "\<exists>sc. resolveScope demo_world demo_session = Inr sc \<and> s_kind sc = Account \<and> backed_by_grants demo_world sc
     \<and> s_sub sc = Some (js ''U@a.c'')"
proof -
  have "\<exists>sc. resolveScope demo_world demo_session = Inr sc \<and> s_kind sc = Account"
    unfolding resolveScope_def demo_session_def session.simps option.case Let_def personScope_def demo_load sum.case
      demo_resolve by simp
  then obtain sc where sc: "resolveScope demo_world demo_session = Inr sc" "s_kind sc = Account" by blast
  have "given_token demo_session = None" "q_email demo_session = Some (js ''U@a.c'')"
    by (simp_all add: given_token_def demo_session_def del: js_Cons)
  with session_has_proof[OF sc(1)] show ?thesis
    using sc by auto
qed

text \<open>C37: A minted token verifies, and to what was minted: when the text and the signature hold no dot, the codec
  and JSON give back what they were given, the token has not run out and its id is not on the denylist,
  verification yields the scope, the run, the subject, the verbs, the accounts, the expiry and the id that were
  asked for. Nothing is widened on the way: an absent list stays absent.\<close>

theorem mint_verify_roundtrip:
  assumes "mintToken w r now jti = Inr tok"
    and "\<forall>x. b64_decode w (b64_encode w x) = x" and "\<forall>x. 46 \<notin> set (b64_encode w x)" and "\<forall>s x. 46 \<notin> set (sign w s (b64_encode w x))"
    and "parse_json w (print_json w (mint_payload r now jti)) = Some (mint_payload r now jti)"
    and "later div 1000 < now div 1000 + m_ttlSec r" and "jti \<noteq> []" and "isRevoked w (Some jti) = Inr False"
  shows "\<exists>t. verifyToken w tok later = Inr t \<and> kind_text (t_scope t) = m_scope r
    \<and> t_runId t = (if m_scope r = js ''user'' then map_option JStr (m_runId r) else None)
    \<and> t_exp t = now div 1000 + m_ttlSec r
    \<and> t_sub t = (if m_sub r = Some [] then None else m_sub r)
    \<and> t_verbs t = m_verbs r \<and> t_accounts t = m_accounts r \<and> t_jti t = Some jti"
proof -
  let ?p = "mint_payload r now jti"
  let ?b = "b64_encode w (print_json w ?p)"
  have ok: "mint_refusal w r = None"
    using assms(1) by (auto simp: mintToken_def split: option.splits)
  note lists = mint_ok_lists[OF ok]
  have tok: "tok = js ''v1'' @ [46] @ ?b @ [46] @ sign w (secret w) ?b"
    using assms(1) ok by (simp add: mintToken_def Let_def)
  have split: "split_on 46 tok = [js ''v1'', ?b, sign w (secret w) ?b]"
    unfolding tok by (rule split_three) (use assms(3,4) in simp_all)
  obtain k where k: "token_kind (Some ?p) = Some k" "kind_text k = m_scope r"
    using lists(4) by blast
  have ku: "k = User \<longleftrightarrow> m_scope r = js ''user''" "k = Account \<longleftrightarrow> m_scope r = js ''account''"
    using k(2) by (cases k; auto simp: kind_text_def dest: sym[of _ "m_scope r"])+
  have guard: "\<not> (k = User \<and> \<not> truthy (member (js ''runId'') (Some ?p)))"
    "\<not> (k = Account \<and> nonempty_text (member (js ''sub'') (Some ?p)) = None)"
    using lists(5,6) unfolding ku minted_members by (auto simp: nonempty_text_def split: option.splits)
  have fresh: "\<not> now div 1000 + m_ttlSec r \<le> later div 1000"
    using assms(6) by simp
  have jti: "nonempty_text (member (js ''jti'') (Some ?p)) = Some jti"
    using assms(7) by (simp add: minted_members nonempty_text_def del: js_Cons js_Nil)
  have sigs: "list_ex (\<lambda>s. sign w (secret w) ?b = sign w s ?b) (secrets w)"
    using lists(1) by (simp add: secrets_def)
  have parsed: "parse_json w (b64_decode w ?b) = Some ?p"
    using assms(2,5) by simp
  define t where "t = \<lparr> t_scope = k,
      t_runId = (if nullish (member (js ''runId'') (Some ?p)) then None else member (js ''runId'') (Some ?p)),
      t_exp = now div 1000 + m_ttlSec r, t_sub = nonempty_text (member (js ''sub'') (Some ?p)),
      t_verbs = nonempty_keys (member (js ''verbs'') (Some ?p)),
      t_accounts = nonempty_keys (member (js ''accounts'') (Some ?p)), t_jti = Some jti \<rparr>"
  have "read_payload w later ?p = Inr t"
    unfolding read_payload_def Let_def k(1) option.case if_not_P[OF guard(1)] if_not_P[OF guard(2)] jti
    unfolding minted_members(2) option.case json.case if_not_P[OF fresh] assms(8) sum.case bool.case t_def ..
  then have v: "verifyToken w tok later = Inr t"
    unfolding verifyToken_def split list.case if_not_P[OF lists(1)]
    using sigs parsed by (simp del: js_Cons js_Nil)
  have keys: "nonempty_keys (map_option (JArr \<circ> map JStr) xs) = xs" if "xs \<noteq> Some []" for xs
    using that by (cases xs) (auto simp: nonempty_keys_def)
  have "t_runId t = (if m_scope r = js ''user'' then map_option JStr (m_runId r) else None)"
    using lists(5) unfolding t_def token.simps minted_members
    by (cases "m_runId r") (auto simp del: js_Cons js_Nil)
  moreover have "t_sub t = (if m_sub r = Some [] then None else m_sub r)"
    unfolding t_def token.simps minted_members by (cases "m_sub r") (auto simp: nonempty_text_def)
  ultimately show ?thesis
    using v k(2) keys[OF lists(2)] keys[OF lists(3)]
    by (intro exI[of _ t] conjI) (simp_all add: t_def minted_members del: js_Cons js_Nil)
qed

theorem mint_verify_roundtrip_witness:
  "\<exists>tok t. mintToken demo_world demo_request 0 (js ''id'') = Inr tok \<and> verifyToken demo_world tok 0 = Inr t
     \<and> t_sub t = Some (js ''U@a.c'') \<and> t_accounts t = Some [js ''am'']"
proof -
  have "mint_refusal demo_world demo_request = None"
    by (simp add: mint_refusal_def demo_request_def demo_world_def)
  then obtain tok where tok: "mintToken demo_world demo_request 0 (js ''id'') = Inr tok"
    by (simp add: mintToken_def Let_def)
  have "\<exists>t. verifyToken demo_world tok 0 = Inr t \<and> kind_text (t_scope t) = m_scope demo_request
    \<and> t_runId t = (if m_scope demo_request = js ''user'' then map_option JStr (m_runId demo_request) else None)
    \<and> t_exp t = 0 div 1000 + m_ttlSec demo_request
    \<and> t_sub t = (if m_sub demo_request = Some [] then None else m_sub demo_request)
    \<and> t_verbs t = m_verbs demo_request \<and> t_accounts t = m_accounts demo_request \<and> t_jti t = Some (js ''id'')"
    by (rule mint_verify_roundtrip[OF tok])
       (auto simp: demo_world_def comp_def isRevoked_def demo_request_def)
  then show ?thesis
    using tok by (auto simp: demo_request_def)
qed

text \<open>C38: Nothing verifies without a signature, out of date or revoked. An accepted token has the form
  \<open>v1.body.signature\<close> with the signature one of the configured secrets makes of that body, names a known scope,
  has not expired, and its id passed the denylist; a report-link token is bound to a run and an account key to
  an identity; its verb and account lists are absent or not empty, so an empty list never reads as no limit.\<close>

theorem verify_sound:
  assumes "verifyToken w tok now = Inr t"
  shows "(\<exists>body s. s \<in> {secret w, previous_secret w} \<and> s \<noteq> [] \<and> split_on 46 tok = [js ''v1'', body, sign w s body])
    \<and> t_scope t \<noteq> Internal \<and> now div 1000 < t_exp t \<and> isRevoked w (t_jti t) = Inr False
    \<and> (t_scope t \<noteq> User \<or> truthy (t_runId t)) \<and> (t_scope t \<noteq> Account \<or> t_sub t \<noteq> None)
    \<and> t_verbs t \<noteq> Some [] \<and> t_accounts t \<noteq> Some []"
proof -
  obtain body sig s j where v: "split_on 46 tok = [js ''v1'', body, sig]" "s \<in> set (secrets w)" "sig = sign w s body"
    "read_payload w now j = Inr t"
    using verify_read[OF assms] by metis
  have "s \<in> {secret w, previous_secret w} \<and> s \<noteq> []"
    using v(2) by (auto simp: secrets_def split: if_splits)
  then have "\<exists>body s. s \<in> {secret w, previous_secret w} \<and> s \<noteq> [] \<and> split_on 46 tok = [js ''v1'', body, sign w s body]"
    using v(1,3) by blast
  moreover note read_payload_ok[OF v(4)]
  ultimately show ?thesis
    using token_never_internal[OF assms] by blast
qed

theorem verify_sound_witness:
  "\<exists>tok t. verifyToken demo_world tok 0 = Inr t \<and> isRevoked demo_world (t_jti t) = Inr False"
proof -
  have split: "split_on 46 (js ''v1'' @ [46] @ map (\<lambda>c. c + 47) (js ''P'') @ [46] @ sign demo_world (js ''k'') (map (\<lambda>c. c + 47) (js ''P'')))
      = [js ''v1'', map (\<lambda>c. c + 47) (js ''P''), sign demo_world (js ''k'') (map (\<lambda>c. c + 47) (js ''P''))]"
    by (rule split_three) (auto simp: demo_world_def)
  have "\<exists>t. verifyToken demo_world
      (js ''v1'' @ [46] @ map (\<lambda>c. c + 47) (js ''P'') @ [46] @ sign demo_world (js ''k'') (map (\<lambda>c. c + 47) (js ''P''))) 0 = Inr t"
    unfolding verifyToken_def split
    by (simp add: demo_world_def secrets_def read_payload_def token_kind_def mint_payload_def demo_request_def
        nonempty_text_def isRevoked_def Let_def)
  then obtain tok t where "verifyToken demo_world tok 0 = Inr t" by blast
  with verify_sound[OF this] show ?thesis by blast
qed

text \<open>A delegate never displaces the identity that acts. Whatever a caller asks to be recorded on behalf of,
  the attribution is the proved identity alone, or that identity, a colon and a delegate name of the plain
  characters, which holds no colon.\<close>

theorem attribution_keeps_identity:
  "attributionOf sc onBehalfOf = attributionOf sc None
   \<or> (\<exists>d. attributionOf sc onBehalfOf = attributionOf sc None @ js '':'' @ d \<and> d \<noteq> [] \<and> list_all delegate_char d
        \<and> 58 \<notin> set d \<and> length d \<le> 128)"
proof (cases "trimmed_text onBehalfOf")
  case None
  then show ?thesis by (simp add: attributionOf_def Let_def trimmed_text_def)
next
  case (Some d)
  then have "d \<noteq> []"
    by (auto simp: trimmed_text_def split: option.splits json.splits if_splits)
  moreover have "58 \<notin> set d" if "list_all delegate_char d"
    using that by (auto simp: list_all_iff delegate_char_def is_upper_def is_lower_def is_digit_def)
  ultimately show ?thesis
    using Some by (auto simp: attributionOf_def Let_def trimmed_text_def[of None])
qed
end
