(* ===== verification/RegisterProvider.thy ===== *)
theory RegisterProvider
  imports JsonValue
begin

text \<open>The calls a register provider answers, as the kernels of \<open>providers/_shared\<close> see them: the guard around
  each call (\<open>transport-guard.mjs\<close>), the count probe (\<open>count.mjs\<close>), a register's floor
  (\<open>shared/register-floor.mjs\<close>), the clip of a provider's words (\<open>provider-text.mjs\<close>).

  A provider is a parameter: its functions act on a state \<open>'w\<close> of which nothing is assumed, which stands for
  the network, the clock and whatever the provider keeps between calls. A call gives a result or rejects with
  the error thrown. The text of a tool result is modelled by what \<open>isToolError\<close> and \<open>parseToolText\<close> read in
  it: an error, text that is not JSON, or a response whose fields are read as the kernel reads them. Counts
  are integers.\<close>

section \<open>Calls that may reject\<close>

datatype 'a call = Resolved 'a | Rejected "json option"

definition CAPABILITY_GAP_MARKER :: jstr where "CAPABILITY_GAP_MARKER = js ''capability-gap:''"

fun first_present :: "json option list \<Rightarrow> json option" where
  "first_present [] = None"
| "first_present (v # vs) = (if nullish v then first_present vs else v)"

definition faultText :: "json option \<Rightarrow> string \<Rightarrow> jstr" where
  "faultText err where =
     (let cause = member (js ''cause'') err;
          code = first_present [member (js ''code'') err, member (js ''code'') cause,
                                member (js ''errno'') err, member (js ''errno'') cause];
          message = (case first_present [member (js ''message'') err, err] of
                       Some v \<Rightarrow> js_string v | None \<Rightarrow> js ''unknown cause'');
          causeMessage = (if truthy (member (js ''message'') cause) then template (member (js ''message'') cause) else []);
          detail = (if causeMessage \<noteq> [] \<and> causeMessage \<noteq> message then message @ js '' ('' @ causeMessage @ js '')'' else message);
          line = (if truthy code then template code @ [32, 8212, 32] else [])
                 @ js ''transport failure on the '' @ js where @ js '' call (no response from the provider): '' @ detail
      in replace_all CAPABILITY_GAP_MARKER (js ''capability-gap '') line)"

section \<open>A provider's answers\<close>

record page =
  pg_total :: "int option"
  pg_approximate :: bool
  pg_floor :: "int option"
  pg_rows :: "json list option"
  pg_more :: bool
  pg_cap :: "json option"
  pg_counts :: "jstr option"

datatype reply = ToolError jstr | Unparsed | Parsed page

datatype count_reply = Counted "int option" "jstr option" | NotCounted "jstr option"

datatype screen_reply = ScreenError | ScreenUnparsed | Screened "json list option" "jstr list"

definition guardToolCall :: "('a \<Rightarrow> 'w \<Rightarrow> reply call \<times> 'w) \<Rightarrow> string \<Rightarrow> 'a \<Rightarrow> 'w \<Rightarrow> reply \<times> 'w" where
  "guardToolCall fn where a w =
     (case fn a w of
        (Resolved r, w') \<Rightarrow> (r, w')
      | (Rejected err, w') \<Rightarrow> (ToolError (js ''ERROR: '' @ faultText err where), w'))"

definition guardScreenCall :: "('a \<Rightarrow> 'w \<Rightarrow> screen_reply call \<times> 'w) \<Rightarrow> 'a \<Rightarrow> 'w \<Rightarrow> screen_reply \<times> 'w" where
  "guardScreenCall fn a w = (case fn a w of (Resolved r, w') \<Rightarrow> (r, w') | (Rejected err, w') \<Rightarrow> (ScreenError, w'))"

definition guardCountCall :: "('a \<Rightarrow> 'w \<Rightarrow> count_reply call \<times> 'w) \<Rightarrow> string \<Rightarrow> 'a \<Rightarrow> 'w \<Rightarrow> count_reply \<times> 'w" where
  "guardCountCall fn where a w =
     (case fn a w of
        (Resolved r, w') \<Rightarrow> (r, w')
      | (Rejected err, w') \<Rightarrow> (NotCounted (Some (faultText err where)), w'))"

text \<open>The register's floor on an answer that gave one instead of a count: the flag and the number.\<close>

definition floorOf :: "page \<Rightarrow> int option" where
  "floorOf p = (if pg_approximate p then pg_floor p else None)"

text \<open>\<open>toLocaleString("en-US")\<close> of an integer: groups of three digits.\<close>

fun group_digits :: "nat \<Rightarrow> jstr \<Rightarrow> jstr" where
  "group_digits k [] = []"
| "group_digits k (d # ds) = (if k = 3 then 44 # d # group_digits 1 ds else d # group_digits (Suc k) ds)"

definition moreThan :: "int \<Rightarrow> jstr" where
  "moreThan n = js ''more than '' @ (if n < 0 then [45] else []) @ rev (group_digits 0 (rev (int_text \<bar>n\<bar>)))"

text \<open>A gateway gave up waiting: HTTP 504 or 524 between word boundaries, or the gateway's words for it.\<close>

definition word_char :: "unit16 \<Rightarrow> bool" where
  "word_char c \<longleftrightarrow> is_digit c \<or> is_upper c \<or> is_lower c \<or> c = 95"

definition whole_word :: "jstr \<Rightarrow> jstr \<Rightarrow> bool" where
  "whole_word p s = list_ex (\<lambda>i. (i = 0 \<or> \<not> word_char (s ! (i - 1)))
     \<and> (length s \<le> i + length p \<or> \<not> word_char (s ! (i + length p)))) (occurrences p s)"

definition isGatewayTimeout :: "jstr \<Rightarrow> bool" where
  "isGatewayTimeout s \<longleftrightarrow> whole_word (js ''HTTP 504'') s \<or> whole_word (js ''HTTP 524'') s
     \<or> js_includes (js ''gateway timeout'') (map low1 s) \<or> js_includes (js ''gateway time-out'') (map low1 s)"

text \<open>A text cut in the middle, its end kept: two fifths of what is left beside the ellipsis.\<close>

definition clipProviderText :: "jstr \<Rightarrow> nat \<Rightarrow> jstr" where
  "clipProviderText s limit =
     (if limit = 0 then []
      else if length s \<le> limit then s
      else if limit \<le> 3 then take limit s
      else
        let tail = max 1 ((4 * (limit - 1) + 5) div 10);
            head = limit - 1 - tail
        in take head s @ [8230] @ drop (length s - tail) s)"

section \<open>The count probe\<close>

datatype count_seam = Cheap | Endpoint | NoTotal

record probe =
  pr_total :: "int option"
  pr_floor :: "int option"
  pr_counts :: "jstr option"
  pr_reason :: jstr

definition failed_probe :: "jstr \<Rightarrow> probe" where
  "failed_probe why = \<lparr> pr_total = None, pr_floor = None, pr_counts = None, pr_reason = why \<rparr>"

text \<open>\<open>countHits\<close>: \<open>pr_total\<close> is present exactly when the probe is \<open>ok\<close>. \<open>search\<close> and \<open>count\<close> are the guarded
  calls, \<open>search\<close> already asked with the cheap parameters.\<close>

definition countHits ::
  "count_seam \<Rightarrow> ('q \<Rightarrow> 'w \<Rightarrow> reply \<times> 'w) \<Rightarrow> ('q \<Rightarrow> 'w \<Rightarrow> count_reply \<times> 'w) \<Rightarrow> 'q \<Rightarrow> 'w \<Rightarrow> probe \<times> 'w" where
  "countHits seam search count q w =
     (case seam of
        NoTotal \<Rightarrow> (failed_probe (js ''this register provider exposes no total anywhere in its responses, so a count cannot be taken''
                      @ [32, 8212, 32] @ js ''the number is UNKNOWN, which is not the same as none''), w)
      | Endpoint \<Rightarrow>
          (case count q w of
             (Counted (Some n) _, w') \<Rightarrow> (\<lparr> pr_total = Some n, pr_floor = None, pr_counts = None, pr_reason = [] \<rparr>, w')
           | (Counted None _, w') \<Rightarrow> (failed_probe (js ''count unavailable''), w')
           | (NotCounted why, w') \<Rightarrow> (failed_probe (case why of Some t \<Rightarrow> t | None \<Rightarrow> js ''count unavailable''), w'))
      | Cheap \<Rightarrow>
          (case search q w of
             (ToolError t, w') \<Rightarrow> (failed_probe (clipProviderText t 240), w')
           | (Unparsed, w') \<Rightarrow> (failed_probe (js ''unparseable search response on the count probe''), w')
           | (Parsed p, w') \<Rightarrow>
               (case pg_total p of
                  None \<Rightarrow> ((failed_probe (js ''the search response carried no usable total_hits, so nothing was counted''
                      @ [32, 8212, 32] @ js ''the number is UNKNOWN, which is not the same as none''))\<lparr> pr_floor := floorOf p \<rparr>, w')
                | Some n \<Rightarrow> (\<lparr> pr_total = Some n, pr_floor = None, pr_counts = pg_counts p, pr_reason = [] \<rparr>, w'))))"

lemma countHits_failed_search: "seam \<noteq> Endpoint \<Longrightarrow> \<forall>p. fst (search q w) \<noteq> Parsed p
    \<Longrightarrow> pr_total (fst (countHits seam search count q w)) = None"
  by (cases "search q w"; cases "fst (search q w)"; cases seam) (auto simp: countHits_def failed_probe_def)

end
