(* ===== verification/EnumerateText.thy ===== *)
theory EnumerateText
  imports RegisterProvider
begin

text \<open>The values of the enumeration kernel, \<open>providers/_shared/enumerate.mjs\<close>: the disposition of a part that
  was counted, the answer to a question, and the reasons an incomplete answer gives. The answer crosses the
  code as JSON text that the kernel itself writes and reads again; here it is the record read. A reason is
  kept as the text the code builds, because the kernel searches the reason of a part for the words of a stall.\<close>

section \<open>Counted parts\<close>

datatype disposition = VerifiedZero | Enumerated | Crowd | Unenumerated | CountError

record entry =
  e_total :: "int option"
  e_floor :: "int option"
  e_disposition :: disposition
  e_counts :: "jstr option"

definition isUnresolvedCount :: "entry \<Rightarrow> bool" where
  "isUnresolvedCount e \<longleftrightarrow> e_disposition e = Crowd \<or> e_disposition e = Unenumerated \<or> e_disposition e = CountError"

definition tally :: "disposition \<Rightarrow> ('k \<times> entry) list \<Rightarrow> nat" where
  "tally d counts = length (filter (\<lambda>(k, e). e_disposition e = d) counts)"

text \<open>The entry of a part that could not be counted: with the register's floor it is a crowd, else an error.\<close>

definition floorCount :: "probe \<Rightarrow> entry" where
  "floorCount p =
     (case pr_floor p of
        Some f \<Rightarrow> \<lparr> e_total = None, e_floor = Some f, e_disposition = Crowd, e_counts = None \<rparr>
      | None \<Rightarrow> \<lparr> e_total = None, e_floor = None, e_disposition = CountError, e_counts = None \<rparr>)"

definition counted :: "int \<Rightarrow> disposition \<Rightarrow> jstr option \<Rightarrow> entry" where
  "counted n d said = \<lparr> e_total = Some n, e_floor = None, e_disposition = d, e_counts = said \<rparr>"

section \<open>Answers\<close>

datatype band_state = Complete | Incomplete

datatype crowd_basis = ProviderRefusedCount | RegisterFloor

record lift_note =
  l_applied :: bool
  l_matched :: nat
  l_rows :: nat
  l_reason :: jstr

record answer_body =
  a_state :: band_state
  a_total :: "int option"
  a_count :: nat
  a_records :: "json list option"
  a_sample :: "json list"
  a_reason :: "jstr option"
  a_terms :: "(jstr \<times> entry) list option"
  a_classes :: "(int \<times> entry) list option"
  a_floor :: "int option"
  a_basis :: "crowd_basis option"
  a_timeout :: bool
  a_split :: "(jstr \<times> nat list) option"
  a_lift :: "lift_note option"
  a_counts :: "jstr option"

datatype answer = Failed jstr | Answer answer_body

definition incomplete :: "int option \<Rightarrow> nat \<Rightarrow> json list \<Rightarrow> jstr \<Rightarrow> answer_body" where
  "incomplete hits fetched sample reason =
     \<lparr> a_state = Incomplete, a_total = hits, a_count = fetched, a_records = None, a_sample = take 20 sample,
       a_reason = Some reason, a_terms = None, a_classes = None, a_floor = None, a_basis = None, a_timeout = False,
       a_split = None, a_lift = None, a_counts = None \<rparr>"

definition complete :: "int option \<Rightarrow> json list \<Rightarrow> answer_body" where
  "complete hits records =
     \<lparr> a_state = Complete, a_total = hits, a_count = length records, a_records = Some records, a_sample = [],
       a_reason = None, a_terms = None, a_classes = None, a_floor = None, a_basis = None, a_timeout = False,
       a_split = None, a_lift = None, a_counts = None \<rparr>"

definition floorStamp :: "int option \<Rightarrow> answer_body \<Rightarrow> answer_body" where
  "floorStamp floor b =
     (case floor of None \<Rightarrow> b | Some f \<Rightarrow> b\<lparr> a_floor := Some f, a_basis := Some RegisterFloor \<rparr>)"

text \<open>The answer with what its total counts stated on it; an error, or nothing heard, passes unchanged.\<close>

definition stampTotalCounts :: "answer \<Rightarrow> jstr option \<Rightarrow> answer" where
  "stampTotalCounts a said =
     (case (a, said) of (Answer b, Some (c # cs)) \<Rightarrow> Answer (b\<lparr> a_counts := Some (c # cs) \<rparr>) | _ \<Rightarrow> a)"

section \<open>Reasons\<close>

definition num_text :: "nat \<Rightarrow> jstr" where
  "num_text n = int_text (int n)"

definition stack_figure :: "int option \<Rightarrow> int option \<Rightarrow> jstr" where
  "stack_figure hits floor =
     (case floor of Some f \<Rightarrow> moreThan f
      | None \<Rightarrow> (case hits of Some t \<Rightarrow> int_text t | None \<Rightarrow> js ''null''))"

definition GATEWAY_STALL :: jstr where "GATEWAY_STALL = js ''mechanical-fail:timeout''"

definition isGatewayStall :: "jstr option \<Rightarrow> bool" where
  "isGatewayStall reason \<longleftrightarrow>
     js_includes (GATEWAY_STALL @ js '': after a gateway timeout'') (case reason of Some r \<Rightarrow> r | None \<Rightarrow> [])"

definition COUNT_PROBE_BUDGET :: nat where "COUNT_PROBE_BUDGET = 400"

definition CROWD_IS :: "jstr" where
  "CROWD_IS =
     js ''this is a CROWD, not a named exact/near band, and never a clean; what stays a crowd is recorded with its count.''"

definition over_ceiling :: "int \<Rightarrow> int \<Rightarrow> jstr" where
  "over_ceiling hits ceiling =
     js ''total_hits '' @ int_text hits @ js '' exceeds the enumerate ceiling '' @ int_text ceiling @ js '' '' @ [8212]
      @ js '' '' @ CROWD_IS"

definition stack_reason :: "int option \<Rightarrow> int option \<Rightarrow> int \<Rightarrow> nat \<Rightarrow> (jstr \<times> entry) list \<Rightarrow> jstr" where
  "stack_reason hits floor ceiling terms counts =
     js ''stack total_hits '' @ stack_figure hits floor @ js '' exceeds the enumerate ceiling '' @ int_text ceiling
      @ js ''; each spelling was counted and none was read ('' @ num_text terms @ js '' terms: ''
      @ num_text (tally VerifiedZero counts) @ js '' verified-zero, '' @ num_text (tally Unenumerated counts)
      @ js '' counted and not read, '' @ num_text (tally Crowd counts) @ js '' crowd, '' @ num_text (tally CountError counts)
      @ js '' error). term_counts carries each spelling'' @ [39]
      @ js ''s count: which to read, narrow or leave is the reading step'' @ [39]
      @ js ''s decision, and a populated term is never recorded 0.''"

definition class_reason :: "int option \<Rightarrow> int option \<Rightarrow> int \<Rightarrow> nat \<Rightarrow> (int \<times> entry) list \<Rightarrow> jstr" where
  "class_reason hits floor ceiling classes counts =
     js ''owner-scoped total_hits '' @ stack_figure hits floor @ js '' exceeds the enumerate ceiling '' @ int_text ceiling
      @ js ''; count-first per-CLASS rescue ran ('' @ num_text classes @ js '' classes: ''
      @ num_text (tally VerifiedZero counts) @ js '' verified-zero, '' @ num_text (tally Enumerated counts)
      @ js '' enumerated with records carried, '' @ num_text (tally Crowd counts) @ js '' crowd, ''
      @ num_text (tally Unenumerated counts) @ js '' unenumerated on budget, '' @ num_text (tally CountError counts)
      @ js '' error). Saturated class legs stay a CROWD descriptor for judgment; class_counts is the per-class truth ''
      @ [8212] @ js '' a populated class leg is never recorded 0 and never '' @ [34] @ js ''unopened'' @ [34] @ js ''.''"

definition both_halves_stalled :: "jstr \<Rightarrow> jstr" where
  "both_halves_stalled cause =
     js ''provider error '' @ [8212] @ js '' '' @ GATEWAY_STALL
      @ js '': after a gateway timeout the question was asked again on each half of its regions, and both halves timed out too, so the number of regions is not what makes it slow. It is not answered this run. The gateway''
      @ [39] @ js ''s words: '' @ cause"

definition one_region_stalled :: "jstr \<Rightarrow> jstr \<Rightarrow> jstr" where
  "one_region_stalled region words =
     js ''provider error '' @ [8212] @ js '' '' @ GATEWAY_STALL
      @ js '': after a gateway timeout the question was asked again in region halves down to the one region '' @ region
      @ js '', which timed out alone too, so it is not answered this run. The gateway'' @ [39] @ js ''s words: '' @ words"

definition half_text :: "jstr list \<Rightarrow> jstr" where
  "half_text half =
     js ''the '' @ num_text (length half) @ js ''-region half '' @ hd half
      @ (if length half > 1 then [8230] @ last half else [])"

definition half_reason :: "jstr list \<Rightarrow> jstr \<Rightarrow> jstr" where
  "half_reason half said =
     js ''after a gateway timeout the question was asked again in region halves, and '' @ half_text half @ js '' '' @ said"

definition window_text :: "nat \<Rightarrow> nat \<Rightarrow> nat \<Rightarrow> jstr" where
  "window_text i chunks k =
     js ''chunk '' @ num_text (Suc i) @ js ''/'' @ num_text chunks @ js '' ('' @ num_text k @ js '' names) ''"

definition cumulative_reason :: "int \<Rightarrow> int \<Rightarrow> nat \<Rightarrow> nat \<Rightarrow> jstr" where
  "cumulative_reason hits ceiling i chunks =
     js ''cumulative total_hits '' @ int_text hits @ js '' exceeds the enumerate ceiling '' @ int_text ceiling
      @ js '' across '' @ num_text (Suc i) @ js ''/'' @ num_text chunks @ js '' name chunks '' @ [8212]
      @ js '' a CROWD, not a named exact/near band; record it as a count+sample descriptor and hand it up to judgment, never a self-accepted clean.''"

definition rescued_reason :: "nat \<Rightarrow> jstr list \<Rightarrow> jstr" where
  "rescued_reason chunks notes =
     js ''count-first per-term rescue ran in '' @ num_text (length notes) @ js ''/'' @ num_text chunks @ js '' name chunks ''
      @ [8212]
      @ js '' saturated terms stay CROWD descriptors for judgment; term_counts is the per-term truth (a populated term is never recorded 0). ''
      @ join [32, 183, 32] notes"

definition count_refused :: "jstr \<Rightarrow> jstr" where
  "count_refused words =
     js ''the provider REFUSED to count this slice because it would match too much '' @ [8212]
      @ js '' a structural cardinality limit on the query shape, not an outage and not a transient. It will refuse the same shape identically on every future run, so retrying cannot change it. This is a CROWD: it is recorded as a count+sample descriptor, never accepted as clean. The total is UNKNOWN rather than zero ''
      @ [8212] @ js '' the count never returned. Provider'' @ [39] @ js ''s own words: ''
      @ clipProviderText words COUNT_PROBE_BUDGET"

definition count_failed :: "jstr option \<Rightarrow> jstr" where
  "count_failed why =
     js ''provider error on the count probe before enumeration: ''
      @ (case why of Some t \<Rightarrow> t | None \<Rightarrow> js ''count unavailable'')"

definition page_failed :: "nat \<Rightarrow> jstr \<Rightarrow> jstr" where
  "page_failed page words =
     js ''provider error during enumeration (page '' @ num_text page @ js ''): '' @ words"

definition page_unparsed :: "nat \<Rightarrow> jstr" where
  "page_unparsed page =
     js ''unparseable search response during enumeration (page '' @ num_text page @ js '')''"

definition floor_reason :: "int \<Rightarrow> jstr" where
  "floor_reason floor =
     js ''the register answered '' @ [34] @ moreThan floor @ [34]
      @ js '' for this question: a floor, not a count, so the set is too large to read. T'' @ tl CROWD_IS"

definition no_total_reason :: "nat \<Rightarrow> jstr" where
  "no_total_reason page =
     js ''provider error during enumeration (page '' @ num_text page
      @ js ''): the search response carried no usable total_hits, and on this provider the response IS the count '' @ [8212]
      @ js '' so the enumerate ceiling could not be tested and this band cannot be read as either a completed enumeration or a sanctioned crowd. The total is UNKNOWN (null, never 0).''"

definition past_ceiling :: "nat \<Rightarrow> int \<Rightarrow> jstr" where
  "past_ceiling fetched ceiling =
     num_text fetched @ js '' records fetched, past the enumerate ceiling '' @ int_text ceiling
      @ js '', and this provider exposes NO total anywhere in its response '' @ [8212]
      @ js '' so the size of the remainder is UNKNOWN (total_hits null, never 0). Treat this as a CROWD descriptor for judgment: narrow the named band and re-enumerate, or record the dilution. It is not a clean negative and not a completed enumeration.''"

definition guard_hit :: "nat \<Rightarrow> jstr \<Rightarrow> jstr" where
  "guard_hit guard window =
     js ''pagination guard hit ('' @ num_text guard @ js '' pages) before has_more:false '' @ [8212] @ js '' the provider''
      @ [39] @ js ''s reachable window ('' @ window
      @ js '') is exhausted; the remainder is unreachable by paging. This is an incomplete crowd descriptor, never a clean.''"

definition probe_divergence :: "int \<Rightarrow> nat \<Rightarrow> jstr" where
  "probe_divergence probed fetched =
     js ''provider error '' @ [8212] @ js '' count/search divergence: the count probe reported '' @ int_text probed
      @ js '' record(s) but the search returned '' @ num_text fetched
      @ js ''. The enumeration did NOT land completely and the shortfall is unaccounted, so this slice cannot be read as either a completed band or a sanctioned crowd.''"

definition response_divergence :: "int \<Rightarrow> nat \<Rightarrow> jstr" where
  "response_divergence hits fetched =
     js ''provider error '' @ [8212] @ js '' count/search divergence: the response counted '' @ int_text hits
      @ js '' record(s) but carried '' @ num_text fetched
      @ js '' row(s) with no further pages. A counted-but-rowless (or short) enumeration did NOT land completely, so this slice cannot be read as either a completed band or a sanctioned crowd.''"

definition content_call :: "jstr" where
  "content_call =
     js ''provider error '' @ [8212] @ js '' the record-content call (this provider'' @ [39]
      @ js ''s ONLY source of mark text, classes, status and owner: the search returns bare ids) ''"

definition content_end :: "jstr" where
  "content_end =
     js ''The band enumerated but its CONTENT did not land, so it cannot be read as a completed, screened band.''"

definition nothing_joined :: "nat \<Rightarrow> jstr" where
  "nothing_joined rows =
     js ''the batch-screen returned '' @ num_text rows @ js '' row(s) and none joined to a record '' @ [8212]
      @ js '' the join key did not line up''"

definition no_rows_field :: "jstr" where
  "no_rows_field =
     js ''the batch-screen response carried no `rows` array '' @ [8212]
      @ js '' the provider answered under a name this kernel does not read''"

definition join_reason :: "nat \<Rightarrow> nat \<Rightarrow> jstr \<Rightarrow> jstr" where
  "join_reason rows asked why =
     content_call @ js ''returned '' @ num_text rows @ js '' row(s) for '' @ num_text asked
      @ js '' record(s) and NOT ONE joined: '' @ why @ js ''. '' @ content_end"

definition content_reason :: "(nat \<times> nat) option \<Rightarrow> jstr list \<Rightarrow> jstr" where
  "content_reason cover errors =
     content_call
      @ (case cover of Some (rows, asked) \<Rightarrow> js ''covered '' @ num_text rows @ js '' of '' @ num_text asked @ js '' record(s) and reported '' @ num_text (length errors) @ js '' failed chunk(s)'' | None \<Rightarrow> js ''returned no usable response'')
      @ (if errors \<noteq> [] then js '': '' @ take 200 (join (js ''; '') errors) else []) @ js ''. '' @ content_end"

end
