(* ===== verification/Steps.thy ===== *)
theory Steps
  imports JsPrelude
begin

text \<open>Steps of asynchronous code: a step acts on a state and gives a value, or runs out of fuel (\<open>None\<close>).
  \<open>ensures m P\<close> says that whatever \<open>m\<close> gives satisfies \<open>P\<close>, \<open>returns m\<close> that it always gives something; the
  rules below take both apart along the code.\<close>

type_synonym ('w, 'a) act = "'w \<Rightarrow> ('a \<times> 'w) option"

definition ret :: "'a \<Rightarrow> ('w, 'a) act" where
  "ret x w = Some (x, w)"

definition bind :: "('w, 'a) act \<Rightarrow> ('a \<Rightarrow> ('w, 'b) act) \<Rightarrow> ('w, 'b) act" where
  "bind m f w = (case m w of None \<Rightarrow> None | Some (x, w') \<Rightarrow> f x w')"

lemma bind_run: "m w = Some (x, w') \<Longrightarrow> bind m f w = f x w'"
  by (simp add: bind_def)

definition io :: "('w \<Rightarrow> 'a \<times> 'w) \<Rightarrow> ('w, 'a) act" where
  "io f w = Some (f w)"

text \<open>A loop over a list; the body goes on (\<open>Inl\<close>) or returns from the function (\<open>Inr\<close>).\<close>

fun loop :: "('x \<Rightarrow> 's \<Rightarrow> ('w, 's + 'r) act) \<Rightarrow> 'x list \<Rightarrow> 's \<Rightarrow> ('w, 's + 'r) act" where
  "loop f [] s = ret (Inl s)"
| "loop f (x # xs) s = bind (f x s) (\<lambda>r. case r of Inl s' \<Rightarrow> loop f xs s' | Inr a \<Rightarrow> ret (Inr a))"

fun each_do :: "('x \<Rightarrow> 's \<Rightarrow> ('w, 's) act) \<Rightarrow> 'x list \<Rightarrow> 's \<Rightarrow> ('w, 's) act" where
  "each_do f [] s = ret s"
| "each_do f (x # xs) s = bind (f x s) (each_do f xs)"

text \<open>A step of the surrounding call, in a call that keeps a note of its own beside the state; and writing the
  note.\<close>

definition outer :: "('w, 'a) act \<Rightarrow> ('w \<times> 's, 'a) act" where
  "outer m ws = (case m (fst ws) of None \<Rightarrow> None | Some (x, w') \<Rightarrow> Some (x, (w', snd ws)))"

definition hear :: "'t option \<Rightarrow> ('w \<times> 't option, unit) act" where
  "hear t ws = Some ((), (fst ws, case t of Some s \<Rightarrow> Some s | None \<Rightarrow> snd ws))"

section \<open>What a step gives\<close>

named_theorems ensures_rules \<open>rules that take a step apart\<close>

definition ensures :: "('w, 'a) act \<Rightarrow> ('a \<Rightarrow> bool) \<Rightarrow> bool" where
  "ensures m P \<longleftrightarrow> (\<forall>w x w'. m w = Some (x, w') \<longrightarrow> P x)"

lemma ensuresD: "ensures m P \<Longrightarrow> m w = Some (x, w') \<Longrightarrow> P x"
  unfolding ensures_def by blast

lemma ensures_mono: "ensures m Q \<Longrightarrow> (\<And>x. Q x \<Longrightarrow> P x) \<Longrightarrow> ensures m P"
  unfolding ensures_def by blast

lemma ensures_None [ensures_rules]: "ensures (\<lambda>w. None) P"
  unfolding ensures_def by simp

lemma ensures_ret [ensures_rules]: "P x \<Longrightarrow> ensures (ret x) P"
  unfolding ensures_def ret_def by simp

lemma ensures_io: "(\<And>w. P (fst (f w))) \<Longrightarrow> ensures (io f) P"
  unfolding ensures_def io_def by (metis fst_conv option.inject)

lemma ensures_bind: "ensures m Q \<Longrightarrow> (\<And>x. Q x \<Longrightarrow> ensures (f x) P) \<Longrightarrow> ensures (bind m f) P"
  unfolding ensures_def bind_def by (clarsimp split: option.splits) blast

lemma ensures_any: "ensures m (\<lambda>x. True)"
  unfolding ensures_def by simp

lemma ensures_then: "(\<And>x. ensures (f x) P) \<Longrightarrow> ensures (bind m f) P"
  by (rule ensures_bind[OF ensures_any])

lemma ensures_outer: "ensures m P \<Longrightarrow> ensures (outer m) P"
  unfolding ensures_def outer_def by (auto split: option.splits)

lemma ensures_choose:
  "ensures m P \<Longrightarrow> ensures n P \<Longrightarrow> ensures (\<lambda>w. if b w then m w else n w) P"
  unfolding ensures_def by auto

lemma ensures_if: "(b \<Longrightarrow> ensures m P) \<Longrightarrow> (\<not> b \<Longrightarrow> ensures n P) \<Longrightarrow> ensures (if b then m else n) P"
  by simp

lemma ensures_loop:
  assumes "\<And>done x s. x \<in> set xs \<Longrightarrow> I done s \<Longrightarrow>
      ensures (f x s) (\<lambda>r. case r of Inl s' \<Rightarrow> I (done @ [x]) s' | Inr a \<Rightarrow> P a)"
    and "I ys s"
  shows "ensures (loop f xs s) (\<lambda>r. case r of Inl s' \<Rightarrow> I (ys @ xs) s' | Inr a \<Rightarrow> P a)"
  using assms
proof (induction xs arbitrary: ys s)
  case Nil
  then show ?case by (simp add: ensures_ret)
next
  case (Cons x xs)
  show ?case
    unfolding loop.simps
  proof (rule ensures_bind)
    show "ensures (f x s) (\<lambda>r. case r of Inl s' \<Rightarrow> I (ys @ [x]) s' | Inr a \<Rightarrow> P a)"
      using Cons.prems by simp
    fix r assume r: "case r of Inl s' \<Rightarrow> I (ys @ [x]) s' | Inr a \<Rightarrow> P a"
    show "ensures (case r of Inl s' \<Rightarrow> loop f xs s' | Inr a \<Rightarrow> ret (Inr a))
        (\<lambda>r. case r of Inl s' \<Rightarrow> I (ys @ x # xs) s' | Inr a \<Rightarrow> P a)"
    proof (cases r)
      case (Inl s')
      then show ?thesis using Cons.IH[of "ys @ [x]" s'] Cons.prems(1) r by simp
    next
      case (Inr a)
      then show ?thesis using r by (simp add: ensures_ret)
    qed
  qed
qed

lemma ensures_each:
  assumes "\<And>done x s. x \<in> set xs \<Longrightarrow> I done s \<Longrightarrow> ensures (f x s) (I (done @ [x]))" and "I ys s"
  shows "ensures (each_do f xs s) (I (ys @ xs))"
  using assms
proof (induction xs arbitrary: ys s)
  case Nil
  then show ?case by (simp add: ensures_ret)
next
  case (Cons x xs)
  show ?case
    unfolding each_do.simps
  proof (rule ensures_bind)
    show "ensures (f x s) (I (ys @ [x]))" using Cons.prems by simp
    show "ensures (each_do f xs s') (I (ys @ x # xs))" if "I (ys @ [x]) s'" for s'
      using Cons.IH[of "ys @ [x]" s'] Cons.prems(1) that by simp
  qed
qed

section \<open>A step that always gives something\<close>

named_theorems returns_rules \<open>rules for steps that always return\<close>

definition returns :: "('w, 'a) act \<Rightarrow> bool" where
  "returns m \<longleftrightarrow> (\<forall>w. m w \<noteq> None)"

lemma returns_ret [returns_rules]: "returns (ret x)"
  by (simp add: returns_def ret_def)

lemma returns_io [returns_rules]: "returns (io f)"
  by (simp add: returns_def io_def)

lemma returns_hear [returns_rules]: "returns (hear t)"
  by (simp add: returns_def hear_def)

lemma returns_bind: "returns m \<Longrightarrow> (\<And>x. returns (f x)) \<Longrightarrow> returns (bind m f)"
  by (fastforce simp: returns_def bind_def split: option.splits)

lemma returns_outer: "returns m \<Longrightarrow> returns (outer m)"
  by (fastforce simp: returns_def outer_def split: option.splits)

lemma returns_choose: "returns m \<Longrightarrow> returns n \<Longrightarrow> returns (\<lambda>w. if b w then m w else n w)"
  by (simp add: returns_def)

lemma returns_if: "(b \<Longrightarrow> returns m) \<Longrightarrow> (\<not> b \<Longrightarrow> returns n) \<Longrightarrow> returns (if b then m else n)"
  by simp

lemma returns_loop: "(\<And>x s. x \<in> set xs \<Longrightarrow> returns (f x s)) \<Longrightarrow> returns (loop f xs s)"
  by (induction xs arbitrary: s) (auto intro!: returns_ret returns_bind split: sum.split)

lemma returns_each: "(\<And>x s. x \<in> set xs \<Longrightarrow> returns (f x s)) \<Longrightarrow> returns (each_do f xs s)"
  by (induction xs arbitrary: s) (auto intro!: returns_ret returns_bind)

text \<open>More fuel: \<open>m\<close> gives whatever \<open>l\<close> gives.\<close>

definition extends :: "('w, 'a) act \<Rightarrow> ('w, 'a) act \<Rightarrow> bool" where
  "extends l m \<longleftrightarrow> (\<forall>w r. l w = Some r \<longrightarrow> m w = Some r)"

lemma extends_refl: "extends m m"
  by (simp add: extends_def)

lemma extends_bind: "extends l m \<Longrightarrow> (\<And>x. extends (f x) (g x)) \<Longrightarrow> extends (bind l f) (bind m g)"
  unfolding extends_def bind_def by (auto split: option.splits)

lemma extends_then: "(\<And>x. extends (f x) (g x)) \<Longrightarrow> extends (bind m f) (bind m g)"
  by (rule extends_bind[OF extends_refl])

lemma extends_outer: "extends l m \<Longrightarrow> extends (outer l) (outer m)"
  unfolding extends_def outer_def by (auto split: option.splits)

lemma extends_choose: "extends l m \<Longrightarrow> extends (\<lambda>w. if b w then l w else n w) (\<lambda>w. if b w then m w else n w)"
  unfolding extends_def by auto

lemma extends_if: "(b \<Longrightarrow> extends l m) \<Longrightarrow> (\<not> b \<Longrightarrow> extends l' m') \<Longrightarrow>
    extends (if b then l else l') (if b then m else m')"
  by simp

lemma extends_loop: "(\<And>x s. extends (f x s) (g x s)) \<Longrightarrow> extends (loop f xs s) (loop g xs s)"
  by (induction xs arbitrary: s) (auto intro!: extends_refl extends_bind split: sum.split)

lemma extends_each: "(\<And>x s. extends (f x s) (g x s)) \<Longrightarrow> extends (each_do f xs s) (each_do g xs s)"
  by (induction xs arbitrary: s) (auto intro!: extends_refl extends_bind)

lemma extends_returns: "extends l m \<Longrightarrow> returns l \<Longrightarrow> m w = l w"
  unfolding extends_def returns_def by (metis not_None_eq)

end
