(* ===== verification/ClaimLiveness.thy ===== *)
theory ClaimLiveness
  imports JsonValue
begin

text \<open>Is the process behind a queue claim alive (\<open>driver/claim-liveness.mjs\<close>): the claim's sidecar text, the
  birth stamp of a process, the verdict on a claimer, and the answer for a run's codename that a tool that
  deletes runs must have first.

  The process table is a parameter: what \<open>kill(pid, 0)\<close> does and which birth stamp can be read for a pid. On
  Linux the stamp is read from the text of \<open>/proc/<pid>/stat\<close>, which is modelled; the readers of the other
  platforms are external commands. Pids are natural numbers, below the precision of a JavaScript number.\<close>

section \<open>The birth stamp and the sidecar\<close>

text \<open>\<open>stat.slice(stat.lastIndexOf(")") + 2)\<close> is the text after the last parenthesis, less one character; where
  there is none, the whole text less one character.\<close>

definition after_last :: "'a \<Rightarrow> 'a list \<Rightarrow> 'a list" where
  "after_last c s = rev (takeWhile (\<lambda>x. x \<noteq> c) (rev s))"

definition procStarttime :: "(nat \<Rightarrow> jstr option) \<Rightarrow> nat \<Rightarrow> jstr option" where
  "procStarttime read_stat pid =
     (case read_stat pid of
        None \<Rightarrow> None
      | Some stat \<Rightarrow> js_at (tokens (\<lambda>c. \<not> is_space c) (js_trim (drop 1 (after_last 41 stat)))) 19)"

record claimer =
  c_pid :: nat
  c_start :: "jstr option"

fun number_of :: "jstr \<Rightarrow> nat" where
  "number_of [] = 0"
| "number_of (c # cs) = (c - 48) * 10 ^ length cs + number_of cs"

text \<open>\<open>/^\s*(\d+)(?::(\S+))?\s*$/\<close>.\<close>

definition parseClaimSidecar :: "jstr \<Rightarrow> claimer option" where
  "parseClaimSidecar text =
     (let t = js_trim text; ds = takeWhile is_digit t; rest = dropWhile is_digit t in
      if ds = [] then None
      else case rest of
             [] \<Rightarrow> Some \<lparr> c_pid = number_of ds, c_start = None \<rparr>
           | c # st \<Rightarrow> if c = 58 \<and> st \<noteq> [] \<and> list_all (\<lambda>x. \<not> is_space x) st
                       then Some \<lparr> c_pid = number_of ds, c_start = Some st \<rparr> else None)"

text \<open>What \<open>kill(pid, 0)\<close> does: the process answers, exists under another user (\<open>EPERM\<close>), or is not there.\<close>

datatype kill_answer = Answers | Forbidden | NoSuch

record process_table =
  kill :: "nat \<Rightarrow> kill_answer"
  starttimeOf :: "nat \<Rightarrow> jstr option"

definition claimerIsAlive :: "process_table \<Rightarrow> claimer option \<Rightarrow> bool" where
  "claimerIsAlive pt rec =
     (case rec of
        None \<Rightarrow> False
      | Some r \<Rightarrow>
          if c_pid r = 0 then False
          else if kill pt (c_pid r) = NoSuch then False
          else case c_start r of
                 None \<Rightarrow> True
               | Some st \<Rightarrow> (case starttimeOf pt (c_pid r) of None \<Rightarrow> True | Some cur \<Rightarrow> cur = st))"

text \<open>The token a claim is covered with: \<open>claimToken\<close> of \<open>driver/runner.mjs\<close>.\<close>

definition claimToken :: "claimer \<Rightarrow> jstr" where
  "claimToken r = int_text (int (c_pid r)) @ (case c_start r of None \<Rightarrow> [] | Some st \<Rightarrow> 58 # st)"

text \<open>The age of a claim, from the modification time of its sidecar, else of its marker.\<close>

definition claimAgeMs :: "(jstr \<Rightarrow> int option) \<Rightarrow> jstr \<Rightarrow> jstr \<Rightarrow> int \<Rightarrow> int" where
  "claimAgeMs mtime procPath markerPath now =
     (case mtime (procPath @ js ''.pid'') of
        Some t \<Rightarrow> now - t
      | None \<Rightarrow> (case mtime markerPath of Some t \<Rightarrow> now - t | None \<Rightarrow> 0))"

section \<open>The answer for a codename\<close>

datatype liveness = Alive | Gone | Unclaimed | Unreadable

definition CLAIM_META_SUFFIXES :: "jstr list" where
  "CLAIM_META_SUFFIXES = [js ''.processing.meta'', js ''.postponed.meta'']"

definition dated :: "jstr \<Rightarrow> bool" where
  "dated s \<longleftrightarrow> length s \<ge> 11 \<and> list_all is_digit (take 4 s) \<and> s ! 4 = 45 \<and> is_digit (s ! 5) \<and> is_digit (s ! 6)
     \<and> s ! 7 = 45 \<and> is_digit (s ! 8) \<and> is_digit (s ! 9) \<and> s ! 10 = 45"

definition codenameCandidates :: "jstr \<Rightarrow> jstr list" where
  "codenameCandidates name =
     (let raw = js_trim name; stripped = (if dated raw then drop 11 raw else raw) in
      if raw = [] then []
      else if stripped \<noteq> [] \<and> stripped \<noteq> raw then [raw, stripped] else [raw])"

datatype dir_answer = Entries "jstr list" | NotThere | NoAccess

record queue_disk =
  qd_list :: "jstr \<Rightarrow> dir_answer"
  qd_read :: "jstr \<times> jstr \<Rightarrow> jstr option"
  qd_parse :: "jstr \<Rightarrow> json option"

definition is_claim_meta :: "jstr \<Rightarrow> bool" where
  "is_claim_meta f \<longleftrightarrow> list_ex (\<lambda>s. ends_with s f) CLAIM_META_SUFFIXES"

text \<open>The name of the claim a \<open>.meta\<close> file belongs to.\<close>

definition claim_of :: "jstr \<Rightarrow> jstr" where
  "claim_of f = take (length f - 5) f"

definition claim_verdict :: "queue_disk \<Rightarrow> (claimer option \<Rightarrow> bool) \<Rightarrow> jstr \<Rightarrow> jstr \<Rightarrow> liveness" where
  "claim_verdict d isAlive q f =
     (case qd_read d (q, claim_of f @ js ''.pid'') of
        None \<Rightarrow> Unreadable
      | Some t \<Rightarrow> (case parseClaimSidecar t of
            None \<Rightarrow> Unreadable
          | Some r \<Rightarrow> if isAlive (Some r) then Alive else Gone))"

definition read_meta :: "queue_disk \<Rightarrow> jstr \<Rightarrow> jstr \<Rightarrow> json option" where
  "read_meta d q f = (case qd_read d (q, f) of None \<Rightarrow> None | Some t \<Rightarrow> qd_parse d t)"

definition meta_codename :: "json \<Rightarrow> jstr" where
  "meta_codename m = js_trim (string_or (member (js ''codename'') (Some m)) [])"

text \<open>One directory: \<open>Inl\<close> answers, \<open>Inr\<close> carries how many locations could not be read so far.\<close>

fun scan_entries ::
  "queue_disk \<Rightarrow> (claimer option \<Rightarrow> bool) \<Rightarrow> jstr list \<Rightarrow> jstr \<Rightarrow> jstr list \<Rightarrow> nat \<Rightarrow> liveness + nat" where
  "scan_entries d isAlive names q [] n = Inr n"
| "scan_entries d isAlive names q (f # fs) n =
     (if \<not> is_claim_meta f then scan_entries d isAlive names q fs n
      else case read_meta d q f of
             None \<Rightarrow> scan_entries d isAlive names q fs (Suc n)
           | Some m \<Rightarrow>
               if meta_codename m \<notin> set names then scan_entries d isAlive names q fs n
               else Inl (claim_verdict d isAlive q f))"

fun scan_dirs ::
  "queue_disk \<Rightarrow> (claimer option \<Rightarrow> bool) \<Rightarrow> jstr list \<Rightarrow> jstr list \<Rightarrow> nat \<Rightarrow> liveness" where
  "scan_dirs d isAlive names [] n = (if n > 0 then Unreadable else Unclaimed)"
| "scan_dirs d isAlive names (q # qs) n =
     (case qd_list d q of
        NotThere \<Rightarrow> scan_dirs d isAlive names qs n
      | NoAccess \<Rightarrow> scan_dirs d isAlive names qs (Suc n)
      | Entries fs \<Rightarrow>
          (case scan_entries d isAlive names q fs n of
             Inl v \<Rightarrow> v
           | Inr k \<Rightarrow> scan_dirs d isAlive names qs k))"

text \<open>\<open>queueDirs\<close>: the configuration threw, is no array, or lists the directories.\<close>

datatype queue_dirs = Unresolved | NoArray | Dirs "jstr list"

definition claimLivenessForCodename ::
  "queue_disk \<Rightarrow> (claimer option \<Rightarrow> bool) \<Rightarrow> queue_dirs \<Rightarrow> jstr \<Rightarrow> liveness" where
  "claimLivenessForCodename d isAlive dirs codename =
     (let names = codenameCandidates codename in
      if names = [] then Unreadable
      else case dirs of
             Unresolved \<Rightarrow> Unreadable
           | NoArray \<Rightarrow> Unclaimed
           | Dirs qs \<Rightarrow> scan_dirs d isAlive names qs 0)"

definition claimForbidsDestruction :: "liveness \<Rightarrow> bool" where
  "claimForbidsDestruction v \<longleftrightarrow> v = Alive \<or> v = Unreadable"

section \<open>The sidecar text reads back\<close>

lemma number_of_snoc: "number_of (ds @ [d]) = number_of ds * 10 + (d - 48)"
  by (induction ds) (auto simp: algebra_simps)

lemma digits_read: "n < k \<Longrightarrow> number_of (digits_fuel k n) = n \<and> list_all is_digit (digits_fuel k n) \<and> digits_fuel k n \<noteq> []"
proof (induction k arbitrary: n)
  case 0
  then show ?case by simp
next
  case (Suc k)
  show ?case
  proof (cases "n < 10")
    case True
    then show ?thesis by (simp add: is_digit_def)
  next
    case False
    then have "n div 10 < k" using Suc.prems by simp
    then show ?thesis using Suc.IH[of "n div 10"] False by (simp add: number_of_snoc is_digit_def)
  qed
qed

lemma digits_numeral [simp]:
  "digits_fuel (numeral k) n = (if n < 10 then [48 + n] else digits_fuel (pred_numeral k) (n div 10) @ [48 + n mod 10])"
  by (simp add: numeral_eq_Suc)

lemma pid_text: "number_of (int_text (int n)) = n" "list_all is_digit (int_text (int n))" "int_text (int n) \<noteq> []"
  using digits_read[of n "Suc n"] by (auto simp: int_text_def simp del: digits_fuel.simps)

lemma trim_tight: "s \<noteq> [] \<Longrightarrow> \<not> is_space (hd s) \<Longrightarrow> \<not> is_space (last s) \<Longrightarrow> js_trim s = s"
proof -
  assume s: "s \<noteq> []" "\<not> is_space (hd s)" "\<not> is_space (last s)"
  then have "dropWhile is_space s = s" by (cases s) auto
  moreover have "dropWhile is_space (rev s) = rev s"
    using s by (cases "rev s") (auto simp flip: hd_rev)
  ultimately show "js_trim s = s" by (simp add: js_trim_def)
qed

lemma digit_no_space: "is_digit c \<Longrightarrow> \<not> is_space c"
  by (auto simp: is_digit_def is_space_def)

definition stamp_ok :: "claimer \<Rightarrow> bool" where
  "stamp_ok r \<longleftrightarrow> (case c_start r of None \<Rightarrow> True | Some st \<Rightarrow> st \<noteq> [] \<and> list_all (\<lambda>x. \<not> is_space x) st)"

lemma parse_parts:
  assumes "js_trim t = ds @ rest" and "list_all is_digit ds" and "ds \<noteq> []" and "rest = [] \<or> hd rest = 58"
  shows "parseClaimSidecar t =
     (case rest of
        [] \<Rightarrow> Some \<lparr> c_pid = number_of ds, c_start = None \<rparr>
      | c # st \<Rightarrow> if st \<noteq> [] \<and> list_all (\<lambda>x. \<not> is_space x) st
                  then Some \<lparr> c_pid = number_of ds, c_start = Some st \<rparr> else None)"
proof -
  have "takeWhile is_digit (ds @ rest) = ds \<and> dropWhile is_digit (ds @ rest) = rest"
    using assms(2,4) by (cases rest) (auto simp: takeWhile_append dropWhile_append list_all_iff is_digit_def)
  then show ?thesis
    unfolding parseClaimSidecar_def assms(1) using assms(3,4) by (auto split: list.splits)
qed

lemma token_tight:
  assumes "stamp_ok r"
  shows "js_trim (claimToken r) = claimToken r" "claimToken r \<noteq> []"
proof -
  let ?ds = "int_text (int (c_pid r))"
  have ds: "list_all is_digit ?ds" "?ds \<noteq> []" using pid_text by auto
  show ne: "claimToken r \<noteq> []" using ds by (simp add: claimToken_def)
  show "js_trim (claimToken r) = claimToken r"
  proof (rule trim_tight[OF ne])
    show "\<not> is_space (hd (claimToken r))" using ds by (auto simp: claimToken_def list_all_iff digit_no_space)
    show "\<not> is_space (last (claimToken r))"
      using ds assms
      by (auto simp: claimToken_def stamp_ok_def list_all_iff digit_no_space split: option.splits)
  qed
qed

lemma token_reads_back:
  assumes "stamp_ok r"
  shows "parseClaimSidecar (claimToken r) = Some r"
proof -
  let ?ds = "int_text (int (c_pid r))" and ?rest = "case c_start r of None \<Rightarrow> [] | Some st \<Rightarrow> 58 # st"
  have "js_trim (claimToken r) = ?ds @ ?rest" using token_tight(1)[OF assms] by (simp add: claimToken_def)
  from parse_parts[OF this pid_text(2,3)] show ?thesis
    using assms pid_text(1)[of "c_pid r"] by (cases r) (auto simp: stamp_ok_def split: option.splits)
qed

section \<open>The stamp in the text of the process\<close>

lemma tokens_acc_word:
  "list_all keep w \<Longrightarrow> tokens_acc keep acc (w @ s) = tokens_acc keep (acc @ w) s"
  by (induction w arbitrary: acc) auto

lemma tokens_join:
  "\<forall>w\<in>set ws. w \<noteq> [] \<and> list_all keep w \<Longrightarrow> \<not> keep c \<Longrightarrow> tokens_acc keep [] (join [c] ws) = ws"
proof (induction "[c]" ws rule: join.induct)
  case (3 x y xs)
  then show ?case by (simp add: tokens_acc_word)
next
  case (2 x)
  then show ?case using tokens_acc_word[of keep x "[]" "[]"] by simp
qed simp_all

lemma join_ends: "ws \<noteq> [] \<Longrightarrow> \<forall>w\<in>set ws. w \<noteq> [] \<Longrightarrow>
    join [c] ws \<noteq> [] \<and> hd (join [c] ws) = hd (hd ws) \<and> last (join [c] ws) = last (last ws)"
  by (induction "[c]" ws rule: join.induct) auto

lemma set_join: "set (join [c] ws) \<subseteq> insert c (\<Union> (set ` set ws))"
  by (induction "[c]" ws rule: join.induct) auto

lemma after_last_after: "c \<notin> set b \<Longrightarrow> after_last c (a @ c # b) = b"
  by (simp add: after_last_def takeWhile_append)

lemma stat_stamp:
  assumes "\<forall>w\<in>set fs. w \<noteq> [] \<and> list_all (\<lambda>x. \<not> is_space x) w \<and> 41 \<notin> set w" and "length fs \<ge> 20"
    and "read pid = Some (before @ [41, 32] @ join [32] fs)"
  shows "procStarttime read pid = Some (fs ! 19)"
proof -
  have fs: "fs \<noteq> []" using assms(2) by auto
  have "41 \<notin> set (join [32] fs)" using set_join[of 32 fs] assms(1) by auto
  then have "after_last 41 (before @ [41, 32] @ join [32] fs) = 32 # join [32] fs"
    using after_last_after[of 41 "32 # join [32] fs" before] by simp
  moreover have "js_trim (join [32] fs) = join [32] fs"
  proof (rule trim_tight)
    have ends: "join [32] fs \<noteq> []" "hd (join [32] fs) = hd (hd fs)" "last (join [32] fs) = last (last fs)"
      using join_ends[OF fs, of 32] assms(1) by auto
    then show "join [32] fs \<noteq> []" by simp
    have "hd fs \<in> set fs" "last fs \<in> set fs" using fs by auto
    then show "\<not> is_space (hd (join [32] fs))" "\<not> is_space (last (join [32] fs))"
      using assms(1) ends by (auto simp: list_all_iff)
  qed
  moreover have "tokens (\<lambda>c. \<not> is_space c) (join [32] fs) = fs"
    unfolding tokens_def using assms(1) by (intro tokens_join) (auto simp: is_space_def)
  ultimately show ?thesis using assms(2,3) by (simp add: procStarttime_def js_at_Some)
qed

section \<open>The first claim decides\<close>

text \<open>The claims on a codename that the directories hold, in the order they are read.\<close>

definition entries_of :: "queue_disk \<Rightarrow> jstr \<Rightarrow> jstr list" where
  "entries_of d q = (case qd_list d q of Entries fs \<Rightarrow> filter is_claim_meta fs | _ \<Rightarrow> [])"

definition owns :: "queue_disk \<Rightarrow> jstr list \<Rightarrow> jstr \<times> jstr \<Rightarrow> bool" where
  "owns d names c = (case read_meta d (fst c) (snd c) of None \<Rightarrow> False | Some m \<Rightarrow> meta_codename m \<in> set names)"

definition claims_on :: "queue_disk \<Rightarrow> jstr list \<Rightarrow> jstr list \<Rightarrow> (jstr \<times> jstr) list" where
  "claims_on d names qs = filter (owns d names) (concat (map (\<lambda>q. map (Pair q) (entries_of d q)) qs))"

definition all_read :: "queue_disk \<Rightarrow> jstr list \<Rightarrow> bool" where
  "all_read d qs \<longleftrightarrow> (\<forall>q\<in>set qs. qd_list d q \<noteq> NoAccess \<and> (\<forall>f\<in>set (entries_of d q). read_meta d q f \<noteq> None))"

lemma entries_scanned:
  "(case scan_entries d al names q fs n of
      Inl v \<Rightarrow> \<exists>f\<in>set (filter is_claim_meta fs). owns d names (q, f)
        \<and> List.find (\<lambda>c. owns d names c) (map (Pair q) (filter is_claim_meta fs)) = Some (q, f) \<and> v = claim_verdict d al q f
    | Inr k \<Rightarrow> (\<forall>f\<in>set (filter is_claim_meta fs). \<not> owns d names (q, f))
        \<and> (k = n \<longleftrightarrow> (\<forall>f\<in>set (filter is_claim_meta fs). read_meta d q f \<noteq> None)) \<and> n \<le> k)"
proof (induction fs arbitrary: n)
  case Nil
  then show ?case by simp
next
  case (Cons f fs)
  show ?case
  proof (cases "is_claim_meta f \<and> read_meta d q f = None")
    case True
    then have "\<not> owns d names (q, f)" by (simp add: owns_def)
    then show ?thesis using True Cons[of "Suc n"] by (auto split: sum.splits)
  next
    case False
    then show ?thesis using Cons[of n] by (auto simp: owns_def split: sum.splits option.splits)
  qed
qed

lemma find_append: "List.find P (xs @ ys) = (case List.find P xs of Some x \<Rightarrow> Some x | None \<Rightarrow> List.find P ys)"
  by (induction xs) auto

lemma find_none: "List.find P xs = None \<longleftrightarrow> (\<forall>x\<in>set xs. \<not> P x)"
  by (induction xs) auto

lemma dirs_scanned:
  "scan_dirs d al names qs n =
     (case List.find (owns d names) (concat (map (\<lambda>q. map (Pair q) (entries_of d q)) qs)) of
        Some (q, f) \<Rightarrow> claim_verdict d al q f
      | None \<Rightarrow> if n = 0 \<and> all_read d qs then Unclaimed else Unreadable)"
proof (induction qs arbitrary: n)
  case Nil
  then show ?case by (simp add: all_read_def)
next
  case (Cons q qs)
  show ?case
  proof (cases "qd_list d q")
    case (Entries fs)
    then have es: "entries_of d q = filter is_claim_meta fs" by (simp add: entries_of_def)
    show ?thesis
    proof (cases "scan_entries d al names q fs n")
      case (Inl v)
      then show ?thesis
        using entries_scanned[where d = d and al = al and names = names and q = q and fs = fs and n = n] Entries es by (auto simp: find_append)
    next
      case (Inr k)
      then have none: "List.find (owns d names) (map (Pair q) (entries_of d q)) = None"
        and k: "k = n \<longleftrightarrow> (\<forall>f\<in>set (entries_of d q). read_meta d q f \<noteq> None)" "n \<le> k"
        using entries_scanned[where d = d and al = al and names = names and q = q and fs = fs and n = n] es by (auto simp: find_none)
      have "k = 0 \<and> all_read d qs \<longleftrightarrow> n = 0 \<and> all_read d (q # qs)"
        using k Entries by (auto simp: all_read_def)
      then show ?thesis using Inr none Entries Cons.IH[of k] by (simp add: find_append)
    qed
  next
    case NotThere
    then have "entries_of d q = []" "all_read d (q # qs) = all_read d qs" by (simp_all add: entries_of_def all_read_def)
    then show ?thesis using NotThere Cons.IH[of n] by simp
  next
    case NoAccess
    then have "entries_of d q = []" "\<not> all_read d (q # qs)" by (simp_all add: entries_of_def all_read_def)
    then show ?thesis using NoAccess Cons.IH[of "Suc n"] by simp
  qed
qed

lemma liveness_first_claim:
  assumes "codenameCandidates name \<noteq> []"
  shows "claimLivenessForCodename d al (Dirs qs) name =
     (case claims_on d (codenameCandidates name) qs of
        (q, f) # _ \<Rightarrow> claim_verdict d al q f
      | [] \<Rightarrow> if all_read d qs then Unclaimed else Unreadable)"
proof -
  have "List.find P xs = (case filter P xs of [] \<Rightarrow> None | x # _ \<Rightarrow> Some x)" for P :: "jstr \<times> jstr \<Rightarrow> bool" and xs
    by (induction xs) auto
  then show ?thesis
    using assms by (simp add: claimLivenessForCodename_def dirs_scanned claims_on_def split: list.splits)
qed

section \<open>Properties\<close>

text \<open>C31: A claim is covered by its process and by no other: the token a process writes reads back as that process,
  and its claimer is judged dead on positive evidence only, when no process has its pid or the process that has
  it was born at another time. A process that runs is never judged dead.\<close>

theorem claimer_dead_on_evidence:
  assumes "stamp_ok r" and "0 < c_pid r"
  shows "claimerIsAlive pt (parseClaimSidecar (claimToken r)) \<longleftrightarrow>
     kill pt (c_pid r) \<noteq> NoSuch
     \<and> \<not> (\<exists>st cur. c_start r = Some st \<and> starttimeOf pt (c_pid r) = Some cur \<and> cur \<noteq> st)"
  using assms by (auto simp: token_reads_back claimerIsAlive_def split: option.splits)

lemma claimer_dead_on_evidence_witness:
  "\<not> claimerIsAlive \<lparr> kill = (\<lambda>p. Forbidden), starttimeOf = (\<lambda>p. Some (js ''8'')) \<rparr> (parseClaimSidecar (js ''5:7''))
   \<and> claimerIsAlive \<lparr> kill = (\<lambda>p. Forbidden), starttimeOf = (\<lambda>p. None) \<rparr> (parseClaimSidecar (js ''5:7''))"
proof -
  have r: "stamp_ok \<lparr> c_pid = 5, c_start = Some (js ''7'') \<rparr>" "claimToken \<lparr> c_pid = 5, c_start = Some (js ''7'') \<rparr> = js ''5:7''"
    by (simp_all add: stamp_ok_def is_space_def claimToken_def int_text_def)
  show ?thesis using claimer_dead_on_evidence[OF r(1)] unfolding r(2) by simp
qed

text \<open>C32: Nothing is destroyed on an answer that was not read. A run may be corrected or purged only when a claim
  on its codename names a process that is dead, the first such claim in the order of the directories, or when
  every queue directory that exists was listed, every claim in it was read, and none is on the codename.\<close>

theorem destruction_needs_proof:
  assumes "\<not> claimForbidsDestruction (claimLivenessForCodename d al dirs name)"
  shows "codenameCandidates name \<noteq> [] \<and>
    (dirs = NoArray \<or>
     (\<exists>qs. dirs = Dirs qs \<and>
       ((claims_on d (codenameCandidates name) qs = [] \<and> all_read d qs) \<or>
        (\<exists>q f cs t r. claims_on d (codenameCandidates name) qs = (q, f) # cs
           \<and> qd_read d (q, claim_of f @ js ''.pid'') = Some t \<and> parseClaimSidecar t = Some r \<and> \<not> al (Some r)))))"
proof -
  have names: "codenameCandidates name \<noteq> []"
    using assms by (auto simp: claimLivenessForCodename_def claimForbidsDestruction_def)
  moreover have "dirs \<noteq> Unresolved"
    using assms names by (auto simp: claimLivenessForCodename_def claimForbidsDestruction_def)
  moreover have "claimLivenessForCodename d al dirs name \<noteq> Alive" "claimLivenessForCodename d al dirs name \<noteq> Unreadable"
    using assms by (auto simp: claimForbidsDestruction_def)
  ultimately show ?thesis
    by (cases dirs)
       (auto simp: liveness_first_claim claim_verdict_def split: list.splits option.splits if_splits)
qed

text \<open>A queue with one claim, on the codename \<open>x\<close>, held by a process that is gone.\<close>

definition demo_disk :: queue_disk where
  "demo_disk =
     \<lparr> qd_list = (\<lambda>q. Entries [js ''a.processing'', js ''a.processing.meta'']),
       qd_read = (\<lambda>(q, f). Some (if f = js ''a.processing.pid'' then js ''5:7'' else js ''{}'')),
       qd_parse = (\<lambda>t. Some (JObj [(js ''codename'', JStr (js ''x''))])) \<rparr>"

lemma demo_gone: "claimLivenessForCodename demo_disk (\<lambda>r. False) (Dirs [js ''q'']) (js ''2026-01-02-x'') = Gone"
  by (simp add: claimLivenessForCodename_def codenameCandidates_def dated_def js_trim_def is_space_def is_digit_def demo_disk_def
      is_claim_meta_def CLAIM_META_SUFFIXES_def ends_with_def read_meta_def meta_codename_def string_or_def claim_verdict_def
      claim_of_def parseClaimSidecar_def Let_def)

lemma destruction_needs_proof_witness:
  "\<exists>q f cs t r. claims_on demo_disk (codenameCandidates (js ''2026-01-02-x'')) [js ''q''] = (q, f) # cs
     \<and> qd_read demo_disk (q, claim_of f @ js ''.pid'') = Some t \<and> parseClaimSidecar t = Some r"
proof -
  have free: "\<not> claimForbidsDestruction (claimLivenessForCodename demo_disk (\<lambda>r. False) (Dirs [js ''q'']) (js ''2026-01-02-x''))"
    unfolding demo_gone by (simp add: claimForbidsDestruction_def)
  have named: "codenameCandidates (js ''2026-01-02-x'') \<noteq> []"
    using destruction_needs_proof[OF free] by blast
  have "claims_on demo_disk (codenameCandidates (js ''2026-01-02-x'')) [js ''q''] \<noteq> []"
    using liveness_first_claim[OF named, of demo_disk "\<lambda>r. False" "[js ''q'']"] demo_gone by (auto split: if_splits)
  then show ?thesis using destruction_needs_proof[OF free] by (elim conjE disjE exE) auto
qed

end
