(* ===== verification/JsText.thy ===== *)
theory JsText
  imports ClaimLiveness
begin

text \<open>Texts and numbers as the queue's gates and the meaning sweep read them: \<open>??\<close>, runs of white space, \<open>Number\<close>, a
  text as code points. A number in a text is read where it is an integer in decimal digits.\<close>

section \<open>Texts and numbers\<close>

text \<open>\<open>v ?? w\<close>.\<close>

definition orelse :: "json option \<Rightarrow> json option \<Rightarrow> json option" where
  "orelse v w = (if nullish v then w else v)"

text \<open>\<open>replace(/\s+/g, " ")\<close>.\<close>

function squeeze :: "jstr \<Rightarrow> jstr" where
  "squeeze [] = []"
| "squeeze (c # cs) = (if is_space c then 32 # squeeze (dropWhile is_space cs) else c # squeeze cs)"
  by pat_completeness auto
termination by (relation "measure length") (auto simp: length_dropWhile_le le_imp_less_Suc)

text \<open>\<open>replace(/[^...]+/g, " ")\<close>.\<close>

function blank_runs :: "(unit16 \<Rightarrow> bool) \<Rightarrow> jstr \<Rightarrow> jstr" where
  "blank_runs keep [] = []"
| "blank_runs keep (c # cs) =
     (if keep c then c # blank_runs keep cs else 32 # blank_runs keep (dropWhile (\<lambda>x. \<not> keep x) cs))"
  by pat_completeness auto
termination by (relation "measure (\<lambda>(k, s). length s)") (auto simp: length_dropWhile_le le_imp_less_Suc)

definition number_text :: "jstr \<Rightarrow> int option" where
  "number_text s =
     (let t = js_trim s in
      case t of
        [] \<Rightarrow> Some 0
      | c # ds \<Rightarrow>
          if c = 45 \<and> ds \<noteq> [] \<and> list_all is_digit ds then Some (- int (number_of ds))
          else if list_all is_digit t then Some (int (number_of t))
          else None)"

text \<open>\<open>Number(v)\<close>; \<open>None\<close> is \<open>NaN\<close>.\<close>

fun js_number :: "json option \<Rightarrow> int option" where
  "js_number None = None"
| "js_number (Some JNull) = Some 0"
| "js_number (Some (JBool b)) = Some (if b then 1 else 0)"
| "js_number (Some (JNum n)) = Some n"
| "js_number (Some (JStr s)) = number_text s"
| "js_number (Some (JArr xs)) = number_text (js_string (JArr xs))"
| "js_number (Some (JObj fs)) = None"

text \<open>\<open>String(r?.k ?? "").trim()\<close>.\<close>

definition field :: "string \<Rightarrow> json option \<Rightarrow> jstr" where
  "field k r = js_trim (string_or (member (js k) r) [])"

section \<open>Plain objects\<close>

text \<open>A look-up by a name in a plain object also finds what every object inherits; as a text, a function prints its name.\<close>

definition INHERITED :: "jstr list" where
  "INHERITED =
     [js ''constructor'', js ''__defineGetter__'', js ''__defineSetter__'', js ''hasOwnProperty'', js ''__lookupGetter__'',
      js ''__lookupSetter__'', js ''isPrototypeOf'', js ''propertyIsEnumerable'', js ''toString'', js ''valueOf'',
      js ''__proto__'', js ''toLocaleString'']"

definition inherited_text :: "jstr \<Rightarrow> jstr option" where
  "inherited_text k =
     (if k \<notin> set INHERITED then None
      else if k = js ''__proto__'' then Some (js ''[object Object]'')
      else Some (js ''function '' @ (if k = js ''constructor'' then js ''Object'' else k) @ js ''() { [native code] }''))"

section \<open>Trimmed texts\<close>

lemma trim_nil [simp]: "js_trim [] = []"
  by (simp add: js_trim_def)

lemma trim_ends: "js_trim s = [] \<or> (\<not> is_space (hd (js_trim s)) \<and> \<not> is_space (last (js_trim s)))"
proof (cases "js_trim s = []")
  case False
  let ?x = "dropWhile is_space s" and ?y = "dropWhile is_space (rev (dropWhile is_space s))"
  have y: "?y \<noteq> []" using False by (simp add: js_trim_def)
  then have x: "?x \<noteq> []" by (metis dropWhile.simps(1) rev.simps(1))
  have "\<not> is_space (hd ?y)" using y hd_dropWhile by blast
  moreover have "last ?y = last (rev ?x)" using y by (metis last_appendR takeWhile_dropWhile_id)
  moreover have "\<not> is_space (hd ?x)" using x hd_dropWhile by blast
  ultimately show ?thesis using x by (simp add: js_trim_def hd_rev last_rev)
qed simp

lemma trim_idem [simp]: "js_trim (js_trim s) = js_trim s"
proof (cases "js_trim s = []")
  case False
  then show ?thesis using trim_ends[of s] trim_tight by blast
qed (metis trim_nil)

lemma field_trimmed [simp]: "js_trim (field k r) = field k r"
  by (simp add: field_def)

section \<open>Code points\<close>

text \<open>\<open>Array.from(s)\<close>: a surrogate pair is one point, a lone surrogate is itself.\<close>

definition high :: "nat \<Rightarrow> bool" where "high c \<longleftrightarrow> 55296 \<le> c \<and> c \<le> 56319"
definition low :: "nat \<Rightarrow> bool" where "low c \<longleftrightarrow> 56320 \<le> c \<and> c \<le> 57343"

fun points :: "jstr \<Rightarrow> nat list" where
  "points [] = []"
| "points [c] = [c]"
| "points (c # d # s) =
     (if high c \<and> low d then (65536 + (c - 55296) * 1024 + (d - 56320)) # points s else c # points (d # s))"

definition units :: "nat list \<Rightarrow> jstr" where
  "units ps = concat (map (\<lambda>p. if p < 65536 then [p] else [55296 + (p - 65536) div 1024, 56320 + (p - 65536) mod 1024]) ps)"

text \<open>\<open>join("")\<close> of the points gives the text back.\<close>

lemma units_points: "list_all (\<lambda>c. c < 65536) s \<Longrightarrow> units (points s) = s"
proof (induction s rule: points.induct)
  case (3 c d s)
  show ?case
  proof (cases "high c \<and> low d")
    case True
    define a b where "a = c - 55296" and "b = d - 56320"
    then have cd: "c = a + 55296" "d = b + 56320" "b < 1024" using True by (auto simp: high_def low_def)
    have "units (points (c # d # s)) = [c, d] @ units (points s)"
      using True cd by (simp add: units_def)
    then show ?thesis using True 3 by simp
  next
    case False
    then show ?thesis using 3 by (auto simp: units_def)
  qed
qed (simp_all add: units_def)

end
