(* ===== verification/Enumerate.thy ===== *)
theory Enumerate
  imports EnumerateText Steps JsText
begin

text \<open>The enumeration kernel, \<open>providers/_shared/enumerate.mjs\<close>: a question to a register is answered by every
  record it matches, or by an incomplete answer that says why and with what count.

  Every step acts on the provider's state; the functions that call one another
  (a question, the halves of its regions, its parts) take the calls they make as arguments, and the fuel ties
  them together at the end. Inside a question the state also carries what the total counts, as last heard.\<close>

type_synonym said = "jstr option"

section \<open>The question and the provider\<close>

record query =
  q_names :: "jstr list option"
  q_regions :: "jstr list option"
  q_classes :: "int list option"
  q_scope :: "int list"
  q_owner :: "jstr option"
  q_owners :: "jstr list option"
  q_rest :: json

datatype asking = CountOnly | PageOf nat "page option"

datatype screen_source = BulkEndpoint | BilledRecordFetch | SearchRow

record 'w deps =
  d_search :: "query \<times> asking \<Rightarrow> 'w \<Rightarrow> reply call \<times> 'w"
  d_count :: "(query \<Rightarrow> 'w \<Rightarrow> count_reply call \<times> 'w) option"
  d_screen :: "(json list \<times> int list \<Rightarrow> 'w \<Rightarrow> screen_reply call \<times> 'w) option"
  d_rowScreen :: "(json \<Rightarrow> int list \<Rightarrow> json) option"
  d_hasAnyElement :: "query \<Rightarrow> bool"
  d_missing :: jstr
  d_recordId :: "json \<Rightarrow> json option"
  d_recordKey :: "json \<Rightarrow> json"
  d_screenKey :: "json \<Rightarrow> json option"
  d_ceilingFor :: "query \<Rightarrow> int option"
  d_namesChunkFor :: "query \<Rightarrow> int option"
  d_seam :: count_seam
  d_screenSource :: screen_source
  d_pageGuard :: nat
  d_ceilingDefault :: int
  d_namesChunkDefault :: int
  d_envCeiling :: "int option"
  d_envNames :: "int option"
  d_window :: jstr
  d_contentFromScreen :: bool
  d_cardinality :: "(jstr \<Rightarrow> bool) option"
  d_listRefusal :: "(jstr \<Rightarrow> bool) option"
  d_late :: "'w \<Rightarrow> bool"

datatype kernel_error = NeedsCount | NeedsRowScreen

definition makeEnumerate :: "'w deps \<Rightarrow> kernel_error option" where
  "makeEnumerate K =
     (if d_seam K = Endpoint \<and> d_count K = None then Some NeedsCount
      else if d_screenSource K = SearchRow \<and> d_rowScreen K = None then Some NeedsRowScreen else None)"

definition search :: "'w deps \<Rightarrow> query \<Rightarrow> asking \<Rightarrow> ('w, reply) act" where
  "search K q how = io (guardToolCall (d_search K) ''search'' (q, how))"

definition count_call :: "'w deps \<Rightarrow> query \<Rightarrow> ('w, count_reply) act" where
  "count_call K q = io (guardCountCall (the (d_count K)) ''count'' q)"

definition screen_call :: "'w deps \<Rightarrow> json list \<Rightarrow> int list \<Rightarrow> ('w, screen_reply) act" where
  "screen_call K uris scope = io (guardScreenCall (the (d_screen K)) (uris, scope))"

definition probe_part :: "'w deps \<Rightarrow> query \<Rightarrow> ('w, probe) act" where
  "probe_part K q = io (countHits (d_seam K) (\<lambda>q. guardToolCall (d_search K) ''search'' (q, CountOnly))
      (guardCountCall (the (d_count K)) ''count'') q)"

definition envInt :: "int option \<Rightarrow> int \<Rightarrow> int" where
  "envInt v fallback = (case v of Some n \<Rightarrow> if n \<ge> 1 then n else fallback | None \<Rightarrow> fallback)"

text \<open>The tuned ceiling, narrowed by a window the shape of the question imposes.\<close>

definition ceiling_of :: "'w deps \<Rightarrow> query \<Rightarrow> int" where
  "ceiling_of K q =
     (let tuned = envInt (d_envCeiling K) (d_ceilingDefault K) in
      case d_ceilingFor K q of Some s \<Rightarrow> if s > 0 then min tuned s else tuned | None \<Rightarrow> tuned)"

definition isOwnerScoped :: "query \<Rightarrow> bool" where
  "isOwnerScoped q \<longleftrightarrow>
     (case q_owner q of Some s \<Rightarrow> js_trim s \<noteq> [] | None \<Rightarrow> False)
     \<or> (case q_owners q of Some os \<Rightarrow> filter (\<lambda>s. s \<noteq> []) os \<noteq> [] | None \<Rightarrow> False)"

definition split_classes :: "query \<Rightarrow> int list" where
  "split_classes q =
     (if isOwnerScoped q then set_of (case q_classes q of Some cs \<Rightarrow> cs | None \<Rightarrow> []) else [])"

definition all_names :: "query \<Rightarrow> jstr list" where
  "all_names q = (case q_names q of Some ns \<Rightarrow> filter (\<lambda>n. n \<noteq> []) ns | None \<Rightarrow> [])"

definition names_chunk :: "'w deps \<Rightarrow> query \<Rightarrow> nat option \<Rightarrow> nat" where
  "names_chunk K q width =
     (let fallback = nat (envInt (d_envNames K) (d_namesChunkDefault K)) in
      case (case width of Some k \<Rightarrow> Some (int k) | None \<Rightarrow> d_namesChunkFor K q) of
        Some n \<Rightarrow> if n \<ge> 1 then nat n else fallback
      | None \<Rightarrow> fallback)"

definition regions_of :: "query \<Rightarrow> jstr list" where
  "regions_of q = (case q_regions q of Some rs \<Rightarrow> rs | None \<Rightarrow> [])"

text \<open>Records joined by key, the first of each key kept.\<close>

definition merge_recs :: "'w deps \<Rightarrow> json list \<Rightarrow> json list \<Rightarrow> json list" where
  "merge_recs K recs merged =
     List.fold (\<lambda>r m. if d_recordKey K r \<in> set (map (d_recordKey K) m) then m else m @ [r]) recs merged"

definition or_zero :: "int option \<Rightarrow> int" where
  "or_zero n = (case n of Some k \<Rightarrow> k | None \<Rightarrow> 0)"

definition recs_of :: "answer_body \<Rightarrow> json list" where
  "recs_of b = (case a_records b of Some rs \<Rightarrow> rs | None \<Rightarrow> [])"

section \<open>Counting the parts of a crowded stack\<close>

definition spelling_entry :: "int \<Rightarrow> probe \<Rightarrow> entry" where
  "spelling_entry ceiling p =
     (case pr_total p of
        None \<Rightarrow> floorCount p
      | Some n \<Rightarrow> counted n (if n = 0 then VerifiedZero else if n > ceiling then Crowd else Unenumerated) (pr_counts p))"

definition countFirstRescue ::
  "'w deps \<Rightarrow> query \<Rightarrow> jstr list \<Rightarrow> int \<Rightarrow> int option \<Rightarrow> int option \<Rightarrow> ('w, answer) act" where
  "countFirstRescue K q ns ceiling hits floor =
     bind (each_do (\<lambda>t counts. bind (probe_part K (q\<lparr> q_names := Some [t] \<rparr>))
             (\<lambda>p. ret (AList.update t (spelling_entry ceiling p) counts))) ns [])
       (\<lambda>counts.
          if filter isUnresolvedCount (map snd counts) = [] \<and> floor = None
          then ret (Answer ((complete hits [])\<lparr> a_terms := Some counts \<rparr>))
          else ret (Answer (floorStamp floor ((incomplete (if floor = None then hits else None) 0 []
                 (stack_reason hits floor ceiling (length ns) counts))\<lparr> a_terms := Some counts, a_records := Some [] \<rparr>))))"

text \<open>Per class: first every class is counted, then the legs under the ceiling are enumerated, fewest records
  first, while the merged records fit under one ceiling.\<close>

definition count_class ::
  "'w deps \<Rightarrow> query \<Rightarrow> int \<Rightarrow> int \<Rightarrow> (int \<times> entry) list \<times> (int \<times> int \<times> jstr option) list
    \<Rightarrow> ('w, (int \<times> entry) list \<times> (int \<times> int \<times> jstr option) list) act" where
  "count_class K q ceiling c st =
     (let (counts, tractable) = st in
      bind (probe_part K (q\<lparr> q_classes := Some [c] \<rparr>)) (\<lambda>p.
        case pr_total p of
          None \<Rightarrow> ret (AList.update c (floorCount p) counts, tractable)
        | Some n \<Rightarrow>
            if n = 0 then ret (AList.update c (counted 0 VerifiedZero (pr_counts p)) counts, tractable)
            else if n > ceiling then ret (AList.update c (counted n Crowd (pr_counts p)) counts, tractable)
            else ret (counts, tractable @ [(c, n, pr_counts p)])))"

definition read_leg ::
  "'w deps \<Rightarrow> (query \<Rightarrow> ('w, answer) act) \<Rightarrow> query \<Rightarrow> int \<Rightarrow> int \<times> int \<times> jstr option
    \<Rightarrow> (int \<times> entry) list \<times> json list \<Rightarrow> ('w, (int \<times> entry) list \<times> json list) act" where
  "read_leg K ask q ceiling leg st =
     (let (c, n, said) = leg; (counts, merged) = st in
      if int (length merged) + n > ceiling then ret (AList.update c (counted n Unenumerated said) counts, merged)
      else bind (ask (q\<lparr> q_classes := Some [c] \<rparr>)) (\<lambda>r.
        case r of
          Failed t \<Rightarrow> ret (AList.update c (counted n CountError said) counts, merged)
        | Answer b \<Rightarrow>
            if a_state b = Complete
            then ret (AList.update c (counted n Enumerated said) counts, merge_recs K (recs_of b) merged)
            else
              let m = (case a_total b of Some t \<Rightarrow> t | None \<Rightarrow> n);
                  what = (case a_total b of Some t \<Rightarrow> a_counts b | None \<Rightarrow> said)
              in ret (AList.update c (counted m (if m > ceiling then Crowd else CountError) what) counts, merged)))"

definition classSplitRescue ::
  "'w deps \<Rightarrow> (query \<Rightarrow> ('w, answer) act) \<Rightarrow> query \<Rightarrow> int list \<Rightarrow> int \<Rightarrow> int option \<Rightarrow> int option \<Rightarrow> ('w, answer) act" where
  "classSplitRescue K ask q classes ceiling hits floor =
     bind (each_do (count_class K q ceiling) classes ([], [])) (\<lambda>(counts, tractable).
     bind (each_do (read_leg K ask q ceiling) (sort_key (\<lambda>(c, n, said). n) tractable) (counts, [])) (\<lambda>(counts, merged).
       if filter isUnresolvedCount (map snd counts) = [] \<and> floor = None
       then ret (Answer ((complete hits merged)\<lparr> a_classes := Some counts \<rparr>))
       else ret (Answer (floorStamp floor ((incomplete (if floor = None then hits else None) (length merged) merged
              (class_reason hits floor ceiling (length classes) counts))\<lparr> a_classes := Some counts, a_records := Some merged \<rparr>)))))"

section \<open>Region halves\<close>

definition timed_out :: "answer \<Rightarrow> bool" where
  "timed_out r = (case r of Answer b \<Rightarrow> a_timeout b | Failed t \<Rightarrow> False)"

definition reason_of :: "answer \<Rightarrow> jstr option" where
  "reason_of r = (case r of Answer b \<Rightarrow> a_reason b | Failed t \<Rightarrow> None)"

definition or_text :: "jstr option \<Rightarrow> jstr \<Rightarrow> jstr" where
  "or_text t d = (case t of Some s \<Rightarrow> s | None \<Rightarrow> d)"

record halves_state =
  hs_merged :: "json list"
  hs_parts :: "nat list"
  hs_total :: int
  hs_lift :: "lift_note option"

definition take_half ::
  "'w deps \<Rightarrow> (query \<Rightarrow> jstr \<Rightarrow> ('w \<times> said, answer) act) \<Rightarrow> query \<Rightarrow> jstr \<Rightarrow> jstr list \<times> answer \<Rightarrow> halves_state
    \<Rightarrow> ('w \<times> said, halves_state + answer) act" where
  "take_half K deeper q cause asked st =
     (let (half, first) = asked;
          stop = (\<lambda>b. ret (Inr (Answer (b\<lparr> a_split := Some (cause, hs_parts st) \<rparr>)))) in
      if timed_out first \<and> length half = 1
      then stop (incomplete (Some (hs_total st)) (length (hs_merged st)) (hs_merged st)
                   (one_region_stalled (hd half) (or_text (reason_of first) cause)))
      else
        bind (\<lambda>ws. if timed_out first \<and> \<not> d_late K (fst ws)
                   then deeper (q\<lparr> q_regions := Some half \<rparr>) (or_text (reason_of first) cause) ws
                   else ret first ws) (\<lambda>r.
        case r of
          Failed t \<Rightarrow>
            stop (incomplete (Some (hs_total st)) (length (hs_merged st)) (hs_merged st) (half_reason half (js ''failed: '' @ t)))
        | Answer b \<Rightarrow>
            bind (hear (a_counts b)) (\<lambda>_.
              if a_state b = Complete then
                ret (Inl \<lparr> hs_merged = merge_recs K (recs_of b) (hs_merged st),
                           hs_parts = hs_parts st @ (case a_split b of Some (_, ps) \<Rightarrow> ps | None \<Rightarrow> [length half]),
                           hs_total = hs_total st + or_zero (a_total b),
                           hs_lift = (case hs_lift st of Some l \<Rightarrow> Some l | None \<Rightarrow> a_lift b) \<rparr>)
              else
                let hits = Some (hs_total st + or_zero (a_total b));
                    fetched = length (hs_merged st) + a_count b;
                    sample = hs_merged st @ a_sample b
                in stop (incomplete hits fetched sample
                     (if isGatewayStall (a_reason b) then or_text (a_reason b) []
                      else half_reason half (js ''came back incomplete: '' @ or_text (a_reason b) []))))))"

definition regionHalves ::
  "'w deps \<Rightarrow> (query \<Rightarrow> ('w, answer) act) \<Rightarrow> (query \<Rightarrow> int \<Rightarrow> jstr \<Rightarrow> ('w \<times> said, answer) act)
    \<Rightarrow> query \<Rightarrow> int \<Rightarrow> jstr \<Rightarrow> ('w \<times> said, answer) act" where
  "regionHalves K ask_half halve q ceiling cause =
     (let rs = regions_of q; mid = (length rs + 1) div 2; h1 = take mid rs; h2 = drop mid rs in
      bind (outer (ask_half (q\<lparr> q_regions := Some h1 \<rparr>))) (\<lambda>r1.
      bind (outer (ask_half (q\<lparr> q_regions := Some h2 \<rparr>))) (\<lambda>r2.
        if timed_out r1 \<and> timed_out r2 then
          ret (Answer ((incomplete (Some 0) 0 [] (both_halves_stalled cause))\<lparr> a_split := Some (cause, []) \<rparr>))
        else
          bind (loop (take_half K (\<lambda>q' c. halve q' ceiling c) q cause) [(h1, r1), (h2, r2)]
                  \<lparr> hs_merged = [], hs_parts = [], hs_total = 0, hs_lift = None \<rparr>) (\<lambda>done.
            case done of
              Inr a \<Rightarrow> ret a
            | Inl st \<Rightarrow>
                ret (Answer ((if hs_total st > ceiling
                              then incomplete (Some (hs_total st)) (length (hs_merged st)) (hs_merged st)
                                     (over_ceiling (hs_total st) ceiling)
                              else (complete (Some (hs_total st)) (hs_merged st))\<lparr> a_lift := hs_lift st \<rparr>)
                             \<lparr> a_split := Some (cause, hs_parts st) \<rparr>))))))"

section \<open>Wide lists of names\<close>

definition windows :: "nat \<Rightarrow> 'a list \<Rightarrow> 'a list list" where
  "windows k xs = map (\<lambda>i. take k (drop (i * k) xs)) [0..<(length xs + k - 1) div k]"

record window_state =
  ws_merged :: "json list"
  ws_terms :: "(jstr \<times> entry) list"
  ws_notes :: "jstr list"
  ws_whole :: "jstr list"
  ws_total :: int
  ws_floor :: "int option"

definition terms_if_any :: "window_state \<Rightarrow> answer_body \<Rightarrow> answer_body" where
  "terms_if_any st b =
     (if ws_terms st = [] then b else b\<lparr> a_terms := Some (ws_terms st), a_records := Some (ws_merged st) \<rparr>)"

definition put_all :: "(jstr \<times> entry) list \<Rightarrow> (jstr \<times> entry) list \<Rightarrow> (jstr \<times> entry) list" where
  "put_all new old = List.fold (\<lambda>(k, e). AList.update k e) new old"

definition max_floor :: "int option \<Rightarrow> int option \<Rightarrow> int option" where
  "max_floor new old = (case new of None \<Rightarrow> old | Some f \<Rightarrow> Some (max (case old of Some g \<Rightarrow> g | None \<Rightarrow> 0) f))"

definition take_window ::
  "'w deps \<Rightarrow> (query \<Rightarrow> ('w, answer) act) \<Rightarrow> query \<Rightarrow> int \<Rightarrow> nat \<Rightarrow> nat \<times> jstr list \<Rightarrow> window_state
    \<Rightarrow> ('w \<times> said, window_state + answer) act" where
  "take_window K ask q ceiling chunks window st =
     (let (i, part) = window in
      bind (outer (ask (q\<lparr> q_names := Some part \<rparr>))) (\<lambda>r.
        case r of
          Failed t \<Rightarrow>
            ret (Inr (Answer (terms_if_any st (incomplete (Some (ws_total st)) (length (ws_merged st)) (ws_merged st)
              (window_text i chunks (length part) @ js ''failed: '' @ take 140 t)))))
        | Answer b \<Rightarrow>
            bind (hear (a_counts b)) (\<lambda>_.
              if a_state b = Complete then
                let st' = st\<lparr> ws_total := ws_total st + or_zero (a_total b),
                              ws_merged := merge_recs K (recs_of b) (ws_merged st),
                              ws_terms := put_all (case a_terms b of Some ts \<Rightarrow> ts | None \<Rightarrow> []) (ws_terms st),
                              ws_whole := ws_whole st @ part \<rparr>
                in if ws_total st' > ceiling \<and> ws_notes st' = [] then
                     ret (Inr (Answer (terms_if_any st' (incomplete (Some (ws_total st')) (length (ws_merged st'))
                       (ws_merged st') (cumulative_reason (ws_total st') ceiling i chunks)))))
                   else ret (Inl st')
              else
                let floor = max_floor (a_floor b) (ws_floor st) in
                (case (if d_seam K = NoTotal then None else a_terms b) of
                   Some ts \<Rightarrow>
                     ret (Inl (st\<lparr> ws_floor := floor, ws_terms := put_all ts (ws_terms st),
                                   ws_total := ws_total st + or_zero (a_total b),
                                   ws_merged := merge_recs K (recs_of b) (ws_merged st),
                                   ws_notes := ws_notes st @ [js ''chunk '' @ num_text (Suc i) @ js ''/'' @ num_text chunks
                                                 @ js '': '' @ take 140 (or_text (a_reason b) [])] \<rparr>))
                 | None \<Rightarrow>
                     ret (Inr (Answer (floorStamp floor
                       (incomplete (if floor = None then Some (ws_total st + or_zero (a_total b)) else None)
                          (length (ws_merged st) + a_count b) (ws_merged st @ a_sample b)
                          (window_text i chunks (length part) @ js ''incomplete: '' @ take 180 (or_text (a_reason b) []))))))))))"

text \<open>A name of a window that was enumerated whole is entered as enumerated, unless it is \<open>in\<close> the object of entries: it has
  one, or every object inherits its name.\<close>

definition mark_whole :: "jstr list \<Rightarrow> (jstr \<times> entry) list \<Rightarrow> (jstr \<times> entry) list" where
  "mark_whole ns terms =
     List.fold (\<lambda>t ts. if map_of ts t \<noteq> None \<or> t \<in> set INHERITED then ts
       else ts @ [(t, \<lparr> e_total = None, e_floor = None, e_disposition = Enumerated, e_counts = None \<rparr>)]) ns terms"

definition name_windows ::
  "'w deps \<Rightarrow> (query \<Rightarrow> ('w, answer) act) \<Rightarrow> query \<Rightarrow> int \<Rightarrow> nat \<Rightarrow> ('w \<times> said, answer) act" where
  "name_windows K ask q ceiling chunk =
     (let parts = windows chunk (all_names q); chunks = length parts in
      bind (loop (take_window K ask q ceiling chunks) (zip [0..<chunks] parts)
              \<lparr> ws_merged = [], ws_terms = [], ws_notes = [], ws_whole = [], ws_total = 0, ws_floor = None \<rparr>) (\<lambda>done.
        case done of
          Inr a \<Rightarrow> ret a
        | Inl st \<Rightarrow>
            if ws_notes st \<noteq> [] then
              ret (Answer (floorStamp (ws_floor st)
                ((incomplete (if ws_floor st = None then Some (ws_total st) else None) (length (ws_merged st)) (ws_merged st)
                    (take 900 (rescued_reason chunks (ws_notes st))))
                 \<lparr> a_terms := Some (mark_whole (ws_whole st) (ws_terms st)), a_records := Some (ws_merged st) \<rparr>)))
            else
              ret (Answer ((complete (Some (ws_total st)) (ws_merged st))
                     \<lparr> a_terms := (if ws_terms st = [] then None else Some (ws_terms st)) \<rparr>))))"

section \<open>The record content of a band\<close>

definition SCREEN_TO_RECORD_FIELDS :: "(jstr \<times> jstr) list" where
  "SCREEN_TO_RECORD_FIELDS =
     [(js ''mark_text'', js ''mark_text''), (js ''classes'', js ''classes''), (js ''status'', js ''status''),
      (js ''owner'', js ''owner_name''), (js ''owner_country'', js ''owner_country''),
      (js ''application_date'', js ''application_date''), (js ''registration_date'', js ''registration_date''),
      (js ''expiry_date'', js ''expiry_date''), (js ''mark_feature'', js ''mark_feature'')]"

definition lift_field :: "fields \<Rightarrow> jstr \<times> jstr \<Rightarrow> fields \<Rightarrow> fields" where
  "lift_field row names out =
     (let (src, dst) = names in
      if nullish (map_of out dst) \<and> \<not> nullish (map_of row src) then AList.update dst (the (map_of row src)) out else out)"

fun liftScreenFields :: "json \<Rightarrow> json option \<Rightarrow> json" where
  "liftScreenFields (JObj rec) (Some (JObj row)) = JObj (List.fold (lift_field row) SCREEN_TO_RECORD_FIELDS rec)"
| "liftScreenFields rec row = rec"

text \<open>\<open>{ ...record, screen: row }\<close>.\<close>

definition with_screen :: "json \<Rightarrow> json \<Rightarrow> json" where
  "with_screen rec row = JObj (AList.update (js ''screen'') row (spread (Some rec)))"

definition screened_row :: "'w deps \<Rightarrow> json list \<Rightarrow> json \<Rightarrow> json" where
  "screened_row K rws rec =
     (case map_of (rev (map (\<lambda>row. (d_screenKey K row, row)) rws)) (d_recordId K rec) of
        Some row \<Rightarrow> row | None \<Rightarrow> JNull)"

definition attach_rows :: "'w deps \<Rightarrow> json list \<Rightarrow> json list \<Rightarrow> json list \<times> lift_note" where
  "attach_rows K rws results =
     (let matched = length (filter (\<lambda>x. truthy (Some (screened_row K rws x))) results) in
      (map (\<lambda>x. with_screen (liftScreenFields x (Some (screened_row K rws x))) (screened_row K rws x)) results,
       \<lparr> l_applied = (matched > 0), l_matched = matched, l_rows = length rws,
         l_reason = (if matched > 0 then [] else nothing_joined (length rws)) \<rparr>))"

text \<open>After the screen call: the records with their content, what the lift did, and, where the screen is the
  only source of content, why the content did not land.\<close>

definition screen_outcome :: "'w deps \<Rightarrow> json list \<Rightarrow> nat \<Rightarrow> screen_reply \<Rightarrow> json list \<times> lift_note option \<times> jstr option" where
  "screen_outcome K results asked s =
     (case s of
        Screened (Some rws) errors \<Rightarrow>
          (let (records, note) = attach_rows K rws results in
           (records, Some note,
            if \<not> d_contentFromScreen K then None
            else if \<not> l_applied note \<and> rws \<noteq> [] then Some (join_reason (length rws) asked (l_reason note))
            else if errors \<noteq> [] then Some (content_reason (Some (length rws, asked)) errors)
            else None))
      | Screened None errors \<Rightarrow>
          (results, Some \<lparr> l_applied = False, l_matched = 0, l_rows = 0, l_reason = no_rows_field \<rparr>,
           if d_contentFromScreen K then Some (content_reason (Some (0, asked)) errors) else None)
      | _ \<Rightarrow> (results, None, if d_contentFromScreen K then Some (content_reason None []) else None))"

definition finish_band :: "'w deps \<Rightarrow> query \<Rightarrow> json list \<Rightarrow> int option \<Rightarrow> ('w, answer) act" where
  "finish_band K q results hits =
     (let plain = (\<lambda>records note. ret (Answer ((complete hits records)\<lparr> a_lift := note \<rparr>))) in
      if d_screenSource K = SearchRow then plain (map (\<lambda>x. with_screen x (the (d_rowScreen K) x (q_scope q))) results) None
      else
        let uris = map the (filter truthy (map (d_recordId K) results)) in
        if d_screen K = None \<or> uris = [] then plain results None
        else bind (screen_call K uris (q_scope q)) (\<lambda>s.
          case screen_outcome K results (length uris) s of
            (records, note, Some why) \<Rightarrow> ret (Answer (incomplete hits (length results) records why))
          | (records, note, None) \<Rightarrow>
              plain records (case note of Some l \<Rightarrow> if l_applied l then None else Some l | None \<Rightarrow> None)))"

text \<open>The count and the rows must agree before a band is complete.\<close>

definition reconcile :: "'w deps \<Rightarrow> query \<Rightarrow> json list \<Rightarrow> int option \<Rightarrow> int option \<Rightarrow> ('w, answer) act" where
  "reconcile K q results hits probed =
     (case (d_seam K, probed, hits) of
        (Endpoint, Some n, _) \<Rightarrow>
          if int (length results) < n
          then ret (Answer (incomplete (Some n) (length results) results (probe_divergence n (length results))))
          else finish_band K q results hits
      | (Cheap, _, Some n) \<Rightarrow>
          if int (length results) < n
          then ret (Answer (incomplete (Some n) (length results) results (response_divergence n (length results))))
          else finish_band K q results hits
      | _ \<Rightarrow> finish_band K q results hits)"

section \<open>One question\<close>

text \<open>The calls a question makes: another question (with or without the right to split it), itself with a width
  for its list of names, and the halves of its regions.\<close>

record 'w calls =
  c_ask :: "query \<Rightarrow> bool \<Rightarrow> ('w, answer) act"
  c_again :: "nat \<Rightarrow> ('w \<times> said, answer) act"
  c_halve :: "query \<Rightarrow> int \<Rightarrow> jstr \<Rightarrow> ('w \<times> said, answer) act"

definition splittable :: "query \<Rightarrow> bool \<Rightarrow> bool" where
  "splittable q split \<longleftrightarrow> split \<and> length (regions_of q) > 1"

definition timeout_mark :: "bool \<Rightarrow> jstr \<Rightarrow> answer_body \<Rightarrow> answer_body" where
  "timeout_mark split t b = (if \<not> split \<and> isGatewayTimeout t then b\<lparr> a_timeout := True \<rparr> else b)"

text \<open>A stack over the ceiling: its spellings are counted, or its classes, or it is handed up as it is.\<close>

definition crowded :: "'w deps \<Rightarrow> 'w calls \<Rightarrow> query \<Rightarrow> int option \<Rightarrow> int option \<Rightarrow> answer_body \<Rightarrow> ('w \<times> said, answer) act" where
  "crowded K C q hits floor otherwise =
     (if d_seam K \<noteq> NoTotal \<and> length (all_names q) > 1
      then outer (countFirstRescue K q (all_names q) (ceiling_of K q) hits floor)
      else if d_seam K \<noteq> NoTotal \<and> length (split_classes q) > 1
      then outer (classSplitRescue K (\<lambda>q'. c_ask C q' True) q (split_classes q) (ceiling_of K q) hits floor)
      else ret (Answer otherwise))"

definition search_failed ::
  "'w deps \<Rightarrow> 'w calls \<Rightarrow> query \<Rightarrow> bool \<Rightarrow> nat \<Rightarrow> json list \<Rightarrow> int option \<Rightarrow> jstr \<Rightarrow> ('w \<times> said, answer) act" where
  "search_failed K C q split page results hits t ws =
     (if page = 0 \<and> length (all_names q) > 1 \<and> (case d_listRefusal K of Some refused \<Rightarrow> refused t | None \<Rightarrow> False)
      then c_again C ((length (all_names q) + 1) div 2) ws
      else if splittable q split \<and> isGatewayTimeout t \<and> \<not> d_late K (fst ws)
      then c_halve C q (ceiling_of K q) t ws
      else ret (Answer (timeout_mark split t (incomplete hits (length results) results (page_failed page t)))) ws)"

definition no_total ::
  "'w deps \<Rightarrow> 'w calls \<Rightarrow> query \<Rightarrow> nat \<Rightarrow> json list \<Rightarrow> page \<Rightarrow> ('w \<times> said, answer) act" where
  "no_total K C q page results p =
     (case floorOf p of
        Some f \<Rightarrow>
          let rws = (case pg_rows p of Some r \<Rightarrow> r | None \<Rightarrow> []);
              handed = floorStamp (Some f) (incomplete None (length results + length rws) (results @ rws) (floor_reason f))
          in if page = 0 then crowded K C q None (Some f) handed else ret (Answer handed)
      | None \<Rightarrow> ret (Answer (incomplete None (length results) results (no_total_reason page))))"

definition page_total :: "'w deps \<Rightarrow> int option \<Rightarrow> int option \<Rightarrow> page \<Rightarrow> int option" where
  "page_total K probed hits p =
     (case d_seam K of
        Endpoint \<Rightarrow> Some (max (or_zero probed) (or_zero (pg_total p)))
      | Cheap \<Rightarrow> (case pg_total p of Some n \<Rightarrow> Some n | None \<Rightarrow> hits)
      | NoTotal \<Rightarrow> hits)"

text \<open>The pages from \<open>page\<close> on; \<open>left\<close> is how many the page guard still allows, this one included.\<close>

fun page_loop ::
  "'w deps \<Rightarrow> 'w calls \<Rightarrow> query \<Rightarrow> bool \<Rightarrow> int option \<Rightarrow> nat \<Rightarrow> nat \<Rightarrow> json list \<Rightarrow> int option \<Rightarrow> json option \<Rightarrow> page option
    \<Rightarrow> ('w \<times> said, answer) act" where
  "page_loop K C q split probed left page results hits cap prev =
     bind (outer (search K q (PageOf page prev))) (\<lambda>r.
       case r of
         ToolError t \<Rightarrow> search_failed K C q split page results hits t
       | Unparsed \<Rightarrow> ret (Answer (incomplete hits (length results) results (page_unparsed page)))
       | Parsed p \<Rightarrow>
           bind (hear (pg_counts p)) (\<lambda>_.
             if d_seam K = Cheap \<and> pg_total p = None then no_total K C q page results p
             else
               let hits' = page_total K probed hits p;
                   cap' = (if nullish (pg_cap p) then cap else pg_cap p);
                   rws = (case pg_rows p of Some r \<Rightarrow> r | None \<Rightarrow> []);
                   results' = results @ rws
               in
               if d_seam K = Cheap \<and> page = 0 \<and> or_zero hits' > ceiling_of K q then
                 crowded K C q hits' None
                   (incomplete hits' (length rws) rws (over_ceiling (or_zero hits') (ceiling_of K q)))
               else if d_seam K = NoTotal \<and> int (length results') > ceiling_of K q then
                 ret (Answer (incomplete None (length results') results' (past_ceiling (length results') (ceiling_of K q))))
               else if \<not> pg_more p then outer (reconcile K q results' hits' probed)
               else (case left of
                   Suc (Suc l) \<Rightarrow> page_loop K C q split probed (Suc l) (Suc page) results' hits' cap' (Some p)
                 | _ \<Rightarrow> ret (Answer (incomplete hits' (length results') results'
                          (guard_hit (d_pageGuard K) (if nullish cap' then d_window K else template cap')))))))"

declare page_loop.simps [simp del]

definition count_first ::
  "'w deps \<Rightarrow> 'w calls \<Rightarrow> query \<Rightarrow> bool \<Rightarrow> ('w \<times> said, answer) act" where
  "count_first K C q split =
     bind (outer (count_call K q)) (\<lambda>c ws.
       case c of
         NotCounted why \<Rightarrow>
           (let words = or_text why [] in
            if (case d_cardinality K of Some refused \<Rightarrow> refused words | None \<Rightarrow> False)
            then ret (Answer ((incomplete None 0 [] (count_refused words))\<lparr> a_basis := Some ProviderRefusedCount \<rparr>)) ws
            else if splittable q split \<and> isGatewayTimeout words \<and> \<not> d_late K (fst ws)
            then c_halve C q (ceiling_of K q) words ws
            else ret (Answer (timeout_mark split words (incomplete (Some 0) 0 [] (count_failed why)))) ws)
       | Counted n said \<Rightarrow>
           bind (hear said) (\<lambda>_.
             if or_zero n > ceiling_of K q
             then crowded K C q (Some (or_zero n)) None (incomplete (Some (or_zero n)) 0 [] (over_ceiling (or_zero n) (ceiling_of K q)))
             else page_loop K C q split (Some (or_zero n)) (d_pageGuard K) 0 [] (Some (or_zero n)) None None) ws)"

definition enumerateQuestion ::
  "'w deps \<Rightarrow> 'w calls \<Rightarrow> query \<Rightarrow> bool \<Rightarrow> nat option \<Rightarrow> ('w \<times> said, answer) act" where
  "enumerateQuestion K C q split width =
     (if \<not> d_hasAnyElement K q then ret (Failed (d_missing K))
      else if length (all_names q) > names_chunk K q width
      then name_windows K (\<lambda>q'. c_ask C q' True) q (ceiling_of K q) (names_chunk K q width)
      else case d_seam K of
             Endpoint \<Rightarrow> count_first K C q split
           | Cheap \<Rightarrow> page_loop K C q split None (d_pageGuard K) 0 [] (Some 0) None None
           | NoTotal \<Rightarrow> page_loop K C q split None (d_pageGuard K) 0 [] None None None)"

text \<open>A question of its own: nothing heard yet, and what was heard is stamped on the answer.\<close>

definition own :: "('w \<times> said, answer) act \<Rightarrow> ('w, answer) act" where
  "own m w = (case m (w, None) of None \<Rightarrow> None | Some (a, (w', said)) \<Rightarrow> Some (stampTotalCounts a said, w'))"

fun question :: "nat \<Rightarrow> 'w deps \<Rightarrow> query \<Rightarrow> bool \<Rightarrow> nat option \<Rightarrow> ('w \<times> said, answer) act"
  and region_split :: "nat \<Rightarrow> 'w deps \<Rightarrow> query \<Rightarrow> int \<Rightarrow> jstr \<Rightarrow> ('w \<times> said, answer) act" where
  "question 0 K q split width = (\<lambda>ws. None)"
| "question (Suc n) K q split width =
     enumerateQuestion K \<lparr> c_ask = (\<lambda>q' s. own (question n K q' s None)),
                           c_again = (\<lambda>k. question n K q split (Some k)),
                           c_halve = region_split n K \<rparr> q split width"
| "region_split 0 K q ceiling cause = (\<lambda>ws. None)"
| "region_split (Suc n) K q ceiling cause =
     regionHalves K (\<lambda>q'. own (question n K q' False None)) (region_split n K) q ceiling cause"

text \<open>\<open>enumerate\<close> as it is called from outside, with a budget of nested calls.\<close>

definition enumerate_js :: "nat \<Rightarrow> 'w deps \<Rightarrow> query \<Rightarrow> ('w, answer) act" where
  "enumerate_js fuel K q = own (question fuel K q True None)"

end
