(* ===== verification/EnumerateSpec.thy ===== *)
theory EnumerateSpec
  imports Enumerate
begin

text \<open>What the enumeration kernel promises. \<open>complete_band\<close> says what a complete answer must rest on, without
  the order in which the kernel asks; the kernel refines it. Every question is answered with a bounded number
  of nested calls, and more fuel changes no answer. A provider that pages a list faithfully is read whole.\<close>

section \<open>What a complete answer rests on\<close>

text \<open>The specification: an answer may be complete in five ways only. The pages were read to the last and hold as many
  records as the register counted; every spelling of a crowded stack was counted zero; every class of an owner's
  crowd was counted zero or answered completely; every window of a wide list of names, or both halves of the
  regions, was answered completely and the totals together stay under the ceiling. What the register answered is stated
  over the provider's own functions, each at some state of the provider.\<close>

definition keys_of :: "'w deps \<Rightarrow> json list \<Rightarrow> json set" where
  "keys_of K rs = d_recordKey K ` set rs"

definition sizes :: "jstr list \<Rightarrow> answer_body \<Rightarrow> nat list" where
  "sizes half b = (case a_split b of Some (_, ps) \<Rightarrow> ps | None \<Rightarrow> [length half])"

definition joined :: "'w deps \<Rightarrow> answer_body list \<Rightarrow> json list" where
  "joined K bs = List.fold (\<lambda>b. merge_recs K (recs_of b)) bs []"

definition total_of :: "answer_body list \<Rightarrow> int" where
  "total_of bs = sum_list (map (\<lambda>b. or_zero (a_total b)) bs)"

text \<open>The pages of a question, each asked for with the page before it in hand; all but the last say that there is more.\<close>

definition before_page :: "page list \<Rightarrow> nat \<Rightarrow> page option" where
  "before_page ps i = (if i = 0 then None else Some (ps ! (i - 1)))"

definition pages_served :: "'w deps \<Rightarrow> query \<Rightarrow> page list \<Rightarrow> bool" where
  "pages_served K q ps \<longleftrightarrow>
     (\<forall>i < length ps. \<exists>w w'. d_search K (q, PageOf i (before_page ps i)) w = (Resolved (Parsed (ps ! i)), w'))"

definition rows_of :: "page list \<Rightarrow> json list" where
  "rows_of ps = concat (map (\<lambda>p. case pg_rows p of Some r \<Rightarrow> r | None \<Rightarrow> []) ps)"

text \<open>The rows read against the count. Where each response counts, every page states a total, the first one within the
  ceiling, and the rows are no fewer than the last total stated. Where the count is a call of its own, it answered within
  the ceiling and the rows are no fewer than it said; a search that states more is not held against them. Where nothing
  counts, the rows are within the ceiling and no total is stated.\<close>

definition rows_account :: "'w deps \<Rightarrow> query \<Rightarrow> page list \<Rightarrow> int option \<Rightarrow> bool" where
  "rows_account K q ps hits \<longleftrightarrow>
     (case d_seam K of
        Cheap \<Rightarrow> (\<forall>p \<in> set ps. pg_total p \<noteq> None) \<and> the (pg_total (hd ps)) \<le> ceiling_of K q
          \<and> hits = pg_total (last ps) \<and> the hits \<le> int (length (rows_of ps))
      | Endpoint \<Rightarrow> (\<exists>n said w w'. the (d_count K) q w = (Resolved (Counted n said), w') \<and> or_zero n \<le> ceiling_of K q
          \<and> or_zero n \<le> int (length (rows_of ps)) \<and> hits = Some (max (or_zero n) (or_zero (pg_total (last ps)))))
      | NoTotal \<Rightarrow> hits = None \<and> int (length (rows_of ps)) \<le> ceiling_of K q)"

text \<open>The records of the rows: with what the row itself says where rows screen themselves; else as they are, or with what the
  screen call answered for them. Where only the screen has the content, it answered without error and something joined.\<close>

definition screened_with :: "'w deps \<Rightarrow> json list \<Rightarrow> json \<Rightarrow> json" where
  "screened_with K rws x = with_screen (liftScreenFields x (Some (screened_row K rws x))) (screened_row K rws x)"

definition content_joined :: "'w deps \<Rightarrow> query \<Rightarrow> json list \<Rightarrow> json list \<Rightarrow> bool" where
  "content_joined K q rows rs \<longleftrightarrow>
     (if d_screenSource K = SearchRow then rs = map (\<lambda>x. with_screen x (the (d_rowScreen K) x (q_scope q))) rows
      else let uris = map the (filter truthy (map (d_recordId K) rows)) in
        rs = rows \<and> (d_contentFromScreen K \<longrightarrow> d_screen K = None \<or> uris = [])
        \<or> (\<exists>rws errors w w'. the (d_screen K) (uris, q_scope q) w = (Resolved (Screened (Some rws) errors), w')
              \<and> rs = map (screened_with K rws) rows
              \<and> (d_contentFromScreen K \<longrightarrow> errors = [] \<and> (rws = [] \<or> (\<exists>x \<in> set rows. truthy (Some (screened_row K rws x)))))))"

text \<open>The register counted a question, by the call the seam counts with.\<close>

definition register_counted :: "'w deps \<Rightarrow> query \<Rightarrow> int \<Rightarrow> bool" where
  "register_counted K q n \<longleftrightarrow>
     (case d_seam K of
        Cheap \<Rightarrow> \<exists>w w' p. d_search K (q, CountOnly) w = (Resolved (Parsed p), w') \<and> pg_total p = Some n
      | Endpoint \<Rightarrow> \<exists>w w' said. the (d_count K) q w = (Resolved (Counted (Some n) said), w')
      | NoTotal \<Rightarrow> False)"

inductive complete_band :: "'w deps \<Rightarrow> query \<Rightarrow> answer_body \<Rightarrow> bool" for K where
  pages_read: "complete_band K q b"
    if "b = (complete hits rs)\<lparr> a_lift := l, a_counts := said \<rparr>"
      and "ps \<noteq> []" and "pages_served K q ps" and "\<forall>p \<in> set (butlast ps). pg_more p" and "\<not> pg_more (last ps)"
      and "rows_account K q ps hits" and "content_joined K q (rows_of ps) rs"
| stack_zero: "complete_band K q b"
    if "b = (complete hits [])\<lparr> a_terms := Some counts, a_counts := said \<rparr>"
      and "length (all_names q) > 1" and "set (map fst counts) = set (all_names q)"
      and "\<forall>(t, e)\<in>set counts. e_disposition e = VerifiedZero \<and> register_counted K (q\<lparr> q_names := Some [t] \<rparr>) 0"
| classes_read: "complete_band K q b"
    if "b = (complete hits rs)\<lparr> a_classes := Some counts, a_counts := said \<rparr>"
      and "length (split_classes q) > 1" and "set (map fst counts) = set (split_classes q)"
      and "distinct (map (d_recordKey K) rs)"
      and "\<And>c e. (c, e) \<in> set counts \<Longrightarrow> e_disposition e = VerifiedZero \<and> register_counted K (q\<lparr> q_classes := Some [c] \<rparr>) 0
        \<or> (\<exists>b'. complete_band K (q\<lparr> q_classes := Some [c] \<rparr>) b' \<and> keys_of K (recs_of b') \<subseteq> keys_of K rs)"
| windows_read: "complete_band K q b"
    if "b = (complete (Some (total_of bs)) (joined K bs))\<lparr> a_terms := ts, a_counts := said \<rparr>"
      and "parts = windows k (all_names q)" and "length parts = length bs" and "k < length (all_names q)"
      and "\<And>i. i < length bs \<Longrightarrow> complete_band K (q\<lparr> q_names := Some (parts ! i) \<rparr>) (bs ! i)"
      and "total_of bs \<le> ceiling_of K q"
| halves_read: "complete_band K q b"
    if "b = (complete (Some (total_of [b1, b2])) (joined K [b1, b2]))
            \<lparr> a_lift := l, a_split := Some (cause, sizes h1 b1 @ sizes h2 b2), a_counts := said \<rparr>"
      and "regions_of q = h1 @ h2"
      and "complete_band K (q\<lparr> q_regions := Some h1 \<rparr>) b1" and "complete_band K (q\<lparr> q_regions := Some h2 \<rparr>) b2"
      and "total_of [b1, b2] \<le> ceiling_of K (q\<lparr> q_regions := rs0 \<rparr>)"

definition lawful :: "'w deps \<Rightarrow> query \<Rightarrow> answer \<Rightarrow> bool" where
  "lawful K q a \<longleftrightarrow> (\<forall>b. a = Answer b \<longrightarrow> a_state b = Complete \<longrightarrow> complete_band K q b)"

lemma lawful_Failed [simp]: "lawful K q (Failed t)"
  by (simp add: lawful_def)

lemma lawful_incomplete [simp]: "a_state b = Incomplete \<Longrightarrow> lawful K q (Answer b)"
  by (simp add: lawful_def)

lemma incomplete_state [simp]: "a_state (incomplete h f s r) = Incomplete"
  and floorStamp_state [simp]: "a_state (floorStamp fl b) = a_state b"
  and timeout_mark_state [simp]: "a_state (timeout_mark sp t b) = a_state b"
  and terms_if_any_state [simp]: "a_state (terms_if_any st b) = a_state b"
  by (simp_all add: incomplete_def floorStamp_def timeout_mark_def terms_if_any_def split: option.split)

lemma complete_band_said: "complete_band K q b \<Longrightarrow> complete_band K q (b\<lparr> a_counts := x \<rparr>)"
proof (induction rule: complete_band.induct)
  case (pages_read b said l hits rs ps q)
  then show ?case by (intro complete_band.pages_read[where hits = hits and rs = rs and l = l and said = x and ps = ps]) auto
next
  case (stack_zero b said counts hits q)
  then show ?case by (intro complete_band.stack_zero[where hits = hits and counts = counts and said = x]) auto
next
  case (classes_read b said counts hits rs q)
  show ?case
  proof (rule complete_band.classes_read[where hits = hits and rs = rs and counts = counts and said = x])
    show "b\<lparr> a_counts := x \<rparr> = (complete hits rs)\<lparr> a_classes := Some counts, a_counts := x \<rparr>"
      using classes_read(1) by simp
    show "e_disposition e = VerifiedZero \<and> register_counted K (q\<lparr> q_classes := Some [c] \<rparr>) 0
        \<or> (\<exists>b'. complete_band K (q\<lparr> q_classes := Some [c] \<rparr>) b' \<and> keys_of K (recs_of b') \<subseteq> keys_of K rs)"
      if "(c, e) \<in> set counts" for c e
      using classes_read(5)[OF that] by blast
  qed (rule classes_read)+
next
  case (windows_read b said ts bs parts k q)
  show ?case
  proof (rule complete_band.windows_read[where bs = bs and ts = ts and said = x and parts = parts and k = k])
    show "b\<lparr> a_counts := x \<rparr> = (complete (Some (total_of bs)) (joined K bs))\<lparr> a_terms := ts, a_counts := x \<rparr>"
      using windows_read(1) by simp
    show "complete_band K (q\<lparr> q_names := Some (parts ! i) \<rparr>) (bs ! i)" if "i < length bs" for i
      using windows_read(5)[OF that] by blast
  qed (rule windows_read)+
next
  case (halves_read b said cause h1 b1 h2 b2 l q rs0)
  show ?case
  proof (rule complete_band.halves_read[where ?b1.0 = b1 and ?b2.0 = b2 and l = l and cause = cause and ?h1.0 = h1
        and ?h2.0 = h2 and said = x and ?rs0.0 = rs0])
    show "b\<lparr> a_counts := x \<rparr> = (complete (Some (total_of [b1, b2])) (joined K [b1, b2]))
        \<lparr> a_lift := l, a_split := Some (cause, sizes h1 b1 @ sizes h2 b2), a_counts := x \<rparr>"
      using halves_read(1) by simp
  qed (rule halves_read)+
qed

lemma lawful_stamp: "lawful K q a \<Longrightarrow> lawful K q (stampTotalCounts a said)"
  unfolding lawful_def stampTotalCounts_def
  by (auto split: answer.splits option.splits list.splits intro: complete_band_said)

lemma ensures_own: "ensures m (lawful K q) \<Longrightarrow> ensures (own m) (lawful K q)"
  unfolding ensures_def own_def by (clarsimp split: option.splits) (blast intro: lawful_stamp)

lemma ensures_self: "ensures m (\<lambda>x. \<exists>w w'. m w = Some (x, w'))"
  unfolding ensures_def by blast

text \<open>The pages read when the loop ends, and the rows they hold against the count.\<close>

definition all_read :: "'w deps \<Rightarrow> query \<Rightarrow> page list \<Rightarrow> int option \<Rightarrow> bool" where
  "all_read K q ps hits \<longleftrightarrow> ps \<noteq> [] \<and> pages_served K q ps \<and> (\<forall>p \<in> set (butlast ps). pg_more p) \<and> \<not> pg_more (last ps)
     \<and> rows_account K q ps hits"

lemma lawful_pages:
  "all_read K q ps hits \<Longrightarrow> content_joined K q (rows_of ps) rs \<Longrightarrow> lawful K q (Answer ((complete hits rs)\<lparr> a_lift := l \<rparr>))"
  unfolding lawful_def all_read_def
  by (auto intro!: complete_band.pages_read[where said = None and l = l and rs = rs and hits = hits and ps = ps] simp: complete_def)

lemma screen_said: "screen_call K uris scope w = Some (Screened (Some rws) errors, w') \<Longrightarrow>
    the (d_screen K) (uris, scope) w = (Resolved (Screened (Some rws) errors), w')"
  by (auto simp: screen_call_def io_def guardScreenCall_def split: prod.splits call.splits)

lemma screen_outcome_joins:
  assumes "screen_outcome K rows n s = (rs, note, None)" and "d_screenSource K \<noteq> SearchRow"
    and "screen_call K (map the (filter truthy (map (d_recordId K) rows))) (q_scope q) w = Some (s, w')"
  shows "content_joined K q rows rs"
proof -
  consider (rows) rws errors where "s = Screened (Some rws) errors" | (none) "\<forall>rws errors. s \<noteq> Screened (Some rws) errors"
    by blast
  then show ?thesis
  proof cases
    case none
    then have "rs = rows \<and> \<not> d_contentFromScreen K"
      using assms(1) by (auto simp: screen_outcome_def split: screen_reply.splits option.splits if_splits)
    then show ?thesis using assms(2) by (simp add: content_joined_def)
  next
    case rows
    note call = screen_said[OF assms(3)[unfolded rows]]
    have "rs = map (screened_with K rws) rows
        \<and> (d_contentFromScreen K \<longrightarrow> errors = [] \<and> (rws = [] \<or> (\<exists>x \<in> set rows. truthy (Some (screened_row K rws x)))))"
      using assms(1) unfolding rows
      by (auto simp: screen_outcome_def attach_rows_def screened_with_def Let_def filter_empty_conv split: if_splits)
    then show ?thesis using assms(2) call unfolding content_joined_def Let_def by auto
  qed
qed

lemma finish_band_lawful:
  assumes read: "all_read K q ps hits"
  shows "ensures (finish_band K q (rows_of ps) hits) (lawful K q)"
proof (cases "d_screenSource K = SearchRow")
  case True
  then show ?thesis
    unfolding finish_band_def Let_def
    by (auto intro!: ensures_ret lawful_pages[OF read] simp: content_joined_def)
next
  case False
  let ?rows = "rows_of ps"
  let ?uris = "map the (filter truthy (map (d_recordId K) ?rows))"
  have out: "ensures (case screen_outcome K ?rows (length ?uris) s of
        (records, note, Some why) \<Rightarrow> ret (Answer (incomplete hits (length ?rows) records why))
      | (records, note, None) \<Rightarrow> ret (Answer ((complete hits records)
          \<lparr> a_lift := (case note of Some l \<Rightarrow> if l_applied l then None else Some l | None \<Rightarrow> None) \<rparr>))) (lawful K q)"
    if call: "\<exists>w w'. screen_call K ?uris (q_scope q) w = Some (s, w')" for s
  proof -
    obtain records nt why where o: "screen_outcome K ?rows (length ?uris) s = (records, nt, why)"
      by (metis surj_pair)
    have "content_joined K q ?rows records" if "why = None"
      using screen_outcome_joins[OF o[unfolded that] False] call by blast
    then show ?thesis
      unfolding o by (auto split: option.split intro!: ensures_ret lawful_pages[OF read])
  qed
  have plain: "content_joined K q ?rows ?rows" if "d_screen K = None \<or> ?uris = []"
    using that False unfolding content_joined_def Let_def by auto
  show ?thesis
    unfolding finish_band_def Let_def
    by (intro ensures_if ensures_ret lawful_pages[OF read] ensures_bind[OF ensures_self] out plain) (use False in simp_all)
qed

lemma reconcile_lawful:
  assumes served: "ps \<noteq> []" "pages_served K q ps" "\<forall>p \<in> set (butlast ps). pg_more p" "\<not> pg_more (last ps)"
    and account: "\<not> (case (d_seam K, probed, hits) of
        (Endpoint, Some n, _) \<Rightarrow> int (length (rows_of ps)) < n | (Cheap, _, Some n) \<Rightarrow> int (length (rows_of ps)) < n | _ \<Rightarrow> False)
      \<Longrightarrow> rows_account K q ps hits"
  shows "ensures (reconcile K q (rows_of ps) hits probed) (lawful K q)"
proof -
  have read: "\<not> (case (d_seam K, probed, hits) of
        (Endpoint, Some n, _) \<Rightarrow> int (length (rows_of ps)) < n | (Cheap, _, Some n) \<Rightarrow> int (length (rows_of ps)) < n | _ \<Rightarrow> False)
      \<Longrightarrow> ensures (finish_band K q (rows_of ps) hits) (lawful K q)"
    using served account by (intro finish_band_lawful) (simp add: all_read_def)
  show ?thesis
    unfolding reconcile_def using read
    by (auto split: count_seam.splits option.splits intro!: ensures_ret)
qed

text \<open>The parts of a crowded stack.\<close>

lemma spelling_entry_zero:
  "\<not> isUnresolvedCount (spelling_entry ceiling p) \<Longrightarrow> e_disposition (spelling_entry ceiling p) = VerifiedZero"
  by (auto simp: spelling_entry_def isUnresolvedCount_def floorCount_def counted_def split: option.splits if_splits)

lemma spelling_entry_total:
  "\<not> isUnresolvedCount (spelling_entry ceiling p) \<Longrightarrow> pr_total p = Some 0"
  by (auto simp: spelling_entry_def isUnresolvedCount_def floorCount_def counted_def split: option.splits if_splits)

lemma probe_counted: "probe_part K q w = Some (p, w') \<Longrightarrow> pr_total p = Some n \<Longrightarrow> register_counted K q n"
  by (auto simp: probe_part_def io_def countHits_def register_counted_def guardToolCall_def guardCountCall_def failed_probe_def
      split: count_seam.splits prod.splits call.splits reply.splits count_reply.splits option.splits) (intro exI conjI, assumption+)+

definition probe_said :: "'w deps \<Rightarrow> query \<Rightarrow> probe \<Rightarrow> bool" where
  "probe_said K q p \<longleftrightarrow> (\<exists>w w'. probe_part K q w = Some (p, w'))"

lemma probed_counted: "probe_said K q p \<Longrightarrow> pr_total p = Some n \<Longrightarrow> register_counted K q n"
  unfolding probe_said_def by (elim exE) (rule probe_counted)

lemma ensures_probe: "ensures (probe_part K q) (probe_said K q)"
  unfolding ensures_def probe_said_def by blast

lemma spellings_counted:
  "ensures (each_do (\<lambda>t counts. bind (probe_part K (q\<lparr> q_names := Some [t] \<rparr>))
       (\<lambda>p. ret (AList.update t (spelling_entry ceiling p) counts))) ns [])
     (\<lambda>counts. set (map fst counts) = set ns \<and> distinct (map fst counts)
        \<and> (\<forall>(t, e)\<in>set counts. \<exists>p. probe_said K (q\<lparr> q_names := Some [t] \<rparr>) p \<and> e = spelling_entry ceiling p))"
proof -
  define I where "I done counts \<longleftrightarrow> set (map fst counts) = set done \<and> distinct (map fst counts)
      \<and> (\<forall>(t, e)\<in>set counts. \<exists>p. probe_said K (q\<lparr> q_names := Some [t] \<rparr>) p \<and> e = spelling_entry ceiling p)"
    for "done" :: "jstr list" and counts :: "(jstr \<times> entry) list"
  have "ensures (each_do (\<lambda>t counts. bind (probe_part K (q\<lparr> q_names := Some [t] \<rparr>))
       (\<lambda>p. ret (AList.update t (spelling_entry ceiling p) counts))) ns []) (I ([] @ ns))"
  proof (rule ensures_each)
    show "I [] []" by (simp add: I_def)
    show "ensures (bind (probe_part K (q\<lparr> q_names := Some [t] \<rparr>)) (\<lambda>p. ret (AList.update t (spelling_entry ceiling p) counts)))
        (I (done @ [t]))" if I: "I done counts" for "done" t counts
    proof (rule ensures_bind[OF ensures_probe], rule ensures_ret)
      fix p assume p: "probe_said K (q\<lparr> q_names := Some [t] \<rparr>) p"
      have d: "distinct (map fst counts)" using I unfolding I_def by blast
      have "\<exists>p. probe_said K (q\<lparr> q_names := Some [t'] \<rparr>) p \<and> e = spelling_entry ceiling p"
        if "(t', e) \<in> set (AList.update t (spelling_entry ceiling p) counts)" for t' e
        using that I p unfolding update_entries[OF d] I_def by (cases "t' = t") auto
      then show "I (done @ [t]) (AList.update t (spelling_entry ceiling p) counts)"
        using I unfolding I_def by (auto simp: distinct_update)
    qed
  qed
  then show ?thesis unfolding I_def by simp
qed

lemma rescue_lawful:
  assumes "length (all_names q) > 1"
  shows "ensures (countFirstRescue K q (all_names q) ceiling hits floor) (lawful K q)"
  unfolding countFirstRescue_def
proof (rule ensures_bind[OF spellings_counted], intro ensures_if ensures_ret)
  fix counts
  assume c: "set (map fst counts) = set (all_names q) \<and> distinct (map fst counts)
      \<and> (\<forall>(t, e)\<in>set counts. \<exists>p. probe_said K (q\<lparr> q_names := Some [t] \<rparr>) p \<and> e = spelling_entry ceiling p)"
    and r: "filter isUnresolvedCount (map snd counts) = [] \<and> floor = None"
  have "e_disposition e = VerifiedZero \<and> register_counted K (q\<lparr> q_names := Some [t] \<rparr>) 0" if te: "(t, e) \<in> set counts" for t e
  proof -
    obtain p where p: "probe_said K (q\<lparr> q_names := Some [t] \<rparr>) p" "e = spelling_entry ceiling p" using c te by blast
    have "\<not> isUnresolvedCount e" using r te by (force simp: filter_empty_conv)
    then show ?thesis using p spelling_entry_zero spelling_entry_total probed_counted by blast
  qed
  then have "\<forall>(t, e)\<in>set counts. e_disposition e = VerifiedZero \<and> register_counted K (q\<lparr> q_names := Some [t] \<rparr>) 0" by blast
  then show "lawful K q (Answer ((complete hits [])\<lparr> a_terms := Some counts \<rparr>))"
    using c assms unfolding lawful_def
    by (auto intro!: complete_band.stack_zero[where hits = hits and counts = counts and said = None] simp: complete_def)
qed simp

lemma merge_one: "set (map (d_recordKey K) (merge_recs K recs m)) = set (map (d_recordKey K) m) \<union> keys_of K recs
    \<and> (distinct (map (d_recordKey K) m) \<longrightarrow> distinct (map (d_recordKey K) (merge_recs K recs m)))"
  unfolding merge_recs_def keys_of_def by (induction recs arbitrary: m) auto

definition labels :: "('k \<times> 'v) list \<Rightarrow> 'k set" where
  "labels xs = fst ` set xs"

lemma labels_update [simp]: "labels (AList.update k v xs) = insert k (labels xs)"
  and labels_Nil [simp]: "labels [] = {}"
  and labels_append [simp]: "labels (xs @ ys) = labels xs \<union> labels ys"
  and labels_one [simp]: "labels [(k, v)] = {k}"
  by (simp_all add: labels_def image_Un)

definition leg_ok :: "'w deps \<Rightarrow> query \<Rightarrow> json list \<Rightarrow> int \<Rightarrow> entry \<Rightarrow> bool" where
  "leg_ok K q merged c e \<longleftrightarrow> isUnresolvedCount e \<or> e_disposition e = VerifiedZero \<and> register_counted K (q\<lparr> q_classes := Some [c] \<rparr>) 0
     \<or> (\<exists>b'. complete_band K (q\<lparr> q_classes := Some [c] \<rparr>) b' \<and> keys_of K (recs_of b') \<subseteq> keys_of K merged)"

definition legs_ok :: "'w deps \<Rightarrow> query \<Rightarrow> (int \<times> entry) list \<times> json list \<Rightarrow> bool" where
  "legs_ok K q st \<longleftrightarrow> distinct (map fst (fst st)) \<and> distinct (map (d_recordKey K) (snd st))
     \<and> (\<forall>(c, e)\<in>set (fst st). leg_ok K q (snd st) c e)"

lemma legs_update:
  assumes "legs_ok K q (counts, merged)" and "leg_ok K q merged' c e"
    and "keys_of K merged \<subseteq> keys_of K merged'" and "distinct (map (d_recordKey K) merged')"
  shows "legs_ok K q (AList.update c e counts, merged')"
proof -
  have d: "distinct (map fst counts)" using assms(1) unfolding legs_ok_def by simp
  have "leg_ok K q merged' c' e'" if "(c', e') \<in> set (AList.update c e counts)" for c' e'
  proof (cases "c' = c")
    case True
    then show ?thesis using that assms(2) unfolding update_entries[OF d] by simp
  next
    case False
    then have "(c', e') \<in> set counts"
      using that unfolding update_entries[OF d] by simp
    then show ?thesis using assms(1,3) unfolding legs_ok_def leg_ok_def by fastforce
  qed
  then show ?thesis using d assms(4) unfolding legs_ok_def by (auto simp: distinct_update)
qed

lemma counted_disposition [simp]: "e_disposition (counted n d said) = d"
  by (simp add: counted_def)

lemma counted_unresolved [simp]:
  "isUnresolvedCount (counted n d said) \<longleftrightarrow> d = Crowd \<or> d = Unenumerated \<or> d = CountError"
  by (simp add: isUnresolvedCount_def)

lemma floorCount_unresolved [simp]: "isUnresolvedCount (floorCount p)"
  by (auto simp: floorCount_def isUnresolvedCount_def split: option.split)

lemma count_class_ok:
  assumes "legs_ok K q (counts, [])"
  shows "ensures (count_class K q ceiling c (counts, tractable))
     (\<lambda>(counts', tractable'). legs_ok K q (counts', [])
        \<and> labels counts' \<union> labels tractable' = insert c (labels counts \<union> labels tractable))"
proof -
  have up: "legs_ok K q (AList.update c e counts, [])"
    if "isUnresolvedCount e \<or> e_disposition e = VerifiedZero \<and> register_counted K (q\<lparr> q_classes := Some [c] \<rparr>) 0" for e
    by (rule legs_update[OF assms]) (use that in \<open>auto simp: leg_ok_def\<close>)
  show ?thesis
    unfolding count_class_def Let_def prod.case
    by (rule ensures_bind[OF ensures_probe])
       (use assms in \<open>auto split: option.split intro!: ensures_ret up dest: probed_counted\<close>)
qed

lemma read_leg_ok:
  assumes ask: "ensures (ask (q\<lparr> q_classes := Some [c] \<rparr>)) (lawful K (q\<lparr> q_classes := Some [c] \<rparr>))"
    and ok: "legs_ok K q (counts, merged)"
  shows "ensures (read_leg K ask q ceiling (c, n, said) (counts, merged))
     (\<lambda>st. legs_ok K q st \<and> labels (fst st) = insert c (labels counts))"
proof -
  have up: "legs_ok K q (AList.update c e counts, merged)" if "isUnresolvedCount e" for e
    by (rule legs_update[OF ok]) (use that ok in \<open>auto simp: leg_ok_def legs_ok_def\<close>)
  have full: "legs_ok K q (AList.update c (counted n Enumerated said) counts, merge_recs K (recs_of b) merged)"
    if "lawful K (q\<lparr> q_classes := Some [c] \<rparr>) (Answer b)" "a_state b = Complete" for b
  proof (rule legs_update[OF ok])
    have b: "complete_band K (q\<lparr> q_classes := Some [c] \<rparr>) b" using that unfolding lawful_def by blast
    have k: "keys_of K (merge_recs K (recs_of b) merged) = keys_of K merged \<union> keys_of K (recs_of b)"
      using merge_one[of K "recs_of b" merged] unfolding keys_of_def by simp
    show "leg_ok K q (merge_recs K (recs_of b) merged) c (counted n Enumerated said)"
      unfolding leg_ok_def k using b by blast
    show "keys_of K merged \<subseteq> keys_of K (merge_recs K (recs_of b) merged)" unfolding k by blast
    show "distinct (map (d_recordKey K) (merge_recs K (recs_of b) merged))"
      using merge_one ok unfolding legs_ok_def by fastforce
  qed
  show ?thesis
    unfolding read_leg_def Let_def prod.case
    by (intro ensures_if ensures_bind[OF ask])
       (auto split: answer.split intro!: ensures_ret up full)
qed

lemma split_lawful:
  assumes ask: "\<And>c. ensures (ask (q\<lparr> q_classes := Some [c] \<rparr>)) (lawful K (q\<lparr> q_classes := Some [c] \<rparr>))"
    and two: "length (split_classes q) > 1"
  shows "ensures (classSplitRescue K ask q (split_classes q) ceiling hits floor) (lawful K q)"
proof -
  let ?cs = "split_classes q"
  define I1 where "I1 done st \<longleftrightarrow> legs_ok K q (fst st, []) \<and> labels (fst st) \<union> labels (snd st) = set done"
    for "done" :: "int list" and st :: "(int \<times> entry) list \<times> (int \<times> int \<times> jstr option) list"
  have counted: "ensures (each_do (count_class K q ceiling) ?cs ([], [])) (I1 ([] @ ?cs))"
  proof (rule ensures_each)
    show "I1 [] ([], [])" by (simp add: I1_def legs_ok_def)
    show "ensures (count_class K q ceiling c st) (I1 (done @ [c]))" if I: "I1 done st" for "done" c st
    proof -
      obtain counts tractable where st: "st = (counts, tractable)" by (cases st)
      have "legs_ok K q (counts, [])" using I unfolding I1_def st by simp
      from count_class_ok[OF this, of ceiling c tractable] show ?thesis
        unfolding st by (rule ensures_mono) (use I in \<open>auto simp: I1_def st\<close>)
    qed
  qed
  show ?thesis
    unfolding classSplitRescue_def
  proof (rule ensures_bind[OF counted])
    fix st assume "I1 ([] @ ?cs) st"
    then have ok: "legs_ok K q (fst st, [])" and lab: "labels (fst st) \<union> labels (snd st) = set ?cs"
      by (simp_all add: I1_def)
    let ?legs = "sort_key (\<lambda>(c, n, said). n) (snd st)"
    define I2 where "I2 done st' \<longleftrightarrow> legs_ok K q st' \<and> labels (fst st') = labels (fst st) \<union> labels done"
      for "done" :: "(int \<times> int \<times> jstr option) list" and st'
    have legs: "ensures (each_do (read_leg K ask q ceiling) ?legs (fst st, [])) (I2 ([] @ ?legs))"
    proof (rule ensures_each)
      show "I2 [] (fst st, [])" using ok by (simp add: I2_def)
      show "ensures (read_leg K ask q ceiling leg st') (I2 (done @ [leg]))" if I: "I2 done st'" for "done" leg st'
      proof -
        obtain c n said counts merged where e: "leg = (c, n, said)" "st' = (counts, merged)"
          by (cases leg; cases st') auto
        have "legs_ok K q (counts, merged)" using I unfolding I2_def e by simp
        from read_leg_ok[where ask = ask and c = c and q = q, OF ask this, of ceiling n said] show ?thesis
          unfolding e by (rule ensures_mono) (use I in \<open>auto simp: I2_def e\<close>)
      qed
    qed
    have same: "labels ?legs = labels (snd st)" by (simp add: labels_def)
    show "ensures (case st of (counts, tractable) \<Rightarrow>
        bind (each_do (read_leg K ask q ceiling) (sort_key (\<lambda>(c, n, said). n) tractable) (counts, [])) (\<lambda>(counts, merged).
          if filter isUnresolvedCount (map snd counts) = [] \<and> floor = None
          then ret (Answer ((complete hits merged)\<lparr> a_classes := Some counts \<rparr>))
          else ret (Answer (floorStamp floor ((incomplete (if floor = None then hits else None) (length merged) merged
              (class_reason hits floor ceiling (length ?cs) counts))\<lparr> a_classes := Some counts, a_records := Some merged \<rparr>)))))
        (lawful K q)"
    proof (subst prod.case_eq_if, rule ensures_bind[OF legs], subst prod.case_eq_if, intro ensures_if ensures_ret)
      fix st' assume "I2 ([] @ ?legs) st'"
      then have k: "legs_ok K q st'" and l: "labels (fst st') = set ?cs"
        using lab same by (auto simp: I2_def)
      assume r: "filter isUnresolvedCount (map snd (fst st')) = [] \<and> floor = None"
      have "complete_band K q ((complete hits (snd st'))\<lparr> a_classes := Some (fst st') \<rparr>)"
      proof (rule complete_band.classes_read[where hits = hits and rs = "snd st'" and counts = "fst st'" and said = None])
        show "e_disposition e = VerifiedZero \<and> register_counted K (q\<lparr> q_classes := Some [c] \<rparr>) 0
            \<or> (\<exists>b'. complete_band K (q\<lparr> q_classes := Some [c] \<rparr>) b' \<and> keys_of K (recs_of b') \<subseteq> keys_of K (snd st'))"
          if "(c, e) \<in> set (fst st')" for c e
        proof -
          have "leg_ok K q (snd st') c e" using k that unfolding legs_ok_def by blast
          moreover have "\<not> isUnresolvedCount e" using r that by (force simp: filter_empty_conv)
          ultimately show ?thesis unfolding leg_ok_def by blast
        qed
      qed (use k l two in \<open>simp_all add: complete_def legs_ok_def labels_def\<close>)
      then show "lawful K q (Answer ((complete hits (snd st'))\<lparr> a_classes := Some (fst st') \<rparr>))"
        unfolding lawful_def by blast
    qed simp
  qed
qed

definition asks_lawfully :: "'w deps \<Rightarrow> 'w calls \<Rightarrow> query \<Rightarrow> bool" where
  "asks_lawfully K C q \<longleftrightarrow> (\<forall>q' s. ensures (c_ask C q' s) (lawful K q'))
     \<and> (\<forall>k. ensures (c_again C k) (lawful K q))
     \<and> (\<forall>cause. ensures (c_halve C q (ceiling_of K q) cause) (lawful K q))"

lemma crowded_lawful:
  assumes "asks_lawfully K C q" and "a_state b = Incomplete"
  shows "ensures (crowded K C q hits floor b) (lawful K q)"
  unfolding crowded_def using assms
  by (auto simp: asks_lawfully_def intro!: ensures_outer rescue_lawful split_lawful ensures_ret)

lemma search_failed_lawful:
  assumes "asks_lawfully K C q"
  shows "ensures (search_failed K C q split page results hits t) (lawful K q)"
  unfolding search_failed_def
  by (intro ensures_choose ensures_ret) (use assms in \<open>simp_all add: asks_lawfully_def\<close>)

lemma no_total_lawful:
  assumes "asks_lawfully K C q"
  shows "ensures (no_total K C q page results p) (lawful K q)"
  unfolding no_total_def Let_def using crowded_lawful[OF assms]
  by (auto split: option.split intro!: ensures_ret)

text \<open>The pages read so far, and what the next one adds to them.\<close>

definition so_far :: "'w deps \<Rightarrow> query \<Rightarrow> page list \<Rightarrow> nat \<Rightarrow> page option \<Rightarrow> json list \<Rightarrow> int option \<Rightarrow> bool" where
  "so_far K q ps page prev results hits \<longleftrightarrow> pages_served K q ps \<and> length ps = page \<and> (\<forall>p \<in> set ps. pg_more p)
     \<and> prev = before_page ps page \<and> results = rows_of ps
     \<and> (d_seam K = Cheap \<longrightarrow> (\<forall>p \<in> set ps. pg_total p \<noteq> None) \<and> (ps \<noteq> [] \<longrightarrow> the (pg_total (hd ps)) \<le> ceiling_of K q))
     \<and> (d_seam K = NoTotal \<longrightarrow> hits = None)"

definition probe_known :: "'w deps \<Rightarrow> query \<Rightarrow> int option \<Rightarrow> bool" where
  "probe_known K q probed \<longleftrightarrow> (d_seam K = Endpoint \<longrightarrow>
     (\<exists>n said w w'. the (d_count K) q w = (Resolved (Counted n said), w') \<and> probed = Some (or_zero n) \<and> or_zero n \<le> ceiling_of K q))"

lemma rows_of_app [simp]: "rows_of (ps @ [p]) = rows_of ps @ (case pg_rows p of Some r \<Rightarrow> r | None \<Rightarrow> [])"
  by (simp add: rows_of_def)

lemma served_app:
  assumes "pages_served K q ps" "\<exists>w w'. search K q (PageOf (length ps) (before_page ps (length ps))) w = Some (Parsed p, w')"
  shows "pages_served K q (ps @ [p])"
  unfolding pages_served_def
proof (intro allI impI)
  fix i assume i: "i < length (ps @ [p])"
  have before: "before_page (ps @ [p]) i = before_page ps i" using i by (auto simp: before_page_def nth_append)
  show "\<exists>w w'. d_search K (q, PageOf i (before_page (ps @ [p]) i)) w = (Resolved (Parsed ((ps @ [p]) ! i)), w')"
  proof (cases "i < length ps")
    case True
    then show ?thesis using assms(1) unfolding before pages_served_def by (simp add: nth_append)
  next
    case False
    then have i: "i = length ps" using i by simp
    obtain w w' where "search K q (PageOf (length ps) (before_page ps (length ps))) w = Some (Parsed p, w')" using assms(2) by blast
    then have "d_search K (q, PageOf (length ps) (before_page ps (length ps))) w = (Resolved (Parsed p), w')"
      by (auto simp: search_def io_def guardToolCall_def split: prod.splits call.splits)
    then show ?thesis unfolding before unfolding i by (metis nth_append_length)
  qed
qed

lemma so_far_next:
  assumes "so_far K q ps page prev results hits" and "pages_served K q (ps @ [p])" and "pg_more p"
    and "\<not> (d_seam K = Cheap \<and> pg_total p = None)"
    and "\<not> (d_seam K = Cheap \<and> page = 0 \<and> or_zero (page_total K probed hits p) > ceiling_of K q)"
  shows "so_far K q (ps @ [p]) (Suc page) (Some p) (results @ (case pg_rows p of Some r \<Rightarrow> r | None \<Rightarrow> [])) (page_total K probed hits p)"
proof -
  have "the (pg_total (hd (ps @ [p]))) \<le> ceiling_of K q" if "d_seam K = Cheap"
    using assms(1,4,5) that by (cases ps) (auto simp: so_far_def page_total_def or_zero_def)
  then show ?thesis using assms by (auto simp: so_far_def before_page_def nth_append page_total_def)
qed

lemma last_page_accounts:
  assumes so: "so_far K q ps page prev results hits" and known: "probe_known K q probed"
    and total: "\<not> (d_seam K = Cheap \<and> pg_total p = None)"
    and cheap: "\<not> (d_seam K = Cheap \<and> page = 0 \<and> or_zero (page_total K probed hits p) > ceiling_of K q)"
    and none: "\<not> (d_seam K = NoTotal \<and> int (length (rows_of (ps @ [p]))) > ceiling_of K q)"
    and agree: "\<not> (case (d_seam K, probed, page_total K probed hits p) of
        (Endpoint, Some n, _) \<Rightarrow> int (length (rows_of (ps @ [p]))) < n
      | (Cheap, _, Some n) \<Rightarrow> int (length (rows_of (ps @ [p]))) < n | _ \<Rightarrow> False)"
  shows "rows_account K q (ps @ [p]) (page_total K probed hits p)"
proof (cases "d_seam K")
  case Cheap
  then obtain n where n: "pg_total p = Some n" using total by auto
  have "the (pg_total (hd (ps @ [p]))) \<le> ceiling_of K q"
    using so cheap Cheap n by (cases ps) (auto simp: so_far_def page_total_def or_zero_def)
  then show ?thesis
    using so agree Cheap n by (auto simp: rows_account_def so_far_def page_total_def)
next
  case Endpoint
  then obtain n said w w' where n: "the (d_count K) q w = (Resolved (Counted n said), w')" "probed = Some (or_zero n)"
    "or_zero n \<le> ceiling_of K q" using known unfolding probe_known_def by blast
  have enough: "or_zero n \<le> int (length (rows_of (ps @ [p])))" using agree unfolding n(2) Endpoint by (simp del: rows_of_app)
  have total: "page_total K probed hits p = Some (max (or_zero n) (or_zero (pg_total (last (ps @ [p])))))"
    unfolding n(2) page_total_def Endpoint by (simp add: or_zero_def)
  show ?thesis
    unfolding rows_account_def Endpoint count_seam.case by (intro exI conjI) (rule n(1) n(3) enough total)+
next
  case NoTotal
  then show ?thesis using so none by (simp add: rows_account_def so_far_def page_total_def)
qed

lemma page_loop_lawful:
  assumes calls: "asks_lawfully K C q" and known: "probe_known K q probed"
  shows "so_far K q ps page prev results hits \<Longrightarrow>
    ensures (page_loop K C q split probed left page results hits cap prev) (lawful K q)"
proof (induction left arbitrary: ps page results hits cap prev rule: less_induct)
  case (less left)
  note so = less.prems
  have at: "length ps = page" "prev = before_page ps page" "results = rows_of ps" "pages_served K q ps" "\<forall>p \<in> set ps. pg_more p"
    using so by (simp_all add: so_far_def)
  show ?case
    apply (subst page_loop.simps)
    apply (rule ensures_bind[OF ensures_outer[OF ensures_self]])
    subgoal for r
      apply (cases r)
      subgoal by (simp add: search_failed_lawful[OF calls])
      subgoal by (simp add: ensures_ret)
      subgoal for p
        apply (simp only: reply.case)
        apply (rule ensures_then)
        apply (simp only: Let_def)
        apply (intro ensures_if)
        subgoal by (rule no_total_lawful[OF calls])
        subgoal by (rule crowded_lawful[OF calls]) simp
        subgoal by (simp add: ensures_ret)
        subgoal premises pr
        proof -
          have served: "pages_served K q (ps @ [p])" using served_app[OF at(4)] pr(1) at(1,2) by simp
          show ?thesis
            using reconcile_lawful[of "ps @ [p]" K q probed "page_total K probed hits p"] served at pr(5)
              last_page_accounts[OF so known pr(3,4)[unfolded]] pr
            by (auto intro!: ensures_outer)
        qed
        subgoal premises pr
        proof -
          have served: "pages_served K q (ps @ [p])" using served_app[OF at(4)] pr(1) at(1,2) by simp
          have "so_far K q (ps @ [p]) (Suc page) (Some p) (results @ (case pg_rows p of Some r \<Rightarrow> r | None \<Rightarrow> [])) (page_total K probed hits p)"
            using so_far_next[OF so served] pr by blast
          then show ?thesis by (auto split: nat.split intro!: ensures_ret less.IH)
        qed
        done
      done
    done
qed

definition kernel_ok :: "'w deps \<Rightarrow> bool" where
  "kernel_ok K \<longleftrightarrow> makeEnumerate K = None \<and> 1 \<le> d_ceilingDefault K \<and> 1 \<le> d_namesChunkDefault K"

lemma ceiling_pos: "kernel_ok K \<Longrightarrow> 1 \<le> ceiling_of K q"
  unfolding kernel_ok_def ceiling_of_def envInt_def Let_def by (auto split: option.split)

lemma joined_append: "joined K (bs @ [b]) = merge_recs K (recs_of b) (joined K bs)"
  by (simp add: joined_def)

lemma total_append: "total_of (bs @ [b]) = total_of bs + or_zero (a_total b)"
  by (simp add: total_of_def)

lemma nth_append_one:
  assumes "length bs = length xs" and "\<And>i. i < length bs \<Longrightarrow> P (xs ! i) (bs ! i)" and "P x b"
    and "i < length (bs @ [b])"
  shows "P ((xs @ [x]) ! i) ((bs @ [b]) ! i)"
  using assms by (cases "i < length bs") (auto simp: nth_append less_Suc_eq)

text \<open>The windows enumerated so far, while none of them had to be counted term by term.\<close>

definition windows_done :: "'w deps \<Rightarrow> query \<Rightarrow> int \<Rightarrow> (nat \<times> jstr list) list \<Rightarrow> window_state \<Rightarrow> bool" where
  "windows_done K q ceiling done st \<longleftrightarrow> ws_notes st \<noteq> [] \<or>
     (\<exists>bs. length bs = length done
        \<and> (\<forall>i < length bs. complete_band K (q\<lparr> q_names := Some (snd (done ! i)) \<rparr>) (bs ! i))
        \<and> ws_merged st = joined K bs \<and> ws_total st = total_of bs \<and> total_of bs \<le> ceiling)"

lemma take_window_done:
  assumes ask: "\<And>q'. ensures (ask q') (lawful K q')" and inv: "windows_done K q ceiling done st"
  shows "ensures (take_window K ask q ceiling chunks (i, part) st)
     (\<lambda>r. case r of Inl st' \<Rightarrow> windows_done K q ceiling (done @ [(i, part)]) st' | Inr a \<Rightarrow> lawful K q a)"
  unfolding take_window_def Let_def prod.case
proof (rule ensures_bind[OF ensures_outer[OF ask]], goal_cases)
  case (1 r)
  show ?case
  proof (cases r)
    case (Failed t)
    then show ?thesis by (simp add: ensures_ret)
  next
    case (Answer b)
    show ?thesis
    proof (cases "a_state b = Complete")
      case False
      then show ?thesis
        unfolding Answer
        by (auto intro!: ensures_then ensures_ret split: option.split simp: windows_done_def)
    next
      case True
      then have b: "complete_band K (q\<lparr> q_names := Some part \<rparr>) b"
        using 1 unfolding Answer lawful_def by blast
      have "windows_done K q ceiling (done @ [(i, part)]) (st\<lparr> ws_total := ws_total st + or_zero (a_total b),
              ws_merged := merge_recs K (recs_of b) (ws_merged st), ws_terms := ts, ws_whole := wh \<rparr>)"
        if small: "\<not> (ws_total st + or_zero (a_total b) > ceiling \<and> ws_notes st = [])" for ts wh
      proof (cases "ws_notes st = []")
        case False
        then show ?thesis by (simp add: windows_done_def)
      next
        case clean: True
        then obtain bs where bs: "length bs = length done"
          "\<And>i. i < length bs \<Longrightarrow> complete_band K (q\<lparr> q_names := Some (snd (done ! i)) \<rparr>) (bs ! i)"
          "ws_merged st = joined K bs" "ws_total st = total_of bs"
          using inv unfolding windows_done_def by blast
        have "complete_band K (q\<lparr> q_names := Some (snd ((done @ [(i, part)]) ! j)) \<rparr>) ((bs @ [b]) ! j)"
          if "j < length (bs @ [b])" for j
          using nth_append_one[where P = "\<lambda>x b. complete_band K (q\<lparr> q_names := Some (snd x) \<rparr>) b", OF bs(1,2) _ that, of "(i, part)"] b
          by simp
        then show ?thesis
          unfolding windows_done_def using bs small clean
          by (intro disjI2 exI[of _ "bs @ [b]"]) (auto simp: joined_append total_append)
      qed
      then show ?thesis
        unfolding Answer using True
        by (auto intro!: ensures_then ensures_ret)
    qed
  qed
qed

lemma windows_length: "length (windows k xs) = (length xs + k - 1) div k"
  by (simp add: windows_def)

lemma name_windows_lawful:
  assumes ask: "\<And>q'. ensures (ask q') (lawful K q')" and ok: "kernel_ok K" and "k < length (all_names q)"
  shows "ensures (name_windows K ask q (ceiling_of K q) k) (lawful K q)"
proof -
  let ?parts = "windows k (all_names q)"
  let ?zip = "zip [0..<length ?parts] ?parts"
  let ?st = "\<lparr> ws_merged = [], ws_terms = [], ws_notes = [], ws_whole = [], ws_total = 0, ws_floor = None \<rparr>"
  have "ensures (loop (take_window K ask q (ceiling_of K q) (length ?parts)) ?zip ?st)
      (\<lambda>r. case r of Inl st' \<Rightarrow> windows_done K q (ceiling_of K q) ([] @ ?zip) st' | Inr a \<Rightarrow> lawful K q a)"
  proof (rule ensures_loop)
    show "windows_done K q (ceiling_of K q) [] ?st"
      using ceiling_pos[OF ok, of q] by (simp add: windows_done_def joined_def total_of_def)
    show "ensures (take_window K ask q (ceiling_of K q) (length ?parts) x st)
        (\<lambda>r. case r of Inl st' \<Rightarrow> windows_done K q (ceiling_of K q) (done @ [x]) st' | Inr a \<Rightarrow> lawful K q a)"
      if "windows_done K q (ceiling_of K q) done st" for "done" x st
      using take_window_done[OF ask that] by (cases x) blast
  qed
  then show ?thesis
    unfolding name_windows_def Let_def
  proof (rule ensures_bind, goal_cases)
    case (1 r)
    show ?case
    proof (cases r)
      case (Inr a)
      then show ?thesis using 1 by (simp add: ensures_ret)
    next
      case (Inl st)
      show ?thesis
      proof (cases "ws_notes st = []")
        case False
        then show ?thesis unfolding Inl by (simp add: ensures_ret)
      next
        case True
        then obtain bs where bs: "length bs = length ?zip"
          "\<And>i. i < length bs \<Longrightarrow> complete_band K (q\<lparr> q_names := Some (snd (?zip ! i)) \<rparr>) (bs ! i)"
          "ws_merged st = joined K bs" "ws_total st = total_of bs" "total_of bs \<le> ceiling_of K q"
          using 1 unfolding Inl windows_done_def by auto
        have "complete_band K q ((complete (Some (ws_total st)) (ws_merged st))
            \<lparr> a_terms := (if ws_terms st = [] then None else Some (ws_terms st)) \<rparr>)"
        proof (rule complete_band.windows_read[where bs = bs and parts = ?parts and k = k and said = None])
          show "complete_band K (q\<lparr> q_names := Some (?parts ! i) \<rparr>) (bs ! i)" if "i < length bs" for i
            using bs(2)[OF that] that bs(1) by simp
        qed (use bs assms in \<open>simp_all add: complete_def\<close>)
        then show ?thesis
          unfolding Inl using True by (auto simp: lawful_def intro!: ensures_ret)
      qed
    qed
  qed
qed

text \<open>The halves answered so far.\<close>

definition halves_done :: "'w deps \<Rightarrow> query \<Rightarrow> (jstr list \<times> answer) list \<Rightarrow> halves_state \<Rightarrow> bool" where
  "halves_done K q done st \<longleftrightarrow> (\<exists>bs. length bs = length done
     \<and> (\<forall>i < length bs. complete_band K (q\<lparr> q_regions := Some (fst (done ! i)) \<rparr>) (bs ! i))
     \<and> hs_merged st = joined K bs \<and> hs_total st = total_of bs
     \<and> hs_parts st = concat (map2 sizes (map fst done) bs))"

lemma take_half_done:
  assumes deeper: "\<And>c. ensures (deeper (q\<lparr> q_regions := Some half \<rparr>) c) (lawful K (q\<lparr> q_regions := Some half \<rparr>))"
    and first: "lawful K (q\<lparr> q_regions := Some half \<rparr>) first" and inv: "halves_done K q done st"
  shows "ensures (take_half K deeper q cause (half, first) st)
     (\<lambda>r. case r of Inl st' \<Rightarrow> halves_done K q (done @ [(half, first)]) st' | Inr a \<Rightarrow> lawful K q a)"
proof -
  have again: "ensures (\<lambda>ws. if timed_out first \<and> \<not> d_late K (fst ws)
      then deeper (q\<lparr> q_regions := Some half \<rparr>) (or_text (reason_of first) cause) ws else ret first ws)
      (lawful K (q\<lparr> q_regions := Some half \<rparr>))"
    by (intro ensures_choose ensures_ret deeper first)
  have stop: "ensures (ret (Inr (Answer (b\<lparr> a_split := x \<rparr>))))
      (\<lambda>r. case r of Inl st' \<Rightarrow> halves_done K q (done @ [(half, first)]) st' | Inr a \<Rightarrow> lawful K q a)"
    if "a_state b = Incomplete" for b x
    using that by (simp add: ensures_ret)
  have next_half: "halves_done K q (done @ [(half, first)]) \<lparr> hs_merged = merge_recs K (recs_of b) (hs_merged st),
        hs_parts = hs_parts st @ (case a_split b of Some (_, ps) \<Rightarrow> ps | None \<Rightarrow> [length half]),
        hs_total = hs_total st + or_zero (a_total b), hs_lift = l \<rparr>"
    if b: "complete_band K (q\<lparr> q_regions := Some half \<rparr>) b" for b l
  proof -
    obtain bs where bs: "length bs = length done"
      "\<And>i. i < length bs \<Longrightarrow> complete_band K (q\<lparr> q_regions := Some (fst (done ! i)) \<rparr>) (bs ! i)"
      "hs_merged st = joined K bs" "hs_total st = total_of bs" "hs_parts st = concat (map2 sizes (map fst done) bs)"
      using inv unfolding halves_done_def by blast
    have "complete_band K (q\<lparr> q_regions := Some (fst ((done @ [(half, first)]) ! j)) \<rparr>) ((bs @ [b]) ! j)"
      if "j < length (bs @ [b])" for j
      using nth_append_one[where P = "\<lambda>x b. complete_band K (q\<lparr> q_regions := Some (fst x) \<rparr>) b", OF bs(1,2) _ that, of "(half, first)"] b
      by simp
    then show ?thesis
      unfolding halves_done_def sizes_def[symmetric] using bs
      by (intro exI[of _ "bs @ [b]"]) (auto simp: joined_append total_append)
  qed
  show ?thesis
    unfolding take_half_def Let_def prod.case
    apply (intro ensures_if)
    subgoal by (rule stop) simp
    subgoal
      apply (rule ensures_bind[OF again])
      subgoal for r
        apply (cases r)
        subgoal by (simp only: answer.case) (rule stop, simp)
        subgoal for b
          apply (simp only: answer.case)
          apply (rule ensures_then)
          apply (intro ensures_if)
          subgoal using next_half[of b] by (auto simp: lawful_def intro!: ensures_ret)
          subgoal by (rule stop) simp
          done
        done
      done
    done
qed

lemma regionHalves_lawful:
  assumes ask: "\<And>rs. ensures (ask (q\<lparr> q_regions := Some rs \<rparr>)) (lawful K (q\<lparr> q_regions := Some rs \<rparr>))"
    and halve: "\<And>rs c. ensures (halve (q\<lparr> q_regions := Some rs \<rparr>) ceiling c) (lawful K (q\<lparr> q_regions := Some rs \<rparr>))"
    and ceiling: "ceiling = ceiling_of K (q\<lparr> q_regions := rs0 \<rparr>)"
  shows "ensures (regionHalves K ask halve q ceiling cause) (lawful K q)"
proof -
  define h1 where "h1 = take ((length (regions_of q) + 1) div 2) (regions_of q)"
  define h2 where "h2 = drop ((length (regions_of q) + 1) div 2) (regions_of q)"
  have rs: "regions_of q = h1 @ h2" by (simp add: h1_def h2_def)
  let ?st = "\<lparr> hs_merged = [], hs_parts = [], hs_total = 0, hs_lift = None \<rparr>"
  have both: "ensures (loop (take_half K (\<lambda>q' c. halve q' ceiling c) q cause) [(h1, r1), (h2, r2)] ?st)
      (\<lambda>r. case r of Inl st' \<Rightarrow> halves_done K q ([] @ [(h1, r1), (h2, r2)]) st' | Inr a \<Rightarrow> lawful K q a)"
    if "lawful K (q\<lparr> q_regions := Some h1 \<rparr>) r1" "lawful K (q\<lparr> q_regions := Some h2 \<rparr>) r2" for r1 r2
  proof (rule ensures_loop)
    show "halves_done K q [] ?st" by (simp add: halves_done_def joined_def total_of_def)
    fix "done" x st
    assume "x \<in> set [(h1, r1), (h2, r2)]" and inv: "halves_done K q done st"
    then consider "x = (h1, r1)" | "x = (h2, r2)" by auto
    then show "ensures (take_half K (\<lambda>q' c. halve q' ceiling c) q cause x st)
        (\<lambda>r. case r of Inl st' \<Rightarrow> halves_done K q (done @ [x]) st' | Inr a \<Rightarrow> lawful K q a)"
      by cases (use that inv in \<open>auto intro!: take_half_done halve\<close>)
  qed
  have finish: "lawful K q (Answer ((if hs_total st > ceiling
        then incomplete (Some (hs_total st)) (length (hs_merged st)) (hs_merged st) (over_ceiling (hs_total st) ceiling)
        else (complete (Some (hs_total st)) (hs_merged st))\<lparr> a_lift := hs_lift st \<rparr>)\<lparr> a_split := Some (cause, hs_parts st) \<rparr>))"
    if fin: "halves_done K q [(h1, r1), (h2, r2)] st" for r1 r2 st
  proof (cases "hs_total st > ceiling")
    case True
    then show ?thesis by simp
  next
    case False
    obtain bs where bs: "length bs = length [(h1, r1), (h2, r2)]"
      "\<And>i. i < length bs \<Longrightarrow> complete_band K (q\<lparr> q_regions := Some (fst ([(h1, r1), (h2, r2)] ! i)) \<rparr>) (bs ! i)"
      "hs_merged st = joined K bs" "hs_total st = total_of bs" "hs_parts st = concat (map2 sizes (map fst [(h1, r1), (h2, r2)]) bs)"
      using fin unfolding halves_done_def by blast
    obtain b1 b2 where b: "bs = [b1, b2]" using bs(1) by (auto simp: length_Suc_conv)
    have parts: "complete_band K (q\<lparr> q_regions := Some h1 \<rparr>) b1" "complete_band K (q\<lparr> q_regions := Some h2 \<rparr>) b2"
      using bs(2)[of 0] bs(2)[of 1] unfolding b by simp_all
    have "complete_band K q ((complete (Some (hs_total st)) (hs_merged st))
        \<lparr> a_lift := hs_lift st, a_split := Some (cause, hs_parts st) \<rparr>)"
    proof (rule complete_band.halves_read[where ?b1.0 = b1 and ?b2.0 = b2 and l = "hs_lift st" and cause = cause
            and ?h1.0 = h1 and ?h2.0 = h2 and said = None and ?rs0.0 = rs0])
      show "(complete (Some (hs_total st)) (hs_merged st))\<lparr> a_lift := hs_lift st, a_split := Some (cause, hs_parts st) \<rparr>
          = (complete (Some (total_of [b1, b2])) (joined K [b1, b2]))
              \<lparr> a_lift := hs_lift st, a_split := Some (cause, sizes h1 b1 @ sizes h2 b2), a_counts := None \<rparr>"
        using bs(3-5) unfolding b by (simp add: complete_def)
      show "total_of [b1, b2] \<le> ceiling_of K (q\<lparr> q_regions := rs0 \<rparr>)"
        using bs(4) False ceiling unfolding b by simp
    qed (rule rs parts)+
    then show ?thesis using False unfolding lawful_def by simp
  qed
  show ?thesis
    unfolding regionHalves_def Let_def h1_def[symmetric] h2_def[symmetric]
    apply (rule ensures_bind[OF ensures_outer[OF ask]])
    apply (rule ensures_bind[OF ensures_outer[OF ask]])
    apply (intro ensures_if)
    subgoal by (simp add: ensures_ret)
    subgoal for r1 r2
      apply (rule ensures_bind[OF both])
      subgoal by assumption
      subgoal by assumption
      subgoal for r
        apply (cases r)
        subgoal by (simp only: sum.case append.simps) (rule ensures_ret, erule finish)
        subgoal by (simp add: ensures_ret)
        done
      done
    done
qed

lemma count_said: "count_call K q w = Some (Counted n what, w') \<Longrightarrow> the (d_count K) q w = (Resolved (Counted n what), w')"
  by (auto simp: count_call_def io_def guardCountCall_def split: prod.splits call.splits)

lemma so_far_none: "(d_seam K = NoTotal \<longrightarrow> hits = None) \<Longrightarrow> so_far K q [] 0 None [] hits"
  by (simp add: so_far_def pages_served_def before_page_def rows_of_def)

lemma count_first_lawful:
  assumes "asks_lawfully K C q" and "kernel_ok K" and "d_seam K = Endpoint"
  shows "ensures (count_first K C q split) (lawful K q)"
proof -
  have "ensures (case c of
         NotCounted why \<Rightarrow>
           \<lambda>ws. (let words = or_text why [] in
            if (case d_cardinality K of Some refused \<Rightarrow> refused words | None \<Rightarrow> False)
            then ret (Answer ((incomplete None 0 [] (count_refused words))\<lparr> a_basis := Some ProviderRefusedCount \<rparr>)) ws
            else if splittable q split \<and> isGatewayTimeout words \<and> \<not> d_late K (fst ws)
            then c_halve C q (ceiling_of K q) words ws
            else ret (Answer (timeout_mark split words (incomplete (Some 0) 0 [] (count_failed why)))) ws)
       | Counted n said \<Rightarrow>
           \<lambda>ws. bind (hear said) (\<lambda>_.
             if or_zero n > ceiling_of K q
             then crowded K C q (Some (or_zero n)) None (incomplete (Some (or_zero n)) 0 [] (over_ceiling (or_zero n) (ceiling_of K q)))
             else page_loop K C q split (Some (or_zero n)) (d_pageGuard K) 0 [] (Some (or_zero n)) None None) ws)
      (lawful K q)" if said: "\<exists>w w'. count_call K q w = Some (c, w')" for c
  proof (cases c)
    case (Counted n what)
    then have "\<exists>w w'. the (d_count K) q w = (Resolved (Counted n what), w')"
      using said count_said by (metis (no_types))
    then have "probe_known K q (Some (or_zero n))" if "or_zero n \<le> ceiling_of K q"
      using that unfolding probe_known_def by metis
    then show ?thesis
      using Counted assms by (auto intro!: ensures_then crowded_lawful page_loop_lawful[OF assms(1)] so_far_none)
  next
    case (NotCounted why)
    show ?thesis
      unfolding NotCounted count_reply.case Let_def
      by (intro ensures_choose ensures_ret) (use assms in \<open>simp_all add: asks_lawfully_def\<close>)
  qed
  moreover have "count_first K C q split = bind (outer (count_call K q)) (\<lambda>c. case c of
         NotCounted why \<Rightarrow>
           \<lambda>ws. (let words = or_text why [] in
            if (case d_cardinality K of Some refused \<Rightarrow> refused words | None \<Rightarrow> False)
            then ret (Answer ((incomplete None 0 [] (count_refused words))\<lparr> a_basis := Some ProviderRefusedCount \<rparr>)) ws
            else if splittable q split \<and> isGatewayTimeout words \<and> \<not> d_late K (fst ws)
            then c_halve C q (ceiling_of K q) words ws
            else ret (Answer (timeout_mark split words (incomplete (Some 0) 0 [] (count_failed why)))) ws)
       | Counted n said \<Rightarrow>
           \<lambda>ws. bind (hear said) (\<lambda>_.
             if or_zero n > ceiling_of K q
             then crowded K C q (Some (or_zero n)) None (incomplete (Some (or_zero n)) 0 [] (over_ceiling (or_zero n) (ceiling_of K q)))
             else page_loop K C q split (Some (or_zero n)) (d_pageGuard K) 0 [] (Some (or_zero n)) None None) ws)"
    unfolding count_first_def by (intro arg_cong2[where f = bind] refl ext) (simp split: count_reply.split)
  ultimately show ?thesis by (auto intro: ensures_bind[OF ensures_outer[OF ensures_self]])
qed

lemma enumerateQuestion_lawful:
  assumes "asks_lawfully K C q" and "kernel_ok K"
  shows "ensures (enumerateQuestion K C q split width) (lawful K q)"
  unfolding enumerateQuestion_def
proof (intro ensures_if)
  show "ensures (ret (Failed (d_missing K))) (lawful K q)" by (simp add: ensures_ret)
  show "ensures (name_windows K (\<lambda>q'. c_ask C q' True) q (ceiling_of K q) (names_chunk K q width)) (lawful K q)"
    if "names_chunk K q width < length (all_names q)"
    using assms that by (intro name_windows_lawful) (simp_all add: asks_lawfully_def)
  show "ensures (case d_seam K of
             Endpoint \<Rightarrow> count_first K C q split
           | Cheap \<Rightarrow> page_loop K C q split None (d_pageGuard K) 0 [] (Some 0) None None
           | NoTotal \<Rightarrow> page_loop K C q split None (d_pageGuard K) 0 [] None None None) (lawful K q)"
    using assms by (auto split: count_seam.split intro!: count_first_lawful page_loop_lawful so_far_none simp: probe_known_def)
qed

lemma questions_lawful:
  assumes "kernel_ok K"
  shows "(\<forall>q split width. ensures (question n K q split width) (lawful K q))
    \<and> (\<forall>q rs0 cause. ensures (region_split n K q (ceiling_of K (q\<lparr> q_regions := rs0 \<rparr>)) cause) (lawful K q))"
proof (induction n)
  case 0
  then show ?case by (simp add: ensures_None)
next
  case (Suc n)
  have own: "ensures (own (question n K q s None)) (lawful K q)" for q s
    using Suc by (intro ensures_own) blast
  have again: "ensures (question n K q s w) (lawful K q)" for q s w
    using Suc by blast
  have halve: "ensures (region_split n K q (ceiling_of K (q\<lparr> q_regions := rs0 \<rparr>)) cause) (lawful K q)" for q rs0 cause
    using Suc by blast
  have "ensures (question (Suc n) K q split width) (lawful K q)" for q split width
  proof -
    have "ensures (region_split n K q (ceiling_of K q) cause) (lawful K q)" for cause
      using halve[of q "q_regions q" cause] by simp
    then show ?thesis
      unfolding question.simps
      by (intro enumerateQuestion_lawful assms) (simp add: asks_lawfully_def own again)
  qed
  moreover have "ensures (region_split (Suc n) K q (ceiling_of K (q\<lparr> q_regions := rs0 \<rparr>)) cause) (lawful K q)" for q rs0 cause
  proof -
    have "ensures (region_split n K (q\<lparr> q_regions := Some rs \<rparr>) (ceiling_of K (q\<lparr> q_regions := rs0 \<rparr>)) c)
        (lawful K (q\<lparr> q_regions := Some rs \<rparr>))" for rs c
      using halve[of "q\<lparr> q_regions := Some rs \<rparr>" rs0 c] by simp
    then show ?thesis
      unfolding region_split.simps by (intro regionHalves_lawful[where ?rs0.0 = rs0] own refl)
  qed
  ultimately show ?case by blast
qed

text \<open>Consequences, by rule induction.\<close>

lemma complete_band_plain:
  "complete_band K q b \<Longrightarrow> a_state b = Complete \<and> a_records b = Some (recs_of b) \<and> a_count b = length (recs_of b)
     \<and> a_reason b = None \<and> a_floor b = None \<and> a_basis b = None \<and> \<not> a_timeout b"
  by (induction rule: complete_band.induct) (simp_all add: complete_def recs_of_def)

lemma merge_keys: "keys_of K (merge_recs K recs m) = keys_of K m \<union> keys_of K recs"
  using merge_one[of K recs m] by (simp add: keys_of_def)

lemma joined_keys: "keys_of K (joined K bs) = (\<Union>b\<in>set bs. keys_of K (recs_of b))"
  by (induction bs rule: rev_induct) (auto simp: joined_append merge_keys, simp add: joined_def keys_of_def)

lemma joined_distinct: "distinct (map (d_recordKey K) (joined K bs))"
  by (induction bs rule: rev_induct) (simp_all add: joined_append merge_one, simp add: joined_def)

lemma complete_split_sizes:
  "complete_band K q b \<Longrightarrow> a_split b = Some (cause, ps) \<Longrightarrow> sum_list ps = length (regions_of q)"
proof (induction arbitrary: cause ps rule: complete_band.induct)
  case (halves_read b said cause' h1 b1 h2 b2 l q rs0)
  have "sum_list (sizes h b') = length h"
    if "\<And>c ps. a_split b' = Some (c, ps) \<Longrightarrow> sum_list ps = length (regions_of (q\<lparr> q_regions := Some h \<rparr>))" for h b'
    using that by (auto simp: sizes_def regions_of_def split: option.split)
  then have "sum_list (sizes h1 b1) = length h1" "sum_list (sizes h2 b2) = length h2"
    using halves_read by blast+
  then show ?case
    using halves_read(1,2) halves_read(8) by auto
qed (simp_all add: complete_def)

section \<open>Enough fuel\<close>

text \<open>Every call a question makes is about fewer names, regions or classes, or is the same question with a
  width for its names, which then asks about fewer names.\<close>

definition size_of :: "query \<Rightarrow> nat" where
  "size_of q = length (all_names q) + length (regions_of q) + length (split_classes q)"

definition calls_return :: "'w calls \<Rightarrow> query \<Rightarrow> bool" where
  "calls_return C q \<longleftrightarrow> (\<forall>q' s. size_of q' < size_of q \<longrightarrow> returns (c_ask C q' s))
     \<and> (\<forall>k. 1 \<le> k \<longrightarrow> k < length (all_names q) \<longrightarrow> returns (c_again C k))
     \<and> (length (regions_of q) > 1 \<longrightarrow> (\<forall>ceiling cause. returns (c_halve C q ceiling cause)))"

lemma size_names: "length part < length (all_names q) \<Longrightarrow> size_of (q\<lparr> q_names := Some part \<rparr>) < size_of q"
proof -
  assume "length part < length (all_names q)"
  moreover have "length (all_names (q\<lparr> q_names := Some part \<rparr>)) \<le> length part"
    by (simp add: all_names_def)
  ultimately show ?thesis
    by (simp add: size_of_def regions_of_def split_classes_def isOwnerScoped_def)
qed

lemma size_regions: "length half < length (regions_of q) \<Longrightarrow> size_of (q\<lparr> q_regions := Some half \<rparr>) < size_of q"
  by (simp add: size_of_def regions_of_def all_names_def split_classes_def isOwnerScoped_def)

lemma size_class: "length (split_classes q) > 1 \<Longrightarrow> size_of (q\<lparr> q_classes := Some [c] \<rparr>) < size_of q"
proof -
  assume two: "length (split_classes q) > 1"
  then have "isOwnerScoped q" by (cases "isOwnerScoped q") (simp_all add: split_classes_def)
  moreover have "isOwnerScoped (q\<lparr> q_classes := Some [c] \<rparr>) = isOwnerScoped q" by (simp add: isOwnerScoped_def)
  ultimately have "split_classes (q\<lparr> q_classes := Some [c] \<rparr>) = [c]"
    by (simp add: split_classes_def set_of_def set_add_def)
  then show ?thesis using two by (simp add: size_of_def regions_of_def all_names_def)
qed

lemma returns_finish: "returns (finish_band K q results hits)"
  unfolding finish_band_def Let_def screen_call_def
  by (intro returns_if returns_ret returns_bind returns_io) (auto split: prod.split option.split intro: returns_ret)

lemma returns_reconcile: "returns (reconcile K q results hits probed)"
  unfolding reconcile_def
  by (auto split: count_seam.split option.split intro!: returns_ret returns_finish)

lemma returns_rescue: "returns (countFirstRescue K q ns ceiling hits floor)"
  unfolding countFirstRescue_def probe_part_def
  by (intro returns_bind returns_each returns_if returns_ret returns_io)

lemma returns_split:
  assumes "\<And>c. returns (ask (q\<lparr> q_classes := Some [c] \<rparr>))"
  shows "returns (classSplitRescue K ask q classes ceiling hits floor)"
  unfolding classSplitRescue_def
  by (auto intro!: returns_bind returns_each returns_ret assms returns_io split: prod.split option.split answer.split
      simp: count_class_def read_leg_def Let_def probe_part_def)

lemma returns_crowded: "calls_return C q \<Longrightarrow> returns (crowded K C q hits floor b)"
  unfolding crowded_def
  by (intro returns_if returns_outer returns_rescue returns_split returns_ret) (simp add: calls_return_def size_class)

lemma returns_search_failed: "calls_return C q \<Longrightarrow> returns (search_failed K C q split page results hits t)"
  unfolding search_failed_def returns_def ret_def by (auto simp: calls_return_def splittable_def returns_def)

lemma returns_no_total: "calls_return C q \<Longrightarrow> returns (no_total K C q page results p)"
  unfolding no_total_def Let_def by (auto split: option.split intro!: returns_ret returns_crowded)

lemma returns_page_loop:
  assumes "calls_return C q"
  shows "returns (page_loop K C q split probed left page results hits cap prev)"
proof (induction left arbitrary: page results hits cap prev rule: less_induct)
  case (less left)
  show ?case
    by (subst page_loop.simps)
       (auto split: reply.split nat.split simp: Let_def search_def
         intro!: returns_bind returns_outer returns_io returns_hear returns_ret returns_search_failed[OF assms]
           returns_no_total[OF assms] returns_crowded[OF assms] returns_reconcile less.IH)
qed

lemma returns_count_first: "calls_return C q \<Longrightarrow> returns (count_first K C q split)"
  unfolding count_first_def count_call_def
  apply (rule returns_bind)
  subgoal by (intro returns_outer returns_io)
  subgoal for c
    apply (cases c)
    subgoal by (auto intro!: returns_bind returns_hear returns_crowded returns_page_loop)
    subgoal unfolding returns_def ret_def by (auto simp: Let_def calls_return_def splittable_def returns_def)
    done
  done

lemma windows_shorter: "part \<in> set (windows k xs) \<Longrightarrow> length part \<le> k"
  by (auto simp: windows_def)

lemma returns_windows:
  assumes "\<And>part. length part \<le> k \<Longrightarrow> returns (ask (q\<lparr> q_names := Some part \<rparr>))"
  shows "returns (name_windows K ask q ceiling k)"
  unfolding name_windows_def Let_def
proof (intro returns_bind returns_loop)
  fix x st assume x: "x \<in> set (zip [0..<length (windows k (all_names q))] (windows k (all_names q)))"
  obtain i part where e: "x = (i, part)" by (cases x)
  have "length part \<le> k" using x unfolding e by (intro windows_shorter) (auto dest: set_zip_rightD)
  then show "returns (take_window K ask q ceiling (length (windows k (all_names q))) x st)"
    unfolding e take_window_def Let_def prod.case
    by (auto intro!: returns_bind returns_outer returns_hear returns_ret assms split: answer.split option.split)
qed (auto split: sum.split intro!: returns_ret)

lemma returns_halves:
  assumes ask: "\<And>half. length half < length (regions_of q) \<Longrightarrow> returns (ask (q\<lparr> q_regions := Some half \<rparr>))"
    and halve: "\<And>half c. 1 < length half \<Longrightarrow> length half < length (regions_of q) \<Longrightarrow>
        returns (halve (q\<lparr> q_regions := Some half \<rparr>) ceiling c)"
    and two: "length (regions_of q) > 1"
  shows "returns (regionHalves K ask halve q ceiling cause)"
proof -
  let ?rs = "regions_of q"
  define h1 where "h1 = take ((length ?rs + 1) div 2) ?rs"
  define h2 where "h2 = drop ((length ?rs + 1) div 2) ?rs"
  have len: "length h1 < length ?rs" "length h2 < length ?rs" "h1 \<noteq> []" "h2 \<noteq> []"
    using two by (auto simp: h1_def h2_def)
  have half: "returns (take_half K (\<lambda>q' c. halve q' ceiling c) q cause (h, r) st)"
    if "length h < length ?rs" "h \<noteq> []" for h r st
  proof (cases "timed_out r \<and> length h = 1")
    case True
    then show ?thesis by (simp add: take_half_def Let_def returns_ret)
  next
    case False
    have "returns (\<lambda>ws. if timed_out r \<and> \<not> d_late K (fst ws)
        then halve (q\<lparr> q_regions := Some h \<rparr>) ceiling (or_text (reason_of r) cause) ws else ret r ws)"
    proof (cases "timed_out r")
      case True
      then have "1 < length h" using False that(2) by (cases h) auto
      then show ?thesis using halve[OF _ that(1)] by (intro returns_choose returns_ret) blast
    next
      case False
      then show ?thesis by (simp add: returns_ret)
    qed
    then show ?thesis
      unfolding take_half_def Let_def prod.case if_not_P[OF False]
      by (auto intro!: returns_bind returns_hear returns_ret split: answer.split)
  qed
  show ?thesis
    unfolding regionHalves_def Let_def h1_def[symmetric] h2_def[symmetric]
    by (intro returns_bind returns_outer ask len returns_if returns_ret returns_loop)
       (use half len in \<open>auto split: sum.split intro!: returns_ret\<close>)
qed

lemma questions_return:
  "(\<forall>q s. 2 * size_of q + 2 \<le> n \<longrightarrow> returns (question n K q s None))
   \<and> (\<forall>q s k. 2 * size_of q + 1 \<le> n \<longrightarrow> 1 \<le> k \<longrightarrow> k < length (all_names q) \<longrightarrow> returns (question n K q s (Some k)))
   \<and> (\<forall>q ceiling cause. 2 * size_of q + 1 \<le> n \<longrightarrow> 1 < length (regions_of q) \<longrightarrow> returns (region_split n K q ceiling cause))"
proof (induction n)
  case 0
  then show ?case by simp
next
  case (Suc n)
  have own: "returns (own (question n K q s None))" if "2 * size_of q + 2 \<le> n" for q s
    using Suc that unfolding returns_def own_def by (auto split: option.split)
  have full: "returns (question (Suc n) K q s None)" if n: "2 * size_of q + 2 \<le> Suc n" for q s
  proof -
    let ?C = "\<lparr> c_ask = (\<lambda>q' s. own (question n K q' s None)), c_again = (\<lambda>k. question n K q s (Some k)),
                c_halve = region_split n K \<rparr>"
    have part: "returns (own (question n K (q\<lparr> q_names := Some part \<rparr>) True None))"
      if "length part \<le> names_chunk K q None" "names_chunk K q None < length (all_names q)" for part
      using own size_names[of part q] that n by fastforce
    have C: "calls_return ?C q" unfolding calls_return_def using Suc own n by auto
    show ?thesis
      unfolding question.simps enumerateQuestion_def
      by (auto intro!: returns_ret returns_windows part returns_count_first[OF C] returns_page_loop[OF C] split: count_seam.split)
  qed
  moreover have "returns (question (Suc n) K q s (Some k))"
    if n: "2 * size_of q + 1 \<le> Suc n" and k: "1 \<le> k" "k < length (all_names q)" for q s k
  proof -
    have c: "names_chunk K q (Some k) = k" using k by (simp add: names_chunk_def Let_def)
    have "returns (own (question n K (q\<lparr> q_names := Some part \<rparr>) True None))" if "length part \<le> k" for part
      using own size_names[of part q] that k n by fastforce
    then show ?thesis
      unfolding question.simps enumerateQuestion_def c
      using k by (auto intro!: returns_ret returns_windows)
  qed
  moreover have "returns (region_split (Suc n) K q ceiling cause)"
    if n: "2 * size_of q + 1 \<le> Suc n" and two: "1 < length (regions_of q)" for q ceiling cause
    unfolding region_split.simps
  proof (rule returns_halves[OF _ _ two])
    show "returns (own (question n K (q\<lparr> q_regions := Some half \<rparr>) False None))"
      if "length half < length (regions_of q)" for half
      using own size_regions[OF that] n by simp
    show "returns (region_split n K (q\<lparr> q_regions := Some half \<rparr>) ceiling c)"
      if "1 < length half" "length half < length (regions_of q)" for half c
      using Suc size_regions[OF that(2)] n that(1) by (auto simp: regions_of_def)
  qed
  ultimately show ?case by blast
qed

text \<open>More fuel does not change an answer.\<close>

definition calls_extend :: "'w calls \<Rightarrow> 'w calls \<Rightarrow> bool" where
  "calls_extend C D \<longleftrightarrow> (\<forall>q s. extends (c_ask C q s) (c_ask D q s)) \<and> (\<forall>k. extends (c_again C k) (c_again D k))
     \<and> (\<forall>q ceiling cause. extends (c_halve C q ceiling cause) (c_halve D q ceiling cause))"

lemma extends_split:
  assumes "\<And>q'. extends (f q') (g q')"
  shows "extends (classSplitRescue K f q classes ceiling hits floor) (classSplitRescue K g q classes ceiling hits floor)"
  unfolding classSplitRescue_def
proof (intro extends_then)
  fix st :: "(int \<times> entry) list \<times> (int \<times> int \<times> jstr option) list"
  obtain counts tractable where st: "st = (counts, tractable)" by (cases st)
  have "extends (read_leg K f q ceiling leg st') (read_leg K g q ceiling leg st')" for leg st'
    unfolding read_leg_def Let_def
    by (cases leg; cases st') (auto intro!: extends_refl extends_bind assms)
  then show "extends (case st of (counts, tractable) \<Rightarrow>
      bind (each_do (read_leg K f q ceiling) (sort_key (\<lambda>(c, n, said). n) tractable) (counts, [])) (\<lambda>(counts, merged).
        if filter isUnresolvedCount (map snd counts) = [] \<and> floor = None
        then ret (Answer ((complete hits merged)\<lparr> a_classes := Some counts \<rparr>))
        else ret (Answer (floorStamp floor ((incomplete (if floor = None then hits else None) (length merged) merged
              (class_reason hits floor ceiling (length classes) counts))\<lparr> a_classes := Some counts, a_records := Some merged \<rparr>)))))
    (case st of (counts, tractable) \<Rightarrow>
      bind (each_do (read_leg K g q ceiling) (sort_key (\<lambda>(c, n, said). n) tractable) (counts, [])) (\<lambda>(counts, merged).
        if filter isUnresolvedCount (map snd counts) = [] \<and> floor = None
        then ret (Answer ((complete hits merged)\<lparr> a_classes := Some counts \<rparr>))
        else ret (Answer (floorStamp floor ((incomplete (if floor = None then hits else None) (length merged) merged
              (class_reason hits floor ceiling (length classes) counts))\<lparr> a_classes := Some counts, a_records := Some merged \<rparr>)))))"
    unfolding st prod.case by (intro extends_bind extends_each extends_refl)
qed

lemma extends_crowded: "calls_extend C D \<Longrightarrow> extends (crowded K C q hits floor b) (crowded K D q hits floor b)"
  unfolding crowded_def
  by (auto intro!: extends_refl extends_outer extends_split simp: calls_extend_def)

lemma extends_search_failed:
  "calls_extend C D \<Longrightarrow> extends (search_failed K C q split page results hits t) (search_failed K D q split page results hits t)"
  unfolding search_failed_def calls_extend_def by (auto simp: extends_def)

lemma extends_no_total: "calls_extend C D \<Longrightarrow> extends (no_total K C q page results p) (no_total K D q page results p)"
  unfolding no_total_def Let_def by (auto split: option.split intro!: extends_refl extends_crowded)

lemma extends_page_loop:
  assumes "calls_extend C D"
  shows "extends (page_loop K C q split probed left page results hits cap prev) (page_loop K D q split probed left page results hits cap prev)"
proof (induction left arbitrary: page results hits cap prev rule: less_induct)
  case (less left)
  show ?case
    apply (subst page_loop.simps)
    apply (subst (2) page_loop.simps)
    apply (rule extends_then)
    subgoal for r
      apply (cases r)
      subgoal by (simp add: extends_search_failed[OF assms])
      subgoal by (simp add: extends_refl)
      subgoal for p
        apply (simp only: reply.case)
        apply (rule extends_then)
        apply (auto split: nat.split simp: Let_def
            intro!: extends_refl extends_no_total[OF assms] extends_crowded[OF assms] less.IH)
        done
      done
    done
qed

lemma extends_count_first: "calls_extend C D \<Longrightarrow> extends (count_first K C q split) (count_first K D q split)"
  unfolding count_first_def
  apply (rule extends_then)
  subgoal for c
    apply (cases c)
    subgoal by (auto intro!: extends_then extends_crowded extends_page_loop)
    subgoal unfolding extends_def by (auto simp: Let_def calls_extend_def extends_def)
    done
  done

lemma extends_windows:
  assumes "\<And>q'. extends (f q') (g q')"
  shows "extends (name_windows K f q ceiling k) (name_windows K g q ceiling k)"
  unfolding name_windows_def Let_def
proof (intro extends_bind extends_loop extends_refl)
  show "extends (take_window K f q ceiling n x st) (take_window K g q ceiling n x st)" for n x st
    unfolding take_window_def Let_def by (cases x) (auto intro!: extends_bind extends_outer extends_refl assms)
qed

lemma extends_halves:
  assumes "\<And>q'. extends (f q') (g q')" and "\<And>q' c t. extends (h q' c t) (j q' c t)"
  shows "extends (regionHalves K f h q ceiling cause) (regionHalves K g j q ceiling cause)"
proof -
  have "extends (take_half K (\<lambda>q' c. h q' ceiling c) q cause x st) (take_half K (\<lambda>q' c. j q' ceiling c) q cause x st)" for x st
    unfolding take_half_def Let_def
    by (cases x) (simp only: prod.case, intro extends_if extends_refl extends_bind extends_choose assms)
  then show ?thesis
    unfolding regionHalves_def Let_def
    by (intro extends_refl extends_bind extends_outer extends_if extends_loop assms)
qed

lemma extends_own: "extends l m \<Longrightarrow> extends (own l) (own m)"
  unfolding extends_def own_def by (auto split: option.splits prod.splits)

lemma questions_extend:
  "(\<forall>q s width. extends (question n K q s width) (question (Suc n) K q s width))
   \<and> (\<forall>q ceiling cause. extends (region_split n K q ceiling cause) (region_split (Suc n) K q ceiling cause))"
proof (induction n)
  case 0
  then show ?case by (simp add: extends_def)
next
  case (Suc n)
  have own: "extends (own (question n K q s None)) (own (question (Suc n) K q s None))" for q s
    using Suc by (intro extends_own) blast
  have C: "calls_extend
      \<lparr> c_ask = (\<lambda>q' s. own (question n K q' s None)), c_again = (\<lambda>k. question n K q s (Some k)), c_halve = region_split n K \<rparr>
      \<lparr> c_ask = (\<lambda>q' s. own (question (Suc n) K q' s None)), c_again = (\<lambda>k. question (Suc n) K q s (Some k)),
        c_halve = region_split (Suc n) K \<rparr>" for q s
    using Suc own by (simp add: calls_extend_def del: question.simps region_split.simps)
  have mono: "extends (enumerateQuestion K C q s width) (enumerateQuestion K D q s width)" if "calls_extend C D" for C D q s width
    unfolding enumerateQuestion_def using that
    by (auto split: count_seam.split intro!: extends_refl extends_windows extends_count_first extends_page_loop
        simp: calls_extend_def)
  have "extends (question (Suc n) K q s width) (question (Suc (Suc n)) K q s width)" for q s width
    unfolding question.simps(2)[of n K q s width] question.simps(2)[of "Suc n" K q s width] by (rule mono[OF C])
  moreover have "extends (region_split (Suc n) K q ceiling cause) (region_split (Suc (Suc n)) K q ceiling cause)" for q ceiling cause
    unfolding region_split.simps(2)[of n K q ceiling cause] region_split.simps(2)[of "Suc n" K q ceiling cause]
    by (rule extends_halves) (use own Suc in blast)+
  ultimately show ?case by blast
qed

lemma enumerate_more: "n \<le> m \<Longrightarrow> extends (enumerate_js n K q) (enumerate_js m K q)"
proof (induction m rule: dec_induct)
  case base
  then show ?case by (rule extends_refl)
next
  case (step m)
  have "extends (enumerate_js m K q) (enumerate_js (Suc m) K q)"
    unfolding enumerate_js_def using questions_extend by (intro extends_own) blast
  then show ?case using step.IH unfolding extends_def by blast
qed

lemma answer_lawful:
  assumes "kernel_ok K" and "enumerate_js fuel K q w = Some (Answer b, w')" and "a_state b = Complete"
  shows "complete_band K q b"
proof -
  have "ensures (own (question fuel K q True None)) (lawful K q)"
    using questions_lawful[OF assms(1)] by (intro ensures_own) blast
  then show ?thesis
    using assms(2,3) unfolding enumerate_js_def ensures_def lawful_def by blast
qed

section \<open>A provider that pages a list\<close>

definition page_of :: "nat \<Rightarrow> json list \<Rightarrow> nat \<Rightarrow> page" where
  "page_of s L i = \<lparr> pg_total = Some (int (length L)), pg_approximate = False, pg_floor = None,
     pg_rows = Some (take s (drop (i * s) L)), pg_more = (Suc i * s < length L), pg_cap = None, pg_counts = None \<rparr>"

definition pages_list :: "'w deps \<Rightarrow> query \<Rightarrow> nat \<Rightarrow> json list \<Rightarrow> bool" where
  "pages_list K q s L \<longleftrightarrow> (\<forall>i prev w. \<exists>w'. d_search K (q, PageOf i prev) w = (Resolved (Parsed (page_of s L i)), w'))"

lemma searches_page: "pages_list K q s L \<Longrightarrow> \<exists>w'. search K q (PageOf i prev) w = Some (Parsed (page_of s L i), w')"
  unfolding pages_list_def search_def io_def guardToolCall_def by (metis (no_types, lifting) call.simps(5) prod.simps(2))

lemma pages_read_whole:
  assumes pages: "pages_list K q s L" and seam: "d_seam K = Cheap" and row: "d_screenSource K = SearchRow"
    and small: "int (length L) \<le> ceiling_of K q" and pos: "0 < s"
  shows "length L \<le> (i + left) * s \<Longrightarrow> 0 < left \<Longrightarrow> i = 0 \<or> i * s < length L \<Longrightarrow>
    \<exists>w'. page_loop K C q split None left i (take (i * s) L) hits cap prev (w, said) =
      Some (Answer ((complete (Some (int (length L))) (map (\<lambda>x. with_screen x (the (d_rowScreen K) x (q_scope q))) L))
              \<lparr> a_lift := None \<rparr>), (w', said))"
proof (induction left arbitrary: i hits cap prev w)
  case 0
  then show ?case by simp
next
  case (Suc l)
  obtain w1 where w1: "search K q (PageOf i prev) w = Some (Parsed (page_of s L i), w1)"
    using searches_page[OF pages] by blast
  have take: "take (i * s) L @ take s (drop (i * s) L) = take (Suc i * s) L"
    by (simp add: take_add[symmetric] add.commute)
  show ?case
  proof (cases "Suc i * s < length L")
    case True
    have "length L \<le> (Suc i + l) * s" using Suc.prems(1) by simp
    moreover have "0 < l"
    proof (rule ccontr)
      assume "\<not> 0 < l"
      then show False using Suc.prems(1) True by simp
    qed
    ultimately obtain w' where w': "page_loop K C q split None l (Suc i) (take (Suc i * s) L) (Some (int (length L))) cap
        (Some (page_of s L i)) (w1, said) =
      Some (Answer ((complete (Some (int (length L))) (map (\<lambda>x. with_screen x (the (d_rowScreen K) x (q_scope q))) L))
              \<lparr> a_lift := None \<rparr>), (w', said))"
      using Suc.IH[of "Suc i" "Some (int (length L))" cap "Some (page_of s L i)" w1] True by blast
    obtain m where m: "l = Suc m" using \<open>0 < l\<close> by (cases l) auto
    show ?thesis
      using w' True small take unfolding m
      by (subst page_loop.simps)
         (simp add: bind_def outer_def w1 hear_def page_of_def seam page_total_def or_zero_def Let_def)
  next
    case False
    then have "take (Suc i * s) L = L" by simp
    then show ?thesis
      using False small take
      by (subst page_loop.simps)
         (simp add: bind_def outer_def w1 hear_def page_of_def seam page_total_def or_zero_def Let_def reconcile_def
           finish_band_def row ret_def)
  qed
qed

section \<open>Properties\<close>

text \<open>C25: A complete answer is never given over a part that was not read. Whatever the register answers, fails or
  lets time out, an answer the kernel calls complete rests on one of five grounds and on nothing else. Either the register
  served its pages, each asked for with the one before it in hand, up to the one that says there is no more, the records are
  exactly their rows with their content joined, and the rows account for the count: within the ceiling and no fewer than the
  last total stated where each response counts; no fewer than the count call said, which was within the ceiling, where the
  count is a call of its own (there a search that states more than it returns is not held against the rows:
  \<open>endpoint_shortfall\<close>); within the ceiling, with no total, where nothing counts. Or the register counted zero for every
  spelling of the crowded stack. Or every class of the owner's crowd was counted zero or was itself answered completely. Or
  every window of the names, or both halves of the regions, was itself answered completely, with the totals under the
  ceiling. The answer carries its records, counts them rightly and states no reason, floor or timeout.\<close>

theorem enumerate_refines:
  assumes "kernel_ok K" and "enumerate_js fuel K q w = Some (Answer b, w')" and "a_state b = Complete"
  shows "complete_band K q b \<and> a_records b = Some (recs_of b) \<and> a_count b = length (recs_of b)
    \<and> a_reason b = None \<and> a_floor b = None \<and> \<not> a_timeout b"
  using answer_lawful[OF assms] complete_band_plain by blast

text \<open>C26: Every question is answered. Twice its names, regions and classes plus two is a bound on the depth of
  nested calls, and every larger bound gives the same answer: halving the regions, windowing the names, asking
  a refused list again and enumerating the classes all come to an end.\<close>

theorem enumerate_terminates:
  "\<exists>a w'. \<forall>fuel. fuel < 2 * size_of q + 2 \<or> enumerate_js fuel K q w = Some (a, w')"
proof -
  define n where "n = 2 * size_of q + 2"
  have "returns (question n K q True None)" using questions_return[of n K] unfolding n_def by blast
  then obtain a w' said where "question n K q True None (w, None) = Some (a, (w', said))"
    unfolding returns_def by (metis not_None_eq surj_pair)
  then have r: "enumerate_js n K q w = Some (stampTotalCounts a said, w')"
    by (simp add: enumerate_js_def own_def)
  have "enumerate_js fuel K q w = Some (stampTotalCounts a said, w')" if "\<not> fuel < n" for fuel
    using enumerate_more[of n fuel K q] that r unfolding extends_def by auto
  then show ?thesis unfolding n_def by blast
qed

text \<open>The parts of a question asked again in region halves cover its regions: however deep the halving went,
  the sizes of the parts a complete answer names add up to the number of regions asked about.\<close>

theorem region_parts_cover:
  assumes "kernel_ok K" and "enumerate_js fuel K q w = Some (Answer b, w')" and "a_state b = Complete"
    and "a_split b = Some (cause, ps)"
  shows "sum_list ps = length (regions_of q)"
  using answer_lawful[OF assms(1-3)] complete_split_sizes[OF _ assms(4)] by blast

text \<open>A stack of spellings that crowds over the ceiling loses none of them. When the register counts each
  spelling, the answer has exactly one entry per spelling with the count the register gave, zero only where it
  counted zero, and it is complete only if every spelling was counted zero and no floor was given.\<close>

theorem stack_counted_exactly:
  assumes "\<And>t w. t \<in> set ns \<Longrightarrow> \<exists>w'. probe_part K (q\<lparr> q_names := Some [t] \<rparr>) w = Some (p t, w')"
  shows "\<exists>b w'. countFirstRescue K q ns ceiling hits floor w = Some (Answer b, w')
    \<and> (\<exists>ts. a_terms b = Some ts \<and> distinct (map fst ts) \<and> set (map fst ts) = set ns
        \<and> (\<forall>t\<in>set ns. map_of ts t = Some (spelling_entry ceiling (p t))))
    \<and> (a_state b = Complete \<longleftrightarrow> floor = None \<and> (\<forall>t\<in>set ns. pr_total (p t) = Some 0))"
proof -
  let ?step = "\<lambda>t counts. bind (probe_part K (q\<lparr> q_names := Some [t] \<rparr>)) (\<lambda>p. ret (AList.update t (spelling_entry ceiling p) counts))"
  have run: "\<exists>ts w'. each_do ?step xs acc w = Some (ts, w') \<and> distinct (map fst ts)
      \<and> set (map fst ts) = set (map fst acc) \<union> set xs
      \<and> (\<forall>t. map_of ts t = (if t \<in> set xs then Some (spelling_entry ceiling (p t)) else map_of acc t))"
    if "set xs \<subseteq> set ns" "distinct (map fst acc)" for xs acc w
    using that
  proof (induction xs arbitrary: acc w)
    case Nil
    then show ?case by (simp add: ret_def)
  next
    case (Cons x xs)
    obtain w1 where w1: "probe_part K (q\<lparr> q_names := Some [x] \<rparr>) w = Some (p x, w1)"
      using assms Cons.prems(1) by (meson list.set_intros(1) subset_code(1))
    obtain ts w' where "each_do ?step xs (AList.update x (spelling_entry ceiling (p x)) acc) w1 = Some (ts, w')"
      "distinct (map fst ts)" "set (map fst ts) = set (map fst (AList.update x (spelling_entry ceiling (p x)) acc)) \<union> set xs"
      "\<forall>t. map_of ts t = (if t \<in> set xs then Some (spelling_entry ceiling (p t))
          else map_of (AList.update x (spelling_entry ceiling (p x)) acc) t)"
      using Cons.IH[of "AList.update x (spelling_entry ceiling (p x)) acc" w1] Cons.prems by (auto simp: distinct_update)
    moreover have "?step x acc w = Some (AList.update x (spelling_entry ceiling (p x)) acc, w1)"
      by (simp add: bind_def w1 ret_def)
    then have "each_do ?step (x # xs) acc w = each_do ?step xs (AList.update x (spelling_entry ceiling (p x)) acc) w1"
      unfolding each_do.simps by (rule bind_run)
    ultimately show ?case
      by (intro exI[of _ ts] exI[of _ w']) (auto simp: update_conv)
  qed
  obtain ts w' where ts: "each_do ?step ns [] w = Some (ts, w')" "distinct (map fst ts)"
      and all: "set (map fst ts) = set (map fst ([] :: (jstr \<times> entry) list)) \<union> set ns"
      and each: "\<forall>t. map_of ts t = (if t \<in> set ns then Some (spelling_entry ceiling (p t)) else map_of [] t)"
    using run[of ns "[]" w] by force
  have ts': "set (map fst ts) = set ns" using all by simp
  have ts'': "map_of ts t = Some (spelling_entry ceiling (p t))" if "t \<in> set ns" for t using each that by simp
  note ts = ts ts' ts''
  have zero: "\<not> isUnresolvedCount (spelling_entry ceiling pr) \<longleftrightarrow> pr_total pr = Some 0" for pr
    by (cases "pr_total pr") (auto simp: spelling_entry_def)
  have "filter isUnresolvedCount (map snd ts) = [] \<longleftrightarrow> (\<forall>t\<in>set ns. pr_total (p t) = Some 0)"
  proof -
    have "e \<in> set (map snd ts) \<longleftrightarrow> (\<exists>t\<in>set ns. e = spelling_entry ceiling (p t))" for e
    proof
      assume "e \<in> set (map snd ts)"
      then obtain t where t: "(t, e) \<in> set ts" by auto
      then have "t \<in> set ns" using ts(3) by force
      then show "\<exists>t\<in>set ns. e = spelling_entry ceiling (p t)" using ts(2,4) t by fastforce
    next
      assume "\<exists>t\<in>set ns. e = spelling_entry ceiling (p t)"
      then obtain t where "t \<in> set ns" "e = spelling_entry ceiling (p t)" by blast
      then have "(t, e) \<in> set ts" using ts(4) map_of_SomeD by metis
      then show "e \<in> set (map snd ts)" by force
    qed
    then have "(\<forall>e\<in>set (map snd ts). \<not> isUnresolvedCount e) \<longleftrightarrow> (\<forall>t\<in>set ns. \<not> isUnresolvedCount (spelling_entry ceiling (p t)))"
      by metis
    then show ?thesis unfolding filter_empty_conv zero .
  qed
  then show ?thesis
    using ts(2-4)
    by (auto simp: countFirstRescue_def bind_def ts(1) ret_def complete_def incomplete_def floorStamp_def
        split: option.split)
qed

text \<open>C27: Where each response counts and rows screen themselves, a register that pages a list faithfully is read whole, in
  order and without repetition, as long as the list is within the ceiling and within the pages the guard allows and the names
  of the question fit one window: the kernel then returns exactly its records, each with its screening, and the total the
  register stated.\<close>

theorem paging_reads_the_list:
  assumes "pages_list K q s L" and "d_seam K = Cheap" and "d_screenSource K = SearchRow" and "d_hasAnyElement K q"
    and "int (length L) \<le> ceiling_of K q" and "0 < s" and "0 < d_pageGuard K" and "length L \<le> d_pageGuard K * s"
    and "length (all_names q) \<le> names_chunk K q None"
  shows "\<exists>b w'. enumerate_js (Suc fuel) K q w = Some (Answer b, w') \<and> a_state b = Complete
    \<and> a_total b = Some (int (length L))
    \<and> a_records b = Some (map (\<lambda>x. with_screen x (the (d_rowScreen K) x (q_scope q))) L)"
proof -
  let ?C = "\<lparr> c_ask = (\<lambda>q' s. own (question fuel K q' s None)), c_again = (\<lambda>k. question fuel K q True (Some k)),
              c_halve = region_split fuel K \<rparr>"
  obtain w' where "page_loop K ?C q True None (d_pageGuard K) 0 (take (0 * s) L) (Some 0) None None (w, None) =
      Some (Answer ((complete (Some (int (length L))) (map (\<lambda>x. with_screen x (the (d_rowScreen K) x (q_scope q))) L))
              \<lparr> a_lift := None \<rparr>), (w', None))"
    using pages_read_whole[OF assms(1-3,5,6), of 0 "d_pageGuard K"] assms(7,8) by fastforce
  then show ?thesis
    using assms(2,4,9)
    by (simp add: enumerate_js_def own_def enumerateQuestion_def stampTotalCounts_def complete_def)
qed

section \<open>Concrete registers\<close>

text \<open>A register over the trivial state whose search is given; its rows carry their own screening.\<close>

definition demo_register :: "count_seam \<Rightarrow> (query \<Rightarrow> asking \<Rightarrow> reply) \<Rightarrow> count_reply \<Rightarrow> unit deps" where
  "demo_register seam answer n =
     \<lparr> d_search = (\<lambda>(q, how) w. (Resolved (answer q how), w)), d_count = Some (\<lambda>q w. (Resolved n, w)),
       d_screen = None, d_rowScreen = Some (\<lambda>r scope. JNull), d_hasAnyElement = (\<lambda>q. True), d_missing = [],
       d_recordId = Some, d_recordKey = id, d_screenKey = Some, d_ceilingFor = (\<lambda>q. None), d_namesChunkFor = (\<lambda>q. None),
       d_seam = seam, d_screenSource = SearchRow, d_pageGuard = 5, d_ceilingDefault = 4, d_namesChunkDefault = 10,
       d_envCeiling = None, d_envNames = None, d_window = [], d_contentFromScreen = False, d_cardinality = None,
       d_listRefusal = None, d_late = (\<lambda>w. False) \<rparr>"

definition demo_question :: "jstr list \<Rightarrow> jstr list \<Rightarrow> query" where
  "demo_question ns rs =
     \<lparr> q_names = Some ns, q_regions = Some rs, q_classes = None, q_scope = [9], q_owner = None, q_owners = None, q_rest = JNull \<rparr>"

definition rows_page :: "int \<Rightarrow> json list \<Rightarrow> page" where
  "rows_page n rws = \<lparr> pg_total = Some n, pg_approximate = False, pg_floor = None, pg_rows = Some rws, pg_more = False,
     pg_cap = None, pg_counts = None \<rparr>"

definition paged :: "nat \<Rightarrow> json list \<Rightarrow> query \<Rightarrow> asking \<Rightarrow> reply" where
  "paged s L q how = (case how of PageOf i prev \<Rightarrow> Parsed (page_of s L i) | CountOnly \<Rightarrow> Parsed (page_of s L 0))"

text \<open>A register that times out on more than one region.\<close>

definition stalling :: "query \<Rightarrow> asking \<Rightarrow> reply" where
  "stalling q how = (if length (regions_of q) > 1 then ToolError (js ''HTTP 504'')
     else Parsed (rows_page 1 [JObj [(js ''region'', JStr (hd (regions_of q)))]]))"

lemma demo_fields [simp]:
  "d_seam (demo_register s a n) = s" "d_pageGuard (demo_register s a n) = 5" "d_late (demo_register s a n) = (\<lambda>w. False)"
  "d_hasAnyElement (demo_register s a n) = (\<lambda>q. True)" "d_recordKey (demo_register s a n) = id"
  "ceiling_of (demo_register s a n) q = 4" "names_chunk (demo_register s a n) q None = 10"
  by (simp_all add: demo_register_def ceiling_of_def names_chunk_def envInt_def)

lemma stalling_page:
  assumes "length (regions_of q) = 1"
  shows "page_loop (demo_register Cheap stalling (NotCounted None)) C q split None 5 0 [] (Some 0) None None ((), said) =
    Some (Answer ((complete (Some 1) [with_screen (JObj [(js ''region'', JStr (hd (regions_of q)))]) JNull])\<lparr> a_lift := None \<rparr>), ((), said))"
  using assms
  by (subst page_loop.simps)
     (simp add: demo_register_def ceiling_of_def envInt_def stalling_def rows_page_def bind_def outer_def search_def io_def guardToolCall_def hear_def page_total_def or_zero_def Let_def
        reconcile_def finish_band_def ret_def)

lemma stalling_two:
  assumes "length (regions_of q) = 2"
  shows "page_loop (demo_register Cheap stalling (NotCounted None)) C q True None 5 0 [] (Some 0) None None ((), said) =
    c_halve C q 4 (js ''HTTP 504'') ((), said)"
  using assms
  by (subst page_loop.simps)
     (simp add: demo_register_def ceiling_of_def envInt_def stalling_def bind_def outer_def search_def io_def guardToolCall_def search_failed_def
        splittable_def isGatewayTimeout_def whole_word_def occurrences_def)

lemma stalling_split:
  "enumerate_js (Suc (Suc (Suc 0))) (demo_register Cheap stalling (NotCounted None)) (demo_question [[97]] [[85], [69]]) () =
     Some (Answer ((complete (Some 2) (map (\<lambda>c. with_screen (JObj [(js ''region'', JStr [c])]) JNull) [85, 69]))
       \<lparr> a_lift := None, a_split := Some (js ''HTTP 504'', [1, 1]) \<rparr>), ())"
  by (simp add: enumerate_js_def own_def enumerateQuestion_def demo_question_def all_names_def
      regionHalves_def stalling_page stalling_two regions_of_def bind_def outer_def take_half_def timed_out_def
      complete_def stampTotalCounts_def ret_def hear_def merge_recs_def recs_of_def or_zero_def with_screen_def Let_def)

lemma demo_ok: "kernel_ok (demo_register Cheap a n)"
  by (simp add: kernel_ok_def makeEnumerate_def demo_register_def)

lemma enumerate_refines_witness:
  "\<exists>b. enumerate_js (Suc (Suc (Suc 0))) (demo_register Cheap stalling (NotCounted None)) (demo_question [[97]] [[85], [69]]) () =
       Some (Answer b, ())
     \<and> complete_band (demo_register Cheap stalling (NotCounted None)) (demo_question [[97]] [[85], [69]]) b"
proof (intro exI conjI)
  show "complete_band (demo_register Cheap stalling (NotCounted None)) (demo_question [[97]] [[85], [69]])
     ((complete (Some 2) (map (\<lambda>c. with_screen (JObj [(js ''region'', JStr [c])]) JNull) [85, 69]))
       \<lparr> a_lift := None, a_split := Some (js ''HTTP 504'', [1, 1]) \<rparr>)"
    using enumerate_refines[OF demo_ok stalling_split] by (simp add: complete_def)
qed (rule stalling_split)

lemma region_parts_cover_witness: "sum_list [1, 1 :: nat] = length (regions_of (demo_question [[97]] [[85], [69]]))"
  by (rule region_parts_cover[OF demo_ok stalling_split]) (simp_all add: complete_def)

text \<open>A register that counts spellings: seven records for two of them together, and for one alone as many as
  \<open>f\<close> says.\<close>

definition spelled :: "(jstr \<Rightarrow> int) \<Rightarrow> query \<Rightarrow> asking \<Rightarrow> reply" where
  "spelled f q how = Parsed (rows_page (case all_names q of [t] \<Rightarrow> f t | _ \<Rightarrow> 7) [])"

lemma spelled_probe:
  "t \<noteq> [] \<Longrightarrow> probe_part (demo_register Cheap (spelled f) n) (q\<lparr> q_names := Some [t] \<rparr>) w =
     Some (\<lparr> pr_total = Some (f t), pr_floor = None, pr_counts = None, pr_reason = [] \<rparr>, w)"
  by (simp add: probe_part_def io_def countHits_def guardToolCall_def demo_register_def spelled_def rows_page_def all_names_def)

lemma stack_counted_exactly_witness:
  "\<exists>b w'. countFirstRescue (demo_register Cheap (spelled (\<lambda>t. if t = [97] then 0 else 7)) (NotCounted None))
       (demo_question [] []) [[97], [98]] 4 (Some 7) None () = Some (Answer b, w')
     \<and> map_of (the (a_terms b)) [97] = Some (counted 0 VerifiedZero None)
     \<and> map_of (the (a_terms b)) [98] = Some (counted 7 Crowd None) \<and> a_state b \<noteq> Complete"
proof -
  let ?p = "\<lambda>t :: jstr. \<lparr> pr_total = Some (if t = [97] then 0 else 7 :: int), pr_floor = None, pr_counts = None, pr_reason = [] \<rparr>"
  let ?K = "demo_register Cheap (spelled (\<lambda>t. if t = [97] then 0 else 7)) (NotCounted None)"
  have "\<exists>w'. probe_part ?K (demo_question [] []\<lparr> q_names := Some [t] \<rparr>) w = Some (?p t, w')"
    if "t \<in> set [[97], [98]]" for t w using that by (auto simp: spelled_probe)
  from stack_counted_exactly[where ns = "[[97], [98]]" and p = ?p and ceiling = 4 and hits = "Some 7" and floor = None
      and w = "()", OF this]
  show ?thesis by (force simp: spelling_entry_def)
qed

lemma paging_reads_the_list_witness:
  "\<exists>b w'. enumerate_js (Suc 0) (demo_register Cheap (paged 2 (map (\<lambda>k. JObj [(js ''id'', JNum k)]) [5, 6, 7])) (NotCounted None)) (demo_question [[97]] []) () =
       Some (Answer b, w') \<and> a_state b = Complete \<and> a_total b = Some 3
     \<and> a_records b = Some (map (\<lambda>k. JObj [(js ''id'', JNum k), (js ''screen'', JNull)]) [5, 6, 7])"
  using paging_reads_the_list[where K = "demo_register Cheap (paged 2 (map (\<lambda>k. JObj [(js ''id'', JNum k)]) [5, 6, 7])) (NotCounted None)"
      and q = "demo_question [[97]] []" and s = 2 and L = "map (\<lambda>k. JObj [(js ''id'', JNum k)]) [5, 6, 7]" and w = "()" and fuel = 0]
  by (simp add: pages_list_def demo_register_def paged_def ceiling_of_def envInt_def names_chunk_def all_names_def
      demo_question_def with_screen_def)

section \<open>Two answers that should not be complete\<close>

lemma spelled_search:
  "search (demo_register Cheap (spelled f) n) q how w = Some (spelled f q how, w)"
  by (simp add: search_def io_def guardToolCall_def demo_register_def)

text \<open>The register states seven records for two spellings together, then counts zero for each alone: the answer is
  complete, states seven and holds none. A count that its own parts contradict is a divergence everywhere else.\<close>

lemma spellings_deny_the_stack:
  "\<exists>counts. enumerate_js (Suc 0) (demo_register Cheap (spelled (\<lambda>t. 0)) (NotCounted None)) (demo_question [[97], [98]] []) () =
     Some (Answer ((complete (Some 7) [])\<lparr> a_terms := Some counts \<rparr>), ())"
proof -
  let ?K = "demo_register Cheap (spelled (\<lambda>t. 0)) (NotCounted None)" and ?q = "demo_question [[97], [98]] []"
  have "\<exists>counts. countFirstRescue ?K ?q [[97], [98]] 4 (Some 7) None () =
      Some (Answer ((complete (Some 7) [])\<lparr> a_terms := Some counts \<rparr>), ())"
    by (simp add: countFirstRescue_def bind_def spelled_probe ret_def spelling_entry_def counted_def isUnresolvedCount_def) blast
  moreover have "page_loop ?K C ?q True None 5 0 [] (Some 0) None None ((), None) =
      outer (countFirstRescue ?K ?q [[97], [98]] 4 (Some 7) None) ((), None)" for C
    by (subst page_loop.simps)
       (simp add: bind_def outer_def spelled_search spelled_def rows_page_def hear_def page_total_def or_zero_def
          crowded_def all_names_def demo_question_def)
  ultimately show ?thesis
    by (auto simp: enumerate_js_def own_def enumerateQuestion_def all_names_def demo_question_def outer_def stampTotalCounts_def
          split: option.splits)
qed

text \<open>The probe counts three, the search states ten and returns three: the answer is complete with a total of ten,
  above the ceiling of four, and three records.\<close>

lemma endpoint_shortfall:
  "\<exists>b. enumerate_js (Suc 0) (demo_register Endpoint (\<lambda>q how. Parsed (rows_page 10 [JNull, JNull, JNull])) (Counted (Some 3) None))
       (demo_question [[97]] []) () = Some (Answer b, ())
     \<and> a_state b = Complete \<and> a_total b = Some 10 \<and> a_count b = 3"
  apply (simp add: enumerate_js_def own_def enumerateQuestion_def demo_question_def all_names_def count_first_def bind_def
      count_call_def guardCountCall_def io_def outer_def demo_register_def names_chunk_def envInt_def hear_def ceiling_of_def or_zero_def)
  apply (subst page_loop.simps)
  apply (simp add: bind_def outer_def search_def io_def guardToolCall_def hear_def page_total_def or_zero_def Let_def
     reconcile_def finish_band_def ret_def rows_page_def complete_def stampTotalCounts_def ceiling_of_def envInt_def)
  done

end
