(* ===== verification/Claims.thy ===== *)
theory Claims
  imports ClaimLiveness
begin

text \<open>The claim on a queued job (\<open>driver/runner.mjs\<close>): the renames by which one runner of several takes a job, is
  seen to be alive, hands it back, parks it or ends it, and by which the claim of a dead runner is taken over.

  One job of the queue is followed. Its marker is one file that is renamed between the names below; beside it
  lie the claim's sidecars \<open>.pid\<close> (the token of the claimer), \<open>.meta\<close> (the codename of the run) and \<open>.skips\<close>.
  Runners are processes, known by pid and birth stamp; each is at one place of the code (\<open>pc\<close>) and goes on by
  one file operation at a time, in any order with the others. A process may die anywhere. An operation may
  fail (\<open>io\<close>). What the process table says is an input of each move and tells the truth of those alive. The
  job's content, its validation and the run itself are not modelled, nor a second job of the same name: both
  doors of the queue refuse an id that is present. On Windows a lock's name writes the colon of the token
  \<open>%3A\<close>; the names here are those of the other platforms.\<close>

section \<open>The marker and its sidecars\<close>

datatype ending = Done | Failed | Cancelled | Duplicate

text \<open>\<open>.json\<close>, \<open>.processing\<close>, \<open>.processing.claimed-<token>\<close>, \<open>.postponed\<close>, and the names nothing follows.\<close>

datatype marker = Queued | Processing | Locked jstr | Postponed | Ended ending

datatype sidecar = Pid | Meta | Skips

record queue =
  marker :: marker
  pid_file :: "jstr option"
  pid_tmp :: "jstr option"
  meta_file :: "jstr option"
  skips_file :: "nat option"

definition CLAIM_SIDECAR_SUFFIXES :: "sidecar list" where
  "CLAIM_SIDECAR_SUFFIXES = [Pid, Meta, Skips]"

fun rm_sidecar :: "sidecar \<Rightarrow> queue \<Rightarrow> queue" where
  "rm_sidecar Pid q = q\<lparr> pid_file := None \<rparr>"
| "rm_sidecar Meta q = q\<lparr> meta_file := None \<rparr>"
| "rm_sidecar Skips q = q\<lparr> skips_file := None \<rparr>"

text \<open>\<open>renameSync\<close> of the marker: it is moved if it is there.\<close>

definition rename_marker :: "marker \<Rightarrow> marker \<Rightarrow> queue \<Rightarrow> (queue) option" where
  "rename_marker src dst q = (if marker q = src then Some (q\<lparr> marker := dst \<rparr>) else None)"

text \<open>Does the sidecar cover a claimer that is alive?\<close>

definition covered :: "process_table \<Rightarrow> queue \<Rightarrow> bool" where
  "covered pt q = claimerIsAlive pt (case pid_file q of None \<Rightarrow> None | Some t \<Rightarrow> parseClaimSidecar t)"

section \<open>Where a runner is\<close>

datatype origin = Fresh | Park

fun origin_marker :: "origin \<Rightarrow> marker" where
  "origin_marker Fresh = Queued"
| "origin_marker Park = Postponed"

text \<open>Where a taken-over claim is retired to.\<close>

datatype dest = ToQueue | ToEnd ending

fun dest_marker :: "dest \<Rightarrow> marker" where
  "dest_marker ToQueue = Queued"
| "dest_marker (ToEnd e) = Ended e"

datatype pc =
    Idle
  | Claim origin | ClaimTmp origin | ClaimPub origin | Undo origin | UndoBack origin
  | Run
  | Seen | Tally
  | Judged | Taken | TakeStamp | TakePub | TakeBack
  | Owner
  | Ret dest | RetRead dest | RetBack | RetSweep dest "sidecar list" | RetMove dest
  | Ending ending | EndSweep "sidecar list"
  | Parking | ParkSweep "sidecar list"
  | SweepLock jstr

datatype io = Fine | Refused | Torn

section \<open>The operations\<close>

text \<open>\<open>claimAndPrep\<close> and \<open>claimDuePostponed\<close>: the marker is renamed to the runner's lock, the token is written beside
  it, and only then is the claim published. A claim that cannot be covered is undone.\<close>

definition begin_claim :: "origin \<Rightarrow> jstr \<Rightarrow> queue \<Rightarrow> pc \<times> queue" where
  "begin_claim g t q =
     (case rename_marker (origin_marker g) (Locked t) q of Some q' \<Rightarrow> (Claim g, q') | None \<Rightarrow> (Idle, q))"

fun claim_move :: "io \<Rightarrow> jstr \<Rightarrow> pc \<Rightarrow> queue \<Rightarrow> pc \<times> queue" where
  "claim_move e t (Claim g) q = (if e = Fine then (ClaimTmp g, q\<lparr> pid_tmp := Some t \<rparr>) else (Undo g, q))"
| "claim_move e t (ClaimTmp g) q =
     (case pid_tmp q of
        Some c \<Rightarrow> if e = Fine then (ClaimPub g, q\<lparr> pid_file := Some c, pid_tmp := None \<rparr>) else (Undo g, q)
      | None \<Rightarrow> (Undo g, q))"
| "claim_move e t (ClaimPub g) q =
     (case rename_marker (Locked t) Processing q of Some q' \<Rightarrow> (Run, q') | None \<Rightarrow> (Idle, q))"
| "claim_move e t (Undo g) q = (UndoBack g, if e = Fine then q\<lparr> pid_tmp := None \<rparr> else q)"
| "claim_move e t (UndoBack g) q =
     (case rename_marker (Locked t) (origin_marker g) q of
        Some q' \<Rightarrow> if e = Fine then (Idle, q') else (Idle, q) | None \<Rightarrow> (Idle, q))"
| "claim_move e t p q = (p, q)"

text \<open>\<open>reclaimOrphanedClaims\<close>: a claim is listed, then its sidecar is read; it goes on when the claim is over age, or
  when no claimer that is alive covers it; else it counts a skip.\<close>

fun scan_move :: "process_table \<Rightarrow> bool \<Rightarrow> io \<Rightarrow> pc \<Rightarrow> queue \<Rightarrow> pc \<times> queue" where
  "scan_move pt aged e Seen q = (if aged \<or> \<not> covered pt q then (Judged, q) else (Tally, q))"
| "scan_move pt aged e Tally q =
     (Idle, if e = Fine then q\<lparr> skips_file := Some (Suc (case skips_file q of Some n \<Rightarrow> n | None \<Rightarrow> 0)) \<rparr> else q)"
| "scan_move pt aged e p q = (p, q)"

text \<open>\<open>takeoverClaim\<close>: lock, read the sidecar again under the lock, stamp it, restore.\<close>

fun takeover_move :: "process_table \<Rightarrow> bool \<Rightarrow> io \<Rightarrow> jstr \<Rightarrow> pc \<Rightarrow> queue \<Rightarrow> pc \<times> queue" where
  "takeover_move pt aged e t Judged q =
     (case rename_marker Processing (Locked t) q of Some q' \<Rightarrow> (Taken, q') | None \<Rightarrow> (Idle, q))"
| "takeover_move pt aged e t Taken q = (if \<not> aged \<and> covered pt q then (TakeBack, q) else (TakeStamp, q))"
| "takeover_move pt aged e t TakeStamp q =
     (case e of Fine \<Rightarrow> (TakePub, q\<lparr> pid_file := Some t \<rparr>)
      | Refused \<Rightarrow> (TakeBack, q)
      | Torn \<Rightarrow> (TakeBack, q\<lparr> pid_file := Some [] \<rparr>))"
| "takeover_move pt aged e t TakePub q =
     (case rename_marker (Locked t) Processing q of Some q' \<Rightarrow> (Owner, q') | None \<Rightarrow> (TakeBack, q))"
| "takeover_move pt aged e t TakeBack q =
     (case rename_marker (Locked t) Processing q of Some q' \<Rightarrow> (Idle, q') | None \<Rightarrow> (Idle, q))"
| "takeover_move pt aged e t p q = (p, q)"

text \<open>\<open>retireClaimAndSweep\<close>: the retire and the sweep of the sidecars, under the lock.\<close>

fun retire_move :: "jstr \<Rightarrow> pc \<Rightarrow> queue \<Rightarrow> pc \<times> queue" where
  "retire_move t (Ret d) q =
     (case rename_marker Processing (Locked t) q of Some q' \<Rightarrow> (RetRead d, q') | None \<Rightarrow> (Idle, q))"
| "retire_move t (RetRead d) q =
     (let covering = (case pid_file q of Some c \<Rightarrow> js_trim c | None \<Rightarrow> []) in
      if covering \<noteq> [] \<and> covering \<noteq> t then (RetBack, q) else (RetSweep d CLAIM_SIDECAR_SUFFIXES, q))"
| "retire_move t RetBack q =
     (case rename_marker (Locked t) Processing q of Some q' \<Rightarrow> (Idle, q') | None \<Rightarrow> (Idle, q))"
| "retire_move t (RetSweep d (x # xs)) q = (RetSweep d xs, rm_sidecar x q)"
| "retire_move t (RetSweep d []) q = (RetMove d, q)"
| "retire_move t (RetMove d) q =
     (case rename_marker (Locked t) (dest_marker d) q of Some q' \<Rightarrow> (Idle, q') | None \<Rightarrow> (Idle, q))"
| "retire_move t p q = (p, q)"

text \<open>The end of a run (\<open>runPrepared\<close>, and \<open>failAtIntake\<close>, \<open>parkDuplicate\<close> before it): \<open>retireMarker\<close>, which
  goes on when the marker is not there, then the sweep.\<close>

fun end_move :: "pc \<Rightarrow> queue \<Rightarrow> pc \<times> queue" where
  "end_move (Ending e) q =
     (EndSweep CLAIM_SIDECAR_SUFFIXES,
      case rename_marker Processing (Ended e) q of Some q' \<Rightarrow> q' | None \<Rightarrow> q)"
| "end_move (EndSweep (x # xs)) q = (EndSweep xs, rm_sidecar x q)"
| "end_move (EndSweep []) q = (Idle, q)"
| "end_move p q = (p, q)"

text \<open>\<open>parkPostponed\<close>: the marker is published as parked, then the sidecars are swept; a marker that is not there
  throws.\<close>

fun park_move :: "pc \<Rightarrow> queue \<Rightarrow> pc \<times> queue" where
  "park_move Parking q =
     (case rename_marker Processing Postponed q of
        Some q' \<Rightarrow> (ParkSweep CLAIM_SIDECAR_SUFFIXES, q') | None \<Rightarrow> (Idle, q))"
| "park_move (ParkSweep (x # xs)) q = (ParkSweep xs, rm_sidecar x q)"
| "park_move (ParkSweep []) q = (Idle, q)"
| "park_move p q = (p, q)"

text \<open>\<open>sweepAbandonedTakeovers\<close>: a lock whose token names no process that is alive is restored.\<close>

definition see_lock :: "process_table \<Rightarrow> queue \<Rightarrow> pc" where
  "see_lock pt q =
     (case marker q of Locked t \<Rightarrow> if claimerIsAlive pt (parseClaimSidecar t) then Idle else SweepLock t | _ \<Rightarrow> Idle)"

fun restore_move :: "pc \<Rightarrow> queue \<Rightarrow> pc \<times> queue" where
  "restore_move (SweepLock t) q =
     (case rename_marker (Locked t) Processing q of Some q' \<Rightarrow> (Idle, q') | None \<Rightarrow> (Idle, q))"
| "restore_move p q = (p, q)"

section \<open>The runners together\<close>

text \<open>What a runner decides where the code lets it: which scan it begins, what a taken-over job becomes, how a run
  ends.\<close>

datatype choice = BeginClaim origin | CancelPark | Look | LookLocks | Resume | Finish ending | Return | Dispatch jstr | End ending | ParkIt | Next

definition idle_choice :: "process_table \<Rightarrow> jstr \<Rightarrow> choice \<Rightarrow> queue \<Rightarrow> pc \<times> queue" where
  "idle_choice pt t c q =
     (case c of
        BeginClaim g \<Rightarrow> begin_claim g t q
      | CancelPark \<Rightarrow> (case rename_marker Postponed (Ended Cancelled) q of Some q' \<Rightarrow> (Idle, q') | None \<Rightarrow> (Idle, q))
      | Look \<Rightarrow> (if marker q = Processing then Seen else Idle, q)
      | LookLocks \<Rightarrow> (see_lock pt q, q)
      | _ \<Rightarrow> (Idle, q))"

definition owner_choice :: "choice \<Rightarrow> queue \<Rightarrow> pc \<times> queue" where
  "owner_choice c q =
     (case c of
        Resume \<Rightarrow> (if meta_file q \<noteq> None then (Run, q) else (Owner, q))
      | Finish e \<Rightarrow> (if meta_file q \<noteq> None then (Ret (ToEnd e), q) else (Owner, q))
      | Return \<Rightarrow> (Ret ToQueue, q)
      | _ \<Rightarrow> (Owner, q))"

definition run_choice :: "choice \<Rightarrow> queue \<Rightarrow> pc \<times> queue" where
  "run_choice c q =
     (case c of
        Dispatch code \<Rightarrow> (Run, q\<lparr> meta_file := Some code \<rparr>)
      | End e \<Rightarrow> (Ending e, q)
      | ParkIt \<Rightarrow> (Parking, q)
      | _ \<Rightarrow> (Run, q))"

definition move :: "process_table \<Rightarrow> bool \<Rightarrow> io \<Rightarrow> choice \<Rightarrow> jstr \<Rightarrow> pc \<Rightarrow> queue \<Rightarrow> pc \<times> queue" where
  "move pt aged e c t p q =
     (case p of
        Idle \<Rightarrow> idle_choice pt t c q
      | Run \<Rightarrow> run_choice c q
      | Owner \<Rightarrow> owner_choice c q
      | Claim g \<Rightarrow> claim_move e t p q | ClaimTmp g \<Rightarrow> claim_move e t p q | ClaimPub g \<Rightarrow> claim_move e t p q
      | Undo g \<Rightarrow> claim_move e t p q | UndoBack g \<Rightarrow> claim_move e t p q
      | Seen \<Rightarrow> scan_move pt aged e p q | Tally \<Rightarrow> scan_move pt aged e p q
      | Judged \<Rightarrow> takeover_move pt aged e t p q | Taken \<Rightarrow> takeover_move pt aged e t p q
      | TakeStamp \<Rightarrow> takeover_move pt aged e t p q | TakePub \<Rightarrow> takeover_move pt aged e t p q
      | TakeBack \<Rightarrow> takeover_move pt aged e t p q
      | Ret d \<Rightarrow> retire_move t p q | RetRead d \<Rightarrow> retire_move t p q | RetBack \<Rightarrow> retire_move t p q
      | RetSweep d xs \<Rightarrow> retire_move t p q | RetMove d \<Rightarrow> retire_move t p q
      | Ending x \<Rightarrow> end_move p q | EndSweep xs \<Rightarrow> end_move p q
      | Parking \<Rightarrow> park_move p q | ParkSweep xs \<Rightarrow> park_move p q
      | SweepLock l \<Rightarrow> restore_move p q)"

record system =
  job :: queue
  at :: "claimer \<Rightarrow> pc"
  alive :: "claimer set"
  born :: "claimer set"

text \<open>The process table tells the truth of the processes that are alive: their pid answers, and a stamp read for it
  is theirs.\<close>

definition truthful :: "process_table \<Rightarrow> claimer set \<Rightarrow> bool" where
  "truthful pt ps \<longleftrightarrow>
     (\<forall>p\<in>ps. kill pt (c_pid p) \<noteq> NoSuch
       \<and> (case (c_start p, starttimeOf pt (c_pid p)) of (Some st, Some cur) \<Rightarrow> cur = st | _ \<Rightarrow> True))"

definition sweeping :: "pc \<Rightarrow> bool" where
  "sweeping p = (case p of ParkSweep xs \<Rightarrow> True | _ \<Rightarrow> False)"

text \<open>An event: a process starts, dies, or makes its next move. \<open>aging\<close> admits a takeover for
  age alone, of a claim whose claimer lives; \<open>hasty\<close> admits the claim of a park whose sidecars are still being swept.\<close>

datatype event = Start claimer | Die claimer | Go claimer process_table bool io choice

fun enabled :: "bool \<Rightarrow> bool \<Rightarrow> event \<Rightarrow> system \<Rightarrow> bool" where
  "enabled aging hasty (Start p) s \<longleftrightarrow>
     p \<notin> born s \<and> stamp_ok p \<and> 0 < c_pid p \<and> (\<forall>q\<in>alive s. c_pid q \<noteq> c_pid p)"
| "enabled aging hasty (Die p) s \<longleftrightarrow> p \<in> alive s"
| "enabled aging hasty (Go p pt aged e c) s \<longleftrightarrow>
     p \<in> alive s \<and> truthful pt (alive s) \<and> (aging \<or> \<not> aged \<or> \<not> covered pt (job s))
     \<and> (hasty \<or> c \<noteq> BeginClaim Park \<or> (\<forall>q\<in>alive s. \<not> sweeping (at s q)))"

fun happen :: "event \<Rightarrow> system \<Rightarrow> system" where
  "happen (Start p) s = s\<lparr> at := (at s)(p := Idle), alive := insert p (alive s), born := insert p (born s) \<rparr>"
| "happen (Die p) s = s\<lparr> alive := alive s - {p} \<rparr>"
| "happen (Go p pt aged e c) s =
     (let (pc', q') = move pt aged e c (claimToken p) (at s p) (job s) in s\<lparr> job := q', at := (at s)(p := pc') \<rparr>)"

inductive reach :: "bool \<Rightarrow> bool \<Rightarrow> system \<Rightarrow> bool" for aging hasty where
  start: "reach aging hasty s"
    if "alive s = {}" and "born s = {}" and "at s = (\<lambda>p. Idle)" and "\<And>t. marker (job s) \<noteq> Locked t"
      and "pid_file (job s) = None" and "pid_tmp (job s) = None"
| event: "reach aging hasty (happen ev s)" if "reach aging hasty s" and "enabled aging hasty ev s"

text \<open>A sequence of events, if each of them can happen.\<close>

fun events :: "bool \<Rightarrow> bool \<Rightarrow> event list \<Rightarrow> system \<Rightarrow> system option" where
  "events aging hasty [] s = Some s"
| "events aging hasty (ev # evs) s = (if enabled aging hasty ev s then events aging hasty evs (happen ev s) else None)"

lemma reach_events: "reach aging hasty s \<Longrightarrow> events aging hasty evs s = Some s' \<Longrightarrow> reach aging hasty s'"
  by (induction evs arbitrary: s) (auto intro: reach.event split: if_splits)

text \<open>A runner works on the job from the publication of its claim until it gives the job up.\<close>

definition works :: "pc \<Rightarrow> bool" where
  "works p = (case p of Run \<Rightarrow> True | Owner \<Rightarrow> True | Ret d \<Rightarrow> True | Ending e \<Rightarrow> True | Parking \<Rightarrow> True | _ \<Rightarrow> False)"

end
