(* ===== verification/ClaimsSpec.thy ===== *)
theory ClaimsSpec
  imports Claims "HOL-Library.Sublist"
begin

text \<open>What the claim protocol guarantees: of all the runners alive, at most one works on a job, and its token
  covers it. The invariant ties the marker and the sidecar to the place each runner is at.\<close>

section \<open>Places of the code\<close>

text \<open>The places at which a runner holds the lock; those at which the sidecar must be its own; those at which no
  other runner may own the job.\<close>

definition lock_pc :: "pc \<Rightarrow> bool" where
  "lock_pc p = (case p of
     Claim g \<Rightarrow> True | ClaimTmp g \<Rightarrow> True | ClaimPub g \<Rightarrow> True | Undo g \<Rightarrow> True | UndoBack g \<Rightarrow> True
   | Taken \<Rightarrow> True | TakeStamp \<Rightarrow> True | TakePub \<Rightarrow> True | TakeBack \<Rightarrow> True
   | RetRead d \<Rightarrow> True | RetBack \<Rightarrow> True | RetSweep d xs \<Rightarrow> True | RetMove d \<Rightarrow> True | _ \<Rightarrow> False)"

definition own_pc :: "pc \<Rightarrow> bool" where
  "own_pc p = (case p of
     ClaimPub g \<Rightarrow> True | Run \<Rightarrow> True | TakePub \<Rightarrow> True | Owner \<Rightarrow> True | Ret d \<Rightarrow> True | RetRead d \<Rightarrow> True
   | RetSweep d xs \<Rightarrow> xs = CLAIM_SIDECAR_SUFFIXES | Ending e \<Rightarrow> True | EndSweep xs \<Rightarrow> xs = CLAIM_SIDECAR_SUFFIXES
   | Parking \<Rightarrow> True | ParkSweep xs \<Rightarrow> xs = CLAIM_SIDECAR_SUFFIXES | _ \<Rightarrow> False)"

definition excl_pc :: "pc \<Rightarrow> bool" where
  "excl_pc p = (case p of
     Claim g \<Rightarrow> True | ClaimTmp g \<Rightarrow> True | ClaimPub g \<Rightarrow> True | Undo g \<Rightarrow> True | UndoBack g \<Rightarrow> True
   | TakeStamp \<Rightarrow> True | TakePub \<Rightarrow> True | RetRead d \<Rightarrow> True | RetSweep d xs \<Rightarrow> True | RetMove d \<Rightarrow> True | _ \<Rightarrow> False)"

definition where_ok :: "pc \<Rightarrow> marker \<Rightarrow> bool" where
  "where_ok p m = (case p of
     Run \<Rightarrow> m = Processing \<or> (\<exists>t. m = Locked t) | Owner \<Rightarrow> m = Processing \<or> (\<exists>t. m = Locked t)
   | Ret d \<Rightarrow> m = Processing \<or> (\<exists>t. m = Locked t) | Ending e \<Rightarrow> m = Processing \<or> (\<exists>t. m = Locked t)
   | Parking \<Rightarrow> m = Processing \<or> (\<exists>t. m = Locked t)
   | EndSweep xs \<Rightarrow> m = Processing \<or> (\<exists>t. m = Locked t) \<or> (\<exists>e. m = Ended e)
   | ParkSweep xs \<Rightarrow> m = Postponed \<or> (\<exists>e. m = Ended e) | _ \<Rightarrow> True)"

definition stage_ok :: "pc \<Rightarrow> bool" where
  "stage_ok p = (case p of
     RetSweep d xs \<Rightarrow> suffix xs CLAIM_SIDECAR_SUFFIXES | EndSweep xs \<Rightarrow> suffix xs CLAIM_SIDECAR_SUFFIXES
   | ParkSweep xs \<Rightarrow> suffix xs CLAIM_SIDECAR_SUFFIXES | _ \<Rightarrow> True)"

lemmas pc_defs = lock_pc_def own_pc_def excl_pc_def where_ok_def stage_ok_def CLAIM_SIDECAR_SUFFIXES_def

definition people :: "system \<Rightarrow> bool" where
  "people s \<longleftrightarrow> alive s \<subseteq> born s \<and> (\<forall>p\<in>born s. stamp_ok p \<and> 0 < c_pid p) \<and> (\<forall>p\<in>alive s. stage_ok (at s p))
     \<and> (\<forall>t. marker (job s) = Locked t \<longrightarrow> (\<exists>q\<in>born s. t = claimToken q))
     \<and> (\<forall>p\<in>alive s. \<forall>t. at s p = SweepLock t \<longrightarrow> (\<exists>q\<in>born s - alive s. t = claimToken q))"

definition locks :: "system \<Rightarrow> bool" where
  "locks s \<longleftrightarrow> (\<forall>p\<in>alive s. (lock_pc (at s p) \<longrightarrow> marker (job s) = Locked (claimToken p))
     \<and> (\<forall>g. at s p = ClaimTmp g \<longrightarrow> pid_tmp (job s) = Some (claimToken p)))"

definition owners :: "system \<Rightarrow> bool" where
  "owners s \<longleftrightarrow> (\<forall>p\<in>alive s. own_pc (at s p) \<longrightarrow> pid_file (job s) = Some (claimToken p) \<and> where_ok (at s p) (marker (job s)))"

definition exclusive :: "system \<Rightarrow> bool" where
  "exclusive s \<longleftrightarrow> (\<forall>p\<in>alive s. \<forall>q\<in>alive s. excl_pc (at s p) \<longrightarrow> own_pc (at s q) \<longrightarrow> q = p)"

definition inv :: "system \<Rightarrow> bool" where
  "inv s \<longleftrightarrow> people s \<and> locks s \<and> owners s \<and> exclusive s"

lemma token_inj: "stamp_ok p \<Longrightarrow> stamp_ok q \<Longrightarrow> claimToken p = claimToken q \<longleftrightarrow> p = q"
  using token_reads_back by (metis option.inject)

lemma alive_judged:
  assumes "truthful pt ps" and "p \<in> ps" and "stamp_ok p" and "0 < c_pid p"
  shows "claimerIsAlive pt (parseClaimSidecar (claimToken p))"
  using assms by (auto simp: token_reads_back claimerIsAlive_def truthful_def split: option.splits)

lemma inv_start: "inv s \<Longrightarrow> p \<notin> born s \<Longrightarrow> stamp_ok p \<Longrightarrow> 0 < c_pid p \<Longrightarrow> inv (happen (Start p) s)"
  unfolding inv_def people_def locks_def owners_def exclusive_def
  by (auto simp: pc_defs)

lemma inv_die: "inv s \<Longrightarrow> inv (happen (Die p) s)"
  unfolding inv_def people_def locks_def owners_def exclusive_def by (auto; blast)

lemma happen_Go: "happen (Go p pt aged e c) s =
    s\<lparr> job := snd (move pt aged e c (claimToken p) (at s p) (job s)),
       at := (at s)(p := fst (move pt aged e c (claimToken p) (at s p) (job s))) \<rparr>"
  by (simp add: case_prod_unfold Let_def)

lemma inv_facts:
  assumes "inv s" and "p \<in> alive s"
  shows "stamp_ok p" "0 < c_pid p"
    "lock_pc (at s p) \<Longrightarrow> marker (job s) = Locked (claimToken p)"
    "own_pc (at s p) \<Longrightarrow> pid_file (job s) = Some (claimToken p)"
    "own_pc (at s p) \<Longrightarrow> where_ok (at s p) (marker (job s))"
    "lock_pc (at s p) \<Longrightarrow> q \<in> alive s \<Longrightarrow> lock_pc (at s q) \<Longrightarrow> q = p"
    "own_pc (at s p) \<Longrightarrow> q \<in> alive s \<Longrightarrow> own_pc (at s q) \<Longrightarrow> q = p"
    "excl_pc (at s p) \<Longrightarrow> q \<in> alive s \<Longrightarrow> own_pc (at s q) \<Longrightarrow> q = p"
proof -
  have ok: "stamp_ok r" if "r \<in> alive s" for r using assms(1) that by (auto simp: inv_def people_def)
  show "stamp_ok p" "0 < c_pid p" using assms by (auto simp: inv_def people_def)
  show "lock_pc (at s p) \<Longrightarrow> marker (job s) = Locked (claimToken p)" using assms by (auto simp: inv_def locks_def)
  show "own_pc (at s p) \<Longrightarrow> pid_file (job s) = Some (claimToken p)"
    "own_pc (at s p) \<Longrightarrow> where_ok (at s p) (marker (job s))" using assms by (auto simp: inv_def owners_def)
  show "lock_pc (at s p) \<Longrightarrow> q \<in> alive s \<Longrightarrow> lock_pc (at s q) \<Longrightarrow> q = p"
    using assms ok token_inj unfolding inv_def locks_def by (metis marker.inject(1))
  show "own_pc (at s p) \<Longrightarrow> q \<in> alive s \<Longrightarrow> own_pc (at s q) \<Longrightarrow> q = p"
    using assms ok token_inj unfolding inv_def owners_def by (metis option.inject)
  show "excl_pc (at s p) \<Longrightarrow> q \<in> alive s \<Longrightarrow> own_pc (at s q) \<Longrightarrow> q = p"
    using assms unfolding inv_def exclusive_def by blast
qed

text \<open>A move keeps the invariant when what it does at its own place fits, and what it does to the files leaves the
  others where they are.\<close>

lemma inv_frame:
  assumes inv: "inv s" and p: "p \<in> alive s"
    and lock: "lock_pc pc' \<Longrightarrow> marker q' = Locked (claimToken p)"
    and tmp: "\<And>g. pc' = ClaimTmp g \<Longrightarrow> pid_tmp q' = Some (claimToken p)"
    and own: "own_pc pc' \<Longrightarrow> pid_file q' = Some (claimToken p) \<and> where_ok pc' (marker q')"
    and excl: "\<And>r. excl_pc pc' \<Longrightarrow> r \<in> alive s \<Longrightarrow> r \<noteq> p \<Longrightarrow> \<not> own_pc (at s r)"
    and no_excl: "\<And>r. own_pc pc' \<Longrightarrow> r \<in> alive s \<Longrightarrow> r \<noteq> p \<Longrightarrow> \<not> excl_pc (at s r)"
    and known: "\<And>t. marker q' = Locked t \<Longrightarrow> \<exists>r\<in>born s. t = claimToken r"
    and dead: "\<And>t. pc' = SweepLock t \<Longrightarrow> \<exists>r\<in>born s - alive s. t = claimToken r"
    and stage: "stage_ok pc'"
    and others: "\<And>r. r \<in> alive s \<Longrightarrow> r \<noteq> p \<Longrightarrow>
        (lock_pc (at s r) \<longrightarrow> marker q' = marker (job s)) \<and> ((\<exists>g. at s r = ClaimTmp g) \<longrightarrow> pid_tmp q' = pid_tmp (job s))
        \<and> (own_pc (at s r) \<longrightarrow> pid_file q' = pid_file (job s) \<and> where_ok (at s r) (marker q'))"
  shows "inv (s\<lparr> job := q', at := (at s)(p := pc') \<rparr>)"
proof -
  have "people (s\<lparr> job := q', at := (at s)(p := pc') \<rparr>)"
    using inv known dead stage by (auto simp: inv_def people_def)
  moreover have "locks (s\<lparr> job := q', at := (at s)(p := pc') \<rparr>)"
    using inv lock tmp others by (auto simp: inv_def locks_def)
  moreover have "owners (s\<lparr> job := q', at := (at s)(p := pc') \<rparr>)"
    using inv own others by (auto simp: inv_def owners_def)
  moreover have "exclusive (s\<lparr> job := q', at := (at s)(p := pc') \<rparr>)"
    using inv p excl no_excl by (auto simp: inv_def exclusive_def)
  ultimately show ?thesis by (simp add: inv_def)
qed

lemma where_moves:
  "lock_pc pc \<Longrightarrow> where_ok pc m"
  "own_pc pc \<Longrightarrow> where_ok pc Processing \<Longrightarrow> where_ok pc (Locked t)"
  "own_pc pc \<Longrightarrow> where_ok pc (Locked t) \<Longrightarrow> where_ok pc Processing"
  by (auto simp: pc_defs split: pc.splits)

lemma nobody_owns: "own_pc pc \<Longrightarrow> \<not> lock_pc pc \<Longrightarrow> \<not> sweeping pc \<Longrightarrow> \<not> where_ok pc Queued \<and> \<not> where_ok pc Postponed"
  by (auto simp: pc_defs sweeping_def split: pc.splits)

section \<open>Every move keeps it\<close>

lemmas at_rest = pc_defs rename_marker_def

text \<open>The lock is taken off the name a published claim has.\<close>

lemma inv_lock_taken:
  assumes inv: "inv s" and p: "p \<in> alive s" and free: "\<not> lock_pc (at s p)"
    and mk: "marker (job s) = Processing" and pc': "pc' = Taken \<or> pc' = RetRead d \<and> at s p = Ret d'"
  shows "inv (s\<lparr> job := (job s)\<lparr> marker := Locked (claimToken p) \<rparr>, at := (at s)(p := pc') \<rparr>)"
proof (rule inv_frame[OF inv p])
  note F = inv_facts[OF inv]
  show "\<exists>r\<in>born s. t = claimToken r" if "marker ((job s)\<lparr> marker := Locked (claimToken p) \<rparr>) = Locked t" for t
    using that inv p by (auto simp: inv_def people_def)
  have own: "own_pc (at s p)" if "own_pc pc' \<or> excl_pc pc'" using that pc' by (auto simp: pc_defs)
  show "\<not> own_pc (at s r)" if "excl_pc pc'" "r \<in> alive s" "r \<noteq> p" for r
    using F(7)[OF p] own that by blast
  show "\<not> excl_pc (at s r)" if "own_pc pc'" "r \<in> alive s" "r \<noteq> p" for r
    using F(8)[OF that(2) _ p] own that by blast
  show "own_pc pc' \<Longrightarrow> pid_file ((job s)\<lparr> marker := Locked (claimToken p) \<rparr>) = Some (claimToken p)
      \<and> where_ok pc' (marker ((job s)\<lparr> marker := Locked (claimToken p) \<rparr>))"
    using F(4)[OF p] own pc' by (auto simp: pc_defs)
  show "(lock_pc (at s r) \<longrightarrow> marker ((job s)\<lparr> marker := Locked (claimToken p) \<rparr>) = marker (job s))
      \<and> ((\<exists>g. at s r = ClaimTmp g) \<longrightarrow> pid_tmp ((job s)\<lparr> marker := Locked (claimToken p) \<rparr>) = pid_tmp (job s))
      \<and> (own_pc (at s r) \<longrightarrow> pid_file ((job s)\<lparr> marker := Locked (claimToken p) \<rparr>) = pid_file (job s)
           \<and> where_ok (at s r) (marker ((job s)\<lparr> marker := Locked (claimToken p) \<rparr>)))"
    if "r \<in> alive s" "r \<noteq> p" for r
    using F(3)[OF that(1)] F(5)[OF that(1)] mk where_moves(2) by auto
qed (use pc' in \<open>auto simp: pc_defs\<close>)

text \<open>The lock is given back to the name a published claim has.\<close>

lemma inv_lock_given:
  assumes inv: "inv s" and p: "p \<in> alive s" and t: "marker (job s) = Locked t"
    and alone: "\<And>r. r \<in> alive s \<Longrightarrow> r \<noteq> p \<Longrightarrow> \<not> lock_pc (at s r)"
    and pc': "pc' = Idle \<or> (pc' = Run \<or> pc' = Owner) \<and> own_pc (at s p) \<and> lock_pc (at s p)"
  shows "inv (s\<lparr> job := (job s)\<lparr> marker := Processing \<rparr>, at := (at s)(p := pc') \<rparr>)"
proof (rule inv_frame[OF inv p])
  note F = inv_facts[OF inv]
  show "own_pc pc' \<Longrightarrow> pid_file ((job s)\<lparr> marker := Processing \<rparr>) = Some (claimToken p)
      \<and> where_ok pc' (marker ((job s)\<lparr> marker := Processing \<rparr>))"
    using pc' F(4)[OF p] by (auto simp: pc_defs)
  show "\<not> excl_pc (at s r)" if "own_pc pc'" "r \<in> alive s" "r \<noteq> p" for r
    using pc' F(8)[OF that(2) _ p] that by (auto simp: own_pc_def)
  show "(lock_pc (at s r) \<longrightarrow> marker ((job s)\<lparr> marker := Processing \<rparr>) = marker (job s))
      \<and> ((\<exists>g. at s r = ClaimTmp g) \<longrightarrow> pid_tmp ((job s)\<lparr> marker := Processing \<rparr>) = pid_tmp (job s))
      \<and> (own_pc (at s r) \<longrightarrow> pid_file ((job s)\<lparr> marker := Processing \<rparr>) = pid_file (job s)
           \<and> where_ok (at s r) (marker ((job s)\<lparr> marker := Processing \<rparr>)))"
    if "r \<in> alive s" "r \<noteq> p" for r
    using alone[OF that] F(5)[OF that(1)] t where_moves(3) by auto
qed (use pc' in \<open>auto simp: pc_defs\<close>)

text \<open>Nothing of the marker changes, and the place does not gain the lock.\<close>

lemma inv_no_marker:
  assumes inv: "inv s" and p: "p \<in> alive s" and m: "marker q' = marker (job s)"
    and lock: "lock_pc pc' \<Longrightarrow> lock_pc (at s p)"
    and tmp: "\<And>g. pc' = ClaimTmp g \<Longrightarrow> pid_tmp q' = Some (claimToken p)"
    and own: "own_pc pc' \<Longrightarrow> (own_pc (at s p) \<or> excl_pc (at s p)) \<and> pid_file q' = Some (claimToken p) \<and> where_ok pc' (marker (job s))"
    and excl: "\<And>r. excl_pc pc' \<Longrightarrow> r \<in> alive s \<Longrightarrow> r \<noteq> p \<Longrightarrow> \<not> own_pc (at s r)"
    and dead: "\<And>t. pc' = SweepLock t \<Longrightarrow> \<exists>r\<in>born s - alive s. t = claimToken r"
    and stage: "stage_ok pc'"
    and pid: "pid_file q' \<noteq> pid_file (job s) \<Longrightarrow> own_pc (at s p) \<or> excl_pc (at s p)
       \<or> (\<forall>r\<in>alive s. r \<noteq> p \<longrightarrow> \<not> own_pc (at s r))"
    and tmps: "pid_tmp q' \<noteq> pid_tmp (job s) \<Longrightarrow> lock_pc (at s p)"
  shows "inv (s\<lparr> job := q', at := (at s)(p := pc') \<rparr>)"
proof (rule inv_frame[OF inv p])
  note F = inv_facts[OF inv]
  show "lock_pc pc' \<Longrightarrow> marker q' = Locked (claimToken p)" using lock F(3)[OF p] m by simp
  show "pid_tmp q' = Some (claimToken p)" if "pc' = ClaimTmp g" for g using tmp that .
  show "own_pc pc' \<Longrightarrow> pid_file q' = Some (claimToken p) \<and> where_ok pc' (marker q')" using own m by simp
  show "\<not> own_pc (at s r)" if "excl_pc pc'" "r \<in> alive s" "r \<noteq> p" for r using excl that .
  show "\<not> excl_pc (at s r)" if "own_pc pc'" "r \<in> alive s" "r \<noteq> p" for r
  proof
    assume e: "excl_pc (at s r)"
    have "own_pc (at s p) \<or> excl_pc (at s p)" using own that(1) by blast
    then consider "own_pc (at s p)" | "excl_pc (at s p)" "\<not> own_pc (at s p)" by blast
    then show False
    proof cases
      case 1
      then show False using F(8)[OF that(2) e p] that(3) by blast
    next
      case 2
      then have "lock_pc (at s p)" by (auto simp: pc_defs split: pc.splits)
      moreover have "lock_pc (at s r)" using e by (auto simp: pc_defs split: pc.splits)
      ultimately show False using F(6)[OF p] that by blast
    qed
  qed
  show "\<exists>r\<in>born s. t = claimToken r" if "marker q' = Locked t" for t
    using inv that m by (auto simp: inv_def people_def)
  show "\<exists>r\<in>born s - alive s. t = claimToken r" if "pc' = SweepLock t" for t using dead that .
  show "stage_ok pc'" by (rule stage)
  show "(lock_pc (at s r) \<longrightarrow> marker q' = marker (job s)) \<and> ((\<exists>g. at s r = ClaimTmp g) \<longrightarrow> pid_tmp q' = pid_tmp (job s))
        \<and> (own_pc (at s r) \<longrightarrow> pid_file q' = pid_file (job s) \<and> where_ok (at s r) (marker q'))"
    if "r \<in> alive s" "r \<noteq> p" for r
  proof (intro conjI impI)
    show "marker q' = marker (job s)" using m .
    show "pid_tmp q' = pid_tmp (job s)" if g: "\<exists>g. at s r = ClaimTmp g"
    proof (rule ccontr)
      assume "pid_tmp q' \<noteq> pid_tmp (job s)"
      then have "lock_pc (at s p)" using tmps by simp
      moreover have "lock_pc (at s r)" using g by (auto simp: lock_pc_def)
      ultimately show False using F(6)[OF p] \<open>r \<in> alive s\<close> \<open>r \<noteq> p\<close> by blast
    qed
    show "pid_file q' = pid_file (job s)" if "own_pc (at s r)"
      using pid F(7)[OF p] F(8)[OF p] that \<open>r \<in> alive s\<close> \<open>r \<noteq> p\<close> by blast
    show "where_ok (at s r) (marker q')" if "own_pc (at s r)" using F(5)[OF \<open>r \<in> alive s\<close> that] m by simp
  qed
qed

text \<open>A queued or parked job is locked by a claim: nobody owns it.\<close>

lemma inv_claim_begun:
  assumes inv: "inv s" and p: "p \<in> alive s" and idle: "at s p = Idle"
    and mk: "marker (job s) = origin_marker g" and calm: "g = Park \<Longrightarrow> \<forall>r\<in>alive s. \<not> sweeping (at s r)"
  shows "inv (s\<lparr> job := (job s)\<lparr> marker := Locked (claimToken p) \<rparr>, at := (at s)(p := Claim g) \<rparr>)"
proof (rule inv_frame[OF inv p])
  note F = inv_facts[OF inv]
  have none: "\<not> own_pc (at s r)" "\<not> lock_pc (at s r)" if "r \<in> alive s" for r
  proof -
    show l: "\<not> lock_pc (at s r)" using F(3)[OF that] mk by (cases g) auto
    show "\<not> own_pc (at s r)"
    proof
      assume o: "own_pc (at s r)"
      show False
      proof (cases g)
        case Fresh
        then show False using F(5)[OF that o] mk o l by (auto simp: pc_defs split: pc.splits)
      next
        case Park
        then show False using F(5)[OF that o] mk o l calm that by (auto simp: pc_defs sweeping_def split: pc.splits)
      qed
    qed
  qed
  show "\<exists>r\<in>born s. t = claimToken r" if "marker ((job s)\<lparr> marker := Locked (claimToken p) \<rparr>) = Locked t" for t
    using that inv p by (auto simp: inv_def people_def)
  show "\<not> own_pc (at s r)" if "r \<in> alive s" for r using none that by blast
  show "(lock_pc (at s r) \<longrightarrow> marker ((job s)\<lparr> marker := Locked (claimToken p) \<rparr>) = marker (job s))
      \<and> ((\<exists>g. at s r = ClaimTmp g) \<longrightarrow> pid_tmp ((job s)\<lparr> marker := Locked (claimToken p) \<rparr>) = pid_tmp (job s))
      \<and> (own_pc (at s r) \<longrightarrow> pid_file ((job s)\<lparr> marker := Locked (claimToken p) \<rparr>) = pid_file (job s)
           \<and> where_ok (at s r) (marker ((job s)\<lparr> marker := Locked (claimToken p) \<rparr>)))"
    if "r \<in> alive s" "r \<noteq> p" for r
    using none[OF that(1)] by auto
qed (auto simp: pc_defs)

text \<open>The owner of a job, or of the lock on it that nobody else owns, moves the marker away.\<close>

lemma inv_marker_left:
  assumes inv: "inv s" and p: "p \<in> alive s" and m: "\<And>t. m \<noteq> Locked t"
    and mine: "(own_pc (at s p) \<and> marker (job s) = Processing) \<or> (excl_pc (at s p) \<and> lock_pc (at s p))"
    and pc': "\<not> lock_pc pc'" "\<And>t. pc' \<noteq> SweepLock t" "\<not> excl_pc pc'"
      "own_pc pc' \<Longrightarrow> own_pc (at s p) \<and> where_ok pc' m" "stage_ok pc'"
  shows "inv (s\<lparr> job := (job s)\<lparr> marker := m \<rparr>, at := (at s)(p := pc') \<rparr>)"
proof (rule inv_frame[OF inv p])
  note F = inv_facts[OF inv]
  have none: "\<not> own_pc (at s r) \<and> \<not> lock_pc (at s r)" if r: "r \<in> alive s" "r \<noteq> p" for r
    using mine
  proof
    assume a: "own_pc (at s p) \<and> marker (job s) = Processing"
    then show ?thesis using F(7)[OF p, of r] F(3)[OF r(1)] r by auto
  next
    assume a: "excl_pc (at s p) \<and> lock_pc (at s p)"
    then show ?thesis using F(8)[OF p, of r] F(6)[OF p, of r] r by auto
  qed
  show "own_pc pc' \<Longrightarrow> pid_file ((job s)\<lparr> marker := m \<rparr>) = Some (claimToken p) \<and> where_ok pc' (marker ((job s)\<lparr> marker := m \<rparr>))"
    using pc'(4) F(4)[OF p] by simp
  show "\<not> excl_pc (at s r)" if "own_pc pc'" "r \<in> alive s" "r \<noteq> p" for r
    using F(8)[OF that(2) _ p] pc'(4) that by blast
  show "(lock_pc (at s r) \<longrightarrow> marker ((job s)\<lparr> marker := m \<rparr>) = marker (job s))
      \<and> ((\<exists>g. at s r = ClaimTmp g) \<longrightarrow> pid_tmp ((job s)\<lparr> marker := m \<rparr>) = pid_tmp (job s))
      \<and> (own_pc (at s r) \<longrightarrow> pid_file ((job s)\<lparr> marker := m \<rparr>) = pid_file (job s)
           \<and> where_ok (at s r) (marker ((job s)\<lparr> marker := m \<rparr>)))"
    if "r \<in> alive s" "r \<noteq> p" for r
    using none[OF that] by auto
qed (use pc' m in \<open>auto simp: pc_defs\<close>)

lemma stage_next:
  "suffix (x # xs) CLAIM_SIDECAR_SUFFIXES \<Longrightarrow>
     suffix xs CLAIM_SIDECAR_SUFFIXES \<and> xs \<noteq> CLAIM_SIDECAR_SUFFIXES \<and> (x = Pid \<longrightarrow> x # xs = CLAIM_SIDECAR_SUFFIXES)"
  by (auto simp: CLAIM_SIDECAR_SUFFIXES_def suffix_Cons)

lemma rm_sidecar_keeps:
  "marker (rm_sidecar x q) = marker q" "pid_tmp (rm_sidecar x q) = pid_tmp q"
  "pid_file (rm_sidecar x q) \<noteq> pid_file q \<Longrightarrow> x = Pid"
  by (cases x; simp)+

text \<open>One element of the sweep, at a place that may do it.\<close>

lemma inv_swept:
  assumes inv: "inv s" and p: "p \<in> alive s"
    and places: "at s p = f (x # xs)" "pc' = f xs" and f: "(\<exists>d. f = RetSweep d) \<or> f = EndSweep \<or> f = ParkSweep"
  shows "inv (s\<lparr> job := rm_sidecar x (job s), at := (at s)(p := pc') \<rparr>)"
proof -
  have "stage_ok (at s p)" using inv p by (auto simp: inv_def people_def)
  then have st: "suffix xs CLAIM_SIDECAR_SUFFIXES" "xs \<noteq> CLAIM_SIDECAR_SUFFIXES" "x = Pid \<longrightarrow> x # xs = CLAIM_SIDECAR_SUFFIXES"
    using stage_next[of x xs] places f by (auto simp: stage_ok_def)
  show ?thesis
  proof (rule inv_no_marker[OF inv p])
    show "\<not> own_pc (at s r)" if "excl_pc pc'" "r \<in> alive s" "r \<noteq> p" for r
      using inv_facts(8)[OF inv p _ that(2)] that places f by (auto simp: excl_pc_def)
    show "pid_file (rm_sidecar x (job s)) \<noteq> pid_file (job s) \<Longrightarrow> own_pc (at s p) \<or> excl_pc (at s p)
       \<or> (\<forall>r\<in>alive s. r \<noteq> p \<longrightarrow> \<not> own_pc (at s r))"
      using rm_sidecar_keeps(3) st(3) places f by (auto simp: own_pc_def)
  qed (use places f st rm_sidecar_keeps in \<open>auto simp: lock_pc_def own_pc_def stage_ok_def\<close>)
qed

lemma inv_same:
  assumes "inv s" and "p \<in> alive s"
  shows "inv (s\<lparr> job := job s, at := (at s)(p := Idle) \<rparr>)"
  by (rule inv_no_marker[OF assms]) (auto simp: pc_defs)

lemma inv_claim_move:
  assumes inv: "inv s" and p: "p \<in> alive s" and c: "(\<exists>g. at s p = Claim g) \<or> (\<exists>g. at s p = ClaimTmp g) \<or> (\<exists>g. at s p = ClaimPub g)
      \<or> (\<exists>g. at s p = Undo g) \<or> (\<exists>g. at s p = UndoBack g)"
    and m: "claim_move e (claimToken p) (at s p) (job s) = (pc', q')"
  shows "inv (s\<lparr> job := q', at := (at s)(p := pc') \<rparr>)"
proof -
  note F = inv_facts[OF inv p]
  have ex: "excl_pc (at s p)" "lock_pc (at s p)" using c by (auto simp: pc_defs)
  have mk: "marker (job s) = Locked (claimToken p)" using F(3) ex by simp
  have none: "\<not> own_pc (at s r)" "\<not> lock_pc (at s r)" if "r \<in> alive s" "r \<noteq> p" for r
    using F(8)[OF ex(1) that(1)] F(6)[OF ex(2) that(1)] that by auto
  have tmp: "pid_tmp (job s) = Some (claimToken p)" if "at s p = ClaimTmp g" for g
    using inv p that by (auto simp: inv_def locks_def)
  show ?thesis
    using c
  proof (elim disjE exE)
    fix g assume a: "at s p = ClaimPub g"
    then have "pc' = Run" "q' = (job s)\<lparr> marker := Processing \<rparr>" using m mk by (auto simp: rename_marker_def)
    then show ?thesis using inv_lock_given[OF inv p mk none(2), of Run] a ex by (auto simp: own_pc_def)
  next
    fix g assume a: "at s p = UndoBack g"
    show ?thesis
    proof (cases "e = Fine")
      case True
      then have "pc' = Idle" "q' = (job s)\<lparr> marker := origin_marker g \<rparr>" using m mk a by (auto simp: rename_marker_def)
      then show ?thesis
        using inv_marker_left[OF inv p, of "origin_marker g" Idle] ex by (cases g) (auto simp: pc_defs)
    next
      case False
      then have "pc' = Idle" "q' = job s" using m mk a by (auto simp: rename_marker_def)
      then show ?thesis using inv_same[OF inv p] by simp
    qed
  next
    fix g assume a: "at s p = Claim g"
    show ?thesis
      by (rule inv_no_marker[OF inv p])
         (use m a ex none in \<open>auto simp: lock_pc_def own_pc_def stage_ok_def split: if_splits\<close>)
  next
    fix g assume a: "at s p = ClaimTmp g"
    show ?thesis
      by (rule inv_no_marker[OF inv p])
         (use m a ex none tmp[OF a] in \<open>auto simp: lock_pc_def own_pc_def stage_ok_def where_ok_def split: if_splits\<close>)
  next
    fix g assume a: "at s p = Undo g"
    show ?thesis
      by (rule inv_no_marker[OF inv p])
         (use m a ex none in \<open>auto simp: lock_pc_def own_pc_def stage_ok_def split: if_splits\<close>)
  qed
qed

text \<open>A claimer that is alive is seen to cover the claim.\<close>

lemma owner_covers:
  assumes "inv s" and "r \<in> alive s" and "own_pc (at s r)" and "truthful pt (alive s)"
  shows "covered pt (job s)"
  using alive_judged[OF assms(4,2) inv_facts(1,2)[OF assms(1,2)]] inv_facts(4)[OF assms(1,2,3)]
  by (simp add: covered_def)

lemma inv_takeover_move:
  assumes inv: "inv s" and p: "p \<in> alive s" and tr: "truthful pt (alive s)"
    and c: "at s p \<in> {Judged, Taken, TakeStamp, TakePub, TakeBack}"
    and m: "takeover_move pt False e (claimToken p) (at s p) (job s) = (pc', q')"
  shows "inv (s\<lparr> job := q', at := (at s)(p := pc') \<rparr>)"
proof -
  note F = inv_facts[OF inv p]
  have mk: "marker (job s) = Locked (claimToken p)" and none: "\<And>r. r \<in> alive s \<Longrightarrow> r \<noteq> p \<Longrightarrow> \<not> lock_pc (at s r)"
    if "lock_pc (at s p)"
    using F(3)[OF that] F(6)[OF that] by auto
  consider "at s p = Judged" | "at s p = Taken" | "at s p = TakeStamp" | "at s p = TakePub" | "at s p = TakeBack"
    using c by auto
  then show ?thesis
  proof cases
    case 1
    then show ?thesis
      using m inv_lock_taken[OF inv p, of Taken] inv_same[OF inv p]
      by (auto simp: rename_marker_def lock_pc_def split: if_splits)
  next
    case 2
    show ?thesis
      by (rule inv_no_marker[OF inv p])
         (use m 2 owner_covers[OF inv _ _ tr] in \<open>auto simp: lock_pc_def own_pc_def excl_pc_def stage_ok_def split: if_splits\<close>)
  next
    case 3
    show ?thesis
      by (rule inv_no_marker[OF inv p])
         (use m 3 F(8) in \<open>auto simp: lock_pc_def own_pc_def excl_pc_def stage_ok_def where_ok_def split: io.splits\<close>)
  next
    case 4
    then have "pc' = Owner" "q' = (job s)\<lparr> marker := Processing \<rparr>" using m mk by (auto simp: rename_marker_def lock_pc_def)
    then show ?thesis using inv_lock_given[OF inv p mk none, of Owner] 4 by (auto simp: own_pc_def lock_pc_def)
  next
    case 5
    then have "pc' = Idle" "q' = (job s)\<lparr> marker := Processing \<rparr>" using m mk by (auto simp: rename_marker_def lock_pc_def)
    then show ?thesis using inv_lock_given[OF inv p mk none, of Idle] 5 by (auto simp: lock_pc_def)
  qed
qed

lemma inv_scan_move:
  assumes inv: "inv s" and p: "p \<in> alive s" and c: "at s p = Seen \<or> at s p = Tally"
    and m: "scan_move pt aged e (at s p) (job s) = (pc', q')"
  shows "inv (s\<lparr> job := q', at := (at s)(p := pc') \<rparr>)"
  by (rule inv_no_marker[OF inv p])
     (use m c in \<open>auto simp: lock_pc_def own_pc_def excl_pc_def stage_ok_def split: if_splits\<close>)

lemma inv_retire_move:
  assumes inv: "inv s" and p: "p \<in> alive s"
    and c: "(\<exists>d. at s p = Ret d) \<or> (\<exists>d. at s p = RetRead d) \<or> at s p = RetBack \<or> (\<exists>d xs. at s p = RetSweep d xs)
      \<or> (\<exists>d. at s p = RetMove d)"
    and m: "retire_move (claimToken p) (at s p) (job s) = (pc', q')"
  shows "inv (s\<lparr> job := q', at := (at s)(p := pc') \<rparr>)"
proof -
  note F = inv_facts[OF inv p]
  have mk: "marker (job s) = Locked (claimToken p)" and none: "\<And>r. r \<in> alive s \<Longrightarrow> r \<noteq> p \<Longrightarrow> \<not> lock_pc (at s r)"
    if "lock_pc (at s p)"
    using F(3)[OF that] F(6)[OF that] by auto
  show ?thesis
    using c
  proof (elim disjE exE)
    fix d assume a: "at s p = Ret d"
    then show ?thesis
      using m inv_lock_taken[OF inv p, of "RetRead d" d d] inv_same[OF inv p]
      by (auto simp: rename_marker_def lock_pc_def split: if_splits)
  next
    fix d assume a: "at s p = RetRead d"
    show ?thesis
      by (rule inv_no_marker[OF inv p])
         (use m a F(4,8) in \<open>auto simp: lock_pc_def own_pc_def excl_pc_def stage_ok_def where_ok_def Let_def split: if_splits\<close>)
  next
    assume a: "at s p = RetBack"
    then have "pc' = Idle" "q' = (job s)\<lparr> marker := Processing \<rparr>" using m mk by (auto simp: rename_marker_def lock_pc_def)
    then show ?thesis using inv_lock_given[OF inv p mk none, of Idle] a by (auto simp: lock_pc_def)
  next
    fix d xs assume a: "at s p = RetSweep d xs"
    show ?thesis
    proof (cases xs)
      case Nil
      show ?thesis
        by (rule inv_no_marker[OF inv p])
           (use m a Nil F(8) in \<open>auto simp: lock_pc_def own_pc_def excl_pc_def stage_ok_def\<close>)
    next
      case (Cons x ys)
      then show ?thesis using m a inv_swept[OF inv p, of "RetSweep d" x ys pc'] by auto
    qed
  next
    fix d assume a: "at s p = RetMove d"
    then have l: "lock_pc (at s p)" "excl_pc (at s p)" by (auto simp: pc_defs)
    then have "pc' = Idle" "q' = (job s)\<lparr> marker := dest_marker d \<rparr>" using m mk a by (auto simp: rename_marker_def)
    then show ?thesis
      using inv_marker_left[OF inv p, of "dest_marker d" Idle] l by (cases d) (auto simp: pc_defs)
  qed
qed

lemma inv_end_move:
  assumes inv: "inv s" and p: "p \<in> alive s" and c: "(\<exists>e. at s p = Ending e) \<or> (\<exists>xs. at s p = EndSweep xs)"
    and m: "end_move (at s p) (job s) = (pc', q')"
  shows "inv (s\<lparr> job := q', at := (at s)(p := pc') \<rparr>)"
proof -
  note F = inv_facts[OF inv p]
  show ?thesis
    using c
  proof (elim disjE exE)
    fix e assume a: "at s p = Ending e"
    then have pc': "pc' = EndSweep CLAIM_SIDECAR_SUFFIXES" using m by auto
    show ?thesis
    proof (cases "marker (job s) = Processing")
      case True
      then have "q' = (job s)\<lparr> marker := Ended e \<rparr>" using m a by (auto simp: rename_marker_def)
      then show ?thesis
        using inv_marker_left[OF inv p, of "Ended e" pc'] a pc' True by (auto simp: pc_defs)
    next
      case False
      then have "q' = job s" using m a by (auto simp: rename_marker_def)
      then show ?thesis
        using pc' a F(4,5) by (intro inv_no_marker[OF inv p]) (auto simp: pc_defs)
    qed
  next
    fix xs assume a: "at s p = EndSweep xs"
    show ?thesis
    proof (cases xs)
      case Nil
      then show ?thesis using m a inv_same[OF inv p] by auto
    next
      case (Cons x ys)
      then show ?thesis using m a inv_swept[OF inv p, of EndSweep x ys pc'] by auto
    qed
  qed
qed

lemma inv_park_move:
  assumes inv: "inv s" and p: "p \<in> alive s" and c: "at s p = Parking \<or> (\<exists>xs. at s p = ParkSweep xs)"
    and m: "park_move (at s p) (job s) = (pc', q')"
  shows "inv (s\<lparr> job := q', at := (at s)(p := pc') \<rparr>)"
  using c
proof (elim disjE exE)
  assume a: "at s p = Parking"
  show ?thesis
  proof (cases "marker (job s) = Processing")
    case True
    then have "pc' = ParkSweep CLAIM_SIDECAR_SUFFIXES" "q' = (job s)\<lparr> marker := Postponed \<rparr>"
      using m a by (auto simp: rename_marker_def)
    then show ?thesis using inv_marker_left[OF inv p, of Postponed pc'] a True by (auto simp: pc_defs)
  next
    case False
    then show ?thesis using m a inv_same[OF inv p] by (auto simp: rename_marker_def)
  qed
next
  fix xs assume a: "at s p = ParkSweep xs"
  show ?thesis
  proof (cases xs)
    case Nil
    then show ?thesis using m a inv_same[OF inv p] by auto
  next
    case (Cons x ys)
    then show ?thesis using m a inv_swept[OF inv p, of ParkSweep x ys pc'] by auto
  qed
qed

lemma inv_restore_move:
  assumes inv: "inv s" and p: "p \<in> alive s" and c: "at s p = SweepLock t"
    and m: "restore_move (at s p) (job s) = (pc', q')"
  shows "inv (s\<lparr> job := q', at := (at s)(p := pc') \<rparr>)"
proof (cases "marker (job s) = Locked t")
  case True
  then have eq: "pc' = Idle" "q' = (job s)\<lparr> marker := Processing \<rparr>" using m c by (auto simp: rename_marker_def)
  obtain q where q: "q \<in> born s - alive s" "t = claimToken q" using inv p c unfolding inv_def people_def by blast
  have "\<not> lock_pc (at s r)" if r: "r \<in> alive s" for r
  proof
    assume "lock_pc (at s r)"
    then have "claimToken r = claimToken q" using inv_facts(3)[OF inv r] True q by simp
    moreover have "stamp_ok r" "stamp_ok q" using inv r q by (auto simp: inv_def people_def)
    ultimately have "r = q" using token_inj by blast
    then show False using r q by blast
  qed
  then show ?thesis using inv_lock_given[OF inv p True, of Idle] eq by auto
next
  case False
  then show ?thesis using m c inv_same[OF inv p] by (auto simp: rename_marker_def)
qed

lemma inv_idle:
  assumes inv: "inv s" and p: "p \<in> alive s" and a: "at s p = Idle" and tr: "truthful pt (alive s)"
    and calm: "c = BeginClaim Park \<Longrightarrow> \<forall>r\<in>alive s. \<not> sweeping (at s r)"
    and m: "idle_choice pt (claimToken p) c (job s) = (pc', q')"
  shows "inv (s\<lparr> job := q', at := (at s)(p := pc') \<rparr>)"
proof -
  have same: ?thesis if "pc' = Idle" "q' = job s" using that inv_same[OF inv p] by simp
  show ?thesis
  proof (cases c)
    case (BeginClaim g)
    then show ?thesis
      using m same calm inv_claim_begun[OF inv p a, of g]
      by (auto simp: idle_choice_def begin_claim_def rename_marker_def split: if_splits)
  next
    case CancelPark
    show ?thesis
    proof (cases "marker (job s) = Postponed")
      case True
      then have eq: "pc' = Idle" "q' = (job s)\<lparr> marker := Ended Cancelled \<rparr>"
        using m CancelPark by (auto simp: idle_choice_def rename_marker_def)
      show ?thesis
        unfolding eq
      proof (rule inv_frame[OF inv p])
        show "(lock_pc (at s r) \<longrightarrow> marker ((job s)\<lparr> marker := Ended Cancelled \<rparr>) = marker (job s))
          \<and> ((\<exists>g. at s r = ClaimTmp g) \<longrightarrow> pid_tmp ((job s)\<lparr> marker := Ended Cancelled \<rparr>) = pid_tmp (job s))
          \<and> (own_pc (at s r) \<longrightarrow> pid_file ((job s)\<lparr> marker := Ended Cancelled \<rparr>) = pid_file (job s)
               \<and> where_ok (at s r) (marker ((job s)\<lparr> marker := Ended Cancelled \<rparr>)))"
          if "r \<in> alive s" "r \<noteq> p" for r
          using inv_facts(3,5)[OF inv that(1)] True by (auto simp: pc_defs split: pc.splits)
      qed (auto simp: pc_defs)
    next
      case False
      then show ?thesis using m CancelPark same by (auto simp: idle_choice_def rename_marker_def)
    qed
  next
    case Look
    show ?thesis
      by (rule inv_no_marker[OF inv p])
         (use m Look a in \<open>auto simp: idle_choice_def lock_pc_def own_pc_def excl_pc_def stage_ok_def split: if_splits\<close>)
  next
    case LookLocks
    show ?thesis
    proof (cases pc')
      case (SweepLock t)
      then have t: "marker (job s) = Locked t" "\<not> claimerIsAlive pt (parseClaimSidecar t)" "q' = job s"
        using m LookLocks by (auto simp: idle_choice_def see_lock_def split: marker.splits if_splits)
      obtain q where q: "q \<in> born s" "t = claimToken q" using inv t(1) unfolding inv_def people_def by blast
      have "q \<notin> alive s"
        using alive_judged[OF tr] inv_facts(1,2)[OF inv, of q] q t(2) by blast
      then show ?thesis
        using q SweepLock t(3)
        by (intro inv_no_marker[OF inv p]) (auto simp: lock_pc_def own_pc_def excl_pc_def stage_ok_def)
    qed (use m LookLocks same in \<open>auto simp: idle_choice_def see_lock_def split: marker.splits if_splits\<close>)
  qed (use m same in \<open>auto simp: idle_choice_def\<close>)
qed

lemma inv_choice:
  assumes inv: "inv s" and p: "p \<in> alive s"
    and m: "(at s p = Owner \<and> owner_choice c (job s) = (pc', q')) \<or> (at s p = Run \<and> run_choice c (job s) = (pc', q'))"
  shows "inv (s\<lparr> job := q', at := (at s)(p := pc') \<rparr>)"
proof (rule inv_no_marker[OF inv p])
  note F = inv_facts[OF inv p]
  show "own_pc pc' \<Longrightarrow> (own_pc (at s p) \<or> excl_pc (at s p)) \<and> pid_file q' = Some (claimToken p) \<and> where_ok pc' (marker (job s))"
    using m F(4,5)
    by (auto simp: owner_choice_def run_choice_def own_pc_def where_ok_def split: choice.splits if_splits)
qed (use m in \<open>auto simp: owner_choice_def run_choice_def lock_pc_def excl_pc_def stage_ok_def split: choice.splits if_splits\<close>)

text \<open>The age of a claim matters only where a claimer that lives covers it.\<close>

lemma move_uncovered: "\<not> covered pt q \<Longrightarrow> move pt aged e c t p q = move pt False e c t p q"
  by (cases p; cases aged) (simp_all add: move_def)

lemma inv_go:
  assumes inv: "inv s" and en: "enabled False False (Go p pt aged e c) s"
  shows "inv (happen (Go p pt aged e c) s)"
proof -
  have p: "p \<in> alive s" and tr: "truthful pt (alive s)" and old: "aged \<Longrightarrow> \<not> covered pt (job s)"
    and calm: "c = BeginClaim Park \<Longrightarrow> \<forall>r\<in>alive s. \<not> sweeping (at s r)"
    using en by auto
  obtain pc' q' where m: "move pt False e c (claimToken p) (at s p) (job s) = (pc', q')" by fastforce
  have "inv (s\<lparr> job := q', at := (at s)(p := pc') \<rparr>)"
  proof (cases "at s p")
    case Idle
    then show ?thesis using inv_idle[OF inv p _ tr calm] m by (simp add: move_def)
  next
    case Run
    then show ?thesis using inv_choice[OF inv p] m by (simp add: move_def)
  next
    case Owner
    then show ?thesis using inv_choice[OF inv p] m by (simp add: move_def)
  next
    case Seen
    show ?thesis by (rule inv_scan_move[OF inv p, of pt False e]) (use m Seen in \<open>simp_all add: move_def\<close>)
  next
    case Tally
    show ?thesis by (rule inv_scan_move[OF inv p, of pt False e]) (use m Tally in \<open>simp_all add: move_def\<close>)
  next
    case (SweepLock t)
    then show ?thesis using inv_restore_move[OF inv p] m by (simp add: move_def)
  qed (use m inv_claim_move[OF inv p] inv_takeover_move[OF inv p tr] inv_retire_move[OF inv p] inv_end_move[OF inv p]
         inv_park_move[OF inv p] in \<open>auto simp: move_def\<close>)
  moreover have "move pt aged e c (claimToken p) (at s p) (job s) = move pt False e c (claimToken p) (at s p) (job s)"
    using old move_uncovered[of pt "job s" aged] by (cases aged) simp_all
  ultimately show ?thesis unfolding happen_Go m by simp
qed

lemma reach_inv: "reach False False s \<Longrightarrow> inv s"
proof (induction rule: reach.induct)
  case (start s)
  then show ?case by (simp add: inv_def people_def locks_def owners_def exclusive_def)
next
  case (event s ev)
  show ?case
  proof (cases ev)
    case (Start p)
    then show ?thesis using event inv_start by simp
  next
    case (Die p)
    then show ?thesis using event inv_die by simp
  next
    case (Go p pt aged e c)
    then show ?thesis using event inv_go by simp
  qed
qed

section \<open>What the files can name\<close>

definition names_born :: "system \<Rightarrow> jstr \<Rightarrow> bool" where
  "names_born s t \<longleftrightarrow> (\<exists>q\<in>born s. t = claimToken q)"

definition known :: "system \<Rightarrow> bool" where
  "known s \<longleftrightarrow> alive s \<subseteq> born s \<and> (\<forall>q\<in>born s. stamp_ok q)
     \<and> (\<forall>t. marker (job s) = Locked t \<longrightarrow> names_born s t)
     \<and> (\<forall>t. pid_file (job s) = Some t \<longrightarrow> t = [] \<or> names_born s t)
     \<and> (\<forall>t. pid_tmp (job s) = Some t \<longrightarrow> names_born s t)"

definition tame :: "jstr \<Rightarrow> queue \<Rightarrow> queue \<Rightarrow> bool" where
  "tame t q q' \<longleftrightarrow> (\<forall>l. marker q' = Locked l \<longrightarrow> marker q = Locked l \<or> l = t)
     \<and> (\<forall>f. pid_file q' = Some f \<longrightarrow> pid_file q = Some f \<or> f = [] \<or> f = t \<or> pid_tmp q = Some f)
     \<and> (\<forall>f. pid_tmp q' = Some f \<longrightarrow> pid_tmp q = Some f \<or> f = t)"

lemma no_lock_name [simp]: "origin_marker g \<noteq> Locked t" "dest_marker d \<noteq> Locked t"
  by (cases g; simp) (cases d; simp)

lemma tame_same [simp]: "tame t q q"
  by (simp add: tame_def)

lemma tame_sweep [simp]: "tame t q (rm_sidecar x q)"
  by (cases x) (simp_all add: tame_def)













section \<open>One runner alone\<close>



lemma events_append:
  "events aging hasty (xs @ ys) s = (case events aging hasty xs s of None \<Rightarrow> None | Some s' \<Rightarrow> events aging hasty ys s')"
  by (induction xs arbitrary: s) auto
















section \<open>Properties\<close>

text \<open>C6: One job, one runner. However the runners interleave, fail and die, of those alive at most one works on the
  job, and while it does the sidecar carries its token and the marker is published or under a lock: as long as no claim
  whose claimer lives is taken over for its age (which the code does on purpose past the maximal age) and no park is
  claimed while its sidecars are still being swept (\<open>park_claimed_too_soon\<close> shows that this race is open).\<close>

theorem one_runner_works:
  assumes "reach False False s" and "p \<in> alive s" and "works (at s p)"
  shows "pid_file (job s) = Some (claimToken p) \<and> (marker (job s) = Processing \<or> (\<exists>t. marker (job s) = Locked t))
    \<and> {q \<in> alive s. works (at s q)} = {p}"
proof -
  note inv = reach_inv[OF assms(1)]
  have own: "own_pc (at s q)" if "works (at s q)" for q using that by (auto simp: works_def own_pc_def split: pc.splits)
  have "where_ok (at s p) (marker (job s))" using inv_facts(5)[OF inv assms(2) own[OF assms(3)]] .
  then have "marker (job s) = Processing \<or> (\<exists>t. marker (job s) = Locked t)"
    using assms(3) by (auto simp: works_def where_ok_def split: pc.splits)
  moreover have "q = p" if "q \<in> alive s" "works (at s q)" for q
    using inv_facts(7)[OF inv assms(2) own[OF assms(3)] that(1) own[OF that(2)]] .
  ultimately show ?thesis using inv_facts(4)[OF inv assms(2) own[OF assms(3)]] assms by blast
qed


section \<open>Two races\<close>

text \<open>Three runners, and a process table that only says of each pid whether it answers.\<close>

definition ra :: claimer where "ra = \<lparr> c_pid = 5, c_start = None \<rparr>"
definition rb :: claimer where "rb = \<lparr> c_pid = 6, c_start = None \<rparr>"
definition rc :: claimer where "rc = \<lparr> c_pid = 7, c_start = None \<rparr>"

definition answering :: "nat list \<Rightarrow> process_table" where
  "answering ps = \<lparr> kill = (\<lambda>n. if n \<in> set ps then Answers else NoSuch), starttimeOf = (\<lambda>n. None) \<rparr>"

definition waiting :: system where
  "waiting = \<lparr> job = \<lparr> marker = Queued, pid_file = None, pid_tmp = None, meta_file = None, skips_file = None \<rparr>,
     at = (\<lambda>p. Idle), alive = {}, born = {} \<rparr>"

definition moves :: "claimer \<Rightarrow> process_table \<Rightarrow> choice list \<Rightarrow> event list" where
  "moves p pt = map (Go p pt False Fine)"

lemma waiting_reached: "reach aging hasty waiting"
  by (rule reach.start) (simp_all add: waiting_def)

lemma runners_differ [simp]: "ra \<noteq> rb" "rb \<noteq> ra" "ra \<noteq> rc" "rc \<noteq> ra" "rb \<noteq> rc" "rc \<noteq> rb"
  by (simp_all add: ra_def rb_def rc_def)

lemma runners_ok [simp]:
  "stamp_ok ra" "stamp_ok rb" "stamp_ok rc" "c_pid ra = 5" "c_pid rb = 6" "c_pid rc = 7"
  "c_start ra = None" "c_start rb = None" "c_start rc = None"
  by (simp_all add: ra_def rb_def rc_def stamp_ok_def)

lemma truthful_answering: "truthful (answering ns) ps \<longleftrightarrow> (\<forall>p\<in>ps. c_pid p \<in> set ns)"
  by (auto simp: truthful_def answering_def split: option.split)

lemma judged_answering: "stamp_ok p \<Longrightarrow> c_start p = None \<Longrightarrow>
    claimerIsAlive (answering ns) (parseClaimSidecar (claimToken p)) \<longleftrightarrow> 0 < c_pid p \<and> c_pid p \<in> set ns"
  by (simp add: token_reads_back claimerIsAlive_def answering_def)

lemma no_claimer: "\<not> claimerIsAlive pt None"
  by (simp add: claimerIsAlive_def)

lemma events_then:
  "events aging hasty evs s = Some s' \<Longrightarrow> events aging hasty evs' s' = Some s''
    \<Longrightarrow> events aging hasty (evs @ evs') s = Some s''"
  by (simp add: events_append)

lemmas eval_rules = moves_def truthful_answering judged_answering move_def idle_choice_def begin_claim_def rename_marker_def
  covered_def run_choice_def owner_choice_def sweeping_def CLAIM_SIDECAR_SUFFIXES_def no_claimer token_tight

text \<open>A park is claimed while the runner that parked the job still sweeps the sidecars: it deletes the token of the
  new claim, and a third runner takes the job over from a claimer that is alive.\<close>

lemma park_claimed_too_soon:
  "\<exists>evs s. events False True evs waiting = Some s \<and> {rb, rc} \<subseteq> alive s \<and> works (at s rb) \<and> works (at s rc)"
proof -
  let ?pt = "answering [5, 6, 7]"
  let ?evs = "[Start ra, Start rb, Start rc]
    @ moves ra ?pt [BeginClaim Fresh, Next, Next, Next, ParkIt, Next]
    @ moves rb ?pt [BeginClaim Park, Next, Next, Next] @ moves ra ?pt [Next]
    @ moves rc ?pt [Look, Next, Next, Next, Next, Next]"
  have "\<exists>s. events False True ?evs waiting = Some s \<and> {rb, rc} \<subseteq> alive s \<and> works (at s rb) \<and> works (at s rc)"
    by (simp add: waiting_def eval_rules) (simp add: works_def)
  then show ?thesis by blast
qed

text \<open>A runner that claimed the job, and one that died over it.\<close>

definition claimed :: system where
  "claimed = the (events False False (Start ra # moves ra (answering [5]) [BeginClaim Fresh, Next, Next, Next]) waiting)"

lemma claimed_run:
  "events False False (Start ra # moves ra (answering [5]) [BeginClaim Fresh, Next, Next, Next]) waiting = Some claimed"
  "ra \<in> alive claimed" "at claimed ra = Run" "marker (job claimed) = Processing" "alive claimed = {ra}" "born claimed = {ra}"
  "pid_file (job claimed) = Some (claimToken ra)" "at claimed rb = Idle" "at claimed rc = Idle"
  by (simp_all add: claimed_def waiting_def eval_rules)

text \<open>A run that ended leaves its sidecars to be swept even when its marker was not there to be retired. A runner
  that had judged an earlier claimer dead takes the lock at that moment, finds no token, and puts a job that
  was done back into the queue.\<close>

lemma done_job_queued_again:
  "\<exists>evs s0 evs' s. events False False evs claimed = Some s0 \<and> rb \<in> alive s0 \<and> at s0 rb = Ending Done
     \<and> events False False evs' s0 = Some s \<and> marker (job s) = Queued"
proof -
  let ?pt = "answering [6, 7]"
  let ?evs1 = "Go ra (answering [5]) False Fine (Dispatch []) # Die ra # Start rb # Start rc # moves rc ?pt [Look, Next]"
  let ?evs2 = "moves rb ?pt [Look, Next, Next, Next, Next, Next, Resume, End Done]"
  let ?evs3 = "moves rc ?pt [Next] @ moves rb ?pt [Next, Next]"
  let ?evs4 = "moves rc ?pt [Next, Next, Next, Return, Next]"
  let ?evs5 = "moves rc ?pt [Next]"
  let ?evs6 = "moves rc ?pt [Next, Next, Next, Next, Next]"
  obtain s1 where s1: "events False False ?evs1 claimed = Some s1" "alive s1 = {rb, rc}" "at s1 rb = Idle" "at s1 rc = Judged"
      "marker (job s1) = Processing" "pid_file (job s1) = Some (claimToken ra)" "meta_file (job s1) = Some []"
    by (simp add: claimed_run eval_rules insert_commute)
  obtain s2 where s2: "events False False ?evs2 s1 = Some s2" "alive s2 = {rb, rc}" "at s2 rb = Ending Done" "at s2 rc = Judged"
      "marker (job s2) = Processing" "pid_file (job s2) = Some (claimToken rb)"
    by (simp add: s1 eval_rules insert_commute)
  obtain s3 where s3: "events False False ?evs3 s2 = Some s3" "alive s3 = {rb, rc}" "at s3 rc = Taken"
      "marker (job s3) = Locked (claimToken rc)" "pid_file (job s3) = None"
    by (simp add: s2 eval_rules)
  obtain s4 where s4: "events False False ?evs4 s3 = Some s4" "alive s4 = {rb, rc}" "at s4 rc = RetRead ToQueue"
      "marker (job s4) = Locked (claimToken rc)" "pid_file (job s4) = Some (claimToken rc)"
    by (simp add: s3 eval_rules insert_commute)
  obtain s5 where s5: "events False False ?evs5 s4 = Some s5" "alive s5 = {rb, rc}"
      "at s5 rc = RetSweep ToQueue CLAIM_SIDECAR_SUFFIXES" "marker (job s5) = Locked (claimToken rc)"
    by (simp add: s4 moves_def truthful_answering move_def token_tight)
  obtain s6 where s6: "events False False ?evs6 s5 = Some s6" "marker (job s6) = Queued"
    by (simp add: s5 eval_rules insert_commute)
  have "events False False (?evs1 @ ?evs2) claimed = Some s2" using s1(1) s2(1) by (rule events_then)
  moreover have "events False False (?evs3 @ ?evs4 @ ?evs5 @ ?evs6) s2 = Some s6"
    using s3(1) events_then[OF s4(1) events_then[OF s5(1) s6(1)]] by (rule events_then)
  ultimately show ?thesis using s2(2,3) s6(2) by blast
qed

lemma one_runner_works_witness:
  "reach False False claimed \<and> pid_file (job claimed) = Some (claimToken ra) \<and> {q \<in> alive claimed. works (at claimed q)} = {ra}"
proof -
  have "reach False False claimed" using reach_events[OF waiting_reached claimed_run(1)] .
  then show ?thesis
    using one_runner_works[OF _ claimed_run(2)] claimed_run(3) by (simp add: works_def)
qed


end
