(* ===== verification/Slots.thy ===== *)
theory Slots
  imports ClaimLiveness
begin

text \<open>The counting lock that caps how many runs execute at once (\<open>driver/slot-lock.mjs\<close>): slot files that name
  their holder, the census that counts the live ones and reclaims the dead ones under a mutex file, the grant
  and the release.

  A directory is two maps from the index of a slot, to its \<open>.lock\<close> file and to the \<open>.reclaim\<close> mutex beside it.
  First the operations as one process performs them undisturbed, then every process going on by one file
  operation at a time. An exclusive create is two operations, for the file exists before its content is
  written. Nonces are given; the process table is a parameter, as for claims. A pid of a file is read where the
  text is plain digits, as these functions write it.\<close>

section \<open>Slot files\<close>

record slot_dir =
  slots :: "nat \<Rightarrow> jstr option"
  mutexes :: "nat \<Rightarrow> jstr option"

text \<open>One acquisition. A caller of \<open>freeSlots\<close> passes through the same census and takes nothing: its cap is 0.\<close>

record acquirer =
  a_pid :: nat
  a_nonce :: jstr
  a_tag :: "jstr option"
  a_cap :: nat

definition slot_token :: "acquirer \<Rightarrow> jstr" where
  "slot_token p = int_text (int (a_pid p)) @ 58 # a_nonce p
     @ (case a_tag p of None \<Rightarrow> [] | Some t \<Rightarrow> if t = [] then [] else 58 # t)"

definition after_colon :: "jstr \<Rightarrow> jstr" where
  "after_colon raw = drop 1 (dropWhile (\<lambda>c. c \<noteq> 58) raw)"

definition pidOf :: "jstr \<Rightarrow> nat" where
  "pidOf raw = (let f = takeWhile (\<lambda>c. c \<noteq> 58) raw in if list_all is_digit f then number_of f else 0)"

definition tagOf :: "jstr \<Rightarrow> jstr option" where
  "tagOf raw = nonempty (after_colon (after_colon raw))"

text \<open>Signal 0 to pid 0 goes to the caller's own group and succeeds: \<open>kill pt 0\<close> answers.\<close>

definition pidAlive :: "process_table \<Rightarrow> nat \<Rightarrow> bool" where
  "pidAlive pt pid \<longleftrightarrow> kill pt pid \<noteq> NoSuch"

definition carries :: "jstr option \<Rightarrow> jstr \<Rightarrow> bool" where
  "carries tag raw \<longleftrightarrow> (case tag of None \<Rightarrow> False | Some t \<Rightarrow> t \<noteq> [] \<and> tagOf raw = Some t)"

section \<open>One process, undisturbed\<close>

definition tryReclaim :: "process_table \<Rightarrow> nat \<Rightarrow> slot_dir \<Rightarrow> slot_dir" where
  "tryReclaim pt i d =
     (case mutexes d i of
        Some m \<Rightarrow> if pidAlive pt (pidOf m) then d else d\<lparr> mutexes := (mutexes d)(i := None) \<rparr>
      | None \<Rightarrow>
          (case slots d i of
             Some raw \<Rightarrow> if pidAlive pt (pidOf raw) then d else d\<lparr> slots := (slots d)(i := None) \<rparr>
           | None \<Rightarrow> d))"

fun census :: "process_table \<Rightarrow> jstr option \<Rightarrow> nat list \<Rightarrow> nat \<Rightarrow> bool \<Rightarrow> slot_dir \<Rightarrow> nat \<times> bool \<times> slot_dir" where
  "census pt tag [] live held d = (live, held, d)"
| "census pt tag (n # ns) live held d =
     (case slots d n of
        None \<Rightarrow> census pt tag ns live held d
      | Some raw \<Rightarrow>
          if pidAlive pt (pidOf raw) then census pt tag ns (Suc live) (held \<or> carries tag raw) d
          else census pt tag ns live held (tryReclaim pt n d))"

text \<open>A cap is an integer or not one.\<close>

datatype slot_error = BadCap

definition freeSlots :: "process_table \<Rightarrow> int option \<Rightarrow> nat list \<Rightarrow> slot_dir \<Rightarrow> slot_error + int \<times> slot_dir" where
  "freeSlots pt cap names d =
     (case cap of
        None \<Rightarrow> Inl BadCap
      | Some c \<Rightarrow>
          if c < 1 then Inl BadCap
          else let (live, held, d') = census pt None names 0 False d in Inr (max 0 (c - int live), d'))"

text \<open>The loop over the indices below the cap: the first that can be created.\<close>

fun first_free :: "slot_dir \<Rightarrow> nat list \<Rightarrow> nat option" where
  "first_free d [] = None"
| "first_free d (i # is) = (if slots d i = None then Some i else first_free d is)"

text \<open>One pass of \<open>acquireSlot\<close>: the slot granted, or none and the caller waits for the next poll.\<close>

definition acquire_pass :: "process_table \<Rightarrow> acquirer \<Rightarrow> nat list \<Rightarrow> slot_dir \<Rightarrow> nat option \<times> slot_dir" where
  "acquire_pass pt p names d =
     (let (live, held, d') = census pt (a_tag p) names 0 False d in
      if live < a_cap p \<and> \<not> held then
        (case first_free d' [0..<a_cap p] of
           Some i \<Rightarrow> (Some i, d'\<lparr> slots := (slots d')(i \<mapsto> slot_token p) \<rparr>)
         | None \<Rightarrow> (None, d'))
      else (None, d'))"

definition acquireSlot_refuses :: "int option \<Rightarrow> bool" where
  "acquireSlot_refuses cap \<longleftrightarrow> (case cap of None \<Rightarrow> True | Some c \<Rightarrow> c < 1)"

definition releaseSlot :: "acquirer \<Rightarrow> nat \<Rightarrow> slot_dir \<Rightarrow> slot_dir" where
  "releaseSlot p i d = (if slots d i = Some (slot_token p) then d\<lparr> slots := (slots d)(i := None) \<rparr> else d)"

section \<open>Processes that interleave\<close>

text \<open>What a census has found so far: the files left to read, the live ones, and whether the tag is held.\<close>

record tally_so_far =
  names_left :: "nat list"
  live_seen :: nat
  tag_held :: bool

datatype place =
    Out
  | Pass tally_so_far
  | Reclaim nat tally_so_far
  | MutexNew nat tally_so_far | MutexHeld nat tally_so_far | MutexDead nat tally_so_far
  | MutexEnd nat "tally_so_far option"
  | MutexSeen nat tally_so_far | MutexStale nat tally_so_far
  | Grant nat | SlotNew nat | Holds nat | Leaving nat

datatype outcome = Good | Fails

text \<open>What a process does next where it is free to: begin a pass over a listing of the directory, in any order (none
  when the directory cannot be listed), or release.\<close>

datatype step_choice = Listing "nat list" | Release | Go_on

definition put_slot :: "nat \<Rightarrow> jstr option \<Rightarrow> slot_dir \<Rightarrow> slot_dir" where
  "put_slot i c d = d\<lparr> slots := (slots d)(i := c) \<rparr>"

definition put_mutex :: "nat \<Rightarrow> jstr option \<Rightarrow> slot_dir \<Rightarrow> slot_dir" where
  "put_mutex i c d = d\<lparr> mutexes := (mutexes d)(i := c) \<rparr>"

definition census_step :: "process_table \<Rightarrow> acquirer \<Rightarrow> outcome \<Rightarrow> tally_so_far \<Rightarrow> slot_dir \<Rightarrow> place" where
  "census_step pt p e c d =
     (case names_left c of
        [] \<Rightarrow> if live_seen c < a_cap p \<and> \<not> tag_held c then Grant 0 else Out
      | n # ns \<Rightarrow>
          (case (e, slots d n) of
             (Good, Some raw) \<Rightarrow>
               if pidAlive pt (pidOf raw)
               then Pass \<lparr> names_left = ns, live_seen = Suc (live_seen c), tag_held = tag_held c \<or> carries (a_tag p) raw \<rparr>
               else Reclaim n (c\<lparr> names_left := ns \<rparr>)
           | _ \<Rightarrow> Pass (c\<lparr> names_left := ns \<rparr>)))"

text \<open>\<open>tryReclaim\<close>. A write that fails after the create leaves the file empty, and the failure is thrown.\<close>

fun reclaim_step :: "process_table \<Rightarrow> acquirer \<Rightarrow> outcome \<Rightarrow> place \<Rightarrow> slot_dir \<Rightarrow> place \<times> slot_dir" where
  "reclaim_step pt p e (Reclaim i c) d =
     (if e = Fails then (Out, d)
      else if mutexes d i = None then (MutexNew i c, put_mutex i (Some []) d)
      else (MutexSeen i c, d))"
| "reclaim_step pt p e (MutexNew i c) d =
     (if e = Fails then (Out, d)
      else (MutexHeld i c, if mutexes d i = Some [] then put_mutex i (Some (slot_token p)) d else d))"
| "reclaim_step pt p e (MutexHeld i c) d =
     (case (e, slots d i) of
        (Good, Some raw) \<Rightarrow> if pidAlive pt (pidOf raw) then (MutexEnd i (Some c), d) else (MutexDead i c, d)
      | _ \<Rightarrow> (MutexEnd i (Some c), d))"
| "reclaim_step pt p e (MutexDead i c) d =
     (if e = Fails then (MutexEnd i None, d) else (MutexEnd i (Some c), put_slot i None d))"
| "reclaim_step pt p e (MutexEnd i c) d =
     (case c of Some c' \<Rightarrow> Pass c' | None \<Rightarrow> Out, if e = Fails then d else put_mutex i None d)"
| "reclaim_step pt p e (MutexSeen i c) d =
     (case (e, mutexes d i) of
        (Good, Some m) \<Rightarrow> if pidAlive pt (pidOf m) then (Pass c, d) else (MutexStale i c, d)
      | _ \<Rightarrow> (Pass c, d))"
| "reclaim_step pt p e (MutexStale i c) d = (Pass c, if e = Fails then d else put_mutex i None d)"
| "reclaim_step pt p e x d = (x, d)"

text \<open>The grant of \<open>acquireSlot\<close>, and \<open>releaseSlot\<close>.\<close>

fun grant_step :: "acquirer \<Rightarrow> outcome \<Rightarrow> place \<Rightarrow> slot_dir \<Rightarrow> place \<times> slot_dir" where
  "grant_step p e (Grant i) d =
     (if \<not> i < a_cap p then (Out, d)
      else if slots d i \<noteq> None then (Grant (Suc i), d)
      else if e = Fails then (Out, d)
      else (SlotNew i, put_slot i (Some []) d))"
| "grant_step p e (SlotNew i) d =
     (if e = Fails then (Out, d)
      else (Holds i, if slots d i = Some [] then put_slot i (Some (slot_token p)) d else d))"
| "grant_step p e (Holds i) d =
     (if e = Good \<and> slots d i = Some (slot_token p) then (Leaving i, d) else (Out, d))"
| "grant_step p e (Leaving i) d = (Out, if e = Fails then d else put_slot i None d)"
| "grant_step p e x d = (x, d)"

definition slot_step ::
  "process_table \<Rightarrow> outcome \<Rightarrow> step_choice \<Rightarrow> acquirer \<Rightarrow> place \<Rightarrow> slot_dir \<Rightarrow> place \<times> slot_dir" where
  "slot_step pt e ch p x d =
     (case x of
        Out \<Rightarrow> (case ch of Listing ns \<Rightarrow> (Pass \<lparr> names_left = ns, live_seen = 0, tag_held = False \<rparr>, d) | _ \<Rightarrow> (Out, d))
      | Pass c \<Rightarrow> (census_step pt p e c d, d)
      | Grant i \<Rightarrow> grant_step p e x d | SlotNew i \<Rightarrow> grant_step p e x d | Leaving i \<Rightarrow> grant_step p e x d
      | Holds i \<Rightarrow> (if ch = Release then grant_step p e x d else (x, d))
      | Reclaim i c \<Rightarrow> reclaim_step pt p e x d | MutexNew i c \<Rightarrow> reclaim_step pt p e x d
      | MutexHeld i c \<Rightarrow> reclaim_step pt p e x d | MutexDead i c \<Rightarrow> reclaim_step pt p e x d
      | MutexEnd i c' \<Rightarrow> reclaim_step pt p e x d
      | MutexSeen i c \<Rightarrow> reclaim_step pt p e x d | MutexStale i c \<Rightarrow> reclaim_step pt p e x d)"

record lot =
  dir :: slot_dir
  place_of :: "acquirer \<Rightarrow> place"
  up :: "acquirer set"
  ever :: "acquirer set"

text \<open>The process table answers for every process that is alive, and for pid 0.\<close>

definition tells :: "process_table \<Rightarrow> acquirer set \<Rightarrow> bool" where
  "tells pt ps \<longleftrightarrow> pidAlive pt 0 \<and> (\<forall>p\<in>ps. pidAlive pt (a_pid p))"

text \<open>The mutex a process stands in.\<close>

definition in_mutex :: "place \<Rightarrow> nat option" where
  "in_mutex x = (case x of
     MutexNew i c \<Rightarrow> Some i | MutexHeld i c \<Rightarrow> Some i | MutexDead i c \<Rightarrow> Some i | MutexEnd i c \<Rightarrow> Some i | _ \<Rightarrow> None)"

definition unlocking :: "place \<Rightarrow> bool" where
  "unlocking x = (case x of MutexNew i c \<Rightarrow> True | MutexEnd i c \<Rightarrow> True | _ \<Rightarrow> False)"

text \<open>Events: an acquisition begins in a process, a process dies with all of its acquisitions, or one of them goes
  on. A nonce is not used twice. \<open>calm\<close>: no process dies inside a reclaim mutex, and no mutex is left behind by
  a write or an unlink that fails.\<close>

datatype slot_event = Begin acquirer | Dies nat | Steps acquirer process_table outcome step_choice

fun may :: "bool \<Rightarrow> slot_event \<Rightarrow> lot \<Rightarrow> bool" where
  "may calm (Begin p) s \<longleftrightarrow> p \<notin> ever s \<and> 0 < a_pid p \<and> 58 \<notin> set (a_nonce p) \<and> (\<forall>q\<in>ever s. a_nonce q \<noteq> a_nonce p)"
| "may calm (Dies n) s \<longleftrightarrow> calm \<longrightarrow> (\<forall>p\<in>up s. a_pid p = n \<longrightarrow> in_mutex (place_of s p) = None)"
| "may calm (Steps p pt e ch) s \<longleftrightarrow> p \<in> up s \<and> tells pt (up s)
     \<and> (calm \<and> unlocking (place_of s p) \<longrightarrow> e = Good)
     \<and> (\<forall>ns. ch = Listing ns \<longrightarrow> e = Fails \<and> ns = [] \<or> distinct ns \<and> set ns = dom (slots (dir s)))"

fun after :: "slot_event \<Rightarrow> lot \<Rightarrow> lot" where
  "after (Begin p) s = s\<lparr> place_of := (place_of s)(p := Out), up := insert p (up s), ever := insert p (ever s) \<rparr>"
| "after (Dies n) s = s\<lparr> up := up s - {p. a_pid p = n} \<rparr>"
| "after (Steps p pt e ch) s =
     (let (x, d) = slot_step pt e ch p (place_of s p) (dir s) in s\<lparr> dir := d, place_of := (place_of s)(p := x) \<rparr>)"

inductive arises :: "bool \<Rightarrow> lot \<Rightarrow> bool" for calm where
  empty_lot: "arises calm s" if "slots (dir s) = Map.empty" and "mutexes (dir s) = Map.empty" and "up s = {}" and "ever s = {}"
| goes_on: "arises calm (after ev s)" if "arises calm s" and "may calm ev s"

fun passes :: "bool \<Rightarrow> slot_event list \<Rightarrow> lot \<Rightarrow> lot option" where
  "passes calm [] s = Some s"
| "passes calm (ev # evs) s = (if may calm ev s then passes calm evs (after ev s) else None)"

lemma arises_passes: "arises calm s \<Longrightarrow> passes calm evs s = Some s' \<Longrightarrow> arises calm s'"
  by (induction evs arbitrary: s) (auto intro: arises.goes_on split: if_splits)

definition holding :: "place \<Rightarrow> nat option" where
  "holding x = (case x of Holds i \<Rightarrow> Some i | Leaving i \<Rightarrow> Some i | _ \<Rightarrow> None)"

end
