(* ===== verification/SlotsSpec.thy ===== *)
theory SlotsSpec
  imports Slots
begin

text \<open>What the slot lock guarantees: no slot has two holders, so no more runs hold one than the cap, as long as no
  process dies inside a reclaim mutex; the slots of the dead come free again; a census by small steps is the
  census of the code. And where it fails: a mutex left behind, a tag claimed twice, a slot file left empty.\<close>

section \<open>Tokens\<close>

lemma digits_no_colon: "list_all is_digit ds \<Longrightarrow> 58 \<notin> set ds"
  by (auto simp: list_all_iff is_digit_def)

lemma takeWhile_colon: "58 \<notin> set xs \<Longrightarrow> takeWhile (\<lambda>c. c \<noteq> 58) (xs @ 58 # ys) = xs"
  by (simp add: takeWhile_append)

lemma dropWhile_colon: "58 \<notin> set xs \<Longrightarrow> dropWhile (\<lambda>c. c \<noteq> 58) (xs @ 58 # ys) = 58 # ys"
  by (simp add: dropWhile_append)

lemma pidOf_Nil [simp]: "pidOf [] = 0"
  by (simp add: pidOf_def)

lemma token_nonempty [simp]: "slot_token p \<noteq> []"
  by (simp add: slot_token_def)

lemma pidOf_token [simp]: "pidOf (slot_token p) = a_pid p"
  using pid_text[of "a_pid p"] digits_no_colon by (simp add: pidOf_def slot_token_def takeWhile_colon Let_def)

lemma after_pid: "after_colon (slot_token p) =
    a_nonce p @ (case a_tag p of None \<Rightarrow> [] | Some t \<Rightarrow> if t = [] then [] else 58 # t)"
  using pid_text[of "a_pid p"] digits_no_colon by (simp add: after_colon_def slot_token_def dropWhile_colon)

lemma nonce_of_token: "58 \<notin> set (a_nonce p) \<Longrightarrow> takeWhile (\<lambda>c. c \<noteq> 58) (after_colon (slot_token p)) = a_nonce p"
  by (auto simp: after_pid takeWhile_colon split: option.split)

lemma tagOf_token: "58 \<notin> set (a_nonce p) \<Longrightarrow> tagOf (slot_token p) = (if a_tag p = Some [] then None else a_tag p)"
proof -
  assume n: "58 \<notin> set (a_nonce p)"
  then have "dropWhile (\<lambda>c. c \<noteq> 58) (a_nonce p) = []" by (auto simp: dropWhile_eq_Nil_conv)
  then show ?thesis
    using n unfolding tagOf_def after_pid
    by (auto simp: after_colon_def dropWhile_colon nonempty_def split: option.split)
qed

section \<open>The invariant\<close>

text \<open>The slot file a process has to itself, from the create to the unlink.\<close>

definition stands :: "place \<Rightarrow> nat option" where
  "stands x = (case x of SlotNew i \<Rightarrow> Some i | Holds i \<Rightarrow> Some i | Leaving i \<Rightarrow> Some i | _ \<Rightarrow> None)"

definition folk :: "lot \<Rightarrow> bool" where
  "folk s \<longleftrightarrow> up s \<subseteq> ever s \<and> (\<forall>p\<in>ever s. 0 < a_pid p \<and> 58 \<notin> set (a_nonce p))
     \<and> (\<forall>p\<in>ever s. \<forall>q\<in>ever s. a_nonce p = a_nonce q \<longrightarrow> p = q)"

text \<open>What the files hold for a process at its place.\<close>

definition file_ok :: "acquirer \<Rightarrow> place \<Rightarrow> slot_dir \<Rightarrow> bool" where
  "file_ok p x d \<longleftrightarrow> (\<forall>i. x = SlotNew i \<longrightarrow> slots d i = Some [])
     \<and> (\<forall>i. holding x = Some i \<longrightarrow> slots d i = Some (slot_token p))
     \<and> (\<forall>i. stands x = Some i \<longrightarrow> i < a_cap p)
     \<and> (\<forall>i c. x = MutexNew i c \<longrightarrow> mutexes d i = Some [])
     \<and> (\<forall>i. in_mutex x = Some i \<longrightarrow> mutexes d i \<noteq> None)
     \<and> (\<forall>i c. x \<noteq> MutexStale i c)
     \<and> (\<forall>i c. x = MutexDead i c \<longrightarrow> slots d i \<noteq> None)"

text \<open>What two processes may not do at once.\<close>

definition apart :: "place \<Rightarrow> place \<Rightarrow> bool" where
  "apart x y \<longleftrightarrow> (\<forall>i. \<not> (stands x = Some i \<and> stands y = Some i)) \<and> (\<forall>i. \<not> (in_mutex x = Some i \<and> in_mutex y = Some i))
     \<and> (\<forall>i c. x = MutexDead i c \<longrightarrow> stands y \<noteq> Some i) \<and> (\<forall>i c. y = MutexDead i c \<longrightarrow> stands x \<noteq> Some i)"

definition mutex_held :: "lot \<Rightarrow> bool" where
  "mutex_held s \<longleftrightarrow> (\<forall>i m. mutexes (dir s) i = Some m \<longrightarrow>
     (\<exists>p\<in>up s. in_mutex (place_of s p) = Some i \<and> (m = [] \<or> m = slot_token p)))"

definition sound :: "lot \<Rightarrow> bool" where
  "sound s \<longleftrightarrow> folk s \<and> (\<forall>p\<in>up s. file_ok p (place_of s p) (dir s))
     \<and> (\<forall>p\<in>up s. \<forall>q\<in>up s. p \<noteq> q \<longrightarrow> apart (place_of s p) (place_of s q)) \<and> mutex_held s"

lemmas place_defs = stands_def holding_def in_mutex_def

lemma place_simps [simp]:
  "stands Out = None" "stands (Pass c) = None" "stands (Reclaim i c) = None" "stands (MutexNew i c) = None"
  "stands (MutexHeld i c) = None" "stands (MutexDead i c) = None" "stands (MutexEnd i c') = None" "stands (MutexSeen i c) = None"
  "stands (MutexStale i c) = None" "stands (Grant i) = None" "stands (SlotNew i) = Some i" "stands (Holds i) = Some i"
  "stands (Leaving i) = Some i"
  "in_mutex Out = None" "in_mutex (Pass c) = None" "in_mutex (Reclaim i c) = None" "in_mutex (MutexNew i c) = Some i"
  "in_mutex (MutexHeld i c) = Some i" "in_mutex (MutexDead i c) = Some i" "in_mutex (MutexEnd i c') = Some i"
  "in_mutex (MutexSeen i c) = None" "in_mutex (MutexStale i c) = None" "in_mutex (Grant i) = None" "in_mutex (SlotNew i) = None"
  "in_mutex (Holds i) = None" "in_mutex (Leaving i) = None"
  "holding (Holds i) = Some i" "holding (Leaving i) = Some i" "holding (SlotNew i) = None"
  by (simp_all add: place_defs)

lemma holding_stands: "holding x = Some i \<longleftrightarrow> stands x = Some i \<and> x \<noteq> SlotNew i"
  by (cases x) (simp_all add: place_defs)

lemma file_kept:
  assumes "file_ok q y d" and "\<And>i. stands y = Some i \<Longrightarrow> slots d' i = slots d i"
    and "\<And>i. in_mutex y = Some i \<Longrightarrow> mutexes d' i = mutexes d i" and "\<And>i c. y = MutexDead i c \<Longrightarrow> slots d' i \<noteq> None"
  shows "file_ok q y d'"
  using assms by (auto simp: file_ok_def holding_stands)

lemma apart_sym: "apart x y \<longleftrightarrow> apart y x"
  by (auto simp: apart_def)

lemma mutex_owner:
  "sound s \<Longrightarrow> mutexes (dir s) i = Some m \<Longrightarrow> \<exists>q\<in>up s. in_mutex (place_of s q) = Some i \<and> (m = [] \<or> m = slot_token q)"
  by (simp add: sound_def mutex_held_def)

lemma no_place [simp]: "file_ok q Out d" "apart Out y" "apart y Out"
  by (auto simp: file_ok_def apart_def holding_stands)

lemma sound_begin: "sound s \<Longrightarrow> may calm (Begin p) s \<Longrightarrow> sound (after (Begin p) s)"
proof -
  assume s: "sound s" and m: "may calm (Begin p) s"
  have new: "p \<notin> up s" using s m by (auto simp: sound_def folk_def)
  have "folk (after (Begin p) s)" using s m by (auto simp: sound_def folk_def)
  moreover have "mutex_held (after (Begin p) s)"
    unfolding mutex_held_def
  proof (intro allI impI)
    fix i m' assume "mutexes (dir (after (Begin p) s)) i = Some m'"
    then obtain q where "q \<in> up s" "in_mutex (place_of s q) = Some i" "m' = [] \<or> m' = slot_token q"
      using mutex_owner[OF s, of i m'] by auto
    then show "\<exists>q\<in>up (after (Begin p) s). in_mutex (place_of (after (Begin p) s) q) = Some i \<and> (m' = [] \<or> m' = slot_token q)"
      using new by (intro bexI[of _ q]) auto
  qed
  ultimately show ?thesis using s new by (auto simp: sound_def)
qed

lemma sound_dies: "sound s \<Longrightarrow> may True (Dies n) s \<Longrightarrow> sound (after (Dies n) s)"
proof -
  assume s: "sound s" and m: "may True (Dies n) s"
  have "folk (after (Dies n) s)" using s by (auto simp: sound_def folk_def)
  moreover have "mutex_held (after (Dies n) s)"
    using s m unfolding sound_def mutex_held_def by fastforce
  ultimately show ?thesis using s by (auto simp: sound_def)
qed

text \<open>A step keeps the invariant when the files fit its new place, and the others keep the files they rely on.\<close>

lemma sound_frame:
  assumes s: "sound s" and p: "p \<in> up s"
    and own: "file_ok p x d"
    and others: "\<And>q. q \<in> up s \<Longrightarrow> q \<noteq> p \<Longrightarrow> apart x (place_of s q) \<and> file_ok q (place_of s q) d"
    and mutex: "\<And>i m. mutexes d i = Some m \<Longrightarrow>
        (in_mutex x = Some i \<and> (m = [] \<or> m = slot_token p))
        \<or> (mutexes (dir s) i = Some m \<and> in_mutex (place_of s p) \<noteq> Some i)"
  shows "sound (s\<lparr> dir := d, place_of := (place_of s)(p := x) \<rparr>)" (is "sound ?s")
proof -
  have "folk ?s" using s by (simp add: sound_def folk_def)
  moreover have "apart (place_of ?s q) (place_of ?s r)" if "q \<in> up s" "r \<in> up s" "q \<noteq> r" for q r
    using that others[of q] others[of r] s apart_sym by (auto simp: sound_def)
  moreover have "mutex_held ?s"
    unfolding mutex_held_def
  proof (intro allI impI)
    fix i m assume "mutexes (dir ?s) i = Some m"
    then consider "in_mutex x = Some i" "m = [] \<or> m = slot_token p"
      | "mutexes (dir s) i = Some m" "in_mutex (place_of s p) \<noteq> Some i" using mutex by fastforce
    then show "\<exists>q\<in>up ?s. in_mutex (place_of ?s q) = Some i \<and> (m = [] \<or> m = slot_token q)"
    proof cases
      case 1
      then show ?thesis using p by auto
    next
      case 2
      then obtain q where "q \<in> up s" "in_mutex (place_of s q) = Some i" "m = [] \<or> m = slot_token q"
        using mutex_owner[OF s] by blast
      then show ?thesis using 2 by (intro bexI[of _ q]) auto
    qed
  qed
  ultimately show ?thesis using s own others by (auto simp: sound_def)
qed

lemma sound_facts:
  assumes "sound s" and "p \<in> up s"
  shows "file_ok p (place_of s p) (dir s)" "q \<in> up s \<Longrightarrow> q \<noteq> p \<Longrightarrow> apart (place_of s p) (place_of s q)"
    "q \<in> up s \<Longrightarrow> slot_token q = slot_token p \<Longrightarrow> q = p"
proof -
  show "file_ok p (place_of s p) (dir s)" "q \<in> up s \<Longrightarrow> q \<noteq> p \<Longrightarrow> apart (place_of s p) (place_of s q)"
    using assms by (auto simp: sound_def)
  assume q: "q \<in> up s" and eq: "slot_token q = slot_token p"
  have "folk s" "p \<in> ever s" "q \<in> ever s" using assms q by (auto simp: sound_def folk_def)
  moreover from this have "a_nonce q = a_nonce p" using eq nonce_of_token unfolding folk_def by metis
  ultimately show "q = p" unfolding folk_def by blast
qed

text \<open>Steps that change no file and stand nowhere.\<close>

lemma sound_quiet:
  assumes "sound s" and "p \<in> up s" and "in_mutex x = in_mutex (place_of s p)"
    and "stands x = None" and "\<And>i c. x \<noteq> MutexDead i c" and "\<And>i c. x \<noteq> MutexStale i c" and "\<And>i c. x \<noteq> MutexNew i c"
  shows "sound (s\<lparr> place_of := (place_of s)(p := x) \<rparr>)"
proof -
  have "sound (s\<lparr> dir := dir s, place_of := (place_of s)(p := x) \<rparr>)"
  proof (rule sound_frame[OF assms(1,2)])
    show "file_ok p x (dir s)"
      using assms sound_facts(1)[OF assms(1,2)] by (auto simp: file_ok_def holding_stands)
    show "apart x (place_of s q) \<and> file_ok q (place_of s q) (dir s)" if "q \<in> up s" "q \<noteq> p" for q
      using that assms sound_facts(1)[OF assms(1), of q] sound_facts(2)[OF assms(1,2), of q] by (auto simp: apart_def)
    show "(in_mutex x = Some i \<and> (m = [] \<or> m = slot_token p))
        \<or> (mutexes (dir s) i = Some m \<and> in_mutex (place_of s p) \<noteq> Some i)" if mx: "mutexes (dir s) i = Some m" for i m
    proof (cases "in_mutex x = Some i")
      case True
      obtain q where "q \<in> up s" "in_mutex (place_of s q) = Some i" "m = [] \<or> m = slot_token q"
        using mutex_owner[OF assms(1) mx] by blast
      moreover from this have "q = p" using sound_facts(2)[OF assms(1,2), of q] True assms(3) by (auto simp: apart_def)
      ultimately show ?thesis using True by simp
    qed (use mx assms(3) in auto)
  qed
  then show ?thesis by simp
qed

lemma sound_census:
  "sound s \<Longrightarrow> p \<in> up s \<Longrightarrow> place_of s p = Pass c \<Longrightarrow> sound (s\<lparr> place_of := (place_of s)(p := census_step pt p e c d) \<rparr>)"
  by (rule sound_quiet) (auto simp: census_step_def split: list.split outcome.split option.split)

lemma sound_reclaim:
  assumes s: "sound s" and p: "p \<in> up s" and t: "tells pt (up s)" and e: "unlocking (place_of s p) \<longrightarrow> e = Good"
    and m: "reclaim_step pt p e (place_of s p) (dir s) = (x, d)"
    and at: "place_of s p = Reclaim i c \<or> place_of s p = MutexNew i c \<or> place_of s p = MutexHeld i c
      \<or> place_of s p = MutexDead i c \<or> place_of s p = MutexSeen i c \<or> place_of s p = MutexStale i c \<or> place_of s p = MutexEnd i c'"
  shows "sound (s\<lparr> dir := d, place_of := (place_of s)(p := x) \<rparr>)"
proof -
  note ok = sound_facts(1)[OF s]
  have mx: "mutexes (dir s) j \<noteq> None" if "q \<in> up s" "in_mutex (place_of s q) = Some j" for q j
    using ok[OF that(1)] that(2) by (simp add: file_ok_def)
  have sl: "slots (dir s) j \<noteq> None" if "q \<in> up s" "place_of s q = MutexDead j c" for q j c
    using ok[OF that(1)] that(2) by (simp add: file_ok_def)
  have ap: "stands (place_of s p) = Some j \<Longrightarrow> stands (place_of s q) \<noteq> Some j" "in_mutex (place_of s p) = Some j \<Longrightarrow> in_mutex (place_of s q) \<noteq> Some j"
    "place_of s p = MutexDead j c \<Longrightarrow> stands (place_of s q) \<noteq> Some j" if "q \<in> up s" "q \<noteq> p" for q j c
    using sound_facts(2)[OF s p that] by (auto simp: apart_def)
  have quiet: "sound (s\<lparr> dir := dir s, place_of := (place_of s)(p := x) \<rparr>)"
    if "in_mutex x = in_mutex (place_of s p)"
      "stands x = None" "\<And>i c. x \<noteq> MutexDead i c" "\<And>i c. x \<noteq> MutexStale i c" "\<And>i c. x \<noteq> MutexNew i c"
    using sound_quiet[OF s p that] by simp
  show ?thesis
    using at
  proof (elim disjE)
    assume a: "place_of s p = Reclaim i c"
    show ?thesis
    proof (cases "e = Good \<and> mutexes (dir s) i = None")
      case True
      then have eq: "x = MutexNew i c" "d = put_mutex i (Some []) (dir s)" using m a by auto
      show ?thesis
      proof (rule sound_frame[OF s p])
        show "apart x (place_of s q) \<and> file_ok q (place_of s q) d" if q: "q \<in> up s" "q \<noteq> p" for q
          using mx[OF q(1)] sl[OF q(1)] True
          by (auto simp: eq apart_def put_mutex_def intro!: file_kept[OF ok[OF q(1)]])
      qed (use True a in \<open>auto simp: eq file_ok_def put_mutex_def holding_def split: if_splits\<close>)
    next
      case False
      then have "d = dir s" "x = Out \<or> x = MutexSeen i c" using m a by (cases e; auto split: if_splits)+
      then show ?thesis using quiet a by auto
    qed
  next
    assume a: "place_of s p = MutexNew i c"
    then have eq: "x = MutexHeld i c" "d = put_mutex i (Some (slot_token p)) (dir s)"
      using m e ok[OF p] by (auto simp: unlocking_def file_ok_def)
    show ?thesis
    proof (rule sound_frame[OF s p])
      show "apart x (place_of s q) \<and> file_ok q (place_of s q) d" if q: "q \<in> up s" "q \<noteq> p" for q
        using ap(2)[OF q] sl[OF q(1)] a
        by (auto simp: eq apart_def put_mutex_def intro!: file_kept[OF ok[OF q(1)]])
    qed (use a in \<open>auto simp: eq file_ok_def put_mutex_def holding_def split: if_splits\<close>)
  next
    assume a: "place_of s p = MutexHeld i c"
    show ?thesis
    proof (cases "x = MutexDead i c")
      case True
      then obtain raw where raw: "slots (dir s) i = Some raw" "\<not> pidAlive pt (pidOf raw)" "d = dir s"
        using m a by (auto split: outcome.splits option.splits if_splits)
      have free: "stands (place_of s q) \<noteq> Some i" if q: "q \<in> up s" for q
      proof
        assume "stands (place_of s q) = Some i"
        then have "raw = [] \<or> raw = slot_token q" using ok[OF q] raw(1) by (auto simp: file_ok_def holding_stands)
        then show False using raw(2) t q by (auto simp: tells_def)
      qed
      show ?thesis
      proof (rule sound_frame[OF s p])
        show "apart x (place_of s q) \<and> file_ok q (place_of s q) d" if q: "q \<in> up s" "q \<noteq> p" for q
          using ap(2)[OF q] free[OF q(1)] ok[OF q(1)] a by (auto simp: True apart_def raw(3))
        show "(in_mutex x = Some j \<and> (m' = [] \<or> m' = slot_token p))
            \<or> (mutexes (dir s) j = Some m' \<and> in_mutex (place_of s p) \<noteq> Some j)" if "mutexes d j = Some m'" for j m'
          using mutex_owner[OF s, of j m'] that ap(2) a by (auto simp: True raw(3))
      qed (use True raw mx[OF p] a in \<open>auto simp: file_ok_def holding_def\<close>)
    next
      case False
      then have "d = dir s" "x = MutexEnd i (Some c)" using m a by (auto split: outcome.splits option.splits if_splits)
      then show ?thesis using quiet a by auto
    qed
  next
    assume a: "place_of s p = MutexDead i c"
    show ?thesis
    proof (cases e)
      case Good
      then have eq: "x = MutexEnd i (Some c)" "d = put_slot i None (dir s)" using m a by auto
      show ?thesis
      proof (rule sound_frame[OF s p])
        show "apart x (place_of s q) \<and> file_ok q (place_of s q) d" if q: "q \<in> up s" "q \<noteq> p" for q
          using ap(2)[OF q] ap(3)[OF q a] sl[OF q(1)] a
          by (auto simp: eq apart_def put_slot_def intro!: file_kept[OF ok[OF q(1)]])
        show "(in_mutex x = Some j \<and> (m' = [] \<or> m' = slot_token p))
            \<or> (mutexes (dir s) j = Some m' \<and> in_mutex (place_of s p) \<noteq> Some j)" if "mutexes d j = Some m'" for j m'
          using mutex_owner[OF s, of j m'] that ap(2) a by (auto simp: eq put_slot_def)
      qed (use mx[OF p] a in \<open>auto simp: eq file_ok_def put_slot_def holding_def\<close>)
    next
      case Fails
      then have "d = dir s" "x = MutexEnd i None" using m a by auto
      then show ?thesis using quiet a by auto
    qed
  next
    assume a: "place_of s p = MutexSeen i c"
    have "x = Pass c" "d = dir s"
      using m a mutex_owner[OF s, of i] t by (auto simp: tells_def split: outcome.splits option.splits if_splits)
    then show ?thesis using quiet a by auto
  next
    assume "place_of s p = MutexStale i c"
    then show ?thesis using ok[OF p] by (auto simp: file_ok_def)
  next
    assume a: "place_of s p = MutexEnd i c'"
    then have eq: "d = put_mutex i None (dir s)" "x = Out \<or> (\<exists>c. x = Pass c)"
      using m e by (auto simp: unlocking_def split: option.splits)
    show ?thesis
    proof (rule sound_frame[OF s p])
      show "apart x (place_of s q) \<and> file_ok q (place_of s q) d" if q: "q \<in> up s" "q \<noteq> p" for q
        using ap(2)[OF q] sl[OF q(1)] a eq(2)
        by (auto simp: eq(1) apart_def put_mutex_def intro!: file_kept[OF ok[OF q(1)]])
    qed (use a eq(2) in \<open>auto simp: eq(1) file_ok_def put_mutex_def holding_def split: if_splits\<close>)
  qed
qed

lemma sound_grant:
  assumes s: "sound s" and p: "p \<in> up s"
    and m: "grant_step p e (place_of s p) (dir s) = (x, d)"
    and at: "place_of s p = Grant i \<or> place_of s p = SlotNew i \<or> place_of s p = Holds i \<or> place_of s p = Leaving i"
  shows "sound (s\<lparr> dir := d, place_of := (place_of s)(p := x) \<rparr>)"
proof -
  note ok = sound_facts(1)[OF s]
  have sl: "slots (dir s) j \<noteq> None" if "q \<in> up s" "stands (place_of s q) = Some j" for q j
    using ok[OF that(1)] that(2) by (cases "place_of s q") (auto simp: file_ok_def holding_def)
  have dead: "slots (dir s) j \<noteq> None" if "q \<in> up s" "place_of s q = MutexDead j c" for q j c
    using ok[OF that(1)] that(2) by (simp add: file_ok_def)
  have ap: "stands (place_of s p) = Some j \<Longrightarrow> stands (place_of s q) \<noteq> Some j"
    "stands (place_of s p) = Some j \<Longrightarrow> \<forall>c. place_of s q \<noteq> MutexDead j c" if "q \<in> up s" "q \<noteq> p" for q j
    using sound_facts(2)[OF s p that] by (auto simp: apart_def)
  have quiet: "sound (s\<lparr> dir := dir s, place_of := (place_of s)(p := x) \<rparr>)" if "x = Out \<or> (\<exists>j. x = Grant j)"
    using sound_quiet[OF s p, of x] that at by auto
  show ?thesis
    using at
  proof (elim disjE)
    assume a: "place_of s p = Grant i"
    show ?thesis
    proof (cases "x = SlotNew i")
      case True
      then have eq: "d = put_slot i (Some []) (dir s)" "slots (dir s) i = None" "i < a_cap p"
        using m a by (auto split: if_splits)
      show ?thesis
      proof (rule sound_frame[OF s p])
        show "apart x (place_of s q) \<and> file_ok q (place_of s q) d" if q: "q \<in> up s" "q \<noteq> p" for q
          using sl[OF q(1)] dead[OF q(1)] eq(2)
          by (auto simp: True eq(1) apart_def put_slot_def intro!: file_kept[OF ok[OF q(1)]])
      qed (use a eq in \<open>auto simp: True file_ok_def put_slot_def\<close>)
    next
      case False
      then have "d = dir s" "x = Out \<or> x = Grant (Suc i)" using m a by (auto split: if_splits)
      then show ?thesis using quiet by auto
    qed
  next
    assume a: "place_of s p = SlotNew i"
    show ?thesis
    proof (cases e)
      case Good
      then have eq: "x = Holds i" "d = put_slot i (Some (slot_token p)) (dir s)" using m a ok[OF p] by (auto simp: file_ok_def)
      show ?thesis
      proof (rule sound_frame[OF s p])
        show "apart x (place_of s q) \<and> file_ok q (place_of s q) d" if q: "q \<in> up s" "q \<noteq> p" for q
          using ap[OF q] dead[OF q(1)] a
          by (auto simp: eq apart_def put_slot_def intro!: file_kept[OF ok[OF q(1)]])
      qed (use a ok[OF p] in \<open>auto simp: eq file_ok_def put_slot_def\<close>)
    next
      case Fails
      then show ?thesis using quiet m a by auto
    qed
  next
    assume a: "place_of s p = Holds i"
    show ?thesis
    proof (cases "x = Leaving i")
      case True
      then have "d = dir s" using m a by (auto split: if_splits)
      then show ?thesis
        using True a ok[OF p] ok ap by (intro sound_frame[OF s p]) (auto simp: apart_def file_ok_def)
    next
      case False
      then show ?thesis using quiet m a by (auto split: if_splits)
    qed
  next
    assume a: "place_of s p = Leaving i"
    then have eq: "x = Out" "d = dir s \<or> d = put_slot i None (dir s)" using m by auto
    show ?thesis
    proof (rule sound_frame[OF s p])
      show "apart x (place_of s q) \<and> file_ok q (place_of s q) d" if q: "q \<in> up s" "q \<noteq> p" for q
        using ap[OF q] dead[OF q(1)] ok[OF q(1)] a eq
        by (auto simp: apart_def put_slot_def intro!: file_kept[OF ok[OF q(1)]])
    qed (use a eq in \<open>auto simp: put_slot_def\<close>)
  qed
qed

lemma sound_steps:
  assumes s: "sound s" and m: "may True (Steps p pt e ch) s"
  shows "sound (after (Steps p pt e ch) s)"
proof -
  have p: "p \<in> up s" and t: "tells pt (up s)" and e: "unlocking (place_of s p) \<longrightarrow> e = Good" using m by auto
  obtain x d where x: "slot_step pt e ch p (place_of s p) (dir s) = (x, d)" by fastforce
  have same: "sound s'" if "s' = s\<lparr> place_of := (place_of s)(p := place_of s p) \<rparr>" for s' using s that by simp
  have "sound (s\<lparr> dir := d, place_of := (place_of s)(p := x) \<rparr>)"
  proof (cases "place_of s p")
    case Out
    then have "d = dir s" "x = Out \<or> (\<exists>c. x = Pass c)" using x by (auto simp: slot_step_def split: step_choice.splits)
    then show ?thesis using sound_quiet[OF s p, of x] Out by auto
  next
    case (Pass c)
    then show ?thesis using sound_census[OF s p, of c] x by (auto simp: slot_step_def)
  next
    case (Holds i)
    show ?thesis
    proof (cases "ch = Release")
      case True
      then show ?thesis using sound_grant[OF s p, of e x d i] x Holds by (simp add: slot_step_def)
    next
      case False
      then show ?thesis using x Holds by (intro same) (simp add: slot_step_def)
    qed
  next
    case (Grant i)
    then show ?thesis using sound_grant[OF s p, of e x d i] x by (simp add: slot_step_def del: grant_step.simps)
  next
    case (SlotNew i)
    then show ?thesis using sound_grant[OF s p, of e x d i] x by (simp add: slot_step_def del: grant_step.simps)
  next
    case (Leaving i)
    then show ?thesis using sound_grant[OF s p, of e x d i] x by (simp add: slot_step_def del: grant_step.simps)
  next
    case (MutexEnd i c)
    then show ?thesis using sound_reclaim[OF s p t e, of x d] x by (simp add: slot_step_def del: reclaim_step.simps)
  qed (use sound_reclaim[OF s p t e, of x d] x in \<open>simp_all add: slot_step_def del: reclaim_step.simps\<close>)
  then show ?thesis using x by simp
qed

lemma arises_sound: "arises True s \<Longrightarrow> sound s"
proof (induction rule: arises.induct)
  case (empty_lot s)
  then show ?case by (simp add: sound_def folk_def mutex_held_def)
next
  case (goes_on s ev)
  then show ?case using sound_begin sound_dies sound_steps by (cases ev) blast+
qed

section \<open>Properties\<close>

text \<open>C8: The cap is kept. Every process that holds a slot has its own token in the file of that slot, no two hold
  the same slot, and if no acquisition asks for a cap above \<open>N\<close> at most \<open>N\<close> hold one, whatever the order of their
  file operations, wherever processes die and start again with a used pid, as long as none dies inside a
  reclaim mutex and no mutex is left behind by a failed write or unlink.\<close>

theorem cap_kept:
  assumes "arises True s" and "\<forall>p\<in>ever s. a_cap p \<le> N"
  shows "(\<forall>p\<in>up s. \<forall>i. holding (place_of s p) = Some i \<longrightarrow> slots (dir s) i = Some (slot_token p))
    \<and> inj_on (\<lambda>p. holding (place_of s p)) {p \<in> up s. holding (place_of s p) \<noteq> None}
    \<and> card {p \<in> up s. holding (place_of s p) \<noteq> None} \<le> N"
proof -
  note s = arises_sound[OF assms(1)]
  let ?H = "{p \<in> up s. holding (place_of s p) \<noteq> None}"
  have inj: "inj_on (\<lambda>p. holding (place_of s p)) ?H"
  proof (rule inj_onI, rule ccontr)
    fix p q assume p: "p \<in> ?H" and q: "q \<in> ?H" and h: "holding (place_of s p) = holding (place_of s q)" and ne: "p \<noteq> q"
    obtain i where "holding (place_of s p) = Some i" using p by auto
    then have "stands (place_of s p) = Some i" "stands (place_of s q) = Some i"
      using h holding_stands[of "place_of s p" i] holding_stands[of "place_of s q" i] by simp_all
    then show False using sound_facts(2)[OF s, of p q] p q ne by (auto simp: apart_def)
  qed
  have "(\<lambda>p. holding (place_of s p)) ` ?H \<subseteq> Some ` {..<N}"
  proof
    fix h assume "h \<in> (\<lambda>p. holding (place_of s p)) ` ?H"
    then obtain p i where p: "p \<in> up s" "holding (place_of s p) = Some i" "h = Some i" by auto
    then have "i < a_cap p" using sound_facts(1)[OF s p(1)] by (simp add: file_ok_def holding_stands)
    moreover have "p \<in> ever s" using s p(1) by (auto simp: sound_def folk_def)
    ultimately show "h \<in> Some ` {..<N}" using assms(2) p(3) by fastforce
  qed
  then have "card ?H \<le> card (Some ` {..<N})" using inj by (intro card_inj_on_le[of "\<lambda>p. holding (place_of s p)"]) auto
  also have "\<dots> = N" by (simp add: card_image)
  finally show ?thesis using inj sound_facts(1)[OF s] by (auto simp: file_ok_def)
qed

section \<open>The census\<close>

definition live_at :: "process_table \<Rightarrow> slot_dir \<Rightarrow> nat \<Rightarrow> bool" where
  "live_at pt d n \<longleftrightarrow> (\<exists>raw. slots d n = Some raw \<and> pidAlive pt (pidOf raw))"

definition dead_at :: "process_table \<Rightarrow> slot_dir \<Rightarrow> nat \<Rightarrow> bool" where
  "dead_at pt d n \<longleftrightarrow> (\<exists>raw. slots d n = Some raw \<and> \<not> pidAlive pt (pidOf raw))"

definition stale_mutex :: "process_table \<Rightarrow> slot_dir \<Rightarrow> nat \<Rightarrow> bool" where
  "stale_mutex pt d n \<longleftrightarrow> (\<exists>m. mutexes d n = Some m \<and> \<not> pidAlive pt (pidOf m))"

text \<open>What a census leaves behind of the files it lists.\<close>

definition reclaimed :: "process_table \<Rightarrow> nat list \<Rightarrow> slot_dir \<Rightarrow> slot_dir" where
  "reclaimed pt ns d =
     \<lparr> slots = (\<lambda>i. if i \<in> set ns \<and> dead_at pt d i \<and> mutexes d i = None then None else slots d i),
       mutexes = (\<lambda>i. if i \<in> set ns \<and> dead_at pt d i \<and> stale_mutex pt d i then None else mutexes d i) \<rparr>"

lemma census_exact:
  "distinct ns \<Longrightarrow> census pt tag ns live held d =
     (live + length (filter (live_at pt d) ns),
      held \<or> (\<exists>n\<in>set ns. \<exists>raw. slots d n = Some raw \<and> pidAlive pt (pidOf raw) \<and> carries tag raw),
      reclaimed pt ns d)"
proof (induction ns arbitrary: live held d)
  case Nil
  then show ?case by (simp add: reclaimed_def)
next
  case (Cons n ns)
  show ?case
  proof (cases "dead_at pt d n")
    case True
    then obtain raw where raw: "slots d n = Some raw" "\<not> pidAlive pt (pidOf raw)" by (auto simp: dead_at_def)
    let ?d = "tryReclaim pt n d"
    have other: "slots ?d i = slots d i" "mutexes ?d i = mutexes d i" if "i \<noteq> n" for i
      using that by (auto simp: tryReclaim_def split: option.split)
    have at_n: "slots ?d n = (if mutexes d n = None then None else slots d n)"
      "mutexes ?d n = (if stale_mutex pt d n then None else mutexes d n)"
      using raw by (auto simp: tryReclaim_def stale_mutex_def split: option.split)
    have re: "reclaimed pt ns ?d = reclaimed pt (n # ns) d"
    proof (rule slot_dir.equality)
      have "dead_at pt ?d i = dead_at pt d i" "stale_mutex pt ?d i = stale_mutex pt d i" if "i \<noteq> n" for i
        using other[OF that] by (simp_all add: dead_at_def stale_mutex_def)
      then have "slots (reclaimed pt ns ?d) i = slots (reclaimed pt (n # ns) d) i"
        "mutexes (reclaimed pt ns ?d) i = mutexes (reclaimed pt (n # ns) d) i" for i
        using other[of i] at_n Cons.prems True by (cases "i = n"; simp add: reclaimed_def)+
      then show "slots (reclaimed pt ns ?d) = slots (reclaimed pt (n # ns) d)"
        "mutexes (reclaimed pt ns ?d) = mutexes (reclaimed pt (n # ns) d)" by blast+
    qed simp
    have same: "slots ?d m = slots d m" if "m \<in> set ns" for m using other(1)[of m] that Cons.prems by auto
    have "filter (live_at pt ?d) ns = filter (live_at pt d) ns" "\<not> live_at pt d n"
      using same raw by (auto simp: live_at_def intro!: filter_cong)
    moreover have "(\<exists>m\<in>set ns. \<exists>raw. slots ?d m = Some raw \<and> pidAlive pt (pidOf raw) \<and> carries tag raw)
        \<longleftrightarrow> (\<exists>m\<in>set ns. \<exists>raw. slots d m = Some raw \<and> pidAlive pt (pidOf raw) \<and> carries tag raw)"
      using same by simp
    ultimately show ?thesis using Cons raw re by simp
  next
    case False
    then have re: "reclaimed pt (n # ns) d = reclaimed pt ns d" by (auto simp: reclaimed_def)
    show ?thesis
      using Cons False by (cases "slots d n") (auto simp: re live_at_def dead_at_def)
  qed
qed

text \<open>The number of free slots is the cap less the slot files whose process is alive, never below zero, and a cap
  that is no positive integer is refused; in passing, exactly the slot files of dead processes are removed whose
  mutex is free, and the mutexes of dead processes beside the others.\<close>

theorem freeSlots_exact:
  assumes "distinct ns" and "set ns = dom (slots d)"
  shows "freeSlots pt cap ns d =
    (case cap of
       Some c \<Rightarrow> if 1 \<le> c then Inr (max 0 (c - int (card {n. live_at pt d n})), reclaimed pt ns d) else Inl BadCap
     | None \<Rightarrow> Inl BadCap)"
proof -
  have "set (filter (live_at pt d) ns) = {n. live_at pt d n}" using assms(2) by (auto simp: live_at_def)
  then have "length (filter (live_at pt d) ns) = card {n. live_at pt d n}"
    using assms(1) by (metis distinct_card distinct_filter)
  then show ?thesis using assms(1) by (auto simp: freeSlots_def census_exact split: option.split)
qed

section \<open>The steps of one process make up the operations\<close>

lemma passes_append: "passes calm (xs @ ys) s = (case passes calm xs s of None \<Rightarrow> None | Some s' \<Rightarrow> passes calm ys s')"
  by (induction xs arbitrary: s) auto

definition on :: "acquirer \<Rightarrow> process_table \<Rightarrow> nat \<Rightarrow> slot_event list" where
  "on p pt k = replicate k (Steps p pt Good Go_on)"

lemma on_append: "on p pt (j + k) = on p pt j @ on p pt k"
  by (simp add: on_def replicate_add)

text \<open>A process at a new place, and the files it leaves.\<close>

definition moved :: "lot \<Rightarrow> acquirer \<Rightarrow> place \<Rightarrow> slot_dir \<Rightarrow> lot" where
  "moved s p x d = s\<lparr> dir := d, place_of := (place_of s)(p := x) \<rparr>"

lemma moved_simps [simp]:
  "dir (moved s p x d) = d" "place_of (moved s p x d) p = x" "up (moved s p x d) = up s" "ever (moved s p x d) = ever s"
  "moved (moved s p x d) p y d' = moved s p y d'"
  by (simp_all add: moved_def)

lemma moved_same [simp]: "place_of s p = x \<Longrightarrow> dir s = d \<Longrightarrow> moved s p x d = s"
  by (auto simp: moved_def fun_upd_idem intro!: lot.equality)

lemma on_0: "passes calm (on p pt 0) s = Some s"
  by (simp add: on_def)

lemma on_Suc:
  assumes "p \<in> up s" and "tells pt (up s)" and "slot_step pt Good Go_on p (place_of s p) (dir s) = (x, d)"
  shows "passes calm (on p pt (Suc k)) s = passes calm (on p pt k) (moved s p x d)"
  using assms by (simp add: on_def moved_def)

lemma on_step:
  "p \<in> up s \<Longrightarrow> tells pt (up s) \<Longrightarrow> passes calm (on p pt (Suc k)) s =
    passes calm (on p pt k)
      (moved s p (fst (slot_step pt Good Go_on p (place_of s p) (dir s))) (snd (slot_step pt Good Go_on p (place_of s p) (dir s))))"
  by (rule on_Suc) simp_all

lemma on_then:
  "passes calm (on p pt j) s = Some s' \<Longrightarrow> passes calm (on p pt k) s' = Some s'' \<Longrightarrow> passes calm (on p pt (j + k)) s = Some s''"
  by (simp add: on_append passes_append)

lemma put_back [simp]:
  "mutexes d i = None \<Longrightarrow> d\<lparr> mutexes := (mutexes d)(i := None) \<rparr> = d"
  "mutexes d i = None \<Longrightarrow> d\<lparr> slots := f, mutexes := (mutexes d)(i := None) \<rparr> = d\<lparr> slots := f \<rparr>"
  by (rule slot_dir.equality; auto)+

lemmas run_simps = numeral_eq_Suc on_0 on_step slot_step_def put_mutex_def put_slot_def

lemma reclaim_runs:
  assumes "p \<in> up s" and "tells pt (up s)" and "place_of s p = Reclaim i c"
    and "slots (dir s) i = Some raw" and "\<not> pidAlive pt (pidOf raw)"
  shows "\<exists>k. passes calm (on p pt k) s = Some (moved s p (Pass c) (tryReclaim pt i (dir s)))"
proof (cases "mutexes (dir s) i")
  case None
  have "passes calm (on p pt 5) s = Some (moved s p (Pass c) (tryReclaim pt i (dir s)))"
    using assms None by (simp add: run_simps tryReclaim_def)
  then show ?thesis by blast
next
  case (Some m)
  have "passes calm (on p pt (if pidAlive pt (pidOf m) then 2 else 3)) s = Some (moved s p (Pass c) (tryReclaim pt i (dir s)))"
    using assms Some by (simp add: run_simps tryReclaim_def)
  then show ?thesis by blast
qed

lemma census_runs:
  assumes "p \<in> up s" and "tells pt (up s)"
    and "place_of s p = Pass \<lparr> names_left = ns, live_seen = l, tag_held = h \<rparr>"
    and "census pt (a_tag p) ns l h (dir s) = (l', h', d')"
  shows "\<exists>k. passes calm (on p pt k) s = Some (moved s p (Pass \<lparr> names_left = [], live_seen = l', tag_held = h' \<rparr>) d')"
  using assms
proof (induction ns arbitrary: s l h)
  case Nil
  then show ?case using on_0[of calm p pt s] by (metis (no_types, lifting) census.simps(1) moved_same prod.inject)
next
  case (Cons n ns)
  note up = Cons.prems(1,2)
  have next_name: ?case
    if k: "passes calm (on p pt k) s = Some (moved s p (Pass \<lparr> names_left = ns, live_seen = l1, tag_held = h1 \<rparr>) d1)"
      and c: "census pt (a_tag p) ns l1 h1 d1 = (l', h', d')" for k l1 h1 d1
  proof -
    obtain j where "passes calm (on p pt j) (moved s p (Pass \<lparr> names_left = ns, live_seen = l1, tag_held = h1 \<rparr>) d1)
        = Some (moved s p (Pass \<lparr> names_left = [], live_seen = l', tag_held = h' \<rparr>) d')"
      using Cons.IH[of "moved s p (Pass \<lparr> names_left = ns, live_seen = l1, tag_held = h1 \<rparr>) d1" l1 h1] up c by auto
    then show ?thesis using on_then[OF k] by blast
  qed
  have one: "passes calm (on p pt 1) s
      = Some (moved s p (census_step pt p Good \<lparr> names_left = n # ns, live_seen = l, tag_held = h \<rparr> (dir s)) (dir s))"
    using Cons.prems by (simp add: run_simps)
  show ?case
  proof (cases "slots (dir s) n")
    case None
    then show ?thesis using next_name[of 1 l h "dir s"] one Cons.prems(4) by (simp add: census_step_def)
  next
    case (Some raw)
    show ?thesis
    proof (cases "pidAlive pt (pidOf raw)")
      case True
      then show ?thesis
        using next_name[of 1 "Suc l" "h \<or> carries (a_tag p) raw" "dir s"] one Some Cons.prems(4) by (simp add: census_step_def)
    next
      case False
      let ?c = "\<lparr> names_left = ns, live_seen = l, tag_held = h \<rparr>"
      have one': "passes calm (on p pt 1) s = Some (moved s p (Reclaim n ?c) (dir s))"
        using one Some False by (simp add: census_step_def)
      obtain k where "passes calm (on p pt k) (moved s p (Reclaim n ?c) (dir s)) = Some (moved s p (Pass ?c) (tryReclaim pt n (dir s)))"
        using reclaim_runs[of p "moved s p (Reclaim n ?c) (dir s)" pt n ?c raw calm] up Some False by auto
      from on_then[OF one' this] show ?thesis
        using next_name[of "1 + k" l h "tryReclaim pt n (dir s)"] Some False Cons.prems(4) by simp
    qed
  qed
qed

text \<open>Where a process is, and the files, after the loop of grants has found a slot or none.\<close>

definition granted :: "lot \<Rightarrow> acquirer \<Rightarrow> slot_dir \<Rightarrow> nat option \<Rightarrow> lot" where
  "granted s p d g = (case g of Some i \<Rightarrow> moved s p (Holds i) (put_slot i (Some (slot_token p)) d) | None \<Rightarrow> moved s p Out d)"

lemma grant_runs:
  assumes "p \<in> up s" and "tells pt (up s)" and "place_of s p = Grant i" and "i \<le> a_cap p"
  shows "\<exists>k. passes calm (on p pt k) s = Some (granted s p (dir s) (first_free (dir s) [i..<a_cap p]))"
  using assms
proof (induction "a_cap p - i" arbitrary: i s)
  case 0
  then have "passes calm (on p pt 1) s = Some (granted s p (dir s) None)" by (simp add: run_simps granted_def)
  moreover have "[i..<a_cap p] = []" using 0 by simp
  ultimately show ?case by auto
next
  case (Suc m)
  then have i: "i < a_cap p" "[i..<a_cap p] = i # [Suc i..<a_cap p]" by (auto simp: upt_conv_Cons)
  show ?case
  proof (cases "slots (dir s) i")
    case None
    have "passes calm (on p pt 2) s = Some (granted s p (dir s) (Some i))"
      using Suc.prems i None by (simp add: run_simps granted_def)
    then show ?thesis using i None by auto
  next
    case (Some raw)
    let ?s = "moved s p (Grant (Suc i)) (dir s)"
    have one: "passes calm (on p pt 1) s = Some ?s" using Suc.prems i Some by (simp add: run_simps)
    have "\<exists>k. passes calm (on p pt k) ?s = Some (granted ?s p (dir ?s) (first_free (dir ?s) [Suc i..<a_cap p]))"
      using Suc.prems Suc.hyps(2) i by (intro Suc.hyps(1)) auto
    then obtain k where "passes calm (on p pt k) ?s = Some (granted s p (dir s) (first_free (dir s) [Suc i..<a_cap p]))"
      by (auto simp: granted_def split: option.splits)
    from on_then[OF one this] show ?thesis using i Some by auto
  qed
qed

text \<open>The pass of \<open>acquireSlot\<close> is what its file operations come to: a process that begins a pass and is not
  disturbed ends it with the slot and the files that the undisturbed pass gives.\<close>

theorem pass_refines:
  assumes "p \<in> up s" and "tells pt (up s)" and "place_of s p = Out" and "distinct ns" and "set ns = dom (slots (dir s))"
  shows "\<exists>k. passes calm (Steps p pt Good (Listing ns) # on p pt k) s =
    Some (case acquire_pass pt p ns (dir s) of (g, d) \<Rightarrow> moved s p (case g of Some i \<Rightarrow> Holds i | None \<Rightarrow> Out) d)"
proof -
  obtain l h d where c: "census pt (a_tag p) ns 0 False (dir s) = (l, h, d)" by (metis prod_cases3)
  let ?c0 = "\<lparr> names_left = ns, live_seen = 0, tag_held = False \<rparr>"
  let ?c1 = "\<lparr> names_left = [], live_seen = l, tag_held = h \<rparr>"
  have start: "passes calm (Steps p pt Good (Listing ns) # evs) s = passes calm evs (moved s p (Pass ?c0) (dir s))" for evs
    using assms by (simp add: slot_step_def unlocking_def moved_def)
  obtain j where j: "passes calm (on p pt j) (moved s p (Pass ?c0) (dir s)) = Some (moved s p (Pass ?c1) d)"
    using census_runs[of p "moved s p (Pass ?c0) (dir s)" pt ns 0 False l h d calm] assms c by auto
  have turn: "passes calm (on p pt 1) (moved s p (Pass ?c1) d) = Some (moved s p (if l < a_cap p \<and> \<not> h then Grant 0 else Out) d)"
    using assms by (simp add: run_simps census_step_def)
  show ?thesis
  proof (cases "l < a_cap p \<and> \<not> h")
    case True
    then have turn': "passes calm (on p pt 1) (moved s p (Pass ?c1) d) = Some (moved s p (Grant 0) d)" using turn by simp
    obtain k where "passes calm (on p pt k) (moved s p (Grant 0) d) = Some (granted (moved s p (Grant 0) d) p d (first_free d [0..<a_cap p]))"
      using grant_runs[of p "moved s p (Grant 0) d" pt 0 calm] assms by auto
    from on_then[OF j on_then[OF turn' this]] show ?thesis
      unfolding start using c True by (auto simp: acquire_pass_def granted_def put_slot_def split: option.splits)
  next
    case False
    then have turn': "passes calm (on p pt 1) (moved s p (Pass ?c1) d) = Some (moved s p Out d)" using turn by auto
    from on_then[OF j turn'] show ?thesis
      unfolding start using c False by (auto simp: acquire_pass_def)
  qed
qed

section \<open>The slots of the dead\<close>

lemma slot_writes:
  "slot_step pt e ch p x d = (x', d') \<Longrightarrow> slots d' i = Some raw \<Longrightarrow> slots d i = Some raw \<or> raw = [] \<or> raw = slot_token p"
  "slot_step pt e ch p x d = (x', d') \<Longrightarrow> finite (dom (slots d)) \<Longrightarrow> finite (dom (slots d'))"
  by (cases x; auto simp: slot_step_def put_slot_def put_mutex_def split: step_choice.splits outcome.splits option.splits if_splits)+

text \<open>Every slot file is empty or names an acquisition there was.\<close>

definition traces :: "lot \<Rightarrow> bool" where
  "traces s \<longleftrightarrow> up s \<subseteq> ever s \<and> finite (dom (slots (dir s)))
     \<and> (\<forall>i raw. slots (dir s) i = Some raw \<longrightarrow> raw = [] \<or> (\<exists>q\<in>ever s. raw = slot_token q))"

lemma arises_traces: "arises calm s \<Longrightarrow> traces s"
proof (induction rule: arises.induct)
  case (empty_lot s)
  then show ?case by (simp add: traces_def)
next
  case (goes_on s ev)
  show ?case
  proof (cases ev)
    case (Begin p)
    then show ?thesis using goes_on.IH by (auto simp: traces_def)
  next
    case (Dies n)
    then show ?thesis using goes_on.IH by (auto simp: traces_def)
  next
    case (Steps p pt e ch)
    obtain x d where x: "slot_step pt e ch p (place_of s p) (dir s) = (x, d)" by fastforce
    have p: "p \<in> ever s" using goes_on Steps by (auto simp: traces_def)
    have tr: "up s \<subseteq> ever s" "finite (dom (slots (dir s)))"
      and named: "\<And>i raw. slots (dir s) i = Some raw \<Longrightarrow> raw = [] \<or> (\<exists>q\<in>ever s. raw = slot_token q)"
      using goes_on.IH unfolding traces_def by blast+
    have "raw = [] \<or> (\<exists>q\<in>ever s. raw = slot_token q)" if "slots d i = Some raw" for i raw
      using slot_writes(1)[OF x that] named[of i raw] p by blast
    moreover have "finite (dom (slots d))" using slot_writes(2)[OF x tr(2)] .
    ultimately show ?thesis using tr(1) Steps x by (simp add: traces_def)
  qed
qed

definition only :: "acquirer \<Rightarrow> process_table" where
  "only p = \<lparr> kill = (\<lambda>n. if n = 0 \<or> n = a_pid p then Answers else NoSuch), starttimeOf = (\<lambda>n. None) \<rparr>"

lemma only_alive [simp]: "pidAlive (only p) n \<longleftrightarrow> n = 0 \<or> n = a_pid p"
  by (simp add: only_def pidAlive_def)

text \<open>The slots of the dead come free. When every process has died, none of them inside a reclaim mutex or
  between the create and the write of a slot file, a process that starts afterwards takes a slot in one pass,
  whatever was held.\<close>

theorem dead_slots_free:
  assumes "arises True s" and "up s = {}" and "\<forall>i. slots (dir s) i \<noteq> Some []"
    and "may True (Begin p) s" and "\<forall>q\<in>ever s. a_pid q \<noteq> a_pid p" and "1 \<le> a_cap p"
  shows "\<exists>ns k s'. passes True (Begin p # Steps p (only p) Good (Listing ns) # on p (only p) k) s = Some s'
    \<and> place_of s' p = Holds 0 \<and> slots (dir s') = [0 \<mapsto> slot_token p]"
proof -
  have tr: "traces s" and so: "sound s" using assms(1) arises_traces arises_sound by blast+
  obtain ns where ns: "distinct ns" "set ns = dom (slots (dir s))"
    using tr finite_distinct_list by (metis traces_def)
  have mx: "mutexes (dir s) = Map.empty"
  proof
    fix i show "mutexes (dir s) i = None"
      using mutex_owner[OF so, of i] assms(2) by (cases "mutexes (dir s) i") auto
  qed
  have dead: "\<not> pidAlive (only p) (pidOf raw)" if raw: "slots (dir s) i = Some raw" for i raw
  proof -
    have "raw \<noteq> []" using assms(3) raw by auto
    then obtain q where q: "q \<in> ever s" "raw = slot_token q" using tr raw unfolding traces_def by blast
    moreover have "0 < a_pid q" using so q(1) by (simp add: sound_def folk_def)
    ultimately show ?thesis using assms(5) by auto
  qed
  have "live_at (only p) (dir s) i = False" "dead_at (only p) (dir s) i \<longleftrightarrow> i \<in> dom (slots (dir s))" for i
    using dead by (auto simp: live_at_def dead_at_def)
  then have re: "slots (reclaimed (only p) ns (dir s)) = Map.empty"
    and ce: "census (only p) (a_tag p) ns 0 False (dir s) = (0, False, reclaimed (only p) ns (dir s))"
    using ns mx dead by (auto simp: reclaimed_def census_exact fun_eq_iff)
  have "[0..<a_cap p] = 0 # [Suc 0..<a_cap p]" using assms(6) by (simp add: upt_conv_Cons)
  then have pass: "acquire_pass (only p) p ns (dir s)
      = (Some 0, (reclaimed (only p) ns (dir s))\<lparr> slots := [0 \<mapsto> slot_token p] \<rparr>)"
    using assms(6) re by (simp add: acquire_pass_def ce)
  let ?s = "after (Begin p) s"
  have "\<exists>k. passes True (Steps p (only p) Good (Listing ns) # on p (only p) k) ?s
    = Some (case acquire_pass (only p) p ns (dir ?s) of (g, d) \<Rightarrow> moved ?s p (case g of Some i \<Rightarrow> Holds i | None \<Rightarrow> Out) d)"
    using ns assms(2) by (intro pass_refines) (auto simp: tells_def)
  then obtain k where "passes True (Steps p (only p) Good (Listing ns) # on p (only p) k) ?s
      = Some (moved ?s p (Holds 0) ((reclaimed (only p) ns (dir s))\<lparr> slots := [0 \<mapsto> slot_token p] \<rparr>))"
    using pass by auto
  then have "passes True (Begin p # Steps p (only p) Good (Listing ns) # on p (only p) k) s
      = Some (moved ?s p (Holds 0) ((reclaimed (only p) ns (dir s))\<lparr> slots := [0 \<mapsto> slot_token p] \<rparr>))"
    using assms(4) unfolding passes.simps(2)[of True "Begin p"] by (simp only: if_True)
  then show ?thesis by (intro exI conjI) (assumption, simp_all)
qed

section \<open>Where it fails\<close>

text \<open>A process that died between the create and the write of its slot file, or whose write failed, leaves a file
  that names pid 0, which always answers: the slot is taken for ever.\<close>

definition pinned :: "nat \<Rightarrow> lot \<Rightarrow> bool" where
  "pinned i s \<longleftrightarrow> slots (dir s) i = Some []
     \<and> (\<forall>p\<in>up s. stands (place_of s p) \<noteq> Some i \<and> (\<forall>c. place_of s p \<noteq> MutexDead i c))"

lemma pinned_after: "pinned i s \<Longrightarrow> may calm ev s \<Longrightarrow> pinned i (after ev s)"
proof (cases ev)
  case (Steps p pt e ch)
  assume pin: "pinned i s" and m: "may calm ev s"
  have p: "p \<in> up s" "pidAlive pt 0" using m Steps by (auto simp: tells_def)
  obtain x d where x: "slot_step pt e ch p (place_of s p) (dir s) = (x, d)" by fastforce
  have "slots d i = Some [] \<and> stands x \<noteq> Some i \<and> (\<forall>c. x \<noteq> MutexDead i c)"
    using pin p x unfolding pinned_def
    by (cases "place_of s p")
       (auto simp: slot_step_def census_step_def put_slot_def put_mutex_def
          split: step_choice.splits outcome.splits option.splits if_splits list.splits)
  then show ?thesis using pin Steps x by (auto simp: pinned_def)
qed (auto simp: pinned_def)

lemma empty_slot_pinned: "pinned i s \<Longrightarrow> passes calm evs s = Some s' \<Longrightarrow> pinned i s'"
  by (induction evs arbitrary: s) (auto simp del: may.simps after.simps intro: pinned_after split: if_splits)

text \<open>Acquisitions of four processes, and a process table in which the pids listed answer.\<close>

definition taker :: "nat \<Rightarrow> acquirer" where
  "taker n = \<lparr> a_pid = n, a_nonce = [n + 100], a_tag = None, a_cap = 1 \<rparr>"

definition answers :: "nat list \<Rightarrow> process_table" where
  "answers ns = \<lparr> kill = (\<lambda>n. if n = 0 \<or> n \<in> set ns then Answers else NoSuch), starttimeOf = (\<lambda>n. None) \<rparr>"

definition nobody :: lot where
  "nobody = \<lparr> dir = \<lparr> slots = Map.empty, mutexes = Map.empty \<rparr>, place_of = (\<lambda>p. Out), up = {}, ever = {} \<rparr>"

lemma answers_alive [simp]: "pidAlive (answers ns) n \<longleftrightarrow> n = 0 \<or> n \<in> set ns"
  by (simp add: answers_def pidAlive_def)

lemma taker_simps [simp]:
  "a_pid (taker n) = n" "a_cap (taker n) = 1" "a_tag (taker n) = None" "a_nonce (taker n) = [n + 100]"
  "taker n = taker m \<longleftrightarrow> n = m"
  by (auto simp: taker_def)

lemma nobody_arises: "arises calm nobody"
  by (rule arises.empty_lot) (simp_all add: nobody_def)

definition does :: "nat \<Rightarrow> process_table \<Rightarrow> step_choice list \<Rightarrow> slot_event list" where
  "does n pt = map (Steps (taker n) pt Good)"

lemmas lot_rules = does_def tells_def unlocking_def slot_step_def census_step_def put_slot_def put_mutex_def carries_def

text \<open>A reclaimer dies inside the mutex. Two others find its mutex and judge it dead; the second to clear it clears
  the mutex the first has taken since, both reclaim the dead slot under it, and the second unlinks the slot the
  first was granted: two runs under a cap of one.\<close>

lemma slot_stolen:
  "\<exists>evs s. passes False evs nobody = Some s \<and> {taker 3, taker 4} \<subseteq> up s
     \<and> place_of s (taker 3) = Holds 0 \<and> place_of s (taker 4) = Holds 0"
proof -
  let ?a = "answers [1, 2, 3, 4]" and ?b = "answers [2, 3, 4]" and ?c = "answers [3, 4]"
  let ?evs1 = "Begin (taker 1) # Begin (taker 2) # Begin (taker 3) # Begin (taker 4) # does 1 ?a [Listing [], Go_on, Go_on, Go_on]"
  let ?evs2 = "Dies 1 # does 2 ?b [Listing [0], Go_on, Go_on, Go_on] @ [Dies 2]"
  let ?evs3 = "does 3 ?c [Listing [0], Go_on, Go_on, Go_on] @ does 4 ?c [Listing [0], Go_on, Go_on, Go_on]"
  let ?evs4 = "does 3 ?c [Go_on, Go_on, Go_on, Go_on, Listing [0], Go_on, Go_on, Go_on, Go_on]"
  let ?evs5 = "does 4 ?c [Go_on, Go_on, Go_on, Go_on, Listing [0], Go_on, Go_on, Go_on, Go_on]"
  let ?evs6 = "does 3 ?c [Go_on, Go_on, Go_on, Go_on, Go_on] @ does 4 ?c [Go_on, Go_on, Go_on, Go_on, Go_on]"
  have "\<exists>s. passes False (?evs1 @ ?evs2 @ ?evs3 @ ?evs4 @ ?evs5 @ ?evs6) nobody = Some s \<and> {taker 3, taker 4} \<subseteq> up s
     \<and> place_of s (taker 3) = Holds 0 \<and> place_of s (taker 4) = Holds 0"
    by (simp add: nobody_def lot_rules insert_Diff_if)
  then show ?thesis by blast
qed

text \<open>A tag may be held once. Two acquisitions of one tag that take their census before either is granted hold it
  twice.\<close>

definition tagged :: "nat \<Rightarrow> acquirer" where
  "tagged n = (taker n)\<lparr> a_tag := Some [65], a_cap := 2 \<rparr>"

lemma same_tag_twice:
  "\<exists>evs s. passes True evs nobody = Some s \<and> {tagged 1, tagged 2} \<subseteq> up s
     \<and> place_of s (tagged 1) = Holds 0 \<and> place_of s (tagged 2) = Holds 1"
proof -
  have t: "a_pid (tagged n) = n" "a_cap (tagged n) = 2" "a_nonce (tagged n) = [n + 100]" "tagged n = tagged m \<longleftrightarrow> n = m" for n m
    by (auto simp: tagged_def taker_def)
  let ?do = "\<lambda>n. map (Steps (tagged n) (answers [1, 2]) Good)"
  have "\<exists>s. passes True (Begin (tagged 1) # Begin (tagged 2) # ?do 1 [Listing [], Go_on] @ ?do 2 [Listing [], Go_on]
      @ ?do 1 [Go_on, Go_on] @ ?do 2 [Go_on, Go_on, Go_on]) nobody = Some s \<and> {tagged 1, tagged 2} \<subseteq> up s
     \<and> place_of s (tagged 1) = Holds 0 \<and> place_of s (tagged 2) = Holds 1"
    by (simp add: nobody_def lot_rules t)
  then show ?thesis by blast
qed

section \<open>Witnesses\<close>

definition one_holds :: lot where
  "one_holds = \<lparr> dir = \<lparr> slots = [0 \<mapsto> slot_token (taker 1)], mutexes = Map.empty \<rparr>,
     place_of = (\<lambda>p. Out)(taker 1 := Holds 0), up = {taker 1}, ever = {taker 1} \<rparr>"

lemma one_holds_run: "passes True (Begin (taker 1) # does 1 (answers [1]) [Listing [], Go_on, Go_on, Go_on]) nobody = Some one_holds"
  by (simp add: nobody_def one_holds_def lot_rules)

lemma one_holds_arises: "arises True one_holds"
  using arises_passes[OF nobody_arises one_holds_run] .

lemma cap_kept_witness:
  "slots (dir one_holds) 0 = Some (slot_token (taker 1)) \<and> card {p \<in> up one_holds. holding (place_of one_holds p) \<noteq> None} \<le> 1"
proof -
  have "\<forall>p\<in>ever one_holds. a_cap p \<le> 1" by (simp add: one_holds_def)
  from cap_kept[OF one_holds_arises this] show ?thesis by (simp add: one_holds_def)
qed

lemma freeSlots_exact_witness:
  "freeSlots (answers [1]) (Some 2) [2, 0] \<lparr> slots = [0 \<mapsto> slot_token (taker 1), 2 \<mapsto> slot_token (taker 2)], mutexes = Map.empty \<rparr>
    = Inr (1, \<lparr> slots = [0 \<mapsto> slot_token (taker 1)], mutexes = Map.empty \<rparr>)"
proof -
  let ?d = "\<lparr> slots = [0 \<mapsto> slot_token (taker 1), 2 \<mapsto> slot_token (taker 2)], mutexes = Map.empty \<rparr>"
  have d: "distinct [2, 0::nat]" "set [2, 0] = dom (slots ?d)" by auto
  have "{n. live_at (answers [1]) ?d n} = {0}" by (auto simp: live_at_def split: if_splits)
  moreover have "reclaimed (answers [1]) [2, 0] ?d = \<lparr> slots = [0 \<mapsto> slot_token (taker 1)], mutexes = Map.empty \<rparr>"
    by (auto simp: reclaimed_def dead_at_def stale_mutex_def fun_eq_iff)
  ultimately show ?thesis using freeSlots_exact[OF d, of "answers [1]" "Some 2"] by simp
qed

lemma pass_refines_witness:
  "\<exists>k s. passes True (Steps (taker 2) (answers [1, 2]) Good (Listing [0]) # on (taker 2) (answers [1, 2]) k)
     (after (Begin (taker 2)) one_holds) = Some s \<and> place_of s (taker 2) = Out \<and> dir s = dir one_holds"
proof -
  let ?s = "after (Begin (taker 2)) one_holds"
  have "\<exists>k. passes True (Steps (taker 2) (answers [1, 2]) Good (Listing [0]) # on (taker 2) (answers [1, 2]) k) ?s
    = Some (case acquire_pass (answers [1, 2]) (taker 2) [0] (dir ?s) of
        (g, d) \<Rightarrow> moved ?s (taker 2) (case g of Some i \<Rightarrow> Holds i | None \<Rightarrow> Out) d)"
    by (rule pass_refines) (auto simp: one_holds_def tells_def)
  moreover have "acquire_pass (answers [1, 2]) (taker 2) [0] (dir ?s) = (None, dir one_holds)"
    by (simp add: acquire_pass_def one_holds_def)
  ultimately obtain k where k: "passes True (Steps (taker 2) (answers [1, 2]) Good (Listing [0]) # on (taker 2) (answers [1, 2]) k) ?s
      = Some (moved ?s (taker 2) Out (dir one_holds))"
    by auto
  show ?thesis by (intro exI conjI, rule k) simp_all
qed

lemma dead_slots_free_witness:
  "\<exists>evs s'. passes True evs (after (Dies 1) one_holds) = Some s' \<and> slots (dir s') = [0 \<mapsto> slot_token (taker 2)]"
proof -
  have s: "arises True (after (Dies 1) one_holds)" "up (after (Dies 1) one_holds) = {}"
    "\<forall>i. slots (dir (after (Dies 1) one_holds)) i \<noteq> Some []"
    by (rule arises.goes_on[OF one_holds_arises]) (auto simp: one_holds_def)
  have p: "may True (Begin (taker 2)) (after (Dies 1) one_holds)" "\<forall>q\<in>ever (after (Dies 1) one_holds). a_pid q \<noteq> a_pid (taker 2)"
    "1 \<le> a_cap (taker 2)"
    by (auto simp: one_holds_def)
  from dead_slots_free[OF s p] show ?thesis by blast
qed

end
