(* ===== verification/QueueMarkers.thy ===== *)
theory QueueMarkers
  imports Claims
begin

text \<open>The names of the files in a queue directory (\<open>driver/queue-markers.mjs\<close>): which name is a job in which live
  state, which is a sidecar beside a job, and the goods description of a job under its two spellings.\<close>

section \<open>Live markers\<close>

text \<open>\<open>LIVE_QUEUE_MARKER_RE\<close> matched from here to the end: the plain suffixes, else the claim lock.\<close>

definition live_suffix :: "jstr \<Rightarrow> jstr option" where
  "live_suffix s =
     (if s = js ''.json'' then Some (js ''json'')
      else if s = js ''.processing'' then Some (js ''processing'')
      else if s = js ''.postponed'' then Some (js ''postponed'')
      else if starts_with (js ''.processing.claimed-'') s \<and> length s > 20 \<and> list_all (\<lambda>c. \<not> is_space c) (drop 20 s)
        then Some (js ''processing'')
      else None)"

text \<open>The expression matches where it first can.\<close>

fun liveQueueState :: "jstr \<Rightarrow> jstr option" where
  "liveQueueState [] = None"
| "liveQueueState (c # cs) = (case live_suffix (c # cs) of Some x \<Rightarrow> Some x | None \<Rightarrow> liveQueueState cs)"

definition isLiveQueueMarker :: "jstr \<Rightarrow> bool" where
  "isLiveQueueMarker name \<longleftrightarrow> liveQueueState name \<noteq> None"

definition LIVE_QUEUE_STATES :: "jstr list" where
  "LIVE_QUEUE_STATES = [js ''json'', js ''processing'', js ''postponed'']"

definition TERMINAL_QUEUE_SUFFIXES :: "ending \<Rightarrow> jstr" where
  "TERMINAL_QUEUE_SUFFIXES e =
     (case e of Done \<Rightarrow> js ''done'' | Failed \<Rightarrow> js ''failed'' | Cancelled \<Rightarrow> js ''cancelled'' | Duplicate \<Rightarrow> js ''duplicate'')"

text \<open>The name the runner gives a job's marker.\<close>

definition marker_name :: "jstr \<Rightarrow> marker \<Rightarrow> jstr" where
  "marker_name base m =
     base @ (case m of
        Queued \<Rightarrow> js ''.json'' | Processing \<Rightarrow> js ''.processing'' | Locked t \<Rightarrow> js ''.processing.claimed-'' @ t
      | Postponed \<Rightarrow> js ''.postponed'' | Ended e \<Rightarrow> 46 # TERMINAL_QUEUE_SUFFIXES e)"

section \<open>Sidecars\<close>

definition PROSE_PARTS :: "(jstr \<times> jstr) list" where
  "PROSE_PARTS =
     [(js ''markName'', js ''.markName.md''), (js ''brief'', js ''.brief.md''), (js ''rawRequest'', js ''.rawRequest.txt''),
      (js ''upfrontInstructions'', js ''.upfrontInstructions.txt''), (js ''goods'', js ''.goods.txt''),
      (js ''deliverableSpec'', js ''.deliverableSpec.txt''), (js ''commercialFlexibility'', js ''.commercialFlexibility.txt''),
      (js ''priorUse'', js ''.priorUse.txt''), (js ''campaignShape'', js ''.campaignShape.txt'')]"

definition QUEUE_SIDECAR_SUFFIXES :: "jstr list" where
  "QUEUE_SIDECAR_SUFFIXES =
     map snd PROSE_PARTS @ [js ''.pid'', js ''.meta'', js ''.skips'', js ''.reason'', js ''.result'', js ''.tmp'']"

definition isQueueSidecar :: "jstr \<Rightarrow> bool" where
  "isQueueSidecar name \<longleftrightarrow> list_ex (\<lambda>s. ends_with s name) QUEUE_SIDECAR_SUFFIXES"

section \<open>The goods description\<close>

definition GOODS_FIELDS :: "jstr list" where
  "GOODS_FIELDS = [js ''goods'', js ''use'']"

fun goods_in :: "jstr list \<Rightarrow> json option \<Rightarrow> json option" where
  "goods_in [] j = None"
| "goods_in (f # fs) j =
     (case member f j of
        Some v \<Rightarrow> if v \<noteq> JNull \<and> js_trim (js_string v) \<noteq> [] then Some v else goods_in fs j
      | None \<Rightarrow> goods_in fs j)"

definition goodsOf :: "json option \<Rightarrow> json option" where
  "goodsOf j = goods_in GOODS_FIELDS j"

text \<open>A description found under the current field is the value of that field.\<close>

definition withFoldedGoods :: "json option \<Rightarrow> json option" where
  "withFoldedGoods j =
     (case goodsOf j of
        None \<Rightarrow> j
      | Some g \<Rightarrow> if member (js ''goods'') j = Some g then j
                  else Some (JObj (AList.update (js ''goods'') g (spread j))))"

text \<open>\<open>assembleJob\<close> of \<open>driver/runner.mjs\<close>: the manifest, overlaid with the prose beside it that is not blank, under the
  base name or the base less \<open>.manifest\<close>. \<open>None\<close> is a throw: a manifest that does not parse, or a field set on a
  value that is no object (an array, which takes the field, is not modelled).\<close>

definition bare_base :: "jstr \<Rightarrow> jstr" where
  "bare_base base = (if ends_with (js ''.manifest'') base then take (length base - 9) base else base)"

definition prose_of :: "(jstr \<Rightarrow> jstr option) \<Rightarrow> jstr \<Rightarrow> jstr \<Rightarrow> jstr option" where
  "prose_of read base suffix =
     (case read (base @ suffix) of Some v \<Rightarrow> Some v | None \<Rightarrow> read (bare_base base @ suffix))"

fun overlay :: "(jstr \<Rightarrow> jstr option) \<Rightarrow> jstr \<Rightarrow> (jstr \<times> jstr) list \<Rightarrow> json \<Rightarrow> json option" where
  "overlay read base [] j = Some j"
| "overlay read base ((field, suffix) # ps) j =
     (case prose_of read base suffix of
        Some v \<Rightarrow>
          if js_trim v = [] then overlay read base ps j
          else (case j of JObj fs \<Rightarrow> overlay read base ps (JObj (AList.update field (JStr v) fs)) | _ \<Rightarrow> None)
      | None \<Rightarrow> overlay read base ps j)"

definition assembleJob :: "(jstr \<Rightarrow> jstr option) \<Rightarrow> jstr \<Rightarrow> json option \<Rightarrow> json option" where
  "assembleJob read base manifest =
     (case manifest of
        None \<Rightarrow> None
      | Some j \<Rightarrow> (case overlay read base PROSE_PARTS j of None \<Rightarrow> None | Some j' \<Rightarrow> withFoldedGoods (Some j')))"

section \<open>Lemmas\<close>

lemma dot_first: "46 \<notin> set q \<Longrightarrow> starts_with q (c @ 46 # r) \<Longrightarrow> starts_with q c"
proof (induction q arbitrary: c)
  case (Cons x q)
  then show ?case by (cases c) auto
qed simp

lemma dotted_starts:
  assumes "46 \<notin> set q" and "starts_with (46 # q) (b @ 46 # r)" and "b \<noteq> []"
  shows "starts_with (46 # q) b"
  using assms dot_first by (cases b) auto

lemma dot_once: "b @ 46 # r = 46 # q \<Longrightarrow> 46 \<notin> set q \<Longrightarrow> b = []"
  by (cases b) auto

lemma live_suffix_claimed: "live_suffix s = Some x \<Longrightarrow> starts_with (js ''.'') s"
  by (auto simp: live_suffix_def starts_with_iff split: if_splits)

lemma live_inside:
  assumes "\<not> js_includes (js ''.processing'') base" and "b \<noteq> []" and "ends_with b base"
  shows "live_suffix (b @ 46 # r) = None"
proof -
  obtain a where base: "base = a @ b" using assms(3) by (auto simp: ends_with_iff)
  have none: "\<not> starts_with (js ''.processing'') b"
    using assms(1) unfolding base js_includes_iff starts_with_iff by (metis append.assoc)
  have "\<not> starts_with (js ''.processing'') (b @ 46 # r)"
    using dotted_starts[of "js ''processing''" b r] none assms(2) by auto
  then have "\<not> starts_with (js ''.processing.claimed-'') (b @ 46 # r)" "b @ 46 # r \<noteq> js ''.processing''"
    by (auto simp: starts_with_iff)
  moreover have "b @ 46 # r \<noteq> js ''.json''" "b @ 46 # r \<noteq> js ''.postponed''"
    using dot_once[of b r "js ''json''"] dot_once[of b r "js ''postponed''"] assms(2) by auto
  ultimately show ?thesis by (simp add: live_suffix_def)
qed

lemma live_skips:
  "(\<And>b. b \<noteq> [] \<Longrightarrow> ends_with b base \<Longrightarrow> live_suffix (b @ w) = None) \<Longrightarrow> liveQueueState (base @ w) = liveQueueState w"
proof (induction base)
  case (Cons c cs)
  have "live_suffix (b @ w) = None" if "b \<noteq> []" "ends_with b cs" for b
    using Cons.prems[OF that(1)] that(2) by (auto simp: ends_with_iff)
  then have "liveQueueState (cs @ w) = liveQueueState w" by (rule Cons.IH)
  moreover have "live_suffix ((c # cs) @ w) = None" by (rule Cons.prems) (auto simp: ends_with_iff)
  ultimately show ?case by simp
qed simp

lemma live_tail:
  assumes "\<not> js_includes (js ''.processing'') base"
  shows "liveQueueState (base @ 46 # r) = liveQueueState (46 # r)"
  using assms by (intro live_skips live_inside) auto

lemma live_only_at_dot: "46 \<notin> set s \<Longrightarrow> liveQueueState s = None"
proof (induction s)
  case (Cons c cs)
  have "live_suffix (c # cs) = None"
    using Cons.prems live_suffix_claimed[of "c # cs"] by (cases "live_suffix (c # cs)") auto
  then show ?case using Cons by simp
qed simp

lemma live_ends:
  "liveQueueState s = Some x \<Longrightarrow>
    ends_with (js ''.json'') s \<or> ends_with (js ''.processing'') s \<or> ends_with (js ''.postponed'') s
    \<or> js_includes (js ''.processing.claimed-'') s"
proof (induction s)
  case (Cons c cs)
  show ?case
  proof (cases "live_suffix (c # cs)")
    case None
    then have "liveQueueState cs = Some x" using Cons.prems by simp
    from Cons.IH[OF this] show ?thesis
      by (auto simp: ends_with_iff js_includes_iff) (metis append_Cons)+
  next
    case (Some y)
    then consider "c # cs = js ''.json''" | "c # cs = js ''.processing''" | "c # cs = js ''.postponed''"
      | "starts_with (js ''.processing.claimed-'') (c # cs)"
      unfolding live_suffix_def by (metis option.distinct(1))
    then show ?thesis
      by cases (auto simp: ends_with_iff js_includes_iff starts_with_iff intro: exI[of _ "[]"])
  qed
qed simp

lemma live_lock:
  assumes "t \<noteq> []" and "list_all (\<lambda>c. \<not> is_space c) t"
  shows "live_suffix (js ''.processing.claimed-'' @ t) = Some (js ''processing'')"
  using assms by (simp add: live_suffix_def)

section \<open>Properties\<close>

text \<open>The names tell the states. For a job whose id holds no \<open>.processing\<close>, the live state read from the name of
  its marker is the state the runner's rename put it in, a lock under any token reads as being processed and an
  end as nothing live, and no sidecar beside it is taken for a job.\<close>

theorem marker_states:
  assumes "\<not> js_includes (js ''.processing'') base"
    and "\<And>t. m = Locked t \<Longrightarrow> t \<noteq> [] \<and> list_all (\<lambda>c. \<not> is_space c) t"
  shows "liveQueueState (marker_name base m) =
      (case m of Queued \<Rightarrow> Some (js ''json'') | Processing \<Rightarrow> Some (js ''processing'') | Locked t \<Rightarrow> Some (js ''processing'')
       | Postponed \<Rightarrow> Some (js ''postponed'') | Ended e \<Rightarrow> None)
    \<and> (\<forall>s\<in>set QUEUE_SIDECAR_SUFFIXES. \<not> js_includes (js ''.processing.claimed-'') (base @ s) \<longrightarrow>
         \<not> isLiveQueueMarker (base @ s) \<and> isQueueSidecar (base @ s))"
proof
  show "liveQueueState (marker_name base m) =
      (case m of Queued \<Rightarrow> Some (js ''json'') | Processing \<Rightarrow> Some (js ''processing'') | Locked t \<Rightarrow> Some (js ''processing'')
       | Postponed \<Rightarrow> Some (js ''postponed'') | Ended e \<Rightarrow> None)"
  proof (cases m)
    case (Locked t)
    then have "live_suffix (js ''.processing.claimed-'' @ t) = Some (js ''processing'')"
      using live_lock assms(2) by blast
    then show ?thesis using Locked live_tail[OF assms(1)] by (simp add: marker_name_def del: js_append)
  next
    case (Ended e)
    then show ?thesis using live_tail[OF assms(1)]
      by (cases e) (simp_all add: marker_name_def TERMINAL_QUEUE_SUFFIXES_def live_suffix_def)
  qed (use live_tail[OF assms(1)] in \<open>simp_all add: marker_name_def live_suffix_def\<close>)
  show "\<forall>s\<in>set QUEUE_SIDECAR_SUFFIXES. \<not> js_includes (js ''.processing.claimed-'') (base @ s) \<longrightarrow>
      \<not> isLiveQueueMarker (base @ s) \<and> isQueueSidecar (base @ s)"
  proof (intro ballI impI conjI)
    fix s assume s: "s \<in> set QUEUE_SIDECAR_SUFFIXES" and free: "\<not> js_includes (js ''.processing.claimed-'') (base @ s)"
    show "isQueueSidecar (base @ s)" using s unfolding isQueueSidecar_def list_ex_iff by (intro bexI[of _ s]) simp_all
    have "\<not> ends_with (js ''.json'') (base @ s)" "\<not> ends_with (js ''.processing'') (base @ s)"
      "\<not> ends_with (js ''.postponed'') (base @ s)"
      using s unfolding QUEUE_SIDECAR_SUFFIXES_def PROSE_PARTS_def by (auto simp: ends_with_def)
    then show "\<not> isLiveQueueMarker (base @ s)"
      using live_ends[of "base @ s"] free unfolding isLiveQueueMarker_def by blast
  qed
qed

lemma marker_states_witness:
  "liveQueueState (js ''a.b.processing.claimed-5:7'') = Some (js ''processing'') \<and> liveQueueState (js ''a.b.done'') = None
   \<and> \<not> isLiveQueueMarker (js ''a.b.pid'')"
proof -
  have b: "\<not> js_includes (js ''.processing'') (js ''a.b'')" by simp
  have "liveQueueState (marker_name (js ''a.b'') (Locked (js ''5:7''))) = Some (js ''processing'')"
    using marker_states[OF b, of "Locked (js ''5:7'')"] by (simp add: is_space_def)
  moreover have "liveQueueState (marker_name (js ''a.b'') (Ended Done)) = None" using marker_states[OF b, of "Ended Done"] by simp
  moreover have "\<not> isLiveQueueMarker (js ''a.b'' @ js ''.pid'')"
    using marker_states[OF b, of Queued] by (simp add: QUEUE_SIDECAR_SUFFIXES_def)
  ultimately show ?thesis by (simp add: marker_name_def TERMINAL_QUEUE_SUFFIXES_def)
qed

lemma goods_first: "goodsOf j = Some g \<Longrightarrow> g \<noteq> JNull \<and> js_trim (js_string g) \<noteq> [] \<and>
    (member (js ''goods'') j = Some g \<or> member (js ''use'') j = Some g)"
  by (auto simp: goodsOf_def GOODS_FIELDS_def split: option.splits if_splits)

lemma member_put: "member k (Some (JObj (AList.update k' v fs))) = (if k = k' then Some v else map_of fs k)"
  by (simp add: update_conv')

text \<open>The goods description has one reading. After the fold, the current field holds what the job described its
  goods by under either spelling, whoever reads it gets the same answer, and a second fold changes nothing; a
  job that is an object keeps every other field.\<close>

theorem goods_folded:
  "goodsOf (withFoldedGoods j) = goodsOf j
    \<and> (goodsOf j \<noteq> None \<longrightarrow> member (js ''goods'') (withFoldedGoods j) = goodsOf j)
    \<and> withFoldedGoods (withFoldedGoods j) = withFoldedGoods j
    \<and> (\<forall>k. k \<noteq> js ''goods'' \<longrightarrow> member k (withFoldedGoods j) = member k j)"
proof (cases "goodsOf j")
  case None
  then show ?thesis by (simp add: withFoldedGoods_def)
next
  case (Some g)
  note g = goods_first[OF Some]
  show ?thesis
  proof (cases "member (js ''goods'') j = Some g")
    case True
    then show ?thesis using Some by (simp add: withFoldedGoods_def)
  next
    case False
    then obtain fs where j: "j = Some (JObj fs)"
      using g by (cases j) (auto elim!: member.elims)
    let ?j = "Some (JObj (AList.update (js ''goods'') g fs))"
    have "withFoldedGoods j = ?j" using False Some by (simp add: withFoldedGoods_def j del: js_Cons)
    moreover have "goodsOf ?j = Some g"
      using g by (simp add: goodsOf_def GOODS_FIELDS_def update_conv' del: js_Cons)
    ultimately show ?thesis
      using Some by (simp add: withFoldedGoods_def update_conv' j del: js_Cons)
  qed
qed

lemma goods_folded_witness:
  "member (js ''goods'') (withFoldedGoods (Some (JObj [(js ''goods'', JStr (js '' '')), (js ''use'', JStr (js ''shoes''))])))
    = Some (JStr (js ''shoes''))"
proof -
  let ?j = "Some (JObj [(js ''goods'', JStr (js '' '')), (js ''use'', JStr (js ''shoes''))])"
  have g: "goodsOf ?j = Some (JStr (js ''shoes''))"
    by (simp add: goodsOf_def GOODS_FIELDS_def js_trim_def is_space_def)
  then show ?thesis using goods_folded[of ?j] by (simp del: js_Cons)
qed

end
