(* ===== verification/QueueOrder.thy ===== *)
theory QueueOrder
  imports JsonValue "HOL-Library.Multiset"
begin

text \<open>The order queued jobs are admitted in, and the reordering of it that the portal offers
  (\<open>driver/queue-order.mjs\<close>). A lane is a queue directory: its listing, its job files and the advisory order
  file beside it. \<open>localeCompare\<close> is a parameter, a comparison as its documentation promises one; writes
  succeed.\<close>

section \<open>Sorting by a comparison\<close>

text \<open>\<open>Array.prototype.sort\<close> with a comparison function is stable; for a comparison that is consistent its result is
  that of insertion.\<close>

fun put_in :: "('a \<Rightarrow> 'a \<Rightarrow> int) \<Rightarrow> 'a \<Rightarrow> 'a list \<Rightarrow> 'a list" where
  "put_in c x [] = [x]"
| "put_in c x (y # ys) = (if c x y \<le> 0 then x # y # ys else y # put_in c x ys)"

definition js_sort :: "('a \<Rightarrow> 'a \<Rightarrow> int) \<Rightarrow> 'a list \<Rightarrow> 'a list" where
  "js_sort c xs = foldr (put_in c) xs []"

lemma mset_put_in [simp]: "mset (put_in c x ys) = add_mset x (mset ys)"
  by (induction ys) auto

lemma mset_js_sort [simp]: "mset (js_sort c xs) = mset xs"
  by (induction xs) (simp_all add: js_sort_def)

lemma set_js_sort [simp]: "set (js_sort c xs) = set xs"
  by (metis mset_js_sort set_mset_mset)

text \<open>A comparison that is consistent, as the language asks of it.\<close>

locale comparison =
  fixes c :: "'a \<Rightarrow> 'a \<Rightarrow> int"
  assumes turn: "c x y \<le> 0 \<longleftrightarrow> 0 \<le> c y x"
    and chain: "c x y \<le> 0 \<Longrightarrow> c y z \<le> 0 \<Longrightarrow> c x z \<le> 0"
begin

lemma either: "c x y \<le> 0 \<or> c y x \<le> 0"
  using turn by (meson linear)

lemma tie: "c x y \<le> 0 \<Longrightarrow> c y x \<le> 0 \<Longrightarrow> c x y = 0"
  using turn[of y x] by auto

lemma strictly: "c x y < 0 \<Longrightarrow> c y z \<le> 0 \<Longrightarrow> c x z < 0"
proof (rule ccontr)
  assume xy: "c x y < 0" and yz: "c y z \<le> 0" and "\<not> c x z < 0"
  then have "c z x \<le> 0" using turn[of z x] by auto
  then have "c y x \<le> 0" using chain yz by blast
  then show False using xy turn[of y x] by auto
qed

lemma strictly': "c x y \<le> 0 \<Longrightarrow> c y z < 0 \<Longrightarrow> c x z < 0"
proof (rule ccontr)
  assume xy: "c x y \<le> 0" and yz: "c y z < 0" and "\<not> c x z < 0"
  then have "c z x \<le> 0" using turn[of z x] by auto
  then have "c z y \<le> 0" using chain xy by blast
  then show False using yz turn[of z y] by auto
qed

lemma sorted_put_in:
  "sorted_wrt (\<lambda>x y. c x y \<le> 0) ys \<Longrightarrow> sorted_wrt (\<lambda>x y. c x y \<le> 0) (put_in c x ys)"
proof (induction ys)
  case (Cons y ys)
  have "set (put_in c x ys) = insert x (set ys)" by (metis mset_put_in set_mset_mset set_mset_add_mset_insert)
  then show ?case using Cons either chain by auto
qed simp

lemma sorted_js_sort: "sorted_wrt (\<lambda>x y. c x y \<le> 0) (js_sort c xs)"
  by (induction xs) (simp_all add: js_sort_def sorted_put_in)

text \<open>Where only equals compare as equal, an order is determined by what is ordered.\<close>

lemma sorted_unique:
  assumes "mset xs = mset ys" and "sorted_wrt (\<lambda>x y. c x y \<le> 0) xs" and "sorted_wrt (\<lambda>x y. c x y \<le> 0) ys"
    and "\<And>x y. x \<in> set xs \<Longrightarrow> y \<in> set xs \<Longrightarrow> c x y = 0 \<Longrightarrow> x = y"
  shows "xs = ys"
  using assms
proof (induction xs arbitrary: ys)
  case (Cons x xs)
  then obtain y zs where ys: "ys = y # zs" by (cases ys) auto
  have sets: "set (x # xs) = set ys" using Cons.prems(1) by (metis set_mset_mset)
  have "c x y \<le> 0 \<and> c y x \<le> 0 \<or> x = y" using Cons.prems(2,3) sets ys by auto
  then have "x = y" using Cons.prems(4)[of x y] sets ys tie by auto
  then show ?case using Cons ys by auto
qed simp

lemma js_sort_eq:
  assumes "mset xs = mset ys" and "sorted_wrt (\<lambda>x y. c x y \<le> 0) ys"
    and "\<And>x y. x \<in> set xs \<Longrightarrow> y \<in> set xs \<Longrightarrow> c x y = 0 \<Longrightarrow> x = y"
  shows "js_sort c xs = ys"
  using assms by (intro sorted_unique sorted_js_sort) auto

end

section \<open>The order file\<close>

record lane =
  lane_order :: "json option"
  lane_files :: "jstr list option"
  lane_job :: "jstr \<Rightarrow> json option"

fun id_text :: "json \<Rightarrow> jstr option" where
  "id_text (JStr s) = nonempty s"
| "id_text _ = None"

definition readQueueOrder :: "lane \<Rightarrow> jstr list" where
  "readQueueOrder q = List.map_filter id_text (elems (member (js ''order'') (lane_order q)))"

definition writeQueueOrder :: "jstr \<Rightarrow> jstr list \<Rightarrow> lane \<Rightarrow> lane" where
  "writeQueueOrder now ids q =
     q\<lparr> lane_order := Some (JObj [(js ''order'', JArr (map JStr ids)), (js ''updatedAt'', JStr now)]) \<rparr>"

section \<open>The order of admission\<close>

text \<open>\<open>new Map(ids.map((id, i) => [id, i]))\<close>: of an id that is repeated the last position counts.\<close>

definition rank :: "jstr list \<Rightarrow> jstr \<Rightarrow> nat option" where
  "rank ids i = map_of (rev (zip ids [0..<length ids])) i"

definition strip_json :: "jstr \<Rightarrow> jstr" where
  "strip_json f = (if ends_with (js ''.json'') f then take (length f - 5) f else f)"

record keyed =
  k_file :: jstr
  k_tier :: nat
  k_pos :: nat
  k_at :: jstr

definition key_of :: "lane \<Rightarrow> jstr \<Rightarrow> keyed" where
  "key_of q f =
     (case rank (readQueueOrder q) (strip_json f) of
        Some i \<Rightarrow> \<lparr> k_file = f, k_tier = 0, k_pos = i, k_at = [] \<rparr>
      | None \<Rightarrow> \<lparr> k_file = f, k_tier = 1, k_pos = 0, k_at = string_or (member (js ''enqueuedAt'') (lane_job q f)) [] \<rparr>)"

definition or_then :: "int \<Rightarrow> int \<Rightarrow> int" where
  "or_then a b = (if a \<noteq> 0 then a else b)"

definition before :: "(jstr \<Rightarrow> jstr \<Rightarrow> int) \<Rightarrow> keyed \<Rightarrow> keyed \<Rightarrow> int" where
  "before localeCompare a b =
     or_then (int (k_tier a) - int (k_tier b))
       (or_then (int (k_pos a) - int (k_pos b))
         (or_then (localeCompare (k_at a) (k_at b)) (localeCompare (k_file a) (k_file b))))"

definition orderedQueueFiles :: "(jstr \<Rightarrow> jstr \<Rightarrow> int) \<Rightarrow> lane \<Rightarrow> jstr list \<Rightarrow> jstr list" where
  "orderedQueueFiles localeCompare q files = map k_file (js_sort (before localeCompare) (map (key_of q) files))"

section \<open>Reordering\<close>

definition queue_files :: "lane \<Rightarrow> jstr list option" where
  "queue_files q =
     map_option (filter (\<lambda>f. ends_with (js ''.json'') f \<and> \<not> starts_with (js ''.'') f)) (lane_files q)"

text \<open>The positions of the ids in \<open>mine\<close> are refilled from \<open>here\<close>, the rest is copied. There are never fewer ids to fill
  in than positions.\<close>

fun refill :: "jstr list \<Rightarrow> jstr list \<Rightarrow> jstr list \<Rightarrow> jstr list" where
  "refill mine [] here = []"
| "refill mine (x # xs) here =
     (if x \<in> set mine then (case here of h # hs \<Rightarrow> h # refill mine xs hs | [] \<Rightarrow> x # refill mine xs [])
      else x # refill mine xs here)"

definition admission :: "(jstr \<Rightarrow> jstr \<Rightarrow> int) \<Rightarrow> lane \<Rightarrow> jstr list \<Rightarrow> jstr list" where
  "admission localeCompare q files = map strip_json (orderedQueueFiles localeCompare q files)"

text \<open>One lane of \<open>reorderQueue\<close>: how many of the ids were there to move, and the lane afterwards.\<close>

definition reorder_lane ::
  "(jstr \<Rightarrow> jstr \<Rightarrow> int) \<Rightarrow> jstr \<Rightarrow> jstr list \<Rightarrow> jstr list \<Rightarrow> lane \<Rightarrow> nat \<times> lane" where
  "reorder_lane localeCompare now order allowed q =
     (case queue_files q of
        None \<Rightarrow> (0, q)
      | Some files \<Rightarrow>
          let current = admission localeCompare q files;
              here = filter (\<lambda>i. i \<in> set current) (filter (\<lambda>i. i \<in> set allowed) order)
          in if here = [] then (0, q)
             else (length here, writeQueueOrder now (refill here current here) q))"

definition reorderQueue ::
  "(jstr \<Rightarrow> jstr \<Rightarrow> int) \<Rightarrow> jstr \<Rightarrow> jstr list \<Rightarrow> jstr list \<Rightarrow> (jstr \<times> lane) list \<Rightarrow> (jstr \<times> nat) list \<times> (jstr \<times> lane) list" where
  "reorderQueue localeCompare now order allowed lanes =
     (let done = map (\<lambda>(dir, q). (dir, reorder_lane localeCompare now order allowed q)) lanes in
      (map (\<lambda>(dir, n, q). (dir, n)) (filter (\<lambda>(dir, n, q). 0 < n) done), map (\<lambda>(dir, n, q). (dir, q)) done))"

section \<open>The comparison is consistent\<close>

lemma comparison_then:
  assumes "comparison f" and "comparison g"
  shows "comparison (\<lambda>a b. or_then (f a b) (g a b))"
proof
  fix x y z
  have f: "f x y \<le> 0 \<longleftrightarrow> 0 \<le> f y x" for x y using comparison.turn[OF assms(1)] .
  have g: "g x y \<le> 0 \<longleftrightarrow> 0 \<le> g y x" for x y using comparison.turn[OF assms(2)] .
  show "or_then (f x y) (g x y) \<le> 0 \<longleftrightarrow> 0 \<le> or_then (f y x) (g y x)"
    using f[of x y] f[of y x] g[of x y] by (auto simp: or_then_def)
  assume xy: "or_then (f x y) (g x y) \<le> 0" and yz: "or_then (f y z) (g y z) \<le> 0"
  consider "f x y < 0" | "f x y = 0" "f y z < 0" | "f x y = 0" "f y z = 0"
    using xy yz by (fastforce simp: or_then_def split: if_splits)
  then show "or_then (f x z) (g x z) \<le> 0"
  proof cases
    case 1
    then show ?thesis using comparison.strictly[OF assms(1), of x y z] yz by (auto simp: or_then_def split: if_splits)
  next
    case 2
    then show ?thesis using comparison.strictly'[OF assms(1), of x y z] by (auto simp: or_then_def)
  next
    case 3
    then have "f x z \<le> 0" "f z x \<le> 0"
      using comparison.chain[OF assms(1), of x y z] comparison.chain[OF assms(1), of z y x] f[of z y] f[of y x] by auto
    then have "f x z = 0" using comparison.tie[OF assms(1)] by blast
    moreover have "g x z \<le> 0" using comparison.chain[OF assms(2), of x y z] xy yz 3 by (auto simp: or_then_def)
    ultimately show ?thesis by (simp add: or_then_def)
  qed
qed

lemma comparison_of_nat: "comparison (\<lambda>a b. int (k a) - int (k b))"
  by unfold_locales auto

lemma comparison_of_key: "comparison c \<Longrightarrow> comparison (\<lambda>a b. c (k a) (k b))"
  unfolding comparison_def by blast

lemma comparison_before:
  assumes "comparison c"
  shows "comparison (before c)"
proof -
  have "comparison (\<lambda>a b. or_then (int (k_tier a) - int (k_tier b)) (or_then (int (k_pos a) - int (k_pos b))
      (or_then (c (k_at a) (k_at b)) (c (k_file a) (k_file b)))))"
    by (rule comparison_then[OF comparison_of_nat comparison_then[OF comparison_of_nat
          comparison_then[OF comparison_of_key[OF assms] comparison_of_key[OF assms]]]])
  moreover have "before c = (\<lambda>a b. or_then (int (k_tier a) - int (k_tier b)) (or_then (int (k_pos a) - int (k_pos b))
      (or_then (c (k_at a) (k_at b)) (c (k_file a) (k_file b)))))"
    by (simp add: fun_eq_iff before_def)
  ultimately show ?thesis by simp
qed

text \<open>\<open>localeCompare\<close> is consistent, and nothing more is promised: it answers 0 of different texts too, canonically
  equivalent ones among them. The order of admission is one where it tells the names of the files apart.\<close>

locale collation = comparison localeCompare for localeCompare :: "jstr \<Rightarrow> jstr \<Rightarrow> int"

sublocale collation \<subseteq> admitted: comparison "before localeCompare"
  by (rule comparison_before) (rule comparison_axioms)

context collation begin

lemma before_tie: "before localeCompare a b = 0 \<Longrightarrow> localeCompare (k_file a) (k_file b) = 0 \<and> k_tier a = k_tier b \<and> k_pos a = k_pos b"
  by (auto simp: before_def or_then_def split: if_splits)

lemma one_order:
  assumes "mset files = mset files'" and apart: "\<forall>f \<in> set files. \<forall>g \<in> set files. localeCompare f g = 0 \<longrightarrow> f = g"
  shows "orderedQueueFiles localeCompare q files = orderedQueueFiles localeCompare q files'"
proof -
  have "js_sort (before localeCompare) (map (key_of q) files) = js_sort (before localeCompare) (map (key_of q) files')"
  proof (rule admitted.js_sort_eq)
    show "mset (map (key_of q) files) = mset (js_sort (before localeCompare) (map (key_of q) files'))" using assms(1) by simp
    show "sorted_wrt (\<lambda>x y. before localeCompare x y \<le> 0) (js_sort (before localeCompare) (map (key_of q) files'))"
      by (rule admitted.sorted_js_sort)
    show "a = b" if "a \<in> set (map (key_of q) files)" "b \<in> set (map (key_of q) files)" "before localeCompare a b = 0" for a b
    proof -
      have "k_file (key_of q f) = f" for f by (simp add: key_of_def split: option.splits)
      then have "k_file a = k_file b" using before_tie[OF that(3)] apart that(1,2) by auto
      moreover have "a = key_of q (k_file a)" if "a \<in> set (map (key_of q) files)" for a
        using that by (auto simp: key_of_def split: option.splits)
      ultimately show ?thesis using that(1,2) by metis
    qed
  qed
  then show ?thesis by (simp add: orderedQueueFiles_def)
qed

end

lemma ordered_mset: "mset (orderedQueueFiles c q files) = mset files"
proof -
  have "k_file (key_of q f) = f" for f by (simp add: key_of_def split: option.splits)
  then have "map k_file (map (key_of q) files) = files" by (simp add: comp_def)
  then show ?thesis unfolding orderedQueueFiles_def by (metis mset_js_sort mset_map)
qed

lemma strip_json_append [simp]: "strip_json (i @ js ''.json'') = i"
  using ends_with_append[of "js ''.json''" i] by (simp add: strip_json_def)

lemma queue_file:
  assumes "queue_files q = Some files" and "f \<in> set files"
  shows "strip_json f @ js ''.json'' = f" and "strip_json f \<noteq> []"
proof -
  have f: "ends_with (js ''.json'') f" "\<not> starts_with (js ''.'') f"
    using assms by (auto simp: queue_files_def)
  then obtain i where i: "f = i @ js ''.json''" by (auto simp: ends_with_iff)
  then show "strip_json f @ js ''.json'' = f" by (simp del: js_Cons)
  have "strip_json f = i" unfolding i by (rule strip_json_append)
  then show "strip_json f \<noteq> []" using i f(2) by auto
qed

text \<open>What is refilled: nothing outside the positions moves, and the positions hold the new sequence.\<close>

lemma refill_own:
  "length (filter (\<lambda>x. x \<in> set mine) xs) = length here \<Longrightarrow> set here \<subseteq> set mine \<Longrightarrow>
    filter (\<lambda>x. x \<in> set mine) (refill mine xs here) = here"
proof (induction xs arbitrary: here)
  case (Cons x xs)
  then show ?case by (cases here) (auto split: if_splits)
qed simp

lemma refill_others:
  "length (filter (\<lambda>x. x \<in> set mine) xs) = length here \<Longrightarrow> set here \<subseteq> set mine \<Longrightarrow>
    filter (\<lambda>x. x \<notin> set mine) (refill mine xs here) = filter (\<lambda>x. x \<notin> set mine) xs"
proof (induction xs arbitrary: here)
  case (Cons x xs)
  then show ?case by (cases here) (auto split: if_splits)
qed simp

lemma refill_nth: "i < length xs \<Longrightarrow> xs ! i \<notin> set mine \<Longrightarrow> refill mine xs here ! i = xs ! i"
proof (induction xs arbitrary: here i)
  case (Cons x xs)
  then show ?case by (cases i; cases here) auto
qed simp

lemma refill_mset:
  assumes "mset (filter (\<lambda>x. x \<in> set here) xs) = mset here"
  shows "mset (refill here xs here) = mset xs"
proof -
  have len: "length (filter (\<lambda>x. x \<in> set here) xs) = length here" using assms by (metis size_mset)
  have "mset (refill here xs here)
      = mset (filter (\<lambda>x. x \<in> set here) (refill here xs here)) + mset (filter (\<lambda>x. x \<notin> set here) (refill here xs here))"
    by (simp add: multiset_partition[symmetric])
  also have "\<dots> = mset (filter (\<lambda>x. x \<in> set here) xs) + mset (filter (\<lambda>x. x \<notin> set here) xs)"
    using refill_own[OF len subset_refl] refill_others[OF len subset_refl] assms by simp
  also have "\<dots> = mset xs" by (simp add: multiset_partition[symmetric])
  finally show ?thesis .
qed

lemma rank_distinct: "distinct ids \<Longrightarrow> i < length ids \<Longrightarrow> rank ids (ids ! i) = Some i"
proof -
  assume d: "distinct ids" and i: "i < length ids"
  have "distinct (map fst (rev (zip ids [0..<length ids])))" using d by (simp add: rev_map[symmetric])
  moreover have "(ids ! i, i) \<in> set (rev (zip ids [0..<length ids]))" using i by (auto simp: set_zip)
  ultimately show ?thesis unfolding rank_def by (simp add: map_of_is_SomeI)
qed

lemma order_reads_back: "[] \<notin> set ids \<Longrightarrow> readQueueOrder (writeQueueOrder now ids q) = ids"
proof -
  have "List.map_filter id_text (map JStr ids) = ids" if "[] \<notin> set ids" for ids
    using that by (induction ids) (auto simp: List.map_filter_simps nonempty_def)
  moreover assume "[] \<notin> set ids"
  ultimately show ?thesis by (simp add: readQueueOrder_def writeQueueOrder_def)
qed

text \<open>Where the order file lists every job, that is the order of admission.\<close>

lemma written_order_admits:
  assumes lc: "collation localeCompare" and files: "queue_files q = Some files" and ids: "distinct ids"
    and perm: "mset ids = mset (map strip_json files)"
  shows "admission localeCompare (writeQueueOrder now ids q) files = ids"
proof -
  let ?q = "writeQueueOrder now ids q" and ?f = "\<lambda>i. i @ js ''.json''"
  have sets: "set ids = strip_json ` set files" using perm by (metis set_mset_mset set_map)
  then have "[] \<notin> set ids" using queue_file(2)[OF files] by (metis (no_types, lifting) imageE)
  then have rd: "readQueueOrder ?q = ids" by (rule order_reads_back)
  have "mset (map ?f ids) = image_mset ?f (mset (map strip_json files))" using perm by simp
  also have "\<dots> = mset (map (\<lambda>f. ?f (strip_json f)) files)" by (simp add: image_mset.compositionality comp_def del: js_Cons)
  also have "map (\<lambda>f. ?f (strip_json f)) files = files" using queue_file(1)[OF files] by (intro map_idI)
  finally have "mset (map ?f ids) = mset files" .
  then have perm': "mset (map (key_of ?q) files) = mset (map (key_of ?q) (map ?f ids))" by (metis mset_map)
  have key: "key_of ?q (?f (ids ! i)) = \<lparr> k_file = ?f (ids ! i), k_tier = 0, k_pos = i, k_at = [] \<rparr>" if "i < length ids" for i
    using rank_distinct[OF ids that] by (simp add: key_of_def rd del: js_Cons)
  have "js_sort (before localeCompare) (map (key_of ?q) files) = map (key_of ?q) (map ?f ids)"
  proof (rule comparison.js_sort_eq)
    show "comparison (before localeCompare)" using lc comparison_before by (simp add: collation_def)
    show "mset (map (key_of ?q) files) = mset (map (key_of ?q) (map ?f ids))" by (rule perm')
    show "sorted_wrt (\<lambda>x y. before localeCompare x y \<le> 0) (map (key_of ?q) (map ?f ids))"
      using key by (auto simp: sorted_wrt_iff_nth_less before_def or_then_def simp del: js_Cons)
    show "a = b" if "a \<in> set (map (key_of ?q) files)" "b \<in> set (map (key_of ?q) files)" "before localeCompare a b = 0" for a b
    proof -
      have "\<exists>i < length ids. c = key_of ?q (?f (ids ! i))" if "c \<in> set (map (key_of ?q) files)" for c
      proof -
        have "c \<in> set (map (key_of ?q) (map ?f ids))" using that perm' by (metis set_mset_mset)
        then show ?thesis by (auto simp: in_set_conv_nth simp del: js_Cons)
      qed
      then obtain i k where "i < length ids" "a = key_of ?q (?f (ids ! i))" "k < length ids" "b = key_of ?q (?f (ids ! k))"
        using \<open>a \<in> _\<close> \<open>b \<in> _\<close> by metis
      then show ?thesis using collation.before_tie[OF lc \<open>before localeCompare a b = 0\<close>] key by (simp del: js_Cons)
    qed
  qed
  moreover have "k_file (key_of ?q f) = f" for f by (simp add: key_of_def split: option.splits)
  ultimately show ?thesis by (simp add: admission_def orderedQueueFiles_def comp_def del: js_Cons)
qed

lemma admission_mset: "mset (admission c q files) = mset (map strip_json files)"
  by (simp add: admission_def ordered_mset)

section \<open>A comparison of texts\<close>

text \<open>The order of code units, one comparison of the kind the code is given.\<close>

fun unit_compare :: "jstr \<Rightarrow> jstr \<Rightarrow> int" where
  "unit_compare [] [] = 0"
| "unit_compare [] (y # ys) = -1"
| "unit_compare (x # xs) [] = 1"
| "unit_compare (x # xs) (y # ys) = (if x < y then -1 else if y < x then 1 else unit_compare xs ys)"

lemma unit_compare_turn: "unit_compare x y = - unit_compare y x"
  by (induction x y rule: unit_compare.induct) auto

lemma unit_compare_chain: "unit_compare x y \<le> 0 \<Longrightarrow> unit_compare y z \<le> 0 \<Longrightarrow> unit_compare x z \<le> 0"
proof (induction x y arbitrary: z rule: unit_compare.induct)
  case (4 x xs y ys)
  show ?case
  proof (cases z)
    case Nil
    then show ?thesis using "4.prems"(2) by simp
  next
    case (Cons w ws)
    consider "x < y" | "x = y" using "4.prems"(1) by (cases "x < y"; cases "y < x"; simp)
    then show ?thesis
    proof cases
      case 1
      have "y \<le> w" using "4.prems"(2) Cons by (cases "w < y"; simp)
      then show ?thesis using 1 Cons by simp
    next
      case 2
      then show ?thesis using "4.IH"[of ws] "4.prems" Cons by (cases "y < w"; cases "w < y"; simp)
    qed
  qed
next
  case (2 y ys)
  then show ?case by (cases z) simp_all
next
  case (3 x xs)
  then show ?case by simp
next
  case 1
  then show ?case by simp
qed

lemma unit_compare_apart: "unit_compare x y = 0 \<Longrightarrow> x = y"
  by (induction x y rule: unit_compare.induct) (auto split: if_splits)

interpretation units: collation unit_compare
proof
  show "unit_compare x y \<le> 0 \<longleftrightarrow> 0 \<le> unit_compare y x" for x y using unit_compare_turn[of x y] by linarith
qed (fact unit_compare_chain)

section \<open>Properties\<close>

text \<open>The queue has one order. Every job file is admitted once, the listed jobs first, by their place in the order file, then
  the others, by the time they were queued and then by name; and where the comparison tells the names of the files apart,
  the order does not depend on how the directory lists them.\<close>

theorem admission_total:
  assumes "collation localeCompare"
  shows "mset (orderedQueueFiles localeCompare q files) = mset files
    \<and> (mset files = mset files' \<and> (\<forall>f \<in> set files. \<forall>g \<in> set files. localeCompare f g = 0 \<longrightarrow> f = g) \<longrightarrow>
         orderedQueueFiles localeCompare q files = orderedQueueFiles localeCompare q files')
    \<and> sorted_wrt (\<lambda>f g. before localeCompare (key_of q f) (key_of q g) \<le> 0) (orderedQueueFiles localeCompare q files)"
proof -
  have co: "comparison localeCompare" using assms by (simp add: collation_def)
  have k: "key_of q (k_file x) = x" if "x \<in> set (js_sort (before localeCompare) (map (key_of q) files))" for x
    using that by (auto simp: key_of_def split: option.splits)
  have "sorted_wrt (\<lambda>f g. before localeCompare f g \<le> 0) (js_sort (before localeCompare) (map (key_of q) files))"
    by (rule comparison.sorted_js_sort[OF comparison_before[OF co]])
  then have "sorted_wrt (\<lambda>f g. before localeCompare (key_of q f) (key_of q g) \<le> 0) (orderedQueueFiles localeCompare q files)"
    unfolding orderedQueueFiles_def sorted_wrt_map by (rule sorted_wrt_mono_rel[rotated]) (simp add: k)
  then show ?thesis using collation.one_order[OF assms] ordered_mset by blast
qed

text \<open>C24: Nobody else moves, as long as the caller names no job twice. When a caller reorders the jobs of a lane that are
  theirs, naming each once, exactly those named jobs take the positions they held, in the order asked for, and every other
  job is admitted at the position it had before. An order that names a job twice moves others:
  \<open>reorder_twice_demotes\<close>.\<close>

theorem reorder_moves_only_own:
  assumes "collation localeCompare" and "queue_files q = Some files" and "distinct files" and "distinct order"
    and "reorder_lane localeCompare now order allowed q = (n, q')"
  shows "\<exists>here. set here = set order \<inter> set allowed \<inter> set (admission localeCompare q files) \<and> n = length here
    \<and> filter (\<lambda>i. i \<in> set here) order = here
    \<and> mset (admission localeCompare q' files) = mset (admission localeCompare q files)
    \<and> filter (\<lambda>i. i \<in> set here) (admission localeCompare q' files) = here
    \<and> (\<forall>k<length files. admission localeCompare q files ! k \<notin> set here \<longrightarrow>
         admission localeCompare q' files ! k = admission localeCompare q files ! k)"
proof -
  let ?cur = "admission localeCompare q files"
  define here where "here = filter (\<lambda>i. i \<in> set ?cur) (filter (\<lambda>i. i \<in> set allowed) order)"
  have set_here: "set here = set order \<inter> set allowed \<inter> set ?cur" by (auto simp: here_def)
  have dist: "distinct here" using assms(4) by (simp add: here_def)
  have own: "filter (\<lambda>i. i \<in> set here) order = here" by (auto simp: here_def intro: filter_cong)
  have len: "length ?cur = length files" by (metis admission_mset length_map size_mset)
  have "distinct (map strip_json files)"
    using assms(3) queue_file(1)[OF assms(2)] by (simp add: distinct_map) (metis inj_onI)
  then have cur: "distinct ?cur" by (metis admission_mset mset_eq_imp_distinct_iff)
  show ?thesis
  proof (cases "here = []")
    case True
    then have "n = 0" "q' = q" using assms(2,5) by (auto simp: reorder_lane_def Let_def here_def)
    then show ?thesis using True set_here own by (intro exI[of _ here]) simp
  next
    case False
    let ?next = "refill here ?cur here"
    have q': "n = length here" "q' = writeQueueOrder now ?next q"
      using False assms(2,5) by (auto simp: reorder_lane_def Let_def here_def)
    have fill: "mset (filter (\<lambda>x. x \<in> set here) ?cur) = mset here"
      using dist cur set_here by (intro set_eq_iff_mset_eq_distinct[THEN iffD1]) auto
    then have l: "length (filter (\<lambda>x. x \<in> set here) ?cur) = length here" by (metis size_mset)
    have perm: "mset ?next = mset (map strip_json files)" using refill_mset[OF fill] by (simp add: admission_mset)
    have "distinct ?next" using cur refill_mset[OF fill] by (metis mset_eq_imp_distinct_iff)
    then have adm: "admission localeCompare q' files = ?next"
      using written_order_admits[OF assms(1,2) _ perm] q'(2) by simp
    show ?thesis
      unfolding adm using set_here q'(1) own refill_mset[OF fill] refill_own[OF l subset_refl] refill_nth[of _ ?cur here here] len
      by (intro exI[of _ here]) simp
  qed
qed

text \<open>The caller who names a job twice loses another: the second takes its position, and the job left out is admitted
  after every job that is listed.\<close>

definition three_jobs :: lane where
  "three_jobs = \<lparr> lane_order = Some (JObj [(js ''order'', JArr [JStr (js ''a''), JStr (js ''x''), JStr (js ''b'')])]),
     lane_files = Some [js ''a.json'', js ''b.json'', js ''x.json''], lane_job = (\<lambda>f. None) \<rparr>"

lemma reorder_twice_demotes:
  "admission unit_compare three_jobs [js ''a.json'', js ''b.json'', js ''x.json''] = [js ''a'', js ''x'', js ''b'']
   \<and> admission unit_compare (snd (reorder_lane unit_compare (js ''t'') [js ''b'', js ''b''] [js ''a'', js ''b''] three_jobs))
       [js ''a.json'', js ''b.json'', js ''x.json''] = [js ''a'', js ''x'', js ''b'']
   \<and> admission unit_compare (snd (reorder_lane unit_compare (js ''t'') [js ''b'', js ''b'', js ''a''] [js ''a'', js ''b''] three_jobs))
       [js ''a.json'', js ''b.json'', js ''x.json''] = [js ''x'', js ''b'', js ''a'']"
  by (simp add: admission_def orderedQueueFiles_def js_sort_def key_of_def three_jobs_def readQueueOrder_def
      List.map_filter_simps nonempty_def rank_def strip_json_def ends_with_def before_def or_then_def reorder_lane_def queue_files_def writeQueueOrder_def)

text \<open>Two names that compare as equal are admitted in the order the directory lists them.\<close>

lemma equal_names_unordered:
  assumes "localeCompare (js ''a.json'') (js ''b.json'') = 0" "localeCompare (js ''b.json'') (js ''a.json'') = 0" "localeCompare [] [] = 0"
  shows "orderedQueueFiles localeCompare \<lparr> lane_order = None, lane_files = None, lane_job = (\<lambda>f. None) \<rparr> [js ''a.json'', js ''b.json''] = [js ''a.json'', js ''b.json'']
    \<and> orderedQueueFiles localeCompare \<lparr> lane_order = None, lane_files = None, lane_job = (\<lambda>f. None) \<rparr> [js ''b.json'', js ''a.json''] = [js ''b.json'', js ''a.json'']"
  using assms by (simp add: orderedQueueFiles_def js_sort_def key_of_def readQueueOrder_def List.map_filter_simps rank_def before_def or_then_def
      string_or_def del: js_Cons)

lemma admission_total_witness:
  "orderedQueueFiles unit_compare three_jobs [js ''a.json'', js ''b.json''] = orderedQueueFiles unit_compare three_jobs [js ''b.json'', js ''a.json'']
   \<and> mset (orderedQueueFiles unit_compare three_jobs [js ''a.json'', js ''b.json'']) = {# js ''a.json'', js ''b.json'' #}"
proof -
  have "mset [js ''a.json'', js ''b.json''] = mset [js ''b.json'', js ''a.json'']" by simp
  then show ?thesis
    using admission_total[OF units.collation_axioms, of three_jobs "[js ''a.json'', js ''b.json'']" "[js ''b.json'', js ''a.json'']"]
    by (auto dest: unit_compare_apart simp del: js_Cons)
qed

lemma reorder_moves_only_own_witness:
  "admission unit_compare (snd (reorder_lane unit_compare (js ''t'') [js ''b'', js ''a''] [js ''a'', js ''b''] three_jobs))
     [js ''a.json'', js ''b.json'', js ''x.json''] ! 1 = js ''x''"
proof -
  let ?files = "[js ''a.json'', js ''b.json'', js ''x.json'']"
  have q: "queue_files three_jobs = Some ?files" by (simp add: queue_files_def three_jobs_def ends_with_def)
  have d: "distinct ?files" "distinct [js ''b'', js ''a'']" by simp_all
  have cur: "admission unit_compare three_jobs ?files = [js ''a'', js ''x'', js ''b'']" using reorder_twice_demotes by blast
  obtain here where h: "set here = set [js ''b'', js ''a''] \<inter> set [js ''a'', js ''b''] \<inter> set (admission unit_compare three_jobs ?files)"
    "\<forall>k<length ?files. admission unit_compare three_jobs ?files ! k \<notin> set here \<longrightarrow>
       admission unit_compare (snd (reorder_lane unit_compare (js ''t'') [js ''b'', js ''a''] [js ''a'', js ''b''] three_jobs)) ?files ! k
         = admission unit_compare three_jobs ?files ! k"
    using reorder_moves_only_own[OF units.collation_axioms q d prod.collapse[symmetric], where now = "js ''t''" and allowed = "[js ''a'', js ''b'']"] by blast
  show ?thesis using h(2)[rule_format, of 1] h(1) cur by (auto simp del: js_Cons)
qed

end
