(* ===== verification/Intake.thy ===== *)
theory Intake
  imports QueueMarkers JsText "HOL-Library.List_Lexorder"
begin

text \<open>The gates a claimed job passes before it runs (\<open>driver/runner.mjs\<close>, \<open>driver/usage-ledger.mjs\<close>): the signature
  of its matter and the ledger that keeps a matter from running twice, the admission caps of an account, what a
  client is shown of its allowance, and the time at which a parked run is due.

  A queue is its directory, each entry with what its text parses to, and the ledger beside it, line by line. The
  Unicode services and the registry of products are parameters. A number in a text is read where it is an
  integer in decimal digits.\<close>

section \<open>The signature of a matter\<close>

definition BASELINE_PRODUCT :: jstr where
  "BASELINE_PRODUCT = js ''global-preliminary-search''"

definition norm :: "unicode \<Rightarrow> json option \<Rightarrow> jstr" where
  "norm u v = squeeze (to_lower u (js_trim (string_or v [])))"

definition lowered :: "unicode \<Rightarrow> json option \<Rightarrow> jstr" where
  "lowered u v = to_lower u (js_trim (string_or v []))"

definition mark_names :: "json option \<Rightarrow> json list" where
  "mark_names j =
     List.map_filter (\<lambda>m. let n = (case m of JStr s \<Rightarrow> Some m | _ \<Rightarrow> member (js ''name'') (Some m)) in
       if truthy n then n else None) (elems (member (js ''marks'') j))"

definition class_numbers :: "json option \<Rightarrow> int list" where
  "class_numbers j =
     List.map_filter (\<lambda>c. js_number (Some c))
       (elems (member (js ''classes'') j)
        @ concat (map (\<lambda>m. elems (member (js ''classes'') (Some m))) (elems (member (js ''marks'') j))))"

definition matter_mark :: "unicode \<Rightarrow> (jstr \<Rightarrow> jstr option) \<Rightarrow> jstr \<Rightarrow> json option \<Rightarrow> jstr" where
  "matter_mark u pipeline_of lvl j =
     (let names = mark_names j in
      if length names > 1 \<and> pipeline_of lvl = Some (js ''knockout'')
      then join (js '' + '') (sorted_set (map (\<lambda>n. norm u (Some n)) names))
      else norm u (orelse (member (js ''markName'') j)
             (orelse (member (js ''name'') j) (case names of n # _ \<Rightarrow> Some n | [] \<Rightarrow> None))))"

definition matter_fields :: "unicode \<Rightarrow> (jstr \<Rightarrow> jstr option) \<Rightarrow> jstr \<Rightarrow> json option \<Rightarrow> jstr list" where
  "matter_fields u pipeline_of lvl j =
     [lowered u (member (js ''forwarder'') j), matter_mark u pipeline_of lvl j,
      join [44] (map int_text (sorted_set (class_numbers j))),
      lowered u (member (js ''customer'') j), lowered u (orelse (member (js ''ref'') j) (member (js ''tmp'') j))]"

definition matterSignature :: "unicode \<Rightarrow> (jstr \<Rightarrow> jstr option) \<Rightarrow> json option \<Rightarrow> json option \<Rightarrow> jstr" where
  "matterSignature u pipeline_of product j =
     (let lvl = norm u (orelse product (member (js ''product'') j));
          base = join [124] (matter_fields u pipeline_of lvl j) in
      if lvl \<noteq> [] \<and> lvl \<noteq> BASELINE_PRODUCT then base @ js ''|level:'' @ lvl else base)"

text \<open>\<open>/\|level:([^|]*)$/\<close>: what follows the last bar.\<close>

definition sigLevel :: "jstr \<Rightarrow> jstr" where
  "sigLevel s =
     (let tail = after_last 124 s in
      if 124 \<in> set s \<and> starts_with (js ''level:'') tail \<and> drop 6 tail \<noteq> [] then drop 6 tail else BASELINE_PRODUCT)"

text \<open>\<open>sig.split("|")[1] || ""\<close>.\<close>

definition sig_mark :: "jstr \<Rightarrow> jstr" where
  "sig_mark s = takeWhile (\<lambda>c. c \<noteq> 124) (drop 1 (dropWhile (\<lambda>c. c \<noteq> 124) s))"

section \<open>The ledger\<close>

datatype ledger_file = Lines "json option list" | Absent | Unreadable_file

record queue_dir =
  qd_ledger :: ledger_file
  qd_entries :: "(jstr \<times> json option) list option"

definition readMatterLedger :: "ledger_file \<Rightarrow> json list" where
  "readMatterLedger l =
     (case l of Lines ls \<Rightarrow> List.map_filter (\<lambda>e. if truthy e then e else None) ls | _ \<Rightarrow> [])"

definition DEDUP_WINDOW_MS :: int where
  "DEDUP_WINDOW_MS = 24 * 3600000"

definition same_text :: "json option \<Rightarrow> jstr \<Rightarrow> bool" where
  "same_text v s \<longleftrightarrow> v = Some (JStr s)"

text \<open>Is the row one that can still block: not failed, from another message, inside the window? A time that is no
  number is inside it.\<close>

definition blocking :: "json option \<Rightarrow> int \<Rightarrow> json \<Rightarrow> bool" where
  "blocking msgId now e \<longleftrightarrow>
     \<not> truthy (member (js ''failed'') (Some e)) \<and> member (js ''msgId'') (Some e) \<noteq> msgId
     \<and> (case js_number (orelse (member (js ''ts'') (Some e)) (Some (JNum 0))) of
          Some t \<Rightarrow> now - t < DEDUP_WINDOW_MS | None \<Rightarrow> True)"

definition row_sig :: "json \<Rightarrow> jstr" where
  "row_sig e = string_or (member (js ''sig'') (Some e)) []"

definition same_matter :: "jstr \<Rightarrow> jstr \<Rightarrow> json \<Rightarrow> bool" where
  "same_matter sg conv e \<longleftrightarrow>
     (sig_mark sg \<noteq> [] \<and> same_text (member (js ''sig'') (Some e)) sg)
     \<or> (conv \<noteq> [] \<and> same_text (member (js ''conversationId'') (Some e)) conv
         \<and> (sig_mark sg = [] \<or> sig_mark (row_sig e) = [] \<or> sig_mark sg = sig_mark (row_sig e))
         \<and> sigLevel sg = sigLevel (row_sig e))"

definition findDuplicateMatter :: "ledger_file \<Rightarrow> jstr \<Rightarrow> json option \<Rightarrow> json option \<Rightarrow> int \<Rightarrow> json option" where
  "findDuplicateMatter l sg conversationId msgId now =
     (let conv = js_trim (string_or conversationId []) in
      if sig_mark sg = [] \<and> conv = [] then None
      else List.find (\<lambda>e. blocking msgId now e \<and> same_matter sg conv e) (readMatterLedger l))"

text \<open>The switch says whether the row came to stand on a line of its own. Where it did not, the ledger reads as it did: the
  append failed; or it was cut short, and left a line that does not parse; or the last line had been cut short before, and
  the row was joined to it, so that the one line that does not parse stays one. The row is then lost.\<close>

definition append_row :: "json \<Rightarrow> ledger_file \<Rightarrow> ledger_file" where
  "append_row e l = (case l of Lines ls \<Rightarrow> Lines (ls @ [Some e]) | Absent \<Rightarrow> Lines [Some e] | Unreadable_file \<Rightarrow> Unreadable_file)"

definition recordMatter :: "bool \<Rightarrow> json \<Rightarrow> ledger_file \<Rightarrow> ledger_file" where
  "recordMatter ok e l =
     (if truthy (member (js ''msgId'') (Some e))
         \<and> list_ex (\<lambda>r. member (js ''msgId'') (Some r) = member (js ''msgId'') (Some e)) (readMatterLedger l)
      then l else if ok then append_row e l else l)"

definition mark_failed :: "json option \<Rightarrow> json \<Rightarrow> json" where
  "mark_failed msgId e =
     (if member (js ''msgId'') (Some e) = msgId
      then JObj (AList.update (js ''failed'') (JBool True) (spread (Some e))) else e)"

definition dropMatter :: "bool \<Rightarrow> json option \<Rightarrow> ledger_file \<Rightarrow> ledger_file" where
  "dropMatter ok msgId l =
     (if ok then Lines (map (\<lambda>e. Some (mark_failed msgId e)) (readMatterLedger l)) else l)"

section \<open>Days and months\<close>

text \<open>The date of a day counted from 1970-01-01, in the proleptic Gregorian calendar.\<close>

definition civil :: "int \<Rightarrow> int \<times> int \<times> int" where
  "civil days =
     (let z = days + 719468; era = z div 146097; doe = z mod 146097;
          yoe = (doe - doe div 1460 + doe div 36524 - doe div 146096) div 365;
          doy = doe - (365 * yoe + yoe div 4 - yoe div 100);
          mp = (5 * doy + 2) div 153;
          m = (if mp < 10 then mp + 3 else mp - 9)
      in (yoe + era * 400 + (if m \<le> 2 then 1 else 0), m, doy - (153 * mp + 2) div 5 + 1))"

definition padded :: "nat \<Rightarrow> int \<Rightarrow> jstr" where
  "padded w n = (let t = int_text n in replicate (w - length t) 48 @ t)"

text \<open>The date part of \<open>toISOString\<close>; outside the range of a date it throws.\<close>

definition iso_date :: "int \<Rightarrow> jstr option" where
  "iso_date ts =
     (if \<bar>ts\<bar> > 8640000000000000 then None
      else case civil (ts div 86400000) of (y, m, d) \<Rightarrow>
        Some ((if 0 \<le> y \<and> y \<le> 9999 then padded 4 y else (if y < 0 then 45 else 43) # padded 6 \<bar>y\<bar>)
          @ [45] @ padded 2 m @ [45] @ padded 2 d))"

definition day_key :: "jstr \<Rightarrow> jstr" where "day_key t = take 10 (t @ js ''T'')"
definition month_key :: "jstr \<Rightarrow> jstr" where "month_key t = take 7 t"

section \<open>The caps of an account\<close>

record run_caps =
  rc_maxQueued :: "int option"
  rc_dailyRuns :: "int option"
  rc_monthlyRuns :: "int option"

definition DEFAULT_CLIENT_DAILY_RUNS :: int where
  "DEFAULT_CLIENT_DAILY_RUNS = 20"

text \<open>\<open>(key ?? null) === account && (account !== "generic" || (org ?? null) === organisation)\<close>.\<close>

definition in_lane :: "jstr \<Rightarrow> jstr option \<Rightarrow> json option \<Rightarrow> json option \<Rightarrow> bool" where
  "in_lane account organisation key org \<longleftrightarrow>
     key = Some (JStr account)
     \<and> (account \<noteq> js ''generic''
        \<or> (case organisation of Some t \<Rightarrow> org = Some (JStr t) | None \<Rightarrow> nullish org))"

definition row_in_lane :: "jstr \<Rightarrow> jstr option \<Rightarrow> json \<Rightarrow> bool" where
  "row_in_lane account organisation e \<longleftrightarrow>
     in_lane account organisation (member (js ''profileKey'') (Some e)) (member (js ''organisation'') (Some e))"

definition job_in_lane :: "jstr \<Rightarrow> jstr option \<Rightarrow> jstr \<times> json option \<Rightarrow> bool" where
  "job_in_lane account organisation f \<longleftrightarrow>
     isLiveQueueMarker (fst f)
     \<and> (case snd f of
          Some j \<Rightarrow> in_lane account organisation (member (js ''profileKey'') (Some j)) (member (js ''tenant'') (Some j))
        | None \<Rightarrow> False)"

definition queued_in_lane :: "jstr \<Rightarrow> jstr option \<Rightarrow> queue_dir list \<Rightarrow> int" where
  "queued_in_lane account organisation qds =
     int (length (filter (job_in_lane account organisation)
       (concat (map (\<lambda>q. case qd_entries q of Some es \<Rightarrow> es | None \<Rightarrow> []) qds))))"

text \<open>The loops over the ledgers throw at the first row of the lane whose time is no date.\<close>

fun count_rows :: "(json \<Rightarrow> bool) \<Rightarrow> (jstr \<Rightarrow> bool) \<Rightarrow> json list \<Rightarrow> int option" where
  "count_rows sel on [] = Some 0"
| "count_rows sel on (e # es) =
     (case (sel e, member (js ''ts'') (Some e)) of
        (True, Some (JNum t)) \<Rightarrow>
          (case iso_date t of
             None \<Rightarrow> None
           | Some d \<Rightarrow> map_option (\<lambda>n. if on d then n + 1 else n) (count_rows sel on es))
      | _ \<Rightarrow> count_rows sel on es)"

definition ledger_rows :: "queue_dir list \<Rightarrow> json list" where
  "ledger_rows qds = concat (map (\<lambda>q. readMatterLedger (qd_ledger q)) qds)"

definition client_row :: "jstr \<Rightarrow> jstr option \<Rightarrow> json \<Rightarrow> bool" where
  "client_row account organisation e \<longleftrightarrow>
     member (js ''failed'') (Some e) \<noteq> Some (JBool True)
     \<and> row_in_lane account organisation e \<and> member (js ''clientPrincipal'') (Some e) = Some (JBool True)"

datatype cap_refusal = OverQueued int | OverDaily int | OverMonthly int

datatype cap_answer = Passes | Refused_cap cap_refusal | Throws

definition over :: "int option \<Rightarrow> int \<Rightarrow> bool" where
  "over cap n \<longleftrightarrow> (case cap of Some c \<Rightarrow> c < n | None \<Rightarrow> False)"

definition daily_cap :: "run_caps \<Rightarrow> int" where
  "daily_cap caps = (case rc_dailyRuns caps of Some n \<Rightarrow> n | None \<Rightarrow> DEFAULT_CLIENT_DAILY_RUNS)"

definition checkRunCaps ::
  "jstr option \<Rightarrow> run_caps \<Rightarrow> queue_dir list \<Rightarrow> bool \<Rightarrow> int \<Rightarrow> bool \<Rightarrow> jstr option \<Rightarrow> cap_answer" where
  "checkRunCaps account caps qds inHandTagged now clientRun organisation =
     (case account of
        None \<Rightarrow> Passes
      | Some acc \<Rightarrow>
          if acc = [] then Passes
          else case iso_date now of
            None \<Rightarrow> Throws
          | Some d \<Rightarrow>
              let inFlight = queued_in_lane acc organisation qds + (if inHandTagged then 0 else 1) in
              if over (rc_maxQueued caps) inFlight then Refused_cap (OverQueued (inFlight - 1))
              else
                case (if clientRun
                      then map_option Some (count_rows (client_row acc organisation) (\<lambda>x. day_key x = day_key d) (ledger_rows qds))
                      else Some None) of
                  None \<Rightarrow> Throws
                | Some today \<Rightarrow>
                    if (case today of Some n \<Rightarrow> daily_cap caps < n + 1 | None \<Rightarrow> False)
                    then Refused_cap (OverDaily (the today))
                    else if rc_monthlyRuns caps = None then Passes
                    else (case count_rows (row_in_lane acc organisation) (\<lambda>x. month_key x = month_key d) (ledger_rows qds) of
                        None \<Rightarrow> Throws
                      | Some n \<Rightarrow> if over (rc_monthlyRuns caps) (n + 1) then Refused_cap (OverMonthly n) else Passes))"

section \<open>What a client is shown of its allowance\<close>

datatype usage_basis = Counted | NoLedger | UnreadableLedger | NoQueues

record usage =
  us_today :: int
  us_month :: int
  us_queued :: int
  us_basis :: usage_basis

text \<open>One ledger: what was counted until a row threw, and whether one did. A line that parses to null throws; a line
  that does not parse is passed over.\<close>

fun usage_rows :: "jstr \<Rightarrow> jstr option \<Rightarrow> jstr \<Rightarrow> json option list \<Rightarrow> int \<times> int \<Rightarrow> (int \<times> int) \<times> bool" where
  "usage_rows acc org d [] tm = (tm, False)"
| "usage_rows acc org d (None # ls) tm = usage_rows acc org d ls tm"
| "usage_rows acc org d (Some e # ls) (today, month) =
     (if e = JNull then ((today, month), True)
      else case (row_in_lane acc org e, member (js ''ts'') (Some e)) of
        (True, Some (JNum t)) \<Rightarrow>
          (case iso_date t of
             None \<Rightarrow> ((today, month), True)
           | Some x \<Rightarrow>
               usage_rows acc org d ls
                 (if day_key x = day_key d \<and> client_row acc org e then today + 1 else today,
                  if month_key x = month_key d then month + 1 else month))
      | _ \<Rightarrow> usage_rows acc org d ls (today, month))"

fun usage_ledgers :: "jstr \<Rightarrow> jstr option \<Rightarrow> jstr \<Rightarrow> queue_dir list \<Rightarrow> (int \<times> int) \<times> bool \<times> bool \<Rightarrow> (int \<times> int) \<times> bool \<times> bool" where
  "usage_ledgers acc org d [] s = s"
| "usage_ledgers acc org d (q # qs) (tm, read, bad) =
     usage_ledgers acc org d qs
       (case qd_ledger q of
          Lines ls \<Rightarrow> (let (tm', threw) = usage_rows acc org d ls tm in (tm', True, bad \<or> threw))
        | Absent \<Rightarrow> (tm, read, bad)
        | Unreadable_file \<Rightarrow> (tm, read, True))"

definition accountUsage :: "queue_dir list \<Rightarrow> jstr \<Rightarrow> jstr option \<Rightarrow> int \<Rightarrow> usage option" where
  "accountUsage qds acc org now =
     (case iso_date now of
        None \<Rightarrow> None
      | Some d \<Rightarrow>
          let ((today, month), read, bad) = usage_ledgers acc org d qds ((0, 0), False, False) in
          Some \<lparr> us_today = today, us_month = month, us_queued = queued_in_lane acc org qds,
                 us_basis = (if bad then UnreadableLedger else if read then Counted else if qds \<noteq> [] then NoLedger else NoQueues) \<rparr>)"

definition us_complete :: "usage \<Rightarrow> bool" where
  "us_complete u \<longleftrightarrow> us_basis u = Counted"

section \<open>When a parked run is due\<close>

record park_clock =
  probeMs :: int
  probeCeilingMs :: int
  backoffMs :: int

definition parsed_date :: "(jstr \<Rightarrow> int option) \<Rightarrow> json option \<Rightarrow> int option" where
  "parsed_date parse v = (if truthy v then parse (template v) else None)"

definition probe_attempt :: "json option \<Rightarrow> nat" where
  "probe_attempt meta =
     nat (max 0 (min 16 (case js_number (member (js ''probeAttempt'') meta) of Some n \<Rightarrow> n | None \<Rightarrow> 0)))"

definition probe_at :: "(jstr \<Rightarrow> int option) \<Rightarrow> park_clock \<Rightarrow> json option \<Rightarrow> int option" where
  "probe_at parse k meta =
     map_option (\<lambda>p. p + min (probeCeilingMs k) (probeMs k * 2 ^ probe_attempt meta))
       (parsed_date parse (member (js ''postponedAt'') meta))"

definition postponedDueAt :: "(jstr \<Rightarrow> int option) \<Rightarrow> park_clock \<Rightarrow> json option \<Rightarrow> int" where
  "postponedDueAt parse k meta =
     (case parsed_date parse (member (js ''resetsAt'') meta) of
        Some t \<Rightarrow> (case probe_at parse k meta of Some a \<Rightarrow> min t a | None \<Rightarrow> t)
      | None \<Rightarrow>
          (case parsed_date parse (member (js ''recoveryResumesAt'') meta) of
             Some t \<Rightarrow> t
           | None \<Rightarrow>
               (case parsed_date parse (member (js ''postponedAt'') meta) of Some p \<Rightarrow> p + backoffMs k | None \<Rightarrow> 0)))"

end
