(* ===== verification/IntakeSpec.thy ===== *)
theory IntakeSpec
  imports Intake ClaimLiveness
begin

text \<open>What the gates of \<open>Intake\<close> promise: a signature names one matter, a matter that runs is not run again and a
  failed one frees it, the allowance shown is the one enforced, and a parked run is never kept past its probe.\<close>

section \<open>Lemmas on joined texts\<close>

lemma count_join: "list_all (\<lambda>f. c \<notin> set f) fs \<Longrightarrow> count_list (join [c] fs) c = length fs - 1"
proof (induction "[c]" fs rule: join.induct)
  case (3 x y zs)
  then show ?case by (auto simp: count_notin)
qed (auto simp: count_notin)

lemma sep_inj: "c \<notin> set a \<Longrightarrow> c \<notin> set b \<Longrightarrow> a @ c # x = b @ c # y \<longleftrightarrow> a = b \<and> x = y"
proof (induction a arbitrary: b)
  case (Cons z a)
  then show ?case by (cases b) auto
qed (auto simp: Cons_eq_append_conv)

lemma join_more: "fs \<noteq> [] \<Longrightarrow> join [c] (f # fs) = f @ c # join [c] fs"
  by (cases fs) simp_all

lemma join_inj_length:
  "length xs = length ys \<Longrightarrow> list_all (\<lambda>f. c \<notin> set f) xs \<Longrightarrow> list_all (\<lambda>f. c \<notin> set f) ys \<Longrightarrow>
    join [c] xs = join [c] ys \<longleftrightarrow> xs = ys"
proof (induction xs ys rule: list_induct2)
  case (Cons x xs y ys)
  show ?case
  proof (cases "xs = []")
    case False
    then have "ys \<noteq> []" using Cons.hyps by auto
    then have "join [c] (x # xs) = join [c] (y # ys) \<longleftrightarrow> x = y \<and> join [c] xs = join [c] ys"
      using Cons.prems False sep_inj[of c x y] by (simp only: join_more list.pred_inject simp_thms)
    then show ?thesis using Cons.IH Cons.prems by simp
  qed (use Cons.hyps in simp)
qed simp

lemma join_inj:
  assumes "xs \<noteq> []" "ys \<noteq> []" "list_all (\<lambda>f. c \<notin> set f) xs" "list_all (\<lambda>f. c \<notin> set f) ys"
  shows "join [c] xs = join [c] ys \<longleftrightarrow> xs = ys"
proof
  assume eq: "join [c] xs = join [c] ys"
  then have "length xs - 1 = length ys - 1"
    using count_join[OF assms(3)] count_join[OF assms(4)] by simp
  then have "length xs = length ys" using assms(1,2) by (cases xs; cases ys) auto
  then show "xs = ys" using join_inj_length[OF _ assms(3,4)] eq by simp
qed simp

lemma join_snoc: "xs \<noteq> [] \<Longrightarrow> join sep (xs @ [y]) = join sep xs @ sep @ y"
  by (induction sep xs rule: join.induct) auto

section \<open>The signature\<close>

definition matter_level :: "unicode \<Rightarrow> json option \<Rightarrow> json option \<Rightarrow> jstr" where
  "matter_level u product j = norm u (orelse product (member (js ''product'') j))"

definition level_suffix :: "jstr \<Rightarrow> jstr list" where
  "level_suffix lvl = (if lvl \<noteq> [] \<and> lvl \<noteq> BASELINE_PRODUCT then [js ''level:'' @ lvl] else [])"

definition unbarred :: "unicode \<Rightarrow> (jstr \<Rightarrow> jstr option) \<Rightarrow> json option \<Rightarrow> json option \<Rightarrow> bool" where
  "unbarred u p product j \<longleftrightarrow>
     (let lvl = matter_level u product j in 124 \<notin> set lvl \<and> list_all (\<lambda>f. 124 \<notin> set f) (matter_fields u p lvl j))"

lemma fields_not_empty [simp]: "matter_fields u p lvl j \<noteq> []" and fields_length [simp]: "length (matter_fields u p lvl j) = 5"
  by (simp_all add: matter_fields_def)

lemma signature_joined:
  "matterSignature u p product j =
    join [124] (matter_fields u p (matter_level u product j) j @ level_suffix (matter_level u product j))"
  by (simp add: matterSignature_def matter_level_def level_suffix_def Let_def join_snoc)

lemma level_suffix_plain: "124 \<notin> set lvl \<Longrightarrow> list_all (\<lambda>f. 124 \<notin> set f) (level_suffix lvl)"
  by (simp add: level_suffix_def)

lemma sig_mark_fields:
  "124 \<notin> set a \<Longrightarrow> 124 \<notin> set b \<Longrightarrow> sig_mark (join [124] (a # b # c # r)) = b"
  unfolding sig_mark_def by (simp add: dropWhile_append takeWhile_append)

lemma unbarred_fields:
  "unbarred u p pr j \<Longrightarrow>
    list_all (\<lambda>f. 124 \<notin> set f) (matter_fields u p (matter_level u pr j) j @ level_suffix (matter_level u pr j))"
  using level_suffix_plain by (simp add: unbarred_def Let_def)

text \<open>What a job says of its matter. Its level, where a silent job and the baseline product are one level; its mark, which
  for a batch of a knockout is its set of names and else the first name given; the numbers of its classes.\<close>

definition level_said :: "unicode \<Rightarrow> json option \<Rightarrow> json option \<Rightarrow> jstr" where
  "level_said u product j = (if matter_level u product j = [] then BASELINE_PRODUCT else matter_level u product j)"

definition batch :: "unicode \<Rightarrow> (jstr \<Rightarrow> jstr option) \<Rightarrow> json option \<Rightarrow> json option \<Rightarrow> bool" where
  "batch u p product j \<longleftrightarrow> 1 < length (mark_names j) \<and> p (matter_level u product j) = Some (js ''knockout'')"

definition mark_said :: "unicode \<Rightarrow> (jstr \<Rightarrow> jstr option) \<Rightarrow> json option \<Rightarrow> json option \<Rightarrow> jstr \<Rightarrow> bool" where
  "mark_said u p product j m \<longleftrightarrow>
     (if batch u p product j
      then \<exists>ns. sorted ns \<and> distinct ns \<and> set ns = {norm u (Some n) |n. n \<in> set (mark_names j)} \<and> m = join (js '' + '') ns
      else m = norm u
        (if \<not> nullish (member (js ''markName'') j) then member (js ''markName'') j
         else if \<not> nullish (member (js ''name'') j) then member (js ''name'') j
         else case mark_names j of n # _ \<Rightarrow> Some n | [] \<Rightarrow> None))"

definition classes_said :: "json option \<Rightarrow> int set" where
  "classes_said j =
     {n. \<exists>c. (c \<in> set (elems (member (js ''classes'') j))
              \<or> (\<exists>m \<in> set (elems (member (js ''marks'') j)). c \<in> set (elems (member (js ''classes'') (Some m)))))
          \<and> js_number (Some c) = Some n}"

definition reference_said :: "json option \<Rightarrow> json option" where
  "reference_said j = (if nullish (member (js ''ref'') j) then member (js ''tmp'') j else member (js ''ref'') j)"

lemma mark_said_iff: "mark_said u p product j m \<longleftrightarrow> m = matter_mark u p (matter_level u product j) j"
proof (cases "batch u p product j")
  case True
  let ?ns = "sorted_set (map (\<lambda>n. norm u (Some n)) (mark_names j))"
  have "set ?ns = {norm u (Some n) |n. n \<in> set (mark_names j)}" by auto
  then have pin: "sorted ns \<and> distinct ns \<and> set ns = {norm u (Some n) |n. n \<in> set (mark_names j)} \<and> m = join (js '' + '') ns
      \<longleftrightarrow> ns = ?ns \<and> m = join (js '' + '') ?ns" for ns
    using sorted_distinct_set_unique[of ns ?ns] by (auto simp del: js_Cons)
  have "mark_said u p product j m \<longleftrightarrow> m = join (js '' + '') ?ns" using True unfolding mark_said_def pin by (simp del: js_Cons)
  then show ?thesis using True by (simp add: matter_mark_def batch_def Let_def)
next
  case False
  then show ?thesis by (auto simp: mark_said_def matter_mark_def batch_def Let_def orelse_def)
qed

lemma set_class_numbers: "set (class_numbers j) = classes_said j"
  by (auto simp: class_numbers_def classes_said_def map_filter_def intro: rev_image_eqI)

lemma int_text_neg: "i < 0 \<Longrightarrow> int_text i = 45 # int_text (- i)"
  by (simp add: int_text_def)

lemma int_text_plain: "0 \<le> i \<Longrightarrow> number_of (int_text i) = nat i \<and> list_all is_digit (int_text i) \<and> int_text i \<noteq> []"
  using pid_text[of "nat i"] by simp

lemma int_text_inj: "int_text i = int_text k \<Longrightarrow> i = k"
proof -
  have no: "0 \<le> a \<Longrightarrow> int_text a \<noteq> 45 # s" for a s using int_text_plain[of a] by (auto simp: is_digit_def)
  have inj: "0 \<le> a \<Longrightarrow> 0 \<le> b \<Longrightarrow> int_text a = int_text b \<Longrightarrow> a = b" for a b
    using int_text_plain[of a] int_text_plain[of b] by (metis nat_eq_iff)
  assume e: "int_text i = int_text k"
  consider "0 \<le> i" "0 \<le> k" | "i < 0" "k < 0" | "0 \<le> i" "k < 0" | "i < 0" "0 \<le> k" by linarith
  then show "i = k"
  proof cases
    case 1
    then show ?thesis using inj e by blast
  next
    case 2
    then have "int_text (- i) = int_text (- k)" using e by (simp add: int_text_neg)
    then show ?thesis using inj[of "- i" "- k"] 2 by simp
  next
    case 3
    then show ?thesis using no[of i "int_text (- k)"] unfolding e int_text_neg[OF 3(2)] by blast
  next
    case 4
    then show ?thesis using no[of k "int_text (- i)"] unfolding e[symmetric] int_text_neg[OF 4(1)] by blast
  qed
qed

lemma int_text_comma: "44 \<notin> set (int_text i)" and int_text_some: "int_text i \<noteq> []"
proof -
  have "44 \<notin> set (int_text a) \<and> int_text a \<noteq> []" if "0 \<le> a" for a
    using int_text_plain[OF that] by (auto simp: is_digit_def list_all_iff)
  then have "44 \<notin> set (int_text i) \<and> int_text i \<noteq> []"
    using int_text_neg[of i] by (cases "0 \<le> i") auto
  then show "44 \<notin> set (int_text i)" "int_text i \<noteq> []" by simp_all
qed

lemma no_classes: "join [44] (map int_text ns) = [] \<longleftrightarrow> ns = []"
  using int_text_some by (cases ns rule: remdups_adj.cases) auto

lemma class_text:
  "join [44] (map int_text (sorted_set ns)) = join [44] (map int_text (sorted_set ms)) \<longleftrightarrow> set ns = set ms"
proof
  assume e: "join [44] (map int_text (sorted_set ns)) = join [44] (map int_text (sorted_set ms))"
  have "sorted_set ns = sorted_set ms"
  proof (cases "sorted_set ns = [] \<or> sorted_set ms = []")
    case True
    then show ?thesis using e no_classes by (metis list.map_disc_iff)
  next
    case False
    then have "map int_text (sorted_set ns) = map int_text (sorted_set ms)"
      using e by (subst (asm) join_inj) (auto simp: int_text_comma list_all_iff)
    then show ?thesis using int_text_inj by (auto dest: map_injective intro: injI)
  qed
  then show "set ns = set ms" using set_sorted_set by metis
next
  assume "set ns = set ms"
  then have "sorted_set ns = sorted_set ms" by (intro sorted_distinct_set_unique) simp_all
  then show "join [44] (map int_text (sorted_set ns)) = join [44] (map int_text (sorted_set ms))" by simp
qed

lemma level_suffix_same:
  "level_suffix (matter_level u pr1 j1) = level_suffix (matter_level u pr2 j2) \<longleftrightarrow> level_said u pr1 j1 = level_said u pr2 j2"
  by (auto simp: level_suffix_def level_said_def simp del: js_Cons)

text \<open>C33: A signature names one matter. Between jobs none of whose fields holds a bar, two signatures are the same text
  exactly when the two jobs name the same forwarder, mark, classes, customer and reference, case and outer blanks aside, and
  the same level, a silent level being the baseline product. Their classes are compared as sets, and the names of a knockout
  of several marks too. What the thread rule reads back from the signature is the mark of the job.\<close>

theorem signature_exact:
  assumes "unbarred u p pr1 j1" and "unbarred u p pr2 j2"
  shows "(matterSignature u p pr1 j1 = matterSignature u p pr2 j2 \<longleftrightarrow>
      lowered u (member (js ''forwarder'') j1) = lowered u (member (js ''forwarder'') j2)
      \<and> (\<exists>m. mark_said u p pr1 j1 m \<and> mark_said u p pr2 j2 m)
      \<and> classes_said j1 = classes_said j2
      \<and> lowered u (member (js ''customer'') j1) = lowered u (member (js ''customer'') j2)
      \<and> lowered u (reference_said j1) = lowered u (reference_said j2)
      \<and> level_said u pr1 j1 = level_said u pr2 j2)
    \<and> mark_said u p pr1 j1 (sig_mark (matterSignature u p pr1 j1))"
proof
  have "matterSignature u p pr1 j1 = matterSignature u p pr2 j2 \<longleftrightarrow>
      matter_fields u p (matter_level u pr1 j1) j1 = matter_fields u p (matter_level u pr2 j2) j2
      \<and> level_suffix (matter_level u pr1 j1) = level_suffix (matter_level u pr2 j2)"
    using unbarred_fields[OF assms(1)] unbarred_fields[OF assms(2)] unfolding signature_joined by (subst join_inj) auto
  then show "matterSignature u p pr1 j1 = matterSignature u p pr2 j2 \<longleftrightarrow>
      lowered u (member (js ''forwarder'') j1) = lowered u (member (js ''forwarder'') j2)
      \<and> (\<exists>m. mark_said u p pr1 j1 m \<and> mark_said u p pr2 j2 m)
      \<and> classes_said j1 = classes_said j2
      \<and> lowered u (member (js ''customer'') j1) = lowered u (member (js ''customer'') j2)
      \<and> lowered u (reference_said j1) = lowered u (reference_said j2)
      \<and> level_said u pr1 j1 = level_said u pr2 j2"
    by (simp add: matter_fields_def level_suffix_same mark_said_iff class_text set_class_numbers reference_said_def orelse_def
        del: js_Cons)
  show "mark_said u p pr1 j1 (sig_mark (matterSignature u p pr1 j1))"
    using assms(1) unfolding signature_joined unbarred_def matter_fields_def Let_def mark_said_iff
    by (simp add: sig_mark_fields del: join.simps)
qed

section \<open>The duplicate gate\<close>

lemma ledger_append:
  "l \<noteq> Unreadable_file \<Longrightarrow> truthy (Some e) \<Longrightarrow> readMatterLedger (append_row e l) = readMatterLedger l @ [e]"
  by (cases l) (simp_all add: append_row_def readMatterLedger_def map_filter_def)

lemma ledger_rows_truthy: "e \<in> set (readMatterLedger l) \<Longrightarrow> truthy (Some e)"
  by (auto simp: readMatterLedger_def map_filter_def split: ledger_file.splits if_splits)

lemma ledger_drop:
  assumes "m \<noteq> None"
  shows "readMatterLedger (dropMatter True m l) = map (mark_failed m) (readMatterLedger l)"
proof -
  have "truthy (Some (mark_failed m e))" if "e \<in> set (readMatterLedger l)" for e
    using ledger_rows_truthy[OF that] by (simp add: mark_failed_def)
  then have "List.map_filter (\<lambda>e. if truthy e then e else None) (map (\<lambda>e. Some (mark_failed m e)) (readMatterLedger l))
      = map (mark_failed m) (readMatterLedger l)"
    by (simp add: map_filter_def comp_def)
  then show ?thesis by (simp add: dropMatter_def readMatterLedger_def[of "Lines _"])
qed

lemma member_object: "member k (Some e) = Some v \<Longrightarrow> \<exists>fs. e = JObj fs"
  by (cases e) auto

lemma mark_failed_member:
  assumes "m \<noteq> None"
  shows "member k (Some (mark_failed m e)) =
    (if member (js ''msgId'') (Some e) = m \<and> k = js ''failed'' then Some (JBool True) else member k (Some e))"
proof (cases "member (js ''msgId'') (Some e) = m")
  case True
  then obtain fs where "e = JObj fs" using assms member_object by (metis not_None_eq)
  then show ?thesis using True by (simp add: mark_failed_def update_conv' del: js_Cons)
qed (simp add: mark_failed_def)

text \<open>Only a live run of the same matter is a duplicate. The row the gate names is in the ledger, is no failed run
  and no run of this message, lies inside the window, is of the same level, and is of the same signature or of
  the same thread with marks that do not differ; where it names none, no live row of another message bears the
  signature.\<close>

theorem duplicate_is_live:
  "(findDuplicateMatter l sg conv msg now = Some e \<longrightarrow>
      e \<in> set (readMatterLedger l) \<and> blocking msg now e \<and> sigLevel sg = sigLevel (row_sig e)
      \<and> (row_sig e = sg \<or> same_text (member (js ''conversationId'') (Some e)) (js_trim (string_or conv [])))
      \<and> (sig_mark sg = [] \<or> sig_mark (row_sig e) = [] \<or> sig_mark sg = sig_mark (row_sig e)))
    \<and> (findDuplicateMatter l sg conv msg now = None \<and> sig_mark sg \<noteq> [] \<longrightarrow>
        (\<forall>e\<in>set (readMatterLedger l). blocking msg now e \<longrightarrow> member (js ''sig'') (Some e) \<noteq> Some (JStr sg)))"
proof (intro conjI impI ballI)
  assume "findDuplicateMatter l sg conv msg now = Some e"
  then have "List.find (\<lambda>e. blocking msg now e \<and> same_matter sg (js_trim (string_or conv [])) e) (readMatterLedger l) = Some e"
    by (simp add: findDuplicateMatter_def Let_def split: if_splits)
  from find_in[OF this] show "e \<in> set (readMatterLedger l)" "blocking msg now e" "sigLevel sg = sigLevel (row_sig e)"
    "row_sig e = sg \<or> same_text (member (js ''conversationId'') (Some e)) (js_trim (string_or conv []))"
    "sig_mark sg = [] \<or> sig_mark (row_sig e) = [] \<or> sig_mark sg = sig_mark (row_sig e)"
    by (auto simp: same_matter_def same_text_def row_sig_def simp del: js_Cons)
next
  fix e assume "findDuplicateMatter l sg conv msg now = None \<and> sig_mark sg \<noteq> []" "e \<in> set (readMatterLedger l)" "blocking msg now e"
  then show "member (js ''sig'') (Some e) \<noteq> Some (JStr sg)"
    by (auto simp: findDuplicateMatter_def Let_def find_None_iff same_matter_def same_text_def simp del: js_Cons)
qed

lemma blocking_failed: "m \<noteq> None \<Longrightarrow> blocking msg now (mark_failed m e) \<longleftrightarrow>
    blocking msg now e \<and> member (js ''msgId'') (Some e) \<noteq> m"
  by (simp add: blocking_def mark_failed_member del: js_Cons)

lemma same_matter_failed [simp]: "m \<noteq> None \<Longrightarrow> same_matter sg conv (mark_failed m e) = same_matter sg conv e"
  by (simp add: same_matter_def row_sig_def mark_failed_member del: js_Cons)

lemma mark_failed_other: "member (js ''msgId'') (Some e) \<noteq> m \<Longrightarrow> mark_failed m e = e"
  by (simp add: mark_failed_def)

text \<open>C23: A matter runs once and a failed one is free again. Once the row of a run is written, every other message of
  its matter within the window is a duplicate; when the run fails, the gate answers every message as it did
  before the row was there.\<close>

theorem matter_runs_once:
  assumes "l \<noteq> Unreadable_file"
    and "member (js ''sig'') (Some e) = Some (JStr sg)" and "sig_mark sg \<noteq> []"
    and "member (js ''msgId'') (Some e) = Some m" and "truthy (Some m)"
    and "member (js ''ts'') (Some e) = Some (JNum t)" and "member (js ''failed'') (Some e) = None"
    and "\<forall>r\<in>set (readMatterLedger l). member (js ''msgId'') (Some r) \<noteq> Some m"
  shows "(msg \<noteq> Some m \<and> now - t < DEDUP_WINDOW_MS \<longrightarrow>
      findDuplicateMatter (recordMatter True e l) sg conv msg now \<noteq> None)
    \<and> findDuplicateMatter (dropMatter True (Some m) (recordMatter True e l)) sg' conv msg' now'
       = findDuplicateMatter l sg' conv msg' now'"
proof -
  have obj: "truthy (Some e)" using assms(4) by (cases e) auto
  have rec: "readMatterLedger (recordMatter True e l) = readMatterLedger l @ [e]"
    using assms(4,5,8) ledger_append[OF assms(1) obj] by (auto simp: recordMatter_def list_ex_iff simp del: js_Cons)
  have "readMatterLedger (dropMatter True (Some m) (recordMatter True e l)) = readMatterLedger l @ [mark_failed (Some m) e]"
    using assms(8) by (simp add: ledger_drop rec mark_failed_other del: js_Cons cong: map_cong)
  moreover have "\<not> blocking msg' now' (mark_failed (Some m) e)" using assms(4) by (simp add: blocking_failed del: js_Cons)
  ultimately have "findDuplicateMatter (dropMatter True (Some m) (recordMatter True e l)) sg' conv msg' now'
      = findDuplicateMatter l sg' conv msg' now'"
    by (simp add: findDuplicateMatter_def Let_def find_append split: option.splits)
  moreover have "findDuplicateMatter (recordMatter True e l) sg conv msg now \<noteq> None"
    if "msg \<noteq> Some m \<and> now - t < DEDUP_WINDOW_MS"
  proof -
    have "blocking msg now e" using that assms(4,6,7) by (auto simp: blocking_def orelse_def simp del: js_Cons)
    then show ?thesis
      using assms(2,3) rec
      by (auto simp: findDuplicateMatter_def Let_def find_None_iff same_matter_def same_text_def simp del: js_Cons)
  qed
  ultimately show ?thesis by blast
qed

lemma lane_failed [simp]: "m \<noteq> None \<Longrightarrow> row_in_lane acc org (mark_failed m e) = row_in_lane acc org e"
  by (simp add: row_in_lane_def mark_failed_member del: js_Cons)

lemma client_failed: "m \<noteq> None \<Longrightarrow> client_row acc org (mark_failed m e) \<longleftrightarrow>
    client_row acc org e \<and> member (js ''msgId'') (Some e) \<noteq> m"
  by (auto simp: client_row_def mark_failed_member simp del: js_Cons)

lemma count_rows_map:
  assumes "\<And>e. e \<in> set es \<Longrightarrow> member (js ''ts'') (Some (f e)) = member (js ''ts'') (Some e)"
  shows "count_rows sel on (map f es) = count_rows (\<lambda>e. sel (f e)) on es"
  using assms by (induction es) (simp_all split: bool.splits option.splits json.splits del: js_Cons)

lemma count_rows_none: "count_rows (\<lambda>e. sel e \<and> P e) on es = None \<Longrightarrow> count_rows sel on es = None"
  by (induction es) (auto split: bool.splits option.splits json.splits simp del: js_Cons)

text \<open>A failed run is charged to the month and not to the day. Marking the runs of a message failed leaves the
  count of the monthly cap as it was and takes exactly that message's rows out of the daily one.\<close>

theorem failed_run_charged:
  "m \<noteq> None \<Longrightarrow>
    count_rows (row_in_lane acc org) on (readMatterLedger (dropMatter True m (Lines ls)))
      = count_rows (row_in_lane acc org) on (readMatterLedger (Lines ls))
    \<and> count_rows (client_row acc org) on (readMatterLedger (dropMatter True m (Lines ls)))
      = count_rows (\<lambda>e. client_row acc org e \<and> member (js ''msgId'') (Some e) \<noteq> m) on (readMatterLedger (Lines ls))"
  by (simp add: ledger_drop count_rows_map mark_failed_member client_failed del: js_Cons)

section \<open>The allowance shown and the allowance enforced\<close>

lemma count_rows_append:
  "count_rows sel on (xs @ ys) =
    (case (count_rows sel on xs, count_rows sel on ys) of (Some a, Some b) \<Rightarrow> Some (a + b) | _ \<Rightarrow> None)"
  by (induction xs) (auto split: bool.splits option.splits json.splits simp del: js_Cons)

lemma lane_object: "row_in_lane acc org e \<Longrightarrow> truthy (Some e) \<and> e \<noteq> JNull"
  by (cases e) (auto simp: row_in_lane_def in_lane_def)

lemma client_lane: "client_row acc org e \<Longrightarrow> row_in_lane acc org e"
  by (simp add: client_row_def)

lemma usage_rows_counts:
  "usage_rows acc org d ls (t, n) = ((t', n'), False) \<Longrightarrow>
    count_rows (client_row acc org) (\<lambda>x. day_key x = day_key d) (readMatterLedger (Lines ls)) = Some (t' - t)
    \<and> count_rows (row_in_lane acc org) (\<lambda>x. month_key x = month_key d) (readMatterLedger (Lines ls)) = Some (n' - n)"
proof (induction ls arbitrary: t n)
  case Nil
  then show ?case by (simp add: readMatterLedger_def)
next
  case (Cons o' ls)
  show ?case
  proof (cases o')
    case None
    then show ?thesis using Cons by (simp add: readMatterLedger_def)
  next
    case (Some e)
    have rows: "readMatterLedger (Lines (o' # ls)) = (if truthy (Some e) then [e] else []) @ readMatterLedger (Lines ls)"
      using Some by (simp add: readMatterLedger_def)
    show ?thesis
    proof (cases "row_in_lane acc org e")
      case False
      then have "\<not> client_row acc org e" using client_lane by blast
      moreover have "e \<noteq> JNull" using Cons.prems Some by auto
      ultimately show ?thesis using Cons False Some rows by simp
    next
      case True
      then have "truthy (Some e)" "e \<noteq> JNull" using lane_object by blast+
      then show ?thesis
        using Cons True Some rows
        by (fastforce split: option.splits json.splits if_splits bool.splits simp del: js_Cons)
    qed
  qed
qed

lemma usage_ledgers_bad: "usage_ledgers acc org d qs (tm, r, True) = (tm', r', b') \<Longrightarrow> b'"
  by (induction qs arbitrary: tm r) (auto split: ledger_file.splits prod.splits)

lemma usage_ledgers_counts:
  "usage_ledgers acc org d qs ((t, n), r, False) = ((t', n'), r', False) \<Longrightarrow>
    count_rows (client_row acc org) (\<lambda>x. day_key x = day_key d) (ledger_rows qs) = Some (t' - t)
    \<and> count_rows (row_in_lane acc org) (\<lambda>x. month_key x = month_key d) (ledger_rows qs) = Some (n' - n)"
proof (induction qs arbitrary: t n r)
  case Nil
  then show ?case by (simp add: ledger_rows_def)
next
  case (Cons q qs)
  have rows: "ledger_rows (q # qs) = readMatterLedger (qd_ledger q) @ ledger_rows qs" by (simp add: ledger_rows_def)
  show ?case
  proof (cases "qd_ledger q")
    case (Lines ls)
    obtain t1 n1 threw where one: "usage_rows acc org d ls (t, n) = ((t1, n1), threw)" by (metis prod.collapse)
    then have "\<not> threw" and rest: "usage_ledgers acc org d qs ((t1, n1), True, False) = ((t', n'), r', False)"
      using Cons.prems Lines usage_ledgers_bad by (cases threw; fastforce)+
    then show ?thesis using usage_rows_counts[of acc org d ls t n] one Cons.IH[OF rest] rows Lines
      by (simp add: count_rows_append)
  next
    case Absent
    then show ?thesis using Cons rows by (simp add: count_rows_append readMatterLedger_def)
  next
    case Unreadable_file
    then have False using Cons.prems usage_ledgers_bad by fastforce
    then show ?thesis ..
  qed
qed

lemma usage_counts:
  assumes "accountUsage qds acc org now = Some u" and "us_complete u"
  obtains d where "iso_date now = Some d" "us_queued u = queued_in_lane acc org qds"
    "count_rows (client_row acc org) (\<lambda>x. day_key x = day_key d) (ledger_rows qds) = Some (us_today u)"
    "count_rows (row_in_lane acc org) (\<lambda>x. month_key x = month_key d) (ledger_rows qds) = Some (us_month u)"
proof -
  obtain d where d: "iso_date now = Some d" using assms(1) by (auto simp: accountUsage_def split: option.splits)
  obtain t n r b where led: "usage_ledgers acc org d qds ((0, 0), False, False) = ((t, n), r, b)" by (metis prod.collapse)
  have "us_queued u = queued_in_lane acc org qds" "us_today u = t" "us_month u = n" "\<not> b"
    using assms d led by (auto simp: accountUsage_def us_complete_def)
  then show ?thesis using that[OF d] usage_ledgers_counts[of acc org d qds 0 0 False t n r] led by simp
qed

text \<open>C22: The allowance a client is shown is the one the gate enforces. Where the display says its numbers are a
  count, the gate of the same account, lane, queues and moment refuses exactly when the job in hand would take a
  number shown past its cap, in the order of the queue, the day and the month, and names the number shown.\<close>

theorem shown_is_enforced:
  assumes "accountUsage qds acc org now = Some u" and "us_complete u" and "acc \<noteq> []"
  shows "checkRunCaps (Some acc) caps qds tagged now client org =
    (let inFlight = us_queued u + (if tagged then 0 else 1) in
     if over (rc_maxQueued caps) inFlight then Refused_cap (OverQueued (inFlight - 1))
     else if client \<and> daily_cap caps < us_today u + 1 then Refused_cap (OverDaily (us_today u))
     else if over (rc_monthlyRuns caps) (us_month u + 1) then Refused_cap (OverMonthly (us_month u))
     else Passes)"
proof -
  obtain d where "iso_date now = Some d" "us_queued u = queued_in_lane acc org qds"
    "count_rows (client_row acc org) (\<lambda>x. day_key x = day_key d) (ledger_rows qds) = Some (us_today u)"
    "count_rows (row_in_lane acc org) (\<lambda>x. month_key x = month_key d) (ledger_rows qds) = Some (us_month u)"
    using usage_counts[OF assms(1,2)] .
  then show ?thesis using assms(3) by (simp add: checkRunCaps_def Let_def over_def)
qed

section \<open>When a parked run is due\<close>

lemma probe_attempt_le: "probe_attempt meta \<le> 16"
  by (auto simp: probe_attempt_def simp del: js_Cons split: option.splits)

lemma probe_grows:
  "0 \<le> probeMs k \<Longrightarrow> i \<le> j \<Longrightarrow> min (probeCeilingMs k) (probeMs k * 2 ^ i) \<le> min (probeCeilingMs k) (probeMs k * 2 ^ j)"
  by (intro min.mono order_refl mult_left_mono power_increasing) auto

text \<open>C34: A stated reset never holds a parked run longer than the probe. A run parked at a known time is due no later
  than the reset its provider stated and no later than the ceiling after the park, its probes stand between the
  first interval and the ceiling and never come closer as attempts fail, and a recovery park keeps its own clock.\<close>

theorem park_is_bounded:
  assumes "parsed_date parse (member (js ''postponedAt'') meta) = Some p" and "0 \<le> probeMs k" and "probeMs k \<le> probeCeilingMs k"
  shows "case parsed_date parse (member (js ''resetsAt'') meta) of
      Some t \<Rightarrow> postponedDueAt parse k meta \<le> t \<and> postponedDueAt parse k meta \<le> p + probeCeilingMs k
        \<and> min t (p + probeMs k) \<le> postponedDueAt parse k meta
        \<and> (\<forall>meta'. (\<forall>f. f \<noteq> js ''probeAttempt'' \<longrightarrow> member f meta' = member f meta) \<and> probe_attempt meta \<le> probe_attempt meta' \<longrightarrow>
             postponedDueAt parse k meta \<le> postponedDueAt parse k meta')
    | None \<Rightarrow> postponedDueAt parse k meta =
        (case parsed_date parse (member (js ''recoveryResumesAt'') meta) of Some t \<Rightarrow> t | None \<Rightarrow> p + backoffMs k)"
proof (cases "parsed_date parse (member (js ''resetsAt'') meta)")
  case None
  then show ?thesis using assms(1) by (simp add: postponedDueAt_def split: option.splits del: js_Cons)
next
  case (Some t)
  let ?w = "\<lambda>meta. min (probeCeilingMs k) (probeMs k * 2 ^ probe_attempt meta)"
  have due: "postponedDueAt parse k m = min t (p + ?w m)"
    if "\<forall>f. f \<noteq> js ''probeAttempt'' \<longrightarrow> member f m = member f meta" for m
    using Some assms(1) that by (simp add: postponedDueAt_def probe_at_def del: js_Cons)
  have "probeMs k \<le> probeMs k * 2 ^ probe_attempt meta" using assms(2) by (simp add: mult_le_cancel_left1)
  then have "probeMs k \<le> ?w meta" using assms(3) by simp
  moreover have "postponedDueAt parse k meta \<le> postponedDueAt parse k m'"
    if "\<forall>f. f \<noteq> js ''probeAttempt'' \<longrightarrow> member f m' = member f meta" "probe_attempt meta \<le> probe_attempt m'" for m'
    using probe_grows[OF assms(2) that(2)] by (simp add: due that(1) min.coboundedI1 min_le_iff_disj)
  ultimately show ?thesis using Some due[of meta] by (auto simp del: js_Cons)
qed

section \<open>Samples\<close>

definition demo_job :: "string \<Rightarrow> json option" where
  "demo_job m = Some (JObj [(js ''markName'', JStr (js m))])"

definition demo_row :: "jstr \<Rightarrow> int \<Rightarrow> json" where
  "demo_row sg t = JObj [(js ''sig'', JStr sg), (js ''conversationId'', JStr (js ''c'')), (js ''msgId'', JStr (js ''m1'')),
     (js ''ts'', JNum t), (js ''profileKey'', JStr (js ''acme'')), (js ''clientPrincipal'', JBool True)]"

lemmas signature_eval = demo_job_def matter_fields_def matter_mark_def mark_names_def class_numbers_def lowered_def norm_def
  orelse_def sorted_set_def set_of_def latin_unicode_def latin_lower_def low1_def is_upper_def js_trim_def is_space_def
  map_filter_def

lemma lower_nil [simp]: "to_lower latin_unicode [] = []"
  by (simp add: latin_unicode_def latin_lower_def)

lemma demo_level [simp]: "matter_level latin_unicode None (demo_job m) = []"
  by (simp add: matter_level_def signature_eval)

lemma sample_fields [simp]:
  "matter_fields latin_unicode (\<lambda>_. None) [] (demo_job ''A|X'') = [[], js ''a|x'', [], [], []]"
  "matter_fields latin_unicode (\<lambda>_. None) [] (demo_job ''A|Z'') = [[], js ''a|z'', [], [], []]"
  "matter_fields latin_unicode (\<lambda>_. None) [] (demo_job '' Acme'') = [[], js ''acme'', [], [], []]"
  "matter_fields latin_unicode (\<lambda>_. None) [] (demo_job ''ACME '') = [[], js ''acme'', [], [], []]"
  by (simp_all add: signature_eval)

lemma signature_exact_witness:
  "(\<exists>m. mark_said latin_unicode (\<lambda>_. None) None (demo_job '' Acme'') m \<and> mark_said latin_unicode (\<lambda>_. None) None (demo_job ''ACME '') m)
   \<and> mark_said latin_unicode (\<lambda>_. None) None (demo_job '' Acme'') (sig_mark (matterSignature latin_unicode (\<lambda>_. None) None (demo_job '' Acme'')))"
proof -
  have u: "unbarred latin_unicode (\<lambda>_. None) None (demo_job '' Acme'')" "unbarred latin_unicode (\<lambda>_. None) None (demo_job ''ACME '')"
    by (simp_all add: unbarred_def)
  have "matterSignature latin_unicode (\<lambda>_. None) None (demo_job '' Acme'') = matterSignature latin_unicode (\<lambda>_. None) None (demo_job ''ACME '')"
    by (simp add: signature_joined)
  then show ?thesis using signature_exact[OF u] by blast
qed

lemma demo_members [simp]:
  "member (js ''sig'') (Some (demo_row sg t)) = Some (JStr sg)"
  "member (js ''conversationId'') (Some (demo_row sg t)) = Some (JStr (js ''c''))"
  "member (js ''msgId'') (Some (demo_row sg t)) = Some (JStr (js ''m1''))"
  "member (js ''ts'') (Some (demo_row sg t)) = Some (JNum t)"
  "member (js ''failed'') (Some (demo_row sg t)) = None"
  "member (js ''profileKey'') (Some (demo_row sg t)) = Some (JStr (js ''acme''))"
  "member (js ''organisation'') (Some (demo_row sg t)) = None"
  "member (js ''clientPrincipal'') (Some (demo_row sg t)) = Some (JBool True)"
  by (simp_all add: demo_row_def)

lemma demo_truthy [simp]: "truthy (Some (demo_row sg t))"
  by (simp add: demo_row_def)

lemma demo_ledger: "readMatterLedger (Lines [Some (demo_row sg t)]) = [demo_row sg t]"
  by (simp add: readMatterLedger_def map_filter_def)

lemma demo_mark: "sig_mark (js ''|a|||'') = js ''a''"
  by (simp add: sig_mark_def)

lemma matter_runs_once_witness:
  "findDuplicateMatter (recordMatter True (demo_row (js ''|a|||'') 5) Absent) (js ''|a|||'') None (Some (JStr (js ''m2''))) 9 \<noteq> None"
proof -
  have "\<forall>r\<in>set (readMatterLedger Absent). member (js ''msgId'') (Some r) \<noteq> Some (JStr (js ''m1''))"
    by (simp add: readMatterLedger_def)
  from matter_runs_once[OF _ demo_members(1) _ demo_members(3) _ demo_members(4,5) this, where msg = "Some (JStr (js ''m2''))"
      and now = 9 and sg = "js ''|a|||''" and t = 5 and conv = None]
  show ?thesis by (simp add: demo_mark DEDUP_WINDOW_MS_def del: js_Cons)
qed

lemma duplicate_is_live_witness:
  "sigLevel (js ''|a|||'') = sigLevel (row_sig (demo_row (js ''|a|||'') 5))
   \<and> findDuplicateMatter (Lines [Some (demo_row (js ''|a|||'') 5)]) (js ''|b|||'') None None 9 = None
   \<and> member (js ''sig'') (Some (demo_row (js ''|a|||'') 5)) \<noteq> Some (JStr (js ''|b|||''))"
proof -
  have block: "blocking None 9 (demo_row (js ''|a|||'') 5)" by (simp add: blocking_def orelse_def DEDUP_WINDOW_MS_def del: js_Cons)
  have other: "sig_mark (js ''|b|||'') = js ''b''" by (simp add: sig_mark_def)
  have hit: "findDuplicateMatter (Lines [Some (demo_row (js ''|a|||'') 5)]) (js ''|a|||'') None None 9 = Some (demo_row (js ''|a|||'') 5)"
    using block by (simp add: findDuplicateMatter_def demo_ledger same_matter_def same_text_def demo_mark Let_def del: js_Cons)
  have miss: "findDuplicateMatter (Lines [Some (demo_row (js ''|a|||'') 5)]) (js ''|b|||'') None None 9 = None"
    using block by (simp add: findDuplicateMatter_def demo_ledger same_matter_def same_text_def other Let_def js_trim_def del: js_Cons)
  show ?thesis
    using duplicate_is_live[of _ "js ''|a|||''" None None 9] hit duplicate_is_live[of _ "js ''|b|||''" None None 9] miss block
    by (simp add: demo_ledger other del: js_Cons)
qed

lemma failed_run_charged_witness:
  "count_rows (row_in_lane (js ''acme'') None) (\<lambda>_. True)
     (readMatterLedger (dropMatter True (Some (JStr (js ''m1''))) (Lines [Some (demo_row (js ''s'') 0)]))) = Some 1
   \<and> count_rows (client_row (js ''acme'') None) (\<lambda>_. True)
     (readMatterLedger (dropMatter True (Some (JStr (js ''m1''))) (Lines [Some (demo_row (js ''s'') 0)]))) = Some 0"
proof -
  have "iso_date 0 \<noteq> None" by (simp add: iso_date_def split: prod.splits)
  then show ?thesis
    using failed_run_charged[of "Some (JStr (js ''m1''))" "js ''acme''" None "\<lambda>_. True" "[Some (demo_row (js ''s'') 0)]"]
    by (auto simp: demo_ledger row_in_lane_def in_lane_def simp del: js_Cons)
qed

lemma civil_samples: "civil 0 = (1970, 1, 1)" "civil 11016 = (2000, 2, 29)" "civil 19782 = (2024, 2, 29)"
  "civil 20453 = (2025, 12, 31)" "civil (- 1) = (1969, 12, 31)" "civil 2932897 = (10000, 1, 1)"
  by code_simp+

lemma demo_date: "iso_date 0 = Some (js ''1970-01-01'')"
  by (simp add: iso_date_def civil_samples(1) padded_def int_text_def)

lemma shown_is_enforced_witness:
  "checkRunCaps (Some (js ''acme'')) \<lparr>rc_maxQueued = None, rc_dailyRuns = Some 1, rc_monthlyRuns = None\<rparr>
     [\<lparr>qd_ledger = Lines [Some (demo_row (js ''s'') 0)], qd_entries = Some []\<rparr>] True 0 True None = Refused_cap (OverDaily 1)"
proof -
  let ?q = "[\<lparr>qd_ledger = Lines [Some (demo_row (js ''s'') 0)], qd_entries = Some []\<rparr>]"
  have use: "accountUsage ?q (js ''acme'') None 0 = Some \<lparr>us_today = 1, us_month = 1, us_queued = 0, us_basis = Counted\<rparr>"
    using demo_truthy[of "js ''s''" 0]
    by (auto simp: accountUsage_def demo_date row_in_lane_def in_lane_def client_row_def queued_in_lane_def simp del: js_Cons)
      (auto simp: demo_row_def)
  show ?thesis
    using shown_is_enforced[OF use, of "\<lparr>rc_maxQueued = None, rc_dailyRuns = Some 1, rc_monthlyRuns = None\<rparr>" True True]
    by (simp add: us_complete_def over_def daily_cap_def)
qed

lemma park_is_bounded_witness:
  "postponedDueAt (\<lambda>_. Some 100) \<lparr>probeMs = 10, probeCeilingMs = 40, backoffMs = 5\<rparr>
     (Some (JObj [(js ''postponedAt'', JStr (js ''a'')), (js ''resetsAt'', JStr (js ''b''))])) \<le> 100"
proof -
  let ?k = "\<lparr>probeMs = 10, probeCeilingMs = 40, backoffMs = 5\<rparr>"
  let ?m = "Some (JObj [(js ''postponedAt'', JStr (js ''a'')), (js ''resetsAt'', JStr (js ''b''))])"
  have p: "parsed_date (\<lambda>_. Some 100) (member (js ''postponedAt'') ?m) = Some 100"
    and r: "parsed_date (\<lambda>_. Some 100) (member (js ''resetsAt'') ?m) = Some 100"
    by (simp_all add: parsed_date_def)
  show ?thesis using park_is_bounded[OF p, of ?k] unfolding r by simp
qed

section \<open>Where the gates fall short\<close>

text \<open>The mark the thread rule compares ends at the first bar, so two marks of one thread that differ after a bar are
  one matter to it: the second is a duplicate of the first though their signatures differ.\<close>

lemma barred_marks_collapse:
  defines "sg \<equiv> matterSignature latin_unicode (\<lambda>_. None) None"
  shows "sg (demo_job ''A|X'') \<noteq> sg (demo_job ''A|Z'')
    \<and> findDuplicateMatter (Lines [Some (demo_row (sg (demo_job ''A|X'')) 5)]) (sg (demo_job ''A|Z'')) (Some (JStr (js ''c'')))
        (Some (JStr (js ''m2''))) 9 \<noteq> None"
proof -
  have sigs: "sg (demo_job ''A|X'') = js ''|a|x|||''" "sg (demo_job ''A|Z'') = js ''|a|z|||''"
    by (simp_all add: sg_def signature_joined level_suffix_def)
  have marks: "sig_mark (js ''|a|x|||'') = js ''a''" "sig_mark (js ''|a|z|||'') = js ''a''"
    and levels: "sigLevel (js ''|a|x|||'') = sigLevel (js ''|a|z|||'')" and trim: "js_trim (js ''c'') = js ''c''"
    by (simp_all add: sig_mark_def sigLevel_def after_last_def js_trim_def is_space_def)
  have "blocking (Some (JStr (js ''m2''))) 9 (demo_row (js ''|a|x|||'') 5)"
    by (auto simp: blocking_def orelse_def DEDUP_WINDOW_MS_def simp del: js_Cons)
  then show ?thesis unfolding sigs
    by (auto simp: findDuplicateMatter_def demo_ledger same_matter_def same_text_def row_sig_def marks levels trim simp del: js_Cons)
qed

text \<open>A ledger that cannot be read at the moment a run fails is replaced by an empty one: every row of the month, which
  the monthly cap counts, is gone.\<close>

lemma unreadable_ledger_wiped: "dropMatter True m Unreadable_file = Lines []"
  by (simp add: dropMatter_def readMatterLedger_def)
end
