(* ===== verification/Receipts.thy ===== *)
theory Receipts
  imports JsText "HOL-Library.Word" "HOL-Library.List_Lexorder"
begin

text \<open>The receipts of the meaning sweep (\<open>driver/connotation-search.mjs\<close>): what the ledger of a sweep records, the identity
  of a recorded result, how much a passage proves, the passages of a snippet and what binds to them, which rows a
  sweep owes, and when a row is ruled.

  A ledger is what its text parses to. A row that a seat or a file hands in is any JSON value; a row the driver
  writes is an \<open>obligation_row\<close>. The Unicode services are a parameter; code points, the hash of 64 bits and the
  regular expressions are written out.\<close>

unbundle bit_operations_syntax

section \<open>Comparison forms\<close>

definition fold1 :: "nat \<Rightarrow> jstr" where
  "fold1 c =
     (if 8216 \<le> c \<and> c \<le> 8219 then [39]
      else if 8220 \<le> c \<and> c \<le> 8223 then [34]
      else if (8208 \<le> c \<and> c \<le> 8213) \<or> c = 8722 then [45]
      else if c = 8230 then [46, 46, 46] else [c])"

definition foldPunct :: "jstr \<Rightarrow> jstr" where
  "foldPunct s = concat (map fold1 s)"

definition normText :: "unicode \<Rightarrow> jstr \<Rightarrow> jstr" where
  "normText u s = js_trim (squeeze (foldPunct (to_lower u s)))"

definition strip_http :: "jstr \<Rightarrow> jstr" where
  "strip_http s =
     (if starts_with (js ''http://'') s then drop 7 s else if starts_with (js ''https://'') s then drop 8 s else s)"

definition strip_www :: "jstr \<Rightarrow> jstr" where
  "strip_www s = (if starts_with (js ''www.'') s then drop 4 s else s)"

text \<open>\<open>LANG_HOST_LABEL_RE\<close>: the label of a language edition, where a host and a path follow it.\<close>

definition lang_label :: "jstr \<Rightarrow> bool" where
  "lang_label l \<longleftrightarrow>
     (let a = takeWhile (\<lambda>c. c \<noteq> 45) l; b = drop (Suc (length a)) l in
      l = js ''simple''
      \<or> list_all is_lower a \<and> (length a = 2 \<or> length a = 3)
        \<and> (l = a \<or> 2 \<le> length b \<and> length b \<le> 4 \<and> list_all (\<lambda>c. is_lower c \<or> is_digit c) b))"

definition strip_lang :: "jstr \<Rightarrow> jstr" where
  "strip_lang s =
     (let l = takeWhile (\<lambda>c. c \<noteq> 46) s; rest = drop (Suc (length l)) s in
      if lang_label l \<and> takeWhile (\<lambda>c. c \<noteq> 47) rest \<noteq> [] \<and> 47 \<in> set rest then rest else s)"

definition normUrl :: "unicode \<Rightarrow> jstr \<Rightarrow> jstr" where
  "normUrl u s = js_trim (rev (dropWhile (\<lambda>c. c = 47) (rev (strip_lang (strip_www (strip_http (to_lower u s)))))))"

definition normId :: "unicode \<Rightarrow> jstr \<Rightarrow> jstr" where
  "normId u s = filter (\<lambda>c. is_upper c \<or> is_digit c) (to_upper u s)"

section \<open>Identities\<close>

definition B32 :: jstr where
  "B32 = js ''0123456789ABCDEFGHJKMNPQRSTVWXYZ''"

definition fnv1a64 :: "jstr \<Rightarrow> 64 word" where
  "fnv1a64 s = foldl (\<lambda>h c. (h XOR of_nat c) * 0x100000001b3) 0xcbf29ce484222325 s"

fun b32_chars :: "nat \<Rightarrow> 64 word \<Rightarrow> jstr" where
  "b32_chars 0 h = []"
| "b32_chars (Suc n) h = b32_chars n (drop_bit 5 h) @ [B32 ! unat (h AND 31)]"

definition shortId :: "jstr \<Rightarrow> jstr \<Rightarrow> jstr" where
  "shortId prefix key = (if key = [] then [] else prefix @ [45] @ b32_chars 8 (fnv1a64 key))"

record receipt =
  rr_title :: jstr
  rr_url :: jstr
  rr_snippet :: jstr

definition receiptKey :: "unicode \<Rightarrow> receipt \<Rightarrow> jstr" where
  "receiptKey u r =
     (let k = normUrl u (rr_url r); t = normText u (rr_title r) in
      if k \<noteq> [] then k else if t \<noteq> [] then js ''t:'' @ t else [])"

definition receiptId :: "unicode \<Rightarrow> receipt \<Rightarrow> jstr" where
  "receiptId u r = shortId (js ''R'') (receiptKey u r)"

section \<open>The ledger of a sweep\<close>

record recorded =
  q_query :: jstr
  q_results :: "receipt list"

definition read_receipt :: "json \<Rightarrow> receipt" where
  "read_receipt j =
     \<lparr> rr_title = field ''title'' (Some j), rr_url = field ''url'' (Some j), rr_snippet = field ''snippet'' (Some j) \<rparr>"

definition read_entry :: "json \<Rightarrow> (jstr \<times> receipt list) option" where
  "read_entry e =
     (case member (js ''query'') (Some e) of
        Some (JStr q) \<Rightarrow>
          if js_trim q = [] then None
          else Some (js_trim q,
            filter (\<lambda>r. rr_title r \<noteq> [] \<or> rr_url r \<noteq> []) (map read_receipt (elems (member (js ''results'') (Some e)))))
      | _ \<Rightarrow> None)"

fun add_results :: "jstr \<times> receipt list \<Rightarrow> recorded list \<Rightarrow> recorded list" where
  "add_results (q, rs) [] = [\<lparr> q_query = q, q_results = rs \<rparr>]"
| "add_results (q, rs) (e # es) =
     (if q_query e = q then e\<lparr> q_results := q_results e @ rs \<rparr> # es else e # add_results (q, rs) es)"

definition parsePrRiskResults :: "json option \<Rightarrow> recorded list" where
  "parsePrRiskResults ledger =
     (let batches = (case ledger of None \<Rightarrow> [] | Some (JArr bs) \<Rightarrow> bs | Some b \<Rightarrow> [b]) in
      fold add_results
        (List.map_filter read_entry
          (concat (map (\<lambda>b. elems (member (js ''pr_risk'') (member (js ''extras'') (Some b)))) batches))) [])"

section \<open>What a passage proves\<close>

definition RULINGS :: "jstr list" where
  "RULINGS = [js ''benign'', js ''off-topic'', js ''loaded'', js ''inconclusive'']"

definition QUOTE_MIN :: nat where "QUOTE_MIN = 24"
definition ANCHOR_MIN :: nat where "ANCHOR_MIN = 8"
definition FRAGMENT_MIN :: nat where "FRAGMENT_MIN = 6"
definition QUOTE_EDGE :: nat where "QUOTE_EDGE = 12"

text \<open>\<open>DENSE_RE\<close> on one code point.\<close>

definition dense :: "nat \<Rightarrow> bool" where
  "dense p \<longleftrightarrow> (12352 \<le> p \<and> p \<le> 12543) \<or> (13312 \<le> p \<and> p \<le> 19903) \<or> (19968 \<le> p \<and> p \<le> 40959)
     \<or> (63744 \<le> p \<and> p \<le> 64255) \<or> (44032 \<le> p \<and> p \<le> 55215) \<or> (131072 \<le> p \<and> p \<le> 195103)"

definition quoteWeight :: "unicode \<Rightarrow> jstr \<Rightarrow> nat" where
  "quoteWeight u s = sum_list (map (\<lambda>p. if dense p then 3 else 1) (points (normText u s)))"

definition usableSnippet :: "unicode \<Rightarrow> jstr \<Rightarrow> bool" where
  "usableSnippet u s \<longleftrightarrow> QUOTE_MIN \<le> quoteWeight u s"

section \<open>The passages of a snippet\<close>

definition hard_stop :: "nat \<Rightarrow> bool" where "hard_stop c \<longleftrightarrow> c = 12290 \<or> c = 65281 \<or> c = 65311"
definition soft_stop :: "nat \<Rightarrow> bool" where "soft_stop c \<longleftrightarrow> c \<in> {46, 33, 63, 59, 65307, 65306}"

text \<open>\<open>split(/(?<=[...])|(?<=[...])\s+|\n+/)\<close>: the code unit before, the piece so far, the rest. The empty match
  after a hard stop cuts once.\<close>

function pieces :: "nat option \<Rightarrow> jstr \<Rightarrow> jstr \<Rightarrow> jstr list" where
  "pieces b acc [] = [acc]"
| "pieces b acc (c # cs) =
     (if (case b of Some x \<Rightarrow> hard_stop x | None \<Rightarrow> False)
      then (if acc \<noteq> [] then acc # pieces b [] (c # cs) else pieces (Some c) [c] cs)
      else if (case b of Some x \<Rightarrow> soft_stop x | None \<Rightarrow> False) \<and> is_space c
        then acc # pieces (Some 32) [] (dropWhile is_space cs)
      else if c = 10 then acc # pieces (Some 10) [] (dropWhile (\<lambda>x. x = 10) cs)
      else pieces (Some c) (acc @ [c]) cs)"
  by pat_completeness auto
termination
  by (relation "measures [\<lambda>(b, acc, s). length s, \<lambda>(b, acc, s). length acc]")
    (auto simp: length_dropWhile_le le_imp_less_Suc)

definition snippetSegments :: "jstr \<Rightarrow> jstr list" where
  "snippetSegments raw =
     (if js_trim raw = [] then []
      else let parts = filter (\<lambda>s. s \<noteq> []) (map js_trim (pieces None [] raw)) in
        if parts \<noteq> [] then parts else [js_trim raw])"

definition livePassages :: "unicode \<Rightarrow> jstr \<Rightarrow> nat list" where
  "livePassages u snippet =
     map fst (filter (\<lambda>(i, s). FRAGMENT_MIN \<le> quoteWeight u s) (List.enumerate 1 (snippetSegments snippet)))"

text \<open>Digits only: \<open>/^\d+$/.test(String(v).trim())\<close>, then the number.\<close>

definition given :: "json option \<Rightarrow> bool" where
  "given v \<longleftrightarrow> \<not> nullish v \<and> js_trim (template v) \<noteq> []"

definition ordinal :: "json option \<Rightarrow> nat option" where
  "ordinal v =
     (let t = js_trim (template v) in if given v \<and> list_all is_digit t then Some (number_of t) else None)"

datatype segment_state = SegBound | NoSegments | SegmentMissing | SegmentInvalid | SegmentDeadEnd

datatype fragment_state = FragAbsent | FragTooShort | FragUnbound | FragBound

text \<open>The quote grows from the passage pointed at: onward first, then back, until it weighs enough.\<close>

definition passage :: "jstr list \<Rightarrow> nat \<Rightarrow> nat \<Rightarrow> jstr" where
  "passage segs lo hi = join [32] (take (hi - lo) (drop lo segs))"

function grow_passage :: "unicode \<Rightarrow> jstr list \<Rightarrow> nat \<Rightarrow> nat \<Rightarrow> nat \<times> nat" where
  "grow_passage u segs lo hi =
     (if quoteWeight u (passage segs lo hi) < QUOTE_MIN \<and> (hi < length segs \<or> 0 < lo)
      then (if hi < length segs then grow_passage u segs lo (Suc hi) else grow_passage u segs (lo - 1) hi)
      else (lo, hi))"
  by pat_completeness auto
termination by (relation "measure (\<lambda>(u, segs, lo, hi). lo + (length segs - hi))") auto

declare grow_passage.simps [simp del]

definition fragment_of :: "unicode \<Rightarrow> json option \<Rightarrow> jstr \<Rightarrow> fragment_state" where
  "fragment_of u fragment seg =
     (let frag = js_trim (string_or fragment []) in
      if frag = [] then FragAbsent
      else if quoteWeight u frag < FRAGMENT_MIN then FragTooShort
      else if \<not> js_includes (normText u frag) (normText u seg) then FragUnbound else FragBound)"

definition segmentBinding ::
  "unicode \<Rightarrow> json option \<Rightarrow> json option \<Rightarrow> jstr \<Rightarrow> segment_state \<times> jstr option \<times> fragment_state option" where
  "segmentBinding u segment_index fragment snippet =
     (let segs = snippetSegments snippet in
      if segs = [] then (NoSegments, None, None)
      else if \<not> given segment_index then (SegmentMissing, None, None)
      else case ordinal segment_index of
        None \<Rightarrow> (SegmentInvalid, None, None)
      | Some n \<Rightarrow>
          if n < 1 \<or> length segs < n then (SegmentInvalid, None, None)
          else if quoteWeight u (segs ! (n - 1)) < FRAGMENT_MIN then (SegmentDeadEnd, None, None)
          else (case grow_passage u segs (n - 1) n of (lo, hi) \<Rightarrow>
            (SegBound, Some (js_trim (passage segs lo hi)), Some (fragment_of u fragment (segs ! (n - 1))))))"

end
