(* ===== verification/Rulings.thy ===== *)
theory Rulings
  imports Receipts "HOL-Library.Product_Lexorder"
begin

text \<open>What a sweep owes and when it is discharged (\<open>driver/connotation-search.mjs\<close>): the rows of the form the driver
  writes, which row of a file answers which obligation, and the one judgement \<open>isRuled\<close>.\<close>

section \<open>Obligations\<close>

definition RECURRENT_MIN :: nat where "RECURRENT_MIN = 4"
definition QUOTE_SPOT_CHECKS :: nat where "QUOTE_SPOT_CHECKS = 3"

record recurrent =
  rc_result :: receipt
  rc_owners :: "jstr list"

record obligations =
  ob_queries :: "recorded list"
  ob_recurrent :: "recurrent list"

fun add_owner :: "jstr \<Rightarrow> receipt \<Rightarrow> jstr \<Rightarrow> (jstr \<times> recurrent) list \<Rightarrow> (jstr \<times> recurrent) list" where
  "add_owner key r q [] = [(key, \<lparr> rc_result = r, rc_owners = [q] \<rparr>)]"
| "add_owner key r q ((k, x) # xs) =
     (if k = key then (k, x\<lparr> rc_owners := rc_owners x @ [q] \<rparr>) # xs else (k, x) # add_owner key r q xs)"

text \<open>One query surfaces a result once.\<close>

definition add_owners :: "unicode \<Rightarrow> recorded \<Rightarrow> (jstr \<times> recurrent) list \<Rightarrow> (jstr \<times> recurrent) list" where
  "add_owners u e acc =
     fold (\<lambda>r. add_owner (receiptKey u r) r (q_query e))
       (first_per_key (\<lambda>r. nonempty (receiptKey u r)) [] (q_results e)) acc"

definition connotationObligations :: "unicode \<Rightarrow> recorded list \<Rightarrow> obligations" where
  "connotationObligations u recorded =
     (let queries = filter (\<lambda>e. q_results e \<noteq> [] \<and> normText u (q_query e) \<noteq> []) recorded in
      \<lparr> ob_queries = queries,
        ob_recurrent = filter (\<lambda>x. RECURRENT_MIN \<le> length (rc_owners x)) (map snd (fold (add_owners u) queries [])) \<rparr>)"

record candidate =
  ca_id :: jstr
  ca_title :: jstr
  ca_url :: jstr
  ca_snippet :: "jstr option"
  ca_segments :: "jstr list"

datatype row_kind = Query jstr | Recurrence "jstr list"

record obligation_row =
  or_id :: jstr
  or_kind :: row_kind
  or_candidates :: "candidate list"
  or_quote :: bool
  or_receipt :: "jstr option"

definition cand :: "receipt \<Rightarrow> jstr \<Rightarrow> candidate" where
  "cand r i =
     \<lparr> ca_id = i, ca_title = js_trim (rr_title r), ca_url = js_trim (rr_url r), ca_snippet = Some (js_trim (rr_snippet r)),
       ca_segments = snippetSegments (js_trim (rr_snippet r)) \<rparr>"

definition snip :: "candidate \<Rightarrow> jstr" where
  "snip c = (case ca_snippet c of Some s \<Rightarrow> s | None \<Rightarrow> [])"

definition query_row :: "unicode \<Rightarrow> recorded \<Rightarrow> obligation_row" where
  "query_row u e =
     (let cs = List.map_filter (\<lambda>r. if receiptId u r = [] then None else Some (cand r (receiptId u r))) (q_results e) in
      \<lparr> or_id = shortId (js ''Q'') (js ''q!'' @ q_query e), or_kind = Query (q_query e), or_candidates = cs, or_quote = False,
        or_receipt = (case cs of [c] \<Rightarrow> Some (ca_id c) | _ \<Rightarrow> None) \<rparr>)"

definition recurrence_row :: "unicode \<Rightarrow> recurrent \<Rightarrow> obligation_row" where
  "recurrence_row u x =
     (let i = receiptId u (rc_result x) in
      \<lparr> or_id = shortId (js ''X'') (js ''x:'' @ normId u i), or_kind = Recurrence (rc_owners x),
        or_candidates = [cand (rc_result x) i], or_quote = False, or_receipt = Some i \<rparr>)"

definition eligible :: "unicode \<Rightarrow> obligation_row \<Rightarrow> bool" where
  "eligible u r \<longleftrightarrow> list_ex (\<lambda>c. usableSnippet u (snip c)) (or_candidates r)"

text \<open>The positions of the rows whose reading is checked: the eligible ones by the hash of their id, the first few.\<close>

definition spot_checked :: "unicode \<Rightarrow> nat \<Rightarrow> obligation_row list \<Rightarrow> nat list" where
  "spot_checked u k rows =
     take k (sort_key (\<lambda>i. (fnv1a64 (or_id (rows ! i)), or_id (rows ! i)))
       (filter (\<lambda>i. eligible u (rows ! i)) [0..<length rows]))"

definition without_snippets :: "obligation_row \<Rightarrow> obligation_row" where
  "without_snippets r = r\<lparr> or_candidates := map (\<lambda>c. c\<lparr> ca_snippet := None \<rparr>) (or_candidates r) \<rparr>"

definition plain_rows :: "unicode \<Rightarrow> obligations \<Rightarrow> obligation_row list" where
  "plain_rows u ob = map (query_row u) (ob_queries ob) @ map (recurrence_row u) (ob_recurrent ob)"

definition obligationRows :: "unicode \<Rightarrow> obligations \<Rightarrow> obligation_row list" where
  "obligationRows u ob =
     (let rows = plain_rows u ob; checked = spot_checked u QUOTE_SPOT_CHECKS rows in
      map (\<lambda>i. if i \<in> set checked then (rows ! i)\<lparr> or_quote := True \<rparr> else without_snippets (rows ! i)) [0..<length rows])"

section \<open>Which candidate a row names\<close>

datatype naming = Named jstr | OutOfRange | UnknownId | Unnamed | NoCandidates

definition index_of_row :: "json option \<Rightarrow> json option" where
  "index_of_row r = orelse (member (js ''receipt_index'') r) (member (js ''receiptIndex'') r)"

definition resolveCandidate :: "unicode \<Rightarrow> json option \<Rightarrow> candidate list \<Rightarrow> naming" where
  "resolveCandidate u r cands =
     (if cands = [] then NoCandidates
      else
        let rawIdx = index_of_row r;
            by_index = (case ordinal rawIdx of
              Some n \<Rightarrow> if 1 \<le> n \<and> n \<le> length cands \<and> normId u (ca_id (cands ! (n - 1))) \<noteq> []
                        then Some (js_trim (ca_id (cands ! (n - 1)))) else None
            | None \<Rightarrow> None);
            named = normId u (string_or (member (js ''receipt_id'') r) []);
            by_id = (if named = [] then None
                     else map_option (\<lambda>c. js_trim (ca_id c)) (List.find (\<lambda>c. normId u (ca_id c) = named) cands)) in
        case by_index of
          Some i \<Rightarrow> Named i
        | None \<Rightarrow> (case by_id of
            Some i \<Rightarrow> Named i
          | None \<Rightarrow> if given rawIdx then OutOfRange else if named \<noteq> [] then UnknownId else Unnamed))"

definition named_id :: "naming \<Rightarrow> jstr" where
  "named_id n = (case n of Named i \<Rightarrow> i | _ \<Rightarrow> [])"

section \<open>What binds\<close>

datatype quote_state = QuoteBound | QuoteSplit | QuoteAbsent | QuoteTooShort | QuoteMissing

definition find_text :: "'a list \<Rightarrow> 'a list \<Rightarrow> nat \<Rightarrow> nat option" where
  "find_text p s from = (case filter (\<lambda>i. from \<le> i) (occurrences p s) of i # _ \<Rightarrow> Some i | [] \<Rightarrow> None)"

definition splits :: "unicode \<Rightarrow> jstr \<Rightarrow> jstr \<Rightarrow> bool" where
  "splits u q snippet \<longleftrightarrow>
     (let cp = points q; head = units (take QUOTE_EDGE cp); tail = units (drop (length cp - QUOTE_EDGE) cp);
          s = normText u snippet in
      case find_text head s 0 of None \<Rightarrow> False | Some h \<Rightarrow> find_text tail s (h + length head) \<noteq> None)"

definition quoteBinding :: "unicode \<Rightarrow> jstr \<Rightarrow> candidate list \<Rightarrow> quote_state \<times> jstr option" where
  "quoteBinding u quote cands =
     (let q = normText u quote; usable = filter (\<lambda>c. usableSnippet u (snip c)) cands in
      if q = [] then (QuoteMissing, None)
      else if quoteWeight u q < QUOTE_MIN then (QuoteTooShort, None)
      else case List.find (\<lambda>c. js_includes q (normText u (snip c))) usable of
        Some c \<Rightarrow> (QuoteBound, Some (ca_id c))
      | None \<Rightarrow> (case List.find (\<lambda>c. splits u q (snip c)) usable of
          Some c \<Rightarrow> (QuoteSplit, Some (ca_id c)) | None \<Rightarrow> (QuoteAbsent, None)))"

text \<open>The run around an anchor, in code points of the raw snippet: onward first, then back.\<close>

definition cut :: "nat list \<Rightarrow> nat \<Rightarrow> nat \<Rightarrow> jstr" where
  "cut cp lo hi = units (take (hi - lo) (drop lo cp))"

function grow_run :: "unicode \<Rightarrow> nat list \<Rightarrow> nat \<Rightarrow> nat \<Rightarrow> nat \<times> nat" where
  "grow_run u cp lo hi =
     (if quoteWeight u (cut cp lo hi) < QUOTE_MIN \<and> (hi < length cp \<or> 0 < lo)
      then (if hi < length cp then grow_run u cp lo (Suc hi) else grow_run u cp (lo - 1) hi)
      else (lo, hi))"
  by pat_completeness auto
termination by (relation "measure (\<lambda>(u, cp, lo, hi). lo + (length cp - hi))") auto

declare grow_run.simps [simp del]

definition run_at :: "unicode \<Rightarrow> jstr \<Rightarrow> jstr \<Rightarrow> jstr option" where
  "run_at u a raw =
     (case find_text (to_lower u a) (to_lower u raw) 0 of
        None \<Rightarrow> None
      | Some at \<Rightarrow>
          let lo = length (points (take at raw)) in
          case grow_run u (points raw) lo (lo + length (points a)) of (l, h) \<Rightarrow>
            let quote = js_trim (cut (points raw) l h) in
            if QUOTE_MIN \<le> quoteWeight u quote then Some quote else None)"

definition anchored :: "unicode \<Rightarrow> jstr \<Rightarrow> candidate \<Rightarrow> jstr option" where
  "anchored u a c =
     (case run_at u a (snip c) of
        Some q \<Rightarrow> Some q
      | None \<Rightarrow>
          if js_includes a (normText u (snip c)) \<and> QUOTE_MIN \<le> quoteWeight u (js_trim (snip c))
          then Some (js_trim (snip c)) else None)"

datatype anchor_state = AnchorBound jstr jstr | AnchorAbsent | AnchorTooShort | AnchorMissing

definition anchorBinding :: "unicode \<Rightarrow> jstr \<Rightarrow> candidate list \<Rightarrow> anchor_state" where
  "anchorBinding u anchor cands =
     (let a = normText u anchor in
      if a = [] then AnchorMissing
      else if quoteWeight u a < ANCHOR_MIN then AnchorTooShort
      else case List.map_filter (\<lambda>c. map_option (\<lambda>q. (ca_id c, q)) (anchored u a c))
                  (filter (\<lambda>c. usableSnippet u (snip c)) cands) of
        (i, q) # _ \<Rightarrow> AnchorBound i q
      | [] \<Rightarrow> AnchorAbsent)"

definition anchor_quote :: "anchor_state \<Rightarrow> jstr" where
  "anchor_quote s = (case s of AnchorBound i q \<Rightarrow> q | _ \<Rightarrow> [])"

definition spotCheckBinds :: "unicode \<Rightarrow> json option \<Rightarrow> candidate list \<Rightarrow> bool" where
  "spotCheckBinds u r cands \<longleftrightarrow>
     fst (quoteBinding u (string_or (member (js ''quote'') r) []) cands) = QuoteBound
     \<or> (case anchorBinding u (string_or (member (js ''anchor'') r) []) cands of AnchorBound i q \<Rightarrow> True | _ \<Rightarrow> False)"

section \<open>Ruled\<close>

definition is_ruling :: "unicode \<Rightarrow> jstr \<Rightarrow> bool" where
  "is_ruling u t \<longleftrightarrow> to_lower u t \<in> set RULINGS"

definition isRuled :: "unicode \<Rightarrow> json option \<Rightarrow> obligation_row \<Rightarrow> bool" where
  "isRuled u r c \<longleftrightarrow>
     truthy r \<and> is_ruling u (field ''ruling'' r) \<and> field ''note'' r \<noteq> []
     \<and> named_id (resolveCandidate u r (or_candidates c)) \<noteq> []
     \<and> (or_quote c \<longrightarrow> spotCheckBinds u r (or_candidates c))"

section \<open>Which row answers an obligation\<close>

definition formRowKey :: "unicode \<Rightarrow> json option \<Rightarrow> jstr" where
  "formRowKey u r =
     (if field ''kind'' r = js ''recurrence'' then js ''x:'' @ normId u (string_or (member (js ''receipt_id'') r) [])
      else js ''q:'' @ normText u (string_or (member (js ''query'') r) []))"

definition row_key :: "unicode \<Rightarrow> obligation_row \<Rightarrow> jstr" where
  "row_key u c =
     (case or_kind c of
        Recurrence _ \<Rightarrow> js ''x:'' @ normId u (case or_receipt c of Some i \<Rightarrow> i | None \<Rightarrow> [])
      | Query q \<Rightarrow> js ''q:'' @ normText u q)"

definition id_key :: "unicode \<Rightarrow> jstr \<Rightarrow> jstr" where
  "id_key u t = to_upper u (js_trim t)"

definition is_object :: "json \<Rightarrow> bool" where
  "is_object j \<longleftrightarrow> (case j of JObj _ \<Rightarrow> True | JArr _ \<Rightarrow> True | _ \<Rightarrow> False)"

definition by_id :: "unicode \<Rightarrow> json list \<Rightarrow> jstr \<Rightarrow> json list" where
  "by_id u rows k =
     (if k = [] then [] else filter (\<lambda>r. is_object r \<and> id_key u (string_or (member (js ''row_id'') (Some r)) []) = k) rows)"

definition by_key :: "unicode \<Rightarrow> json list \<Rightarrow> jstr \<Rightarrow> json list" where
  "by_key u rows k = filter (\<lambda>r. is_object r \<and> formRowKey u (Some r) = k) rows"

definition formRowFinder :: "unicode \<Rightarrow> json list \<Rightarrow> obligation_row list \<Rightarrow> obligation_row \<Rightarrow> json option" where
  "formRowFinder u rows canonical c =
     (let ids = by_id u rows (id_key u (or_id c)); keys = by_key u rows (row_key u c) in
      case List.find (\<lambda>r. isRuled u (Some r) c) (ids @ keys) of
        Some r \<Rightarrow> Some r
      | None \<Rightarrow>
          if ids \<noteq> [] then (case ids of [r] \<Rightarrow> Some r | _ \<Rightarrow> None)
          else if 2 \<le> length (filter (\<lambda>d. row_key u d = row_key u c) canonical) then None
          else (case keys of [r] \<Rightarrow> Some r | _ \<Rightarrow> None))"

end
