(* ===== verification/DispositionUnion.thy ===== *)
theory DispositionUnion
  imports Rulings
begin

text \<open>The form of the meaning sweep (\<open>driver/disposition-union.mjs\<close>, \<open>parseDispositionForm\<close> of
  \<open>driver/connotation-search.mjs\<close>): its rows are the driver's obligations with what a seat answered beside them, it is
  written to a file and read back, and a submission is united with it.\<close>

record form_row =
  fr_row :: obligation_row
  fr_receipt :: "jstr option"
  fr_ruling :: "jstr option"
  fr_note :: "jstr option"
  fr_quote :: "jstr option"
  fr_parked :: bool
  fr_parked_reason :: jstr
  fr_parked_refusals :: int
  fr_parked_kind :: jstr

definition blank_row :: "obligation_row \<Rightarrow> form_row" where
  "blank_row c =
     \<lparr> fr_row = c, fr_receipt = or_receipt c, fr_ruling = None, fr_note = None, fr_quote = None, fr_parked = False,
       fr_parked_reason = [], fr_parked_refusals = 0, fr_parked_kind = [] \<rparr>"

definition buildDispositionForm :: "unicode \<Rightarrow> obligations \<Rightarrow> form_row list" where
  "buildDispositionForm u ob = map blank_row (obligationRows u ob)"

section \<open>The file\<close>

definition or_null :: "jstr option \<Rightarrow> json" where
  "or_null v = (case v of Some s \<Rightarrow> JStr s | None \<Rightarrow> JNull)"

definition kind_fields :: "row_kind \<Rightarrow> fields" where
  "kind_fields k =
     (case k of
        Query q \<Rightarrow> [(js ''kind'', JStr (js ''query'')), (js ''query'', JStr q)]
      | Recurrence qs \<Rightarrow> [(js ''kind'', JStr (js ''recurrence'')), (js ''queries'', JArr (map JStr qs))])"

definition candidate_json :: "candidate \<Rightarrow> json" where
  "candidate_json c =
     JObj ([(js ''receipt_id'', JStr (ca_id c)), (js ''title'', JStr (ca_title c)), (js ''url'', JStr (ca_url c))]
       @ (case ca_snippet c of Some s \<Rightarrow> [(js ''snippet'', JStr s)] | None \<Rightarrow> [])
       @ [(js ''segments'', JArr (map JStr (ca_segments c)))])"

text \<open>A row as an object, as it is judged and as it is written. The slots of a seat that stay null are left out.\<close>

definition row_json :: "form_row \<Rightarrow> json" where
  "row_json r =
     JObj ([(js ''row_id'', JStr (or_id (fr_row r)))] @ kind_fields (or_kind (fr_row r))
       @ [(js ''candidates'', JArr (map candidate_json (or_candidates (fr_row r)))),
          (js ''quote_required'', JBool (or_quote (fr_row r))),
          (js ''receipt_id'', or_null (fr_receipt r)), (js ''ruling'', or_null (fr_ruling r)), (js ''note'', or_null (fr_note r)),
          (js ''quote'', or_null (fr_quote r)), (js ''parked'', JBool (fr_parked r)),
          (js ''parked_reason'', JStr (fr_parked_reason r)), (js ''parked_refusals'', JNum (fr_parked_refusals r)),
          (js ''parked_kind'', JStr (fr_parked_kind r))])"

definition form_json :: "form_row list \<Rightarrow> json" where
  "form_json rows = JObj [(js ''rows'', JArr (map row_json rows))]"

definition either_case :: "string \<Rightarrow> string \<Rightarrow> json \<Rightarrow> jstr" where
  "either_case k k' d = js_trim (string_or (orelse (member (js k) (Some d)) (member (js k') (Some d))) [])"

definition parse_row :: "json \<Rightarrow> json" where
  "parse_row d =
     JObj [(js ''row_id'', JStr (either_case ''row_id'' ''rowId'' d)),
           (js ''kind'', JStr (if field ''kind'' (Some d) = [] then js ''query'' else field ''kind'' (Some d))),
           (js ''query'', JStr (field ''query'' (Some d))),
           (js ''receipt_id'', JStr (either_case ''receipt_id'' ''receiptId'' d)),
           (js ''receipt_index'', JStr (either_case ''receipt_index'' ''receiptIndex'' d)),
           (js ''ruling'', JStr (field ''ruling'' (Some d))),
           (js ''note'', JStr (field ''note'' (Some d))),
           (js ''quote'', JStr (field ''quote'' (Some d))),
           (js ''anchor'', JStr (field ''anchor'' (Some d))),
           (js ''parked'', JBool (member (js ''parked'') (Some d) = Some (JBool True))),
           (js ''parked_reason'', JStr (field ''parked_reason'' (Some d))),
           (js ''parked_refusals'', JNum (case js_number (member (js ''parked_refusals'') (Some d)) of Some n \<Rightarrow> n | None \<Rightarrow> 0)),
           (js ''parked_kind'', JStr (field ''parked_kind'' (Some d)))]"

text \<open>\<open>None\<close>: the file is not there, does not parse or holds no rows.\<close>

definition parseDispositionForm :: "json option \<Rightarrow> json list option" where
  "parseDispositionForm parsed =
     (case parsed of
        None \<Rightarrow> None
      | Some j \<Rightarrow>
          let arr = (case j of JArr xs \<Rightarrow> Some (JArr xs)
            | _ \<Rightarrow> (case member (js ''rows'') (Some j) of Some (JArr xs) \<Rightarrow> Some (JArr xs) | _ \<Rightarrow> member (js ''dispositions'') (Some j))) in
          case arr of
            Some (JArr xs) \<Rightarrow> Some (map parse_row (filter is_object xs))
          | _ \<Rightarrow> None)"

section \<open>The union\<close>

record seat_values =
  sv_receipt :: jstr
  sv_ruling :: jstr
  sv_note :: jstr
  sv_quote :: jstr

definition seatFields :: "unicode \<Rightarrow> json option \<Rightarrow> obligation_row \<Rightarrow> seat_values" where
  "seatFields u r c =
     \<lparr> sv_receipt = named_id (resolveCandidate u r (or_candidates c)),
       sv_ruling = field ''ruling'' r,
       sv_note = field ''note'' r,
       sv_quote = (if field ''quote'' r \<noteq> [] then field ''quote'' r
                   else anchor_quote (anchorBinding u (string_or (member (js ''anchor'') r) []) (or_candidates c))) \<rparr>"

definition or_else :: "jstr \<Rightarrow> jstr \<Rightarrow> jstr" where
  "or_else a b = (if a \<noteq> [] then a else b)"

definition carry :: "seat_values \<Rightarrow> seat_values \<Rightarrow> seat_values" where
  "carry s p =
     \<lparr> sv_receipt = or_else (sv_receipt s) (sv_receipt p), sv_ruling = or_else (sv_ruling s) (sv_ruling p),
       sv_note = or_else (sv_note s) (sv_note p), sv_quote = or_else (sv_quote s) (sv_quote p) \<rparr>"

definition merged_fields :: "unicode \<Rightarrow> json option \<Rightarrow> json option \<Rightarrow> obligation_row \<Rightarrow> seat_values" where
  "merged_fields u p s c =
     (if isRuled u s c then seatFields u s c
      else if isRuled u p c then seatFields u p c
      else carry (seatFields u s c) (seatFields u p c))"

text \<open>A row with one candidate keeps the receipt the driver wrote.\<close>

definition fill_row :: "seat_values \<Rightarrow> obligation_row \<Rightarrow> form_row" where
  "fill_row v c =
     (blank_row c)\<lparr>
       fr_receipt := (if length (or_candidates c) = 1 then or_receipt c else nonempty (sv_receipt v)),
       fr_ruling := nonempty (sv_ruling v), fr_note := nonempty (sv_note v), fr_quote := nonempty (sv_quote v) \<rparr>"

definition park_row :: "json option \<Rightarrow> json option \<Rightarrow> bool \<Rightarrow> jstr list \<Rightarrow> form_row \<Rightarrow> form_row" where
  "park_row p s ok parkedIds r =
     (let obstacle = field ''obstacle'' s;
          declared = member (js ''parked_kind'') s = Some (JStr (js ''declared'')) \<and> obstacle \<noteq> [];
          wasParked = member (js ''parked'') p = Some (JBool True)
            \<or> js_trim (or_id (fr_row r)) \<in> set (filter (\<lambda>x. x \<noteq> []) (map js_trim parkedIds)) in
      if \<not> ok \<and> (wasParked \<or> declared) then
        let kind = or_else (field ''parked_kind'' p) (if declared then js ''declared'' else js ''exhausted'') in
        r\<lparr> fr_parked := True, fr_parked_kind := kind,
           fr_parked_reason := or_else (field ''parked_reason'' p) (if kind = js ''declared'' then obstacle else []),
           fr_parked_refusals := max (case js_number (member (js ''parked_refusals'') p) of Some n \<Rightarrow> n | None \<Rightarrow> 0) 0 \<rparr>
      else r\<lparr> fr_parked := False, fr_parked_reason := [], fr_parked_refusals := 0, fr_parked_kind := [] \<rparr>)"

definition union_row :: "unicode \<Rightarrow> json option \<Rightarrow> json option \<Rightarrow> jstr list \<Rightarrow> obligation_row \<Rightarrow> form_row" where
  "union_row u p s parkedIds c =
     (let r = fill_row (merged_fields u p s c) c in park_row p s (isRuled u (Some (row_json r)) c) parkedIds r)"

text \<open>\<open>None\<close> for the rows: there are none to search.\<close>

definition unionDispositionForm ::
  "unicode \<Rightarrow> json list option \<Rightarrow> json list option \<Rightarrow> obligations \<Rightarrow> jstr list \<Rightarrow> form_row list" where
  "unionDispositionForm u prior submitted ob parkedIds =
     (let canonical = obligationRows u ob;
          find = (\<lambda>rows. formRowFinder u (case rows of Some rs \<Rightarrow> rs | None \<Rightarrow> []) canonical) in
      map (\<lambda>c. union_row u (find prior c) (find submitted c) parkedIds c) canonical)"

definition row_ruled :: "unicode \<Rightarrow> form_row \<Rightarrow> bool" where
  "row_ruled u r \<longleftrightarrow> isRuled u (Some (row_json r)) (fr_row r)"

definition ruled_count :: "unicode \<Rightarrow> form_row list \<Rightarrow> nat" where
  "ruled_count u form = length (filter (row_ruled u) form)"

definition parked_count :: "form_row list \<Rightarrow> nat" where
  "parked_count form = length (filter fr_parked form)"

definition outstanding :: "unicode \<Rightarrow> form_row list \<Rightarrow> int" where
  "outstanding u form = int (length form) - int (ruled_count u form) - int (parked_count form)"

definition outstandingRows :: "unicode \<Rightarrow> json list option \<Rightarrow> obligations \<Rightarrow> obligation_row list" where
  "outstandingRows u rows ob =
     (let canonical = obligationRows u ob in
      filter (\<lambda>c. \<not> isRuled u (formRowFinder u (case rows of Some rs \<Rightarrow> rs | None \<Rightarrow> []) canonical c) c) canonical)"

end
