(* ===== verification/Disk.thy ===== *)
theory Disk
  imports JsPrelude
begin

text \<open>A file rewritten in place, as a plain \<open>writeFileSync\<close> does it: it is emptied first and then filled, so a write that
  fails may leave the old text, or a torn one that reads as nothing.\<close>

datatype disk_write = Wrote | Unchanged | Truncated

fun after_write :: "disk_write \<Rightarrow> 'a \<Rightarrow> 'a option \<Rightarrow> 'a option" where
  "after_write Wrote new old = Some new"
| "after_write Unchanged new old = old"
| "after_write Truncated new old = None"

end
