(* ===== verification/DispositionCall.thy ===== *)
theory DispositionCall
  imports DispositionUnion Disk
begin

text \<open>The call a seat answers the form with (\<open>driver/disposition-call.mjs\<close>, \<open>driver/disposition-tool.mjs\<close>,
  \<open>driver/refusal-bound.mjs\<close>): the rows are addressed by their number in the list the seat was shown, each row is
  accepted or refused on its own, refusals are counted, and what was accepted is united with the form on disk.

  The state of a sweep is the form's file and the ledger of verdicts. Which writes succeed is an input of a call.
  The sentences of the answer are not modelled.\<close>

definition str :: "json option \<Rightarrow> jstr" where
  "str v = js_trim (string_or v [])"

section \<open>Addresses\<close>

definition last_of :: "('a \<Rightarrow> 'b) \<Rightarrow> 'a list \<Rightarrow> 'b \<Rightarrow> 'a option" where
  "last_of f xs k = List.find (\<lambda>x. f x = k) (rev xs)"

fun told_slots :: "obligation_row list \<Rightarrow> jstr list \<Rightarrow> jstr list \<Rightarrow> obligation_row option list \<times> jstr list" where
  "told_slots rows [] used = ([], used)"
| "told_slots rows (i # is) used =
     (let k = js_trim i in
      if k = [] \<or> k \<in> set used then told_slots rows is used
      else case told_slots rows is (k # used) of (out, used') \<Rightarrow>
        (last_of (\<lambda>c. js_trim (or_id c)) rows k # out, used'))"

definition addressableRows :: "obligation_row list \<Rightarrow> jstr list option \<Rightarrow> obligation_row option list" where
  "addressableRows rows told =
     (case told of
        None \<Rightarrow> map Some rows
      | Some order \<Rightarrow> (case told_slots rows order [] of (out, used) \<Rightarrow>
          out @ map Some (filter (\<lambda>c. js_trim (or_id c) \<notin> set used) rows)))"

definition number_of_row :: "obligation_row option list \<Rightarrow> jstr \<Rightarrow> nat option" where
  "number_of_row addr k =
     map_option Suc (last_of (\<lambda>i. map_option (\<lambda>c. js_trim (or_id c)) (addr ! i)) [0..<length addr] (Some k))"

definition query_text :: "obligation_row \<Rightarrow> jstr" where
  "query_text c = (case or_kind c of Query q \<Rightarrow> js_trim q | Recurrence _ \<Rightarrow> [])"

text \<open>A typed id, the text of a query, or a text that folds to one query alone.\<close>

definition numberForTyped :: "unicode \<Rightarrow> obligation_row option list \<Rightarrow> json option \<Rightarrow> nat option" where
  "numberForTyped u addr typed =
     (let t = str typed; rows = List.map_filter id addr;
          exact = filter (\<lambda>c. query_text c = t) rows;
          folded = filter (\<lambda>c. query_text c \<noteq> [] \<and> normText u (query_text c) = normText u t) rows in
      if t = [] then None
      else case number_of_row addr t of
        Some n \<Rightarrow> Some n
      | None \<Rightarrow>
          (case exact of
             [c] \<Rightarrow> number_of_row addr (js_trim (or_id c))
           | _ \<Rightarrow> (case folded of [c] \<Rightarrow> number_of_row addr (js_trim (or_id c)) | _ \<Rightarrow> None)))"

section \<open>One row of a call\<close>

datatype refusal = RowPositionAbsent | RowPositionInvalid | RowAddressedById | DuplicateRow | RulingInvalid | NoteAbsent
  | IdentifierSupplied | PositionInvalid | PositionAbsent | NoSegment | BadSegment | DeadEndSegment | ObstacleAbsent

record refused_row =
  rf_id :: jstr
  rf_index :: jstr
  rf_reason :: refusal
  rf_ruling :: jstr

datatype accepted_row =
    Accepted jstr jstr jstr jstr "jstr option" "fragment_state option"
  | Declared jstr jstr jstr jstr

definition EVIDENCE_REFUSALS :: "refusal set" where
  "EVIDENCE_REFUSALS = {NoSegment, BadSegment, DeadEndSegment}"

definition accepted_id :: "accepted_row \<Rightarrow> jstr" where
  "accepted_id a = (case a of Accepted i _ _ _ _ _ \<Rightarrow> i | Declared i _ _ _ \<Rightarrow> i)"

definition fragment_json :: "fragment_state option \<Rightarrow> json" where
  "fragment_json f =
     (case f of None \<Rightarrow> JNull
      | Some FragAbsent \<Rightarrow> JStr (js ''absent'') | Some FragTooShort \<Rightarrow> JStr (js ''too_short'')
      | Some FragUnbound \<Rightarrow> JStr (js ''unbound'') | Some FragBound \<Rightarrow> JStr (js ''bound''))"

definition accepted_json :: "accepted_row \<Rightarrow> json" where
  "accepted_json a =
     (case a of
        Accepted i ruling note receipt quote f \<Rightarrow>
          JObj [(js ''row_id'', JStr i), (js ''ruling'', JStr ruling), (js ''note'', JStr note),
                (js ''receipt_id'', JStr receipt), (js ''quote'', or_null quote), (js ''fragment_state'', fragment_json f)]
      | Declared i ruling note obstacle \<Rightarrow>
          JObj [(js ''row_id'', JStr i), (js ''ruling'', JStr ruling), (js ''note'', JStr note),
                (js ''obstacle'', JStr obstacle), (js ''parked_kind'', JStr (js ''declared''))])"

datatype row_verdict = Takes accepted_row | Refuses refused_row

definition segment_refusal :: "segment_state \<Rightarrow> refusal" where
  "segment_refusal s =
     (case s of SegmentMissing \<Rightarrow> NoSegment | SegmentDeadEnd \<Rightarrow> DeadEndSegment | _ \<Rightarrow> BadSegment)"

definition position_of :: "obligation_row \<Rightarrow> json option \<Rightarrow> json option" where
  "position_of c raw =
     (if length (or_candidates c) = 1 \<and> \<not> given (member (js ''receipt_index'') raw) then Some (JNum 1)
      else member (js ''receipt_index'') raw)"

definition ruled_snippet :: "obligation_row \<Rightarrow> jstr \<Rightarrow> jstr" where
  "ruled_snippet c i = (case List.find (\<lambda>x. js_trim (ca_id x) = i) (or_candidates c) of Some x \<Rightarrow> snip x | None \<Rightarrow> [])"

text \<open>The row is addressed: what it says is checked, then the position is resolved and the passage bound.\<close>

definition row_fault :: "unicode \<Rightarrow> json option \<Rightarrow> obligation_row \<Rightarrow> refusal option" where
  "row_fault u raw c =
     (if \<not> nullish (member (js ''receipt_id'') raw) \<or> \<not> nullish (member (js ''receiptId'') raw) then Some IdentifierSupplied
      else if \<not> nullish (member (js ''obstacle'') raw) \<and> str (member (js ''obstacle'') raw) = [] then Some ObstacleAbsent
      else if to_lower u (str (member (js ''ruling'') raw)) \<notin> set RULINGS then Some RulingInvalid
      else if str (member (js ''note'') raw) = [] then Some NoteAbsent
      else if length (or_candidates c) \<noteq> 1 \<and> \<not> given (member (js ''receipt_index'') raw) then Some PositionAbsent
      else None)"

definition row_position :: "unicode \<Rightarrow> json option \<Rightarrow> obligation_row \<Rightarrow> naming" where
  "row_position u raw c =
     resolveCandidate u (Some (JObj (case position_of c raw of Some v \<Rightarrow> [(js ''receipt_index'', v)] | None \<Rightarrow> [])))
       (or_candidates c)"

definition row_evidence ::
  "unicode \<Rightarrow> json option \<Rightarrow> obligation_row \<Rightarrow> jstr \<Rightarrow> refusal + (jstr option \<times> fragment_state option)" where
  "row_evidence u raw c i =
     (if \<not> or_quote c then Inr (None, None)
      else case segmentBinding u (orelse (member (js ''segment_index'') raw) (member (js ''segmentIndex'') raw))
                  (member (js ''fragment'') raw) (ruled_snippet c i) of
        (SegBound, quote, f) \<Rightarrow> Inr (quote, f)
      | (s, _, _) \<Rightarrow> Inl (segment_refusal s))"

definition check_row :: "unicode \<Rightarrow> json option \<Rightarrow> jstr \<Rightarrow> obligation_row \<Rightarrow> row_verdict" where
  "check_row u raw row_index c =
     (let ruling = to_lower u (str (member (js ''ruling'') raw)); note = str (member (js ''note'') raw);
          obstacle = str (member (js ''obstacle'') raw); row_id = js_trim (or_id c);
          no = (\<lambda>reason.
            if obstacle \<noteq> [] \<and> reason \<in> EVIDENCE_REFUSALS then Takes (Declared row_id ruling note obstacle)
            else Refuses \<lparr> rf_id = row_id, rf_index = row_index, rf_reason = reason, rf_ruling = ruling \<rparr>) in
      case row_fault u raw c of
        Some reason \<Rightarrow> no reason
      | None \<Rightarrow>
          (case row_position u raw c of
             Named i \<Rightarrow> (case row_evidence u raw c i of
               Inr (quote, f) \<Rightarrow> Takes (Accepted row_id ruling note i quote f)
             | Inl reason \<Rightarrow> no reason)
           | _ \<Rightarrow> no PositionInvalid))"

definition addressed :: "obligation_row option list \<Rightarrow> json option \<Rightarrow> obligation_row option" where
  "addressed addr idx =
     (case ordinal idx of Some n \<Rightarrow> if 1 \<le> n \<and> n \<le> length addr then addr ! (n - 1) else None | None \<Rightarrow> None)"

definition take_row ::
  "unicode \<Rightarrow> obligation_row option list \<Rightarrow> jstr list \<Rightarrow> json \<Rightarrow> row_verdict \<times> jstr list" where
  "take_row u addr seen raw =
     (let r = Some raw;
          idx = orelse (member (js ''row_index'') r) (member (js ''rowIndex'') r);
          row_index = (if given idx then str idx else []);
          c = (if given idx then addressed addr idx else None);
          row_id = (case c of Some c' \<Rightarrow> js_trim (or_id c') | None \<Rightarrow> []);
          ruling = to_lower u (str (member (js ''ruling'') r));
          typed = orelse (member (js ''row_id'') r) (member (js ''rowId'') r);
          no = (\<lambda>i n reason. Refuses \<lparr> rf_id = i, rf_index = n, rf_reason = reason, rf_ruling = ruling \<rparr>) in
      if given typed then
        (case (numberForTyped u addr typed, row_id) of
           (Some n, []) \<Rightarrow>
             (no (case addr ! (n - 1) of Some c' \<Rightarrow> js_trim (or_id c') | None \<Rightarrow> []) (int_text (int n)) RowAddressedById, seen)
         | _ \<Rightarrow> (no row_id row_index RowAddressedById, seen))
      else if \<not> given idx then (no [] [] RowPositionAbsent, seen)
      else case c of
        None \<Rightarrow> (no [] row_index RowPositionInvalid, seen)
      | Some c' \<Rightarrow>
          if row_id \<in> set seen then (no row_id row_index DuplicateRow, seen)
          else (check_row u r row_index c', row_id # seen))"

fun take_rows :: "unicode \<Rightarrow> obligation_row option list \<Rightarrow> jstr list \<Rightarrow> json list \<Rightarrow> row_verdict list" where
  "take_rows u addr seen [] = []"
| "take_rows u addr seen (raw # raws) =
     (case take_row u addr seen raw of (v, seen') \<Rightarrow> v # take_rows u addr seen' raws)"

definition MAX_ROWS_PER_CALL :: nat where "MAX_ROWS_PER_CALL = 25"

record call_verdict =
  cv_accepted :: "accepted_row list"
  cv_refused :: "refused_row list"
  cv_overflow :: "json list"

definition validateDispositionCall ::
  "unicode \<Rightarrow> json option \<Rightarrow> obligation_row list \<Rightarrow> jstr list option \<Rightarrow> call_verdict" where
  "validateDispositionCall u rows canonical told =
     (let list = elems rows;
          vs = take_rows u (addressableRows canonical told) [] (take MAX_ROWS_PER_CALL list) in
      \<lparr> cv_accepted = List.map_filter (\<lambda>v. case v of Takes a \<Rightarrow> Some a | Refuses _ \<Rightarrow> None) vs,
        cv_refused = List.map_filter (\<lambda>v. case v of Refuses r \<Rightarrow> Some r | Takes _ \<Rightarrow> None) vs,
        cv_overflow = drop MAX_ROWS_PER_CALL list \<rparr>)"

section \<open>The bound on refusals\<close>

definition PARK_AFTER_REFUSALS :: nat where "PARK_AFTER_REFUSALS = 30"

definition refusalCountsBy :: "jstr list list \<Rightarrow> jstr \<Rightarrow> nat" where
  "refusalCountsBy verdicts k = (if k = [] then 0 else count_list (map js_trim (concat verdicts)) k)"

definition parkedIds :: "jstr list list \<Rightarrow> jstr list" where
  "parkedIds verdicts =
     filter (\<lambda>k. PARK_AFTER_REFUSALS \<le> refusalCountsBy verdicts k)
       (sorted_set (filter (\<lambda>k. k \<noteq> []) (map js_trim (concat verdicts))))"

section \<open>What is left\<close>

definition evidenceSatisfiable :: "unicode \<Rightarrow> obligation_row \<Rightarrow> form_row option \<Rightarrow> bool" where
  "evidenceSatisfiable u c s =
     (let rid = (case s of Some r \<Rightarrow> js_trim (case fr_receipt r of Some i \<Rightarrow> i | None \<Rightarrow> []) | None \<Rightarrow> []);
          chosen = (if rid = [] then None else List.find (\<lambda>x. js_trim (ca_id x) = rid) (or_candidates c));
          pool = (case chosen of Some x \<Rightarrow> [x] | None \<Rightarrow> or_candidates c) in
      list_ex (\<lambda>x. livePassages u (snip x) \<noteq> []) pool)"

record owed_row =
  ow_id :: jstr
  ow_index :: nat
  ow_evidence :: bool
  ow_ruled :: bool
  ow_unsatisfiable :: bool

definition filled :: "jstr option \<Rightarrow> bool" where
  "filled v \<longleftrightarrow> (case v of Some s \<Rightarrow> js_trim s \<noteq> [] | None \<Rightarrow> False)"

definition looks_ruled :: "form_row option \<Rightarrow> bool" where
  "looks_ruled s \<longleftrightarrow> (case s of Some r \<Rightarrow> filled (fr_ruling r) \<and> filled (fr_note r) \<and> filled (fr_receipt r) | None \<Rightarrow> False)"

definition owes :: "unicode \<Rightarrow> form_row list \<Rightarrow> nat \<Rightarrow> obligation_row option \<Rightarrow> owed_row option" where
  "owes u form i slot =
     (case slot of
        None \<Rightarrow> None
      | Some c \<Rightarrow>
          let s = last_of (\<lambda>r. js_trim (or_id (fr_row r))) form (js_trim (or_id c));
              ruled = looks_ruled s; quoted = (case s of Some r \<Rightarrow> filled (fr_quote r) | None \<Rightarrow> False) in
          if ruled \<and> (\<not> or_quote c \<or> quoted) then None
          else if (case s of Some r \<Rightarrow> fr_parked r | None \<Rightarrow> False) then None
          else Some \<lparr> ow_id = js_trim (or_id c), ow_index = i, ow_evidence = or_quote c, ow_ruled = ruled,
                      ow_unsatisfiable = (or_quote c \<and> \<not> evidenceSatisfiable u c s) \<rparr>)"

definition outstandingWithAnchors :: "unicode \<Rightarrow> obligation_row option list \<Rightarrow> form_row list \<Rightarrow> owed_row list" where
  "outstandingWithAnchors u addr form = List.map_filter (\<lambda>(i, slot). owes u form i slot) (List.enumerate 1 addr)"

section \<open>A call\<close>

record sweep =
  sw_form :: "json option"
  sw_verdicts :: "jstr list list"

record call_result =
  cr_verdict :: call_verdict
  cr_form :: "form_row list"
  cr_left :: "owed_row list"
  cr_dropped :: "jstr list"

text \<open>Did the accepted rows land: the row of the new form carries a receipt and a ruling.\<close>

definition lands :: "form_row list \<Rightarrow> jstr \<Rightarrow> bool" where
  "lands form i =
     (case last_of (\<lambda>r. js_trim (or_id (fr_row r))) form (js_trim i) of
        Some r \<Rightarrow> filled (fr_receipt r) \<and> filled (fr_ruling r) | None \<Rightarrow> False)"

definition dropped :: "form_row list \<Rightarrow> accepted_row list \<Rightarrow> jstr list" where
  "dropped form accepted = filter (\<lambda>i. \<not> lands form i) (map accepted_id accepted)"

definition exhausted_reason :: "nat \<Rightarrow> jstr" where
  "exhausted_reason n =
     js ''refused '' @ int_text (int n) @ js '' times without binding (bound '' @ int_text (int PARK_AFTER_REFUSALS)
     @ js '') '' @ [8212] @ js '' parked unresolvable so the stage can complete''"

definition explain_park :: "jstr list list \<Rightarrow> form_row \<Rightarrow> form_row" where
  "explain_park verdicts r =
     (if \<not> fr_parked r then r
      else
        let n = refusalCountsBy verdicts (js_trim (or_id (fr_row r)));
            r' = (if fr_parked_refusals r < int n then r\<lparr> fr_parked_refusals := int n \<rparr> else r) in
        if js_trim (fr_parked_reason r') = [] then r'\<lparr> fr_parked_reason := exhausted_reason n \<rparr> else r')"

text \<open>\<open>None\<close>: nothing is owed, nothing is recorded. What becomes of the two writes is an input: the form is rewritten in place,
  the verdict is appended. A form that is torn or cannot be read is no form.\<close>

definition recordDispositions ::
  "unicode \<Rightarrow> recorded list \<Rightarrow> jstr list option \<Rightarrow> disk_write \<times> bool \<Rightarrow> json \<Rightarrow> sweep \<Rightarrow> (call_result \<times> sweep) option" where
  "recordDispositions u ledger told ok received s =
     (let ob = connotationObligations u ledger; canonical = obligationRows u ob in
      if canonical = [] then None
      else
        let v = validateDispositionCall u (member (js ''rows'') (Some received)) canonical told;
            refused = map rf_id (cv_refused v); all = sw_verdicts s @ [refused];
            form = map (explain_park all)
              (unionDispositionForm u (parseDispositionForm (sw_form s)) (Some (map accepted_json (cv_accepted v))) ob (parkedIds all))
        in Some (\<lparr> cr_verdict = v, cr_form = form, cr_left = outstandingWithAnchors u (addressableRows canonical told) form,
               cr_dropped = dropped form (cv_accepted v) \<rparr>,
             \<lparr> sw_form = after_write (fst ok) (form_json form) (sw_form s),
               sw_verdicts = (if snd ok then all else sw_verdicts s) \<rparr>))"

end
