(* ===== verification/DispositionSpec.thy ===== *)
theory DispositionSpec
  imports DispositionCall
begin

text \<open>What the form of the meaning sweep promises: a ruling once recorded stays, a row is given up or ruled and never
  lost, the driver alone decides the rows, the numbers a seat was shown keep their meaning, and the refusals of a row
  are bounded.\<close>

section \<open>The members of a written row\<close>

lemma row_members [simp]:
  "member (js ''row_id'') (Some (row_json r)) = Some (JStr (or_id (fr_row r)))"
  "member (js ''receipt_id'') (Some (row_json r)) = Some (or_null (fr_receipt r))"
  "member (js ''ruling'') (Some (row_json r)) = Some (or_null (fr_ruling r))"
  "member (js ''note'') (Some (row_json r)) = Some (or_null (fr_note r))"
  "member (js ''quote'') (Some (row_json r)) = Some (or_null (fr_quote r))"
  "member (js ''parked'') (Some (row_json r)) = Some (JBool (fr_parked r))"
  "member (js ''parked_kind'') (Some (row_json r)) = Some (JStr (fr_parked_kind r))"
  "member (js ''rowId'') (Some (row_json r)) = None"
  "member (js ''receiptId'') (Some (row_json r)) = None"
  "member (js ''receipt_index'') (Some (row_json r)) = None"
  "member (js ''receiptIndex'') (Some (row_json r)) = None"
  "member (js ''anchor'') (Some (row_json r)) = None"
  by (cases "or_kind (fr_row r)"; simp add: row_json_def kind_fields_def del: js_Cons)+

lemma row_object [simp]: "is_object (row_json r)" "truthy (Some (row_json r))" "is_object (parse_row j)" "truthy (Some (parse_row j))"
  by (simp_all add: row_json_def parse_row_def is_object_def)

lemma parsed_members [simp]:
  "member (js ''row_id'') (Some (parse_row j)) = Some (JStr (either_case ''row_id'' ''rowId'' j))"
  "member (js ''receipt_id'') (Some (parse_row j)) = Some (JStr (either_case ''receipt_id'' ''receiptId'' j))"
  "member (js ''ruling'') (Some (parse_row j)) = Some (JStr (field ''ruling'' (Some j)))"
  "member (js ''note'') (Some (parse_row j)) = Some (JStr (field ''note'' (Some j)))"
  "member (js ''quote'') (Some (parse_row j)) = Some (JStr (field ''quote'' (Some j)))"
  "member (js ''parked'') (Some (parse_row j)) = Some (JBool (member (js ''parked'') (Some j) = Some (JBool True)))"
  "member (js ''receipt_index'') (Some (parse_row j)) = Some (JStr (either_case ''receipt_index'' ''receiptIndex'' j))"
  "member (js ''receiptIndex'') (Some (parse_row j)) = None"
  "member (js ''anchor'') (Some (parse_row j)) = Some (JStr (field ''anchor'' (Some j)))"
  by (simp_all add: parse_row_def del: js_Cons)

lemma accepted_members [simp]:
  "member (js ''anchor'') (Some (accepted_json a)) = None"
  "member (js ''receipt_index'') (Some (accepted_json a)) = None"
  "member (js ''receiptIndex'') (Some (accepted_json a)) = None"
  "member (js ''row_id'') (Some (accepted_json a)) = Some (JStr (accepted_id a))"
  "truthy (Some (accepted_json a))" "is_object (accepted_json a)"
  by (cases a; simp add: accepted_json_def accepted_id_def is_object_def del: js_Cons)+

definition text_of :: "jstr option \<Rightarrow> jstr" where
  "text_of v = (case v of Some s \<Rightarrow> s | None \<Rightarrow> [])"

lemma text_of_simps [simp]: "text_of (nonempty s) = s" "text_of None = []" "text_of (Some s) = s"
  by (auto simp: text_of_def nonempty_def)

lemma string_or_null [simp]: "string_or (Some (or_null v)) [] = text_of v"
  by (cases v) (simp_all add: or_null_def)

lemma row_fields [simp]:
  "field ''ruling'' (Some (row_json r)) = js_trim (text_of (fr_ruling r))"
  "field ''note'' (Some (row_json r)) = js_trim (text_of (fr_note r))"
  "field ''quote'' (Some (row_json r)) = js_trim (text_of (fr_quote r))"
  by (simp_all add: field_def del: js_Cons)

lemma fill_simps [simp]:
  "fr_row (fill_row v c) = c" "fr_ruling (fill_row v c) = nonempty (sv_ruling v)" "fr_note (fill_row v c) = nonempty (sv_note v)"
  "fr_quote (fill_row v c) = nonempty (sv_quote v)"
  by (simp_all add: fill_row_def blank_row_def)

lemma seat_simps [simp]:
  "sv_ruling (seatFields u r c) = field ''ruling'' r" "sv_note (seatFields u r c) = field ''note'' r"
  "sv_receipt (seatFields u r c) = named_id (resolveCandidate u r (or_candidates c))"
  by (simp_all add: seatFields_def)

section \<open>A ruled row stays ruled when its values are written\<close>

text \<open>The rows that reach a union: no anchor, and the texts that are compared carry no outer space.\<close>

definition tidy :: "json option \<Rightarrow> bool" where
  "tidy r \<longleftrightarrow> string_or (member (js ''anchor'') r) [] = [] \<and> js_trim (string_or (member (js ''quote'') r) []) = string_or (member (js ''quote'') r) []"

text \<open>A row of the driver: its candidates have ids, and the receipt of a single one is filled in.\<close>

definition sane :: "unicode \<Rightarrow> obligation_row \<Rightarrow> bool" where
  "sane u c \<longleftrightarrow> list_all (\<lambda>x. js_trim (ca_id x) = ca_id x \<and> ca_id x \<noteq> [] \<and> normId u (ca_id x) \<noteq> []) (or_candidates c)
     \<and> (length (or_candidates c) = 1 \<longrightarrow> or_receipt c = Some (ca_id (hd (or_candidates c))))"

lemma resolved_candidate:
  "resolveCandidate u r cs = Named i \<Longrightarrow> \<exists>x\<in>set cs. i = js_trim (ca_id x) \<and> normId u (ca_id x) \<noteq> []"
  by (auto simp: resolveCandidate_def Let_def find_Some_iff split: if_splits option.splits)

lemma unindexed: "index_of_row (Some (row_json r)) = None" "index_of_row (Some (accepted_json a)) = None"
  by (simp_all add: index_of_row_def orelse_def del: js_Cons)

lemma not_given [simp]: "\<not> given None" "ordinal None = None"
  by (simp_all add: given_def ordinal_def)

lemma resolved_by_id:
  assumes "list_all (\<lambda>x. js_trim (ca_id x) = ca_id x \<and> ca_id x \<noteq> [] \<and> normId u (ca_id x) \<noteq> []) cs" and "x \<in> set cs"
    and "index_of_row r = None" and "normId u (string_or (member (js ''receipt_id'') r) []) = normId u (ca_id x)"
  shows "named_id (resolveCandidate u r cs) \<noteq> []"
proof -
  have x: "normId u (ca_id x) \<noteq> []" using assms(1,2) by (auto simp: list_all_iff)
  obtain y where y: "List.find (\<lambda>c. normId u (ca_id c) = normId u (ca_id x)) cs = Some y"
    using assms(2) by (cases "List.find (\<lambda>c. normId u (ca_id c) = normId u (ca_id x)) cs") (auto simp: find_None_iff)
  then have "y \<in> set cs" "normId u (ca_id y) \<noteq> []" using find_in x by fastforce+
  then have "ca_id y \<noteq> []" "js_trim (ca_id y) = ca_id y" using assms(1,2) x
    by (auto simp: list_all_iff)
  then show ?thesis using assms(2,3,4) x y
    by (auto simp: resolveCandidate_def named_id_def simp del: js_Cons)
qed

context unicode_ascii begin

lemma empty_texts [simp]: "to_lower u [] = []" "to_upper u [] = []" "normText u [] = []" "normId u [] = []"
  using to_lower_ascii[of "[]"] to_upper_ascii[of "[]"]
  by (simp_all add: ascii_def normText_def normId_def foldPunct_def)

lemma no_anchor: "anchorBinding u [] cs = AnchorMissing"
  by (simp add: anchorBinding_def)

lemma tidy_spot_check:
  "tidy r \<Longrightarrow> spotCheckBinds u r cs \<longleftrightarrow> fst (quoteBinding u (field ''quote'' r) cs) = QuoteBound"
  by (simp add: spotCheckBinds_def tidy_def no_anchor field_def)

lemma tidy_seat_quote: "tidy r \<Longrightarrow> sv_quote (seatFields u r c) = field ''quote'' r"
  by (simp add: seatFields_def tidy_def no_anchor anchor_quote_def)

lemma quote_bound_not_empty: "fst (quoteBinding u q cs) = QuoteBound \<Longrightarrow> q \<noteq> []"
  by (auto simp: quoteBinding_def)

text \<open>The values of a ruled row, written beside the obligation, are ruled.\<close>

lemma filled_is_ruled:
  assumes "sane u c" and "tidy r" and "isRuled u r c"
  shows "isRuled u (Some (row_json (fill_row (seatFields u r c) c))) c"
proof -
  let ?w = "fill_row (seatFields u r c) c"
  obtain i where i: "resolveCandidate u r (or_candidates c) = Named i" "i \<noteq> []"
    using assms(3) by (auto simp: isRuled_def named_id_def split: naming.splits)
  obtain x where x: "x \<in> set (or_candidates c)" "i = js_trim (ca_id x)" "normId u (ca_id x) \<noteq> []"
    using resolved_candidate[OF i(1)] by blast
  have ix: "i = ca_id x" using x assms(1) by (auto simp: sane_def list_all_iff)
  have "fr_receipt ?w = Some (ca_id x)"
  proof (cases "length (or_candidates c) = 1")
    case True
    then have "or_candidates c = [x]" using x(1) by (cases "or_candidates c") auto
    then show ?thesis using assms(1) by (simp add: fill_row_def sane_def)
  next
    case False
    then show ?thesis using i ix by (simp add: fill_row_def seatFields_def named_id_def)
  qed
  then have "named_id (resolveCandidate u (Some (row_json ?w)) (or_candidates c)) \<noteq> []"
    using assms(1) by (intro resolved_by_id[OF _ x(1)]) (auto simp: sane_def unindexed simp del: js_Cons)
  moreover have "field ''ruling'' (Some (row_json ?w)) = field ''ruling'' r" "field ''note'' (Some (row_json ?w)) = field ''note'' r"
    by simp_all
  moreover have "spotCheckBinds u (Some (row_json ?w)) (or_candidates c)" if "or_quote c"
  proof -
    have q: "fst (quoteBinding u (field ''quote'' r) (or_candidates c)) = QuoteBound"
      using assms(2,3) that tidy_spot_check by (simp add: isRuled_def)
    then show ?thesis by (simp add: spotCheckBinds_def tidy_seat_quote[OF assms(2)] del: js_Cons)
  qed
  ultimately show ?thesis using assms(3) by (simp add: isRuled_def)
qed

end

section \<open>The file gives back what was written\<close>

definition kept :: "form_row \<Rightarrow> bool" where
  "kept r \<longleftrightarrow> js_trim (text_of (fr_receipt r)) = text_of (fr_receipt r) \<and> js_trim (text_of (fr_quote r)) = text_of (fr_quote r)"

lemma parsed_form: "parseDispositionForm (Some (form_json f)) = Some (map (\<lambda>r. parse_row (row_json r)) f)"
  by (simp add: parseDispositionForm_def form_json_def comp_def)

lemma parsed_receipt [simp]:
  "string_or (member (js ''receipt_id'') (Some (parse_row (row_json r)))) [] = js_trim (text_of (fr_receipt r))"
  by (cases "fr_receipt r") (simp_all add: either_case_def orelse_def or_null_def del: js_Cons)

lemma parsed_index: "\<not> given (index_of_row (Some (parse_row (row_json r))))"
    "ordinal (index_of_row (Some (parse_row (row_json r)))) = None"
  by (simp_all add: index_of_row_def orelse_def either_case_def given_def ordinal_def del: js_Cons)

lemma parsed_fields [simp]:
  "field ''ruling'' (Some (parse_row j)) = field ''ruling'' (Some j)"
  "field ''note'' (Some (parse_row j)) = field ''note'' (Some j)"
  "field ''quote'' (Some (parse_row j)) = field ''quote'' (Some j)"
  by (simp_all add: field_def[of _ "Some (parse_row j)"] del: js_Cons)

lemma parsed_named:
  "kept r \<Longrightarrow> resolveCandidate u (Some (parse_row (row_json r))) cs = resolveCandidate u (Some (row_json r)) cs"
  unfolding resolveCandidate_def Let_def parsed_receipt
  by (simp add: parsed_index unindexed kept_def del: js_Cons)

lemma anchor_absent [simp]: "field ''anchor'' (Some (row_json r)) = []"
  by (simp add: field_def del: js_Cons)

lemma parsed_tidy: "tidy (Some (parse_row (row_json r)))"
  by (simp add: tidy_def del: js_Cons)

lemma row_tidy: "kept r \<Longrightarrow> tidy (Some (row_json r))"
  by (simp add: tidy_def kept_def del: js_Cons)

context unicode_ascii begin

lemma parsed_ruled: "kept r \<Longrightarrow> isRuled u (Some (parse_row (row_json r))) c = isRuled u (Some (row_json r)) c"
  by (simp add: isRuled_def parsed_named tidy_spot_check[OF parsed_tidy] tidy_spot_check[OF row_tidy] del: js_Cons)

end

section \<open>The driver's rows\<close>

lemma b32_chars_in: "set (b32_chars n h) \<subseteq> set B32"
proof (induction n arbitrary: h)
  case (Suc n)
  have "h AND 31 = take_bit 5 h" by (simp add: take_bit_eq_mask mask_eq_exp_minus_1)
  then have "unat (h AND 31) < 32" by (simp add: take_bit_eq_mod unat_mod_distrib)
  then have "B32 ! unat (h AND 31) \<in> set B32" by (intro nth_mem) (simp add: B32_def)
  then show ?case using Suc by simp
qed simp

lemma b32_chars_length: "length (b32_chars n h) = n"
  by (induction n arbitrary: h) auto

lemma B32_plain: "c \<in> set B32 \<Longrightarrow> c < 128 \<and> \<not> is_space c \<and> (is_upper c \<or> is_digit c)"
  by (auto simp: B32_def is_space_def is_upper_def is_digit_def)

lemma shortId_trim:
  assumes "key \<noteq> []" and "p \<noteq> []" and "\<not> is_space (hd p)"
  shows "js_trim (shortId p key) = shortId p key" "shortId p key \<noteq> []"
proof -
  have ne: "b32_chars 8 (fnv1a64 key) \<noteq> []" using b32_chars_length[of 8] by (metis length_0_conv zero_neq_numeral)
  then have "last (b32_chars 8 (fnv1a64 key)) \<in> set B32" using b32_chars_in last_in_set by blast
  then show "js_trim (shortId p key) = shortId p key" "shortId p key \<noteq> []"
    using assms ne B32_plain by (auto simp: shortId_def intro!: trim_tight)
qed

lemma shortId_ascii: "ascii p \<Longrightarrow> ascii (shortId p key)"
  using b32_chars_in[of 8 "fnv1a64 key"] B32_plain by (auto simp: shortId_def ascii_def list_all_iff)

lemma cand_simps [simp]: "ca_id (cand r i) = i"
  by (simp add: cand_def)

definition keyed :: "unicode \<Rightarrow> (jstr \<times> recurrent) list \<Rightarrow> bool" where
  "keyed u acc \<longleftrightarrow> list_all (\<lambda>p. receiptKey u (rc_result (snd p)) \<noteq> []) acc"

lemma add_owner_keyed: "keyed u acc \<Longrightarrow> receiptKey u r \<noteq> [] \<Longrightarrow> keyed u (add_owner key r q acc)"
  by (induction key r q acc rule: add_owner.induct) (auto simp: keyed_def)

lemma add_all_keyed:
  "keyed u acc \<Longrightarrow> \<forall>r\<in>set rs. receiptKey u r \<noteq> [] \<Longrightarrow> keyed u (fold (\<lambda>r. add_owner (receiptKey u r) r q) rs acc)"
  by (induction rs arbitrary: acc) (simp_all add: add_owner_keyed)

lemma add_owners_keyed: "keyed u acc \<Longrightarrow> keyed u (add_owners u e acc)"
  unfolding add_owners_def
proof (rule add_all_keyed)
  show "\<forall>r\<in>set (first_per_key (\<lambda>r. nonempty (receiptKey u r)) [] (q_results e)). receiptKey u r \<noteq> []"
    using first_per_key_new[where key = "\<lambda>r. nonempty (receiptKey u r)" and seen = "[]" and ts = "q_results e"]
    by force
qed

lemma recurrent_keyed:
  assumes "x \<in> set (ob_recurrent (connotationObligations u ledger))"
  shows "receiptKey u (rc_result x) \<noteq> []"
proof -
  have "keyed u (fold (add_owners u) qs acc)" if "keyed u acc" for qs acc
    using that by (induction qs arbitrary: acc) (simp_all add: add_owners_keyed)
  then have "keyed u (fold (add_owners u) qs [])" for qs by (simp add: keyed_def)
  then show ?thesis using assms by (fastforce simp: connotationObligations_def Let_def keyed_def list_all_iff)
qed

context unicode_ascii begin

lemma shortId_norm:
  assumes "key \<noteq> []" and "ascii p" and "p \<noteq> []" and "is_upper (hd p)"
  shows "normId u (shortId p key) \<noteq> []"
proof -
  have "normId u (shortId p key) = filter (\<lambda>c. is_upper c \<or> is_digit c) (map up1 (shortId p key))"
    using assms(2) shortId_ascii by (simp add: normId_def to_upper_ascii)
  moreover have "hd p \<in> set (map up1 (shortId p key))"
    using assms(1,3,4) by (cases p) (auto simp: shortId_def up1_def is_upper_def is_lower_def)
  ultimately show ?thesis using assms(4) by (auto simp: filter_empty_conv)
qed

lemma receipt_ids:
  assumes "receiptId u r \<noteq> []"
  shows "js_trim (receiptId u r) = receiptId u r \<and> normId u (receiptId u r) \<noteq> []"
proof -
  have "receiptKey u r \<noteq> []" using assms by (auto simp: receiptId_def shortId_def)
  then show ?thesis unfolding receiptId_def
    by (simp add: shortId_trim shortId_norm ascii_def is_space_def is_upper_def)
qed

lemma sane_plain: "sane u c \<Longrightarrow> sane u (without_snippets c)" "sane u c \<Longrightarrow> sane u (c\<lparr> or_quote := True \<rparr>)"
  by (cases "or_candidates c"; auto simp: sane_def without_snippets_def list_all_iff)+

lemma sane_query: "sane u (query_row u e)"
proof -
  let ?cs = "List.map_filter (\<lambda>r. if receiptId u r = [] then None else Some (cand r (receiptId u r))) (q_results e)"
  have "js_trim (ca_id x) = ca_id x \<and> ca_id x \<noteq> [] \<and> normId u (ca_id x) \<noteq> []" if "x \<in> set ?cs" for x
    using that receipt_ids by (auto simp: map_filter_def split: if_splits)
  then show ?thesis unfolding sane_def query_row_def Let_def
    by (auto simp: list_all_iff split: list.splits)
qed

lemma sane_recurrence: "receiptKey u (rc_result x) \<noteq> [] \<Longrightarrow> sane u (recurrence_row u x)"
  using receipt_ids[of "rc_result x"] by (auto simp: sane_def recurrence_row_def Let_def receiptId_def shortId_def)

lemma plain_rows_sane: "r \<in> set (plain_rows u (connotationObligations u ledger)) \<Longrightarrow> sane u r"
  using sane_query sane_recurrence recurrent_keyed by (auto simp: plain_rows_def)

lemma obligations_sane: "c \<in> set (obligationRows u (connotationObligations u ledger)) \<Longrightarrow> sane u c"
  using plain_rows_sane[OF nth_mem] by (auto simp: obligationRows_def Let_def sane_plain)

lemma obligation_of:
  assumes "c \<in> set (obligationRows u ob)"
  obtains r where "r \<in> set (plain_rows u ob)" and "c = r\<lparr> or_quote := True \<rparr> \<or> c = without_snippets r"
proof -
  obtain i where i: "i < length (plain_rows u ob)"
      "c = (if i \<in> set (spot_checked u QUOTE_SPOT_CHECKS (plain_rows u ob)) then (plain_rows u ob ! i)\<lparr> or_quote := True \<rparr>
            else without_snippets (plain_rows u ob ! i))"
    using assms by (auto simp: obligationRows_def Let_def)
  show thesis by (rule that[OF nth_mem[OF i(1)]]) (simp add: i(2))
qed

lemma plain_receipt: "r \<in> set (plain_rows u ob) \<Longrightarrow> or_receipt r = None \<or> length (or_candidates r) = 1"
  by (auto simp: plain_rows_def query_row_def recurrence_row_def Let_def split: list.splits)

lemma obligation_receipt:
  assumes "c \<in> set (obligationRows u (connotationObligations u ledger))"
  shows "js_trim (text_of (or_receipt c)) = text_of (or_receipt c)"
proof -
  obtain r where r: "r \<in> set (plain_rows u (connotationObligations u ledger))" "c = r\<lparr> or_quote := True \<rparr> \<or> c = without_snippets r"
    using obligation_of[OF assms] .
  then have "or_receipt c = None \<or> length (or_candidates c) = 1"
    using plain_receipt[OF r(1)] by (auto simp: without_snippets_def)
  then show ?thesis using obligations_sane[OF assms] by (cases "or_candidates c") (auto simp: sane_def)
qed

lemma row_id_shape: "c \<in> set (obligationRows u ob) \<Longrightarrow> \<exists>p key. or_id c = shortId p key \<and> key \<noteq> [] \<and> (p = js ''Q'' \<or> p = js ''X'')"
  by (auto simp: obligationRows_def Let_def without_snippets_def plain_rows_def nth_append query_row_def recurrence_row_def
      simp del: js_Cons) (auto intro: exI[of _ "js ''q!'' @ _"])

end

section \<open>The union keeps what was ruled\<close>

lemma finder_in: "formRowFinder u rows canonical c = Some r \<Longrightarrow> r \<in> set rows"
proof -
  assume f: "formRowFinder u rows canonical c = Some r"
  let ?ids = "by_id u rows (id_key u (or_id c))" and ?keys = "by_key u rows (row_key u c)"
  have sub: "set ?ids \<subseteq> set rows" "set ?keys \<subseteq> set rows" by (auto simp: by_id_def by_key_def)
  show "r \<in> set rows"
  proof (cases "List.find (\<lambda>r. isRuled u (Some r) c) (?ids @ ?keys)")
    case (Some x)
    then show ?thesis using f find_in[OF Some] sub by (auto simp: formRowFinder_def Let_def)
  next
    case None
    then show ?thesis using f sub
      by (auto simp: formRowFinder_def Let_def split: if_splits list.splits)
  qed
qed

lemma finder_ruled:
  assumes "r \<in> set (by_id u rows (id_key u (or_id c)))" and "isRuled u (Some r) c"
  shows "\<exists>x. formRowFinder u rows canonical c = Some x \<and> isRuled u (Some x) c"
proof -
  let ?l = "by_id u rows (id_key u (or_id c)) @ by_key u rows (row_key u c)"
  obtain x where "List.find (\<lambda>r. isRuled u (Some r) c) ?l = Some x"
    using assms by (cases "List.find (\<lambda>r. isRuled u (Some r) c) ?l") (auto simp: find_None_iff)
  then show ?thesis using find_in by (fastforce simp: formRowFinder_def Let_def)
qed

lemma park_row_keeps [simp]:
  "fr_row (park_row p s ok ids r) = fr_row r" "fr_receipt (park_row p s ok ids r) = fr_receipt r"
  "fr_ruling (park_row p s ok ids r) = fr_ruling r" "fr_note (park_row p s ok ids r) = fr_note r"
  "fr_quote (park_row p s ok ids r) = fr_quote r"
  by (simp_all add: park_row_def Let_def)

lemma explain_park_keeps [simp]:
  "fr_row (explain_park vs r) = fr_row r" "fr_receipt (explain_park vs r) = fr_receipt r"
  "fr_ruling (explain_park vs r) = fr_ruling r" "fr_note (explain_park vs r) = fr_note r"
  "fr_quote (explain_park vs r) = fr_quote r" "fr_parked (explain_park vs r) = fr_parked r"
  by (simp_all add: explain_park_def Let_def)

lemma union_row_of [simp]: "fr_row (union_row u p s ids c) = c"
  by (simp add: union_row_def Let_def)

text \<open>Ruled depends on the values written alone.\<close>

lemma ruled_values:
  assumes "fr_receipt r = fr_receipt r'" "fr_ruling r = fr_ruling r'" "fr_note r = fr_note r'" "fr_quote r = fr_quote r'"
  shows "isRuled u (Some (row_json r)) c = isRuled u (Some (row_json r')) c"
  using assms by (simp add: isRuled_def spotCheckBinds_def resolveCandidate_def unindexed del: js_Cons)

lemma union_row_ruled: "row_ruled u (union_row u p s ids c) = isRuled u (Some (row_json (fill_row (merged_fields u p s c) c))) c"
  unfolding row_ruled_def union_row_def Let_def by (simp add: ruled_values[of "park_row _ _ _ _ _"])

lemma explain_ruled [simp]: "row_ruled u (explain_park vs r) = row_ruled u r"
  unfolding row_ruled_def by (simp add: ruled_values[of "explain_park vs r" r])

lemma union_row_parked: "fr_parked (union_row u p s ids c) \<longleftrightarrow>
    \<not> row_ruled u (union_row u p s ids c)
    \<and> (member (js ''parked'') p = Some (JBool True) \<or> js_trim (or_id c) \<in> set (filter (\<lambda>x. x \<noteq> []) (map js_trim ids))
       \<or> member (js ''parked_kind'') s = Some (JStr (js ''declared'')) \<and> field ''obstacle'' s \<noteq> [])"
  unfolding union_row_ruled by (auto simp: union_row_def park_row_def Let_def simp del: js_Cons)

lemma kept_fill:
  assumes "sane u c" and "js_trim (sv_receipt v) = sv_receipt v" and "js_trim (sv_quote v) = sv_quote v"
  shows "kept (fill_row v c)"
  using assms by (cases "or_candidates c") (auto simp: kept_def fill_row_def sane_def)

lemma named_trimmed: "js_trim (named_id (resolveCandidate u r cs)) = named_id (resolveCandidate u r cs)"
  using resolved_candidate[of u r cs] by (cases "resolveCandidate u r cs") (auto simp: named_id_def)

lemma anchor_trimmed: "js_trim (anchor_quote (anchorBinding u a cs)) = anchor_quote (anchorBinding u a cs)"
proof -
  have q: "anchored u a' c = Some q \<Longrightarrow> js_trim q = q" for a' c q
    by (auto simp: anchored_def run_at_def Let_def split: option.splits if_splits prod.splits)
  show ?thesis
  proof (cases "anchorBinding u a cs")
    case (AnchorBound i q)
    then have "(i, q) \<in> set (List.map_filter (\<lambda>c. map_option (\<lambda>q. (ca_id c, q)) (anchored u (normText u a) c))
        (filter (\<lambda>c. usableSnippet u (snip c)) cs))"
      by (auto simp: anchorBinding_def Let_def split: if_splits list.splits)
    then show ?thesis using q AnchorBound by (auto simp: map_filter_def anchor_quote_def)
  qed (simp_all add: anchor_quote_def)
qed

lemma seat_trimmed: "js_trim (sv_receipt (seatFields u r c)) = sv_receipt (seatFields u r c)"
    "js_trim (sv_quote (seatFields u r c)) = sv_quote (seatFields u r c)"
  by (simp_all add: named_trimmed anchor_trimmed seatFields_def)

lemma kept_union: "sane u c \<Longrightarrow> kept (union_row u p s ids c)"
  unfolding union_row_def Let_def
  by (subst kept_def) (use kept_fill[of u c "merged_fields u p s c"] seat_trimmed in
    \<open>auto simp: kept_def merged_fields_def carry_def or_else_def split: if_splits\<close>)

lemma accepted_tidy:
  assumes "\<And>i ru n q f re. a = Accepted i ru n re (Some q) f \<Longrightarrow> js_trim q = q"
  shows "tidy (Some (accepted_json a))"
proof (cases a)
  case (Accepted i ru n re q f)
  then show ?thesis using assms
    by (cases q) (auto simp: tidy_def accepted_json_def or_null_def string_or_def simp del: js_Cons)
next
  case (Declared i ru n ob)
  then show ?thesis by (auto simp: tidy_def accepted_json_def string_or_def simp del: js_Cons)
qed

lemma segment_quote: "segmentBinding u i f t = (SegBound, Some q, x) \<Longrightarrow> js_trim q = q"
  by (auto simp: segmentBinding_def Let_def split: if_splits option.splits prod.splits)


lemma evidence_quote: "row_evidence u raw c i = Inr (Some q, f) \<Longrightarrow> js_trim q = q"
  by (auto simp: row_evidence_def segment_quote split: if_splits prod.splits segment_state.splits)

lemma check_row_quote: "check_row u raw n c = Takes (Accepted i ru nt re (Some q) f) \<Longrightarrow> js_trim q = q"
  by (auto simp: check_row_def Let_def evidence_quote split: if_splits naming.splits option.splits sum.splits)

section \<open>A call over a written form\<close>

definition settled :: "unicode \<Rightarrow> form_row \<Rightarrow> bool" where
  "settled u r \<longleftrightarrow> row_ruled u r \<or> fr_parked r"

text \<open>A form as the driver writes it for a ledger.\<close>

definition written_form :: "unicode \<Rightarrow> recorded list \<Rightarrow> form_row list \<Rightarrow> bool" where
  "written_form u ledger f \<longleftrightarrow>
     map fr_row f = obligationRows u (connotationObligations u ledger)
     \<and> list_all (\<lambda>r. kept r \<and> \<not> (fr_parked r \<and> row_ruled u r)) f"

lemma take_rows_checked:
  "Takes a \<in> set (take_rows u addr seen raws) \<Longrightarrow> \<exists>raw n c. check_row u raw n c = Takes a \<and> Some c \<in> set addr"
proof (induction raws arbitrary: seen)
  case (Cons raw raws)
  obtain v seen' where v: "take_row u addr seen raw = (v, seen')" by (metis prod.collapse)
  show ?case
  proof (cases "v = Takes a")
    case False
    then show ?thesis using Cons v by auto
  next
    case True
    then obtain idx n c where "check_row u (Some raw) n c = Takes a" "addressed addr idx = Some c"
      using v by (auto simp: take_row_def Let_def split: if_splits option.splits list.splits)
    moreover from this(2) have "Some c \<in> set addr"
      by (auto simp: addressed_def split: option.splits if_splits) (metis Suc_pred in_set_conv_nth le_simps(3) less_eq_Suc_le)
    ultimately show ?thesis by blast
  qed
qed simp

lemma accepted_checked:
  "a \<in> set (cv_accepted (validateDispositionCall u rows canonical told)) \<Longrightarrow>
    \<exists>raw n c. check_row u raw n c = Takes a \<and> Some c \<in> set (addressableRows canonical told)"
  by (auto simp: validateDispositionCall_def Let_def map_filter_def split: row_verdict.splits intro: take_rows_checked)

lemma submitted_tidy:
  assumes "formRowFinder u (map accepted_json (cv_accepted (validateDispositionCall u rows canonical told))) can c = r"
  shows "tidy r"
proof (cases r)
  case None
  then show ?thesis by (simp add: tidy_def)
next
  case (Some x)
  then obtain a where a: "a \<in> set (cv_accepted (validateDispositionCall u rows canonical told))" "x = accepted_json a"
    using finder_in[OF assms[unfolded Some]] by auto
  obtain raw n c' where "check_row u raw n c' = Takes a" using accepted_checked[OF a(1)] by blast
  then show ?thesis unfolding Some a(2) by (intro accepted_tidy) (auto dest: check_row_quote)
qed

lemma prior_tidy: "formRowFinder u (map (\<lambda>r. parse_row (row_json r)) f) can c = r \<Longrightarrow> tidy r"
  using finder_in[of u "map (\<lambda>r. parse_row (row_json r)) f" can c]
  by (cases r) (auto simp: tidy_def[of None] parsed_tidy)

lemma filter_key: "distinct (map h xs) \<Longrightarrow> i < length xs \<Longrightarrow> filter (\<lambda>x. h x = h (xs ! i)) xs = [xs ! i]"
proof (induction xs arbitrary: i)
  case (Cons x xs)
  show ?case
  proof (cases i)
    case 0
    have "h y \<noteq> h x" if "y \<in> set xs" for y using Cons.prems(1) that by (auto simp: image_iff)
    then show ?thesis using 0 by (auto simp: filter_empty_conv)
  next
    case (Suc j)
    then show ?thesis using Cons by auto
  qed
qed simp

context unicode_ascii begin

lemma union_keeps:
  assumes "sane u c" and "isRuled u p c \<or> isRuled u s c" and "tidy p" and "tidy s"
  shows "row_ruled u (union_row u p s ids c)"
  unfolding union_row_ruled merged_fields_def using filled_is_ruled assms by auto

lemma row_ids:
  assumes "c \<in> set (obligationRows u ob)"
  shows "id_key u (or_id c) = or_id c" "or_id c \<noteq> []" "js_trim (or_id c) = or_id c"
proof -
  obtain p key where p: "or_id c = shortId p key" "key \<noteq> []" "p = js ''Q'' \<or> p = js ''X''"
    using row_id_shape[OF assms] by blast
  then have tight: "js_trim (or_id c) = or_id c" "or_id c \<noteq> []"
    using shortId_trim[of key p] by (auto simp: is_space_def)
  have up: "up1 x = x" if "x \<in> set (or_id c)" for x
    using that p b32_chars_in[of 8 "fnv1a64 key"] B32_plain[of x]
    by (auto simp: shortId_def up1_def is_lower_def is_upper_def is_digit_def)
  have "ascii (or_id c)" using p shortId_ascii[of p key] by (auto simp: ascii_def)
  then have "to_upper u (or_id c) = or_id c" using up by (simp add: to_upper_ascii map_idI)
  then show "id_key u (or_id c) = or_id c" "or_id c \<noteq> []" "js_trim (or_id c) = or_id c"
    using tight by (simp_all add: id_key_def)
qed

end

lemma call_form:
  assumes "sw_form s = Some (form_json f)" and "recordDispositions u ledger told ok received s = Some (res, s')"
  defines "canonical \<equiv> obligationRows u (connotationObligations u ledger)"
    and "v \<equiv> validateDispositionCall u (member (js ''rows'') (Some received)) (obligationRows u (connotationObligations u ledger)) told"
  defines "all \<equiv> sw_verdicts s @ [map rf_id (cv_refused v)]"
  shows "cr_form res = map (\<lambda>c. explain_park all (union_row u
      (formRowFinder u (map (\<lambda>r. parse_row (row_json r)) f) canonical c)
      (formRowFinder u (map accepted_json (cv_accepted v)) canonical c) (parkedIds all) c)) canonical"
    and "canonical \<noteq> []" and "cr_verdict res = v" and "cr_dropped res = dropped (cr_form res) (cv_accepted v)"
    and "s' = \<lparr> sw_form = after_write (fst ok) (form_json (cr_form res)) (sw_form s),
                sw_verdicts = (if snd ok then all else sw_verdicts s) \<rparr>"
  using assms(1,2) unfolding all_def canonical_def v_def
  by (auto simp: recordDispositions_def Let_def unionDispositionForm_def parsed_form comp_def split: if_splits simp del: js_Cons)

lemma outstanding_unsettled:
  "list_all (\<lambda>r. \<not> (fr_parked r \<and> row_ruled u r)) f \<Longrightarrow> outstanding u f = int (length (filter (\<lambda>r. \<not> settled u r) f))"
  by (induction f) (auto simp: outstanding_def ruled_count_def parked_count_def settled_def)

lemma filter_mono: "length f = length g \<Longrightarrow> \<forall>i<length f. P (g ! i) \<longrightarrow> Q (f ! i) \<Longrightarrow> length (filter P g) \<le> length (filter Q f)"
proof (induction f g rule: list_induct2)
  case (Cons x xs y ys)
  have "\<forall>i<length xs. P (ys ! i) \<longrightarrow> Q (xs ! i)" using Cons.prems by (metis Suc_less_eq length_Cons nth_Cons_Suc)
  moreover have "P y \<longrightarrow> Q x" using Cons.prems by force
  ultimately show ?case using Cons.IH by auto
qed simp

lemma parsed_in_by_id:
  assumes "unicode_ascii u" and "fr_row r = c" and "r \<in> set f" and "c \<in> set (obligationRows u ob)"
  shows "parse_row (row_json r) \<in> set (by_id u (map (\<lambda>r. parse_row (row_json r)) f) (id_key u (or_id c)))"
  using assms unicode_ascii.row_ids[OF assms(1,4)]
  by (auto simp: by_id_def id_key_def either_case_def orelse_def simp del: js_Cons)

lemma finds_own_row:
  assumes "unicode_ascii u" and "map fr_row f = obligationRows u ob" and "distinct (map or_id (obligationRows u ob))" and "i < length f"
    and "formRowFinder u (map (\<lambda>r. parse_row (row_json r)) f) can (fr_row (f ! i)) = x"
    and "\<not> isRuled u x (fr_row (f ! i))"
  shows "x = Some (parse_row (row_json (f ! i)))"
proof -
  let ?g = "\<lambda>r. parse_row (row_json r)" and ?c = "fr_row (f ! i)"
  have mem: "fr_row r \<in> set (obligationRows u ob)" if "r \<in> set f" for r using that assms(2) by (metis image_eqI list.set_map)
  have key: "id_key u (string_or (member (js ''row_id'') (Some (?g r))) []) = or_id (fr_row r)" if "r \<in> set f" for r
    using unicode_ascii.row_ids[OF assms(1) mem[OF that]] by (simp add: id_key_def either_case_def orelse_def del: js_Cons)
  have "distinct (map (\<lambda>r. or_id (fr_row r)) f)" using assms(2,3) by (metis map_map comp_def map_cong)
  then have "filter (\<lambda>r. or_id (fr_row r) = or_id ?c) f = [f ! i]"
    using filter_key[of "\<lambda>r. or_id (fr_row r)" f i] assms(4) by simp
  moreover have "filter (\<lambda>r. id_key u (string_or (member (js ''row_id'') (Some (?g r))) []) = or_id ?c) f
      = filter (\<lambda>r. or_id (fr_row r) = or_id ?c) f"
    using key by (intro filter_cong) simp_all
  ultimately have ids: "by_id u (map ?g f) (id_key u (or_id ?c)) = [?g (f ! i)]"
    using unicode_ascii.row_ids[OF assms(1) mem, of "f ! i"] assms(4) by (simp add: by_id_def filter_map comp_def del: js_Cons)
  let ?l = "by_id u (map ?g f) (id_key u (or_id ?c)) @ by_key u (map ?g f) (row_key u ?c)"
  have "List.find (\<lambda>r. isRuled u (Some r) ?c) ?l = None"
  proof (rule ccontr)
    assume "List.find (\<lambda>r. isRuled u (Some r) ?c) ?l \<noteq> None"
    then obtain y where y: "List.find (\<lambda>r. isRuled u (Some r) ?c) ?l = Some y" by auto
    then have "x = Some y" using assms(5) by (simp add: formRowFinder_def Let_def)
    then show False using find_in[OF y] assms(6) by simp
  qed
  then show ?thesis using assms(5) ids by (simp add: formRowFinder_def Let_def)
qed

section \<open>One call\<close>

text \<open>Nothing is lost from one form to another: ruled rows stay ruled and, where no two rows share an id, settled rows
  stay settled, so that the number of rows outstanding does not rise.\<close>

definition no_loss :: "unicode \<Rightarrow> form_row list \<Rightarrow> form_row list \<Rightarrow> bool" where
  "no_loss u f g \<longleftrightarrow> length f = length g
    \<and> (\<forall>i<length f. row_ruled u (f ! i) \<longrightarrow> row_ruled u (g ! i))
    \<and> (distinct (map or_id (map fr_row f)) \<longrightarrow>
         (\<forall>i<length f. settled u (f ! i) \<longrightarrow> settled u (g ! i)) \<and> outstanding u g \<le> outstanding u f)"

lemma call_writes:
  assumes "unicode_ascii u" and "sw_form s = Some (form_json f)" and "recordDispositions u ledger told ok received s = Some (res, s')"
  shows "written_form u ledger (cr_form res)"
proof -
  have sane: "sane u c" if "c \<in> set (obligationRows u (connotationObligations u ledger))" for c
    using unicode_ascii.obligations_sane[OF assms(1) that] .
  have kept_new: "kept (explain_park all r) = kept r" for all r by (simp add: kept_def)
  show ?thesis
    unfolding written_form_def call_form(1)[OF assms(2,3)]
    using sane by (auto simp: comp_def list_all_iff kept_new kept_union union_row_parked)
qed

text \<open>A ruling is kept from one ledger to another: where the obligation of a ruled row is one of the ledger of the call, its
  row in the new form is ruled.\<close>

definition ruled_for :: "unicode \<Rightarrow> form_row list \<Rightarrow> obligation_row \<Rightarrow> bool" where
  "ruled_for u f c \<longleftrightarrow> (\<exists>r \<in> set f. fr_row r = c \<and> row_ruled u r)"

lemma call_keeps_ruled:
  assumes "unicode_ascii u" and "list_all kept f" and "sw_form s = Some (form_json f)"
    and "recordDispositions u ledger told ok received s = Some (res, s')"
    and "c \<in> set (obligationRows u (connotationObligations u ledger))" and "ruled_for u f c"
  shows "ruled_for u (cr_form res) c"
proof -
  let ?can = "obligationRows u (connotationObligations u ledger)"
  obtain r where r: "r \<in> set f" "fr_row r = c" "row_ruled u r" using assms(6) by (auto simp: ruled_for_def)
  have "kept r" using assms(2) r(1) by (simp add: list_all_iff)
  then have "isRuled u (Some (parse_row (row_json r))) c"
    using r unicode_ascii.parsed_ruled[OF assms(1)] by (simp add: row_ruled_def)
  from finder_ruled[OF parsed_in_by_id[OF assms(1) r(2,1) assms(5)] this, of ?can]
  obtain x where x: "formRowFinder u (map (\<lambda>r. parse_row (row_json r)) f) ?can c = Some x" "isRuled u (Some x) c" by blast
  define all where "all = sw_verdicts s @ [map rf_id (cv_refused (validateDispositionCall u (member (js ''rows'') (Some received)) ?can told))]"
  define sub where "sub = formRowFinder u (map accepted_json (cv_accepted (validateDispositionCall u (member (js ''rows'') (Some received)) ?can told))) ?can"
  let ?new = "explain_park all (union_row u (Some x) (sub c) (parkedIds all) c)"
  have "?new \<in> set (cr_form res)"
    unfolding call_form(1)[OF assms(3,4)] using assms(5) x(1) by (auto simp: all_def sub_def intro!: image_eqI[of _ _ c])
  moreover have "row_ruled u ?new"
    using unicode_ascii.union_keeps[OF assms(1) unicode_ascii.obligations_sane[OF assms(1,5)] disjI1[OF x(2)]]
      prior_tidy[of u f ?can c] submitted_tidy x(1) by (simp add: sub_def)
  moreover have "fr_row ?new = c" by simp
  ultimately show ?thesis unfolding ruled_for_def by blast
qed

lemma call_grows:
  assumes "unicode_ascii u" and "written_form u ledger f" and "sw_form s = Some (form_json f)"
    and "recordDispositions u ledger told ok received s = Some (res, s')"
  shows "written_form u ledger (cr_form res)" and "no_loss u f (cr_form res)"
proof -
  let ?ob = "connotationObligations u ledger"
  let ?can = "obligationRows u ?ob"
  note form = call_form(1)[OF assms(3,4)]
  define v all p sub where defs: "v = validateDispositionCall u (member (js ''rows'') (Some received)) ?can told"
    "all = sw_verdicts s @ [map rf_id (cv_refused v)]"
    "p = formRowFinder u (map (\<lambda>r. parse_row (row_json r)) f) ?can" "sub = formRowFinder u (map accepted_json (cv_accepted v)) ?can"
  have new: "cr_form res = map (\<lambda>c. explain_park all (union_row u (p c) (sub c) (parkedIds all) c)) ?can"
    unfolding form defs ..
  have rows: "map fr_row f = ?can" and kf: "list_all (\<lambda>r. kept r \<and> \<not> (fr_parked r \<and> row_ruled u r)) f"
    using assms(2) by (auto simp: written_form_def)
  have sane: "sane u c" if "c \<in> set ?can" for c using unicode_ascii.obligations_sane[OF assms(1) that] .
  have kept_new: "kept (explain_park all r) = kept r" for r by (simp add: kept_def)
  have written: "written_form u ledger (cr_form res)"
    unfolding written_form_def new
    using sane by (auto simp: comp_def list_all_iff kept_new kept_union union_row_parked)
  have len: "length f = length ?can" using rows by (metis length_map)
  have at: "fr_row (f ! i) = ?can ! i" "?can ! i \<in> set ?can" "cr_form res ! i = explain_park all (union_row u (p (?can ! i)) (sub (?can ! i)) (parkedIds all) (?can ! i))"
    if "i < length f" for i
  proof -
    show "fr_row (f ! i) = ?can ! i" using arg_cong[OF rows, of "\<lambda>l. l ! i"] that by simp
    show "?can ! i \<in> set ?can" using that len by simp
    show "cr_form res ! i = explain_park all (union_row u (p (?can ! i)) (sub (?can ! i)) (parkedIds all) (?can ! i))"
      using that len by (simp add: new)
  qed
  have tid: "tidy (p c)" "tidy (sub c)" for c using prior_tidy submitted_tidy by (auto simp: defs)
  have keeps: "row_ruled u (cr_form res ! i)" if i: "i < length f" and r: "isRuled u (p (?can ! i)) (?can ! i)" for i
    using unicode_ascii.union_keeps[OF assms(1) sane[OF at(2)[OF i]] disjI1[OF r] tid] at(3)[OF i] by simp
  have ruled: "row_ruled u (cr_form res ! i)" if i: "i < length f" and r: "row_ruled u (f ! i)" for i
  proof -
    have "kept (f ! i)" using kf i by (simp add: list_all_length)
    then have "isRuled u (Some (parse_row (row_json (f ! i)))) (?can ! i)"
      using r unicode_ascii.parsed_ruled[OF assms(1)] at(1)[OF i] by (simp add: row_ruled_def)
    from finder_ruled[OF parsed_in_by_id[OF assms(1) at(1)[OF i] nth_mem[OF i] at(2)[OF i]] this, of ?can]
    show ?thesis using keeps[OF i] by (auto simp: defs)
  qed
  have stays: "settled u (cr_form res ! i)" if i: "i < length f" and r: "settled u (f ! i)" and d: "distinct (map or_id ?can)" for i
  proof (cases "row_ruled u (f ! i) \<or> isRuled u (p (?can ! i)) (?can ! i)")
    case True
    then show ?thesis using ruled[OF i] keeps[OF i] by (auto simp: settled_def)
  next
    case False
    then have "p (?can ! i) = Some (parse_row (row_json (f ! i)))"
      using finds_own_row[OF assms(1) rows d i] at(1)[OF i] by (simp add: defs)
    then show ?thesis using r False at(3)[OF i] by (auto simp: settled_def union_row_parked simp del: js_Cons)
  qed
  have "outstanding u (cr_form res) \<le> outstanding u f" if "distinct (map or_id ?can)"
  proof -
    have "length (filter (\<lambda>r. \<not> settled u r) (cr_form res)) \<le> length (filter (\<lambda>r. \<not> settled u r) f)"
      using stays[OF _ _ that] len by (intro filter_mono) (auto simp: new)
    moreover have "list_all (\<lambda>r. \<not> (fr_parked r \<and> row_ruled u r)) g" if "written_form u ledger g" for g
      using that by (auto simp: written_form_def list_all_iff)
    ultimately show ?thesis using written assms(2) by (simp add: outstanding_unsettled)
  qed
  moreover have "length f = length (cr_form res)" using len by (simp add: new)
  ultimately show "no_loss u f (cr_form res)" using ruled stays rows by (auto simp: no_loss_def)
  show "written_form u ledger (cr_form res)" by (rule written)
qed

end
