(* ===== verification/DispositionProps.thy ===== *)
theory DispositionProps
  imports DispositionSpec
begin

text \<open>The properties of the meaning sweep: what a run of calls keeps of the form, what one call does with the rows it
  is sent, and the bound on refusals.\<close>

section \<open>Runs of calls\<close>

text \<open>The calls of a sweep, each on the ledger as it stands by then; no write of the form is torn.\<close>

inductive calls :: "unicode \<Rightarrow> recorded list list \<Rightarrow> sweep \<Rightarrow> sweep \<Rightarrow> bool" for u where
  none: "calls u [] s s"
| call: "calls u Ls s s' \<Longrightarrow> recordDispositions u L told ok received s' = Some (res, s'') \<Longrightarrow> fst ok \<noteq> Truncated
    \<Longrightarrow> calls u (Ls @ [L]) s s''"

lemma no_loss_refl: "no_loss u f f"
  by (simp add: no_loss_def)

lemma no_loss_trans:
  assumes "no_loss u f g" and "no_loss u g h" and "map fr_row f = map fr_row g"
  shows "no_loss u f h"
  using assms by (auto simp: no_loss_def intro: order_trans)

lemma calls_keep:
  assumes "calls u Ls s s'" and "unicode_ascii u" and "written_form u L0 f" and "sw_form s = Some (form_json f)"
  shows "\<exists>g L. sw_form s' = Some (form_json g) \<and> L \<in> set (L0 # Ls) \<and> written_form u L g
    \<and> (\<forall>c. ruled_for u f c \<and> (\<forall>L \<in> set Ls. c \<in> set (obligationRows u (connotationObligations u L))) \<longrightarrow> ruled_for u g c)
    \<and> (set Ls \<subseteq> {L0} \<longrightarrow> no_loss u f g)"
  using assms
proof (induction rule: calls.induct)
  case (none s)
  then show ?case using no_loss_refl by auto
next
  case (call Ls s s' L told ok received res s'')
  then obtain g K where g: "sw_form s' = Some (form_json g)" "K \<in> set (L0 # Ls)" "written_form u K g"
    and ruled: "\<forall>c. ruled_for u f c \<and> (\<forall>L \<in> set Ls. c \<in> set (obligationRows u (connotationObligations u L))) \<longrightarrow> ruled_for u g c"
    and same: "set Ls \<subseteq> {L0} \<longrightarrow> no_loss u f g" by blast
  note s'' = call_form(5)[OF g(1) call.hyps(2)] and new = call_writes[OF call.prems(1) g(1) call.hyps(2)]
  show ?case
  proof (cases "fst ok")
    case Wrote
    have "list_all kept g" using g(3) by (auto simp: written_form_def list_all_iff)
    then have "ruled_for u (cr_form res) c"
      if "ruled_for u f c" "\<forall>K \<in> set (Ls @ [L]). c \<in> set (obligationRows u (connotationObligations u K))" for c
      using call_keeps_ruled[OF call.prems(1) _ g(1) call.hyps(2)] ruled that by simp
    moreover have "no_loss u f (cr_form res)" if "set (Ls @ [L]) \<subseteq> {L0}"
    proof -
      have L: "L = L0" "K = L0" using that g(2) by auto
      have "map fr_row f = map fr_row g" using call.prems(2) g(3) L by (simp add: written_form_def)
      then show ?thesis
        using no_loss_trans[of u f g] same that call_grows(2)[OF call.prems(1) _ g(1), of L] g(3) call.hyps(2) L by auto
    qed
    ultimately show ?thesis using s'' new Wrote by (intro exI[of _ "cr_form res"] exI[of _ L]) auto
  next
    case Unchanged
    then show ?thesis using s'' g ruled same by (intro exI[of _ g] exI[of _ K]) auto
  next
    case Truncated
    then show ?thesis using call.hyps(3) by blast
  qed
qed

text \<open>The form the driver builds is a written form with nothing ruled by anyone but itself.\<close>

lemma built_form:
  assumes "unicode_ascii u"
  shows "written_form u ledger (buildDispositionForm u (connotationObligations u ledger))"
proof -
  have "kept (blank_row c)" if "c \<in> set (obligationRows u (connotationObligations u ledger))" for c
  proof -
    have "js_trim (text_of (or_receipt c)) = text_of (or_receipt c)"
      using unicode_ascii.obligation_receipt[OF assms that] .
    then show ?thesis by (simp add: kept_def blank_row_def)
  qed
  then show ?thesis by (simp add: written_form_def buildDispositionForm_def comp_def list_all_iff blank_row_def)
qed

section \<open>The bound on refusals\<close>

lemma counted_ids:
  "k \<noteq> [] \<Longrightarrow> js_trim k = k \<Longrightarrow> k \<in> set (filter (\<lambda>x. x \<noteq> []) (map js_trim (parkedIds vs))) \<longleftrightarrow> PARK_AFTER_REFUSALS \<le> refusalCountsBy vs k"
proof -
  assume k: "k \<noteq> []" "js_trim k = k"
  have trimmed: "js_trim x = x" if "x \<in> set (parkedIds vs)" for x using that by (auto simp: parkedIds_def)
  then have "map js_trim (parkedIds vs) = parkedIds vs" by (simp add: map_idI)
  moreover have "k \<in> set (map js_trim (concat vs))" if "PARK_AFTER_REFUSALS \<le> refusalCountsBy vs k"
  proof -
    have "count_list (map js_trim (concat vs)) k \<noteq> 0" using that k by (auto simp: refusalCountsBy_def PARK_AFTER_REFUSALS_def)
    then show ?thesis using count_list_0_iff by metis
  qed
  ultimately show ?thesis using k by (auto simp: parkedIds_def)
qed

text \<open>A declaration of this call for a row: the row was ruled and noted, its evidence was refused, the obstacle named.\<close>

definition declares :: "accepted_row \<Rightarrow> jstr \<Rightarrow> bool" where
  "declares a i \<longleftrightarrow> (case a of Declared j ru nt ob \<Rightarrow> j = i \<and> ob \<noteq> [] | _ \<Rightarrow> False)"

section \<open>Which rows a call accepts\<close>

lemma take_row_seen:
  assumes "take_row u addr seen raw = (v, seen')"
  shows "set seen \<subseteq> set seen'" and "v = Takes a \<Longrightarrow> accepted_id a \<notin> set seen \<and> accepted_id a \<in> set seen'"
proof -
  show "set seen \<subseteq> set seen'"
    using assms by (auto simp: take_row_def Let_def split: if_splits option.splits list.splits)
  have own: "check_row u r n c = Takes a \<Longrightarrow> accepted_id a = js_trim (or_id c)" for r n c
    by (auto simp: check_row_def Let_def accepted_id_def split: option.splits naming.splits sum.splits if_splits)
  show "accepted_id a \<notin> set seen \<and> accepted_id a \<in> set seen'" if "v = Takes a"
    using assms that own by (auto simp: take_row_def Let_def split: if_splits option.splits list.splits)
qed

definition taken :: "row_verdict list \<Rightarrow> accepted_row list" where
  "taken vs = List.map_filter (\<lambda>v. case v of Takes a \<Rightarrow> Some a | Refuses _ \<Rightarrow> None) vs"

lemma taken_simps [simp]:
  "taken [] = []" "taken (Takes a # vs) = a # taken vs" "taken (Refuses r # vs) = taken vs"
  by (simp_all add: taken_def map_filter_def)

lemma taken_distinct:
  "distinct (map accepted_id (taken (take_rows u addr seen raws))) \<and> set (map accepted_id (taken (take_rows u addr seen raws))) \<inter> set seen = {}"
proof (induction raws arbitrary: seen)
  case (Cons raw raws)
  obtain v seen' where v: "take_row u addr seen raw = (v, seen')" by (metis prod.collapse)
  show ?case using Cons[of seen'] take_row_seen[OF v] by (cases v) (auto simp: v)
qed simp

lemma accepted_distinct: "distinct (map accepted_id (cv_accepted (validateDispositionCall u rows canonical told)))"
  using taken_distinct by (simp add: validateDispositionCall_def Let_def taken_def[symmetric])

section \<open>The accepted row that answers an obligation\<close>

lemma accepted_kind: "formRowKey u (Some (accepted_json a)) = js ''q:'' @ normText u []"
  by (cases a) (simp_all add: formRowKey_def field_def accepted_json_def del: js_Cons)

lemma accepted_own:
  assumes "a \<in> set (cv_accepted (validateDispositionCall u rows can told))"
  shows "\<exists>c. accepted_id a = js_trim (or_id c) \<and> Some c \<in> set (addressableRows can told)"
proof -
  obtain raw n c where c: "check_row u raw n c = Takes a" "Some c \<in> set (addressableRows can told)"
    using accepted_checked[OF assms] by blast
  then have "accepted_id a = js_trim (or_id c)"
    by (auto simp: check_row_def Let_def accepted_id_def split: option.splits naming.splits sum.splits if_splits)
  then show ?thesis using c by blast
qed

lemma last_of_in: "last_of f xs k = Some x \<Longrightarrow> x \<in> set xs \<and> f x = k"
  by (auto simp: last_of_def find_Some_iff) (metis nth_mem set_rev length_rev)

lemma told_slots_from: "Some c \<in> set (fst (told_slots rows T used)) \<Longrightarrow> c \<in> set rows"
  by (induction rows T used rule: told_slots.induct)
    (auto simp: Let_def split: if_splits prod.splits dest: last_of_in[OF sym])

lemma addressable_from: "Some c \<in> set (addressableRows rows told) \<Longrightarrow> c \<in> set rows"
proof (cases told)
  case (Some T)
  obtain out used where o: "told_slots rows T [] = (out, used)" by (metis prod.collapse)
  assume "Some c \<in> set (addressableRows rows told)"
  then show ?thesis using told_slots_from[of c rows T "[]"] Some o by (auto simp: addressableRows_def)
qed (auto simp: addressableRows_def)

context unicode_ascii begin

lemma query_key:
  assumes "c \<in> set (obligationRows u (connotationObligations u ledger))"
  shows "row_key u c \<noteq> js ''q:'' @ normText u []"
proof -
  obtain r where r: "r \<in> set (plain_rows u (connotationObligations u ledger))"
      "c = r\<lparr> or_quote := True \<rparr> \<or> c = without_snippets r"
    using obligation_of[OF assms] .
  have k: "or_kind c = or_kind r" using r(2) by (auto simp: without_snippets_def)
  show ?thesis using r(1)
    by (auto simp: row_key_def k plain_rows_def query_row_def recurrence_row_def connotationObligations_def Let_def)
qed

lemma submitted_row:
  assumes "c \<in> set (obligationRows u (connotationObligations u ledger))"
    and "distinct (map accepted_id as)" and "\<forall>a\<in>set as. \<exists>c'\<in>set (obligationRows u ob'). accepted_id a = js_trim (or_id c')"
  shows "formRowFinder u (map accepted_json as) can c = map_option accepted_json (List.find (\<lambda>a. accepted_id a = or_id c) as)"
proof -
  have key: "id_key u (accepted_id a) = accepted_id a" if "a \<in> set as" for a
  proof -
    obtain c' where "c' \<in> set (obligationRows u ob')" "accepted_id a = js_trim (or_id c')" using assms(3) \<open>a \<in> set as\<close> by blast
    then show ?thesis using row_ids[of c' ob'] by simp
  qed
  have keys: "by_key u (map accepted_json as) (row_key u c) = []"
    using query_key[OF assms(1)] by (auto simp: by_key_def accepted_kind filter_empty_conv)
  have ids: "by_id u (map accepted_json as) (id_key u (or_id c)) = map accepted_json (filter (\<lambda>a. accepted_id a = or_id c) as)"
    using row_ids[OF assms(1)] key
    by (auto simp: by_id_def filter_map comp_def simp del: js_Cons intro!: arg_cong[of _ _ "map accepted_json"] filter_cong)
  show ?thesis
  proof (cases "List.find (\<lambda>a. accepted_id a = or_id c) as")
    case None
    then have "filter (\<lambda>a. accepted_id a = or_id c) as = []" by (auto simp: find_None_iff filter_empty_conv)
    then show ?thesis using None by (simp add: formRowFinder_def Let_def ids keys)
  next
    case (Some a)
    then obtain i where "i < length as" "as ! i = a" "accepted_id a = or_id c" by (auto simp: find_Some_iff)
    then have "filter (\<lambda>a. accepted_id a = or_id c) as = [a]" using filter_key[OF assms(2), of i] by simp
    then show ?thesis using Some by (simp add: formRowFinder_def Let_def ids keys)
  qed
qed

end

section \<open>The rows of the new form\<close>

lemma found_tidy: "tidy (map_option accepted_json (List.find P (cv_accepted (validateDispositionCall u rows can told))))"
proof (cases "List.find P (cv_accepted (validateDispositionCall u rows can told))")
  case (Some a)
  then have "a \<in> set (cv_accepted (validateDispositionCall u rows can told))" by (auto simp: find_Some_iff)
  then obtain raw n c where "check_row u raw n c = Takes a" using accepted_checked by blast
  then have "tidy (Some (accepted_json a))" by (intro accepted_tidy) (auto dest: check_row_quote)
  then show ?thesis using Some by simp
qed (simp add: tidy_def)

lemma call_rows:
  assumes "unicode_ascii u" and "written_form u ledger f" and "sw_form s = Some (form_json f)"
    and "recordDispositions u ledger told ok received s = Some (res, s')" and "i < length f"
  defines "c \<equiv> fr_row (f ! i)" and "all \<equiv> sw_verdicts s @ [map rf_id (cv_refused (cr_verdict res))]"
  obtains p where "cr_form res ! i = explain_park all (union_row u p
        (map_option accepted_json (List.find (\<lambda>a. accepted_id a = or_id c) (cv_accepted (cr_verdict res)))) (parkedIds all) c)"
    and "tidy p" and "c \<in> set (obligationRows u (connotationObligations u ledger))" and "i < length (cr_form res)"
    and "distinct (map or_id (map fr_row f)) \<Longrightarrow> \<not> isRuled u p c \<Longrightarrow> p = Some (parse_row (row_json (f ! i)))"
proof -
  let ?can = "obligationRows u (connotationObligations u ledger)"
  let ?p = "formRowFinder u (map (\<lambda>r. parse_row (row_json r)) f) ?can c"
  let ?as = "cv_accepted (cr_verdict res)"
  note form = call_form[OF assms(3,4)]
  have rows: "map fr_row f = ?can" using assms(2) by (simp add: written_form_def)
  have len: "length f = length ?can" using rows by (metis length_map)
  have at: "?can ! i = c" using arg_cong[OF rows, of "\<lambda>l. l ! i"] assms(5) by (simp add: c_def)
  then have mem: "c \<in> set ?can" using assms(5) len by (metis nth_mem)
  have own: "\<forall>a\<in>set ?as. \<exists>c'\<in>set ?can. accepted_id a = js_trim (or_id c')"
    unfolding form(3) using accepted_own addressable_from by blast
  have sub: "formRowFinder u (map accepted_json ?as) ?can c = map_option accepted_json (List.find (\<lambda>a. accepted_id a = or_id c) ?as)"
    using unicode_ascii.submitted_row[OF assms(1) mem accepted_distinct own[unfolded form(3)]] by (simp add: form(3))
  show thesis
  proof (rule that[of ?p])
    show "cr_form res ! i = explain_park all (union_row u ?p
        (map_option accepted_json (List.find (\<lambda>a. accepted_id a = or_id c) ?as)) (parkedIds all) c)"
      using form(1) assms(5) len at sub by (simp add: form(3) all_def)
    show "tidy ?p" using prior_tidy by blast
    show "c \<in> set ?can" by (rule mem)
    show "i < length (cr_form res)" using form(1) assms(5) len by simp
    show "?p = Some (parse_row (row_json (f ! i)))" if "distinct (map or_id (map fr_row f))" "\<not> isRuled u ?p c"
      using finds_own_row[OF assms(1) rows that(1)[unfolded rows] assms(5)] that(2) by (simp add: c_def)
  qed
qed

lemma find_unique:
  assumes "distinct (map h xs)"
  shows "List.find (\<lambda>x. h x = k) xs = Some x \<longleftrightarrow> x \<in> set xs \<and> h x = k"
proof
  assume "x \<in> set xs \<and> h x = k"
  then obtain i where i: "i < length xs" "xs ! i = x" "h x = k" by (auto simp: in_set_conv_nth)
  have "h (xs ! j) \<noteq> k" if "j < i" for j
    using assms that i nth_eq_iff_index_eq[OF assms, of j i] by auto
  then show "List.find (\<lambda>x. h x = k) xs = Some x" using i by (auto simp: find_Some_iff)
qed (auto simp: find_Some_iff)

lemma declared_json:
  "member (js ''parked_kind'') (Some (accepted_json a)) = Some (JStr (js ''declared''))
      \<and> field ''obstacle'' (Some (accepted_json a)) \<noteq> [] \<longleftrightarrow> (\<exists>i ru nt ob. a = Declared i ru nt ob \<and> js_trim ob \<noteq> [])"
  by (cases a) (simp_all add: accepted_json_def field_def del: js_Cons)

lemma declared_obstacle:
  assumes "Declared i ru nt ob \<in> set (cv_accepted (validateDispositionCall u rows can told))"
  shows "js_trim ob \<noteq> []"
proof -
  obtain raw n c where "check_row u raw n c = Takes (Declared i ru nt ob)" using accepted_checked[OF assms] by blast
  then show ?thesis by (auto simp: check_row_def Let_def str_def split: option.splits naming.splits sum.splits if_splits)
qed

lemma accepted_id_simps [simp]: "accepted_id (Accepted i ru nt re q f) = i" "accepted_id (Declared i ru nt ob) = i"
  by (simp_all add: accepted_id_def)

lemma found_declared:
  fixes u rows can told k
  defines "as \<equiv> cv_accepted (validateDispositionCall u rows can told)"
  defines "s \<equiv> map_option accepted_json (List.find (\<lambda>a. accepted_id a = k) as)"
  shows "member (js ''parked_kind'') s = Some (JStr (js ''declared'')) \<and> field ''obstacle'' s \<noteq> []
      \<longleftrightarrow> (\<exists>a\<in>set as. \<exists>ru nt ob. a = Declared k ru nt ob)"
proof (cases "List.find (\<lambda>a. accepted_id a = k) as")
  case None
  then have "\<nexists>a. a \<in> set as \<and> accepted_id a = k" by (auto simp: find_None_iff)
  then show ?thesis using None by (auto simp: s_def field_def)
next
  case (Some a)
  have unique: "List.find (\<lambda>a. accepted_id a = k) as = Some b \<longleftrightarrow> b \<in> set as \<and> accepted_id b = k" for b
    using find_unique[of accepted_id as] accepted_distinct by (simp add: as_def)
  have "(\<exists>b\<in>set as. \<exists>ru nt ob. b = Declared k ru nt ob) \<longleftrightarrow> (\<exists>ru nt ob. a = Declared k ru nt ob)"
    using Some unique by (metis accepted_id_simps(2) option.inject)
  also have "\<dots> \<longleftrightarrow> (\<exists>i ru nt ob. a = Declared i ru nt ob \<and> js_trim ob \<noteq> [])"
    using Some unique declared_obstacle by (metis accepted_id_simps(2) as_def)
  finally show ?thesis using Some by (simp add: s_def declared_json del: js_Cons)
qed

text \<open>C10: A row is given up for cause only. After a call, whatever was sent, a row of the new form is parked exactly when
  it is not ruled and it was parked before, or its refusals over all calls, this one included, have reached the bound
  of 30, or this call declared an obstacle for it. So a row refused 30 times is no longer asked for.\<close>

theorem rows_given_up_for_cause:
  assumes "unicode_ascii u" and "written_form u ledger f" and "sw_form s = Some (form_json f)"
    and "recordDispositions u ledger told ok received s = Some (res, s')" and "i < length f" and "distinct (map or_id (map fr_row f))"
  shows "fr_parked (cr_form res ! i) \<longleftrightarrow>
    \<not> row_ruled u (cr_form res ! i)
    \<and> (fr_parked (f ! i)
       \<or> 30 \<le> refusalCountsBy (sw_verdicts s @ [map rf_id (cv_refused (cr_verdict res))]) (or_id (fr_row (f ! i)))
       \<or> (\<exists>a\<in>set (cv_accepted (cr_verdict res)). \<exists>ru nt ob. a = Declared (or_id (fr_row (f ! i))) ru nt ob))"
proof (cases "row_ruled u (cr_form res ! i)")
  case True
  have "written_form u ledger (cr_form res)" "i < length (cr_form res)"
    using call_grows[OF assms(1-4)] assms(5) by (auto simp: no_loss_def)
  then show ?thesis using True by (auto simp: written_form_def list_all_length)
next
  case False
  let ?c = "fr_row (f ! i)" and ?as = "cv_accepted (cr_verdict res)"
  let ?all = "sw_verdicts s @ [map rf_id (cv_refused (cr_verdict res))]"
  obtain p where p: "cr_form res ! i = explain_park ?all (union_row u p
        (map_option accepted_json (List.find (\<lambda>a. accepted_id a = or_id ?c) ?as)) (parkedIds ?all) ?c)"
      "tidy p" "?c \<in> set (obligationRows u (connotationObligations u ledger))"
      "\<not> isRuled u p ?c \<Longrightarrow> p = Some (parse_row (row_json (f ! i)))"
    using call_rows[OF assms(1-5)] assms(6) by metis
  let ?s = "map_option accepted_json (List.find (\<lambda>a. accepted_id a = or_id ?c) ?as)"
  note ids = unicode_ascii.row_ids[OF assms(1) p(3)]
  have sane: "sane u ?c" using unicode_ascii.obligations_sane[OF assms(1) p(3)] .
  have form: "cr_verdict res = validateDispositionCall u (member (js ''rows'') (Some received))
      (obligationRows u (connotationObligations u ledger)) told"
    using call_form(3)[OF assms(3,4)] .
  have tidy: "tidy ?s" unfolding form by (rule found_tidy)
  have "\<not> isRuled u p ?c"
    using False unicode_ascii.union_keeps[OF assms(1) sane _ p(2) tidy] by (auto simp: p(1))
  then have prior: "member (js ''parked'') p = Some (JBool True) \<longleftrightarrow> fr_parked (f ! i)" using p(4) by (simp del: js_Cons)
  note declared = found_declared[of "or_id ?c" u "member (js ''rows'') (Some received)"
      "obligationRows u (connotationObligations u ledger)" told, folded form]
  show ?thesis using False prior declared counted_ids[OF ids(2,3), of ?all] ids
    by (simp add: p(1) union_row_parked PARK_AFTER_REFUSALS_def del: js_Cons)
qed

section \<open>Accepted rows land\<close>

lemma filter_b32: "filter (\<lambda>c. is_upper c \<or> is_digit c) (b32_chars n h) = b32_chars n h"
  using b32_chars_in[of n h] B32_plain by (auto intro!: filter_True)

context unicode_ascii begin

lemma cand_from: "x \<in> set (or_candidates c) \<Longrightarrow> c \<in> set (obligationRows u (connotationObligations u ledger)) \<Longrightarrow>
    \<exists>key. key \<noteq> [] \<and> ca_id x = shortId (js ''R'') key"
proof -
  assume x: "x \<in> set (or_candidates c)" and c: "c \<in> set (obligationRows u (connotationObligations u ledger))"
  obtain r where r: "r \<in> set (plain_rows u (connotationObligations u ledger))" "c = r\<lparr> or_quote := True \<rparr> \<or> c = without_snippets r"
    using obligation_of[OF c] .
  then obtain y where y: "y \<in> set (or_candidates r)" "ca_id x = ca_id y" using x by (auto simp: without_snippets_def)
  have ne: "receiptId u q \<noteq> [] \<longleftrightarrow> receiptKey u q \<noteq> []" for q by (simp add: receiptId_def shortId_def)
  have "\<exists>q. receiptId u q \<noteq> [] \<and> ca_id y = receiptId u q"
  proof (cases "r \<in> query_row u ` set (ob_queries (connotationObligations u ledger))")
    case True
    then obtain q where "receiptId u q \<noteq> []" "y = cand q (receiptId u q)"
      using y(1) by (auto simp: query_row_def Let_def map_filter_def split: if_splits)
    then show ?thesis by auto
  next
    case False
    then obtain e where e: "e \<in> set (ob_recurrent (connotationObligations u ledger))" "r = recurrence_row u e"
      using r(1) by (auto simp: plain_rows_def)
    then show ?thesis using y(1) ne recurrent_keyed[OF e(1)] by (auto simp: recurrence_row_def Let_def)
  qed
  then show ?thesis using y(2) ne by (auto simp: receiptId_def)
qed

lemma shortId_upper:
  assumes "key \<noteq> []" shows "normId u (shortId (js ''R'') key) = js ''R'' @ b32_chars 8 (fnv1a64 key)"
proof -
  have up: "up1 x = x" if "x \<in> set (shortId (js ''R'') key)" for x
    using that assms b32_chars_in[of 8 "fnv1a64 key"] B32_plain[of x]
    by (auto simp: shortId_def up1_def is_lower_def is_upper_def is_digit_def)
  have "ascii (shortId (js ''R'') key)" using shortId_ascii[of "js ''R''"] by (auto simp: ascii_def)
  then have "to_upper u (shortId (js ''R'') key) = shortId (js ''R'') key" using up by (simp add: to_upper_ascii map_idI)
  then show ?thesis using assms by (simp add: normId_def shortId_def filter_b32) (simp add: is_upper_def is_digit_def)
qed

lemma same_id:
  assumes "x \<in> set (or_candidates c)" and "y \<in> set (or_candidates c)" and "c \<in> set (obligationRows u (connotationObligations u ledger))"
    and "normId u (ca_id x) = normId u (ca_id y)"
  shows "ca_id x = ca_id y"
proof -
  obtain k k' where "k \<noteq> []" "ca_id x = shortId (js ''R'') k" "k' \<noteq> []" "ca_id y = shortId (js ''R'') k'"
    using cand_from[OF assms(1,3)] cand_from[OF assms(2,3)] by blast
  then show ?thesis using assms(4) shortId_upper by (simp add: shortId_def)
qed

text \<open>The id the driver wrote on an accepted row names the same candidate when it is read again.\<close>

lemma reread_receipt:
  assumes "c \<in> set (obligationRows u (connotationObligations u ledger))" and "x \<in> set (or_candidates c)"
    and "index_of_row r = None" and "string_or (member (js ''receipt_id'') r) [] = ca_id x"
  shows "resolveCandidate u r (or_candidates c) = Named (ca_id x)"
proof -
  have sane: "js_trim (ca_id y) = ca_id y \<and> normId u (ca_id y) \<noteq> []" if "y \<in> set (or_candidates c)" for y
    using obligations_sane[OF assms(1)] that by (auto simp: sane_def list_all_iff)
  obtain y where y: "List.find (\<lambda>y. normId u (ca_id y) = normId u (ca_id x)) (or_candidates c) = Some y"
    using assms(2) by (cases "List.find (\<lambda>y. normId u (ca_id y) = normId u (ca_id x)) (or_candidates c)") (auto simp: find_None_iff)
  then have m: "y \<in> set (or_candidates c)" "normId u (ca_id y) = normId u (ca_id x)" by (auto simp: find_Some_iff)
  then have "ca_id y = ca_id x" using same_id assms(1,2) by blast
  then show ?thesis using y sane[OF m(1)] sane[OF assms(2)] assms(2,3,4) by (auto simp: resolveCandidate_def)
qed

end

lemma checked_accepts:
  assumes "check_row u raw n c = Takes (Accepted i ru nt re q f)"
  shows "i = js_trim (or_id c)" "row_fault u raw c = None" "row_position u raw c = Named re" "row_evidence u raw c re = Inr (q, f)"
    "ru = to_lower u (str (member (js ''ruling'') raw))" "nt = str (member (js ''note'') raw)"
  using assms by (auto simp: check_row_def Let_def split: option.splits naming.splits sum.splits if_splits)

lemma faultless:
  assumes "row_fault u raw c = None"
  shows "to_lower u (str (member (js ''ruling'') raw)) \<in> set RULINGS" "str (member (js ''note'') raw) \<noteq> []"
  using assms by (auto simp: row_fault_def split: if_splits)

lemma rulings_plain: "r \<in> set RULINGS \<Longrightarrow> js_trim r = r \<and> r \<noteq> [] \<and> ascii r \<and> map low1 r = r"
  by (auto simp: RULINGS_def ascii_def js_trim_def low1_def is_upper_def is_space_def)

lemma accepted_values [simp]:
  "member (js ''receipt_id'') (Some (accepted_json (Accepted i ru nt re q f))) = Some (JStr re)"
  "field ''ruling'' (Some (accepted_json (Accepted i ru nt re q f))) = js_trim ru"
  "field ''note'' (Some (accepted_json (Accepted i ru nt re q f))) = js_trim nt"
  by (simp_all add: accepted_json_def field_def del: js_Cons)

context unicode_ascii begin

lemma accepted_answers:
  assumes "check_row u raw n c = Takes (Accepted i ru nt re q f)" and "c \<in> set (obligationRows u (connotationObligations u ledger))"
  defines "s \<equiv> Some (accepted_json (Accepted i ru nt re q f))"
  shows "resolveCandidate u s (or_candidates c) = Named re" "re \<noteq> []" "field ''ruling'' s = ru" "ru \<noteq> []"
    "field ''note'' s = nt" "nt \<noteq> []" "\<not> or_quote c \<Longrightarrow> isRuled u s c"
proof -
  note a = checked_accepts[OF assms(1)]
  obtain x where x: "x \<in> set (or_candidates c)" "re = js_trim (ca_id x)"
    using resolved_candidate a(3) unfolding row_position_def by blast
  have plain: "js_trim (ca_id x) = ca_id x" "ca_id x \<noteq> []"
    using obligations_sane[OF assms(2)] x(1) by (auto simp: sane_def list_all_iff)
  show named: "resolveCandidate u s (or_candidates c) = Named re" and ne: "re \<noteq> []"
    using reread_receipt[OF assms(2) x(1), of s] x(2) plain by (simp_all add: s_def unindexed del: js_Cons)
  have ru: "ru \<in> set RULINGS" using faultless(1)[OF a(2)] a(5) by simp
  show rul: "field ''ruling'' s = ru" "ru \<noteq> []" using rulings_plain[OF ru] by (simp_all add: s_def)
  have "js_trim nt = nt" using a(6) by (simp add: str_def)
  then show note_t: "field ''note'' s = nt" "nt \<noteq> []" using faultless(2)[OF a(2)] a(6) by (simp_all add: s_def)
  show "isRuled u s c" if "\<not> or_quote c"
    using that named ne rul note_t rulings_plain[OF ru] ru
    by (simp add: isRuled_def is_ruling_def named_id_def to_lower_ascii) (simp add: s_def)
qed

end

text \<open>What a new row holds of an accepted one.\<close>

lemma lands_filled:
  assumes "map fr_row g = rows" and "distinct (map or_id rows)" and "\<forall>c\<in>set rows. js_trim (or_id c) = or_id c"
    and "k < length g" and "js_trim i = or_id (fr_row (g ! k))"
  shows "lands g i \<longleftrightarrow> filled (fr_receipt (g ! k)) \<and> filled (fr_ruling (g ! k))"
proof -
  have trim: "js_trim (or_id (fr_row r)) = or_id (fr_row r)" if "r \<in> set g" for r
    using assms(1,3) that by (metis image_eqI list.set_map)
  have "distinct (map (\<lambda>r. or_id (fr_row r)) g)" using assms(1,2) by (metis (no_types, lifting) map_map comp_def map_cong)
  then have "distinct (map (\<lambda>r. js_trim (or_id (fr_row r))) (rev g))"
    using trim by (simp add: rev_map[symmetric] cong: map_cong)
  then have "List.find (\<lambda>r. js_trim (or_id (fr_row r)) = js_trim i) (rev g) = Some (g ! k)"
    by (subst find_unique) (use assms(4,5) trim[OF nth_mem[OF assms(4)]] in auto)
  then show ?thesis by (simp add: lands_def last_of_def)
qed

lemma fill_filled:
  assumes "sane u c" and "sv_receipt v \<noteq> []" and "js_trim (sv_receipt v) = sv_receipt v"
    and "sv_ruling v \<noteq> []" and "js_trim (sv_ruling v) = sv_ruling v"
  shows "filled (fr_receipt (fill_row v c)) \<and> filled (fr_ruling (fill_row v c))"
proof -
  have "or_receipt c = Some (ca_id (hd (or_candidates c))) \<and> js_trim (ca_id (hd (or_candidates c))) \<noteq> []" if "length (or_candidates c) = 1"
    using assms(1) that by (cases "or_candidates c") (auto simp: sane_def)
  then show ?thesis using assms(2-) by (auto simp: fill_row_def filled_def nonempty_def)
qed

context unicode_ascii begin

lemma merged_filled:
  assumes "named_id (resolveCandidate u s (or_candidates c)) \<noteq> []" and "field ''ruling'' s \<noteq> []"
    and v: "v = merged_fields u p s c"
  shows "sv_receipt v \<noteq> [] \<and> js_trim (sv_receipt v) = sv_receipt v \<and> sv_ruling v \<noteq> [] \<and> js_trim (sv_ruling v) = sv_ruling v"
proof -
  have "field ''ruling'' p \<noteq> []" if "isRuled u p c"
    using that empty_texts by (auto simp: isRuled_def is_ruling_def RULINGS_def)
  then show ?thesis using assms seat_trimmed[of u s c] seat_trimmed[of u p c] field_trimmed
    by (auto simp: merged_fields_def carry_def or_else_def isRuled_def)
qed

end

lemma explained_union:
  "fr_row (explain_park vs (union_row u p s ids c)) = c"
  "fr_receipt (explain_park vs (union_row u p s ids c)) = fr_receipt (fill_row (merged_fields u p s c) c)"
  "fr_ruling (explain_park vs (union_row u p s ids c)) = fr_ruling (fill_row (merged_fields u p s c) c)"
  "fr_note (explain_park vs (union_row u p s ids c)) = fr_note (fill_row (merged_fields u p s c) c)"
  by (simp_all add: union_row_def Let_def)

lemma nonempty_some: "s \<noteq> [] \<Longrightarrow> nonempty s = Some s"
  by (simp add: nonempty_def)

context unicode_ascii begin

lemma union_filled:
  assumes "sane u c" and "named_id (resolveCandidate u s (or_candidates c)) \<noteq> []" and "field ''ruling'' s \<noteq> []"
  shows "filled (fr_receipt (explain_park vs (union_row u p s ids c))) \<and> filled (fr_ruling (explain_park vs (union_row u p s ids c)))"
  unfolding explained_union using merged_filled[OF assms(2,3) refl] fill_filled[OF assms(1)] by blast

lemma union_accepted:
  assumes "sane u c" and "isRuled u s c" and "resolveCandidate u s (or_candidates c) = Named re"
    and "field ''note'' s \<noteq> []" and "field ''ruling'' s \<noteq> []"
    and r_def: "r = explain_park vs (union_row u p s ids c)"
  shows "fr_ruling r = Some (field ''ruling'' s) \<and> fr_note r = Some (field ''note'' s) \<and> fr_receipt r = Some re"
proof -
  obtain x where x: "x \<in> set (or_candidates c)" "re = js_trim (ca_id x)" using resolved_candidate assms(3) by blast
  have "js_trim (ca_id x) = ca_id x" "ca_id x \<noteq> []" using assms(1) x(1) by (auto simp: sane_def list_all_iff)
  moreover have "or_receipt c = Some (ca_id x)" if "length (or_candidates c) = 1"
    using assms(1) x(1) that by (cases "or_candidates c") (auto simp: sane_def)
  ultimately show ?thesis using assms(2-5) x(2)
    unfolding r_def explained_union by (simp add: merged_fields_def fill_row_def named_id_def nonempty_some)
qed

end

text \<open>C11: What is accepted is on record. Whatever else a call carries and whatever was ruled before, each row accepted with
  a receipt is in the new form under its id with a receipt and a ruling, so that the call never reports it dropped;
  and where no proof of reading was asked for it, the row is ruled, with the very ruling, note and receipt accepted.\<close>

theorem accepted_rows_land:
  assumes "unicode_ascii u" and "written_form u ledger f" and "sw_form s = Some (form_json f)"
    and "recordDispositions u ledger told ok received s = Some (res, s')" and "distinct (map or_id (map fr_row f))"
    and "Accepted i ru nt re q fr \<in> set (cv_accepted (cr_verdict res))"
  shows "i \<notin> set (cr_dropped res)
    \<and> (\<exists>r\<in>set (cr_form res). or_id (fr_row r) = i
        \<and> (\<not> or_quote (fr_row r) \<longrightarrow>
             row_ruled u r \<and> fr_ruling r = Some ru \<and> fr_note r = Some nt \<and> fr_receipt r = Some re))"
proof -
  let ?can = "obligationRows u (connotationObligations u ledger)" and ?as = "cv_accepted (cr_verdict res)"
  let ?a = "Accepted i ru nt re q fr"
  note form = call_form[OF assms(3,4)]
  have rows: "map fr_row f = ?can" using assms(2) by (simp add: written_form_def)
  obtain raw n c where c: "check_row u raw n c = Takes ?a" "c \<in> set ?can"
    using accepted_checked[of ?a] addressable_from assms(6) unfolding form(3) by blast
  note ids = unicode_ascii.row_ids[OF assms(1) c(2)]
  have i: "i = or_id c" using checked_accepts(1)[OF c(1)] ids by simp
  obtain k where k: "k < length f" "fr_row (f ! k) = c" using c(2) rows by (metis in_set_conv_nth length_map nth_map)
  let ?all = "sw_verdicts s @ [map rf_id (cv_refused (cr_verdict res))]"
  obtain p where p: "cr_form res ! k = explain_park ?all (union_row u p
        (map_option accepted_json (List.find (\<lambda>a. accepted_id a = or_id c) ?as)) (parkedIds ?all) c)" "k < length (cr_form res)" "tidy p"
    using call_rows[OF assms(1-4) k(1)] k(2) by metis
  have "List.find (\<lambda>a. accepted_id a = or_id c) ?as = Some ?a"
    using find_unique[of accepted_id ?as "or_id c" ?a] accepted_distinct assms(6) i by (simp add: form(3))
  then have r: "cr_form res ! k = explain_park ?all (union_row u p (Some (accepted_json ?a)) (parkedIds ?all) c)" using p(1) by simp
  note ans = unicode_ascii.accepted_answers[OF assms(1) c] and sane = unicode_ascii.obligations_sane[OF assms(1) c(2)]
  have merged: "filled (fr_receipt (cr_form res ! k)) \<and> filled (fr_ruling (cr_form res ! k))"
    unfolding r by (rule unicode_ascii.union_filled[OF assms(1) sane]) (use ans in \<open>simp_all add: named_id_def\<close>)
  have "map fr_row (cr_form res) = ?can" using call_grows(1)[OF assms(1-4)] by (simp add: written_form_def)
  then have "lands (cr_form res) i"
    using merged lands_filled[of "cr_form res" ?can k i] p(2) assms(5) rows unicode_ascii.row_ids(3)[OF assms(1)] ids i
    by (simp add: r explained_union(1))
  then have "i \<notin> set (cr_dropped res)" by (simp add: form(4) dropped_def)
  moreover have "row_ruled u (cr_form res ! k) \<and> fr_ruling (cr_form res ! k) = Some ru \<and> fr_note (cr_form res ! k) = Some nt
      \<and> fr_receipt (cr_form res ! k) = Some re" if q: "\<not> or_quote c"
  proof -
    have "row_ruled u (cr_form res ! k)"
      unfolding r explain_ruled
      by (rule unicode_ascii.union_keeps[OF assms(1) sane disjI2[OF ans(7)[OF q]] p(3)])
        (use accepted_tidy[of ?a] check_row_quote c(1) in blast)
    then show ?thesis using unicode_ascii.union_accepted[OF assms(1) sane ans(7)[OF q] ans(1) _ _ r] ans(3-6) by simp
  qed
  ultimately show ?thesis using i r p(2) explained_union(1) by (metis nth_mem)
qed

text \<open>C9: A ruling stays and work is never lost, as long as no write of the form is torn. From a form the driver wrote, over any
  run of calls, whatever the seat sends, on whatever ledger each call finds and whether or not its writes succeed, the form on
  disk is one the driver wrote for one of those ledgers, and a row that was ruled is ruled in it if its obligation is one of
  every ledger on the way. Over calls on one ledger the form has the same rows in the same order, every row ruled before is
  ruled after, and, where no two rows share an id, every row given up stays given up or is ruled and the number of rows
  outstanding does not rise. A torn write loses the rulings: \<open>torn_form_forgets\<close>.\<close>

theorem rulings_only_grow:
  assumes "unicode_ascii u" and "calls u Ls s s'" and "sw_form s = Some (form_json f)" and "written_form u L0 f"
  shows "\<exists>g L. sw_form s' = Some (form_json g) \<and> L \<in> set (L0 # Ls)
    \<and> map fr_row g = obligationRows u (connotationObligations u L)
    \<and> (\<forall>c r. r \<in> set f \<and> fr_row r = c \<and> row_ruled u r \<and> (\<forall>K \<in> set Ls. c \<in> set (obligationRows u (connotationObligations u K)))
         \<longrightarrow> (\<exists>r' \<in> set g. fr_row r' = c \<and> row_ruled u r'))
    \<and> (set Ls \<subseteq> {L0} \<longrightarrow>
         length g = length f \<and> map fr_row g = map fr_row f
         \<and> (\<forall>i<length f. row_ruled u (f ! i) \<longrightarrow> row_ruled u (g ! i))
         \<and> (distinct (map or_id (map fr_row f)) \<longrightarrow>
              (\<forall>i<length f. row_ruled u (f ! i) \<or> fr_parked (f ! i) \<longrightarrow> row_ruled u (g ! i) \<or> fr_parked (g ! i))
              \<and> outstanding u g \<le> outstanding u f))"
proof -
  obtain g L where g: "sw_form s' = Some (form_json g)" "L \<in> set (L0 # Ls)" "written_form u L g"
    and ruled: "\<forall>c. ruled_for u f c \<and> (\<forall>L \<in> set Ls. c \<in> set (obligationRows u (connotationObligations u L))) \<longrightarrow> ruled_for u g c"
    and same: "set Ls \<subseteq> {L0} \<longrightarrow> no_loss u f g"
    using calls_keep[OF assms(2,1,4,3)] by blast
  have "L = L0" if "set Ls \<subseteq> {L0}" using that g(2) by auto
  then have "map fr_row g = map fr_row f" if "set Ls \<subseteq> {L0}" using that g(3) assms(4) by (simp add: written_form_def)
  moreover have "\<exists>r' \<in> set g. fr_row r' = fr_row r \<and> row_ruled u r'"
    if "r \<in> set f" "row_ruled u r" "\<forall>K \<in> set Ls. fr_row r \<in> set (obligationRows u (connotationObligations u K))" for r
    using ruled that by (auto simp: ruled_for_def)
  ultimately show ?thesis
    using g same by (intro exI[of _ g] exI[of _ L]) (auto simp: no_loss_def settled_def written_form_def)
qed

text \<open>A torn write is the exception: the next call finds no form, and if it accepts no row none is left ruled.\<close>

lemma blank_union: "fr_ruling (union_row u None None ids c) = None" "fr_note (union_row u None None ids c) = None"
  by (simp_all add: union_row_def park_row_def fill_row_def merged_fields_def isRuled_def carry_def seatFields_def or_else_def field_def Let_def)

lemma torn_form_forgets:
  assumes "recordDispositions u ledger told (Truncated, v) received s = Some (res, s')"
    and "recordDispositions u ledger told' ok received' s' = Some (res', s'')"
    and "elems (member (js ''rows'') (Some received')) = []"
  shows "sw_form s' = None \<and> (\<forall>r \<in> set (cr_form res'). fr_ruling r = None \<and> fr_note r = None)"
proof -
  let ?can = "obligationRows u (connotationObligations u ledger)"
  have s': "sw_form s' = None" using assms(1) by (auto simp: recordDispositions_def Let_def split: if_splits)
  have none: "formRowFinder u [] canonical c = None" for canonical c by (simp add: formRowFinder_def by_id_def by_key_def Let_def)
  have acc: "cv_accepted (validateDispositionCall u (member (js ''rows'') (Some received')) canonical told') = []" for canonical
    using assms(3) by (simp add: validateDispositionCall_def Let_def map_filter_def del: js_Cons)
  let ?vs = "sw_verdicts s' @ [map rf_id (cv_refused (validateDispositionCall u (member (js ''rows'') (Some received')) ?can told'))]"
  have "cr_form res' = map (explain_park ?vs) (unionDispositionForm u (parseDispositionForm (sw_form s')) (Some (map accepted_json []))
      (connotationObligations u ledger) (parkedIds ?vs))"
    using assms(2) by (auto simp: recordDispositions_def Let_def acc simp del: js_Cons split: if_splits)
  then have "cr_form res' = map (\<lambda>c. explain_park ?vs (union_row u None None (parkedIds ?vs) c)) ?can"
    by (simp add: s' unionDispositionForm_def parseDispositionForm_def none comp_def del: js_Cons)
  then show ?thesis using s' by (auto simp: blank_union)
qed

section \<open>A concrete sweep\<close>

text \<open>One query that surfaced one result, and one call that rules on it.\<close>

definition one_query :: "recorded list" where
  "one_query = [\<lparr> q_query = js ''zorvex'', q_results = [\<lparr> rr_title = js ''Zorvex'', rr_url = [], rr_snippet = [] \<rparr>] \<rparr>]"

lemma latin_low: "to_lower latin_unicode s = map (\<lambda>c. if 192 \<le> c \<and> c \<le> 222 \<and> c \<noteq> 215 then c + 32 else low1 c) s"
  by (simp add: latin_unicode_def latin_lower_def)

lemmas text_simps = latin_low low1_def is_upper_def foldPunct_def fold1_def is_space_def js_trim_def normText_def

lemma one_key: "receiptKey latin_unicode \<lparr> rr_title = js ''Zorvex'', rr_url = [], rr_snippet = [] \<rparr> = js ''t:zorvex''"
  by (simp add: receiptKey_def normUrl_def text_simps strip_lang_def strip_www_def strip_http_def  lang_label_def Let_def)

definition one_row :: obligation_row where
  "one_row = \<lparr> or_id = shortId (js ''Q'') (js ''q!zorvex''), or_kind = Query (js ''zorvex''),
     or_candidates = [\<lparr> ca_id = shortId (js ''R'') (js ''t:zorvex''), ca_title = js ''Zorvex'', ca_url = [], ca_snippet = None, ca_segments = [] \<rparr>],
     or_quote = False, or_receipt = Some (shortId (js ''R'') (js ''t:zorvex'')) \<rparr>"


lemma one_query_text: "normText latin_unicode (js ''zorvex'') = js ''zorvex''" 
  by (simp add: text_simps)

lemma one_query_row: "query_row latin_unicode (hd one_query) = one_row\<lparr> or_candidates := [cand \<lparr> rr_title = js ''Zorvex'', rr_url = [], rr_snippet = [] \<rparr> (shortId (js ''R'') (js ''t:zorvex''))] \<rparr>"
  by (simp add: query_row_def one_query_def Let_def map_filter_def receiptId_def one_key[simplified]  one_row_def cand_def js_trim_def is_space_def shortId_def)

lemma one_obligations: "connotationObligations latin_unicode one_query = \<lparr> ob_queries = one_query, ob_recurrent = [] \<rparr>"
 by (simp add: connotationObligations_def one_query_def one_query_text[simplified] add_owners_def one_key[simplified] nonempty_def RECURRENT_MIN_def)

lemma one_rows: "obligationRows latin_unicode (connotationObligations latin_unicode one_query) = [one_row]"
  by (simp add: one_obligations obligationRows_def plain_rows_def Let_def)
    (simp add: one_query_def one_query_row[unfolded one_query_def list.sel, simplified] spot_checked_def eligible_def usableSnippet_def snip_def cand_def quoteWeight_def text_simps QUOTE_MIN_def one_row_def without_snippets_def snippetSegments_def)

definition one_call :: json where
  "one_call = JObj [(js ''rows'', JArr [JObj [(js ''row_index'', JNum 1), (js ''ruling'', JStr (js ''Benign'')), (js ''note'', JStr (js ''a name''))]])]"

lemma given_one: "given (Some (JNum 1))" "ordinal (Some (JNum 1)) = Some 1" "\<not> given None"
  by (simp_all add: given_def ordinal_def int_text_def js_trim_def is_space_def is_digit_def )

lemma one_id: "js_trim (or_id one_row) = or_id one_row" "js_trim (ca_id (hd (or_candidates one_row))) = ca_id (hd (or_candidates one_row))"
    "or_id one_row \<noteq> []" 
  using shortId_trim[of "js ''q!zorvex''" "js ''Q''"] shortId_trim[of "js ''t:zorvex''" "js ''R''"] by (simp_all add: one_row_def is_space_def)

lemma one_norm_id: "normId latin_unicode (shortId (js ''R'') (js ''t:zorvex'')) = js ''R'' @ b32_chars 8 (fnv1a64 (js ''t:zorvex''))"
  using latin.shortId_upper[of "js ''t:zorvex''"] by simp

lemma one_position: "row_position latin_unicode raw one_row = Named (shortId (js ''R'') (js ''t:zorvex''))" if "\<not> given (member (js ''receipt_index'') raw)"
  using that one_id(2) one_norm_id
  by (simp add: row_position_def position_of_def resolveCandidate_def index_of_row_def orelse_def given_one one_row_def)

lemma one_verdict: "cv_accepted (validateDispositionCall latin_unicode (member (js ''rows'') (Some one_call)) [one_row] None)
   = [Accepted (or_id one_row) (js ''benign'') (js ''a name'') (shortId (js ''R'') (js ''t:zorvex'')) None None]"
  using one_id
  by (simp add: validateDispositionCall_def one_call_def Let_def take_row_def orelse_def given_one addressed_def addressableRows_def check_row_def map_filter_def
    MAX_ROWS_PER_CALL_def row_fault_def str_def one_position row_evidence_def text_simps RULINGS_def string_or_def)
    (simp add: one_row_def)

definition fresh_sweep :: sweep where
  "fresh_sweep = \<lparr> sw_form = Some (form_json (buildDispositionForm latin_unicode (connotationObligations latin_unicode one_query))),
     sw_verdicts = [] \<rparr>"

definition one_result :: "call_result \<times> sweep" where
  "one_result = the (recordDispositions latin_unicode one_query None (Wrote, True) one_call fresh_sweep)"

lemma one_runs: "recordDispositions latin_unicode one_query None (Wrote, True) one_call fresh_sweep = Some (fst one_result, snd one_result)"
  by (simp add: one_result_def recordDispositions_def one_rows Let_def)

lemma one_form: "map fr_row (buildDispositionForm latin_unicode (connotationObligations latin_unicode one_query)) = [one_row]"
  by (simp add: buildDispositionForm_def one_rows blank_row_def)

lemma one_form_length: "length (buildDispositionForm latin_unicode (connotationObligations latin_unicode one_query)) = 1"
  using one_form by (metis length_map One_nat_def length_Cons list.size(3))

lemmas one_hyps = latin.unicode_ascii_axioms built_form[OF latin.unicode_ascii_axioms] one_runs

lemma one_sweep_form: "sw_form fresh_sweep = Some (form_json (buildDispositionForm latin_unicode (connotationObligations latin_unicode one_query)))"
  by (simp add: fresh_sweep_def)

theorem rulings_only_grow_witness: "\<exists>g. sw_form (snd one_result) = Some (form_json g) \<and> map fr_row g = [one_row] \<and> length g = 1"
  using rulings_only_grow[OF one_hyps(1) calls.call[OF calls.none one_runs _] one_sweep_form one_hyps(2)]
  by (auto simp: one_rows one_form_length)

theorem rows_given_up_for_cause_witness:
  "fr_parked (cr_form (fst one_result) ! 0) \<longleftrightarrow> \<not> row_ruled latin_unicode (cr_form (fst one_result) ! 0)
    \<and> 30 \<le> refusalCountsBy [map rf_id (cv_refused (cr_verdict (fst one_result)))] (or_id one_row)"
proof -
  let ?f = "buildDispositionForm latin_unicode (connotationObligations latin_unicode one_query)"
  have f0: "fr_row (?f ! 0) = one_row" "\<not> fr_parked (?f ! 0)" "distinct (map or_id (map fr_row ?f))" "0 < length ?f"
    using one_form one_form_length by (simp_all add: buildDispositionForm_def one_rows blank_row_def)
  have "cv_accepted (cr_verdict (fst one_result)) = [Accepted (or_id one_row) (js ''benign'') (js ''a name'') (shortId (js ''R'') (js ''t:zorvex'')) None None]"
    using call_form(3)[OF one_sweep_form one_runs] one_verdict by (simp add: one_rows)
  then show ?thesis
    using rows_given_up_for_cause[OF one_hyps(1,2) one_sweep_form one_runs f0(4,3)] f0 by (simp add: fresh_sweep_def)
qed

theorem accepted_rows_land_witness:
  "or_id one_row \<notin> set (cr_dropped (fst one_result)) \<and> (\<exists>r\<in>set (cr_form (fst one_result)). or_id (fr_row r) = or_id one_row)"
proof -
  have a: "Accepted (or_id one_row) (js ''benign'') (js ''a name'') (shortId (js ''R'') (js ''t:zorvex'')) None None
      \<in> set (cv_accepted (cr_verdict (fst one_result)))"
    using call_form(3)[OF one_sweep_form one_runs] one_verdict by (simp add: one_rows)
  show ?thesis using accepted_rows_land[OF one_hyps(1,2) one_sweep_form one_runs _ a] by (auto simp: one_form)
qed

end
