(* ===== verification/RulingsSpec.thy ===== *)
theory RulingsSpec
  imports DispositionProps
begin

text \<open>What the rows of the meaning sweep promise: the text a row is proved with is text the tool fetched, the rows whose
  reading is checked are chosen by a hash and not by the seat, and the numbers a seat was shown keep their meaning.\<close>

section \<open>Passages\<close>

definition part_of :: "'a list \<Rightarrow> 'a list \<Rightarrow> bool" where
  "part_of p s \<longleftrightarrow> (\<exists>a b. s = a @ p @ b)"

lemma part_of_trans: "part_of p q \<Longrightarrow> part_of q s \<Longrightarrow> part_of p s"
  unfolding part_of_def by (metis append.assoc)

lemma part_of_append: "part_of p s \<Longrightarrow> part_of p (a @ s)" "part_of p s \<Longrightarrow> part_of p (s @ b)"
  unfolding part_of_def by (metis append.assoc)+

lemma part_of_refl: "part_of s s" unfolding part_of_def by (metis append_Nil append_Nil2)

lemma part_of_dropWhile: "part_of (dropWhile P s) s"
  unfolding part_of_def by (metis append_Nil2 takeWhile_dropWhile_id)

lemma part_of_takeWhile: "part_of (takeWhile P s) s"
  unfolding part_of_def by (metis append_Nil takeWhile_dropWhile_id)

lemma part_of_trim: "part_of (js_trim s) s"
proof -
  have "part_of (rev (dropWhile is_space (rev t))) t" for t
    unfolding part_of_def by (metis append_Nil rev_append rev_rev_ident takeWhile_dropWhile_id)
  then show ?thesis unfolding js_trim_def using part_of_trans part_of_dropWhile by blast
qed

lemma pieces_part_of: "p \<in> set (pieces b acc s) \<Longrightarrow> part_of p (acc @ s)"
proof (induction b acc s rule: pieces.induct)
  case (1 b acc)
  then show ?case by (simp add: part_of_refl)
next
  case (2 b acc c cs)
  have sub: "part_of p (acc @ c # cs)" if "part_of p (dropWhile P cs)" for P
    using part_of_append(1)[OF part_of_trans[OF that part_of_dropWhile], of "acc @ [c]"] by simp
  have own: "part_of acc (acc @ c # cs)" using part_of_append(2)[OF part_of_refl] .
  have rest: "part_of p (acc @ c # cs)" if "part_of p (c # cs)" using part_of_append(1)[OF that] .
  show ?case using 2 sub own rest by (auto split: if_splits option.splits)
qed

lemma segments_part_of: "s \<in> set (snippetSegments raw) \<Longrightarrow> part_of s raw \<and> js_trim s = s \<and> s \<noteq> []"
  using part_of_trans[OF part_of_trim] pieces_part_of[of _ None "[]" raw] part_of_trim[of raw]
  by (auto simp: snippetSegments_def Let_def split: if_splits)

lemma grow_passage_spec:
  assumes "lo < hi" and "hi \<le> length segs" and "grow_passage u segs lo hi = (l, h)"
  shows "l \<le> lo \<and> hi \<le> h \<and> h \<le> length segs \<and> (QUOTE_MIN \<le> quoteWeight u (passage segs l h) \<or> l = 0 \<and> h = length segs)"
  using assms
proof (induction u segs lo hi rule: grow_passage.induct)
  case (1 u segs lo hi)
  show ?case
  proof (cases "quoteWeight u (passage segs lo hi) < QUOTE_MIN \<and> (hi < length segs \<or> 0 < lo)")
    case grow: True
    show ?thesis
    proof (cases "hi < length segs")
      case True
      then have "grow_passage u segs lo (Suc hi) = (l, h)" using grow 1(5) by (subst (asm) grow_passage.simps) simp
      then show ?thesis using 1(1)[OF grow True] 1(3) True by simp
    next
      case False
      then have "grow_passage u segs (lo - 1) hi = (l, h)" using grow 1(5) by (subst (asm) grow_passage.simps) simp
      then show ?thesis using 1(2)[OF grow False _ 1(4)] 1(3) by force
    qed
  next
    case False
    then have "l = lo \<and> h = hi" using 1(5) by (subst (asm) grow_passage.simps) (simp split: if_splits)
    then show ?thesis using False 1(3,4) by auto
  qed
qed

lemma bound_passage:
  assumes "segmentBinding u idx frag snippet = (SegBound, Some q, fs)"
  shows "\<exists>lo hi. lo < hi \<and> hi \<le> length (snippetSegments snippet)
    \<and> q = js_trim (passage (snippetSegments snippet) lo hi)
    \<and> (QUOTE_MIN \<le> quoteWeight u (passage (snippetSegments snippet) lo hi) \<or> lo = 0 \<and> hi = length (snippetSegments snippet))"
proof -
  let ?s = "snippetSegments snippet"
  obtain n where n: "ordinal idx = Some n" "1 \<le> n" "n \<le> length ?s" "q = js_trim (case grow_passage u ?s (n - 1) n of (lo, hi) \<Rightarrow> passage ?s lo hi)"
    using assms by (auto simp: segmentBinding_def Let_def split: if_splits option.splits prod.splits)
  obtain l h where g: "grow_passage u ?s (n - 1) n = (l, h)" by fastforce
  then show ?thesis using grow_passage_spec[OF _ n(3) g] n(2,4) by (intro exI[of _ l] exI[of _ h]) auto
qed

text \<open>C13: What proves a reading is text the tool fetched. The quote of an accepted row is made of consecutive passages of
  the snippet of the candidate it rules on, each of them a contiguous piece of that snippet; the passages weigh at least
  24 or are all there are.\<close>

theorem quote_is_captured_text:
  assumes "Accepted i ru nt re (Some q) fr \<in> set (cv_accepted (validateDispositionCall u rows can told))"
  shows "\<exists>c\<in>set can. or_quote c \<and> i = js_trim (or_id c)
    \<and> (\<exists>x\<in>set (or_candidates c). js_trim (ca_id x) = re
      \<and> (let segs = snippetSegments (snip x) in
          (\<forall>s\<in>set segs. part_of s (snip x) \<and> js_trim s = s \<and> s \<noteq> [])
          \<and> (\<exists>lo hi. lo < hi \<and> hi \<le> length segs \<and> q = js_trim (join [32] (take (hi - lo) (drop lo segs)))
               \<and> (24 \<le> quoteWeight u (join [32] (take (hi - lo) (drop lo segs))) \<or> lo = 0 \<and> hi = length segs))))"
proof -
  obtain raw n c where c: "check_row u raw n c = Takes (Accepted i ru nt re (Some q) fr)" "c \<in> set can"
    using accepted_checked[OF assms] addressable_from by blast
  note a = checked_accepts[OF c(1)]
  obtain idx where b: "segmentBinding u idx (member (js ''fragment'') raw) (ruled_snippet c re) = (SegBound, Some q, fr)" and o: "or_quote c"
    using a(4) by (auto simp: row_evidence_def split: if_splits prod.splits segment_state.splits)
  obtain lo hi where q: "lo < hi" "hi \<le> length (snippetSegments (ruled_snippet c re))"
      "q = js_trim (passage (snippetSegments (ruled_snippet c re)) lo hi)"
      "QUOTE_MIN \<le> quoteWeight u (passage (snippetSegments (ruled_snippet c re)) lo hi)
        \<or> lo = 0 \<and> hi = length (snippetSegments (ruled_snippet c re))"
    using bound_passage[OF b] by blast
  have "ruled_snippet c re \<noteq> []" using q(1,2) by (auto simp: snippetSegments_def)
  then obtain x where f: "List.find (\<lambda>x. js_trim (ca_id x) = re) (or_candidates c) = Some x" "snip x = ruled_snippet c re"
    by (auto simp: ruled_snippet_def split: option.splits)
  then have x: "x \<in> set (or_candidates c)" "js_trim (ca_id x) = re" by (auto simp: find_Some_iff)
  show ?thesis using c(2) o a(1) x f(2) q segments_part_of
    by (intro bexI[of _ c] conjI bexI[of _ x]) (auto simp: Let_def passage_def QUOTE_MIN_def)
qed

section \<open>Which readings are checked\<close>

lemma spot_checked_facts:
  defines "k \<equiv> \<lambda>rows i. (fnv1a64 (or_id (rows ! i)), or_id (rows ! i))"
  shows "set (spot_checked u n rows) \<subseteq> {i. i < length rows \<and> eligible u (rows ! i)}"
    and "distinct (spot_checked u n rows)" and "length (spot_checked u n rows) = min n (length (filter (eligible u) rows))"
    and "i \<in> set (spot_checked u n rows) \<Longrightarrow> j < length rows \<Longrightarrow> eligible u (rows ! j) \<Longrightarrow> j \<notin> set (spot_checked u n rows)
      \<Longrightarrow> k rows i \<le> k rows j"
proof -
  let ?el = "filter (\<lambda>i. eligible u (rows ! i)) [0..<length rows]"
  let ?s = "sort_key (k rows) ?el"
  have sc: "spot_checked u n rows = take n ?s" by (simp add: spot_checked_def k_def)
  show "set (spot_checked u n rows) \<subseteq> {i. i < length rows \<and> eligible u (rows ! i)}"
    using set_take_subset[of n ?s] by (auto simp: sc)
  show "distinct (spot_checked u n rows)" by (simp add: sc)
  have "length ?el = length (filter (eligible u) rows)"
    by (simp add: length_filter_conv_card cong: conj_cong)
  then show "length (spot_checked u n rows) = min n (length (filter (eligible u) rows))" by (simp add: sc min.commute)
  show "k rows i \<le> k rows j"
    if "i \<in> set (spot_checked u n rows)" "j < length rows" "eligible u (rows ! j)" "j \<notin> set (spot_checked u n rows)"
  proof -
    have "j \<in> set (take n ?s @ drop n ?s)" using that(2,3) by simp
    then have j: "j \<in> set (drop n ?s)" using that(4) by (auto simp: sc simp del: append_take_drop_id)
    have "sorted (map (k rows) (take n ?s @ drop n ?s))" by simp
    then show ?thesis using that(1) j unfolding sc by (simp only: map_append sorted_append set_map) blast
  qed
qed

text \<open>Which readings are checked is the driver's choice. The rows that owe a quote are three of those with a usable
  snippet, or all where there are fewer; no eligible row left out has a lower hash of its id, so the choice depends
  on the ids alone; and every other row shows no snippet.\<close>

theorem spot_checks_by_hash:
  fixes ob u
  defines "rows \<equiv> plain_rows u ob" and "out \<equiv> obligationRows u ob"
  shows "map or_id out = map or_id rows
    \<and> length (filter or_quote out) = min 3 (length (filter (eligible u) rows))
    \<and> (\<forall>i<length rows. if or_quote (out ! i) then eligible u (rows ! i) \<and> or_candidates (out ! i) = or_candidates (rows ! i)
                        else \<forall>x\<in>set (or_candidates (out ! i)). ca_snippet x = None)
    \<and> (\<forall>i<length rows. \<forall>j<length rows. or_quote (out ! i) \<and> \<not> or_quote (out ! j) \<and> eligible u (rows ! j) \<longrightarrow>
         fnv1a64 (or_id (rows ! i)) \<le> fnv1a64 (or_id (rows ! j)))"
proof -
  let ?c = "spot_checked u QUOTE_SPOT_CHECKS rows"
  note f = spot_checked_facts[where u = u and rows = rows and n = QUOTE_SPOT_CHECKS]
  have out: "out = map (\<lambda>i. if i \<in> set ?c then (rows ! i)\<lparr> or_quote := True \<rparr> else without_snippets (rows ! i)) [0..<length rows]"
    by (simp add: out_def rows_def obligationRows_def Let_def)
  have plain: "\<not> or_quote (rows ! i)" if "i < length rows" for i
    using nth_mem[OF that] by (auto simp: rows_def plain_rows_def query_row_def recurrence_row_def Let_def)
  have q: "or_quote (out ! i) \<longleftrightarrow> i \<in> set ?c" if "i < length rows" for i
    using that plain by (simp add: out without_snippets_def)
  have "filter or_quote out = map (\<lambda>i. (rows ! i)\<lparr> or_quote := True \<rparr>) (filter (\<lambda>i. i \<in> set ?c) [0..<length rows])"
    unfolding out filter_map comp_def using plain
    by (auto simp: without_snippets_def intro!: map_cong filter_cong)
  then have "length (filter or_quote out) = card (set (filter (\<lambda>i. i \<in> set ?c) [0..<length rows]))"
    by (simp add: distinct_card[symmetric])
  also have "set (filter (\<lambda>i. i \<in> set ?c) [0..<length rows]) = set ?c" using f(1) by auto
  also have "card (set ?c) = min 3 (length (filter (eligible u) rows))"
    using distinct_card[OF f(2)] f(3) by (simp add: QUOTE_SPOT_CHECKS_def)
  finally have n: "length (filter or_quote out) = min 3 (length (filter (eligible u) rows))" .
  have ids: "map or_id out = map or_id rows"
    by (rule nth_equalityI) (auto simp: out without_snippets_def)
  have each: "if or_quote (out ! i) then eligible u (rows ! i) \<and> or_candidates (out ! i) = or_candidates (rows ! i)
      else \<forall>x\<in>set (or_candidates (out ! i)). ca_snippet x = None" if "i < length rows" for i
    using that q[OF that] f(1) by (auto simp: out without_snippets_def)
  have least: "fnv1a64 (or_id (rows ! i)) \<le> fnv1a64 (or_id (rows ! j))"
    if "i < length rows" "j < length rows" "or_quote (out ! i)" "\<not> or_quote (out ! j)" "eligible u (rows ! j)" for i j
    using f(4)[of i j] that q by (auto simp: less_eq_prod_def)
  show ?thesis using ids n each least by blast
qed

section \<open>The numbers a seat was shown\<close>

lemma last_of_unique:
  assumes "distinct (map f xs)"
  shows "last_of f xs k = Some x \<longleftrightarrow> x \<in> set xs \<and> f x = k"
  using find_unique[of f "rev xs" k x] assms by (simp add: last_of_def rev_map[symmetric])

lemma told_slots_all:
  assumes "distinct T" and "set T \<inter> set used = {}" and "\<forall>k\<in>set T. js_trim k = k \<and> k \<noteq> []"
  shows "told_slots rows T used = (map (last_of (\<lambda>c. js_trim (or_id c)) rows) T, rev T @ used)"
  using assms by (induction T arbitrary: used) (auto simp: Let_def)

definition tight_ids :: "obligation_row list \<Rightarrow> bool" where
  "tight_ids rows \<longleftrightarrow> distinct (map or_id rows) \<and> (\<forall>c\<in>set rows. js_trim (or_id c) = or_id c \<and> or_id c \<noteq> [])"

lemma tight_trimmed: "tight_ids rows \<Longrightarrow> map (\<lambda>c. js_trim (or_id c)) rows = map or_id rows"
  by (simp add: tight_ids_def)

lemma tight_last: "tight_ids rows \<Longrightarrow> last_of (\<lambda>c. js_trim (or_id c)) rows k = Some c \<longleftrightarrow> c \<in> set rows \<and> or_id c = k"
  using last_of_unique[of "\<lambda>c. js_trim (or_id c)" rows k c] tight_trimmed[of rows] by (auto simp: tight_ids_def)

lemma addresses:
  assumes "tight_ids rows" and "distinct T" and "\<forall>k\<in>set T. js_trim k = k \<and> k \<noteq> []"
  shows "addressableRows rows (Some T)
    = map (last_of (\<lambda>c. js_trim (or_id c)) rows) T @ map Some (filter (\<lambda>c. or_id c \<notin> set T) rows)"
proof -
  have "filter (\<lambda>c. js_trim (or_id c) \<notin> set T) rows = filter (\<lambda>c. or_id c \<notin> set T) rows"
    using assms(1) by (intro filter_cong) (auto simp: tight_ids_def)
  then show ?thesis using told_slots_all[OF assms(2) _ assms(3), of "[]" rows] by (simp add: addressableRows_def)
qed

lemma one_address:
  assumes "tight_ids rows" and "distinct T" and "\<forall>k\<in>set T. js_trim k = k \<and> k \<noteq> []"
    and "addressableRows rows (Some T) ! n = Some c" and "addressableRows rows (Some T) ! m = Some c"
    and "n < length (addressableRows rows (Some T))" and "m < length (addressableRows rows (Some T))"
  shows "n = m"
proof -
  note a = addresses[OF assms(1-3)]
  have d: "distinct (filter (\<lambda>c. or_id c \<notin> set T) rows)" using assms(1) by (auto simp: tight_ids_def distinct_map)
  have told: "T ! i = or_id c" if "addressableRows rows (Some T) ! i = Some c" "i < length T" for i
    using that tight_last[OF assms(1)] by (simp add: a nth_append)
  have new: "filter (\<lambda>c. or_id c \<notin> set T) rows ! (i - length T) = c \<and> or_id c \<notin> set T \<and> i - length T < length (filter (\<lambda>c. or_id c \<notin> set T) rows)"
    if "addressableRows rows (Some T) ! i = Some c" "\<not> i < length T" "i < length (addressableRows rows (Some T))" for i
  proof -
    have l: "i - length T < length (filter (\<lambda>c. or_id c \<notin> set T) rows)" using that by (simp add: a)
    then have "filter (\<lambda>c. or_id c \<notin> set T) rows ! (i - length T) = c" using that by (simp add: a nth_append)
    then show ?thesis using nth_mem[OF l] l by auto
  qed
  show ?thesis
  proof (cases "n < length T"; cases "m < length T")
    assume "n < length T" "m < length T"
    then show ?thesis using told[OF assms(4)] told[OF assms(5)] assms(2) by (metis nth_eq_iff_index_eq)
  next
    assume "\<not> n < length T" "\<not> m < length T"
    then show ?thesis using new[OF assms(4)] new[OF assms(5)] assms(6,7) d
      by (metis nth_eq_iff_index_eq diff_is_0_eq eq_diff_iff linorder_not_le order.strict_implies_order)
  qed (use told new assms nth_mem in metis)+
qed

lemma number_of_address:
  assumes "m < length addr" and "\<And>i. i < length addr \<Longrightarrow> map_option (\<lambda>c. js_trim (or_id c)) (addr ! i) = Some k \<longleftrightarrow> i = m"
  shows "number_of_row addr k = Some (Suc m)"
proof -
  let ?l = "last_of (\<lambda>i. map_option (\<lambda>c. js_trim (or_id c)) (addr ! i)) [0..<length addr] (Some k)"
  have "?l \<noteq> None" using assms(1) assms(2)[OF assms(1)] by (auto simp: last_of_def find_None_iff simp del: map_option_eq_Some)
  then obtain i where i: "?l = Some i" by blast
  then have "i = m" using last_of_in[OF i] assms(2) by auto
  then show ?thesis using i by (simp add: number_of_row_def)
qed

text \<open>C12: The numbers a seat was shown keep their meaning. Whatever rows the ledger has come to owe since the page was
  told, a number on the page addresses the row told there, or nothing when that row is no longer owed; every row owed
  now has exactly one number, and it is the number the answer names it by.\<close>

theorem numbers_keep_their_meaning:
  assumes "unicode_ascii u" and "distinct (map or_id (obligationRows u (connotationObligations u ledger)))"
    and "distinct (map or_id (obligationRows u page))"
  defines "rows \<equiv> obligationRows u (connotationObligations u ledger)" and "told \<equiv> map or_id (obligationRows u page)"
  defines "addr \<equiv> addressableRows rows (Some told)"
  shows "(\<forall>n<length told. \<forall>c. addr ! n = Some c \<longleftrightarrow> c \<in> set rows \<and> or_id c = told ! n)
    \<and> (\<forall>c\<in>set rows. \<exists>!n. n < length addr \<and> addr ! n = Some c)
    \<and> (\<forall>c\<in>set rows. \<forall>n. number_of_row addr (or_id c) = Some (Suc n) \<longleftrightarrow> n < length addr \<and> addr ! n = Some c)"
proof -
  have t: "tight_ids rows" using assms(2) unicode_ascii.row_ids[OF assms(1)] by (auto simp: tight_ids_def rows_def)
  have k: "\<forall>k\<in>set told. js_trim k = k \<and> k \<noteq> []" using unicode_ascii.row_ids[OF assms(1)] by (auto simp: told_def)
  have d: "distinct told" using assms(3) by (simp add: told_def)
  note a = addresses[OF t d k]
  have first: "addr ! n = Some c \<longleftrightarrow> c \<in> set rows \<and> or_id c = told ! n" if "n < length told" for n c
    using that tight_last[OF t] by (simp add: addr_def a nth_append)
  have inside: "\<exists>n<length addr. addr ! n = Some c" if c: "c \<in> set rows" for c
  proof (cases "or_id c \<in> set told")
    case True
    then obtain n where "n < length told" "told ! n = or_id c" by (auto simp: in_set_conv_nth)
    then show ?thesis using first c by (intro exI[of _ n]) (auto simp: addr_def a)
  next
    case False
    then have "Some c \<in> set addr" using c by (auto simp: addr_def a)
    then show ?thesis by (auto simp: in_set_conv_nth)
  qed
  have one: "n = m" if "addr ! n = Some c" "addr ! m = Some c" "n < length addr" "m < length addr" for n m c
    using one_address[OF t d k] that by (auto simp: addr_def)
  have own: "c = c'" if "addr ! n = Some c'" "n < length addr" "or_id c' = or_id c" "c \<in> set rows" for n c c'
  proof -
    have "c' \<in> set rows" using nth_mem[OF that(2)] addressable_from[of c' rows "Some told"] that(1) by (simp add: addr_def)
    then show ?thesis using t that(3,4) by (auto simp: tight_ids_def distinct_map inj_on_def)
  qed
  have number: "number_of_row addr (or_id c) = Some (Suc n) \<longleftrightarrow> n < length addr \<and> addr ! n = Some c" if c: "c \<in> set rows" for c n
  proof -
    have hit: "map_option (\<lambda>c. js_trim (or_id c)) (addr ! i) = Some (or_id c) \<longleftrightarrow> addr ! i = Some c" if "i < length addr" for i
    proof (cases "addr ! i")
      case (Some c')
      then have "c' \<in> set rows" using nth_mem[OF that] addressable_from[of c' rows "Some told"] by (simp add: addr_def)
      then have "js_trim (or_id c') = or_id c'" using t by (auto simp: tight_ids_def)
      then show ?thesis using Some own[OF Some that _ c] by auto
    qed simp
    obtain m where m: "m < length addr" "addr ! m = Some c" using inside[OF c] by blast
    have "number_of_row addr (or_id c) = Some (Suc m)"
      using m(1) by (rule number_of_address) (use hit one m in blast)
    then show ?thesis using one m by auto
  qed
  show ?thesis using first inside one number by blast
qed

section \<open>Concrete cases\<close>

theorem numbers_keep_their_meaning_witness:
  "addressableRows [one_row] (Some [or_id one_row]) ! 0 = Some one_row \<and> number_of_row (addressableRows [one_row] (Some [or_id one_row])) (or_id one_row) = Some 1"
  using numbers_keep_their_meaning[OF latin.unicode_ascii_axioms, of one_query "connotationObligations latin_unicode one_query"]
  by (auto simp: one_rows)

theorem spot_checks_by_hash_witness:
  "length (filter or_quote (obligationRows latin_unicode (connotationObligations latin_unicode one_query)))
    = min 3 (length (filter (eligible latin_unicode) (plain_rows latin_unicode (connotationObligations latin_unicode one_query))))"
  using spot_checks_by_hash[of latin_unicode "connotationObligations latin_unicode one_query"] by blast

end
