(* ===== verification/DispositionCases.thy ===== *)
theory DispositionCases
  imports RulingsSpec
begin

text \<open>The meaning sweep on concrete ledgers: a case of the property about quotes, and two where the code falls short. A
  reading proved over two passages of a text without white space is accepted and never ruled, and a declared obstacle is
  answered as if the driver had lost the row.\<close>

section \<open>A snippet of two sentences without white space\<close>

definition kanji :: jstr where
  "kanji = [19968, 19969, 19970, 19971, 19972, 12290, 19973, 19974, 19975, 19976, 19977, 12290]"

definition kanji_query :: "recorded list" where
  "kanji_query = [\<lparr> q_query = js ''zorvex'', q_results = [\<lparr> rr_title = js ''Zorvex'', rr_url = [], rr_snippet = kanji \<rparr>] \<rparr>]"

definition kanji_row :: obligation_row where
  "kanji_row = \<lparr> or_id = shortId (js ''Q'') (js ''q!zorvex''), or_kind = Query (js ''zorvex''),
     or_candidates = [\<lparr> ca_id = shortId (js ''R'') (js ''t:zorvex''), ca_title = js ''Zorvex'', ca_url = [], ca_snippet = Some kanji,
       ca_segments = [take 6 kanji, drop 6 kanji] \<rparr>],
     or_quote = True, or_receipt = Some (shortId (js ''R'') (js ''t:zorvex'')) \<rparr>"

lemma kanji_trim: "js_trim kanji = kanji" by (simp add: kanji_def js_trim_def is_space_def)

lemma kanji_segments: "snippetSegments kanji = [take 6 kanji, drop 6 kanji]"
  by (simp add: snippetSegments_def kanji_def js_trim_def is_space_def hard_stop_def soft_stop_def)

lemma kanji_norm: "normText latin_unicode kanji = kanji" by (simp add: kanji_def text_simps)

lemma kanji_weight: "quoteWeight latin_unicode kanji = 32" 
  unfolding quoteWeight_def kanji_norm by (simp add: kanji_def dense_def high_def)

lemma kanji_key: "receiptKey latin_unicode \<lparr> rr_title = js ''Zorvex'', rr_url = [], rr_snippet = kanji \<rparr> = js ''t:zorvex''"
  using one_key by (simp add: receiptKey_def)

lemma kanji_obligations: "connotationObligations latin_unicode kanji_query = \<lparr> ob_queries = kanji_query, ob_recurrent = [] \<rparr>"
  by (simp add: connotationObligations_def kanji_query_def one_query_text[simplified] add_owners_def kanji_key[simplified] nonempty_def RECURRENT_MIN_def)

lemma zorvex_trim: "js_trim (js ''Zorvex'') = js ''Zorvex''" "js_trim [] = []" by (simp_all add: js_trim_def is_space_def)

lemma kanji_query_row: "query_row latin_unicode (hd kanji_query) = kanji_row\<lparr> or_quote := False \<rparr>"
  by (simp add: query_row_def kanji_query_def Let_def map_filter_def receiptId_def kanji_key[simplified] kanji_row_def cand_def zorvex_trim[simplified]
      kanji_trim kanji_segments shortId_def)

lemma kanji_rows: "obligationRows latin_unicode (connotationObligations latin_unicode kanji_query) = [kanji_row]"
proof -
  have rows: "plain_rows latin_unicode (connotationObligations latin_unicode kanji_query) = [kanji_row\<lparr> or_quote := False \<rparr>]"
    using kanji_query_row by (simp add: kanji_obligations plain_rows_def) (simp add: kanji_query_def)
  have "eligible latin_unicode (kanji_row\<lparr> or_quote := False \<rparr>)"
    by (simp add: eligible_def kanji_row_def usableSnippet_def snip_def kanji_weight QUOTE_MIN_def)
  then show ?thesis by (simp add: obligationRows_def Let_def rows spot_checked_def QUOTE_SPOT_CHECKS_def) (simp add: kanji_row_def)
qed

definition kanji_call :: json where
  "kanji_call = JObj [(js ''rows'', JArr [JObj [(js ''row_index'', JNum 1), (js ''ruling'', JStr (js ''Benign'')), (js ''note'', JStr (js ''a name'')),
     (js ''segment_index'', JNum 1)]])]"

definition kanji_quote :: jstr where "kanji_quote = take 6 kanji @ [32] @ drop 6 kanji"

lemma kanji_weights: "quoteWeight latin_unicode (take 6 kanji) = 16" "quoteWeight latin_unicode kanji_quote = 33"
  by (simp_all add: kanji_quote_def quoteWeight_def kanji_def text_simps dense_def high_def)

lemma kanji_binding: "segmentBinding latin_unicode (Some (JNum 1)) None kanji = (SegBound, Some kanji_quote, Some FragAbsent)"
proof -
  have g: "grow_passage latin_unicode [take 6 kanji, drop 6 kanji] 0 (Suc 0) = (0, 2)"
    using kanji_weights by (simp add: grow_passage.simps passage_def kanji_quote_def QUOTE_MIN_def numeral_2_eq_2)
  have t: "js_trim kanji_quote = kanji_quote" by (simp add: kanji_quote_def kanji_def js_trim_def is_space_def)
  show ?thesis using kanji_weights g t
    by (simp add: segmentBinding_def kanji_segments given_one FRAGMENT_MIN_def passage_def fragment_of_def string_or_def) (simp add: kanji_quote_def)
qed

lemma kanji_id: "js_trim (or_id kanji_row) = or_id kanji_row" "or_id kanji_row \<noteq> []" "or_id kanji_row = or_id one_row"
  using one_id by (simp_all add: kanji_row_def one_row_def)

lemma kanji_verdict: "validateDispositionCall latin_unicode (member (js ''rows'') (Some kanji_call)) [kanji_row] None
   = \<lparr> cv_accepted = [Accepted (or_id kanji_row) (js ''benign'') (js ''a name'') (shortId (js ''R'') (js ''t:zorvex'')) (Some kanji_quote) (Some FragAbsent)],
       cv_refused = [], cv_overflow = [] \<rparr>"
proof -
  have p: "row_position latin_unicode raw kanji_row = Named (shortId (js ''R'') (js ''t:zorvex''))" if "\<not> given (member (js ''receipt_index'') raw)" for raw
    using that one_id(2) one_norm_id
    by (simp add: row_position_def position_of_def resolveCandidate_def index_of_row_def orelse_def given_one kanji_row_def one_row_def)
  have s: "ruled_snippet kanji_row (shortId (js ''R'') (js ''t:zorvex'')) = kanji" using one_id(2)
    by (simp add: ruled_snippet_def kanji_row_def one_row_def snip_def)
  have q: "or_quote kanji_row" "length (or_candidates kanji_row) = 1" by (simp_all add: kanji_row_def)
  show ?thesis using kanji_id p s q kanji_binding
    by (simp add: validateDispositionCall_def kanji_call_def Let_def take_row_def orelse_def given_one addressed_def addressableRows_def check_row_def map_filter_def
      MAX_ROWS_PER_CALL_def row_fault_def str_def row_evidence_def text_simps RULINGS_def string_or_def)
qed

theorem quote_is_captured_text_witness:
  "\<exists>lo hi. lo < hi \<and> hi \<le> length (snippetSegments kanji) \<and> kanji_quote = js_trim (join [32] (take (hi - lo) (drop lo (snippetSegments kanji))))"
proof -
  have "Accepted (or_id kanji_row) (js ''benign'') (js ''a name'') (shortId (js ''R'') (js ''t:zorvex'')) (Some kanji_quote) (Some FragAbsent)
      \<in> set (cv_accepted (validateDispositionCall latin_unicode (member (js ''rows'') (Some kanji_call)) [kanji_row] None))"
    unfolding kanji_verdict by simp
  from quote_is_captured_text[OF this] show ?thesis by (auto simp: Let_def kanji_row_def snip_def)
qed

lemma kanji_unbound: "fst (quoteBinding latin_unicode kanji_quote (or_candidates kanji_row)) \<noteq> QuoteBound"
proof -
  have n: "normText latin_unicode kanji_quote = kanji_quote" by (simp add: kanji_quote_def kanji_def text_simps)
  have "\<not> js_includes kanji_quote kanji" by (simp add: kanji_quote_def kanji_def)
  then have f: "List.find (\<lambda>c. js_includes (normText latin_unicode kanji_quote) (normText latin_unicode (snip c)))
      (filter (\<lambda>c. usableSnippet latin_unicode (snip c)) (or_candidates kanji_row)) = None"
    using kanji_norm by (simp add: find_None_iff n kanji_row_def snip_def)
  show ?thesis unfolding quoteBinding_def Let_def f[unfolded n] n by (simp split: option.split)
qed

lemma call_left:
  "recordDispositions u ledger told ok received s = Some (res, s') \<Longrightarrow>
    cr_left res = outstandingWithAnchors u (addressableRows (obligationRows u (connotationObligations u ledger)) told) (cr_form res)"
  by (auto simp: recordDispositions_def Let_def split: if_splits)

text \<open>The first call on a ledger that owes one row.\<close>

definition first_sweep :: "recorded list \<Rightarrow> sweep" where
  "first_sweep ledger = \<lparr> sw_form = Some (form_json (buildDispositionForm latin_unicode (connotationObligations latin_unicode ledger))), sw_verdicts = [] \<rparr>"

definition first_result :: "recorded list \<Rightarrow> json \<Rightarrow> call_result" where
  "first_result ledger received = fst (the (recordDispositions latin_unicode ledger None (Wrote, True) received (first_sweep ledger)))"

lemma first_call:
  assumes "obligationRows latin_unicode (connotationObligations latin_unicode ledger) = [c]"
    and "validateDispositionCall latin_unicode (member (js ''rows'') (Some received)) [c] None = \<lparr> cv_accepted = [a], cv_refused = [], cv_overflow = [] \<rparr>"
    and "accepted_id a = or_id c"
  obtains p where "cr_form (first_result ledger received) = [explain_park [[]] (union_row latin_unicode p (Some (accepted_json a)) [] c)]"
    and "p = None \<or> p = Some (parse_row (row_json (blank_row c)))"
    and "cr_dropped (first_result ledger received) = dropped (cr_form (first_result ledger received)) [a]"
    and "cr_left (first_result ledger received) = outstandingWithAnchors latin_unicode [Some c] (cr_form (first_result ledger received))"
    and "cr_verdict (first_result ledger received) = \<lparr> cv_accepted = [a], cv_refused = [], cv_overflow = [] \<rparr>"
proof -
  let ?f = "buildDispositionForm latin_unicode (connotationObligations latin_unicode ledger)"
  have sf: "sw_form (first_sweep ledger) = Some (form_json ?f)" by (simp add: first_sweep_def)
  obtain s' where run: "recordDispositions latin_unicode ledger None (Wrote, True) received (first_sweep ledger) = Some (first_result ledger received, s')"
    by (simp add: first_result_def recordDispositions_def assms(1) Let_def)
  have f: "?f = [blank_row c]" by (simp add: buildDispositionForm_def assms(1))
  let ?p = "formRowFinder latin_unicode (map (\<lambda>r. parse_row (row_json r)) ?f) [c] c"
  have own: "js_trim (or_id c) = or_id c" using latin.row_ids(3)[of c] assms(1) by (metis list.set_intros(1))
  have sub: "formRowFinder latin_unicode (map accepted_json [a]) [c] c = Some (accepted_json a)"
    using latin.submitted_row[of c ledger "[a]" "connotationObligations latin_unicode ledger" "[c]"] assms(1,3) own by simp
  have none: "parkedIds [[]] = []" by (simp add: parkedIds_def sorted_set_def set_of_def)
  note call = call_form[OF sf run, unfolded assms(1,2)]
  show thesis
  proof (rule that[of ?p])
    show "cr_form (first_result ledger received) = [explain_park [[]] (union_row latin_unicode ?p (Some (accepted_json a)) [] c)]"
      using call(1) sub by (simp add: first_sweep_def none)
    show "?p = None \<or> ?p = Some (parse_row (row_json (blank_row c)))"
      using finder_in[of latin_unicode "map (\<lambda>r. parse_row (row_json r)) ?f" "[c]" c] by (cases ?p) (auto simp: f)
    show "cr_dropped (first_result ledger received) = dropped (cr_form (first_result ledger received)) [a]" using call(4) by simp
    show "cr_left (first_result ledger received) = outstandingWithAnchors latin_unicode [Some c] (cr_form (first_result ledger received))"
      using call_left[OF run] by (simp add: assms(1) addressableRows_def)
    show "cr_verdict (first_result ledger received) = \<lparr> cv_accepted = [a], cv_refused = [], cv_overflow = [] \<rparr>" using call(3) by simp
  qed
qed

lemma kanji_quote_trim: "js_trim kanji_quote = kanji_quote" by (simp add: kanji_quote_def kanji_def js_trim_def is_space_def)

lemma unruled_quote: "tidy j \<Longrightarrow> field ''quote'' j = kanji_quote \<Longrightarrow> \<not> isRuled latin_unicode j kanji_row"
  using kanji_unbound latin.tidy_spot_check by (auto simp: isRuled_def kanji_row_def)

lemma unruled_row: "fr_quote r = Some kanji_quote \<Longrightarrow> \<not> isRuled latin_unicode (Some (row_json r)) kanji_row"
  using kanji_quote_trim by (intro unruled_quote) (simp_all add: tidy_def del: js_Cons)

lemma unruled_blank: "field ''ruling'' j = [] \<Longrightarrow> \<not> isRuled latin_unicode j c"
  by (simp add: isRuled_def is_ruling_def RULINGS_def)

text \<open>A row whose evidence spans two passages of a text written without white space: the passages are joined with a space, so
  the quote is not in the snippet. The call accepts the row, refuses nothing, reports nothing left and nothing dropped,
  and the row is not ruled, is not parked and stays outstanding at the gate.\<close>

lemma accepted_never_ruled:
  "cv_refused (cr_verdict (first_result kanji_query kanji_call)) = [] \<and> length (cv_accepted (cr_verdict (first_result kanji_query kanji_call))) = 1
    \<and> cr_left (first_result kanji_query kanji_call) = [] \<and> cr_dropped (first_result kanji_query kanji_call) = []
    \<and> (\<exists>r. cr_form (first_result kanji_query kanji_call) = [r] \<and> \<not> row_ruled latin_unicode r \<and> \<not> fr_parked r)"
proof -
  let ?a = "Accepted (or_id kanji_row) (js ''benign'') (js ''a name'') (shortId (js ''R'') (js ''t:zorvex'')) (Some kanji_quote) (Some FragAbsent)"
  obtain p where p: "cr_form (first_result kanji_query kanji_call) = [explain_park [[]] (union_row latin_unicode p (Some (accepted_json ?a)) [] kanji_row)]"
      "p = None \<or> p = Some (parse_row (row_json (blank_row kanji_row)))"
    and out: "cr_dropped (first_result kanji_query kanji_call) = dropped (cr_form (first_result kanji_query kanji_call)) [?a]"
      "cr_left (first_result kanji_query kanji_call) = outstandingWithAnchors latin_unicode [Some kanji_row] (cr_form (first_result kanji_query kanji_call))"
      "cr_verdict (first_result kanji_query kanji_call) = \<lparr> cv_accepted = [?a], cv_refused = [], cv_overflow = [] \<rparr>"
    using first_call[OF kanji_rows kanji_verdict] by (metis accepted_id_simps(1))
  have blank: "field ''ruling'' p = []" "field ''quote'' p = []" "member (js ''parked'') p \<noteq> Some (JBool True)"
    using p(2) by (auto simp: blank_row_def field_def simp del: js_Cons)
  let ?r = "explain_park [[]] (union_row latin_unicode p (Some (accepted_json ?a)) [] kanji_row)"
  note qt = kanji_quote_trim
  have sq: "field ''quote'' (Some (accepted_json ?a)) = kanji_quote" using qt by (simp add: accepted_json_def or_null_def field_def del: js_Cons)
  have not: "\<not> isRuled latin_unicode (Some (accepted_json ?a)) kanji_row" "\<not> isRuled latin_unicode p kanji_row"
    using unruled_quote[OF accepted_tidy sq] qt unruled_blank[OF blank(1)] by auto
  define v where "v = merged_fields latin_unicode p (Some (accepted_json ?a)) kanji_row"
  have v: "sv_ruling v = js ''benign''" "sv_note v = js ''a name''" "sv_quote v = kanji_quote"
    using not sq blank rulings_plain[of "js ''benign''"]
    by (simp_all add: v_def merged_fields_def carry_def or_else_def RULINGS_def seatFields_def js_trim_def is_space_def)
      (simp_all add: kanji_quote_def)
  have vals: "fr_row ?r = kanji_row" "fr_quote ?r = Some kanji_quote" "fr_receipt ?r = or_receipt kanji_row" "fr_ruling ?r = Some (js ''benign'')"
      "fr_note ?r = Some (js ''a name'')"
  proof -
    have one: "length (or_candidates kanji_row) = 1" by (simp add: kanji_row_def)
    have "fr_receipt (fill_row v kanji_row) = or_receipt kanji_row" using one by (simp add: fill_row_def)
    moreover have "fr_quote (fill_row v kanji_row) = Some kanji_quote" using v(3) by (simp add: kanji_quote_def nonempty_some)
    moreover have "fr_ruling (fill_row v kanji_row) = Some (js ''benign'')" "fr_note (fill_row v kanji_row) = Some (js ''a name'')"
      using v(1,2) by (simp_all add: nonempty_some)
    ultimately show "fr_row ?r = kanji_row" "fr_quote ?r = Some kanji_quote" "fr_receipt ?r = or_receipt kanji_row"
        "fr_ruling ?r = Some (js ''benign'')" "fr_note ?r = Some (js ''a name'')"
      by (simp_all add: union_row_def Let_def v_def del: js_Cons)
  qed
  have un: "\<not> row_ruled latin_unicode ?r"
    unfolding row_ruled_def vals(1) by (rule unruled_row[OF vals(2)])
  have unp: "\<not> fr_parked ?r"
    using blank(3) by (simp add: union_row_parked accepted_json_def del: js_Cons)
  have "filled (or_receipt kanji_row)"
    using shortId_trim[of "js ''t:zorvex''" "js ''R''"] by (simp add: filled_def kanji_row_def is_space_def)
  moreover have "filled (Some kanji_quote)" using qt by (simp add: filled_def) (simp add: kanji_quote_def)
  moreover have "filled (Some (js ''benign''))" "filled (Some (js ''a name''))" by (simp_all add: filled_def js_trim_def is_space_def)
  ultimately have full: "filled (fr_receipt ?r)" "filled (fr_ruling ?r)" "filled (fr_note ?r)" "filled (fr_quote ?r)"
    unfolding vals by blast+
  have "lands (cr_form (first_result kanji_query kanji_call)) (or_id kanji_row)"
    unfolding p(1) using full(1,2) vals(1) kanji_id by (simp add: lands_def last_of_def)
  then have dropped: "cr_dropped (first_result kanji_query kanji_call) = []" using out(1) by (simp add: dropped_def)
  have "cr_left (first_result kanji_query kanji_call) = []"
    unfolding out(2) p(1) using full vals(1) kanji_id by (simp add: outstandingWithAnchors_def owes_def looks_ruled_def last_of_def map_filter_def)
  then show ?thesis using dropped un unp p(1) out(3) by simp
qed

section \<open>A declared obstacle is reported as a fault\<close>

definition two_query :: "recorded list" where
  "two_query = [\<lparr> q_query = js ''zorvex'', q_results = [\<lparr> rr_title = js ''Zorvex'', rr_url = [], rr_snippet = kanji \<rparr>,
     \<lparr> rr_title = js ''Zorvey'', rr_url = [], rr_snippet = [] \<rparr>] \<rparr>]"

definition two_row :: obligation_row where
  "two_row = \<lparr> or_id = shortId (js ''Q'') (js ''q!zorvex''), or_kind = Query (js ''zorvex''),
     or_candidates = or_candidates kanji_row @ [\<lparr> ca_id = shortId (js ''R'') (js ''t:zorvey''), ca_title = js ''Zorvey'', ca_url = [], ca_snippet = Some [],
       ca_segments = [] \<rparr>],
     or_quote = True, or_receipt = None \<rparr>"

lemma zorvey_key: "receiptKey latin_unicode \<lparr> rr_title = js ''Zorvey'', rr_url = [], rr_snippet = [] \<rparr> = js ''t:zorvey''"
  by (simp add: receiptKey_def normUrl_def text_simps strip_lang_def strip_www_def strip_http_def lang_label_def Let_def)

lemma zorvey_trim: "js_trim (js ''Zorvey'') = js ''Zorvey''" by (simp add: js_trim_def is_space_def)

lemma two_obligations: "connotationObligations latin_unicode two_query = \<lparr> ob_queries = two_query, ob_recurrent = [] \<rparr>"
  by (simp add: connotationObligations_def two_query_def one_query_text[simplified] add_owners_def kanji_key[simplified] zorvey_key[simplified] nonempty_def RECURRENT_MIN_def)

lemma two_query_row: "query_row latin_unicode (hd two_query) = two_row\<lparr> or_quote := False \<rparr>"
  by (simp add: query_row_def two_query_def Let_def map_filter_def receiptId_def kanji_key[simplified] zorvey_key[simplified] two_row_def kanji_row_def cand_def zorvex_trim[simplified]
      zorvey_trim[simplified] kanji_trim kanji_segments shortId_def) (simp add: snippetSegments_def js_trim_def)

lemma two_rows: "obligationRows latin_unicode (connotationObligations latin_unicode two_query) = [two_row]"
proof -
  have rows: "plain_rows latin_unicode (connotationObligations latin_unicode two_query) = [two_row\<lparr> or_quote := False \<rparr>]"
    using two_query_row by (simp add: two_obligations plain_rows_def) (simp add: two_query_def)
  have "eligible latin_unicode (two_row\<lparr> or_quote := False \<rparr>)"
    by (simp add: eligible_def two_row_def kanji_row_def usableSnippet_def snip_def kanji_weight QUOTE_MIN_def)
  then show ?thesis by (simp add: obligationRows_def Let_def rows spot_checked_def QUOTE_SPOT_CHECKS_def) (simp add: two_row_def)
qed

definition two_call :: json where
  "two_call = JObj [(js ''rows'', JArr [JObj [(js ''row_index'', JNum 1), (js ''receipt_index'', JNum 1), (js ''ruling'', JStr (js ''loaded'')), (js ''note'', JStr (js ''a name'')),
     (js ''obstacle'', JStr (js ''no text''))]])]"

lemma two_id: "js_trim (or_id two_row) = or_id two_row" "or_id two_row \<noteq> []"
  using kanji_id by (simp_all add: two_row_def kanji_row_def)

lemma two_verdict: "validateDispositionCall latin_unicode (member (js ''rows'') (Some two_call)) [two_row] None
   = \<lparr> cv_accepted = [Declared (or_id two_row) (js ''loaded'') (js ''a name'') (js ''no text'')], cv_refused = [], cv_overflow = [] \<rparr>"
proof -
  have p: "\<exists>i. row_position latin_unicode raw two_row = Named i \<and> ruled_snippet two_row i = kanji" if "member (js ''receipt_index'') raw = Some (JNum 1)" for raw
    using that one_id(2) one_norm_id
    by (simp add: row_position_def position_of_def resolveCandidate_def index_of_row_def orelse_def given_one two_row_def kanji_row_def one_row_def ruled_snippet_def snip_def)
  have s: "segmentBinding latin_unicode None f kanji = (SegmentMissing, None, None)" for f
    by (simp add: segmentBinding_def kanji_segments)
  have q: "or_quote two_row" "length (or_candidates two_row) = 2" by (simp_all add: two_row_def kanji_row_def)
  let ?raw = "Some (JObj [(js ''row_index'', JNum 1), (js ''receipt_index'', JNum 1), (js ''ruling'', JStr (js ''loaded'')), (js ''note'', JStr (js ''a name'')),
     (js ''obstacle'', JStr (js ''no text''))])"
  obtain i where i: "row_position latin_unicode ?raw two_row = Named i" "ruled_snippet two_row i = kanji" using p[of ?raw] by auto
  then have "check_row latin_unicode ?raw (js ''1'') two_row = Takes (Declared (or_id two_row) (js ''loaded'') (js ''a name'') (js ''no text''))"
    using two_id q s
    by (simp add: check_row_def Let_def row_fault_def str_def row_evidence_def text_simps RULINGS_def string_or_def orelse_def given_one EVIDENCE_REFUSALS_def segment_refusal_def)
  then show ?thesis using two_id
    by (simp add: validateDispositionCall_def two_call_def Let_def take_row_def orelse_def given_one addressed_def addressableRows_def map_filter_def
      MAX_ROWS_PER_CALL_def str_def string_or_def int_text_def js_trim_def is_space_def)
qed

text \<open>A seat that rules on one of several candidates and declares what stops it from proving its reading: the row is taken
  and parked, and the same answer tells the seat that the driver lost it.\<close>

lemma declared_reported_dropped:
  "cr_verdict (first_result two_query two_call)
      = \<lparr> cv_accepted = [Declared (or_id two_row) (js ''loaded'') (js ''a name'') (js ''no text'')], cv_refused = [], cv_overflow = [] \<rparr>
    \<and> (\<exists>r. cr_form (first_result two_query two_call) = [r] \<and> fr_parked r \<and> fr_ruling r = Some (js ''loaded''))
    \<and> cr_dropped (first_result two_query two_call) = [or_id two_row]"
proof -
  let ?a = "Declared (or_id two_row) (js ''loaded'') (js ''a name'') (js ''no text'')"
  obtain p where p: "cr_form (first_result two_query two_call) = [explain_park [[]] (union_row latin_unicode p (Some (accepted_json ?a)) [] two_row)]"
      "p = None \<or> p = Some (parse_row (row_json (blank_row two_row)))"
    and out: "cr_dropped (first_result two_query two_call) = dropped (cr_form (first_result two_query two_call)) [?a]"
      "cr_verdict (first_result two_query two_call) = \<lparr> cv_accepted = [?a], cv_refused = [], cv_overflow = [] \<rparr>"
    using first_call[OF two_rows two_verdict] by (metis accepted_id_simps(2))
  let ?r = "explain_park [[]] (union_row latin_unicode p (Some (accepted_json ?a)) [] two_row)"
  have cands: "length (or_candidates two_row) = 2" by (simp add: two_row_def kanji_row_def)
  have unnamed: "named_id (resolveCandidate latin_unicode q (or_candidates two_row)) = []"
    if q: "q = Some (accepted_json ?a) \<or> q = p" for q
  proof -
    consider "q = None" | "q = Some (accepted_json ?a)" | "q = Some (parse_row (row_json (blank_row two_row)))"
      using q p(2) by blast
    then have "\<not> given (index_of_row q) \<and> ordinal (index_of_row q) = None \<and> string_or (member (js ''receipt_id'') q) [] = []"
    proof cases
      case 1
      then show ?thesis by (simp add: index_of_row_def orelse_def)
    next
      case 2
      then show ?thesis by (simp add: unindexed) (simp add: accepted_json_def)
    next
      case 3
      then show ?thesis unfolding 3 parsed_receipt using parsed_index by (simp add: blank_row_def two_row_def)
    qed
    then show ?thesis using latin.empty_texts by (simp add: resolveCandidate_def named_id_def)
  qed
  have not: "\<not> isRuled latin_unicode q two_row" if "q = Some (accepted_json ?a) \<or> q = p" for q using unnamed[OF that] by (simp add: isRuled_def)
  define v where "v = merged_fields latin_unicode p (Some (accepted_json ?a)) two_row"
  have v: "sv_receipt v = []" "sv_ruling v = js ''loaded''"
    using not unnamed by (simp_all add: v_def merged_fields_def carry_def or_else_def field_def accepted_json_def js_trim_def is_space_def)
  have r: "fr_row ?r = two_row" "fr_receipt ?r = None" "fr_ruling ?r = Some (js ''loaded'')"
    unfolding explained_union v_def[symmetric] using v cands by (simp_all add: fill_row_def nonempty_def)
  have "named_id (resolveCandidate latin_unicode (Some (row_json ?r)) (or_candidates two_row)) = []"
    using r(2) latin.empty_texts by (simp add: resolveCandidate_def named_id_def unindexed del: js_Cons)
  then have "\<not> row_ruled latin_unicode ?r" using r(1) by (simp add: row_ruled_def isRuled_def)
  then have "fr_parked ?r"
    by (simp add: union_row_parked) (simp add: accepted_json_def field_def js_trim_def is_space_def)
  moreover have "\<not> lands [?r] (or_id two_row)" using r two_id by (simp add: lands_def last_of_def filled_def)
  ultimately show ?thesis using p(1) out r by (simp add: dropped_def)
qed

end
