(* ===== verification/Rx.thy ===== *)
theory Rx
  imports JsText
begin

text \<open>Regular expressions as the code writes them, for the texts that are read by them. An expression is data, its
  meaning is the backtracking matcher of the language: the list of all ways to match at a place, the preferred one
  first. A greedy repetition prefers one more round, a lazy one prefers to stop, an alternative its left side; a round
  that consumes nothing is not taken. \<open>/i\<close> folds the ASCII letters, the only letters the expressions modelled here name.\<close>

section \<open>Expressions\<close>

datatype rx =
    Emp
  | Cls "unit16 \<Rightarrow> bool"
  | Seq rx rx
  | Alt rx rx
  | Many rx
  | Few rx
  | Cap nat rx
  | WordB
  | NotAhead rx
  | NotBehind "unit16 \<Rightarrow> bool"
  | End

text \<open>A place in a text: the code unit before it, the rest, the groups captured so far.\<close>

type_synonym spot = "unit16 option \<times> jstr \<times> (nat \<times> jstr) list"

definition re_word_char :: "unit16 \<Rightarrow> bool" where
  "re_word_char c \<longleftrightarrow> is_upper c \<or> is_lower c \<or> is_digit c \<or> c = 95"

definition at_boundary :: "unit16 option \<Rightarrow> jstr \<Rightarrow> bool" where
  "at_boundary b s \<longleftrightarrow>
     (case b of Some c \<Rightarrow> re_word_char c | None \<Rightarrow> False) \<noteq> (case s of c # _ \<Rightarrow> re_word_char c | [] \<Rightarrow> False)"

definition progress :: "spot \<Rightarrow> spot \<Rightarrow> bool" where
  "progress p q \<longleftrightarrow> length (fst (snd q)) < length (fst (snd p))"

fun rounds :: "bool \<Rightarrow> nat \<Rightarrow> (spot \<Rightarrow> spot list) \<Rightarrow> spot \<Rightarrow> spot list" where
  "rounds greedy 0 f p = [p]"
| "rounds greedy (Suc n) f p =
     (let more = concat (map (rounds greedy n f) (filter (progress p) (f p))) in
      if greedy then more @ [p] else p # more)"

primrec ways :: "rx \<Rightarrow> spot \<Rightarrow> spot list" where
  "ways Emp p = [p]"
| "ways (Cls P) p =
     (case p of (_, [], _) \<Rightarrow> [] | (_, c # cs, g) \<Rightarrow> if P c then [(Some c, cs, g)] else [])"
| "ways (Seq r q) p = concat (map (ways q) (ways r p))"
| "ways (Alt r q) p = ways r p @ ways q p"
| "ways (Many r) p = rounds True (length (fst (snd p))) (ways r) p"
| "ways (Few r) p = rounds False (length (fst (snd p))) (ways r) p"
| "ways (Cap k r) p =
     map (\<lambda>(b, s, g). (b, s, (k, take (length (fst (snd p)) - length s) (fst (snd p))) # g)) (ways r p)"
| "ways WordB p = (if at_boundary (fst p) (fst (snd p)) then [p] else [])"
| "ways (NotAhead r) p = (if ways r p = [] then [p] else [])"
| "ways (NotBehind P) p = (case fst p of Some c \<Rightarrow> if P c then [] else [p] | None \<Rightarrow> [p])"
| "ways End p = (if fst (snd p) = [] then [p] else [])"

section \<open>Their notation\<close>

definition chr :: "unit16 \<Rightarrow> rx" where "chr c = Cls (\<lambda>x. x = c)"

definition lit :: "string \<Rightarrow> rx" where
  "lit s = foldr Seq (map chr (js s)) Emp"

definition lit_i :: "string \<Rightarrow> rx" where
  "lit_i s = foldr Seq (map (\<lambda>c. Cls (\<lambda>x. low1 x = low1 c)) (js s)) Emp"

definition opt :: "rx \<Rightarrow> rx" where "opt r = Alt r Emp"
definition many1 :: "rx \<Rightarrow> rx" where "many1 r = Seq r (Many r)"
definition few1 :: "rx \<Rightarrow> rx" where "few1 r = Seq r (Few r)"

definition seqs :: "rx list \<Rightarrow> rx" where "seqs rs = foldr Seq rs Emp"

primrec up_to :: "nat \<Rightarrow> rx \<Rightarrow> rx" where
  "up_to 0 r = Emp"
| "up_to (Suc n) r = Alt (Seq r (up_to n r)) Emp"

primrec few_up_to :: "nat \<Rightarrow> rx \<Rightarrow> rx" where
  "few_up_to 0 r = Emp"
| "few_up_to (Suc n) r = Alt Emp (Seq r (few_up_to n r))"

text \<open>\<open>{m,n}\<close>.\<close>

definition between :: "nat \<Rightarrow> nat \<Rightarrow> rx \<Rightarrow> rx" where
  "between m n r = foldr Seq (replicate m r) (up_to (n - m) r)"

definition space :: rx where "space = Cls is_space"
definition digit :: rx where "digit = Cls is_digit"

text \<open>\<open>.\<close>: anything but a line terminator.\<close>

definition any :: rx where "any = Cls (\<lambda>c. c \<notin> {10, 13, 8232, 8233})"

section \<open>Use\<close>

text \<open>\<open>match\<close> with \<open>^\<close>: the groups of the preferred match at the start.\<close>

definition match_start :: "rx \<Rightarrow> jstr \<Rightarrow> (nat \<times> jstr) list option" where
  "match_start r s = (case ways r (None, s, []) of [] \<Rightarrow> None | (_, _, g) # _ \<Rightarrow> Some g)"

definition group :: "nat \<Rightarrow> (nat \<times> jstr) list \<Rightarrow> jstr" where
  "group k g = (case map_of g k of Some t \<Rightarrow> t | None \<Rightarrow> [])"

text \<open>The first place where the expression matches: the text before it, the text matched, and the place after it.\<close>

fun exec :: "rx \<Rightarrow> unit16 option \<Rightarrow> jstr \<Rightarrow> (jstr \<times> jstr \<times> spot) option" where
  "exec r b s =
     (case ways r (b, s, []) of
        p # _ \<Rightarrow> Some ([], take (length s - length (fst (snd p))) s, p)
      | [] \<Rightarrow> (case s of [] \<Rightarrow> None
          | c # cs \<Rightarrow> map_option (\<lambda>(x, m, p). (c # x, m, p)) (exec r (Some c) cs)))"

declare exec.simps [simp del]

definition test :: "rx \<Rightarrow> jstr \<Rightarrow> bool" where
  "test r s \<longleftrightarrow> exec r None s \<noteq> None"

text \<open>\<open>matchAll\<close>: each match begins where the one before ended. The expressions of this development match at least one
  code unit; an empty match ends the search here.\<close>

function match_from :: "rx \<Rightarrow> unit16 option \<Rightarrow> jstr \<Rightarrow> (jstr \<times> (nat \<times> jstr) list) list" where
  "match_from r b s =
     (case exec r b s of None \<Rightarrow> []
      | Some (x, m, (b', s', g)) \<Rightarrow> if length s' < length s then (m, g) # match_from r b' s' else [])"
  by pat_completeness auto
termination by (relation "measure (\<lambda>(r, b, s). length s)") auto

declare match_from.simps [simp del]

definition matchAll :: "rx \<Rightarrow> jstr \<Rightarrow> (jstr \<times> (nat \<times> jstr) list) list" where
  "matchAll r s = match_from r None s"

function replace_from :: "rx \<Rightarrow> ((nat \<times> jstr) list \<Rightarrow> jstr) \<Rightarrow> unit16 option \<Rightarrow> jstr \<Rightarrow> jstr" where
  "replace_from r f b s =
     (case exec r b s of None \<Rightarrow> s
      | Some (x, m, (b', s', g)) \<Rightarrow> if length s' < length s then x @ f g @ replace_from r f b' s' else s)"
  by pat_completeness auto
termination by (relation "measure (\<lambda>(r, f, b, s). length s)") auto

declare replace_from.simps [simp del]

definition replace :: "rx \<Rightarrow> ((nat \<times> jstr) list \<Rightarrow> jstr) \<Rightarrow> jstr \<Rightarrow> jstr" where
  "replace r f s = replace_from r f None s"

section \<open>What a match is\<close>

text \<open>Every way ends at a suffix of the text it began at.\<close>

definition suffix_of :: "spot \<Rightarrow> spot \<Rightarrow> bool" where
  "suffix_of q p \<longleftrightarrow> (\<exists>x. fst (snd p) = x @ fst (snd q))"

lemma suffix_of_refl [simp]: "suffix_of p p" by (simp add: suffix_of_def)

lemma suffix_of_trans: "suffix_of r q \<Longrightarrow> suffix_of q p \<Longrightarrow> suffix_of r p"
  unfolding suffix_of_def by (metis append.assoc)

lemma rounds_Suc:
  "q \<in> set (rounds g (Suc n) f p) \<longleftrightarrow> q = p \<or> (\<exists>p' \<in> set (f p). progress p p' \<and> q \<in> set (rounds g n f p'))"
  by (cases g) (simp_all add: Let_def Bex_def conj_ac del: split_paired_Ex, blast+)

lemma ways_Seq: "q \<in> set (ways (Seq r s) p) \<longleftrightarrow> (\<exists>p' \<in> set (ways r p). q \<in> set (ways s p'))"
  by simp

lemma rounds_suffix:
  assumes f: "\<And>p q. q \<in> set (f p) \<Longrightarrow> suffix_of q p"
  shows "q \<in> set (rounds g n f p) \<Longrightarrow> suffix_of q p"
proof (induction n arbitrary: p)
  case (Suc n)
  consider "q = p" | p' where "p' \<in> set (f p)" "q \<in> set (rounds g n f p')" using Suc.prems rounds_Suc by blast
  then show ?case
  proof cases
    case 2
    show ?thesis by (rule suffix_of_trans[OF Suc.IH[OF 2(2)] f[OF 2(1)]])
  qed simp
qed simp

lemma ways_suffix: "q \<in> set (ways r p) \<Longrightarrow> suffix_of q p"
proof (induction r arbitrary: p q)
  case (Cls P)
  then show ?case by (cases p) (auto simp: suffix_of_def split: list.splits if_splits)
next
  case (Seq r1 r2)
  obtain p' where "p' \<in> set (ways r1 p)" "q \<in> set (ways r2 p')" using Seq.prems unfolding ways_Seq by blast
  then show ?case by (meson Seq.IH suffix_of_trans)
next
  case (Many r)
  show ?case using Many.prems by (auto intro: rounds_suffix Many.IH)
next
  case (Few r)
  show ?case using Few.prems by (auto intro: rounds_suffix Few.IH)
next
  case (Cap k r)
  obtain b s g where q: "(b, s, g) \<in> set (ways r p)" "fst (snd q) = s" using Cap.prems by auto
  then show ?case using Cap.IH[OF q(1)] by (simp add: suffix_of_def)
qed (auto split: if_splits option.splits)

text \<open>What \<open>exec\<close> reports is in the text, in this order: the part before, the match, the rest.\<close>

lemma exec_splits: "exec r b s = Some (x, m, p) \<Longrightarrow> s = x @ m @ fst (snd p)"
proof (induction r b s arbitrary: x rule: exec.induct)
  case (1 r b s)
  show ?case
  proof (cases "ways r (b, s, [])")
    case Nil
    then show ?thesis using 1 by (subst (asm) (2) exec.simps) (auto split: list.splits)
  next
    case (Cons q qs)
    then have q: "suffix_of q (b, s, [])" using ways_suffix[of q r "(b, s, [])"] by simp
    show ?thesis using 1(2) Cons q by (subst (asm) exec.simps) (auto simp: suffix_of_def)
  qed
qed

lemma match_from_part: "(m, g) \<in> set (match_from r b s) \<Longrightarrow> \<exists>x y. s = x @ m @ y"
proof (induction r b s rule: match_from.induct)
  case (1 r b s)
  obtain x m' b' s' g' where t: "exec r b s = Some (x, m', b', s', g')" and l: "length s' < length s"
    and mg: "(m, g) = (m', g') \<or> (m, g) \<in> set (match_from r b' s')"
    using 1(2) match_from.simps[of r b s] by (auto split: option.splits if_splits)
  have s: "s = x @ m' @ s'" using exec_splits[OF t] by simp
  from mg show ?case
  proof
    assume "(m, g) \<in> set (match_from r b' s')"
    then obtain y z where "s' = y @ m @ z" using 1(1)[OF t] l by blast
    then have "s = (x @ m' @ y) @ m @ z" using s by simp
    then show ?thesis by blast
  qed (use s in auto)
qed

text \<open>What an expression can read: every way of \<open>r\<close> consumes a text with the property \<open>P\<close>.\<close>

definition reads :: "rx \<Rightarrow> (jstr \<Rightarrow> bool) \<Rightarrow> bool" where
  "reads r P \<longleftrightarrow> (\<forall>b s g q. q \<in> set (ways r (b, s, g)) \<longrightarrow> (\<exists>x. s = x @ fst (snd q) \<and> P x))"

lemma readsD: "reads r P \<Longrightarrow> q \<in> set (ways r p) \<Longrightarrow> \<exists>x. fst (snd p) = x @ fst (snd q) \<and> P x"
  unfolding reads_def by (metis prod.collapse)

lemma reads_Seq: "reads r P \<Longrightarrow> reads q Q \<Longrightarrow> reads (Seq r q) (\<lambda>x. \<exists>y z. x = y @ z \<and> P y \<and> Q z)"
  unfolding reads_def[of "Seq r q"] ways_Seq by (metis readsD append.assoc fst_conv snd_conv)

lemma reads_mono: "reads r P \<Longrightarrow> (\<And>x. P x \<Longrightarrow> Q x) \<Longrightarrow> reads r Q"
  unfolding reads_def by meson

lemma reads_Emp: "reads Emp (\<lambda>x. x = [])"
  by (simp add: reads_def)

lemma reads_Cls: "reads (Cls P) (\<lambda>x. \<exists>c. x = [c] \<and> P c)"
  by (auto simp: reads_def split: list.splits if_splits)

lemma reads_lit_i: "reads (lit_i t) (\<lambda>x. map low1 x = map low1 (js t))"
proof (induction t)
  case Nil
  show ?case by (simp add: lit_i_def reads_def)
next
  case (Cons c t)
  have "lit_i (c # t) = Seq (Cls (\<lambda>x. low1 x = low1 (of_char c))) (lit_i t)" by (simp add: lit_i_def)
  moreover have "reads (Seq (Cls (\<lambda>x. low1 x = low1 (of_char c))) (lit_i t)) (\<lambda>x. map low1 x = map low1 (js (c # t)))"
    by (rule reads_mono[OF reads_Seq[OF reads_Cls Cons.IH]]) auto
  ultimately show ?case by simp
qed

lemma reads_rounds:
  "(\<And>p q. q \<in> set (f p) \<Longrightarrow> \<exists>x. fst (snd p) = x @ fst (snd q) \<and> list_all P x) \<Longrightarrow> q \<in> set (rounds g n f p)
     \<Longrightarrow> \<exists>x. fst (snd p) = x @ fst (snd q) \<and> list_all P x"
proof (induction n arbitrary: p)
  case (Suc n)
  consider "q = p" | p' where "p' \<in> set (f p)" "q \<in> set (rounds g n f p')" using Suc.prems(2) rounds_Suc by blast
  then show ?case
  proof cases
    case 2
    obtain x y where "fst (snd p) = x @ fst (snd p')" "list_all P x" "fst (snd p') = y @ fst (snd q)" "list_all P y"
      using Suc.prems(1)[OF 2(1)] Suc.IH[OF Suc.prems(1) 2(2)] by blast
    then have "fst (snd p) = (x @ y) @ fst (snd q) \<and> list_all P (x @ y)" by simp
    then show ?thesis by blast
  qed simp
qed simp

lemma reads_Many: "reads (Many (Cls P)) (list_all P)"
  unfolding reads_def
proof (intro allI impI)
  fix b s g q assume "q \<in> set (ways (Many (Cls P)) (b, s, g))"
  moreover have "q \<in> set (ways (Cls P) p) \<Longrightarrow> \<exists>x. fst (snd p) = x @ fst (snd q) \<and> list_all P x" for p q
    using readsD[OF reads_Cls] by fastforce
  ultimately show "\<exists>x. s = x @ fst (snd q) \<and> list_all P x"
    using reads_rounds[of "ways (Cls P)" P q True "length s" "(b, s, g)"] by simp
qed

lemma reads_up_to: "reads (up_to n (Cls P)) (\<lambda>x. length x \<le> n \<and> list_all P x)"
proof (induction n)
  case (Suc n)
  have "reads (Seq (Cls P) (up_to n (Cls P))) (\<lambda>x. length x \<le> Suc n \<and> list_all P x)"
    by (rule reads_mono[OF reads_Seq[OF reads_Cls Suc.IH]]) auto
  then show ?case by (fastforce simp: reads_def)
qed (simp add: reads_def)

lemma reads_exactly: "reads r Q \<Longrightarrow> reads (foldr Seq (replicate m (Cls P)) r) (\<lambda>x. \<exists>y z. x = y @ z \<and> length y = m \<and> list_all P y \<and> Q z)"
proof (induction m)
  case 0
  then show ?case by simp
next
  case (Suc m)
  have "reads (Seq (Cls P) (foldr Seq (replicate m (Cls P)) r))
          (\<lambda>x. \<exists>y z. x = y @ z \<and> length y = Suc m \<and> list_all P y \<and> Q z)"
  proof (rule reads_mono[OF reads_Seq[OF reads_Cls Suc.IH[OF Suc.prems]]])
    fix x assume "\<exists>y z. x = y @ z \<and> (\<exists>c. y = [c] \<and> P c) \<and> (\<exists>y' z'. z = y' @ z' \<and> length y' = m \<and> list_all P y' \<and> Q z')"
    then obtain c y' z' where "x = (c # y') @ z'" "P c" "length y' = m" "list_all P y'" "Q z'" by auto
    then show "\<exists>y z. x = y @ z \<and> length y = Suc m \<and> list_all P y \<and> Q z"
      by (intro exI[of _ "c # y'"] exI[of _ z']) simp
  qed
  then show ?case by simp
qed

lemma reads_between:
  "reads (between m n (Cls P)) (\<lambda>x. m \<le> length x \<and> length x \<le> m + (n - m) \<and> list_all P x)"
  unfolding between_def by (rule reads_mono[OF reads_exactly[OF reads_up_to]]) auto


lemma exec_reads: "reads r P \<Longrightarrow> exec r b s = Some (x, m, p) \<Longrightarrow> P m"
proof (induction r b s arbitrary: x rule: exec.induct)
  case (1 r b s)
  show ?case
  proof (cases "ways r (b, s, [])")
    case Nil
    then show ?thesis using 1 exec.simps[of r b s] by (auto split: list.splits)
  next
    case (Cons q qs)
    then obtain y where y: "s = y @ fst (snd q)" "P y" using readsD[OF 1(2), of q "(b, s, [])"] by auto
    have "m = take (length s - length (fst (snd q))) s" using 1(3) Cons exec.simps[of r b s] by auto
    then have "m = y" using y(1) by simp
    then show ?thesis using y(2) by blast
  qed
qed

end
