(* ===== verification/Declination.thy ===== *)
theory Declination
  imports Rx DispositionCall
begin

text \<open>How the writer sets a record or a page aside (\<open>driver/declination-call.mjs\<close>, \<open>driver/declination-tool.mjs\<close>): the
  rows are offered in a list and named by their position, a stated reason is refused where it contradicts what the run
  holds, each row is taken or refused on its own, and what was taken is merged into the run's ledger.

  A row and a call are any JSON value. The state is the ledger and the refusals of earlier calls; whether the ledger can be
  read and what becomes of each write are inputs of a call, and so is the time of the call. The sentences of the answers, the accepted rows of the journal,
  the capture of the call and the recognition of a repeated one are not modelled.\<close>

section \<open>Marks and reasons\<close>

definition markKey :: "unicode \<Rightarrow> json option \<Rightarrow> jstr" where
  "markKey u name =
     js_trim (blank_runs (\<lambda>c. word_class u c \<and> \<not> mark_class u c)
       (to_lower u (filter (\<lambda>c. \<not> (768 \<le> c \<and> c \<le> 879)) (nfd u (string_or name [])))))"

definition MAX_DECLINATIONS_PER_CALL :: nat where "MAX_DECLINATIONS_PER_CALL = 40"

definition DECLINATION_REASONS :: "(jstr \<times> bool) list" where
  "DECLINATION_REASONS =
     [(js ''unrelated-goods'', True), (js ''off-field-not-major'', True), (js ''sign'', True),
      (js ''not-worth-the-line'', True), (js ''duplicate-of-delivered'', False), (js ''own-right'', False)]"

text \<open>A look-up in the table also finds what every object inherits, and none of that says \<open>discretionary\<close>.\<close>

definition reason_spec :: "jstr \<Rightarrow> bool option" where
  "reason_spec r =
     (case map_of DECLINATION_REASONS r of Some d \<Rightarrow> Some d | None \<Rightarrow> if r \<in> set INHERITED then Some False else None)"

definition discretionary :: "jstr \<Rightarrow> bool" where
  "discretionary r \<longleftrightarrow> reason_spec r = Some True"

definition LIVE_STATUSES :: "jstr list" where
  "LIVE_STATUSES = [js ''REGISTERED'', js ''APPLICATION'', js ''PENDING'', js ''FILED'', js ''PUBLISHED'', js ''OPPOSED'']"

definition isLive :: "unicode \<Rightarrow> json option \<Rightarrow> bool" where
  "isLive u s \<longleftrightarrow> to_upper u (js_trim (string_or s [])) \<in> set LIVE_STATUSES"

definition class_of :: "json \<Rightarrow> int option" where
  "class_of c =
     (case number_text (js_trim (string_or (Some c) [])) of Some n \<Rightarrow> if 1 \<le> n \<and> n \<le> 45 then Some n else None | None \<Rightarrow> None)"

definition asClassSet :: "json option \<Rightarrow> int list" where
  "asClassSet v = set_of (List.map_filter class_of (elems v))"

definition sharedClasses :: "json option \<Rightarrow> json option \<Rightarrow> int list" where
  "sharedClasses a b = sort (filter (\<lambda>c. c \<in> set (asClassSet b)) (asClassSet a))"

definition isIdenticalToAppliedMark :: "unicode \<Rightarrow> json option \<Rightarrow> json list \<Rightarrow> bool" where
  "isIdenticalToAppliedMark u recordMark appliedMarks \<longleftrightarrow>
     (let k = markKey u recordMark in k \<noteq> [] \<and> list_ex (\<lambda>m. markKey u (Some m) = k) appliedMarks)"

definition applied_marks :: "json option \<Rightarrow> json list" where
  "applied_marks scope =
     (case member (js ''marks'') scope of
        Some (JArr ms) \<Rightarrow> ms
      | Some m \<Rightarrow> if truthy (Some m) then [m] else []
      | None \<Rightarrow> [])"

section \<open>Refusals\<close>

datatype declination_fault =
    OverLimit | NotOffered | OneDecisionPerRecord | NotAReason | GroundsAbsent | GroundsShort | GroundsEchoReason
  | GoodsIncomplete | IdenticalMark | NoRoom

definition MIN_GROUNDS :: nat where "MIN_GROUNDS = 20"

definition groundsProblem :: "unicode \<Rightarrow> jstr \<Rightarrow> jstr \<Rightarrow> declination_fault option" where
  "groundsProblem u grounds reason =
     (let g = js_trim grounds; key = (\<lambda>s. markKey u (Some (JStr s))) in
      if g = [] then Some GroundsAbsent
      else if length g < MIN_GROUNDS then Some GroundsShort
      else if key g = key reason \<or> key g = key (map (\<lambda>c. if c = 45 then 32 else c) reason) then Some GroundsEchoReason
      else None)"

text \<open>One record: its mark, status, classes and goods.\<close>

record judged =
  jd_mark :: "json option"
  jd_status :: "json option"
  jd_classes :: "json option"
  jd_goods :: "json option"

definition record_clash :: "unicode \<Rightarrow> jstr \<Rightarrow> judged \<Rightarrow> json option \<Rightarrow> declination_fault option" where
  "record_clash u reason r scope =
     (let shared = sharedClasses (jd_classes r) (member (js ''classes'') scope) in
      if isIdenticalToAppliedMark u (jd_mark r) (applied_marks scope) \<and> isLive u (jd_status r) \<and> shared \<noteq> []
      then if reason = js ''unrelated-goods''
           then if jd_goods r = Some (JStr (js ''complete'')) then None else Some GoodsIncomplete
           else Some IdenticalMark
      else if reason = js ''not-worth-the-line'' \<and> isLive u (jd_status r) \<and> shared \<noteq> [] then Some NoRoom
      else None)"

definition row_record :: "json option \<Rightarrow> judged" where
  "row_record row =
     \<lparr> jd_mark = member (js ''mark'') row, jd_status = member (js ''status'') row,
       jd_classes = member (js ''classes'') row, jd_goods = member (js ''goods'') row \<rparr>"

definition member_record :: "json option \<Rightarrow> json \<Rightarrow> judged" where
  "member_record row m =
     \<lparr> jd_mark = orelse (member (js ''mark'') (Some m)) (member (js ''mark'') row),
       jd_status = orelse (member (js ''status'') (Some m)) (Some JNull),
       jd_classes = orelse (member (js ''classes'') (Some m)) (Some (JArr [])),
       jd_goods = orelse (member (js ''goods'') (Some m)) (Some JNull) \<rparr>"

definition records_of :: "json option \<Rightarrow> judged list" where
  "records_of row =
     (case elems (member (js ''members'') row) of [] \<Rightarrow> [row_record row] | ms \<Rightarrow> map (member_record row) ms)"

definition contradictionFor :: "unicode \<Rightarrow> jstr \<Rightarrow> json option \<Rightarrow> json option \<Rightarrow> declination_fault option" where
  "contradictionFor u reason row scope =
     (if \<not> discretionary reason then None
      else case List.map_filter (\<lambda>r. record_clash u reason r scope) (records_of row) of [] \<Rightarrow> None | f # _ \<Rightarrow> Some f)"

section \<open>A call\<close>

definition PAGE_KEY_PREFIX :: jstr where "PAGE_KEY_PREFIX = js ''page:''"

definition page_text :: "json option \<Rightarrow> jstr option" where
  "page_text v = (case v of Some (JStr s) \<Rightarrow> if s = [] then None else Some s | _ \<Rightarrow> None)"

definition isPageRow :: "json option \<Rightarrow> bool" where
  "isPageRow row \<longleftrightarrow> member (js ''kind'') row = Some (JStr (js ''page'')) \<and> page_text (member (js ''page'') row) \<noteq> None"

text \<open>\<open>v ?? null\<close>.\<close>

definition or_nil :: "json option \<Rightarrow> json" where
  "or_nil v = (case v of Some j \<Rightarrow> j | None \<Rightarrow> JNull)"

definition row_page :: "json option \<Rightarrow> (jstr \<times> json) option" where
  "row_page row =
     (if isPageRow row
      then map_option (\<lambda>p. (p, or_nil (member (js ''url'') row))) (page_text (member (js ''page'') row)) else None)"

definition rowKey :: "json option \<Rightarrow> json" where
  "rowKey row =
     (case row_page row of Some (p, _) \<Rightarrow> JStr (PAGE_KEY_PREFIX @ p) | None \<Rightarrow> or_nil (member (js ''uri'') row))"

record decision =
  dn_row :: nat
  dn_uri :: json
  dn_page :: "(jstr \<times> json) option"
  dn_mark :: json
  dn_owner :: json
  dn_reason :: jstr
  dn_grounds :: jstr

record refused_decision =
  rd_row :: "int option"
  rd_uri :: json
  rd_why :: declination_fault

record open_row =
  op_row :: nat
  op_uri :: json
  op_page :: "(jstr \<times> json) option"
  op_mark :: json
  op_owner :: json

definition offered_at :: "json list \<Rightarrow> int option \<Rightarrow> nat option" where
  "offered_at rows i = (case i of Some n \<Rightarrow> if 0 \<le> n \<and> n < int (length rows) then Some (nat n) else None | None \<Rightarrow> None)"

definition refused_as :: "json list \<Rightarrow> int option \<Rightarrow> declination_fault \<Rightarrow> refused_decision" where
  "refused_as rows i why =
     \<lparr> rd_row = i, rd_uri = (case offered_at rows i of Some n \<Rightarrow> rowKey (Some (rows ! n)) | None \<Rightarrow> JNull), rd_why = why \<rparr>"

text \<open>\<open>Number.isInteger\<close>.\<close>

definition row_index :: "json \<Rightarrow> int option" where
  "row_index d = (case member (js ''row_index'') (Some d) of Some (JNum n) \<Rightarrow> Some n | _ \<Rightarrow> None)"

definition decide :: "unicode \<Rightarrow> json list \<Rightarrow> json option \<Rightarrow> nat list \<Rightarrow> json \<Rightarrow> refused_decision + decision" where
  "decide u rows scope claimed d =
     (let i = row_index d; no = (\<lambda>why. Inl (refused_as rows i why));
          reason = js_trim (string_or (member (js ''reason'') (Some d)) []);
          grounds = js_trim (string_or (member (js ''grounds'') (Some d)) []) in
      case offered_at rows i of
        None \<Rightarrow> no NotOffered
      | Some n \<Rightarrow>
          if n \<in> set claimed then no OneDecisionPerRecord
          else if reason_spec reason = None then no NotAReason
          else (case groundsProblem u grounds reason of
            Some why \<Rightarrow> no why
          | None \<Rightarrow> (case contradictionFor u reason (Some (rows ! n)) scope of
              Some why \<Rightarrow> no why
            | None \<Rightarrow>
                Inr \<lparr> dn_row = n, dn_uri = or_nil (member (js ''uri'') (Some (rows ! n))),
                      dn_page = row_page (Some (rows ! n)), dn_mark = or_nil (member (js ''mark'') (Some (rows ! n))),
                      dn_owner = or_nil (member (js ''owner'') (Some (rows ! n))), dn_reason = reason, dn_grounds = grounds \<rparr>)))"

fun decide_all :: "unicode \<Rightarrow> json list \<Rightarrow> json option \<Rightarrow> nat list \<Rightarrow> json list \<Rightarrow> refused_decision list \<times> decision list" where
  "decide_all u rows scope claimed [] = ([], [])"
| "decide_all u rows scope claimed (d # ds) =
     (case decide u rows scope claimed d of
        Inl r \<Rightarrow> (case decide_all u rows scope claimed ds of (rs, as) \<Rightarrow> (r # rs, as))
      | Inr a \<Rightarrow> (case decide_all u rows scope (dn_row a # claimed) ds of (rs, as) \<Rightarrow> (rs, a # as)))"

record declination_verdict =
  dv_accepted :: "decision list"
  dv_refused :: "refused_decision list"
  dv_open :: "open_row list"
  dv_offered :: nat

definition open_at :: "json list \<Rightarrow> nat \<Rightarrow> open_row" where
  "open_at rows i =
     \<lparr> op_row = i, op_uri = or_nil (member (js ''uri'') (Some (rows ! i))), op_page = row_page (Some (rows ! i)),
       op_mark = or_nil (member (js ''mark'') (Some (rows ! i))), op_owner = or_nil (member (js ''owner'') (Some (rows ! i))) \<rparr>"

definition acceptDeclinationCall :: "unicode \<Rightarrow> json list \<Rightarrow> json option \<Rightarrow> json option \<Rightarrow> declination_verdict" where
  "acceptDeclinationCall u rows scope received =
     (let sent = elems (member (js ''declinations'') received);
          over = map (\<lambda>d. refused_as rows (row_index d) OverLimit) (drop MAX_DECLINATIONS_PER_CALL sent) in
      case decide_all u rows scope [] (take MAX_DECLINATIONS_PER_CALL sent) of
        (refused, accepted) \<Rightarrow>
          \<lparr> dv_accepted = accepted, dv_refused = over @ refused,
            dv_open = map (open_at rows) (filter (\<lambda>i. i \<notin> set (map dn_row accepted)) [0..<length rows]),
            dv_offered = length rows \<rparr>)"

section \<open>The ledger\<close>

text \<open>\<open>normalizeRecordUri\<close>: \<open>/\/mark\/[a-z]{2,6}\/[a-z0-9][a-z0-9_-]*/i\<close>, lowered.\<close>

definition letter :: "unit16 \<Rightarrow> bool" where "letter c \<longleftrightarrow> is_upper c \<or> is_lower c"
definition mark_tail :: "unit16 \<Rightarrow> bool" where "mark_tail c \<longleftrightarrow> letter c \<or> is_digit c \<or> c = 95 \<or> c = 45"

definition MARK_PATH :: rx where
  "MARK_PATH =
     seqs [lit_i ''/mark/'', between 2 6 (Cls letter), lit ''/'', Cls (\<lambda>c. letter c \<or> is_digit c), Many (Cls mark_tail)]"

definition normalizeRecordUri :: "json option \<Rightarrow> jstr" where
  "normalizeRecordUri src =
     (case exec MARK_PATH None (js_trim (string_or src [])) of Some (_, m, _) \<Rightarrow> map low1 m | None \<Rightarrow> [])"

definition declinationKey :: "json \<Rightarrow> jstr" where
  "declinationKey k =
     (let s = js_trim (string_or (Some k) []) in
      if starts_with PAGE_KEY_PREFIX s then s else normalizeRecordUri (Some (JStr s)))"

text \<open>The findings a ground cites (\<open>driver/finding-citations.mjs\<close>).\<close>

definition comma_or_dash :: rx where
  "comma_or_dash = Alt (chr 44) (Alt (lit_i ''and'') (Alt (chr 38) (Alt (lit_i ''or'') (Alt (chr 8211) (chr 45)))))"

definition cited_list :: rx where
  "cited_list =
     seqs [Cap 1 (between 1 4 digit),
           Cap 2 (Many (seqs [Many space, comma_or_dash, Many space, opt (chr 35), between 1 4 digit, NotAhead (Cls re_word_char)])),
           NotAhead (Cls re_word_char)]"

definition finding_word :: rx where
  "finding_word =
     seqs [WordB, lit_i ''finding'', opt (lit_i ''s''), many1 space,
           opt (Alt (seqs [lit_i ''no'', opt (chr 46), Many space]) (seqs [lit_i ''number'', many1 space])), opt (chr 35)]"

definition WORD_ONLY :: rx where "WORD_ONLY = Seq finding_word cited_list"

definition WITH_BARE :: rx where
  "WITH_BARE =
     Seq (Alt finding_word (Seq (NotBehind (\<lambda>c. re_word_char c \<or> c \<in> {35, 47, 38, 61, 45})) (chr 35))) cited_list"

definition cited_part :: rx where
  "cited_part =
     seqs [Cap 1 (Alt (Cls (\<lambda>c. c \<in> {44, 38, 8211, 45})) (Alt (lit_i ''and'') (lit_i ''or''))),
           Many space, opt (chr 35), Cap 2 (between 1 4 digit)]"

definition add_number :: "nat \<Rightarrow> nat list \<Rightarrow> nat list" where
  "add_number n out = (if 0 < n \<and> n \<notin> set out then out @ [n] else out)"

definition cite_part :: "(jstr \<times> (nat \<times> jstr) list) \<Rightarrow> nat list \<times> nat \<Rightarrow> nat list \<times> nat" where
  "cite_part m acc =
     (case acc of (out, prev) \<Rightarrow>
        let sep = group 1 (snd m); n = number_of (group 2 (snd m)) in
        (add_number n
          (if (8211 \<in> set sep \<or> 45 \<in> set sep) \<and> prev < n \<and> n - prev \<le> 50 then fold add_number [Suc prev..<n] out else out), n))"

definition cite_match :: "(jstr \<times> (nat \<times> jstr) list) \<Rightarrow> nat list \<Rightarrow> nat list" where
  "cite_match m out =
     (let n = number_of (group 1 (snd m)) in
      fst (fold cite_part (matchAll cited_part (group 2 (snd m))) (add_number n out, n)))"

definition citedFindingNumbers :: "jstr \<Rightarrow> bool \<Rightarrow> nat list" where
  "citedFindingNumbers t bare = fold cite_match (matchAll (if bare then WITH_BARE else WORD_ONLY) t) []"

definition groundCites :: "jstr \<Rightarrow> (jstr \<times> json) list" where
  "groundCites grounds =
     (let cites = citedFindingNumbers grounds False in
      if cites = [] then [] else [(js ''cites'', JArr (map (\<lambda>n. JNum (int n)) cites))])"

text \<open>What is on file: whether a ledger could be read, the decisions on records and those on pages.\<close>

record declined =
  dl_present :: bool
  dl_byUri :: "(jstr \<times> json) list"
  dl_byPage :: "(jstr \<times> json) list"

definition file_decision :: "json \<Rightarrow> (jstr \<times> json) list \<times> (jstr \<times> json) list \<Rightarrow> (jstr \<times> json) list \<times> (jstr \<times> json) list" where
  "file_decision d maps =
     (case page_text (member (js ''page'') (Some d)) of
        Some p \<Rightarrow> (fst maps, AList.update p d (snd maps))
      | None \<Rightarrow>
          let k = normalizeRecordUri (member (js ''uri'') (Some d)) in
          if k = [] then maps else (AList.update k d (fst maps), snd maps))"

definition readDeclinations :: "json option \<Rightarrow> declined" where
  "readDeclinations ledger =
     (case ledger of
        None \<Rightarrow> \<lparr> dl_present = False, dl_byUri = [], dl_byPage = [] \<rparr>
      | Some raw \<Rightarrow>
          (case fold file_decision (elems (member (js ''declinations'') (Some raw))) ([], []) of
             (byUri, byPage) \<Rightarrow> \<lparr> dl_present = True, dl_byUri = byUri, dl_byPage = byPage \<rparr>))"

definition dl_count :: "declined \<Rightarrow> nat" where
  "dl_count d = length (dl_byUri d) + length (dl_byPage d)"

definition keep_field :: "string \<Rightarrow> json option \<Rightarrow> (jstr \<times> json) list" where
  "keep_field k v = (case v of Some j \<Rightarrow> [(js k, j)] | None \<Rightarrow> [])"

definition superseded :: "json option \<Rightarrow> (jstr \<times> json) list" where
  "superseded was =
     (if truthy was
      then [(js ''supersedes'', JObj (keep_field ''reason'' (member (js ''reason'') was) @ keep_field ''grounds'' (member (js ''grounds'') was)
              @ keep_field ''recordedAt'' (member (js ''recordedAt'') was)))]
      else [])"

definition ledger_entry :: "jstr \<Rightarrow> jstr \<Rightarrow> decision \<Rightarrow> json option \<Rightarrow> json" where
  "ledger_entry now k a was =
     JObj ((case dn_page a of
              Some (p, url) \<Rightarrow> [(js ''page'', JStr p), (js ''url'', url)]
            | None \<Rightarrow> [(js ''uri'', JStr k)])
       @ [(js ''mark'', dn_mark a), (js ''owner'', dn_owner a), (js ''reason'', JStr (dn_reason a)),
          (js ''grounds'', JStr (dn_grounds a))]
       @ groundCites (dn_grounds a) @ [(js ''recordedAt'', JStr now)] @ superseded was)"

definition decision_key :: "decision \<Rightarrow> jstr" where
  "decision_key a =
     (case dn_page a of Some (p, _) \<Rightarrow> PAGE_KEY_PREFIX @ p | None \<Rightarrow> normalizeRecordUri (Some (dn_uri a)))"

definition merge_decision :: "jstr \<Rightarrow> decision \<Rightarrow> (jstr \<times> json) list \<Rightarrow> (jstr \<times> json) list" where
  "merge_decision now a m =
     (let k = decision_key a in
      if k = [] then m else AList.update k (ledger_entry now k a (map_of m k)) m)"

definition on_file :: "declined \<Rightarrow> (jstr \<times> json) list" where
  "on_file d = fold (\<lambda>(p, e). AList.update (PAGE_KEY_PREFIX @ p) e) (dl_byPage d) (dl_byUri d)"

definition appendDeclinations :: "jstr \<Rightarrow> decision list \<Rightarrow> json option \<Rightarrow> json \<times> nat" where
  "appendDeclinations now accepted ledger =
     (let m = fold (merge_decision now) accepted (on_file (readDeclinations ledger)) in
      (JObj [(js ''ts'', JStr now), (js ''count'', JNum (int (length m))), (js ''declinations'', JArr (map snd m))], length m))"

section \<open>The tool\<close>

record declination_state =
  ds_ledger :: "json option"
  ds_verdicts :: "jstr list list"

record declination_answer =
  da_verdict :: declination_verdict
  da_still_open :: "open_row list"
  da_parked :: "jstr list"
  da_parked_now :: "jstr list"
  da_recorded_total :: nat

definition open_key :: "open_row \<Rightarrow> jstr" where
  "open_key r = declinationKey (case op_page r of Some (p, _) \<Rightarrow> JStr (PAGE_KEY_PREFIX @ p) | None \<Rightarrow> op_uri r)"

text \<open>What the files do to a call: the ledger can be read, what becomes of its rewrite, the verdict is appended.\<close>

record call_io =
  io_read :: bool
  io_ledger :: disk_write
  io_verdict :: bool

text \<open>The answer says that every row now carries a decision exactly when \<open>da_still_open\<close> is empty. A ledger that cannot be
  read is merged into as if there were none, and is rewritten all the same; a torn one reads as none ever after.\<close>

definition recordDeclinations ::
  "unicode \<Rightarrow> jstr \<Rightarrow> call_io \<Rightarrow> json list \<Rightarrow> json option \<Rightarrow> json option \<Rightarrow> declination_state
     \<Rightarrow> declination_answer \<times> declination_state" where
  "recordDeclinations u now ok rows scope received s =
     (let decided = acceptDeclinationCall u rows scope received;
          prior = (if io_read ok then ds_ledger s else None);
          stored = appendDeclinations now (dv_accepted decided) prior;
          inFlight = map (\<lambda>r. declinationKey (rd_uri r)) (dv_refused decided);
          allVerdicts = ds_verdicts s @ [inFlight];
          parked = parkedIds allVerdicts in
      (\<lparr> da_verdict = decided,
         da_still_open = filter (\<lambda>r. open_key r \<notin> set parked) (dv_open decided),
         da_parked = parked,
         da_parked_now = filter (\<lambda>k. k \<in> set inFlight) parked,
         da_recorded_total =
           (if dv_accepted decided = [] then dl_count (readDeclinations prior) else if io_ledger ok = Wrote then snd stored else 0) \<rparr>,
       \<lparr> ds_ledger = (if dv_accepted decided = [] then ds_ledger s else after_write (io_ledger ok) (fst stored) (ds_ledger s)),
         ds_verdicts = (if io_verdict ok then allVerdicts else ds_verdicts s) \<rparr>))"

text \<open>What the report's trace is told of a record that was not delivered.\<close>

datatype seam_reason = StepStated json json | StatedByNone bool

definition seamReasonFor :: "declined \<Rightarrow> jstr \<Rightarrow> seam_reason" where
  "seamReasonFor d k =
     (case map_of (dl_byUri d) k of
        Some e \<Rightarrow> if truthy (Some e) then StepStated (or_nil (member (js ''reason'') (Some e))) (or_nil (member (js ''grounds'') (Some e)))
          else StatedByNone (dl_present d)
      | None \<Rightarrow> StatedByNone (dl_present d))"

end
