(* ===== verification/DeclinationLedger.thy ===== *)
theory DeclinationLedger
  imports Declination
begin

text \<open>What the ledger of declinations keeps: an address is read whole and is its own address, what is written is read
  back under the same keys, and the last decision on a key is the one on file.\<close>

section \<open>The address of a record\<close>

text \<open>What the expression of an address matches.\<close>

definition mark_uri :: "jstr \<Rightarrow> bool" where
  "mark_uri w \<longleftrightarrow>
     (\<exists>h l a t. w = h @ l @ 47 # a # t \<and> map low1 h = js ''/mark/'' \<and> 2 \<le> length l \<and> length l \<le> 6 \<and> list_all letter l
        \<and> (letter a \<or> is_digit a) \<and> list_all mark_tail t)"


lemma reads_lit_slash: "reads (lit ''/'') (\<lambda>x. x = [47])"
proof -
  have "lit ''/'' = Seq (Cls (\<lambda>x. x = 47)) Emp" by (simp add: lit_def chr_def)
  then show ?thesis using reads_mono[OF reads_Seq[OF reads_Cls reads_Emp], of "\<lambda>x. x = 47" "\<lambda>x. x = [47]"] by auto
qed

lemma low1_mark: "map low1 (js ''/mark/'') = js ''/mark/''"
  by (simp add: low1_def is_upper_def)

lemma reads_MARK_PATH: "reads MARK_PATH mark_uri"
proof -
  have r: "reads MARK_PATH (\<lambda>x. \<exists>h x1. x = h @ x1 \<and> map low1 h = map low1 (js ''/mark/'') \<and>
      (\<exists>l x2. x1 = l @ x2 \<and> (2 \<le> length l \<and> length l \<le> 2 + (6 - 2) \<and> list_all letter l) \<and>
      (\<exists>y x3. x2 = y @ x3 \<and> y = [47] \<and> (\<exists>z x4. x3 = z @ x4 \<and> (\<exists>a. z = [a] \<and> (letter a \<or> is_digit a)) \<and>
      (\<exists>t x5. x4 = t @ x5 \<and> list_all mark_tail t \<and> x5 = [])))))"
    unfolding MARK_PATH_def seqs_def foldr.simps comp_apply id_apply
    by (intro reads_Seq reads_lit_i reads_between reads_lit_slash reads_Cls reads_Many reads_Emp)
  show ?thesis
  proof (rule reads_mono[OF r])
    fix x assume "\<exists>h x1. x = h @ x1 \<and> map low1 h = map low1 (js ''/mark/'') \<and>
      (\<exists>l x2. x1 = l @ x2 \<and> (2 \<le> length l \<and> length l \<le> 2 + (6 - 2) \<and> list_all letter l) \<and>
      (\<exists>y x3. x2 = y @ x3 \<and> y = [47] \<and> (\<exists>z x4. x3 = z @ x4 \<and> (\<exists>a. z = [a] \<and> (letter a \<or> is_digit a)) \<and>
      (\<exists>t x5. x4 = t @ x5 \<and> list_all mark_tail t \<and> x5 = []))))"
    then obtain h l a t where "x = h @ l @ [47] @ [a] @ t @ []" "map low1 h = map low1 (js ''/mark/'')" "2 \<le> length l"
      "length l \<le> 2 + (6 - 2)" "list_all letter l" "letter a \<or> is_digit a" "list_all mark_tail t" by blast
    then have "x = h @ l @ 47 # a # t \<and> map low1 h = js ''/mark/'' \<and> 2 \<le> length l \<and> length l \<le> 6 \<and> list_all letter l
        \<and> (letter a \<or> is_digit a) \<and> list_all mark_tail t" unfolding low1_mark by simp
    then show "mark_uri x" unfolding mark_uri_def by blast
  qed
qed

text \<open>An address is read whole, and it is its own address.\<close>

lemma ways_lit_i:
  "map low1 x = map low1 (js t) \<Longrightarrow> \<exists>b'. ways (lit_i t) (b, x @ s, g) = [(b', s, g)]"
proof (induction t arbitrary: x b)
  case Nil
  then show ?case by (simp add: lit_i_def)
next
  case (Cons c t)
  then obtain y ys where x: "x = y # ys" "low1 y = low1 (of_char c)" "map low1 ys = map low1 (js t)" by (cases x) auto
  have "lit_i (c # t) = Seq (Cls (\<lambda>x. low1 x = low1 (of_char c))) (lit_i t)" by (simp add: lit_i_def)
  then show ?case using Cons.IH[OF x(3), of "Some y"] x by simp
qed

lemma up_to_then:
  assumes F: "\<And>q c cs. fst (snd q) = c # cs \<Longrightarrow> P c \<Longrightarrow> F q = []"
  shows "length l \<le> n \<Longrightarrow> list_all P l \<Longrightarrow> \<not> P c \<Longrightarrow>
     \<exists>b'. concat (map F (ways (up_to n (Cls P)) (b, l @ c # s, g))) = F (b', c # s, g)"
proof (induction n arbitrary: l b)
  case (Suc n)
  show ?case
  proof (cases l)
    case (Cons y ys)
    then show ?thesis using Suc.IH[of ys "Some y"] Suc.prems F[of "(b, l @ c # s, g)" y "ys @ c # s"] by auto
  qed (use Suc.prems in auto)
qed auto

lemma exactly_then:
  assumes F: "\<And>q c cs. fst (snd q) = c # cs \<Longrightarrow> P c \<Longrightarrow> F q = []"
  shows "m \<le> length l \<Longrightarrow> length l \<le> m + n \<Longrightarrow> list_all P l \<Longrightarrow> \<not> P c \<Longrightarrow>
     \<exists>b'. concat (map F (ways (foldr Seq (replicate m (Cls P)) (up_to n (Cls P))) (b, l @ c # s, g))) = F (b', c # s, g)"
proof (induction m arbitrary: l b)
  case 0
  then show ?case using up_to_then[OF F, where l = l and n = n] by simp
next
  case (Suc m)
  then obtain y ys where "l = y # ys" by (cases l) auto
  then show ?case using Suc.IH[of ys "Some y"] Suc.prems by simp
qed

lemma many_whole:
  "list_all P t \<Longrightarrow> length t \<le> n \<Longrightarrow> \<exists>b' qs. rounds True n (ways (Cls P)) (b, t, g) = (b', [], g) # qs"
proof (induction n arbitrary: t b)
  case (Suc n)
  show ?case
  proof (cases t)
    case (Cons y ys)
    then have t: "list_all P ys" "length ys \<le> n" "P y" using Suc.prems by auto
    obtain b' qs where h: "rounds True n (ways (Cls P)) (Some y, ys, g) = (b', [], g) # qs"
      using Suc.IH[OF t(1,2), of "Some y"] by blast
    have "ways (Cls P) (b, y # ys, g) = [(Some y, ys, g)]" using t(3) by simp
    then show ?thesis using Cons h by (simp add: progress_def del: ways.simps)
  qed simp
qed auto

lemma MARK_PATH_whole:
  assumes "mark_uri w"
  shows "\<exists>p qs. ways MARK_PATH (None, w, []) = p # qs \<and> fst (snd p) = []"
proof -
  obtain h l a t where w: "w = h @ l @ 47 # a # t" and h: "map low1 h = js ''/mark/''" and l: "2 \<le> length l" "length l \<le> 6"
    and ll: "list_all letter l" and a: "letter a \<or> is_digit a" and t: "list_all mark_tail t"
    using assms unfolding mark_uri_def by blast
  let ?tail = "Seq (Cls (\<lambda>c. letter c \<or> is_digit c)) (Seq (Many (Cls mark_tail)) Emp)"
  let ?F = "ways (Seq (lit ''/'') ?tail)"
  have slash: "\<not> letter 47" by (simp add: letter_def is_upper_def is_lower_def)
  have lit: "lit ''/'' = Seq (Cls (\<lambda>x. x = 47)) Emp" by (simp add: lit_def chr_def)
  obtain b where b: "ways (lit_i ''/mark/'') (None, w, []) = [(b, l @ 47 # a # t, [])]"
    using ways_lit_i[of h "''/mark/''" None "l @ 47 # a # t" "[]"] h w unfolding low1_mark by blast
  have F: "?F q = []" if "fst (snd q) = c # cs" "letter c" for q c cs
    using that slash by (cases q) (auto simp: lit)
  have "\<exists>b'. concat (map ?F (ways (between 2 6 (Cls letter)) (b, l @ 47 # a # t, []))) = ?F (b', 47 # a # t, [])"
    unfolding between_def by (rule exactly_then) (use F l ll slash in \<open>simp_all del: ways.simps\<close>)
  then obtain b' where b': "concat (map ?F (ways (between 2 6 (Cls letter)) (b, l @ 47 # a # t, []))) = ?F (b', 47 # a # t, [])" ..
  obtain b'' qs where m: "rounds True (length t) (ways (Cls mark_tail)) (Some a, t, []) = (b'', [], []) # qs"
    using many_whole[OF t, of "length t" "Some a" "[]"] by auto
  have "ways MARK_PATH (None, w, []) = concat (map ?F (ways (between 2 6 (Cls letter)) (b, l @ 47 # a # t, [])))"
    unfolding MARK_PATH_def seqs_def foldr.simps comp_apply id_apply ways.simps(3)[of "lit_i ''/mark/''"] b
    by (simp only: ways.simps(3) list.map concat.simps append_Nil2)
  also have "\<dots> = concat (map (ways (Seq (Many (Cls mark_tail)) Emp)) [(Some a, t, [])])"
    unfolding b' using a by (simp add: lit del: ways.simps(3) ways.simps(5)) (simp add: lit del: ways.simps(5))
  finally have "ways MARK_PATH (None, w, []) = (b'', [], []) # concat (map (ways Emp) qs)"
    using m by (simp del: ways.simps(2))
  then show ?thesis by auto
qed

lemma mark_uri_tight: "mark_uri w \<Longrightarrow> js_trim w = w"
proof -
  assume "mark_uri w"
  then obtain h l a t where w: "w = h @ l @ 47 # a # t" and h: "map low1 h = js ''/mark/''"
    and a: "letter a \<or> is_digit a" and t: "list_all mark_tail t" unfolding mark_uri_def by blast
  have tail: "\<not> is_space c" if "mark_tail c" for c
    using that by (auto simp: mark_tail_def letter_def is_upper_def is_lower_def is_digit_def is_space_def)
  obtain c cs where c: "h = c # cs" "low1 c = 47" using h by (cases h) auto
  have "\<not> is_space (hd w)"
    using w c by (auto simp: low1_def is_upper_def is_space_def split: if_splits)
  moreover have "mark_tail (last w)"
    using w a t by (auto simp: mark_tail_def list_all_iff)
  ultimately show ?thesis using trim_tight[of w] tail w by simp
qed

lemma normalizeRecordUri_mark: "mark_uri w \<Longrightarrow> normalizeRecordUri (Some (JStr w)) = map low1 w"
proof -
  assume w: "mark_uri w"
  obtain p qs where "ways MARK_PATH (None, w, []) = p # qs" "fst (snd p) = []" using MARK_PATH_whole[OF w] by blast
  then have "exec MARK_PATH None w = Some ([], w, p)" by (subst exec.simps) simp
  then show ?thesis using mark_uri_tight[OF w] by (simp add: normalizeRecordUri_def)
qed

lemma normalizeRecordUri_shape: "normalizeRecordUri v = [] \<or> (\<exists>w. mark_uri w \<and> normalizeRecordUri v = map low1 w)"
proof (cases "exec MARK_PATH None (js_trim (string_or v []))")
  case (Some r)
  obtain x m p where r: "exec MARK_PATH None (js_trim (string_or v [])) = Some (x, m, p)" using Some by (cases r) auto
  have "mark_uri m" using exec_reads[OF reads_MARK_PATH r] .
  then show ?thesis using r by (auto simp: normalizeRecordUri_def)
qed (simp add: normalizeRecordUri_def)

lemma normalizeRecordUri_empty [simp]: "normalizeRecordUri (Some (JStr [])) = []"
proof (rule ccontr)
  assume "normalizeRecordUri (Some (JStr [])) \<noteq> []"
  then obtain x m p where "exec MARK_PATH None [] = Some (x, m, p)"
    by (auto simp: normalizeRecordUri_def split: option.splits)
  from exec_splits[OF this] exec_reads[OF reads_MARK_PATH this] show False by (auto simp: mark_uri_def)
qed

lemma low1_letter [simp]: "letter (low1 c) = letter c" "is_digit (low1 c) = is_digit c"
  by (auto simp: letter_def low1_def is_upper_def is_lower_def is_digit_def)

lemma low1_tail [simp]: "mark_tail (low1 c) = mark_tail c"
  unfolding mark_tail_def low1_letter by (auto simp: letter_def low1_def is_upper_def is_lower_def is_digit_def)

lemma mark_uri_low: "mark_uri w \<Longrightarrow> mark_uri (map low1 w)"
proof -
  assume "mark_uri w"
  then obtain h l a t where w: "w = h @ l @ 47 # a # t" "map low1 h = js ''/mark/''" "2 \<le> length l" "length l \<le> 6"
    "list_all letter l" "letter a \<or> is_digit a" "list_all mark_tail t" unfolding mark_uri_def by blast
  have "low1 47 = 47" by (simp add: low1_def is_upper_def)
  then have "map low1 w = map low1 h @ map low1 l @ 47 # low1 a # map low1 t" using w(1) by simp
  moreover have "map low1 (map low1 h) = js ''/mark/''" using w(2) low1_mark by metis
  ultimately show ?thesis unfolding mark_uri_def using w(3-)
    by (intro exI[of _ "map low1 h"] exI[of _ "map low1 l"] exI[of _ "low1 a"] exI[of _ "map low1 t"]) (simp add: list_all_iff)
qed

lemma normalizeRecordUri_idem [simp]: "normalizeRecordUri (Some (JStr (normalizeRecordUri v))) = normalizeRecordUri v"
  using normalizeRecordUri_shape[of v]
proof
  assume "normalizeRecordUri v = []"
  then show ?thesis by simp
next
  assume "\<exists>w. mark_uri w \<and> normalizeRecordUri v = map low1 w"
  then obtain w where w: "mark_uri w" "normalizeRecordUri v = map low1 w" by blast
  have "map low1 (map low1 w) = map low1 w" by simp
  then show ?thesis using normalizeRecordUri_mark[OF mark_uri_low[OF w(1)]] w(2) by simp
qed

lemma normalizeRecordUri_not_page: "\<not> starts_with PAGE_KEY_PREFIX (normalizeRecordUri v)"
  using normalizeRecordUri_shape[of v] by (auto simp: PAGE_KEY_PREFIX_def mark_uri_def)

section \<open>Keys\<close>

abbreviation page_key :: "jstr \<Rightarrow> bool" where "page_key k \<equiv> starts_with PAGE_KEY_PREFIX k"

lemma page_key_iff: "page_key k \<longleftrightarrow> (\<exists>p. k = PAGE_KEY_PREFIX @ p)"
  by (simp add: starts_with_iff)

lemma not_page_key: "\<not> page_key k \<Longrightarrow> k \<noteq> PAGE_KEY_PREFIX @ p"
  by (auto simp: page_key_iff)

text \<open>An entry is filed under its key.\<close>

definition filed :: "jstr \<times> json \<Rightarrow> bool" where
  "filed ke \<longleftrightarrow>
     (case page_text (member (js ''page'') (Some (snd ke))) of
        Some p \<Rightarrow> fst ke = PAGE_KEY_PREFIX @ p
      | None \<Rightarrow> fst ke \<noteq> [] \<and> normalizeRecordUri (member (js ''uri'') (Some (snd ke))) = fst ke)"

lemma filed_page: "filed (k, e) \<Longrightarrow> page_key k \<longleftrightarrow> page_text (member (js ''page'') (Some e)) \<noteq> None"
  using normalizeRecordUri_not_page by (auto simp: filed_def page_key_iff starts_with_iff split: option.splits)

lemma file_decision_page:
  "filed (PAGE_KEY_PREFIX @ p, e) \<Longrightarrow> file_decision e maps = (fst maps, AList.update p e (snd maps))"
  using filed_page[of "PAGE_KEY_PREFIX @ p" e] by (auto simp: filed_def file_decision_def page_key_iff split: option.splits)

lemma file_decision_record:
  "filed (k, e) \<Longrightarrow> \<not> page_key k \<Longrightarrow> file_decision e maps = (AList.update k e (fst maps), snd maps)"
  using filed_page[of k e] by (auto simp: filed_def file_decision_def split: option.splits)

text \<open>Reading entries that are filed gives back each under its key.\<close>

lemma read_back:
  assumes "list_all filed m" "distinct (map fst m)"
  shows "(\<not> page_key k \<longrightarrow> map_of (fst (fold file_decision (map snd m) maps)) k
            = (case map_of m k of Some e \<Rightarrow> Some e | None \<Rightarrow> map_of (fst maps) k))
       \<and> map_of (snd (fold file_decision (map snd m) maps)) p
            = (case map_of m (PAGE_KEY_PREFIX @ p) of Some e \<Rightarrow> Some e | None \<Rightarrow> map_of (snd maps) p)"
  using assms
proof (induction m arbitrary: maps)
  case (Cons x m)
  obtain k' e where x: "x = (k', e)" by (cases x)
  have f: "filed (k', e)" and m: "list_all filed m" "distinct (map fst m)" and new: "map_of m k' = None"
    using Cons.prems x by (auto simp: map_of_eq_None_iff)
  show ?case
  proof (cases "page_key k'")
    case True
    then obtain q where q: "k' = PAGE_KEY_PREFIX @ q" by (auto simp: page_key_iff)
    show ?thesis using Cons.IH[OF m, of "(fst maps, AList.update q e (snd maps))"] file_decision_page[of q e] f x q new
      by (auto simp: update_conv' page_key_iff split: option.splits)
  next
    case False
    then have "k' \<noteq> PAGE_KEY_PREFIX @ p" by (rule not_page_key)
    then show ?thesis using Cons.IH[OF m, of "(AList.update k' e (fst maps), snd maps)"] file_decision_record[OF f False] x new
      by (auto simp: update_conv' split: option.splits)
  qed
qed simp

definition sound_maps :: "(jstr \<times> json) list \<times> (jstr \<times> json) list \<Rightarrow> bool" where
  "sound_maps maps \<longleftrightarrow> list_all filed (fst maps) \<and> list_all (\<lambda>(p, e). filed (PAGE_KEY_PREFIX @ p, e)) (snd maps)
     \<and> distinct (map fst (fst maps)) \<and> distinct (map fst (snd maps)) \<and> list_all (\<lambda>(k, e). \<not> page_key k) (fst maps)"

lemma update_all: "list_all P m \<Longrightarrow> P (k, e) \<Longrightarrow> list_all P (AList.update k e m)"
  by (induction m) auto

lemma file_decision_sound: "sound_maps maps \<Longrightarrow> sound_maps (file_decision d maps)"
proof (cases "page_text (member (js ''page'') (Some d))")
  case None
  let ?k = "normalizeRecordUri (member (js ''uri'') (Some d))"
  assume m: "sound_maps maps"
  show ?thesis
  proof (cases "?k = []")
    case False
    then have "filed (?k, d)" using None by (simp add: filed_def del: js_Cons)
    then show ?thesis using m None False normalizeRecordUri_not_page[of "member (js ''uri'') (Some d)"]
      by (simp add: sound_maps_def file_decision_def distinct_update update_all del: js_Cons)
  qed (use m None in \<open>simp add: file_decision_def del: js_Cons\<close>)
next
  case (Some p)
  then have "filed (PAGE_KEY_PREFIX @ p, d)" by (simp add: filed_def del: js_Cons)
  moreover assume "sound_maps maps"
  ultimately show ?thesis using Some
    by (simp add: sound_maps_def file_decision_def distinct_update update_all del: js_Cons)
qed

lemma fold_file_sound: "sound_maps maps \<Longrightarrow> sound_maps (fold file_decision ds maps)"
  by (induction ds arbitrary: maps) (simp_all add: file_decision_sound)

lemma read_sound: "sound_maps (dl_byUri (readDeclinations l), dl_byPage (readDeclinations l))"
proof (cases l)
  case (Some raw)
  have "sound_maps (fold file_decision (elems (member (js ''declinations'') (Some raw))) ([], []))"
    by (rule fold_file_sound) (simp add: sound_maps_def)
  then show ?thesis using Some by (auto simp: readDeclinations_def split: prod.splits)
qed (simp add: readDeclinations_def sound_maps_def)

section \<open>One table\<close>

lemma on_file_fold:
  assumes "distinct (map fst bp)"
  shows "map_of (fold (\<lambda>(p, e). AList.update (PAGE_KEY_PREFIX @ p) e) bp bu) k
     = (if page_key k then (case map_of bp (drop (length PAGE_KEY_PREFIX) k) of Some e \<Rightarrow> Some e | None \<Rightarrow> map_of bu k) else map_of bu k)"
  using assms
proof (induction bp arbitrary: bu)
  case (Cons x bp)
  obtain p e where x: "x = (p, e)" by (cases x)
  have new: "map_of bp p = None" using Cons.prems x by (auto simp: map_of_eq_None_iff)
  note IH = Cons.IH[of "AList.update (PAGE_KEY_PREFIX @ p) e bu"]
  show ?case
  proof (cases "page_key k")
    case True
    then obtain q where k: "k = PAGE_KEY_PREFIX @ q" by (auto simp: page_key_iff)
    show ?thesis using IH Cons.prems new True unfolding x k
      by (cases "p = q") (simp_all add: update_conv' split: option.splits)
  next
    case False
    then show ?thesis using IH Cons.prems not_page_key[OF False, of p] unfolding x by (simp add: update_conv')
  qed
qed (simp split: option.splits)

definition held :: "json option \<Rightarrow> jstr \<Rightarrow> json option" where
  "held l k = map_of (on_file (readDeclinations l)) k"

lemma held_record: "\<not> page_key k \<Longrightarrow> held l k = map_of (dl_byUri (readDeclinations l)) k"
  using read_sound[of l] by (simp add: held_def on_file_def on_file_fold sound_maps_def)

lemma held_page: "held l (PAGE_KEY_PREFIX @ p) = map_of (dl_byPage (readDeclinations l)) p"
proof -
  have "page_key (PAGE_KEY_PREFIX @ p)" by (simp add: starts_with_iff)
  moreover have "map_of (dl_byUri (readDeclinations l)) (PAGE_KEY_PREFIX @ p) = None"
    using read_sound[of l] calculation unfolding sound_maps_def map_of_eq_None_iff list_all_iff by auto
  ultimately show ?thesis
    using read_sound[of l] by (simp add: held_def on_file_def on_file_fold sound_maps_def split: option.splits)
qed

lemma fold_update_sound:
  "list_all filed bu \<Longrightarrow> distinct (map fst bu) \<Longrightarrow> list_all (\<lambda>(p, e). filed (PAGE_KEY_PREFIX @ p, e)) bp \<Longrightarrow>
     list_all filed (fold (\<lambda>(p, e). AList.update (PAGE_KEY_PREFIX @ p) e) bp bu)
     \<and> distinct (map fst (fold (\<lambda>(p, e). AList.update (PAGE_KEY_PREFIX @ p) e) bp bu))"
proof (induction bp arbitrary: bu)
  case (Cons x bp)
  obtain p e where x: "x = (p, e)" by (cases x)
  have "list_all filed (AList.update (PAGE_KEY_PREFIX @ p) e bu)" "distinct (map fst (AList.update (PAGE_KEY_PREFIX @ p) e bu))"
    using Cons.prems x by (simp_all add: distinct_update update_all)
  then show ?case using Cons.IH Cons.prems(3) x by (simp only: fold.simps comp_apply prod.case list.pred_inject(2))
qed simp

lemma on_file_sound: "list_all filed (on_file (readDeclinations l))" "distinct (map fst (on_file (readDeclinations l)))"
  using fold_update_sound read_sound[of l] by (simp_all add: on_file_def sound_maps_def)

section \<open>Merging\<close>

definition page_ok :: "decision \<Rightarrow> bool" where
  "page_ok a \<longleftrightarrow> (case dn_page a of Some (p, _) \<Rightarrow> p \<noteq> [] | None \<Rightarrow> True)"

lemma superseded_none: "map_of (superseded was) (js ''page'') = None"
  by (simp add: superseded_def del: js_Cons)

lemma cites_none: "k \<noteq> ''cites'' \<Longrightarrow> map_of (groundCites g) (js k) = None"
  by (simp add: groundCites_def Let_def del: js_Cons)

lemma entry_page: "member (js ''page'') (Some (ledger_entry now k a was)) = map_option (\<lambda>(p, _). JStr p) (dn_page a)"
  by (auto simp: ledger_entry_def superseded_none cites_none map_add_def simp del: js_Cons split: option.splits)

lemma entry_uri: "dn_page a = None \<Longrightarrow> member (js ''uri'') (Some (ledger_entry now k a was)) = Some (JStr k)"
  by (simp add: ledger_entry_def del: js_Cons)

lemma entry_reason:
  "member (js ''reason'') (Some (ledger_entry now k a was)) = Some (JStr (dn_reason a))"
  "member (js ''grounds'') (Some (ledger_entry now k a was)) = Some (JStr (dn_grounds a))"
  by (simp_all add: ledger_entry_def del: js_Cons split: option.splits)

lemma entry_filed:
  assumes "page_ok a" "decision_key a \<noteq> []"
  shows "filed (decision_key a, ledger_entry now (decision_key a) a was)"
proof (cases "dn_page a")
  case None
  then have k: "decision_key a = normalizeRecordUri (Some (dn_uri a))" by (simp add: decision_key_def)
  show ?thesis using None assms(2) by (simp add: filed_def entry_page entry_uri page_text_def k del: js_Cons)
next
  case (Some pu)
  obtain p url where p: "pu = (p, url)" by (cases pu)
  then show ?thesis using Some assms(1) by (simp add: filed_def entry_page page_text_def decision_key_def page_ok_def del: js_Cons)
qed

lemma merge_sound:
  "list_all page_ok as \<Longrightarrow> list_all filed m \<Longrightarrow> distinct (map fst m) \<Longrightarrow>
     list_all filed (fold (merge_decision now) as m) \<and> distinct (map fst (fold (merge_decision now) as m))"
  by (induction as arbitrary: m) (simp_all add: merge_decision_def Let_def entry_filed update_all distinct_update)

lemma last_of_snoc: "last_of f (xs @ [x]) k = (if f x = k then Some x else last_of f xs k)"
  by (simp add: last_of_def)

lemma last_of_append: "last_of f (xs @ ys) k = (case last_of f ys k of Some y \<Rightarrow> Some y | None \<Rightarrow> last_of f xs k)"
  by (induction ys rule: rev_induct) (simp_all add: last_of_snoc flip: append_assoc, simp add: last_of_def)

text \<open>The last decision on a key is the one merged in.\<close>

lemma merge_last:
  "k \<noteq> [] \<Longrightarrow> (case last_of decision_key as k of
      Some a \<Rightarrow> \<exists>was. map_of (fold (merge_decision now) as m) k = Some (ledger_entry now k a was)
    | None \<Rightarrow> map_of (fold (merge_decision now) as m) k = map_of m k)"
proof (induction as rule: rev_induct)
  case (snoc a as)
  have f: "fold (merge_decision now) (as @ [a]) m = merge_decision now a (fold (merge_decision now) as m)" by simp
  show ?case using snoc unfolding f last_of_snoc by (auto simp: merge_decision_def Let_def update_conv' split: option.splits)
qed (simp add: last_of_def)

lemma held_append:
  assumes "list_all page_ok as"
  shows "held (Some (fst (appendDeclinations now as l))) k = map_of (fold (merge_decision now) as (on_file (readDeclinations l))) k"
proof -
  let ?m = "fold (merge_decision now) as (on_file (readDeclinations l))"
  let ?l = "Some (fst (appendDeclinations now as l))"
  have m: "list_all filed ?m" "distinct (map fst ?m)" using merge_sound[OF assms on_file_sound] by auto
  have "elems (member (js ''declinations'') ?l) = map snd ?m"
    by (simp add: appendDeclinations_def Let_def del: js_Cons)
  then have r: "dl_byUri (readDeclinations ?l) = fst (fold file_decision (map snd ?m) ([], []))"
      "dl_byPage (readDeclinations ?l) = snd (fold file_decision (map snd ?m) ([], []))"
    by (auto simp: readDeclinations_def split: prod.splits)
  show ?thesis
  proof (cases "page_key k")
    case True
    then obtain p where k: "k = PAGE_KEY_PREFIX @ p" by (auto simp: page_key_iff)
    show ?thesis using read_back[OF m, of k "([], [])" p] unfolding k held_page r by (simp split: option.splits)
  next
    case False
    then show ?thesis using read_back[OF m, of k "([], [])"] unfolding held_record[OF False] r
      by (simp split: option.splits)
  qed
qed

text \<open>One write: the last decision of the call is on file, and every other key holds what it held.\<close>

lemma held_after_write:
  assumes "list_all page_ok as" "k \<noteq> []"
  shows "case last_of decision_key as k of
      Some a \<Rightarrow> \<exists>was. held (Some (fst (appendDeclinations now as l))) k = Some (ledger_entry now k a was)
    | None \<Rightarrow> held (Some (fst (appendDeclinations now as l))) k = held l k"
  using merge_last[OF assms(2), where as = as and now = now and m = "on_file (readDeclinations l)"]
    held_append[OF assms(1), where now = now and l = l and k = k]
  by (simp add: held_def[of l k] split: option.splits)

section \<open>Stores where the last write wins\<close>

text \<open>A client that writes items in batches and looks them up by key, where some batches clear what came before: after any run
  a key holds what the last item with that key says of those left standing, and nothing where there is none.\<close>

definition standing :: "('c \<Rightarrow> bool) \<Rightarrow> ('c \<Rightarrow> 'a list) \<Rightarrow> 'c list \<Rightarrow> 'a list" where
  "standing clears items cs = fold (\<lambda>c acc. (if clears c then [] else acc) @ items c) cs []"

lemma last_of_nil [simp]: "last_of f [] k = None"
  by (simp add: last_of_def)

lemma standing_snoc: "standing clears items (cs @ [c]) = (if clears c then [] else standing clears items cs) @ items c"
  by (simp add: standing_def)

lemma standing_all: "\<forall>c \<in> set cs. \<not> clears c \<Longrightarrow> standing clears items cs = concat (map items cs)"
  by (induction cs rule: rev_induct) (simp_all add: standing_snoc, simp add: standing_def)

locale keyed_store =
  fixes get :: "'s \<Rightarrow> 'k \<Rightarrow> 'v option"
    and put :: "'c \<Rightarrow> 's \<Rightarrow> 's"
    and clears :: "'c \<Rightarrow> bool"
    and items :: "'c \<Rightarrow> 'a list"
    and key :: "'a \<Rightarrow> 'k"
    and says :: "'a \<Rightarrow> 'v \<Rightarrow> bool"
    and proper :: "'k \<Rightarrow> bool"
  assumes put_last: "proper k \<Longrightarrow> last_of key (items c) k = Some a \<Longrightarrow> \<exists>v. get (put c s) k = Some v \<and> says a v"
    and put_other: "proper k \<Longrightarrow> last_of key (items c) k = None \<Longrightarrow> get (put c s) k = (if clears c then None else get s k)"
begin

lemma run_last:
  "proper k \<Longrightarrow> last_of key (standing clears items cs) k = Some a \<Longrightarrow> \<exists>v. get (fold put cs s) k = Some v \<and> says a v"
proof (induction cs rule: rev_induct)
  case (snoc c cs)
  then show ?case using put_last[of k c] put_other[of k c]
    by (auto simp: standing_snoc last_of_append split: option.splits if_splits)
qed (simp add: standing_def last_of_def)

lemma run_other:
  "proper k \<Longrightarrow> get s k = None \<Longrightarrow> last_of key (standing clears items cs) k = None \<Longrightarrow> get (fold put cs s) k = None"
proof (induction cs rule: rev_induct)
  case (snoc c cs)
  then show ?case using put_other[of k c]
    by (auto simp: standing_snoc last_of_append split: option.splits if_splits)
qed simp

end

end
