(* ===== verification/DeclinationSpec.thy ===== *)
theory DeclinationSpec
  imports DeclinationLedger
begin

text \<open>What setting a record aside guarantees: a decision is taken only on a reason its record does not contradict, a call
  accounts for every row it was sent and every row offered, the answer lists what is owed, and the trace is told the
  last decision taken on a record, whatever calls were made and whichever writes failed.\<close>

section \<open>One row\<close>

lemma offered_at_Some: "offered_at rows i = Some n \<Longrightarrow> n < length rows \<and> i = Some (int n)"
  by (auto simp: offered_at_def split: option.splits if_splits)

lemma decide_Inr:
  assumes "decide u rows scope claimed d = Inr a"
  shows "dn_row a < length rows" "dn_row a \<notin> set claimed" "reason_spec (dn_reason a) \<noteq> None"
    "groundsProblem u (dn_grounds a) (dn_reason a) = None" "contradictionFor u (dn_reason a) (Some (rows ! dn_row a)) scope = None"
    "dn_uri a = or_nil (member (js ''uri'') (Some (rows ! dn_row a)))" "dn_page a = row_page (Some (rows ! dn_row a))"
    "js_trim (dn_grounds a) = dn_grounds a"
  using assms by (auto simp: decide_def Let_def offered_at_Some simp del: js_Cons split: option.splits if_splits)

lemma decide_Inl: "decide u rows scope claimed d = Inl r \<Longrightarrow> \<exists>why. r = refused_as rows (row_index d) why"
  by (auto simp: decide_def Let_def simp del: js_Cons split: option.splits if_splits)

section \<open>A call\<close>

lemma decide_all_accounts:
  "decide_all u rows scope claimed ds = (rs, as) \<Longrightarrow>
     length rs + length as = length ds \<and> distinct (map dn_row as) \<and> set (map dn_row as) \<inter> set claimed = {}"
proof (induction ds arbitrary: claimed rs as)
  case (Cons d ds)
  show ?case
  proof (cases "decide u rows scope claimed d")
    case (Inl r)
    then show ?thesis using Cons by (auto split: prod.splits)
  next
    case (Inr a)
    obtain rs' as' where r: "decide_all u rows scope (dn_row a # claimed) ds = (rs', as')" by (cases "decide_all u rows scope (dn_row a # claimed) ds")
    then have as: "as = a # as'" "rs = rs'" using Cons.prems Inr by auto
    show ?thesis using Cons.IH[OF r] decide_Inr(2)[OF Inr] unfolding as by simp
  qed
qed simp

lemma decide_all_taken:
  "decide_all u rows scope claimed ds = (rs, as) \<Longrightarrow> a \<in> set as \<Longrightarrow> \<exists>c d. decide u rows scope c d = Inr a"
proof (induction ds arbitrary: claimed rs as)
  case (Cons d ds)
  show ?case
  proof (cases "decide u rows scope claimed d")
    case (Inl r)
    then show ?thesis using Cons by (auto split: prod.splits)
  next
    case (Inr b)
    then show ?thesis using Cons by (cases "a = b") (blast, auto split: prod.splits)
  qed
qed simp

lemma accepted_was_decided:
  assumes "a \<in> set (dv_accepted (acceptDeclinationCall u rows scope received))"
  shows "\<exists>c d. decide u rows scope c d = Inr a"
  using assms decide_all_taken by (fastforce simp: acceptDeclinationCall_def Let_def simp del: js_Cons split: prod.splits)

lemma accepted_pages: "list_all page_ok (dv_accepted (acceptDeclinationCall u rows scope received))"
  unfolding list_all_iff
proof
  fix a assume "a \<in> set (dv_accepted (acceptDeclinationCall u rows scope received))"
  then obtain c d where "decide u rows scope c d = Inr a" using accepted_was_decided by blast
  from decide_Inr(7)[OF this] show "page_ok a"
    by (auto simp: page_ok_def row_page_def page_text_def simp del: js_Cons split: option.splits json.splits if_splits)
qed

lemma clash_free:
  "contradictionFor u reason row scope = None \<Longrightarrow> discretionary reason \<Longrightarrow> r \<in> set (records_of row) \<Longrightarrow> record_clash u reason r scope = None"
proof (rule ccontr)
  assume c: "contradictionFor u reason row scope = None" "discretionary reason" "r \<in> set (records_of row)" "record_clash u reason r scope \<noteq> None"
  then obtain f where "f \<in> set (List.map_filter (\<lambda>r. record_clash u reason r scope) (records_of row))"
    by (fastforce simp: List.map_filter_def)
  then show False using c(1,2) by (auto simp: contradictionFor_def split: list.splits)
qed

text \<open>A record that is live in a class the matter instructs.\<close>

definition in_scope :: "unicode \<Rightarrow> json option \<Rightarrow> judged \<Rightarrow> bool" where
  "in_scope u scope r \<longleftrightarrow> isLive u (jd_status r)
     \<and> set (asClassSet (jd_classes r)) \<inter> set (asClassSet (member (js ''classes'') scope)) \<noteq> {}"

lemma in_scope_shared: "in_scope u scope r \<longleftrightarrow> isLive u (jd_status r) \<and> sharedClasses (jd_classes r) (member (js ''classes'') scope) \<noteq> []"
proof -
  have "set (sharedClasses a b) = set (asClassSet a) \<inter> set (asClassSet b)" for a b
    by (auto simp: sharedClasses_def)
  then have "sharedClasses a b \<noteq> [] \<longleftrightarrow> set (asClassSet a) \<inter> set (asClassSet b) \<noteq> {}" for a b
    by (metis set_empty)
  then show ?thesis by (simp add: in_scope_def del: js_Cons)
qed

section \<open>Runs of calls\<close>

record declination_input =
  di_now :: jstr
  di_io :: call_io
  di_rows :: "json list"
  di_scope :: "json option"
  di_received :: "json option"

definition decided_by :: "unicode \<Rightarrow> declination_input \<Rightarrow> decision list" where
  "decided_by u c = dv_accepted (acceptDeclinationCall u (di_rows c) (di_scope c) (di_received c))"

text \<open>What a call puts on file: its decisions, where the ledger was written.\<close>

definition put_on_file :: "unicode \<Rightarrow> declination_input \<Rightarrow> decision list" where
  "put_on_file u c = (if io_ledger (di_io c) = Wrote then decided_by u c else [])"

text \<open>A call loses what was on file when it tears the ledger, or writes it over without having been able to read it.\<close>

definition loses_ledger :: "unicode \<Rightarrow> declination_input \<Rightarrow> bool" where
  "loses_ledger u c \<longleftrightarrow> decided_by u c \<noteq> []
     \<and> (io_ledger (di_io c) = Truncated \<or> io_ledger (di_io c) = Wrote \<and> \<not> io_read (di_io c))"

text \<open>What the run leaves on file: the decisions written since the last loss.\<close>

definition left_on_file :: "unicode \<Rightarrow> declination_input list \<Rightarrow> decision list" where
  "left_on_file u cs = standing (loses_ledger u) (put_on_file u) cs"

lemma nothing_lost: "\<forall>c \<in> set cs. \<not> loses_ledger u c \<Longrightarrow> left_on_file u cs = concat (map (put_on_file u) cs)"
  by (simp add: left_on_file_def standing_all)

definition declination_step :: "unicode \<Rightarrow> declination_input \<Rightarrow> declination_state \<Rightarrow> declination_state" where
  "declination_step u c s = snd (recordDeclinations u (di_now c) (di_io c) (di_rows c) (di_scope c) (di_received c) s)"

definition declination_run :: "unicode \<Rightarrow> declination_input list \<Rightarrow> declination_state \<Rightarrow> declination_state" where
  "declination_run u cs s = fold (declination_step u) cs s"

lemma ledger_step:
  "ds_ledger (declination_step u c s)
     = (if put_on_file u c \<noteq> []
        then Some (fst (appendDeclinations (di_now c) (put_on_file u c) (if loses_ledger u c then None else ds_ledger s)))
        else if loses_ledger u c then None else ds_ledger s)"
  by (cases "io_ledger (di_io c)")
    (simp_all add: declination_step_def recordDeclinations_def put_on_file_def loses_ledger_def decided_by_def Let_def)

lemma held_none: "held None k = None"
  by (simp add: held_def readDeclinations_def on_file_def)

lemma held_step:
  assumes "k \<noteq> []"
  shows "case last_of decision_key (put_on_file u c) k of
      Some a \<Rightarrow> \<exists>was. held (ds_ledger (declination_step u c s)) k = Some (ledger_entry (di_now c) k a was)
    | None \<Rightarrow> held (ds_ledger (declination_step u c s)) k = (if loses_ledger u c then None else held (ds_ledger s) k)"
proof (cases "put_on_file u c = []")
  case False
  have ok: "list_all page_ok (put_on_file u c)" using accepted_pages by (simp add: put_on_file_def decided_by_def)
  show ?thesis
    using held_after_write[OF ok assms, where now = "di_now c" and l = "if loses_ledger u c then None else ds_ledger s"] False
    by (cases "loses_ledger u c") (simp_all add: ledger_step held_none split: option.splits)
qed (simp add: ledger_step last_of_def held_none)

lemma last_of_key: "last_of f xs k = Some x \<Longrightarrow> x \<in> set xs \<and> f x = k"
  unfolding last_of_def using find_in by fastforce

text \<open>The tool's state is such a store of decisions.\<close>

interpretation decisions: keyed_store "\<lambda>s. held (ds_ledger s)" "declination_step u" "loses_ledger u" "put_on_file u" decision_key
    "\<lambda>a e. \<exists>now was. e = ledger_entry now (decision_key a) a was" "\<lambda>k. k \<noteq> []" for u
proof
  fix k c a s assume "k \<noteq> []" and l: "last_of decision_key (put_on_file u c) k = Some a"
  then show "\<exists>v. held (ds_ledger (declination_step u c s)) k = Some v \<and> (\<exists>now was. v = ledger_entry now (decision_key a) a was)"
    using held_step[of k u c s] last_of_key[OF l] by auto
next
  fix k c s assume "k \<noteq> []" "last_of decision_key (put_on_file u c) k = None"
  then show "held (ds_ledger (declination_step u c s)) k = (if loses_ledger u c then None else held (ds_ledger s) k)"
    using held_step[of k u c s] by simp
qed

definition no_ledger :: declination_state where
  "no_ledger = \<lparr> ds_ledger = None, ds_verdicts = [] \<rparr>"

lemma ledger_present: "ds_ledger (declination_run u cs no_ledger) = None \<longleftrightarrow> left_on_file u cs = []"
proof (induction cs rule: rev_induct)
  case (snoc c cs)
  have r: "declination_run u (cs @ [c]) s = declination_step u c (declination_run u cs s)" for s by (simp add: declination_run_def)
  show ?case using snoc.IH unfolding r ledger_step by (simp add: left_on_file_def standing_snoc)
qed (simp add: declination_run_def left_on_file_def standing_def no_ledger_def)

lemma truthy_entry [simp]: "truthy (Some (ledger_entry now k a was))"
  by (simp add: ledger_entry_def)

text \<open>The decisions on register records that are filed: not a page, and with an address to file them under.\<close>

definition on_record :: "decision \<Rightarrow> bool" where
  "on_record a \<longleftrightarrow> dn_page a = None \<and> decision_key a \<noteq> []"

lemma record_key: "on_record a \<Longrightarrow> decision_key a \<noteq> [] \<and> \<not> page_key (decision_key a)"
  by (auto simp: on_record_def decision_key_def normalizeRecordUri_not_page)

lemma last_of_filter:
  "(\<And>x. x \<in> set xs \<Longrightarrow> f x = k \<Longrightarrow> P x) \<Longrightarrow> last_of f (filter P xs) k = last_of f xs k"
  by (induction xs rule: rev_induct) (auto simp: last_of_snoc last_of_def)

lemma last_of_none: "(\<And>x. x \<in> set xs \<Longrightarrow> f x \<noteq> k) \<Longrightarrow> last_of f xs k = None"
  by (induction xs rule: rev_induct) (auto simp: last_of_snoc last_of_def)

text \<open>C15: Whatever calls are made, whether or not the ledger can be read at each and whatever becomes of its writes, what the
  report's trace is told of a record is the reason and the ground of the last decision on it that was accepted and written
  since the ledger was last lost; of a record with none it is told that nothing states why, and whether any decision is on
  file. The ledger is lost when a write of it is torn, or when it is written over by a call that could not read it; where
  neither happens nothing written is ever lost (\<open>nothing_lost\<close>).\<close>

theorem seam_tells_last_decision:
  "seamReasonFor (readDeclinations (ds_ledger (declination_run u cs no_ledger))) k
     = (case last_of decision_key (filter on_record (left_on_file u cs)) k of
          Some a \<Rightarrow> StepStated (JStr (dn_reason a)) (JStr (dn_grounds a))
        | None \<Rightarrow> StatedByNone (left_on_file u cs \<noteq> []))"
proof -
  let ?l = "ds_ledger (declination_run u cs no_ledger)" and ?as = "left_on_file u cs"
  have present: "dl_present (readDeclinations ?l) \<longleftrightarrow> ?as \<noteq> []"
    using ledger_present[of u cs] by (auto simp: readDeclinations_def split: option.splits prod.splits)
  show ?thesis
  proof (cases "k = [] \<or> page_key k")
    case True
    then have "last_of decision_key (filter on_record ?as) k = None" using record_key by (intro last_of_none) auto
    moreover have "map_of (dl_byUri (readDeclinations ?l)) k = None"
      using True read_sound[of ?l] normalizeRecordUri_not_page
      by (auto simp: sound_maps_def map_of_eq_None_iff list_all_iff filed_def simp del: js_Cons split: option.splits)
    ultimately show ?thesis by (simp add: seamReasonFor_def present)
  next
    case False
    then have "on_record a" if "decision_key a = k" for a
      using that by (auto simp: on_record_def decision_key_def page_key_iff split: option.splits prod.splits)
    then have f: "last_of decision_key (filter on_record ?as) k = last_of decision_key ?as k" by (intro last_of_filter) auto
    have h: "map_of (dl_byUri (readDeclinations ?l)) k = held ?l k" using False held_record by simp
    have none: "held (ds_ledger no_ledger) k = None" by (simp add: no_ledger_def held_none)
    show ?thesis
    proof (cases "last_of decision_key ?as k")
      case None
      then show ?thesis
        using decisions.run_other[of k no_ledger u cs, folded declination_run_def left_on_file_def] False none
        unfolding f seamReasonFor_def h by (simp add: present)
    next
      case (Some a)
      then obtain now was where "held ?l k = Some (ledger_entry now (decision_key a) a was)"
        using decisions.run_last[of k u cs a no_ledger, folded declination_run_def left_on_file_def] False by blast
      then show ?thesis using Some unfolding f seamReasonFor_def h by (simp add: entry_reason or_nil_def del: js_Cons)
    qed
  qed
qed

text \<open>A torn write: whatever was declined before, the trace is told that nothing was, and the next call counts from nothing.\<close>

lemma torn_ledger_forgets:
  assumes "decided_by u c \<noteq> []" and "io_ledger (di_io c) = Truncated"
  shows "seamReasonFor (readDeclinations (ds_ledger (declination_run u (cs @ [c]) s))) k = StatedByNone False
    \<and> da_recorded_total (fst (recordDeclinations u now ok rows scope None (declination_run u (cs @ [c]) s))) = 0"
proof -
  have "ds_ledger (declination_run u (cs @ [c]) s) = None"
    using assms by (simp add: declination_run_def ledger_step loses_ledger_def put_on_file_def)
  then show ?thesis
    by (simp add: seamReasonFor_def readDeclinations_def recordDeclinations_def acceptDeclinationCall_def dl_count_def Let_def)
qed

section \<open>What a decision rests on\<close>

text \<open>C14: A decision the tool accepts names a row it was offered, for a reason of the list and on a ground of twenty
  characters at least that is not the reason over again; and of every record the row stands for that is live in a class
  of the matter, it is not declined for want of room, and where its mark is the applied-for mark it is declined, if at
  all at the writer's discretion, for unrelated goods that the run holds in full. A name that every object inherits
  passes the check of the list, and is excepted.\<close>

theorem declined_for_cause:
  assumes accepted: "a \<in> set (dv_accepted (acceptDeclinationCall u rows scope received))"
    and listed: "dn_reason a \<notin> set INHERITED"
  shows "dn_row a < length rows \<and> dn_reason a \<in> fst ` set DECLINATION_REASONS
    \<and> 20 \<le> length (dn_grounds a) \<and> markKey u (Some (JStr (dn_grounds a))) \<noteq> markKey u (Some (JStr (dn_reason a)))
    \<and> (\<forall>r \<in> set (records_of (Some (rows ! dn_row a))). in_scope u scope r \<longrightarrow>
         dn_reason a \<noteq> js ''not-worth-the-line''
         \<and> (isIdenticalToAppliedMark u (jd_mark r) (applied_marks scope) \<longrightarrow>
              dn_reason a \<in> {js ''own-right'', js ''duplicate-of-delivered''}
              \<or> dn_reason a = js ''unrelated-goods'' \<and> jd_goods r = Some (JStr (js ''complete''))))"
proof (intro conjI ballI impI)
  obtain c d where "decide u rows scope c d = Inr a" using accepted_was_decided[OF accepted] by blast
  note a = decide_Inr[OF this]
  show "dn_row a < length rows" by (rule a(1))
  show reason: "dn_reason a \<in> fst ` set DECLINATION_REASONS"
    using a(3) listed by (force simp: reason_spec_def map_of_eq_None_iff split: option.splits if_splits dest: map_of_SomeD)
  show "20 \<le> length (dn_grounds a)" "markKey u (Some (JStr (dn_grounds a))) \<noteq> markKey u (Some (JStr (dn_reason a)))"
    using a(4,8) by (auto simp: groundsProblem_def Let_def MIN_GROUNDS_def split: if_splits)
  fix r assume r: "r \<in> set (records_of (Some (rows ! dn_row a)))" "in_scope u scope r"
  have free: "record_clash u (dn_reason a) r scope = None" if "discretionary (dn_reason a)" using clash_free[OF a(5) that r(1)] .
  have plain: "dn_reason a \<in> {js ''own-right'', js ''duplicate-of-delivered''}" if "\<not> discretionary (dn_reason a)"
    using reason that by (auto simp: discretionary_def reason_spec_def DECLINATION_REASONS_def simp del: js_Cons)
  show "dn_reason a \<noteq> js ''not-worth-the-line''"
    using free plain r(2) unfolding in_scope_shared 
    by (cases "discretionary (dn_reason a)") (auto simp: record_clash_def Let_def simp del: js_Cons split: if_splits)
  assume "isIdenticalToAppliedMark u (jd_mark r) (applied_marks scope)"
  then show "dn_reason a \<in> {js ''own-right'', js ''duplicate-of-delivered''}
      \<or> dn_reason a = js ''unrelated-goods'' \<and> jd_goods r = Some (JStr (js ''complete''))"
    using free plain r(2) unfolding in_scope_shared 
    by (cases "discretionary (dn_reason a)") (auto simp: record_clash_def Let_def simp del: js_Cons split: if_splits)
qed

section \<open>What a call answers\<close>

definition refusals_of :: "declination_state \<Rightarrow> declination_verdict \<Rightarrow> jstr list list" where
  "refusals_of s v = ds_verdicts s @ [map (\<lambda>r. declinationKey (rd_uri r)) (dv_refused v)]"

lemma parked_iff: "k \<in> set (parkedIds vs) \<longleftrightarrow> PARK_AFTER_REFUSALS \<le> refusalCountsBy vs k"
proof
  assume k: "PARK_AFTER_REFUSALS \<le> refusalCountsBy vs k"
  then have "k \<noteq> []" "count_list (map js_trim (concat vs)) k \<noteq> 0"
    by (auto simp: refusalCountsBy_def PARK_AFTER_REFUSALS_def split: if_splits)
  then show "k \<in> set (parkedIds vs)" using k count_list_0_iff[of "map js_trim (concat vs)" k] by (auto simp: parkedIds_def)
qed (simp add: parkedIds_def)

lemma accepted_refused_sent:
  "length (dv_accepted (acceptDeclinationCall u rows scope received)) + length (dv_refused (acceptDeclinationCall u rows scope received))
     = length (elems (member (js ''declinations'') received))"
proof -
  let ?sent = "elems (member (js ''declinations'') received)"
  obtain rs as where r: "decide_all u rows scope [] (take MAX_DECLINATIONS_PER_CALL ?sent) = (rs, as)" by fastforce
  have "length rs + length as = min (length ?sent) MAX_DECLINATIONS_PER_CALL" using decide_all_accounts[OF r] by simp
  then have "length as + (length ?sent - MAX_DECLINATIONS_PER_CALL + length rs) = length ?sent" by linarith
  then show ?thesis using r by (simp add: acceptDeclinationCall_def Let_def del: js_Cons)
qed

lemma accepted_rows:
  "distinct (map dn_row (dv_accepted (acceptDeclinationCall u rows scope received)))"
  "set (map dn_row (dv_accepted (acceptDeclinationCall u rows scope received))) \<subseteq> {..<length rows}"
proof -
  let ?sent = "elems (member (js ''declinations'') received)"
  obtain rs as where r: "decide_all u rows scope [] (take MAX_DECLINATIONS_PER_CALL ?sent) = (rs, as)" by fastforce
  show "distinct (map dn_row (dv_accepted (acceptDeclinationCall u rows scope received)))"
    using decide_all_accounts[OF r] r by (simp add: acceptDeclinationCall_def Let_def del: js_Cons)
  show "set (map dn_row (dv_accepted (acceptDeclinationCall u rows scope received))) \<subseteq> {..<length rows}"
    using accepted_was_decided decide_Inr(1) by fastforce
qed

text \<open>C16: A call answers for everything: each decision sent is accepted or refused, no row is decided twice in a call and
  only offered rows are, and the answer still owes exactly the offered rows that this call did not decide and that
  were refused fewer than 30 times over all calls, this one included.\<close>

theorem declination_answer_accounts:
  "let ans = fst (recordDeclinations u now ok rows scope received s); v = da_verdict ans; taken = map dn_row (dv_accepted v) in
     length taken + length (dv_refused v) = length (elems (member (js ''declinations'') received))
     \<and> distinct taken \<and> set taken \<subseteq> {..<length rows}
     \<and> da_still_open ans = map (open_at rows)
         (filter (\<lambda>i. i \<notin> set taken \<and> refusalCountsBy (refusals_of s v) (open_key (open_at rows i)) < 30) [0..<length rows])"
proof -
  let ?v = "acceptDeclinationCall u rows scope received"
  have v: "da_verdict (fst (recordDeclinations u now ok rows scope received s)) = ?v"
    by (simp add: recordDeclinations_def Let_def)
  have o: "dv_open ?v = map (open_at rows) (filter (\<lambda>i. i \<notin> set (map dn_row (dv_accepted ?v))) [0..<length rows])"
    by (simp add: acceptDeclinationCall_def Let_def split: prod.splits)
  have s: "da_still_open (fst (recordDeclinations u now ok rows scope received s))
      = filter (\<lambda>r. refusalCountsBy (refusals_of s ?v) (open_key r) < 30) (dv_open ?v)"
    by (simp add: recordDeclinations_def Let_def refusals_of_def parked_iff not_le PARK_AFTER_REFUSALS_def)
  show ?thesis using accepted_refused_sent[of u rows scope received] accepted_rows[of u rows scope received]
    unfolding Let_def v s o by (simp add: filter_map comp_def conj_commute del: js_Cons)
qed

end
