(* ===== verification/DeclinationCases.thy ===== *)
theory DeclinationCases
  imports DeclinationSpec
begin

text \<open>Declinations on concrete rows: a case of the property about reasons, and three where the code falls short. A name that
  every object inherits passes the check of the list of reasons, a row decided in an earlier call is reported as owed,
  and a row is declined and parked in one call.\<close>

section \<open>A live registration of the applied-for mark\<close>

definition korphic :: json where
  "korphic = JObj [(js ''uri'', JStr (js ''/mark/us/97''))
      , (js ''mark'', JStr (js ''KORPHIC'')), (js ''status'', JStr (js ''REGISTERED''))
      , (js ''classes'', JArr [JNum 9]), (js ''goods'', JStr (js ''complete''))]"

definition korphic_scope :: "json option" where
  "korphic_scope = Some (JObj [(js ''marks'', JArr [JStr (js ''Korphic'')]), (js ''classes'', JArr [JNum 9])])"

definition one_declination :: "int \<Rightarrow> string \<Rightarrow> string \<Rightarrow> json" where
  "one_declination i r g = JObj [(js ''row_index'', JNum i), (js ''reason'', JStr (js r)), (js ''grounds'', JStr (js g))]"

definition declination_of :: "int \<Rightarrow> string \<Rightarrow> string \<Rightarrow> json option" where
  "declination_of i r g = Some (JObj [(js ''declinations'', JArr [one_declination i r g])])"

lemmas latin_simps = latin.to_lower_ascii latin.to_upper_ascii latin.nfd_ascii ascii_def low1_def up1_def is_upper_def is_lower_def is_digit_def
  is_space_def js_trim_def

lemma latin_word: "word_class latin_unicode c \<and> \<not> mark_class latin_unicode c \<longleftrightarrow>
   \<not> (768 \<le> c \<and> c \<le> 879) \<and> (is_upper c \<or> is_lower c \<or> is_digit c \<or> (192 \<le> c \<and> c \<le> 382 \<and> c \<noteq> 215 \<and> c \<noteq> 247)
       \<or> (945 \<le> c \<and> c \<le> 969) \<or> (1072 \<le> c \<and> c \<le> 1103))"
  by (auto simp: latin_unicode_def)

lemma korphic_key: "markKey latin_unicode (Some (JStr (js ''KORPHIC''))) = js ''korphic''"
  by (simp add: markKey_def latin_word latin_simps)

lemma bolt_grounds: "groundsProblem latin_unicode (js ''a bolt is not a bank'') (js ''unrelated-goods'') = None"
  by (simp add: groundsProblem_def Let_def MIN_GROUNDS_def markKey_def latin_word latin_simps)

lemma bolt_inherited: "groundsProblem latin_unicode (js ''a bolt is not a bank'') (js ''constructor'') = None"
  by (simp add: groundsProblem_def Let_def MIN_GROUNDS_def markKey_def latin_word latin_simps)

lemmas call_simps = acceptDeclinationCall_def Let_def MAX_DECLINATIONS_PER_CALL_def decide_def row_index_def offered_at_def one_declination_def
  declination_of_def

lemma trims: "js_trim (js ''unrelated-goods'') = js ''unrelated-goods''" "js_trim (js ''a bolt is not a bank'') = js ''a bolt is not a bank''"
  "js_trim (js ''constructor'') = js ''constructor''"
  by (simp_all add: js_trim_def is_space_def)

lemma known_reasons: "reason_spec (js ''unrelated-goods'') = Some True" "reason_spec (js ''constructor'') = Some False"
  by (simp_all add: reason_spec_def DECLINATION_REASONS_def INHERITED_def del: js_Cons)

lemma korphic_clash: "contradictionFor latin_unicode (js ''unrelated-goods'') (Some korphic) korphic_scope = None"
proof -
  have r: "records_of (Some korphic) = [row_record (Some korphic)]" by (simp add: records_of_def korphic_def del: js_Cons)
  have g: "jd_goods (row_record (Some korphic)) = Some (JStr (js ''complete''))" by (simp add: row_record_def korphic_def del: js_Cons)
  have "record_clash latin_unicode (js ''unrelated-goods'') (row_record (Some korphic)) korphic_scope = None"
    using g by (simp add: record_clash_def Let_def del: js_Cons)
  then show ?thesis by (simp add: contradictionFor_def r map_filter_def)
qed

definition korphic_decision :: "string \<Rightarrow> decision" where
  "korphic_decision r = \<lparr> dn_row = 0, dn_uri = JStr (js ''/mark/us/97''), dn_page = None, dn_mark = JStr (js ''KORPHIC''), dn_owner = JNull,
     dn_reason = js r, dn_grounds = js ''a bolt is not a bank'' \<rparr>"

lemma korphic_parts: "row_page (Some korphic) = None" "or_nil (member (js ''uri'') (Some korphic)) = JStr (js ''/mark/us/97'')"
  "or_nil (member (js ''mark'') (Some korphic)) = JStr (js ''KORPHIC'')" "or_nil (member (js ''owner'') (Some korphic)) = JNull"
  by (simp_all add: korphic_def row_page_def isPageRow_def or_nil_def del: js_Cons)

lemma korphic_declined:
  "dv_accepted (acceptDeclinationCall latin_unicode [korphic] korphic_scope (declination_of 0 ''unrelated-goods'' ''a bolt is not a bank''))
     = [korphic_decision ''unrelated-goods'']"
  using bolt_grounds korphic_clash
  by (simp add: call_simps trims known_reasons korphic_parts korphic_decision_def del: js_Cons)

text \<open>The same record, declined for the reason \<open>constructor\<close>: accepted, although its mark is the applied-for one, it is live
  in an instructed class and \<open>sign\<close> is refused on it.\<close>

lemma inherited_word_accepted:
  "dv_accepted (acceptDeclinationCall latin_unicode [korphic] korphic_scope (declination_of 0 ''constructor'' ''a bolt is not a bank''))
     = [korphic_decision ''constructor'']
   \<and> record_clash latin_unicode (js ''sign'') (row_record (Some korphic)) korphic_scope = Some IdenticalMark"
proof
  have "contradictionFor latin_unicode (js ''constructor'') (Some korphic) korphic_scope = None"
    by (simp add: contradictionFor_def discretionary_def known_reasons del: js_Cons)
  then show "dv_accepted (acceptDeclinationCall latin_unicode [korphic] korphic_scope (declination_of 0 ''constructor'' ''a bolt is not a bank''))
     = [korphic_decision ''constructor'']"
    using bolt_inherited by (simp add: call_simps trims known_reasons korphic_parts korphic_decision_def del: js_Cons)
  have k: "markKey latin_unicode (Some (JStr (js ''KORPHIC''))) = js ''korphic''" "markKey latin_unicode (Some (JStr (js ''Korphic''))) = js ''korphic''"
    by (simp_all add: markKey_def latin_word latin_simps)
  have l: "isLive latin_unicode (Some (JStr (js ''REGISTERED'')))"
    by (simp add: isLive_def LIVE_STATUSES_def latin_simps)
  have "isIdenticalToAppliedMark latin_unicode (jd_mark (row_record (Some korphic))) (applied_marks korphic_scope)"
    using k by (simp add: isIdenticalToAppliedMark_def row_record_def korphic_def applied_marks_def korphic_scope_def Let_def del: js_Cons)
  moreover have "isLive latin_unicode (jd_status (row_record (Some korphic)))"
    using l by (simp add: row_record_def korphic_def del: js_Cons)
  moreover have "sharedClasses (jd_classes (row_record (Some korphic))) (member (js ''classes'') korphic_scope) = [9]"
    by (simp add: sharedClasses_def asClassSet_def class_of_def row_record_def korphic_def korphic_scope_def number_text_def js_trim_def is_space_def
      map_filter_def set_of_def set_add_def int_text_def is_digit_def string_or_def)
  ultimately show "record_clash latin_unicode (js ''sign'') (row_record (Some korphic)) korphic_scope = Some IdenticalMark"
    by (simp add: record_clash_def Let_def del: js_Cons)
qed

theorem declined_for_cause_witness:
  "korphic_decision ''unrelated-goods'' \<in> set (dv_accepted (acceptDeclinationCall latin_unicode [korphic] korphic_scope
      (declination_of 0 ''unrelated-goods'' ''a bolt is not a bank''))) \<and> 20 \<le> length (dn_grounds (korphic_decision ''unrelated-goods''))"
proof -
  have a: "korphic_decision ''unrelated-goods'' \<in> set (dv_accepted (acceptDeclinationCall latin_unicode [korphic] korphic_scope
      (declination_of 0 ''unrelated-goods'' ''a bolt is not a bank'')))"
    using korphic_declined by simp
  have "dn_reason (korphic_decision ''unrelated-goods'') \<notin> set INHERITED"
    by (simp add: korphic_decision_def INHERITED_def del: js_Cons)
  from declined_for_cause[OF a this] a show ?thesis by blast
qed


section \<open>A row decided in an earlier call\<close>

definition bolt :: json where
  "bolt = JObj [(js ''uri'', JStr (js ''/mark/ch/5'')), (js ''mark'', JStr (js ''BOLT''))]"

lemma own_right_grounds: "groundsProblem latin_unicode (js ''a bolt is not a bank'') (js ''own-right'') = None"
  by (simp add: groundsProblem_def Let_def MIN_GROUNDS_def markKey_def latin_word latin_simps)

lemma own_right: "contradictionFor u (js ''own-right'') row scope = None" "reason_spec (js ''own-right'') = Some False"
    "js_trim (js ''own-right'') = js ''own-right''"
proof -
  show "reason_spec (js ''own-right'') = Some False" by (simp add: reason_spec_def DECLINATION_REASONS_def del: js_Cons)
  then show "contradictionFor u (js ''own-right'') row scope = None"
    by (simp add: contradictionFor_def discretionary_def del: js_Cons)
qed (simp add: js_trim_def is_space_def)

lemma own_address: "normalizeRecordUri (Some (JStr (js ''/mark/us/97''))) = js ''/mark/us/97''"
proof -
  have "mark_uri (js ''/mark/us/97'')" unfolding mark_uri_def
    by (intro exI[of _ "js ''/mark/''"] exI[of _ "js ''us''"] exI[of _ 57] exI[of _ "[55]"])
      (simp add: low1_def is_upper_def letter_def is_lower_def is_digit_def mark_tail_def)
  from normalizeRecordUri_mark[OF this] show ?thesis by (simp add: low1_def is_upper_def)
qed

text \<open>Two rows, declined in two calls. The second answer still reports the first row as owed, although its decision is on
  file: what is open is counted from the call in hand, not from the ledger.\<close>

definition all_well :: call_io where
  "all_well = \<lparr> io_read = True, io_ledger = Wrote, io_verdict = True \<rparr>"

definition first_call_state :: declination_state where
  "first_call_state = snd (recordDeclinations latin_unicode [] all_well [korphic, bolt] korphic_scope
     (declination_of 0 ''own-right'' ''a bolt is not a bank'') no_ledger)"

lemma decided_row_still_reported:
  "let ans = fst (recordDeclinations latin_unicode [] all_well [korphic, bolt] korphic_scope
       (declination_of 1 ''own-right'' ''a bolt is not a bank'') first_call_state) in
   held (ds_ledger first_call_state) (js ''/mark/us/97'') \<noteq> None
   \<and> map dn_row (dv_accepted (da_verdict ans)) = [1] \<and> map op_row (da_still_open ans) = [0]"
proof -
  have d: "acceptDeclinationCall latin_unicode [korphic, bolt] korphic_scope (declination_of 0 ''own-right'' ''a bolt is not a bank'')
     = \<lparr> dv_accepted = [korphic_decision ''own-right''], dv_refused = [], dv_open = [open_at [korphic, bolt] 1], dv_offered = 2 \<rparr>"
    using own_right_grounds by (simp add: call_simps trims own_right korphic_parts korphic_decision_def del: js_Cons)
  have none: "parkedIds [[]] = []" "parkedIds [[], []] = []" by (simp_all add: parkedIds_def sorted_set_def set_of_def)
  have s: "first_call_state = \<lparr> ds_ledger = Some (fst (appendDeclinations [] [korphic_decision ''own-right''] None)), ds_verdicts = [[]] \<rparr>"
    unfolding first_call_state_def recordDeclinations_def d Let_def by (simp add: no_ledger_def all_well_def)
  have k: "decision_key (korphic_decision ''own-right'') = js ''/mark/us/97''"
    using own_address by (simp add: decision_key_def korphic_decision_def del: js_Cons)
  have held: "held (ds_ledger first_call_state) (js ''/mark/us/97'') \<noteq> None"
    using held_after_write[of "[korphic_decision ''own-right'']" "js ''/mark/us/97''" "[]" None] k
    by (simp add: s last_of_def page_ok_def korphic_decision_def del: js_Cons) auto
  have v: "dv_refused (acceptDeclinationCall latin_unicode [korphic, bolt] korphic_scope (declination_of 1 ''own-right'' ''a bolt is not a bank'')) = []"
    "map dn_row (dv_accepted (acceptDeclinationCall latin_unicode [korphic, bolt] korphic_scope (declination_of 1 ''own-right'' ''a bolt is not a bank''))) = [1]"
    "dv_open (acceptDeclinationCall latin_unicode [korphic, bolt] korphic_scope (declination_of 1 ''own-right'' ''a bolt is not a bank''))
       = [open_at [korphic, bolt] 0]"
    using own_right_grounds by (simp_all add: call_simps trims own_right numeral_2_eq_2 del: js_Cons)
  show ?thesis using held v none by (simp add: recordDeclinations_def Let_def s open_at_def all_well_def del: js_Cons)
qed

section \<open>A row declined and parked\<close>

text \<open>One call repeats the decision on one row: the first is accepted, each further one is refused, and after thirty the
  row is parked. The answer says of the parked rows that they are not recorded as declined; this one is.\<close>

lemma repeated_decision:
  "0 \<in> set claimed \<Longrightarrow> decide_all u (r # rows) scope claimed (replicate n (one_declination 0 reason g))
     = (replicate n (refused_as (r # rows) (Some 0) OneDecisionPerRecord), [])"
  by (induction n) (simp_all add: decide_def Let_def row_index_def one_declination_def offered_at_def del: js_Cons)

lemma count_replicate: "count_list (replicate n x) x = n"
  by (induction n) auto

lemma declined_and_parked:
  "let ans = fst (recordDeclinations latin_unicode [] all_well [korphic] korphic_scope
       (Some (JObj [(js ''declinations'', JArr (replicate 31 (one_declination 0 ''own-right'' ''a bolt is not a bank'')))])) no_ledger) in
   dv_accepted (da_verdict ans) = [korphic_decision ''own-right''] \<and> da_parked_now ans = [js ''/mark/us/97'']"
proof -
  let ?one = "one_declination 0 ''own-right'' ''a bolt is not a bank''"
  let ?sent = "Some (JObj [(js ''declinations'', JArr (replicate 31 ?one))])"
  have first: "decide latin_unicode [korphic] korphic_scope [] ?one = Inr (korphic_decision ''own-right'')"
    using own_right_grounds by (simp add: call_simps trims own_right korphic_parts korphic_decision_def del: js_Cons)
  have row: "dn_row (korphic_decision ''own-right'') = 0" by (simp add: korphic_decision_def)
  have s: "take MAX_DECLINATIONS_PER_CALL (elems (member (js ''declinations'') ?sent)) = ?one # replicate 30 ?one"
      "drop MAX_DECLINATIONS_PER_CALL (elems (member (js ''declinations'') ?sent)) = []"
    by (simp_all add: MAX_DECLINATIONS_PER_CALL_def numeral_eq_Suc)
  have v: "acceptDeclinationCall latin_unicode [korphic] korphic_scope ?sent
     = \<lparr> dv_accepted = [korphic_decision ''own-right''], dv_refused = replicate 30 (refused_as [korphic] (Some 0) OneDecisionPerRecord),
         dv_open = [], dv_offered = 1 \<rparr>"
    unfolding acceptDeclinationCall_def Let_def s decide_all.simps first
    by (simp add: row repeated_decision)
  have k: "declinationKey (rd_uri (refused_as [korphic] (Some 0) OneDecisionPerRecord)) = js ''/mark/us/97''"
  proof -
    have "rowKey (Some korphic) = JStr (js ''/mark/us/97'')" using korphic_parts by (simp add: rowKey_def del: js_Cons)
    moreover have "js_trim (js ''/mark/us/97'') = js ''/mark/us/97''" by (simp add: js_trim_def is_space_def)
    moreover have "\<not> starts_with PAGE_KEY_PREFIX (js ''/mark/us/97'')" by (simp add: PAGE_KEY_PREFIX_def)
    ultimately show ?thesis using own_address by (simp add: refused_as_def offered_at_def declinationKey_def Let_def del: js_Cons)
  qed
  have t: "js_trim (js ''/mark/us/97'') = js ''/mark/us/97''" by (simp add: js_trim_def is_space_def)
  have p: "parkedIds [replicate 30 (js ''/mark/us/97'')] = [js ''/mark/us/97'']"
  proof -
    have "sorted_set (replicate 30 (js ''/mark/us/97'')) = [js ''/mark/us/97'']"
      by (simp add: sorted_set_def set_of_def set_add_def numeral_eq_Suc del: js_Cons)
    then show ?thesis by (simp add: parkedIds_def refusalCountsBy_def PARK_AFTER_REFUSALS_def t count_replicate del: js_Cons)
  qed
  show ?thesis unfolding recordDeclinations_def v by (simp add: Let_def no_ledger_def k p all_well_def del: js_Cons)
qed

end
