(* ===== verification/Doubts.thy ===== *)
theory Doubts
  imports Rx
begin

text \<open>The doubts a run records (\<open>driver/doubt-ledger.mjs\<close>): how they are minted from the cross-checks a search stage could
  not do and from blocks of the audit that contradict each other, how each is joined to an answer the run already
  holds, and how a later stage may close one by citing a file.

  The artifacts of a run (findings, coverage rows, blocks of the audit) are any JSON value; a doubt is a record. The
  Unicode services are a parameter. The regular expressions are those of the code, as data.\<close>

section \<open>The join\<close>

definition foldMarks :: "unicode \<Rightarrow> jstr \<Rightarrow> jstr" where
  "foldMarks u s = filter (\<lambda>c. \<not> mark_class u c) (nfkd u s)"

definition upper :: rx where "upper = Cls is_upper"
definition lower :: rx where "lower = Cls is_lower"

text \<open>\<open>"$1 $2"\<close>.\<close>

definition spaced :: "(nat \<times> jstr) list \<Rightarrow> jstr" where
  "spaced g = group 1 g @ [32] @ group 2 g"

definition CAMEL_SEAM :: rx where
  "CAMEL_SEAM = Seq (Cap 1 (Cls (\<lambda>c. is_lower c \<or> is_digit c))) (Cap 2 upper)"

definition PASCAL_SEAM :: rx where
  "PASCAL_SEAM = Seq (Cap 1 upper) (Cap 2 (Seq upper lower))"

definition ascii_word :: "unit16 \<Rightarrow> bool" where
  "ascii_word c \<longleftrightarrow> is_upper c \<or> is_lower c \<or> is_digit c"

definition normalizeJoinText :: "unicode \<Rightarrow> jstr \<Rightarrow> jstr" where
  "normalizeJoinText u s =
     to_upper u (js_trim (blank_runs ascii_word (replace PASCAL_SEAM spaced (replace CAMEL_SEAM spaced (foldMarks u s)))))"

definition hasToken :: "unicode \<Rightarrow> jstr \<Rightarrow> jstr \<Rightarrow> bool" where
  "hasToken u hay needle \<longleftrightarrow>
     needle \<noteq> [] \<and> js_includes ([32] @ normalizeJoinText u needle @ [32]) ([32] @ normalizeJoinText u hay @ [32])"

definition distinctive :: "jstr \<Rightarrow> bool" where
  "distinctive nTerm \<longleftrightarrow> (let t = js_trim nTerm in 32 \<in> set t \<or> 6 \<le> length t)"

section \<open>Names in capitals\<close>

definition CAPS_STOP :: "jstr list" where
  "CAPS_STOP = map js [''NEW'', ''NOT'', ''THE'', ''AND'', ''FOR'', ''WITH'', ''LLC'', ''INC'', ''LTD'', ''CO'', ''US'', ''USA'', ''EU'', ''UK'', ''A'',
     ''AN'', ''OF'', ''ON'', ''IN'', ''NO'', ''VS'', ''OR'', ''PER'', ''SEE'']"

definition caps_word :: rx where
  "caps_word = seqs [WordB, upper, many1 (Cls (\<lambda>c. is_upper c \<or> is_digit c \<or> c = 38 \<or> c = 39 \<or> c = 45)), WordB]"

definition CAPS_RUN :: rx where
  "CAPS_RUN = Seq caps_word (Many (Seq (many1 space) caps_word))"

text \<open>\<open>replace(/[*_`()\[\]]/g, " ")\<close>.\<close>

definition no_markup :: "jstr \<Rightarrow> jstr" where
  "no_markup s = map (\<lambda>c. if c \<in> {42, 95, 96, 40, 41, 91, 93} then 32 else c) s"

definition caps_runs :: "jstr \<Rightarrow> jstr list" where
  "caps_runs s = map fst (matchAll CAPS_RUN s)"

definition words_of :: "jstr \<Rightarrow> jstr list" where
  "words_of s = tokens (\<lambda>c. \<not> is_space c) s"

definition drop_ends :: "('a \<Rightarrow> bool) \<Rightarrow> 'a list \<Rightarrow> 'a list" where
  "drop_ends P xs = rev (dropWhile P (rev (dropWhile P xs)))"

text \<open>Words of at most two letters are dropped at the ends, but never the last word left.\<close>

fun drop_short :: "jstr list \<Rightarrow> jstr list" where
  "drop_short (x # y # xs) = (if length x \<le> 2 then drop_short (y # xs) else x # y # xs)"
| "drop_short xs = xs"

definition add_candidate :: "unicode \<Rightarrow> jstr \<Rightarrow> jstr list \<Rightarrow> jstr list" where
  "add_candidate u c out =
     (if c \<noteq> [] \<and> distinctive (normalizeJoinText u c) \<and> c \<notin> set out then out @ [c] else out)"

definition run_candidates :: "unicode \<Rightarrow> jstr \<Rightarrow> jstr list \<Rightarrow> jstr list" where
  "run_candidates u run out =
     (let toks = drop_ends (\<lambda>t. t \<in> set CAPS_STOP) (words_of run);
          cand = join [32] toks;
          innerCand = join [32] (rev (drop_short (rev (drop_short toks))));
          out' = add_candidate u cand out in
      if innerCand \<noteq> cand then add_candidate u innerCand out' else out')"

definition capsCandidates :: "unicode \<Rightarrow> jstr \<Rightarrow> jstr list" where
  "capsCandidates u t = fold (run_candidates u) (caps_runs (no_markup (foldMarks u t))) []"

section \<open>Doubts\<close>

record birth =
  bi_place :: jstr
  bi_artifact :: jstr
  bi_quote :: jstr

record subject =
  sj_mark :: jstr
  sj_owner :: jstr
  sj_terms :: "jstr list"
  sj_text :: jstr
  sj_pair :: "(json option \<times> json option) option"

datatype settler = CodeStitch | DoubtClosureStage

record ending =
  en_by :: settler
  en_file :: jstr
  en_quote :: jstr
  en_reason :: "jstr option"

text \<open>A doubt is open exactly when it has no ending.\<close>

record doubt =
  db_id :: jstr
  db_birth :: birth
  db_subject :: subject
  db_ending :: "ending option"

section \<open>Two weak signals\<close>

definition OWNER_STOP :: "jstr list" where
  "OWNER_STOP = map js [''Check'', ''Verify'', ''Confirm'', ''Cross'', ''Direct'', ''Owner'', ''Search'', ''Register'', ''Registry'', ''Whether'',
     ''Requires'', ''Required'', ''Designation'', ''Designations'', ''Class'', ''Classes'', ''Madrid'', ''Protocol'']"

definition title_word :: rx where
  "title_word = seqs [upper, lower, Many (Cls (\<lambda>c. ascii_word c \<or> c = 38 \<or> c = 39 \<or> c = 45))]"

definition TITLE_RUN :: rx where
  "TITLE_RUN = seqs [WordB, title_word, Many (Seq (many1 space) title_word)]"

definition CLASS_NUMBER :: rx where
  "CLASS_NUMBER = seqs [WordB, lit_i ''class'', opt (lit_i ''es''), many1 space, Cap 1 (between 1 2 digit), WordB]"

record signals =
  sg_marks :: "jstr list"
  sg_owners :: "jstr list"
  sg_classes :: "jstr list"

definition DASH :: jstr where "DASH = [32, 8212, 32]"

text \<open>\<open>split(" \<emdash> ")[0]\<close>.\<close>

fun before_dash :: "jstr \<Rightarrow> jstr" where
  "before_dash [] = []"
| "before_dash (c # cs) = (if starts_with DASH (c # cs) then [] else c # before_dash cs)"

definition joined :: "jstr list \<Rightarrow> jstr" where
  "joined parts = join [32] (filter (\<lambda>p. p \<noteq> []) parts)"

definition add_mark :: "unicode \<Rightarrow> jstr \<Rightarrow> jstr list \<Rightarrow> jstr list" where
  "add_mark u t out =
     (if t \<notin> set CAPS_STOP \<and> normalizeJoinText u t \<noteq> [] \<and> \<not> distinctive (normalizeJoinText u t) \<and> t \<notin> set out
      then out @ [t] else out)"

definition push_owner :: "unicode \<Rightarrow> jstr \<Rightarrow> jstr list \<Rightarrow> jstr list" where
  "push_owner u t out =
     (if normalizeJoinText u t \<noteq> [] \<and> distinctive (normalizeJoinText u t) \<and> t \<notin> set out then out @ [t] else out)"

definition title_owners :: "unicode \<Rightarrow> jstr \<Rightarrow> jstr list \<Rightarrow> jstr list" where
  "title_owners u run out =
     (let toks = filter (\<lambda>t. t \<notin> set OWNER_STOP) (words_of run); out' = fold (push_owner u) toks out in
      if 1 < length toks then push_owner u (join [32] toks) out' else out')"

definition shortJoinSignals :: "unicode \<Rightarrow> subject \<Rightarrow> signals" where
  "shortJoinSignals u s =
     (let what = before_dash (sj_text s);
          src = no_markup (foldMarks u (joined [sj_mark s, what]));
          owner = sj_owner s;
          named = (if normalizeJoinText u owner \<noteq> [] then fold (push_owner u) (words_of owner) (push_owner u owner []) else []) in
      \<lparr> sg_marks = fold (add_mark u) (concat (map words_of (caps_runs src))) [],
        sg_owners = fold (title_owners u) (map fst (matchAll TITLE_RUN (foldMarks u what))) named,
        sg_classes = map (\<lambda>(_, g). group 1 g) (matchAll CLASS_NUMBER (sj_text s)) \<rparr>)"

definition twoTokenMatch :: "unicode \<Rightarrow> signals \<Rightarrow> jstr \<Rightarrow> bool" where
  "twoTokenMatch u sig candidateText \<longleftrightarrow>
     list_ex (hasToken u candidateText) (sg_marks sig)
     \<and> (list_ex (hasToken u candidateText) (sg_owners sig)
        \<or> list_ex (\<lambda>n. hasToken u candidateText (js ''class '' @ n) \<or> hasToken u candidateText (js ''classes '' @ n)) (sg_classes sig))"

section \<open>Minting\<close>

text \<open>\<open>split("\n")\<close>.\<close>

fun lines_of :: "jstr \<Rightarrow> jstr list" where
  "lines_of [] = [[]]"
| "lines_of (c # cs) = (if c = 10 then [] # lines_of cs else (case lines_of cs of l # ls \<Rightarrow> (c # l) # ls | [] \<Rightarrow> [[c]]))"

definition bullet :: rx where
  "bullet = opt (Seq (Cls (\<lambda>c. c = 45 \<or> c = 42)) (many1 space))"

definition CROSS_CHECK_RE :: rx where
  "CROSS_CHECK_RE =
     seqs [bullet, lit ''CROSS-CHECK REQUIRED:'', Many space, Cap 1 (few1 any), many1 space, chr 8212, many1 space,
           Cap 2 (few1 any), Many space, End]"

definition crosscheck_id :: "jstr \<Rightarrow> nat \<Rightarrow> jstr" where
  "crosscheck_id sourceName n = js ''doubt:crosscheck:'' @ sourceName @ [58] @ int_text (int n)"

fun crosschecks :: "unicode \<Rightarrow> jstr \<Rightarrow> nat \<Rightarrow> jstr list \<Rightarrow> doubt list" where
  "crosschecks u sourceName n [] = []"
| "crosschecks u sourceName n (rawLine # ls) =
     (case match_start CROSS_CHECK_RE (js_trim rawLine) of
        None \<Rightarrow> crosschecks u sourceName n ls
      | Some g \<Rightarrow>
          \<lparr> db_id = crosscheck_id sourceName (Suc n),
            db_birth = \<lparr> bi_place = js ''gather-crosscheck'', bi_artifact = sourceName, bi_quote = js_trim rawLine \<rparr>,
            db_subject = \<lparr> sj_mark = [], sj_owner = [], sj_terms = capsCandidates u (group 1 g),
                           sj_text = group 1 g @ DASH @ group 2 g, sj_pair = None \<rparr>,
            db_ending = None \<rparr> # crosschecks u sourceName (Suc n) ls)"

definition mintCrossCheckDoubts :: "unicode \<Rightarrow> jstr \<Rightarrow> jstr \<Rightarrow> doubt list" where
  "mintCrossCheckDoubts u artifactText sourceName = crosschecks u sourceName 0 (lines_of artifactText)"

definition two_words :: "string \<Rightarrow> string \<Rightarrow> rx" where
  "two_words a b = seqs [lit_i a, many1 space, lit_i b]"

definition NEG_RE :: rx where
  "NEG_RE =
     Seq WordB (Alt (two_words ''not'' ''found'')
       (Alt (seqs [lit_i ''does'', many1 space, two_words ''not'' ''appear''])
       (Alt (seqs [two_words ''no'' ''such'', many1 space, many1 (Cls re_word_char)])
       (Alt (two_words ''not'' ''located'')
       (Alt (seqs [two_words ''no'' ''match'', opt (lit_i ''es''), WordB])
            (two_words ''not'' ''marketed''))))))"

text \<open>\<open>[a, b].filter(Boolean).join(" ")\<close> over JSON values.\<close>

definition joined_values :: "jstr \<Rightarrow> json option list \<Rightarrow> jstr" where
  "joined_values sep vs = join sep (map template (filter truthy vs))"

definition blockText :: "json \<Rightarrow> jstr" where
  "blockText b = joined_values [32] (map (\<lambda>k. member (js k) (Some b)) [''title'', ''description'', ''key_factors''])"

definition refutes :: "json \<Rightarrow> bool" where
  "refutes b \<longleftrightarrow> test NEG_RE (blockText b)"

definition title_of :: "json \<Rightarrow> json option" where
  "title_of b = member (js ''title'') (Some b)"

text \<open>\<open>String(v ?? "")\<close> of a field.\<close>

definition text_of_field :: "string \<Rightarrow> json \<Rightarrow> jstr" where
  "text_of_field k b = string_or (member (js k) (Some b)) []"

definition contradiction :: "unicode \<Rightarrow> json \<Rightarrow> json \<Rightarrow> jstr \<Rightarrow> nat \<Rightarrow> doubt" where
  "contradiction u a b cand n =
     \<lparr> db_id = js ''doubt:contradiction:'' @ map (\<lambda>c. if c = 32 then 45 else c) (normalizeJoinText u cand) @ [58] @ int_text (int n),
       db_birth = \<lparr> bi_place = js ''audit-contradiction'', bi_artifact = js ''audit.md'',
         bi_quote = js ''asserted: \"'' @ template (title_of a) @ js ''\" / refuted: \"'' @ template (title_of b) @ js ''\"'' \<rparr>,
       db_subject = \<lparr> sj_mark = cand, sj_owner = text_of_field ''owner'' a, sj_terms = [cand],
         sj_text = text_of_field ''title'' a @ [32] @ text_of_field ''owner'' a @ [32] @ text_of_field ''title'' b,
         sj_pair = Some (title_of a, title_of b) \<rparr>,
       db_ending = None \<rparr>"

text \<open>The body of the loops: the asserting block, one of its candidates, the other block.\<close>

definition mint_pair :: "unicode \<Rightarrow> json \<Rightarrow> jstr \<Rightarrow> json \<Rightarrow> doubt list \<Rightarrow> doubt list" where
  "mint_pair u a cand b doubts =
     (if \<not> refutes b \<or> \<not> hasToken u (blockText b) cand
         \<or> list_ex (\<lambda>d. sj_pair (db_subject d) = Some (title_of a, title_of b)) doubts
      then doubts else doubts @ [contradiction u a b cand (Suc (length doubts))])"

definition others :: "nat \<Rightarrow> 'a list \<Rightarrow> 'a list" where
  "others i xs = take i xs @ drop (Suc i) xs"

definition mint_asserting :: "unicode \<Rightarrow> json list \<Rightarrow> nat \<Rightarrow> doubt list \<Rightarrow> doubt list" where
  "mint_asserting u blocks i doubts =
     (let a = blocks ! i in
      if refutes a then doubts
      else fold (\<lambda>cand. fold (mint_pair u a cand) (others i blocks)) (capsCandidates u (text_of_field ''title'' a)) doubts)"

definition mintContradictionDoubts :: "unicode \<Rightarrow> json option \<Rightarrow> doubt list" where
  "mintContradictionDoubts u auditBlocks =
     fold (mint_asserting u (elems auditBlocks)) [0..<length (elems auditBlocks)] []"

section \<open>Findings\<close>

definition owner_name :: "json \<Rightarrow> json option" where
  "owner_name f = member (js ''name'') (member (js ''owner'') (Some f))"

definition doubt_text :: "subject \<Rightarrow> jstr" where
  "doubt_text s = joined ([sj_mark s, sj_owner s, sj_text s] @ sj_terms s)"

definition classes_text :: "json \<Rightarrow> json option" where
  "classes_text f =
     (case elems (member (js ''classes'') (Some f)) of [] \<Rightarrow> Some (JStr [])
      | cs \<Rightarrow> Some (JStr (js ''classes '' @ join [32] (map (\<lambda>c. if c = JNull then [] else js_string c) cs))))"

definition finding_text :: "json \<Rightarrow> jstr" where
  "finding_text f = joined_values [32] [member (js ''mark'') (Some f), owner_name f, classes_text f]"

definition named_in :: "unicode \<Rightarrow> jstr \<Rightarrow> json option \<Rightarrow> bool" where
  "named_in u t v \<longleftrightarrow> (let n = normalizeJoinText u (string_or v []) in distinctive n \<and> hasToken u t n)"

definition finding_joins :: "unicode \<Rightarrow> subject \<Rightarrow> json \<Rightarrow> bool" where
  "finding_joins u s f \<longleftrightarrow>
     named_in u (doubt_text s) (member (js ''mark'') (Some f)) \<or> named_in u (doubt_text s) (owner_name f)
     \<or> twoTokenMatch u (shortJoinSignals u s) (finding_text f)"

definition findingJoinFor :: "unicode \<Rightarrow> subject \<Rightarrow> json list \<Rightarrow> json option" where
  "findingJoinFor u s findings =
     (if normalizeJoinText u (doubt_text s) = [] then None else List.find (finding_joins u s) findings)"

definition clip :: "jstr \<Rightarrow> jstr" where
  "clip s = (let t = js_trim (squeeze s) in if 200 < length t then take 199 t @ [8230] else t)"

definition SEP :: jstr where "SEP = [32, 47, 32]"

text \<open>\<open>includes\<close> of an array: no two objects are the same one.\<close>

definition is_plain :: "json \<Rightarrow> bool" where
  "is_plain v \<longleftrightarrow> (case v of JArr _ \<Rightarrow> False | JObj _ \<Rightarrow> False | _ \<Rightarrow> True)"

definition has_value :: "json option \<Rightarrow> json list \<Rightarrow> bool" where
  "has_value v xs \<longleftrightarrow> (case v of Some x \<Rightarrow> is_plain x \<and> x \<in> set xs | None \<Rightarrow> False)"

definition action_text :: "json option \<Rightarrow> json \<Rightarrow> jstr" where
  "action_text ordinal a =
     (if has_value ordinal (elems (member (js ''ordinals'') (Some a)))
      then DASH @ js ''action: \"'' @ clip (text_of_field ''text'' a) @ js ''\"'' else [])"

definition findingEvidence :: "json \<Rightarrow> json list \<Rightarrow> jstr" where
  "findingEvidence f actions =
     (let g = (\<lambda>k. member (js k) (Some f)); how = joined_values SEP [g ''disposition'', g ''band''] in
      js ''finding #'' @ template (g ''ordinal'') @ js '': '' @ template (g ''mark'') @ DASH @ (if how = [] then js ''recorded'' else how)
      @ (if truthy (g ''withdrawn_reason'') then DASH @ template (g ''withdrawn_reason'') else [])
      @ concat (map (action_text (g ''ordinal'')) actions))"

section \<open>Lines of the register findings\<close>

definition HEADING :: rx where
  "HEADING = seqs [between 1 4 (chr 35), many1 space, Cap 1 (Many any)]"

definition ANSWER_OR_WATCHLIST :: rx where
  "ANSWER_OR_WATCHLIST = Alt (lit_i ''answer'') (lit_i ''watchlist'')"

definition TABLE_RULE :: rx where
  "TABLE_RULE = seqs [chr 124, many1 (Cls (\<lambda>c. is_space c \<or> c = 58 \<or> c = 124 \<or> c = 45)), chr 124, End]"

definition content :: "jstr \<Rightarrow> jstr option" where
  "content line = (let t = js_trim line in if t \<noteq> [] \<and> match_start TABLE_RULE t = None then Some t else None)"

fun section_lines :: "bool \<Rightarrow> jstr list \<Rightarrow> jstr list" where
  "section_lines inSection [] = []"
| "section_lines inSection (line # ls) =
     (case match_start HEADING line of
        Some g \<Rightarrow> section_lines (test ANSWER_OR_WATCHLIST (group 1 g)) ls
      | None \<Rightarrow>
          if inSection then (case content line of Some t \<Rightarrow> t # section_lines inSection ls | None \<Rightarrow> section_lines inSection ls)
          else section_lines inSection ls)"

definition answerWatchlistLines :: "jstr \<Rightarrow> jstr list" where
  "answerWatchlistLines t = section_lines False (lines_of t)"

definition allContentLines :: "jstr \<Rightarrow> jstr list" where
  "allContentLines t = List.map_filter content (lines_of t)"

section \<open>The stitch\<close>

text \<open>\<open>trim().split(/[\\/]/).pop().toLowerCase()\<close>.\<close>

definition baseName :: "unicode \<Rightarrow> jstr \<Rightarrow> jstr" where
  "baseName u s = to_lower u (rev (takeWhile (\<lambda>c. c \<noteq> 47 \<and> c \<noteq> 92) (rev (js_trim s))))"

definition citesOwnSource :: "unicode \<Rightarrow> doubt \<Rightarrow> jstr \<Rightarrow> bool" where
  "citesOwnSource u d file \<longleftrightarrow>
     (let born = baseName u (bi_artifact (db_birth d)) in born \<noteq> [] \<and> born = baseName u file)"

definition settle :: "unicode \<Rightarrow> doubt \<Rightarrow> jstr \<Rightarrow> jstr \<Rightarrow> doubt option" where
  "settle u d file quote =
     (if citesOwnSource u d file then None
      else Some (d\<lparr> db_ending := Some \<lparr> en_by = CodeStitch, en_file = file, en_quote = quote, en_reason = None \<rparr> \<rparr>))"

definition FINDINGS :: jstr where "FINDINGS = js ''findings.json''"
definition COVERAGE :: jstr where "COVERAGE = js ''register-coverage-ledger.json''"
definition REGISTER :: jstr where "REGISTER = js ''register-findings.md''"

definition row_text :: "json \<Rightarrow> jstr" where
  "row_text r = joined_values [32] (map (\<lambda>k. member (js k) (Some r)) [''unit'', ''axis'', ''scope'', ''reason''])"

definition row_names :: "unicode \<Rightarrow> signals \<Rightarrow> subject \<Rightarrow> json \<Rightarrow> bool" where
  "row_names u sig s r \<longleftrightarrow>
     named_in u (joined ([sj_mark s, sj_text s] @ sj_terms s)) (member (js ''scope'') (Some r))
     \<or> list_ex (\<lambda>t. distinctive (normalizeJoinText u t) \<and> hasToken u (row_text r) t) (sj_terms s)
     \<or> twoTokenMatch u sig (row_text r)"

definition row_evidence :: "json \<Rightarrow> jstr" where
  "row_evidence r =
     (let g = (\<lambda>k. member (js k) (Some r)) in
      (if nullish (g ''unit'') then joined_values SEP [g ''axis'', g ''scope''] else template (g ''unit''))
      @ DASH @ template (g ''status'') @ (if truthy (g ''reason'') then DASH @ clip (template (g ''reason'')) else []))"

text \<open>The first thing that yields an ending; a refused ending falls through to the next.\<close>

definition first_ending :: "doubt option list \<Rightarrow> doubt option" where
  "first_ending es = (case List.map_filter id es of d # _ \<Rightarrow> Some d | [] \<Rightarrow> None)"

definition line_names :: "unicode \<Rightarrow> subject \<Rightarrow> jstr \<Rightarrow> bool" where
  "line_names u s line \<longleftrightarrow> list_ex (\<lambda>t. distinctive (normalizeJoinText u t) \<and> hasToken u line t) (sj_terms s)"

definition on_line :: "unicode \<Rightarrow> doubt \<Rightarrow> (jstr \<Rightarrow> bool) \<Rightarrow> jstr list \<Rightarrow> doubt option" where
  "on_line u d P ls = (case List.find P ls of Some l \<Rightarrow> settle u d REGISTER (clip l) | None \<Rightarrow> None)"

definition stitch_one :: "unicode \<Rightarrow> json list \<Rightarrow> json list \<Rightarrow> json list \<Rightarrow> jstr \<Rightarrow> doubt \<Rightarrow> doubt" where
  "stitch_one u findings actions rows registerText d =
     (let s = db_subject d; sig = shortJoinSignals u s;
          e = first_ending
            ([case findingJoinFor u s findings of Some f \<Rightarrow> settle u d FINDINGS (findingEvidence f actions) | None \<Rightarrow> None]
             @ map (\<lambda>r. settle u d COVERAGE (row_evidence r)) (filter (row_names u sig s) rows)
             @ [on_line u d (line_names u s) (answerWatchlistLines registerText),
                on_line u d (twoTokenMatch u sig) (allContentLines registerText)]) in
      case e of Some d' \<Rightarrow> d' | None \<Rightarrow> d\<lparr> db_ending := None \<rparr>)"

definition finding_list :: "json option \<Rightarrow> json list" where
  "finding_list v = (case v of Some (JArr fs) \<Rightarrow> fs | _ \<Rightarrow> elems (member (js ''findings'') v))"

definition action_list :: "json option \<Rightarrow> json list" where
  "action_list v = (case v of Some (JArr fs) \<Rightarrow> [] | _ \<Rightarrow> elems (member (js ''actions'') v))"

definition stitchDoubts :: "unicode \<Rightarrow> doubt list \<Rightarrow> json option \<Rightarrow> json option \<Rightarrow> jstr \<Rightarrow> doubt list" where
  "stitchDoubts u doubts findings coverageRows registerText =
     map (stitch_one u (finding_list findings) (action_list findings) (elems coverageRows) registerText) doubts"

section \<open>The closure stage\<close>

definition SETTLED_LINE_RE :: rx where
  "SETTLED_LINE_RE =
     seqs [bullet, lit ''SETTLED'', many1 space, Cap 1 (many1 (Cls (\<lambda>c. \<not> is_space c))), chr 58, Many space,
           Cap 2 (few1 (Cls (\<lambda>c. \<not> is_space c))), chr 58, Many space, chr 34, Cap 3 (Seq any (few_up_to 299 any)), chr 34,
           Many space, chr 8212, Many space, Cap 4 (few1 any), Many space, End]"

definition OPEN_LINE_RE :: rx where
  "OPEN_LINE_RE =
     seqs [bullet, lit ''OPEN'', many1 space, Cap 1 (many1 (Cls (\<lambda>c. \<not> is_space c))), chr 58, Many space, Cap 2 (few1 any), Many space, End]"

datatype closure_line =
    SettledLine (cl_id: jstr) (cl_file: jstr) (cl_quote: jstr) (cl_reason: jstr)
  | OpenLine (cl_id: jstr) (cl_reason: jstr)

definition parse_line :: "jstr \<Rightarrow> closure_line option" where
  "parse_line rawLine =
     (let line = js_trim rawLine in
      case match_start SETTLED_LINE_RE line of
        Some g \<Rightarrow> Some (SettledLine (group 1 g) (group 2 g) (group 3 g) (group 4 g))
      | None \<Rightarrow> (case match_start OPEN_LINE_RE line of Some g \<Rightarrow> Some (OpenLine (group 1 g) (group 2 g)) | None \<Rightarrow> None))"

definition parseClosureLines :: "jstr \<Rightarrow> closure_line list" where
  "parseClosureLines t = List.map_filter parse_line (lines_of t)"

definition squash :: "jstr \<Rightarrow> jstr" where
  "squash s = js_trim (squeeze (replace_all [92, 34] [34] s))"

definition PRESENCE_BIRTH_PLACE :: jstr where "PRESENCE_BIRTH_PLACE = js ''presence-reconciliation''"

datatype refusal_cause = OwnSource | PresenceDoubt | NotVerbatim

record unverified =
  uv_id :: jstr
  uv_file :: jstr
  uv_quote :: jstr
  uv_why :: refusal_cause

definition settling :: "closure_line list \<Rightarrow> jstr \<Rightarrow> closure_line option" where
  "settling ls i = List.find (\<lambda>l. case l of SettledLine j _ _ _ \<Rightarrow> j = i | OpenLine _ _ \<Rightarrow> False) ls"

text \<open>\<open>String(fileTexts?.[file] ?? "")\<close>.\<close>

definition file_text :: "(jstr \<times> jstr) list \<Rightarrow> jstr \<Rightarrow> jstr" where
  "file_text fileTexts file =
     (case map_of fileTexts file of Some t \<Rightarrow> t
      | None \<Rightarrow> (case inherited_text file of Some t \<Rightarrow> t | None \<Rightarrow> []))"

definition close_doubt :: "unicode \<Rightarrow> closure_line list \<Rightarrow> (jstr \<times> jstr) list \<Rightarrow> doubt \<Rightarrow> doubt \<times> unverified option" where
  "close_doubt u ls fileTexts d =
     (if db_ending d \<noteq> None then (d, None)
      else case settling ls (db_id d) of
        Some (SettledLine i file quote reason) \<Rightarrow>
          let no = (\<lambda>why. (d, Some \<lparr> uv_id = db_id d, uv_file = file, uv_quote = quote, uv_why = why \<rparr>)) in
          if citesOwnSource u d file then no OwnSource
          else if bi_place (db_birth d) = PRESENCE_BIRTH_PLACE then no PresenceDoubt
          else
            let hay = squash (file_text fileTexts file); q = squash quote in
            if q \<noteq> [] \<and> hay \<noteq> [] \<and> js_includes q hay
            then (d\<lparr> db_ending := Some \<lparr> en_by = DoubtClosureStage, en_file = file, en_quote = quote, en_reason = Some reason \<rparr> \<rparr>, None)
            else no NotVerbatim
      | _ \<Rightarrow> (d, None))"

record closure =
  co_doubts :: "doubt list"
  co_settled :: nat
  co_unverified :: "unverified list"

definition applyClosure :: "unicode \<Rightarrow> doubt list \<Rightarrow> closure_line list \<Rightarrow> (jstr \<times> jstr) list \<Rightarrow> closure" where
  "applyClosure u doubts ls fileTexts =
     (let out = map (close_doubt u ls fileTexts) doubts in
      \<lparr> co_doubts = map fst out,
        co_settled = length (filter (\<lambda>(d, d'). db_ending d = None \<and> db_ending d' \<noteq> None) (zip doubts (map fst out))),
        co_unverified = List.map_filter snd out \<rparr>)"

end
