(* ===== verification/DoubtClosure.thy ===== *)
theory DoubtClosure
  imports Doubts
begin

text \<open>The call that closes doubts by citation (\<open>driver/doubt-closure-call.mjs\<close>, \<open>driver/doubt-closure-tool.mjs\<close>,
  \<open>driver/call-repeat.mjs\<close>): a row names a doubt it was given and a file by its position, its quote is checked at once,
  what is accepted is recorded in a file per call, and a batch whose ids were sent before is answered from the record.

  The state is the index of calls and the recorded files. The hash is a parameter. Which writes succeed is an input of a
  call. The captured payload and the sentences of the answers are not modelled.\<close>

section \<open>One row\<close>

definition MAX_CLOSURES_PER_CALL :: nat where "MAX_CLOSURES_PER_CALL = 40"

definition CLOSURE_EVIDENCE_FILES :: "jstr list" where
  "CLOSURE_EVIDENCE_FILES = [js ''findings.json'', js ''register-findings.md'', js ''register-coverage-ledger.json'']"

datatype closure_kind = DoubtKind | AskKind

definition kind_of :: "jstr \<Rightarrow> closure_kind option" where
  "kind_of k = (if k = js ''doubt'' then Some DoubtKind else if k = js ''ask'' then Some AskKind else None)"

datatype closure_verdict = ClosedVerdict | OpenVerdict

definition verdict_of :: "closure_kind \<Rightarrow> jstr \<Rightarrow> closure_verdict option" where
  "verdict_of k v =
     (if v = js ''open'' then Some OpenVerdict
      else if v = (case k of DoubtKind \<Rightarrow> js ''settled'' | AskKind \<Rightarrow> js ''immaterial'') then Some ClosedVerdict else None)"

datatype closure_fault =
    BadKind | IdRequired | NotGiven | BadVerdict | WrongField | ReasonRequired | OpenWithCitation | IndexNotInteger | IndexOutside
  | CitesBirth | QuoteRequired | FileUnreadable | QuoteNotFound | TwiceInCall | NoRows | TooManyRows

datatype accepted_closure =
    AcceptedOpen closure_kind jstr jstr
  | AcceptedClosed closure_kind jstr jstr jstr jstr

record closure_spec =
  cs_openIds :: "jstr list"
  cs_files :: "jstr list"
  cs_texts :: "(jstr \<times> jstr) list"
  cs_bornIn :: "(jstr \<times> jstr) list"

definition str_of :: "json option \<Rightarrow> jstr" where
  "str_of v = js_trim (string_or v [])"

definition text_field :: "closure_kind \<Rightarrow> closure_verdict \<Rightarrow> string \<times> string" where
  "text_field k v = (if k = AskKind \<and> v = OpenVerdict then (''handoff'', ''reason'') else (''reason'', ''handoff''))"

definition own_artifact :: "unicode \<Rightarrow> jstr option \<Rightarrow> jstr \<Rightarrow> bool" where
  "own_artifact u born file \<longleftrightarrow>
     (case born of Some b \<Rightarrow> b \<noteq> [] \<and> baseName u b \<noteq> [] \<and> baseName u b = baseName u file | None \<Rightarrow> False)"

definition check_citation :: "unicode \<Rightarrow> closure_spec \<Rightarrow> closure_kind \<Rightarrow> jstr \<Rightarrow> jstr \<Rightarrow> json option \<Rightarrow> closure_fault + accepted_closure" where
  "check_citation u sp k i reason row =
     (case member (js ''file_index'') row of
        Some (JNum n) \<Rightarrow>
          if n < 0 \<or> int (length (cs_files sp)) \<le> n then Inl IndexOutside
          else
            let file = cs_files sp ! nat n; quote = str_of (member (js ''quote'') row); hay = squash (file_text (cs_texts sp) file) in
            if own_artifact u (map_of (cs_bornIn sp) i) file then Inl CitesBirth
            else if quote = [] then Inl QuoteRequired
            else if hay = [] then Inl FileUnreadable
            else if \<not> js_includes (squash quote) hay then Inl QuoteNotFound
            else Inr (AcceptedClosed k i file quote reason)
      | _ \<Rightarrow> Inl IndexNotInteger)"

definition acceptClosure :: "unicode \<Rightarrow> closure_spec \<Rightarrow> json \<Rightarrow> closure_fault + accepted_closure" where
  "acceptClosure u sp r =
     (let row = Some r; kv = member (js ''kind'') row; i = str_of (member (js ''doubt_id'') row) in
      case kind_of (to_lower u (str_of (if truthy kv then kv else Some (JStr (js ''doubt''))))) of
        None \<Rightarrow> Inl BadKind
      | Some k \<Rightarrow>
          if i = [] then Inl IdRequired
          else if i \<notin> set (cs_openIds sp) then Inl NotGiven
          else (case verdict_of k (to_lower u (str_of (member (js ''verdict'') row))) of
            None \<Rightarrow> Inl BadVerdict
          | Some v \<Rightarrow>
              let reason = str_of (member (js (fst (text_field k v))) row) in
              if \<not> nullish (member (js (snd (text_field k v))) row) then Inl WrongField
              else if reason = [] then Inl ReasonRequired
              else if v = OpenVerdict
              then (if \<not> nullish (member (js ''file_index'') row) \<or> \<not> nullish (member (js ''quote'') row) then Inl OpenWithCitation
                    else Inr (AcceptedOpen k i reason))
              else check_citation u sp k i reason row))"

section \<open>One call\<close>

definition refused_id :: "json \<Rightarrow> jstr" where
  "refused_id r = str_of (member (js ''doubt_id'') (Some r))"

fun take_closures :: "unicode \<Rightarrow> closure_spec \<Rightarrow> jstr list \<Rightarrow> json list \<Rightarrow> accepted_closure list \<times> (jstr \<times> closure_fault) list" where
  "take_closures u sp seen [] = ([], [])"
| "take_closures u sp seen (r # rs) =
     (let i = refused_id r in
      if i \<noteq> [] \<and> i \<in> set seen then apsnd (Cons (i, TwiceInCall)) (take_closures u sp seen rs)
      else case acceptClosure u sp r of
        Inr a \<Rightarrow> apfst (Cons a) (take_closures u sp (if i \<noteq> [] then i # seen else seen) rs)
      | Inl why \<Rightarrow> apsnd (Cons (i, why)) (take_closures u sp seen rs))"

definition acceptClosureCall :: "unicode \<Rightarrow> closure_spec \<Rightarrow> json option \<Rightarrow> accepted_closure list \<times> (jstr \<times> closure_fault) list" where
  "acceptClosureCall u sp closures =
     (let rows = elems closures in
      if rows = [] then ([], [([], NoRows)])
      else if MAX_CLOSURES_PER_CALL < length rows then ([], [([], TooManyRows)])
      else take_closures u sp [] rows)"

definition to_line :: "closure_kind \<Rightarrow> accepted_closure \<Rightarrow> closure_line option" where
  "to_line k a =
     (case a of
        AcceptedOpen k' i reason \<Rightarrow> if k' = k then Some (OpenLine i reason) else None
      | AcceptedClosed k' i file quote reason \<Rightarrow> if k' = k then Some (SettledLine i file quote reason) else None)"

definition toClosureLines :: "accepted_closure list \<Rightarrow> closure_kind \<Rightarrow> closure_line list" where
  "toClosureLines accepted k = List.map_filter (to_line k) accepted"

section \<open>Repeats\<close>

definition sent_ids :: "json option \<Rightarrow> jstr list" where
  "sent_ids received =
     sorted_set (filter (\<lambda>i. i \<noteq> []) (map refused_id (elems (member (js ''closures'') received))))"

text \<open>The first twelve digits of the hash of the sorted ids; a call that names nothing has none.\<close>

definition idSetHash :: "(jstr \<Rightarrow> jstr) \<Rightarrow> json option \<Rightarrow> jstr option" where
  "idSetHash digest received =
     (if sent_ids received = [] then None else Some (take 12 (digest (124 # join [32] (sent_ids received)))))"

text \<open>A line of the index: the number of the call and the hash of its ids.\<close>

type_synonym index_line = "nat \<times> jstr option"

definition priorCallWithIdSet :: "index_line list \<Rightarrow> jstr option \<Rightarrow> nat option" where
  "priorCallWithIdSet index h =
     (if h = None then None else map_option fst (List.find (\<lambda>l. snd l = h) index))"

section \<open>The tool\<close>

record closure_state =
  ct_index :: "index_line list"
  ct_files :: "(jstr \<times> closure_line list \<times> closure_line list) list"
  ct_artifact :: "jstr option"

definition accepted_name :: "nat \<Rightarrow> jstr" where
  "accepted_name seq =
     (let n = int_text (int seq) in js ''accepted-'' @ replicate (3 - length n) 48 @ n @ js ''.json'')"

definition readAcceptedClosures :: "closure_state \<Rightarrow> closure_line list \<times> closure_line list" where
  "readAcceptedClosures s =
     (let fs = map snd (sort_key fst (ct_files s)) in (concat (map fst fs), concat (map snd fs)))"

text \<open>The artifact of the stage, rendered from the same rows.\<close>

definition artifact_line :: "string \<Rightarrow> closure_line \<Rightarrow> jstr" where
  "artifact_line verdict l =
     (case l of
        OpenLine i reason \<Rightarrow> js ''OPEN '' @ i @ js '': '' @ reason
      | SettledLine i file quote reason \<Rightarrow>
          js verdict @ [32] @ i @ js '': '' @ file @ js '': \"'' @ quote @ js ''\"'' @ DASH @ reason)"

definition renderClosureArtifact :: "closure_line list \<times> closure_line list \<Rightarrow> jstr" where
  "renderClosureArtifact rows =
     (let body = map (artifact_line ''SETTLED'') (fst rows) @ map (artifact_line ''IMMATERIAL'') (snd rows) in
      js ''# Doubt closure'' @ [10, 10]
      @ (if body = [] then js ''(no verdict was accepted this run'' @ DASH @ js ''every open doubt and ask ships OPEN)'' else join [10] body)
      @ [10])"

record closure_answer =
  ca_accepted :: nat
  ca_refused :: "(jstr \<times> closure_fault) list"
  ca_still_open :: "jstr list"
  ca_repeat_of :: "nat option"

definition accepted_closure_id :: "accepted_closure \<Rightarrow> jstr" where
  "accepted_closure_id a = (case a of AcceptedOpen _ i _ \<Rightarrow> i | AcceptedClosed _ i _ _ _ \<Rightarrow> i)"

text \<open>The switches: the index is written, the accepted rows are written, the artifact is written.\<close>

definition recordClosures ::
  "unicode \<Rightarrow> (jstr \<Rightarrow> jstr) \<Rightarrow> bool \<times> bool \<times> bool \<Rightarrow> closure_spec \<Rightarrow> json option \<Rightarrow> closure_state \<Rightarrow> closure_answer \<times> closure_state" where
  "recordClosures u digest ok sp received s =
     (let seq = Suc (length (ct_index s)); h = idSetHash digest received; open_ids = set_of (cs_openIds sp);
          index' = (if fst ok then ct_index s @ [(seq, h)] else ct_index s) in
      case priorCallWithIdSet (ct_index s) h of
        Some prior \<Rightarrow>
          let known = filter (\<lambda>i. i \<noteq> []) (map (\<lambda>l. js_trim (cl_id l)) (fst (readAcceptedClosures s) @ snd (readAcceptedClosures s))) in
          (\<lparr> ca_accepted = length (filter (\<lambda>i. i \<in> set known) (sent_ids received)), ca_refused = [],
             ca_still_open = filter (\<lambda>i. i \<notin> set known) open_ids, ca_repeat_of = Some prior \<rparr>,
           s\<lparr> ct_index := index' \<rparr>)
      | None \<Rightarrow>
          (case acceptClosureCall u sp (member (js ''closures'') received) of
             (accepted, refused) \<Rightarrow>
               let s' = s\<lparr> ct_index := index',
                   ct_files := (if fst (snd ok)
                     then AList.update (accepted_name seq) (toClosureLines accepted DoubtKind, toClosureLines accepted AskKind) (ct_files s)
                     else ct_files s) \<rparr> in
               (\<lparr> ca_accepted = length accepted, ca_refused = refused,
                  ca_still_open = filter (\<lambda>i. i \<notin> set (map accepted_closure_id accepted)) open_ids, ca_repeat_of = None \<rparr>,
                s'\<lparr> ct_artifact := (if snd (snd ok) then Some (renderClosureArtifact (readAcceptedClosures s')) else ct_artifact s) \<rparr>)))"

text \<open>What the pipeline does with the record: the doubts are closed by the doubt rows of all calls.\<close>

definition close_from_record :: "unicode \<Rightarrow> doubt list \<Rightarrow> closure_state \<Rightarrow> (jstr \<times> jstr) list \<Rightarrow> closure" where
  "close_from_record u doubts s fileTexts = applyClosure u doubts (fst (readAcceptedClosures s)) fileTexts"

end
