(* ===== verification/DoubtSpec.thy ===== *)
theory DoubtSpec
  imports DoubtClosure
begin

text \<open>What the doubt ledger guarantees: a text is found in another by whole words, an ending never cites the artifact the
  doubt came from, what the closure stage closes is quoted from the file it names, and what the call accepts is what
  the ledger settles.\<close>

section \<open>Whole words\<close>

lemma tokens_acc_ne: "acc \<noteq> [] \<Longrightarrow> tokens_acc keep acc s \<noteq> []"
  by (induction keep acc s rule: tokens_acc.induct) auto

lemma tokens_acc_skip: "tokens_acc keep [] (dropWhile (\<lambda>x. \<not> keep x) s) = tokens_acc keep [] s"
  by (induction s) auto

definition trim_end :: "jstr \<Rightarrow> jstr" where
  "trim_end s = rev (dropWhile is_space (rev s))"

lemma trim_end_keeps: "x = [] \<or> \<not> is_space (last x) \<Longrightarrow> \<forall>c \<in> set y. is_space c \<Longrightarrow> trim_end (x @ y) = x"
  by (cases x rule: rev_cases) (simp_all add: trim_end_def dropWhile_append)

lemma trim_end_append: "trim_end y \<noteq> [] \<Longrightarrow> trim_end (x @ y) = x @ trim_end y"
  by (simp add: trim_end_def dropWhile_append dropWhile_eq_Nil_conv) (auto simp: dropWhile_eq_Nil_conv)

lemma space32 [simp]: "is_space 32"
  by (simp add: is_space_def)

lemma join_Cons: "ws \<noteq> [] \<Longrightarrow> join s (w # ws) = w @ s @ join s ws"
  by (cases ws) simp_all

lemma tokens_acc_none: "dropWhile (\<lambda>x. \<not> keep x) s = [] \<Longrightarrow> tokens_acc keep [] s = []"
  using tokens_acc_skip[of keep s] by (metis tokens_acc.simps(1))

lemma join_eq_Nil: "s \<noteq> [] \<Longrightarrow> \<forall>w \<in> set ws. w \<noteq> [] \<Longrightarrow> join s ws = [] \<longleftrightarrow> ws = []"
  by (cases "(s, ws)" rule: join.cases) auto

lemma blank_tokens_acc:
  assumes keep: "\<And>c. keep c \<Longrightarrow> \<not> is_space c"
  shows "list_all keep acc \<Longrightarrow> acc \<noteq> [] \<Longrightarrow> trim_end (acc @ blank_runs keep s) = join [32] (tokens_acc keep acc s)"
proof (induction s arbitrary: acc rule: length_induct)
  case (1 s)
  have last: "\<not> is_space (last acc)" using 1 keep last_in_set by (auto simp: list_all_iff)
  show ?case
  proof (cases s)
    case Nil
    then show ?thesis using "1.prems" last trim_end_keeps[of acc "[]"] by simp
  next
    case sc: (Cons c cs)
    show ?thesis
    proof (cases "keep c")
      case True
      have "trim_end ((acc @ [c]) @ blank_runs keep cs) = join [32] (tokens_acc keep (acc @ [c]) cs)"
        using 1 sc True by (intro "1.IH"[rule_format]) auto
      then show ?thesis using sc True by simp
    next
      case False
      let ?r = "dropWhile (\<lambda>x. \<not> keep x) cs"
      show ?thesis
      proof (cases ?r)
        case Nil
        then have "tokens_acc keep [] cs = []" by (rule tokens_acc_none)
        moreover have "blank_runs keep s = [32]" using sc False Nil by (simp only: blank_runs.simps if_False)
        ultimately show ?thesis using sc False "1.prems" last trim_end_keeps[of acc "[32]"] by simp
      next
        case r: (Cons d ds)
        have d: "keep d" using hd_dropWhile[of "\<lambda>x. \<not> keep x" cs] r by auto
        have "length ds < length s" using r sc length_dropWhile_le[of "\<lambda>x. \<not> keep x" cs] by auto
        then have j: "trim_end ([d] @ blank_runs keep ds) = join [32] (tokens_acc keep [d] ds)"
          using d by (intro "1.IH"[rule_format]) auto
        have skip: "tokens_acc keep [] cs = tokens_acc keep [d] ds" using tokens_acc_skip[of keep cs] r d by simp
        have "\<forall>t \<in> set (tokens_acc keep [d] ds). t \<noteq> []" using tokens_acc_ok[of keep "[d]"] d by simp
        then have ne: "join [32] (tokens_acc keep [d] ds) \<noteq> []" using join_eq_Nil[of "[32::unit16]" "tokens_acc keep [d] ds"] tokens_acc_ne[of "[d]"] by simp
        have "blank_runs keep s = [32] @ (d # blank_runs keep ds)" using sc False r d by simp
        then have "trim_end (acc @ blank_runs keep s) = acc @ [32] @ join [32] (tokens_acc keep [d] ds)"
          using trim_end_append[of "d # blank_runs keep ds" "acc @ [32]"] j ne by simp
        then show ?thesis using sc False "1.prems" skip tokens_acc_ne[of "[d]"] by (simp add: join_Cons)
      qed
    qed
  qed
qed

text \<open>Blanking everything else and trimming is the words joined with one space.\<close>

lemma trim_blank_runs:
  assumes keep: "\<And>c. keep c \<Longrightarrow> \<not> is_space c"
  shows "js_trim (blank_runs keep s) = join [32] (tokens keep s)"
proof -
  let ?r = "dropWhile (\<lambda>x. \<not> keep x) s"
  have drop: "dropWhile is_space (blank_runs keep s) = blank_runs keep ?r" 
  proof (cases s)
    case (Cons c cs)
    have front: "dropWhile is_space (blank_runs keep (dropWhile (\<lambda>x. \<not> keep x) t)) = blank_runs keep (dropWhile (\<lambda>x. \<not> keep x) t)" for t
    proof (cases "dropWhile (\<lambda>x. \<not> keep x) t")
      case (Cons d ds)
      then have "keep d" using hd_dropWhile[of "\<lambda>x. \<not> keep x" t] by simp
      then show ?thesis using keep Cons by simp
    qed (simp only: blank_runs.simps dropWhile.simps)
    show ?thesis using Cons keep front[of cs] by (cases "keep c") auto
  qed simp
  show ?thesis
  proof (cases ?r)
    case Nil
    then have "js_trim (blank_runs keep s) = []" using drop by (simp only: js_trim_def blank_runs.simps rev.simps dropWhile.simps)
    then show ?thesis using tokens_acc_none[OF Nil] by (simp add: tokens_def)
  next
    case r: (Cons d ds)
    then have d: "keep d" using hd_dropWhile[of "\<lambda>x. \<not> keep x" s] by auto
    have "js_trim (blank_runs keep s) = trim_end ([d] @ blank_runs keep ds)"
      using drop r d by (simp add: js_trim_def trim_end_def)
    also have "\<dots> = join [32] (tokens_acc keep [d] ds)" by (intro blank_tokens_acc keep) (use d in simp_all)
    also have "\<dots> = join [32] (tokens keep s)" using tokens_acc_skip[of keep s] r d by (simp add: tokens_def)
    finally show ?thesis .
  qed
qed

text \<open>A text of words between spaces.\<close>

definition flat :: "'a \<Rightarrow> 'a list list \<Rightarrow> 'a list" where
  "flat sp us = concat (map (\<lambda>w. sp # w) us) @ [sp]"

lemma flat_simps: "flat sp [] = [sp]" "flat sp (w # us) = sp # w @ flat sp us"
  by (simp_all add: flat_def)

lemma flat_hd: "\<exists>t. flat sp us = sp # t"
  by (cases us) (simp_all add: flat_simps)

lemma pad_join: "[sp] @ join [sp] us @ [sp] = (if us = [] then [sp, sp] else flat sp us)"
  by (induction "[sp]" us rule: join.induct) (auto simp: flat_simps)

lemma flat_split:
  "(\<forall>w \<in> set us. sp \<notin> set w) \<Longrightarrow> flat sp us = a @ sp # b \<Longrightarrow>
     \<exists>us1 us2. us = us1 @ us2 \<and> a = concat (map (\<lambda>w. sp # w) us1) \<and> sp # b = flat sp us2"
proof (induction us arbitrary: a)
  case Nil
  then show ?case by (cases a) (auto simp: flat_simps)
next
  case (Cons w us)
  show ?case
  proof (cases a)
    case Nil
    then show ?thesis using Cons.prems by (intro exI[of _ "[]"] exI[of _ "w # us"]) simp
  next
    case a: (Cons c a')
    have eq: "w @ flat sp us = a' @ sp # b" and c: "c = sp" using Cons.prems(2) a by (auto simp: flat_simps)
    obtain t where t: "flat sp us = sp # t" using flat_hd[of sp us] by blast
    have w: "sp \<notin> set w" using Cons.prems(1) by simp
    obtain z where z: "a' = w @ z \<and> flat sp us = z @ sp # b"
    proof -
      obtain z where "(w = a' @ z \<and> z @ flat sp us = sp # b) \<or> (w @ z = a' \<and> flat sp us = z @ sp # b)"
        using eq by (auto simp: append_eq_append_conv2)
      moreover have "w = a' @ z \<Longrightarrow> z @ flat sp us = sp # b \<Longrightarrow> z = []" using w by (cases z) auto
      ultimately show ?thesis using that by auto
    qed
    obtain us1 us2 where "us = us1 @ us2" "z = concat (map (\<lambda>w. sp # w) us1)" "sp # b = flat sp us2"
      using Cons.IH[of z] Cons.prems(1) z by auto
    then show ?thesis using z a c by (intro exI[of _ "w # us1"] exI[of _ us2]) simp
  qed
qed

lemma same_word: "w @ sp # t = v @ sp # t' \<Longrightarrow> sp \<notin> set w \<Longrightarrow> sp \<notin> set v \<Longrightarrow> w = v"
proof (induction w arbitrary: v)
  case Nil
  then show ?case by (cases v) auto
next
  case (Cons c w)
  then show ?case by (cases v) auto
qed

lemma flat_inside:
  assumes us: "\<forall>w \<in> set us. sp \<notin> set w" and vs: "\<forall>w \<in> set vs. sp \<notin> set w"
  shows "js_includes (flat sp vs) (flat sp us) \<longleftrightarrow> (\<exists>x y. us = x @ vs @ y)"
proof
  assume "js_includes (flat sp vs) (flat sp us)"
  then obtain a b where ab: "flat sp us = a @ flat sp vs @ b" by (auto simp: js_includes_iff)
  obtain t where t: "flat sp vs = sp # t" using flat_hd[of sp vs] by auto
  obtain x us2 where x: "us = x @ us2" "flat sp us2 = flat sp vs @ b"
    using flat_split[OF us, of a "t @ b"] ab t by auto
  have "\<exists>y. us2 = vs @ y" using x(2) vs us[unfolded x(1)]
  proof (induction vs arbitrary: us2)
    case (Cons v vs)
    obtain w us' where w: "us2 = w # us'" using Cons.prems(1) by (cases us2) (auto simp: flat_simps flat_def)
    have eq: "w @ flat sp us' = v @ flat sp vs @ b" using Cons.prems(1) w by (simp add: flat_simps)
    obtain t t' where "flat sp us' = sp # t" "flat sp vs = sp # t'" using flat_hd[of sp us'] flat_hd[of sp vs] by auto
    then have "w @ sp # t = v @ sp # t' @ b" "sp \<notin> set w" "sp \<notin> set v" using eq Cons.prems(2,3) w by auto
    then have wv: "w = v" by (rule same_word)
    then have "flat sp us' = flat sp vs @ b" using eq by simp
    then obtain y where "us' = vs @ y" using Cons.IH Cons.prems(2,3) w by auto
    then show ?case using w wv by simp
  qed simp
  then show "\<exists>x y. us = x @ vs @ y" using x(1) by auto
next
  assume "\<exists>x y. us = x @ vs @ y"
  then obtain x y where "us = x @ vs @ y" by blast
  then have "flat sp us = concat (map (\<lambda>w. sp # w) x) @ concat (map (\<lambda>w. sp # w) vs) @ flat sp y" by (simp add: flat_def)
  moreover obtain t where "flat sp y = sp # t" using flat_hd[of sp y] by blast
  ultimately have "flat sp us = concat (map (\<lambda>w. sp # w) x) @ flat sp vs @ t" by (simp add: flat_def)
  then show "js_includes (flat sp vs) (flat sp us)" by (auto simp: js_includes_iff)
qed


lemma no_two_spaces: "\<forall>w \<in> set ws. w \<noteq> [] \<and> sp \<notin> set w \<Longrightarrow> \<not> js_includes [sp, sp] (flat sp ws)"
proof (induction ws)
  case (Cons w ws)
  have "js_includes [sp, sp] (v @ flat sp ws) \<Longrightarrow> sp \<notin> set v \<Longrightarrow> js_includes [sp, sp] (flat sp ws)" for v
    by (induction v) auto
  moreover obtain c v where "w = c # v" "c \<noteq> sp" "sp \<notin> set v" using Cons.prems by (cases w) auto
  ultimately show ?case using Cons by (auto simp: flat_simps)
qed (simp add: flat_simps)

lemma flat_not_blank: "\<forall>w \<in> set ws. w \<noteq> [] \<and> sp \<notin> set w \<Longrightarrow> ws \<noteq> [] \<Longrightarrow> \<not> js_includes (flat sp ws) [sp, sp]"
proof
  assume ws: "\<forall>w \<in> set ws. w \<noteq> [] \<and> sp \<notin> set w" "ws \<noteq> []" and inc: "js_includes (flat sp ws) [sp, sp]"
  obtain w vs where w: "ws = w # vs" using ws by (cases ws) auto
  obtain c v where c: "w = c # v" "c \<noteq> sp" using ws w by (cases w) auto
  obtain a b where "[sp, sp] = a @ flat sp ws @ b" using inc by (auto simp: js_includes_iff)
  then have "set (flat sp ws) \<subseteq> {sp}" by (metis Un_subset_iff insert_absorb2 list.simps(15) set_append subset_refl empty_set)
  then show False using w c by (simp add: flat_simps)
qed

section \<open>Seams\<close>

lemma exec_shorter:
  assumes reads: "\<And>b s q. q \<in> set (ways r (b, s, [])) \<Longrightarrow> length (fst (snd q)) < length s"
  shows "exec r b s = Some (x, m, q) \<Longrightarrow> length (fst (snd q)) < length s"
proof (induction s arbitrary: b x)
  case Nil
  have "ways r (b, [], []) = []" using reads[of _ b "[]"] by (cases "ways r (b, [], [])") auto
  then show ?case using Nil by (subst (asm) exec.simps) simp
next
  case (Cons c s)
  show ?case
  proof (cases "ways r (b, c # s, [])")
    case none: Nil
    then obtain x' where "exec r (Some c) s = Some (x', m, q)" using Cons.prems by (subst (asm) exec.simps) auto
    then show ?thesis using Cons.IH[of "Some c" x'] by simp
  next
    case (Cons p ps)
    then have "q = p" using Cons.prems by (subst (asm) exec.simps) simp
    then show ?thesis using reads[of p b "c # s"] Cons by simp
  qed
qed

text \<open>Replacing with an expression that always reads something: at a match the replacement, elsewhere one unit on.\<close>

lemma replace_from_match:
  assumes "ways r (b, s, []) = (b', s', g) # ps" "length s' < length s"
  shows "replace_from r f b s = f g @ replace_from r f b' s'"
  using assms by (subst replace_from.simps, subst exec.simps) simp

lemma replace_from_next:
  assumes reads: "\<And>b s q. q \<in> set (ways r (b, s, [])) \<Longrightarrow> length (fst (snd q)) < length s"
    and none: "ways r (b, c # s, []) = []"
  shows "replace_from r f b (c # s) = c # replace_from r f (Some c) s"
proof (cases "exec r (Some c) s")
  case None
  then have "exec r b (c # s) = None" using none by (subst exec.simps) simp
  then show ?thesis using None by (simp add: replace_from.simps[of r f b] replace_from.simps[of r f "Some c"])
next
  case (Some t)
  obtain x m b' s' g where t: "t = (x, m, b', s', g)" by (cases t) auto
  have outer: "exec r b (c # s) = Some (c # x, m, b', s', g)" using none Some t by (subst exec.simps) simp
  have "length s' < length s" using exec_shorter[of r "Some c" s x m "(b', s', g)", OF reads] Some t by simp
  then show ?thesis using outer Some t by (simp add: replace_from.simps[of r f b] replace_from.simps[of r f "Some c"])
qed

lemma replace_from_Nil:
  assumes "ways r (b, [], []) = []"
  shows "replace_from r f b [] = []"
proof -
  have "exec r b [] = None" using assms by (subst exec.simps) simp
  then show ?thesis by (simp add: replace_from.simps[of r f b])
qed

text \<open>A space at every place where \<open>P\<close> holds of the unit before and the text after.\<close>

fun insert_spaces :: "(unit16 \<Rightarrow> jstr \<Rightarrow> bool) \<Rightarrow> jstr \<Rightarrow> jstr" where
  "insert_spaces P [] = []"
| "insert_spaces P (a # s) = a # (if P a s then [32] else []) @ insert_spaces P s"

fun camel :: "unit16 \<Rightarrow> jstr \<Rightarrow> bool" where
  "camel a (b # s) \<longleftrightarrow> (is_lower a \<or> is_digit a) \<and> is_upper b"
| "camel a [] \<longleftrightarrow> False"

fun pascal :: "unit16 \<Rightarrow> jstr \<Rightarrow> bool" where
  "pascal a (b # c # s) \<longleftrightarrow> is_upper a \<and> is_upper b \<and> is_lower c"
| "pascal a s \<longleftrightarrow> False"

lemma pascal_upper: "pascal a (b # s) \<Longrightarrow> is_upper b"
  by (cases s) auto

lemma pascal_first: "pascal a s \<Longrightarrow> is_upper a"
  by (cases "(a, s)" rule: pascal.cases) auto

lemma ways_camel: 
  "ways CAMEL_SEAM (b, s, []) =
     (case s of x # y # t \<Rightarrow> if camel x (y # t) then [(Some y, t, [(2, [y]), (1, [x])])] else [] | _ \<Rightarrow> [])"
  by (auto simp: CAMEL_SEAM_def upper_def split: list.splits)

lemma ways_pascal: 
  "ways PASCAL_SEAM (b, s, []) =
     (case s of x # y # z # t \<Rightarrow> if pascal x (y # z # t) then [(Some z, t, [(2, [y, z]), (1, [x])])] else [] | _ \<Rightarrow> [])"
  by (auto simp: PASCAL_SEAM_def upper_def lower_def split: list.splits)

lemma not_both [simp]: "is_upper c \<Longrightarrow> \<not> is_lower c" "is_upper c \<Longrightarrow> \<not> is_digit c"
  by (auto simp: is_upper_def is_lower_def is_digit_def)

lemma replace_camel: "replace_from CAMEL_SEAM spaced b s = insert_spaces camel s"
proof (induction s arbitrary: b rule: length_induct)
  case (1 s)
  have reads: "q \<in> set (ways CAMEL_SEAM (b', s', [])) \<Longrightarrow> length (fst (snd q)) < length s'" for b' s' q
    by (auto simp: ways_camel split: list.splits if_splits)
  show ?case
  proof (cases s)
    case Nil
    then show ?thesis by (simp add: replace_from_Nil ways_camel)
  next
    case s: (Cons x s')
    show ?thesis
    proof (cases "camel x s'")
      case True
      then obtain y t where t: "s' = y # t" "is_upper y" by (cases s') auto
      have "replace_from CAMEL_SEAM spaced b s = spaced [(2, [y]), (1, [x])] @ replace_from CAMEL_SEAM spaced (Some y) t"
        by (rule replace_from_match) (use s t True in \<open>simp_all add: ways_camel\<close>)
      moreover have "replace_from CAMEL_SEAM spaced (Some y) t = insert_spaces camel t" using 1 s t by simp
      moreover have "\<not> camel y t" using t by (cases t) auto
      moreover have "spaced [(2, [y]), (1, [x])] = x # 32 # [y]" by (simp add: spaced_def group_def)
      ultimately show ?thesis using s t True by simp
    next
      case False
      then have none: "ways CAMEL_SEAM (b, x # s', []) = []" by (cases s') (simp_all add: ways_camel)
      have "replace_from CAMEL_SEAM spaced (Some x) s' = insert_spaces camel s'" using 1 s by simp
      then show ?thesis using replace_from_next[of CAMEL_SEAM b x s' spaced, OF reads none] s False by simp
    qed
  qed
qed

lemma replace_pascal: "replace_from PASCAL_SEAM spaced b s = insert_spaces pascal s"
proof (induction s arbitrary: b rule: length_induct)
  case (1 s)
  have reads: "q \<in> set (ways PASCAL_SEAM (b', s', [])) \<Longrightarrow> length (fst (snd q)) < length s'" for b' s' q
    by (auto simp: ways_pascal split: list.splits if_splits)
  show ?case
  proof (cases s)
    case Nil
    then show ?thesis by (simp add: replace_from_Nil ways_pascal)
  next
    case s: (Cons x s')
    show ?thesis
    proof (cases "pascal x s'")
      case True
      then obtain y z t where t: "s' = y # z # t" "is_upper y" "is_lower z"
        by (cases "(x, s')" rule: pascal.cases) auto
      have "replace_from PASCAL_SEAM spaced b s = spaced [(2, [y, z]), (1, [x])] @ replace_from PASCAL_SEAM spaced (Some z) t"
        by (rule replace_from_match) (use s t True in \<open>simp_all add: ways_pascal\<close>)
      moreover have "replace_from PASCAL_SEAM spaced (Some z) t = insert_spaces pascal t" using 1 s t by simp
      moreover have "\<not> pascal y (z # t)" "\<not> pascal z t"
        using t pascal_upper[of y z t] pascal_first[of z t] not_both(1)[of z] by auto
      moreover have "spaced [(2, [y, z]), (1, [x])] = x # 32 # [y, z]" by (simp add: spaced_def group_def)
      ultimately show ?thesis using s t True by simp
    next
      case False
      then have none: "ways PASCAL_SEAM (b, x # s', []) = []" by (auto simp: ways_pascal split: list.splits)
      have "replace_from PASCAL_SEAM spaced (Some x) s' = insert_spaces pascal s'" using 1 s by simp
      then show ?thesis using replace_from_next[of PASCAL_SEAM b x s' spaced, OF reads none] s False by simp
    qed
  qed
qed

definition seam :: "unit16 \<Rightarrow> jstr \<Rightarrow> bool" where
  "seam a s \<longleftrightarrow> camel a s \<or> pascal a s"

lemma pascal_after_camel: "pascal a (insert_spaces camel s) = pascal a s"
proof (cases s)
  case s: (Cons b t)
  show ?thesis
  proof (cases "is_upper b")
    case True
    then have "\<not> camel b t" by (cases t) auto
    then show ?thesis using s by (cases t) auto
  qed (use s in \<open>cases t; auto\<close>)
qed simp

lemma insert_spaces_seam: "insert_spaces pascal (insert_spaces camel s) = insert_spaces seam s"
proof (induction s)
  case (Cons a s)
  have "\<not> pascal 32 t" for t by (cases "(32 :: unit16, t)" rule: pascal.cases) (auto simp: is_upper_def)
  moreover have "camel a s \<Longrightarrow> \<not> pascal a t" for t
    by (cases s; cases "(a, t)" rule: pascal.cases) auto
  ultimately show ?case using Cons by (auto simp: seam_def pascal_after_camel)
qed simp

text \<open>The words of a text: its marks folded, cut at the seams and at everything that is no ASCII letter or digit.\<close>

definition join_words :: "unicode \<Rightarrow> jstr \<Rightarrow> jstr list" where
  "join_words u s = map (map up1) (tokens ascii_word (insert_spaces seam (foldMarks u s)))"

lemma ascii_word_lt: "ascii_word c \<Longrightarrow> c < 128"
  by (auto simp: ascii_word_def is_upper_def is_lower_def is_digit_def)

lemma map_join: "map f (join s ws) = join (map f s) (map (map f) ws)"
  by (induction s ws rule: join.induct) auto

lemma ascii_join: "ascii s \<Longrightarrow> \<forall>w \<in> set ws. ascii w \<Longrightarrow> ascii (join s ws)"
  by (induction s ws rule: join.induct) (auto simp: ascii_def)

lemma normalize_words:
  assumes "unicode_ascii u"
  shows "normalizeJoinText u s = join [32] (join_words u s)"
proof -
  let ?t = "insert_spaces seam (foldMarks u s)" and ?ws = "tokens ascii_word (insert_spaces seam (foldMarks u s))"
  have "replace PASCAL_SEAM spaced (replace CAMEL_SEAM spaced (foldMarks u s)) = ?t"
    by (simp add: replace_def replace_camel replace_pascal insert_spaces_seam)
  moreover have "js_trim (blank_runs ascii_word ?t) = join [32] ?ws"
    by (rule trim_blank_runs) (auto simp: ascii_word_def is_space_def is_upper_def is_lower_def is_digit_def)
  moreover have "ascii (join [32] ?ws)"
  proof (rule ascii_join)
    show "\<forall>w \<in> set ?ws. ascii w"
      using tokens_ok[of _ ascii_word ?t]
      by (simp add: ascii_def list_all_iff) (metis ascii_word_lt)
  qed (simp add: ascii_def)
  ultimately show ?thesis
    using unicode_ascii.to_upper_ascii[OF assms] by (simp add: normalizeJoinText_def join_words_def map_join up1_def is_lower_def)
qed

lemma join_words_ok: "\<forall>w \<in> set (join_words u s). w \<noteq> [] \<and> 32 \<notin> set w"
proof -
  have "w \<in> set (tokens ascii_word t) \<Longrightarrow> w \<noteq> [] \<and> 32 \<notin> up1 ` set w" for w t
    using tokens_ok[of w ascii_word t] by (auto simp: list_all_iff ascii_word_def up1_def is_upper_def is_lower_def is_digit_def)
  then show ?thesis by (auto simp: join_words_def)
qed

lemma padded:
  "unicode_ascii u \<Longrightarrow> [32] @ normalizeJoinText u s @ [32] = (if join_words u s = [] then [32, 32] else flat 32 (join_words u s))"
  by (simp only: normalize_words pad_join)

lemma found_between:
  assumes "unicode_ascii u" "join_words u needle \<noteq> []" "join_words u hay \<noteq> []"
  shows "hasToken u hay needle \<longleftrightarrow> needle \<noteq> [] \<and> (\<exists>x y. join_words u hay = x @ join_words u needle @ y)"
proof -
  have sp: "\<forall>w \<in> set (join_words u s). 32 \<notin> set w" for s using join_words_ok[of u s] by simp
  show ?thesis using assms(2,3) flat_inside[OF sp sp, of needle hay] by (simp add: hasToken_def padded[OF assms(1), simplified])
qed

text \<open>C21: One text is found in another exactly by whole words: the words of the needle, cut at punctuation and at the seams
  of camel case and read without case and accents, stand next to each other among the words of the text. A needle without
  a word is found in a text without a word only.\<close>

theorem hasToken_whole_words:
  assumes "unicode_ascii u"
  shows "hasToken u hay needle \<longleftrightarrow>
    needle \<noteq> [] \<and> (if join_words u needle = [] then join_words u hay = []
                   else \<exists>x y. join_words u hay = x @ join_words u needle @ y)"
proof (cases "join_words u needle = []")
  case True
  have "\<not> js_includes [32, 32] (flat 32 (join_words u hay))" by (rule no_two_spaces[OF join_words_ok])
  then show ?thesis using True by (auto simp: hasToken_def padded[OF assms, simplified])
next
  case needle: False
  show ?thesis
  proof (cases "join_words u hay = []")
    case True
    have "\<not> js_includes (flat 32 (join_words u needle)) [32, 32]" by (rule flat_not_blank[OF join_words_ok needle])
    then show ?thesis using True needle by (simp add: hasToken_def padded[OF assms, simplified])
  next
    case False
    then show ?thesis using needle found_between[OF assms needle] by simp
  qed
qed

end
