(* ===== verification/DoubtClosureSpec.thy ===== *)
theory DoubtClosureSpec
  imports DoubtSpec
begin

text \<open>What ends a doubt: the evidence the stitch may use and the citation the closure stage may use, and what a call
  accepts against what the ledger then settles.\<close>

section \<open>The stitch\<close>

text \<open>The evidence the run holds for a doubt: a finding that joins it, a coverage row that names it, or a line of the register
  findings.\<close>

definition evidence :: "unicode \<Rightarrow> json option \<Rightarrow> json option \<Rightarrow> jstr \<Rightarrow> subject \<Rightarrow> jstr \<Rightarrow> jstr \<Rightarrow> bool" where
  "evidence u findings coverageRows registerText s file quote \<longleftrightarrow>
     file = FINDINGS \<and> normalizeJoinText u (doubt_text s) \<noteq> []
       \<and> (\<exists>f \<in> set (finding_list findings). finding_joins u s f \<and> quote = findingEvidence f (action_list findings))
     \<or> file = COVERAGE \<and> (\<exists>r \<in> set (elems coverageRows). row_names u (shortJoinSignals u s) s r \<and> quote = row_evidence r)
     \<or> file = REGISTER \<and> (\<exists>l \<in> set (answerWatchlistLines registerText). line_names u s l \<and> quote = clip l)
     \<or> file = REGISTER \<and> (\<exists>l \<in> set (allContentLines registerText). twoTokenMatch u (shortJoinSignals u s) l \<and> quote = clip l)"

lemma first_ending_Some: "first_ending es = Some d \<Longrightarrow> Some d \<in> set es"
  by (induction es) (auto simp: first_ending_def List.map_filter_def split: option.splits list.splits if_splits)

lemma first_ending_None: "first_ending es = None \<longleftrightarrow> set es \<subseteq> {None}"
  by (induction es) (auto simp: first_ending_def List.map_filter_def split: option.splits list.splits if_splits)

lemma settle_Some: 
  "settle u d file quote = Some d' \<longleftrightarrow> \<not> citesOwnSource u d file
     \<and> d' = d\<lparr> db_ending := Some \<lparr> en_by = CodeStitch, en_file = file, en_quote = quote, en_reason = None \<rparr> \<rparr>"
  by (auto simp: settle_def)

lemma settle_None: "settle u d file quote = None \<longleftrightarrow> citesOwnSource u d file"
  by (simp add: settle_def)

lemma on_line_Some: "on_line u d P ls = Some d' \<Longrightarrow> \<exists>l \<in> set ls. P l \<and> settle u d REGISTER (clip l) = Some d'"
  by (auto simp: on_line_def find_Some_iff split: option.splits)

lemma on_line_None: "on_line u d P ls = None \<longleftrightarrow> citesOwnSource u d REGISTER \<or> (\<forall>l \<in> set ls. \<not> P l)"
  by (auto simp: on_line_def settle_None find_None_iff find_Some_iff split: option.splits)

definition from_findings :: "unicode \<Rightarrow> json list \<Rightarrow> json list \<Rightarrow> doubt \<Rightarrow> doubt option" where
  "from_findings u fs acts d =
     (case findingJoinFor u (db_subject d) fs of Some f \<Rightarrow> settle u d FINDINGS (findingEvidence f acts) | None \<Rightarrow> None)"

lemma from_findings_Some:
  "from_findings u fs acts d = Some d' \<Longrightarrow>
     normalizeJoinText u (doubt_text (db_subject d)) \<noteq> []
     \<and> (\<exists>f \<in> set fs. finding_joins u (db_subject d) f \<and> settle u d FINDINGS (findingEvidence f acts) = Some d')"
  by (auto simp: from_findings_def findingJoinFor_def find_Some_iff split: option.splits if_splits)

lemma from_findings_None:
  "from_findings u fs acts d = None \<longleftrightarrow>
     citesOwnSource u d FINDINGS \<or> normalizeJoinText u (doubt_text (db_subject d)) = []
     \<or> (\<forall>f \<in> set fs. \<not> finding_joins u (db_subject d) f)"
  by (auto simp: from_findings_def findingJoinFor_def settle_None find_None_iff find_Some_iff split: option.splits)

lemma stitch_one_cases:
  "stitch_one u fs acts rows text d =
     (let s = db_subject d; sig = shortJoinSignals u s in
      case first_ending (from_findings u fs acts d # map (\<lambda>r. settle u d COVERAGE (row_evidence r)) (filter (row_names u sig s) rows)
        @ [on_line u d (line_names u s) (answerWatchlistLines text), on_line u d (twoTokenMatch u sig) (allContentLines text)])
      of Some d' \<Rightarrow> d' | None \<Rightarrow> d\<lparr> db_ending := None \<rparr>)"
  by (simp add: stitch_one_def from_findings_def Let_def)

lemma settled_evidence:
  assumes "settle u d file quote = Some d'" "evidence u fv rv text (db_subject d) file quote"
  shows "\<exists>e. d' = d\<lparr> db_ending := Some e \<rparr> \<and> en_by e = CodeStitch \<and> \<not> citesOwnSource u d (en_file e)
    \<and> evidence u fv rv text (db_subject d) (en_file e) (en_quote e)"
  using assms by (auto simp: settle_Some)

lemma stitch_one_sound:
  assumes "first_ending (from_findings u (finding_list fv) (action_list fv) d
      # map (\<lambda>r. settle u d COVERAGE (row_evidence r)) (filter (row_names u (shortJoinSignals u (db_subject d)) (db_subject d)) (elems rv))
        @ [on_line u d (line_names u (db_subject d)) (answerWatchlistLines text),
           on_line u d (twoTokenMatch u (shortJoinSignals u (db_subject d))) (allContentLines text)]) = Some d'"
  shows "\<exists>e. d' = d\<lparr> db_ending := Some e \<rparr> \<and> en_by e = CodeStitch \<and> \<not> citesOwnSource u d (en_file e)
    \<and> evidence u fv rv text (db_subject d) (en_file e) (en_quote e)"
proof -
  let ?s = "db_subject d" and ?sig = "shortJoinSignals u (db_subject d)"
  consider (f) "from_findings u (finding_list fv) (action_list fv) d = Some d'"
    | (r) r where "r \<in> set (elems rv)" "row_names u ?sig ?s r" "settle u d COVERAGE (row_evidence r) = Some d'"
    | (w) "on_line u d (line_names u ?s) (answerWatchlistLines text) = Some d'"
    | (l) "on_line u d (twoTokenMatch u ?sig) (allContentLines text) = Some d'"
    using first_ending_Some[OF assms] by fastforce
  then show ?thesis
  proof cases
    case f
    then obtain g where "normalizeJoinText u (doubt_text ?s) \<noteq> []" "g \<in> set (finding_list fv)" "finding_joins u ?s g"
      and g: "settle u d FINDINGS (findingEvidence g (action_list fv)) = Some d'"
      using from_findings_Some by blast
    then show ?thesis by (intro settled_evidence[OF g]) (auto simp: evidence_def)
  next
    case r
    then show ?thesis by (intro settled_evidence[OF r(3)]) (auto simp: evidence_def)
  next
    case w
    then obtain t where "t \<in> set (answerWatchlistLines text)" "(line_names u ?s) t" and t: "settle u d REGISTER (clip t) = Some d'"
      using on_line_Some by blast
    then show ?thesis by (intro settled_evidence[OF t]) (auto simp: evidence_def)
  next
    case l
    then obtain t where "t \<in> set (allContentLines text)" "(twoTokenMatch u ?sig) t" and t: "settle u d REGISTER (clip t) = Some d'"
      using on_line_Some by blast
    then show ?thesis by (intro settled_evidence[OF t]) (auto simp: evidence_def)
  qed
qed

lemma stitch_one_ends:
  "(stitch_one u (finding_list fv) (action_list fv) (elems rv) text d)\<lparr> db_ending := None \<rparr> = d\<lparr> db_ending := None \<rparr>
       \<and> (case db_ending (stitch_one u (finding_list fv) (action_list fv) (elems rv) text d) of
            Some e \<Rightarrow> en_by e = CodeStitch \<and> \<not> citesOwnSource u d (en_file e)
              \<and> evidence u fv rv text (db_subject d) (en_file e) (en_quote e)
          | None \<Rightarrow> \<nexists>file quote. \<not> citesOwnSource u d file \<and> evidence u fv rv text (db_subject d) file quote)"
proof (cases "first_ending (from_findings u (finding_list fv) (action_list fv) d
    # map (\<lambda>r. settle u d COVERAGE (row_evidence r)) (filter (row_names u (shortJoinSignals u (db_subject d)) (db_subject d)) (elems rv))
      @ [on_line u d (line_names u (db_subject d)) (answerWatchlistLines text),
         on_line u d (twoTokenMatch u (shortJoinSignals u (db_subject d))) (allContentLines text)])")
  case None
  then have "\<nexists>file quote. \<not> citesOwnSource u d file \<and> evidence u fv rv text (db_subject d) file quote"
    by (auto simp: first_ending_None from_findings_None on_line_None settle_None image_subset_iff evidence_def)
  then show ?thesis using None by (simp add: stitch_one_cases Let_def)
next
  case (Some d')
  then show ?thesis using stitch_one_sound[OF Some] by (auto simp: stitch_one_cases Let_def)
qed

text \<open>C17: The stitch keeps every doubt, in order and unchanged but for its ending. A doubt it ends rests on evidence the run
  holds, in a file other than the one the doubt came from; a doubt it leaves open has no such evidence.\<close>

theorem stitch_ends_exactly_with_evidence:
  "length (stitchDoubts u ds fv rv text) = length ds
   \<and> (\<forall>n < length ds.
       (stitchDoubts u ds fv rv text ! n)\<lparr> db_ending := None \<rparr> = (ds ! n)\<lparr> db_ending := None \<rparr>
       \<and> (case db_ending (stitchDoubts u ds fv rv text ! n) of
            Some e \<Rightarrow> en_by e = CodeStitch \<and> \<not> citesOwnSource u (ds ! n) (en_file e)
              \<and> evidence u fv rv text (db_subject (ds ! n)) (en_file e) (en_quote e)
          | None \<Rightarrow> \<nexists>file quote. \<not> citesOwnSource u (ds ! n) file \<and> evidence u fv rv text (db_subject (ds ! n)) file quote))"
  using stitch_one_ends by (simp add: stitchDoubts_def)


section \<open>The closure\<close>

text \<open>A line that may settle a doubt: not from the file it came from, not on a presence doubt, and quoted from the file it names.\<close>

definition closes :: "unicode \<Rightarrow> (jstr \<times> jstr) list \<Rightarrow> doubt \<Rightarrow> jstr \<Rightarrow> jstr \<Rightarrow> bool" where
  "closes u texts d file quote \<longleftrightarrow>
     \<not> citesOwnSource u d file \<and> bi_place (db_birth d) \<noteq> PRESENCE_BIRTH_PLACE
     \<and> squash quote \<noteq> [] \<and> js_includes (squash quote) (squash (file_text texts file))"

definition closed_by :: "doubt \<Rightarrow> jstr \<Rightarrow> jstr \<Rightarrow> jstr \<Rightarrow> doubt" where
  "closed_by d file quote reason =
     d\<lparr> db_ending := Some \<lparr> en_by = DoubtClosureStage, en_file = file, en_quote = quote, en_reason = Some reason \<rparr> \<rparr>"

lemma closed_by_sel [simp]:
  "db_ending (closed_by d f q r) = Some \<lparr> en_by = DoubtClosureStage, en_file = f, en_quote = q, en_reason = Some r \<rparr>"
  "db_id (closed_by d f q r) = db_id d" "db_birth (closed_by d f q r) = db_birth d"
  "db_subject (closed_by d f q r) = db_subject d"
  by (simp_all add: closed_by_def)

lemma includes_Nil: "js_includes q [] \<longleftrightarrow> q = []"
  by simp

lemma settling_Some:
  "settling ls i = Some l \<Longrightarrow> l \<in> set ls \<and> (case l of SettledLine j _ _ _ \<Rightarrow> j = i | OpenLine _ _ \<Rightarrow> False)"
  unfolding settling_def find_Some_iff by (elim exE) (simp only: nth_mem simp_thms)

lemma settling_in: "settling ls i = Some l \<Longrightarrow> l \<in> set ls"
  using settling_Some by blast

lemma settling_cases:
  "settling ls i = None \<or> (\<exists>f q r. settling ls i = Some (SettledLine i f q r))"
proof (cases "settling ls i")
  case (Some l)
  then show ?thesis using settling_Some[OF Some] by (cases l) auto
qed simp

lemma close_doubt_settled [simp]: "db_ending d \<noteq> None \<Longrightarrow> close_doubt u ls texts d = (d, None)"
  by (simp add: close_doubt_def)

lemma close_doubt_silent: "settling ls (db_id d) = None \<Longrightarrow> close_doubt u ls texts d = (d, None)"
  by (simp add: close_doubt_def)

lemma close_doubt_line:
  assumes "db_ending d = None" "settling ls (db_id d) = Some (SettledLine i f q r)"
  shows "closes u texts d f q \<Longrightarrow> close_doubt u ls texts d = (closed_by d f q r, None)"
    and "\<not> closes u texts d f q \<Longrightarrow>
      \<exists>why. close_doubt u ls texts d = (d, Some \<lparr> uv_id = db_id d, uv_file = f, uv_quote = q, uv_why = why \<rparr>)"
  using assms by (auto simp: close_doubt_def closes_def closed_by_def Let_def)

lemma applyClosure_nth:
  "length (co_doubts (applyClosure u ds ls texts)) = length ds"
  "n < length ds \<Longrightarrow> co_doubts (applyClosure u ds ls texts) ! n = fst (close_doubt u ls texts (ds ! n))"
  by (simp_all add: applyClosure_def Let_def)

lemma set_map_filter: "set (List.map_filter f xs) = {y. \<exists>x \<in> set xs. f x = Some y}"
  by (auto simp: List.map_filter_def intro!: rev_image_eqI)

lemma applyClosure_unverified:
  "set (co_unverified (applyClosure u ds ls texts)) = {v. \<exists>d \<in> set ds. snd (close_doubt u ls texts d) = Some v}"
  by (simp add: applyClosure_def Let_def set_map_filter)

text \<open>The first settled line for an id.\<close>

definition first_for :: "closure_line list \<Rightarrow> jstr \<Rightarrow> jstr \<Rightarrow> jstr \<Rightarrow> jstr \<Rightarrow> bool" where
  "first_for ls i f q r \<longleftrightarrow>
     (\<exists>n < length ls. ls ! n = SettledLine i f q r \<and> (\<forall>m < n. \<forall>f' q' r'. ls ! m \<noteq> SettledLine i f' q' r'))"

lemma settling_first: "settling ls i = Some (SettledLine i f q r) \<longleftrightarrow> first_for ls i f q r"
proof -
  have "(case l of SettledLine j _ _ _ \<Rightarrow> j = i | OpenLine _ _ \<Rightarrow> False) \<longleftrightarrow> (\<exists>f q r. l = SettledLine i f q r)" for l
    by (cases l) auto
  then have e: "settling ls i = List.find (\<lambda>l. \<exists>f q r. l = SettledLine i f q r) ls" by (simp add: settling_def)
  show ?thesis unfolding e find_Some_iff first_for_def by (rule ex_cong1) auto
qed

text \<open>Why a line is not followed.\<close>

definition cause_of :: "unicode \<Rightarrow> doubt \<Rightarrow> jstr \<Rightarrow> refusal_cause" where
  "cause_of u d file =
     (if citesOwnSource u d file then OwnSource else if bi_place (db_birth d) = PRESENCE_BIRTH_PLACE then PresenceDoubt else NotVerbatim)"

definition report :: "unicode \<Rightarrow> doubt \<Rightarrow> jstr \<Rightarrow> jstr \<Rightarrow> unverified" where
  "report u d f q = \<lparr> uv_id = db_id d, uv_file = f, uv_quote = q, uv_why = cause_of u d f \<rparr>"

lemma close_doubt_first:
  assumes "db_ending d = None"
  shows "first_for ls (db_id d) f q r \<Longrightarrow> close_doubt u ls texts d =
      (if closes u texts d f q then (closed_by d f q r, None) else (d, Some (report u d f q)))"
    and "(\<nexists>f q r. first_for ls (db_id d) f q r) \<Longrightarrow> close_doubt u ls texts d = (d, None)"
proof -
  show "first_for ls (db_id d) f q r \<Longrightarrow> close_doubt u ls texts d =
      (if closes u texts d f q then (closed_by d f q r, None) else (d, Some (report u d f q)))"
    unfolding settling_first[symmetric] using assms
    by (auto simp: close_doubt_def closes_def closed_by_def report_def cause_of_def Let_def)
  show "(\<nexists>f q r. first_for ls (db_id d) f q r) \<Longrightarrow> close_doubt u ls texts d = (d, None)"
    unfolding settling_first[symmetric] using settling_cases[of ls "db_id d"] by (auto intro: close_doubt_silent)
qed

lemma first_for_one: "first_for ls i f q r \<Longrightarrow> first_for ls i f' q' r' \<Longrightarrow> f' = f \<and> q' = q \<and> r' = r"
  unfolding settling_first[symmetric] by simp

text \<open>A doubt with and without its ending.\<close>

lemma but_ending:
  assumes "x\<lparr> db_ending := None \<rparr> = d\<lparr> db_ending := None \<rparr>"
  shows "db_id x = db_id d" "db_birth x = db_birth d" "db_subject x = db_subject d" "db_ending x = None \<Longrightarrow> db_ending d = None \<Longrightarrow> x = d"
  using assms by (cases x; cases d; simp)+

lemma but_ending_same:
  assumes "x\<lparr> db_ending := None \<rparr> = d\<lparr> db_ending := None \<rparr>"
  shows "citesOwnSource u x = citesOwnSource u d" "closes u texts x = closes u texts d" "report u x = report u d"
  using but_ending[OF assms] by (simp_all add: citesOwnSource_def closes_def report_def cause_of_def fun_eq_iff)

text \<open>The evidence the stitch may use for a doubt.\<close>

definition answered :: "unicode \<Rightarrow> json option \<Rightarrow> json option \<Rightarrow> jstr \<Rightarrow> doubt \<Rightarrow> jstr \<Rightarrow> jstr \<Rightarrow> bool" where
  "answered u fv rv text d file quote \<longleftrightarrow> \<not> citesOwnSource u d file \<and> evidence u fv rv text (db_subject d) file quote"

lemma stitch_then_close:
  fixes u fv rv "text" ls texts d
  defines "x \<equiv> stitch_one u (finding_list fv) (action_list fv) (elems rv) text d"
  shows "(fst (close_doubt u ls texts x))\<lparr> db_ending := None \<rparr> = d\<lparr> db_ending := None \<rparr>"
    and "db_ending (fst (close_doubt u ls texts x)) = Some e \<Longrightarrow>
      en_by e = CodeStitch \<and> answered u fv rv text d (en_file e) (en_quote e)
      \<or> (\<nexists>file quote. answered u fv rv text d file quote)
        \<and> (\<exists>f q r. first_for ls (db_id d) f q r \<and> closes u texts d f q
             \<and> e = \<lparr> en_by = DoubtClosureStage, en_file = f, en_quote = q, en_reason = Some r \<rparr>)"
    and "db_ending (fst (close_doubt u ls texts x)) = None \<Longrightarrow>
      (\<nexists>file quote. answered u fv rv text d file quote)
      \<and> (\<forall>f q r. first_for ls (db_id d) f q r \<longrightarrow> \<not> closes u texts d f q)"
    and "snd (close_doubt u ls texts x) = Some v \<longleftrightarrow>
      (\<nexists>file quote. answered u fv rv text d file quote)
      \<and> (\<exists>f q r. first_for ls (db_id d) f q r \<and> \<not> closes u texts d f q \<and> v = report u d f q)"
proof -
  have x: "x\<lparr> db_ending := None \<rparr> = d\<lparr> db_ending := None \<rparr>"
    and ends: "case db_ending x of Some e \<Rightarrow> en_by e = CodeStitch \<and> answered u fv rv text d (en_file e) (en_quote e)
      | None \<Rightarrow> \<nexists>file quote. answered u fv rv text d file quote"
    using stitch_one_ends[of u fv rv "text" d] unfolding x_def answered_def by blast+
  note same = but_ending(1)[OF x] but_ending_same[OF x]
  have "((fst (close_doubt u ls texts x))\<lparr> db_ending := None \<rparr> = d\<lparr> db_ending := None \<rparr>)
    \<and> (\<forall>e. db_ending (fst (close_doubt u ls texts x)) = Some e \<longrightarrow>
      en_by e = CodeStitch \<and> answered u fv rv text d (en_file e) (en_quote e)
      \<or> (\<nexists>file quote. answered u fv rv text d file quote)
        \<and> (\<exists>f q r. first_for ls (db_id d) f q r \<and> closes u texts d f q
             \<and> e = \<lparr> en_by = DoubtClosureStage, en_file = f, en_quote = q, en_reason = Some r \<rparr>))
    \<and> (db_ending (fst (close_doubt u ls texts x)) = None \<longrightarrow>
      (\<nexists>file quote. answered u fv rv text d file quote)
      \<and> (\<forall>f q r. first_for ls (db_id d) f q r \<longrightarrow> \<not> closes u texts d f q))
    \<and> (snd (close_doubt u ls texts x) = Some v \<longleftrightarrow>
      (\<nexists>file quote. answered u fv rv text d file quote)
      \<and> (\<exists>f q r. first_for ls (db_id d) f q r \<and> \<not> closes u texts d f q \<and> v = report u d f q))"
  proof (cases "db_ending x")
    case (Some e)
    then show ?thesis using ends x by auto
  next
    case None
    then have open_: "\<nexists>file quote. answered u fv rv text d file quote" using ends by simp
    show ?thesis
    proof (cases "\<exists>f q r. first_for ls (db_id d) f q r")
      case True
      then obtain f q r where l: "first_for ls (db_id d) f q r" by blast
      have c: "close_doubt u ls texts x = (if closes u texts d f q then (closed_by x f q r, None) else (x, Some (report u d f q)))"
        using close_doubt_first(1)[OF None, of ls f q r u texts] l unfolding same by simp
      have "(closed_by x f q r)\<lparr> db_ending := None \<rparr> = d\<lparr> db_ending := None \<rparr>" using x by (simp add: closed_by_def)
      moreover have "first_for ls (db_id d) f' q' r' \<longleftrightarrow> f' = f \<and> q' = q \<and> r' = r" for f' q' r'
        using l first_for_one[OF l] by blast
      ultimately show ?thesis using open_ None x unfolding c by (cases "closes u texts d f q") auto
    next
      case False
      then have "close_doubt u ls texts x = (x, None)" using close_doubt_first(2)[OF None, of ls u texts] unfolding same by blast
      then show ?thesis using open_ None x False by simp
    qed
  qed
  then show "(fst (close_doubt u ls texts x))\<lparr> db_ending := None \<rparr> = d\<lparr> db_ending := None \<rparr>"
    and "db_ending (fst (close_doubt u ls texts x)) = Some e \<Longrightarrow>
      en_by e = CodeStitch \<and> answered u fv rv text d (en_file e) (en_quote e)
      \<or> (\<nexists>file quote. answered u fv rv text d file quote)
        \<and> (\<exists>f q r. first_for ls (db_id d) f q r \<and> closes u texts d f q
             \<and> e = \<lparr> en_by = DoubtClosureStage, en_file = f, en_quote = q, en_reason = Some r \<rparr>)"
    and "db_ending (fst (close_doubt u ls texts x)) = None \<Longrightarrow>
      (\<nexists>file quote. answered u fv rv text d file quote)
      \<and> (\<forall>f q r. first_for ls (db_id d) f q r \<longrightarrow> \<not> closes u texts d f q)"
    and "snd (close_doubt u ls texts x) = Some v \<longleftrightarrow>
      (\<nexists>file quote. answered u fv rv text d file quote)
      \<and> (\<exists>f q r. first_for ls (db_id d) f q r \<and> \<not> closes u texts d f q \<and> v = report u d f q)"
    by blast+
qed

text \<open>C18: From the stitch through the closure stage, what becomes of a doubt: it is kept as it was but for its ending. It is
  ended by the stitch on evidence in another file than the one it came from; or, where the run holds no such evidence, by
  the first settled line for it, if that line cites another file, quotes it, and the doubt is no presence doubt; or it stays
  open, and then there is no such evidence and its first line, if there is one, does not close it. The lines reported are
  exactly those first lines that do not close their doubt, each with the cause.\<close>

theorem closure_settles_exactly:
  "length (co_doubts (applyClosure u (stitchDoubts u ds fv rv text) ls texts)) = length ds
   \<and> (\<forall>n < length ds.
       (co_doubts (applyClosure u (stitchDoubts u ds fv rv text) ls texts) ! n)\<lparr> db_ending := None \<rparr> = (ds ! n)\<lparr> db_ending := None \<rparr>
       \<and> (case db_ending (co_doubts (applyClosure u (stitchDoubts u ds fv rv text) ls texts) ! n) of
            Some e \<Rightarrow>
              en_by e = CodeStitch \<and> answered u fv rv text (ds ! n) (en_file e) (en_quote e)
              \<or> (\<nexists>file quote. answered u fv rv text (ds ! n) file quote)
                \<and> (\<exists>f q r. first_for ls (db_id (ds ! n)) f q r \<and> closes u texts (ds ! n) f q
                     \<and> e = \<lparr> en_by = DoubtClosureStage, en_file = f, en_quote = q, en_reason = Some r \<rparr>)
          | None \<Rightarrow>
              (\<nexists>file quote. answered u fv rv text (ds ! n) file quote)
              \<and> (\<forall>f q r. first_for ls (db_id (ds ! n)) f q r \<longrightarrow> \<not> closes u texts (ds ! n) f q)))
   \<and> set (co_unverified (applyClosure u (stitchDoubts u ds fv rv text) ls texts)) =
       {v. \<exists>d f q r. d \<in> set ds \<and> (\<nexists>file quote. answered u fv rv text d file quote)
          \<and> first_for ls (db_id d) f q r \<and> \<not> closes u texts d f q \<and> v = report u d f q}"
proof (intro conjI allI impI)
  let ?x = "stitch_one u (finding_list fv) (action_list fv) (elems rv) text"
  have len: "length (stitchDoubts u ds fv rv text) = length ds" by (simp add: stitchDoubts_def)
  then show "length (co_doubts (applyClosure u (stitchDoubts u ds fv rv text) ls texts)) = length ds" by (simp add: applyClosure_nth)
  fix n assume n: "n < length ds"
  then have at: "co_doubts (applyClosure u (stitchDoubts u ds fv rv text) ls texts) ! n = fst (close_doubt u ls texts (?x (ds ! n)))"
    using applyClosure_nth(2)[of n "stitchDoubts u ds fv rv text"] len by (simp add: stitchDoubts_def)
  show "(co_doubts (applyClosure u (stitchDoubts u ds fv rv text) ls texts) ! n)\<lparr> db_ending := None \<rparr> = (ds ! n)\<lparr> db_ending := None \<rparr>"
    unfolding at by (rule stitch_then_close)
  show "case db_ending (co_doubts (applyClosure u (stitchDoubts u ds fv rv text) ls texts) ! n) of
            Some e \<Rightarrow>
              en_by e = CodeStitch \<and> answered u fv rv text (ds ! n) (en_file e) (en_quote e)
              \<or> (\<nexists>file quote. answered u fv rv text (ds ! n) file quote)
                \<and> (\<exists>f q r. first_for ls (db_id (ds ! n)) f q r \<and> closes u texts (ds ! n) f q
                     \<and> e = \<lparr> en_by = DoubtClosureStage, en_file = f, en_quote = q, en_reason = Some r \<rparr>)
          | None \<Rightarrow>
              (\<nexists>file quote. answered u fv rv text (ds ! n) file quote)
              \<and> (\<forall>f q r. first_for ls (db_id (ds ! n)) f q r \<longrightarrow> \<not> closes u texts (ds ! n) f q)"
  proof (cases "db_ending (fst (close_doubt u ls texts (?x (ds ! n))))")
    case None
    show ?thesis unfolding at None option.case by (rule stitch_then_close(3)[OF None])
  next
    case (Some e)
    show ?thesis unfolding at Some option.case by (rule stitch_then_close(2)[OF Some])
  qed
next
  show "set (co_unverified (applyClosure u (stitchDoubts u ds fv rv text) ls texts)) =
       {v. \<exists>d f q r. d \<in> set ds \<and> (\<nexists>file quote. answered u fv rv text d file quote)
          \<and> first_for ls (db_id d) f q r \<and> \<not> closes u texts d f q \<and> v = report u d f q}"
    unfolding applyClosure_unverified stitchDoubts_def by (auto simp: stitch_then_close(4) simp del: not_ex)
qed

section \<open>What the call accepts\<close>

lemma nonspace_squeeze: "\<exists>c \<in> set s. \<not> is_space c \<Longrightarrow> \<exists>c \<in> set (squeeze s). \<not> is_space c"
proof (induction s rule: squeeze.induct)
  case (2 c cs)
  have "\<exists>d \<in> set cs. \<not> is_space d \<Longrightarrow> \<exists>d \<in> set (dropWhile is_space cs). \<not> is_space d" by (induction cs) auto
  then show ?case using 2 by auto
qed simp

lemma trim_eq_Nil: "js_trim s = [] \<longleftrightarrow> (\<forall>c \<in> set s. is_space c)"
proof
  assume "js_trim s = []"
  then have all: "\<forall>c \<in> set (dropWhile is_space s). is_space c" by (simp add: js_trim_def)
  then have "dropWhile is_space s = []" using hd_dropWhile[of is_space s] by (metis list.set_sel(1))
  then show "\<forall>c \<in> set s. is_space c" by (simp add: dropWhile_eq_Nil_conv)
next
  assume "\<forall>c \<in> set s. is_space c"
  then show "js_trim s = []" by (simp add: js_trim_def) (auto dest: set_dropWhileD)
qed

lemma nonspace_unescape: "\<exists>c \<in> set s. \<not> is_space c \<Longrightarrow> \<exists>c \<in> set (repl 0 [92, 34] [34] s). \<not> is_space c"
proof (induction s)
  case (Cons c s)
  have "\<not> is_space 34" by (simp add: is_space_def)
  then show ?case using Cons by (auto simp del: starts_with.simps)
qed simp

lemma squash_ne: "js_trim s \<noteq> [] \<Longrightarrow> squash s \<noteq> []"
  using nonspace_squeeze nonspace_unescape by (simp add: squash_def trim_eq_Nil replace_all_def)
end
