(* ===== verification/DoubtCalls.thy ===== *)
theory DoubtCalls
  imports DoubtClosureSpec
begin

text \<open>The call of the closure stage against the ledger: what a call accepts is checked, recorded, kept by later calls, and
  settled when the pipeline applies the record.\<close>

section \<open>One row\<close>

lemma accept_id: "acceptClosure u sp r = Inr a \<Longrightarrow> accepted_closure_id a = refused_id r \<and> refused_id r \<noteq> [] \<and> refused_id r \<in> set (cs_openIds sp)"
  by (auto simp: acceptClosure_def check_citation_def Let_def refused_id_def accepted_closure_id_def
      split: option.splits if_splits json.splits)

text \<open>A citation that stands: of a file given, not the one the doubt came from, whose text holds the quote.\<close>

definition stands :: "unicode \<Rightarrow> closure_spec \<Rightarrow> jstr \<Rightarrow> jstr \<Rightarrow> jstr \<Rightarrow> bool" where
  "stands u sp i f q \<longleftrightarrow>
     i \<in> set (cs_openIds sp) \<and> f \<in> set (cs_files sp) \<and> \<not> own_artifact u (map_of (cs_bornIn sp) i) f
     \<and> squash q \<noteq> [] \<and> js_includes (squash q) (squash (file_text (cs_texts sp) f))"

lemma check_citation_stands:
  "check_citation u sp k i reason row = Inr a \<Longrightarrow>
     \<exists>f q. a = AcceptedClosed k i f q reason \<and> f \<in> set (cs_files sp) \<and> \<not> own_artifact u (map_of (cs_bornIn sp) i) f
       \<and> squash q \<noteq> [] \<and> js_includes (squash q) (squash (file_text (cs_texts sp) f))"
  by (auto simp: check_citation_def Let_def str_of_def squash_ne split: option.splits json.splits if_splits)

lemma accept_stands: "acceptClosure u sp r = Inr (AcceptedClosed k i f q reason) \<Longrightarrow> stands u sp i f q"
  using accept_id[of u sp r] 
  by (auto simp: acceptClosure_def Let_def stands_def accepted_closure_id_def refused_id_def
      split: option.splits if_splits dest!: check_citation_stands)

section \<open>One call\<close>

lemma take_closures_from:
  "a \<in> set (fst (take_closures u sp seen rs)) \<Longrightarrow> accepted_closure_id a \<notin> set seen \<and> (\<exists>r \<in> set rs. acceptClosure u sp r = Inr a)"
  by (induction u sp seen rs rule: take_closures.induct)
    (auto simp: Let_def accept_id apsnd_def apfst_def map_prod_def split: if_splits sum.splits prod.splits)

lemma take_closures_distinct: "distinct (map accepted_closure_id (fst (take_closures u sp seen rs)))"
proof (induction u sp seen rs rule: take_closures.induct)
  case (2 u sp seen r rs)
  show ?case
  proof (cases "refused_id r \<noteq> [] \<and> refused_id r \<in> set seen")
    case True
    then show ?thesis using "2.IH"(1)[OF refl True] by (simp add: Let_def)
  next
    case False
    show ?thesis
    proof (cases "acceptClosure u sp r")
      case (Inl why)
      then show ?thesis using "2.IH"(2)[OF refl False] False by (auto simp: Let_def)
    next
      case (Inr a)
      then have i: "accepted_closure_id a = refused_id r" "refused_id r \<noteq> []" using accept_id by blast+
      let ?rest = "fst (take_closures u sp (refused_id r # seen) rs)"
      have d: "distinct (map accepted_closure_id ?rest)" using "2.IH"(3)[OF refl False Inr] i by simp
      have "\<forall>b \<in> set ?rest. accepted_closure_id b \<noteq> refused_id r"
        using take_closures_from[of _ u sp "refused_id r # seen" rs] by fastforce
      then have new: "accepted_closure_id a \<notin> accepted_closure_id ` set ?rest" unfolding i(1) by (metis imageE)
      have "fst (take_closures u sp seen (r # rs)) = a # ?rest" using False Inr i by (auto simp: Let_def)
      then show ?thesis using d new by simp
    qed
  qed
qed simp

definition accepted_of :: "unicode \<Rightarrow> closure_spec \<Rightarrow> json option \<Rightarrow> accepted_closure list" where
  "accepted_of u sp received = fst (acceptClosureCall u sp (member (js ''closures'') received))"

lemma accepted_of_stands: "AcceptedClosed k i f q reason \<in> set (accepted_of u sp received) \<Longrightarrow> stands u sp i f q"
  by (auto simp: accepted_of_def acceptClosureCall_def Let_def split: if_splits dest!: take_closures_from accept_stands)

lemma accepted_of_one:
  assumes "a \<in> set (accepted_of u sp received)" "b \<in> set (accepted_of u sp received)"
    and "accepted_closure_id a = accepted_closure_id b"
  shows "a = b"
proof -
  have "distinct (map accepted_closure_id (accepted_of u sp received))"
    by (simp add: accepted_of_def acceptClosureCall_def Let_def take_closures_distinct)
  then show ?thesis using assms by (auto simp: distinct_map dest: inj_onD)
qed

lemma closure_line_of: 
  "SettledLine i f q r \<in> set (toClosureLines accepted k) \<longleftrightarrow> AcceptedClosed k i f q r \<in> set accepted"
proof -
  have "to_line k a = Some (SettledLine i f q r) \<longleftrightarrow> a = AcceptedClosed k i f q r" for a
    by (cases a) (auto simp: to_line_def)
  then show ?thesis by (simp add: toClosureLines_def set_map_filter)
qed

section \<open>The record\<close>

definition doubt_rows :: "closure_state \<Rightarrow> closure_line set" where
  "doubt_rows s = set (fst (readAcceptedClosures s))"

lemma doubt_rows_files: "doubt_rows s = (\<Union>x \<in> set (ct_files s). set (fst (snd x)))"
  by (auto simp: doubt_rows_def readAcceptedClosures_def Let_def)

lemma update_other: "k \<noteq> k' \<Longrightarrow> (k', v') \<in> set (AList.update k v al) \<longleftrightarrow> (k', v') \<in> set al"
  by (induction al) auto

lemma update_new: "(k, v) \<in> set (AList.update k v al)"
  by (induction al) auto

lemma update_from: "x \<in> set (AList.update k v al) \<Longrightarrow> x = (k, v) \<or> x \<in> set al"
  by (induction al) (auto split: if_splits)

lemma update_key: "x \<in> set (AList.update k v al) \<Longrightarrow> fst x = k \<or> x \<in> set al"
  using update_from by fastforce

lemma record_repeat:
  "priorCallWithIdSet (ct_index s) (idSetHash digest received) \<noteq> None \<Longrightarrow>
     ct_files (snd (recordClosures u digest ok sp received s)) = ct_files s"
  by (auto simp: recordClosures_def Let_def)

lemma record_files:
  "priorCallWithIdSet (ct_index s) (idSetHash digest received) = None \<Longrightarrow>
     ct_files (snd (recordClosures u digest (ix, True, ra) sp received s)) =
       AList.update (accepted_name (Suc (length (ct_index s))))
         (toClosureLines (accepted_of u sp received) DoubtKind, toClosureLines (accepted_of u sp received) AskKind) (ct_files s)"
  by (simp add: recordClosures_def Let_def accepted_of_def split: prod.split)

lemma record_from:
  "doubt_rows (snd (recordClosures u digest ok sp received s)) \<subseteq>
     doubt_rows s \<union> set (toClosureLines (accepted_of u sp received) DoubtKind)"
  by (auto simp: recordClosures_def Let_def accepted_of_def doubt_rows_files split: prod.splits option.splits if_splits dest!: update_from)

lemma call_not_repeat:
  "ca_repeat_of (fst (recordClosures u digest ok sp received s)) = priorCallWithIdSet (ct_index s) (idSetHash digest received)"
  by (auto simp: recordClosures_def Let_def split: prod.split option.split)

section \<open>Accepted is settled\<close>

lemma settling_only:
  assumes "SettledLine i f q r \<in> set ls" "\<forall>f' q' r'. SettledLine i f' q' r' \<in> set ls \<longrightarrow> f' = f \<and> q' = q \<and> r' = r"
  shows "settling ls i = Some (SettledLine i f q r)"
proof (cases "settling ls i")
  case None
  then show ?thesis using assms(1) by (auto simp: settling_def find_None_iff)
next
  case (Some l)
  then show ?thesis using settling_Some[OF Some] assms(2) by (cases l) auto
qed

text \<open>C19: What a call accepts of kind doubt for an open doubt is what the pipeline settles from the record, with that file, quote and
  reason: where no earlier call ruled on the doubt, the file of accepted rows is written, the texts are the same and the
  doubt's birth was given with it. A presence doubt is the exception.\<close>

theorem accepted_is_settled:
  assumes ascii: "unicode_ascii u"
    and call: "ca_repeat_of (fst (recordClosures u digest (ix, True, ra) sp received s)) = None"
    and acc: "AcceptedClosed DoubtKind (db_id d) f q r \<in> set (accepted_of u sp received)"
    and first: "\<forall>f' q' r'. SettledLine (db_id d) f' q' r' \<notin> set (fst (readAcceptedClosures s))"
    and open_: "d \<in> set ds" "db_ending d = None"
    and born: "map_of (cs_bornIn sp) (db_id d) = Some (bi_artifact (db_birth d))"
    and place: "bi_place (db_birth d) \<noteq> PRESENCE_BIRTH_PLACE"
  shows "closed_by d f q r \<in> set (co_doubts
     (close_from_record u ds (snd (recordClosures u digest (ix, True, ra) sp received s)) (cs_texts sp)))"
proof -
  let ?s' = "snd (recordClosures u digest (ix, True, ra) sp received s)"
  let ?ls = "fst (readAcceptedClosures ?s')"
  have files: "ct_files ?s' = AList.update (accepted_name (Suc (length (ct_index s))))
      (toClosureLines (accepted_of u sp received) DoubtKind, toClosureLines (accepted_of u sp received) AskKind) (ct_files s)"
    using call record_files unfolding call_not_repeat by blast
  have there: "SettledLine (db_id d) f q r \<in> doubt_rows ?s'"
    unfolding doubt_rows_files files using acc update_new by (force simp: closure_line_of[symmetric])
  have only: "f' = f \<and> q' = q \<and> r' = r" if "SettledLine (db_id d) f' q' r' \<in> doubt_rows ?s'" for f' q' r'
  proof -
    have "AcceptedClosed DoubtKind (db_id d) f' q' r' \<in> set (accepted_of u sp received)"
      using record_from that first by (fastforce simp: doubt_rows_def closure_line_of)
    then have "AcceptedClosed DoubtKind (db_id d) f q r = AcceptedClosed DoubtKind (db_id d) f' q' r'"
      by (intro accepted_of_one[OF acc]) (simp_all add: accepted_closure_id_def)
    then show ?thesis by simp
  qed
  have l: "settling ?ls (db_id d) = Some (SettledLine (db_id d) f q r)"
    by (rule settling_only[OF there[unfolded doubt_rows_def]]) (intro allI impI only, simp only: doubt_rows_def)
  have "to_lower u [] = []" using unicode_ascii.to_lower_ascii[OF ascii, of "[]"] by (simp add: ascii_def)
  then have "\<not> citesOwnSource u d f"
    using accepted_of_stands[OF acc] born by (auto simp: stands_def own_artifact_def citesOwnSource_def baseName_def Let_def)
  then have "closes u (cs_texts sp) d f q" using accepted_of_stands[OF acc] place by (simp add: closes_def stands_def)
  then have c: "close_doubt u ?ls (cs_texts sp) d = (closed_by d f q r, None)" using close_doubt_line(1)[OF open_(2) l] by blast
  obtain n where n: "n < length ds" "ds ! n = d" using open_(1) by (auto simp: in_set_conv_nth)
  have "co_doubts (close_from_record u ds ?s' (cs_texts sp)) ! n = closed_by d f q r"
    using applyClosure_nth(2)[OF n(1)] c n(2) by (simp add: close_from_record_def)
  moreover have "n < length (co_doubts (close_from_record u ds ?s' (cs_texts sp)))"
    using n by (simp add: close_from_record_def applyClosure_nth)
  ultimately show ?thesis by (auto simp: in_set_conv_nth)
qed

section \<open>Over the calls of a stage\<close>

lemma accepted_name_inj: "accepted_name m = accepted_name n \<Longrightarrow> m = n"
proof -
  have none: "number_of (replicate k 48) = 0" for k
  proof (induction k)
    case (Suc k)
    have "replicate (Suc k) (48 :: unit16) = replicate k 48 @ [48]" by (simp add: replicate_append_same)
    then show ?case using Suc by (simp only: number_of_snoc)
  qed simp
  have zeros: "number_of (replicate k 48 @ s) = number_of s" for k s
  proof (induction s rule: rev_induct)
    case Nil
    show ?case by (simp add: none)
  next
    case (snoc d s)
    then show ?case using number_of_snoc by (metis append.assoc)
  qed
  assume "accepted_name m = accepted_name n"
  then have "number_of (replicate (3 - length (int_text (int m))) 48 @ int_text (int m))
      = number_of (replicate (3 - length (int_text (int n))) 48 @ int_text (int n))"
    by (simp add: accepted_name_def Let_def del: js_Cons)
  then show "m = n" by (simp only: zeros pid_text)
qed

definition numbered :: "closure_state \<Rightarrow> bool" where
  "numbered s \<longleftrightarrow> (\<forall>x \<in> set (ct_files s). \<exists>n \<le> length (ct_index s). fst x = accepted_name n)"

lemma record_step:
  assumes "numbered s"
  shows "numbered (snd (recordClosures u digest (True, w) sp received s))
    \<and> doubt_rows s \<subseteq> doubt_rows (snd (recordClosures u digest (True, w) sp received s))"
proof -
  let ?s' = "snd (recordClosures u digest (True, w) sp received s)"
  have idx: "length (ct_index ?s') = Suc (length (ct_index s))" by (simp add: recordClosures_def Let_def split: prod.split option.split)
  have old: "ct_files ?s' = ct_files s \<or> (\<exists>v. ct_files ?s' = AList.update (accepted_name (Suc (length (ct_index s)))) v (ct_files s))"
    by (auto simp: recordClosures_def Let_def split: prod.split option.split)
  have "numbered ?s'"
    unfolding numbered_def
  proof
    fix x assume "x \<in> set (ct_files ?s')"
    then have "fst x = accepted_name (Suc (length (ct_index s))) \<or> x \<in> set (ct_files s)" using old update_key by metis
    moreover have "x \<in> set (ct_files s) \<Longrightarrow> \<exists>n \<le> length (ct_index s). fst x = accepted_name n"
      using assms by (simp add: numbered_def)
    ultimately show "\<exists>n \<le> length (ct_index ?s'). fst x = accepted_name n" unfolding idx using le_SucI by blast
  qed
  moreover have "(k, v) \<in> set (ct_files ?s')" if kv: "(k, v) \<in> set (ct_files s)" for k v
  proof -
    obtain n where "n \<le> length (ct_index s)" "k = accepted_name n" using assms kv by (auto simp: numbered_def)
    then have "accepted_name (Suc (length (ct_index s))) \<noteq> k" using accepted_name_inj by fastforce
    then show ?thesis using old kv update_other by metis
  qed
  then have "doubt_rows s \<subseteq> doubt_rows ?s'" by (force simp: doubt_rows_files)
  ultimately show ?thesis by blast
qed

text \<open>The calls of a stage, each with the file writes that succeed; the index is always written.\<close>

definition closure_calls ::
  "unicode \<Rightarrow> (jstr \<Rightarrow> jstr) \<Rightarrow> closure_spec \<Rightarrow> ((bool \<times> bool) \<times> json option) list \<Rightarrow> closure_state \<Rightarrow> closure_state" where
  "closure_calls u digest sp calls s = fold (\<lambda>(w, received) s. snd (recordClosures u digest (True, w) sp received s)) calls s"

lemma closure_calls_step:
  "numbered s \<Longrightarrow> numbered (closure_calls u digest sp calls s) \<and> doubt_rows s \<subseteq> doubt_rows (closure_calls u digest sp calls s)"
proof (induction calls arbitrary: s)
  case (Cons c calls)
  obtain w rv where c: "c = (w, rv)" by (cases c) auto
  let ?s' = "snd (recordClosures u digest (True, w) sp rv s)"
  have "numbered ?s' \<and> doubt_rows s \<subseteq> doubt_rows ?s'" using record_step[OF Cons.prems] by blast
  then show ?case using Cons.IH[of ?s'] c by (auto simp: closure_calls_def)
qed (simp add: closure_calls_def)

lemma closure_calls_stand:
  "(\<And>i f q r. SettledLine i f q r \<in> doubt_rows s \<Longrightarrow> stands u sp i f q) \<Longrightarrow>
     SettledLine i f q r \<in> doubt_rows (closure_calls u digest sp calls s) \<Longrightarrow> stands u sp i f q"
proof (induction calls arbitrary: s)
  case (Cons c calls)
  obtain w rv where c: "c = (w, rv)" by (cases c) auto
  let ?s' = "snd (recordClosures u digest (True, w) sp rv s)"
  have st: "stands u sp i f q" if "SettledLine i f q r \<in> doubt_rows ?s'" for i f q r
    using record_from[of u digest "(True, w)" sp rv s] Cons.prems(1) accepted_of_stands that by (fastforce simp: closure_line_of)
  show ?case by (rule Cons.IH[of ?s', OF st]) (use Cons.prems(2) c in \<open>simp_all add: closure_calls_def\<close>)
qed (simp add: closure_calls_def)

lemma calls_app: "closure_calls u digest sp (before @ c # later) s =
    closure_calls u digest sp later (snd (recordClosures u digest (True, fst c) sp (snd c) (closure_calls u digest sp before s)))"
  by (simp add: closure_calls_def case_prod_beta)

lemma accepted_on_record:
  assumes "priorCallWithIdSet (ct_index s) (idSetHash digest received) = None"
    and "AcceptedClosed DoubtKind i f q r \<in> set (accepted_of u sp received)"
  shows "SettledLine i f q r \<in> doubt_rows (snd (recordClosures u digest (ix, True, ra) sp received s))"
  unfolding doubt_rows_files record_files[OF assms(1)]
  using assms(2) update_new by (force simp: closure_line_of[symmetric])

text \<open>C20: Over the calls of a stage, from nothing on record, where the index is written by every call: a doubt row that a
  call accepts, the call being no repeat and its file of accepted rows written, is on record after that call and after every
  later one, whatever other writes fail; no doubt row on record is ever lost; and every doubt row on record cites a file that
  was given, other than the one the doubt came from, and quotes it.\<close>

theorem closure_record_grows_and_stands:
  "(ca_repeat_of (fst (recordClosures u digest (True, True, ra) sp received
        (closure_calls u digest sp before \<lparr> ct_index = [], ct_files = [], ct_artifact = None \<rparr>))) = None
      \<and> AcceptedClosed DoubtKind i f q r \<in> set (accepted_of u sp received)
      \<longrightarrow> SettledLine i f q r \<in> doubt_rows (closure_calls u digest sp (before @ ((True, ra), received) # later)
            \<lparr> ct_index = [], ct_files = [], ct_artifact = None \<rparr>))
   \<and> doubt_rows (closure_calls u digest sp before \<lparr> ct_index = [], ct_files = [], ct_artifact = None \<rparr>)
       \<subseteq> doubt_rows (closure_calls u digest sp (before @ calls) \<lparr> ct_index = [], ct_files = [], ct_artifact = None \<rparr>)
   \<and> (\<forall>i f q r. SettledLine i f q r \<in> doubt_rows (closure_calls u digest sp calls \<lparr> ct_index = [], ct_files = [], ct_artifact = None \<rparr>)
        \<longrightarrow> stands u sp i f q)"
proof (intro conjI allI impI, elim conjE)
  let ?none = "\<lparr> ct_index = [], ct_files = [], ct_artifact = None \<rparr>"
  let ?s = "closure_calls u digest sp before ?none"
  have n: "numbered ?s" using closure_calls_step[of ?none] by (simp add: numbered_def)
  assume new: "ca_repeat_of (fst (recordClosures u digest (True, True, ra) sp received ?s)) = None"
    and acc: "AcceptedClosed DoubtKind i f q r \<in> set (accepted_of u sp received)"
  have "SettledLine i f q r \<in> doubt_rows (snd (recordClosures u digest (True, True, ra) sp received ?s))"
    by (rule accepted_on_record[OF new[unfolded call_not_repeat] acc])
  moreover have "numbered (snd (recordClosures u digest (True, True, ra) sp received ?s))" using record_step[OF n] by blast
  ultimately show "SettledLine i f q r \<in> doubt_rows (closure_calls u digest sp (before @ ((True, ra), received) # later) ?none)"
    using closure_calls_step unfolding calls_app by fastforce
next
  let ?none = "\<lparr> ct_index = [], ct_files = [], ct_artifact = None \<rparr>"
  let ?s = "closure_calls u digest sp before ?none"
  have n: "numbered ?s" using closure_calls_step[of ?none] by (simp add: numbered_def)
  have "closure_calls u digest sp (before @ calls) ?none = closure_calls u digest sp calls ?s" by (simp add: closure_calls_def)
  then show "doubt_rows ?s \<subseteq> doubt_rows (closure_calls u digest sp (before @ calls) ?none)"
    using closure_calls_step[OF n, of u digest sp calls] by simp
next
  fix i f q r assume "SettledLine i f q r \<in> doubt_rows (closure_calls u digest sp calls \<lparr> ct_index = [], ct_files = [], ct_artifact = None \<rparr>)"
  then show "stands u sp i f q" by (rule closure_calls_stand[rotated]) (simp add: doubt_rows_files)
qed

end
