(* ===== verification/DoubtCases.thy ===== *)
theory DoubtCases
  imports DoubtCalls
begin

text \<open>Concrete calls of the closure stage: witnesses of the properties, and the calls where the code falls short of its
  comments.\<close>

section \<open>One doubt, one citation\<close>

definition d1 :: doubt where
  "d1 = \<lparr> db_id = js ''d1'', db_birth = \<lparr> bi_place = js ''gather'', bi_artifact = js ''search.md'', bi_quote = [] \<rparr>,
          db_subject = \<lparr> sj_mark = [], sj_owner = [], sj_terms = [], sj_text = [], sj_pair = None \<rparr>, db_ending = None \<rparr>"

definition texts1 :: "(jstr \<times> jstr) list" where
  "texts1 = [(REGISTER, js ''the owner is Ion Labs'')]"

definition spec1 :: closure_spec where
  "spec1 = \<lparr> cs_openIds = [js ''d1''], cs_files = CLOSURE_EVIDENCE_FILES, cs_texts = texts1, cs_bornIn = [(js ''d1'', js ''search.md'')] \<rparr>"

definition row1 :: "string \<Rightarrow> json" where
  "row1 q = JObj [(js ''doubt_id'', JStr (js ''d1'')), (js ''verdict'', JStr (js ''settled'')), (js ''file_index'', JNum 1),
                  (js ''quote'', JStr (js q)), (js ''reason'', JStr (js ''r''))]"

definition call1 :: "string \<Rightarrow> json option" where
  "call1 q = Some (JObj [(js ''closures'', JArr [row1 q])])"

abbreviation none :: closure_state where "none \<equiv> \<lparr> ct_index = [], ct_files = [], ct_artifact = None \<rparr>"


lemmas letters = latin.to_lower_ascii ascii_def low1_def is_upper_def js_trim_def is_space_def

lemma row1_fields:
  "member (js ''doubt_id'') (Some (row1 q)) = Some (JStr (js ''d1''))" "member (js ''verdict'') (Some (row1 q)) = Some (JStr (js ''settled''))"
  "member (js ''file_index'') (Some (row1 q)) = Some (JNum 1)" "member (js ''quote'') (Some (row1 q)) = Some (JStr (js q))"
  "member (js ''reason'') (Some (row1 q)) = Some (JStr (js ''r''))" "member (js ''kind'') (Some (row1 q)) = None"
  "member (js ''handoff'') (Some (row1 q)) = None"
  by (simp_all add: row1_def del: js_Cons)

lemma read_texts:
  "str_of (Some (JStr (js ''doubt''))) = js ''doubt''" "str_of (Some (JStr (js ''d1''))) = js ''d1''"
  "str_of (Some (JStr (js ''settled''))) = js ''settled''" "str_of (Some (JStr (js ''r''))) = js ''r''"
  "str_of (Some (JStr (js ''Ion Labs''))) = js ''Ion Labs''" "str_of (Some (JStr (js ''Iron''))) = js ''Iron''"
  "to_lower latin_unicode (js ''doubt'') = js ''doubt''" "to_lower latin_unicode (js ''settled'') = js ''settled''"
  by (simp_all add: str_of_def letters)

lemma birth_name: "baseName latin_unicode (js ''search.md'') = js ''search.md''" "baseName latin_unicode REGISTER = js ''register-findings.md''"
  by (simp_all add: baseName_def REGISTER_def letters)

lemma row1_file: "CLOSURE_EVIDENCE_FILES ! 1 = REGISTER" "length CLOSURE_EVIDENCE_FILES = 3"
  by (simp_all add: CLOSURE_EVIDENCE_FILES_def REGISTER_def del: js_Cons)

lemma squashes: 
  "squash (js ''the owner is Ion Labs'') = js ''the owner is Ion Labs''" "squash (js ''Ion Labs'') = js ''Ion Labs''" "squash (js ''Iron'') = js ''Iron''"
  by (simp_all add: squash_def replace_all_def letters)

lemma quotes: "js_includes (js ''Ion Labs'') (js ''the owner is Ion Labs'')" "\<not> js_includes (js ''Iron'') (js ''the owner is Ion Labs'')"
  by simp_all

lemma check_row1:
  "check_citation latin_unicode spec1 DoubtKind (js ''d1'') (js ''r'') (Some (row1 q)) =
     (if str_of (Some (JStr (js q))) = [] then Inl QuoteRequired
      else if \<not> js_includes (squash (str_of (Some (JStr (js q))))) (js ''the owner is Ion Labs'') then Inl QuoteNotFound
      else Inr (AcceptedClosed DoubtKind (js ''d1'') REGISTER (str_of (Some (JStr (js q)))) (js ''r'')))"
  using row1_file by (simp add: check_citation_def row1_fields spec1_def own_artifact_def birth_name texts1_def file_text_def squashes del: js_Cons)

lemma accept_row1:
  "acceptClosure latin_unicode spec1 (row1 q) = check_citation latin_unicode spec1 DoubtKind (js ''d1'') (js ''r'') (Some (row1 q))"
  by (simp add: acceptClosure_def Let_def row1_fields read_texts kind_of_def verdict_of_def text_field_def spec1_def del: js_Cons)

lemma take_row1:
  "acceptClosureCall latin_unicode spec1 (member (js ''closures'') (call1 ''Ion Labs'')) =
     ([AcceptedClosed DoubtKind (js ''d1'') REGISTER (js ''Ion Labs'') (js ''r'')], [])"
  "acceptClosureCall latin_unicode spec1 (member (js ''closures'') (call1 ''Iron'')) = ([], [(js ''d1'', QuoteNotFound)])"
  using read_texts squashes quotes
  by (simp_all add: acceptClosureCall_def MAX_CLOSURES_PER_CALL_def call1_def accept_row1 check_row1 refused_id_def row1_fields del: js_Cons)

lemma sent1: "sent_ids (call1 q) = [js ''d1'']"
  using read_texts by (simp add: sent_ids_def call1_def refused_id_def row1_fields sorted_set_def set_of_def set_add_def del: js_Cons)

text \<open>A hash that keeps the text: the first twelve of its digits name the ids.\<close>

lemma hash1: "idSetHash id (call1 q) = Some (js ''|d1'')"
  by (simp add: idSetHash_def sent1)

lemma call_good: "snd (recordClosures latin_unicode id (True, True, True) spec1 (call1 ''Ion Labs'') none)
    = \<lparr> ct_index = [(1, Some (js ''|d1''))],
        ct_files = [(accepted_name 1, [SettledLine (js ''d1'') REGISTER (js ''Ion Labs'') (js ''r'')], [])],
        ct_artifact = Some (renderClosureArtifact ([SettledLine (js ''d1'') REGISTER (js ''Ion Labs'') (js ''r'')], [])) \<rparr>"
  by (simp add: recordClosures_def readAcceptedClosures_def Let_def hash1 priorCallWithIdSet_def take_row1 toClosureLines_def to_line_def List.map_filter_def del: js_Cons)


lemma open1: "set_of (cs_openIds spec1) = [js ''d1'']"
  by (simp add: spec1_def set_of_def set_add_def del: js_Cons)

lemma none_before: "priorCallWithIdSet [] h = None"
  by (simp add: priorCallWithIdSet_def)

lemma call_repeat_none: "ca_repeat_of (fst (recordClosures u digest ok sp received none)) = None"
  by (simp add: call_not_repeat none_before)

lemma accepted1: "accepted_of latin_unicode spec1 (call1 ''Ion Labs'') = [AcceptedClosed DoubtKind (js ''d1'') REGISTER (js ''Ion Labs'') (js ''r'')]"
  by (simp add: accepted_of_def take_row1 del: js_Cons)

theorem accepted_is_settled_witness:
  "closed_by d1 REGISTER (js ''Ion Labs'') (js ''r'') \<in> set (co_doubts
     (close_from_record latin_unicode [d1] (snd (recordClosures latin_unicode id (True, True, True) spec1 (call1 ''Ion Labs'') none)) texts1))"
proof -
  have d: "db_id d1 = js ''d1''" "db_ending d1 = None" "bi_artifact (db_birth d1) = js ''search.md''" "bi_place (db_birth d1) = js ''gather''"
    and sp: "cs_texts spec1 = texts1" "cs_bornIn spec1 = [(js ''d1'', js ''search.md'')]"
    by (simp_all add: d1_def spec1_def del: js_Cons)
  have r: "fst (readAcceptedClosures none) = []" by (simp add: readAcceptedClosures_def)
  show ?thesis
    using accepted_is_settled[of latin_unicode id True True spec1 "call1 ''Ion Labs''" none d1 REGISTER "js ''Ion Labs''" "js ''r''" "[d1]"]
    by (simp add: latin.unicode_ascii_axioms call_repeat_none accepted1 d sp r PRESENCE_BIRTH_PLACE_def del: js_Cons)
qed

lemma one_row: "doubt_rows (closure_calls latin_unicode id spec1 [((True, True), call1 ''Ion Labs'')] none)
    = {SettledLine (js ''d1'') REGISTER (js ''Ion Labs'') (js ''r'')}"
  by (simp add: closure_calls_def call_good doubt_rows_files del: js_Cons)

theorem closure_record_witness:
  "stands latin_unicode spec1 (js ''d1'') REGISTER (js ''Ion Labs'')
   \<and> SettledLine (js ''d1'') REGISTER (js ''Ion Labs'') (js ''r'')
      \<in> doubt_rows (closure_calls latin_unicode id spec1 ([((True, True), call1 ''Ion Labs'')] @ [((False, True), call1 ''Iron'')]) none)"
proof -
  have none: "closure_calls latin_unicode id spec1 [] none = none" by (simp add: closure_calls_def)
  show ?thesis
    using closure_record_grows_and_stands[of latin_unicode id True spec1 "call1 ''Ion Labs''" "[]" "js ''d1''" REGISTER "js ''Ion Labs''" "js ''r''"
        "[((False, True), call1 ''Iron'')]" "[((True, True), call1 ''Ion Labs'')]"]
    unfolding one_row none by (simp add: call_repeat_none accepted1 del: js_Cons)
qed

lemma closes1: "closes latin_unicode texts1 d1 REGISTER (js ''Ion Labs'')"
  using quotes(1) by (simp add: closes_def citesOwnSource_def birth_name d1_def texts1_def file_text_def squashes PRESENCE_BIRTH_PLACE_def del: js_Cons)

lemma no_evidence1: "\<not> answered latin_unicode None None [] d1 file quote"
  by (simp add: answered_def evidence_def finding_list_def answerWatchlistLines_def allContentLines_def content_def js_trim_def split: option.splits)

theorem closure_settles_exactly_witness:
  "db_ending (co_doubts (applyClosure latin_unicode (stitchDoubts latin_unicode [d1] None None [])
      [SettledLine (js ''d1'') REGISTER (js ''Ion Labs'') (js ''r'')] texts1) ! 0)
     = Some \<lparr> en_by = DoubtClosureStage, en_file = REGISTER, en_quote = js ''Ion Labs'', en_reason = Some (js ''r'') \<rparr>"
proof -
  let ?l = "SettledLine (js ''d1'') REGISTER (js ''Ion Labs'') (js ''r'')"
  have i: "db_id d1 = js ''d1''" by (simp add: d1_def del: js_Cons)
  have only: "first_for [?l] (db_id d1) f q r \<longleftrightarrow> f = REGISTER \<and> q = js ''Ion Labs'' \<and> r = js ''r''" for f q r
    unfolding i by (auto simp: first_for_def simp del: js_Cons)
  show ?thesis
    using closure_settles_exactly[of latin_unicode "[d1]" None None "[]" "[?l]" texts1] closes1
    by (auto simp: no_evidence1 only simp del: js_Cons split: option.splits)
qed

section \<open>A doubt the findings answer\<close>

definition d2 :: doubt where
  "d2 = d1\<lparr> db_subject := \<lparr> sj_mark = js ''ION LABS'', sj_owner = [], sj_terms = [], sj_text = [], sj_pair = None \<rparr> \<rparr>"

definition ion :: json where
  "ion = JObj [(js ''mark'', JStr (js ''Ion-Labs''))]"

lemmas words = join_words_def foldMarks_def latin.nfkd_ascii latin.mark_ascii tokens_def seam_def ascii_word_def is_lower_def is_digit_def up1_def

lemma ion_words: "join_words latin_unicode (js ''ION LABS'') = [js ''ION'', js ''LABS'']"
    "join_words latin_unicode (js ''Ion-Labs'') = [js ''ION'', js ''LABS'']"
  by (simp_all add: words letters)

theorem hasToken_whole_words_witness:
  "hasToken latin_unicode (js ''by Ion-Labs AG'') (js ''ION LABS'')"
proof -
  have "join_words latin_unicode (js ''by Ion-Labs AG'') = [js ''BY''] @ [js ''ION'', js ''LABS''] @ [js ''AG'']"
    by (simp add: words letters)
  then have "\<exists>x y. join_words latin_unicode (js ''by Ion-Labs AG'') = x @ join_words latin_unicode (js ''ION LABS'') @ y"
    unfolding ion_words by blast
  then show ?thesis
    using hasToken_whole_words[OF latin.unicode_ascii_axioms, of "js ''by Ion-Labs AG''" "js ''ION LABS''"] by (simp add: ion_words del: js_Cons)
qed

lemma ion_text: "doubt_text (db_subject d2) = js ''ION LABS''"
  by (simp add: doubt_text_def joined_def d2_def)

theorem stitch_witness:
  "db_ending (stitchDoubts latin_unicode [d2] (Some (JArr [ion])) None [] ! 0) \<noteq> None"
proof
  assume none: "db_ending (stitchDoubts latin_unicode [d2] (Some (JArr [ion])) None [] ! 0) = None"
  note ua = latin.unicode_ascii_axioms
  have n: "normalizeJoinText latin_unicode (js ''Ion-Labs'') = js ''ION LABS''" "normalizeJoinText latin_unicode (js ''ION LABS'') = js ''ION LABS''"
    unfolding normalize_words[OF ua] ion_words by simp_all
  have t: "hasToken latin_unicode (js ''ION LABS'') (js ''ION LABS'')"
    by (simp add: found_between[OF ua] ion_words del: js_Cons) (auto intro: exI[of _ "[]"])
  have "distinctive (js ''ION LABS'')" by (simp add: distinctive_def letters)
  then have j: "finding_joins latin_unicode (db_subject d2) ion"
    using t n by (simp add: finding_joins_def named_in_def ion_text ion_def del: js_Cons)
  have own: "\<not> citesOwnSource latin_unicode d2 FINDINGS"
    by (simp add: citesOwnSource_def d2_def d1_def baseName_def FINDINGS_def letters)
  have "evidence latin_unicode (Some (JArr [ion])) None [] (db_subject d2) FINDINGS (findingEvidence ion (action_list (Some (JArr [ion]))))"
    using j n by (simp add: evidence_def finding_list_def ion_text)
  then show False
    using stitch_ends_exactly_with_evidence[of latin_unicode "[d2]" "Some (JArr [ion])" None "[]"] none own by auto
qed


section \<open>Where the code falls short\<close>

text \<open>A citation is refused; the seat corrects the quote and sends the row again. The call names the same ids, so it is taken
  for a repeat of accepted work: the answer is that nothing was refused, and the row is never judged, though it would be
  accepted in a first call.\<close>

lemma corrected_row_never_judged:
  "let s = snd (recordClosures latin_unicode id (True, True, True) spec1 (call1 ''Iron'') none);
       a = fst (recordClosures latin_unicode id (True, True, True) spec1 (call1 ''Ion Labs'') s);
       s' = snd (recordClosures latin_unicode id (True, True, True) spec1 (call1 ''Ion Labs'') s) in
     ca_refused (fst (recordClosures latin_unicode id (True, True, True) spec1 (call1 ''Iron'') none)) = [(js ''d1'', QuoteNotFound)]
     \<and> ca_repeat_of a = Some 1 \<and> ca_refused a = [] \<and> ca_accepted a = 0 \<and> ca_still_open a = [js ''d1''] \<and> doubt_rows s' = {}
     \<and> accepted_of latin_unicode spec1 (call1 ''Ion Labs'') \<noteq> []"
proof -
  have s: "recordClosures latin_unicode id (True, True, True) spec1 (call1 ''Iron'') none =
      (\<lparr> ca_accepted = 0, ca_refused = [(js ''d1'', QuoteNotFound)], ca_still_open = [js ''d1''], ca_repeat_of = None \<rparr>,
       \<lparr> ct_index = [(1, Some (js ''|d1''))], ct_files = [(accepted_name 1, [], [])], ct_artifact = Some (renderClosureArtifact ([], [])) \<rparr>)"
    by (simp add: recordClosures_def readAcceptedClosures_def Let_def hash1 none_before take_row1 toClosureLines_def map_filter_def open1 del: js_Cons)
  show ?thesis
    unfolding s by (simp add: recordClosures_def Let_def hash1 priorCallWithIdSet_def readAcceptedClosures_def doubt_rows_files accepted1
      open1 del: js_Cons)
qed

text \<open>A write to the index fails and the accepted row is on file all the same. The next call counts the lines of the index,
  takes the number again and writes its own rows over it.\<close>

lemma accepted_row_overwritten:
  "let s = snd (recordClosures latin_unicode id (False, True, True) spec1 (call1 ''Ion Labs'') none);
       s' = snd (recordClosures latin_unicode id (True, True, True) spec1 (call1 ''Iron'') s) in
     doubt_rows s = {SettledLine (js ''d1'') REGISTER (js ''Ion Labs'') (js ''r'')} \<and> doubt_rows s' = {}"
proof -
  have s: "snd (recordClosures latin_unicode id (False, True, True) spec1 (call1 ''Ion Labs'') none) =
      \<lparr> ct_index = [], ct_files = [(accepted_name 1, [SettledLine (js ''d1'') REGISTER (js ''Ion Labs'') (js ''r'')], [])],
        ct_artifact = Some (renderClosureArtifact ([SettledLine (js ''d1'') REGISTER (js ''Ion Labs'') (js ''r'')], [])) \<rparr>"
    by (simp add: recordClosures_def readAcceptedClosures_def Let_def hash1 none_before take_row1 toClosureLines_def to_line_def map_filter_def del: js_Cons)
  show ?thesis
    unfolding s by (simp add: recordClosures_def readAcceptedClosures_def Let_def hash1 none_before take_row1 toClosureLines_def map_filter_def doubt_rows_files del: js_Cons)
qed

text \<open>What is still open is counted from the rows of the call alone: after a call that settles the doubt, the answer to a
  call without rows lists it again.\<close>

lemma answered_doubt_still_open:
  "let s = snd (recordClosures latin_unicode id (True, True, True) spec1 (call1 ''Ion Labs'') none);
       a = fst (recordClosures latin_unicode id (True, True, True) spec1 (Some (JObj [(js ''closures'', JArr [])])) s) in
     SettledLine (js ''d1'') REGISTER (js ''Ion Labs'') (js ''r'') \<in> doubt_rows s \<and> js ''d1'' \<in> set (ca_still_open a)"
proof -
  have "idSetHash id (Some (JObj [(js ''closures'', JArr [])])) = None"
    by (simp add: idSetHash_def sent_ids_def sorted_set_def set_of_def del: js_Cons)
  then show ?thesis
    unfolding call_good
    by (simp add: doubt_rows_files recordClosures_def priorCallWithIdSet_def acceptClosureCall_def open1 Let_def del: js_Cons)
qed

text \<open>A row says that the doubt is an ask, immaterial. The ids of doubts and asks are one list, so it is accepted and the
  doubt no longer counted as open; the record holds it for the asks only, and nothing is ever settled by it.\<close>

definition as_ask :: json where
  "as_ask = set_field (js ''kind'') (JStr (js ''ask'')) (set_field (js ''verdict'') (JStr (js ''immaterial'')) (row1 ''Ion Labs''))"

definition ask_call :: "json option" where
  "ask_call = Some (JObj [(js ''closures'', JArr [as_ask])])"

lemma as_ask_fields:
  "member (js ''doubt_id'') (Some as_ask) = Some (JStr (js ''d1''))" "member (js ''verdict'') (Some as_ask) = Some (JStr (js ''immaterial''))"
  "member (js ''file_index'') (Some as_ask) = Some (JNum 1)" "member (js ''quote'') (Some as_ask) = Some (JStr (js ''Ion Labs''))"
  "member (js ''reason'') (Some as_ask) = Some (JStr (js ''r''))" "member (js ''kind'') (Some as_ask) = Some (JStr (js ''ask''))"
  "member (js ''handoff'') (Some as_ask) = None"
  by (simp_all add: as_ask_def row1_def del: js_Cons)

lemma ask_texts: "str_of (Some (JStr (js ''ask''))) = js ''ask''" "str_of (Some (JStr (js ''immaterial''))) = js ''immaterial''"
  "to_lower latin_unicode (js ''ask'') = js ''ask''" "to_lower latin_unicode (js ''immaterial'') = js ''immaterial''"
  by (simp_all add: str_of_def letters)

lemma doubt_taken_for_an_ask:
  "let a = fst (recordClosures latin_unicode id (True, True, True) spec1 ask_call none);
       s = snd (recordClosures latin_unicode id (True, True, True) spec1 ask_call none) in
     ca_accepted a = 1 \<and> ca_refused a = [] \<and> ca_still_open a = []
     \<and> co_doubts (close_from_record latin_unicode [d1] s texts1) = [d1] \<and> db_ending d1 = None
     \<and> co_unverified (close_from_record latin_unicode [d1] s texts1) = []"
proof -
  have c: "check_citation latin_unicode spec1 AskKind (js ''d1'') (js ''r'') (Some as_ask) = Inr (AcceptedClosed AskKind (js ''d1'') REGISTER (js ''Ion Labs'') (js ''r''))"
    using row1_file read_texts quotes squashes
    by (simp add: check_citation_def as_ask_fields spec1_def own_artifact_def birth_name texts1_def file_text_def del: js_Cons)
  have a: "acceptClosure latin_unicode spec1 as_ask = Inr (AcceptedClosed AskKind (js ''d1'') REGISTER (js ''Ion Labs'') (js ''r''))"
    unfolding c[symmetric]
    by (simp add: acceptClosure_def Let_def as_ask_fields read_texts ask_texts kind_of_def verdict_of_def text_field_def spec1_def del: js_Cons)
  have t: "acceptClosureCall latin_unicode spec1 (member (js ''closures'') ask_call) = ([AcceptedClosed AskKind (js ''d1'') REGISTER (js ''Ion Labs'') (js ''r'')], [])"
    using read_texts by (simp add: acceptClosureCall_def MAX_CLOSURES_PER_CALL_def ask_call_def a refused_id_def as_ask_fields del: js_Cons)
  have r: "recordClosures latin_unicode id (True, True, True) spec1 ask_call none =
      (\<lparr> ca_accepted = 1, ca_refused = [], ca_still_open = [], ca_repeat_of = None \<rparr>,
       \<lparr> ct_index = [(1, idSetHash id ask_call)],
         ct_files = [(accepted_name 1, [], [SettledLine (js ''d1'') REGISTER (js ''Ion Labs'') (js ''r'')])],
         ct_artifact = Some (renderClosureArtifact ([], [SettledLine (js ''d1'') REGISTER (js ''Ion Labs'') (js ''r'')])) \<rparr>)"
    by (simp add: recordClosures_def readAcceptedClosures_def Let_def none_before t toClosureLines_def to_line_def map_filter_def accepted_closure_id_def
      open1 del: js_Cons)
  show ?thesis
    unfolding r by (simp add: close_from_record_def readAcceptedClosures_def applyClosure_def close_doubt_def settling_def map_filter_def d1_def del: js_Cons)
qed

text \<open>A doubt of the presence family: every citation of another file is accepted in the call and counted as answered, and the
  ledger refuses it afterwards.\<close>

lemma presence_accepted_then_refused:
  "let d = d1\<lparr> db_birth := (db_birth d1)\<lparr> bi_place := PRESENCE_BIRTH_PLACE \<rparr> \<rparr>;
       a = fst (recordClosures latin_unicode id (True, True, True) spec1 (call1 ''Ion Labs'') none);
       s = snd (recordClosures latin_unicode id (True, True, True) spec1 (call1 ''Ion Labs'') none) in
     ca_accepted a = 1 \<and> ca_still_open a = [] \<and> co_doubts (close_from_record latin_unicode [d] s texts1) = [d]"
proof -
  have a: "fst (recordClosures latin_unicode id (True, True, True) spec1 (call1 ''Ion Labs'') none) =
      \<lparr> ca_accepted = 1, ca_refused = [], ca_still_open = [], ca_repeat_of = None \<rparr>"
    by (simp add: recordClosures_def readAcceptedClosures_def Let_def none_before take_row1 accepted_closure_id_def open1 del: js_Cons)
  show ?thesis
    unfolding a by (simp add: call_good close_from_record_def readAcceptedClosures_def applyClosure_def close_doubt_def settling_def
      citesOwnSource_def birth_name d1_def del: js_Cons)
qed

text \<open>A finding whose mark has a digit before a lower-case letter is not joined by a doubt that names it: the mark is put in
  upper case first and cut at its seams again when it is looked for.\<close>

lemma digit_mark_never_joins:
  "let s = \<lparr> sj_mark = js ''7eleven'', sj_owner = [], sj_terms = [], sj_text = [], sj_pair = None \<rparr>;
       f = JObj [(js ''mark'', JStr (js ''7eleven''))] in
     distinctive (normalizeJoinText latin_unicode (js ''7eleven'')) \<and> hasToken latin_unicode (doubt_text s) (js ''7eleven'')
     \<and> \<not> named_in latin_unicode (doubt_text s) (member (js ''mark'') (Some f))"
proof -
  note ua = latin.unicode_ascii_axioms
  have w: "join_words latin_unicode (js ''7eleven'') = [js ''7ELEVEN'']" "join_words latin_unicode (js ''7ELEVEN'') = [js ''7'', js ''ELEVEN'']"
    by (simp_all add: words letters)
  have n: "normalizeJoinText latin_unicode (js ''7eleven'') = js ''7ELEVEN''" unfolding normalize_words[OF ua] w by simp
  have d: "distinctive (js ''7ELEVEN'')" by (simp add: distinctive_def letters)
  have t: "joined [js ''7eleven'', [], []] = js ''7eleven''" by (simp add: joined_def)
  have "hasToken latin_unicode (js ''7eleven'') (js ''7eleven'')" "\<not> hasToken latin_unicode (js ''7eleven'') (js ''7ELEVEN'')"
    by (simp_all add: found_between[OF ua] w append_eq_Cons_conv del: js_Cons) (auto intro: exI[of _ "[]"])
  then show ?thesis using n d t by (simp add: doubt_text_def named_in_def Let_def del: js_Cons)
qed

end
