(* ===== verification/Spec2Isabelle.thy ===== *)
theory Spec2Isabelle
  imports Phonetic FormNeighbourhood VariantFloor Outbox Grants GrantsEdit Scope EnumerateSpec ClaimsSpec SlotsSpec
    QueueMarkers QueueOrder IntakeSpec DispositionCases DeclinationCases DoubtCases
begin

text \<open>Clearotron clears trade marks: an order names a mark, a run builds the forms the mark can be confused with,
  searches the registers for them, judges what is found and delivers a report to the people who may see it.
  This library models the parts of the program whose correctness does not rest on a language model.

  The parts and how they meet.
    A run takes the distinctive elements of the mark and builds the band of terms to search
    (\<open>driver/form-neighbourhood.mjs\<close>, which keys terms by sound with \<open>driver/phonetic-key.mjs\<close>) and joins it
    with the variants a model proposed. The terms go to the enumeration kernel
    (\<open>providers/_shared/enumerate.mjs\<close>), which asks a register for every record and says when it could not.
    Before all that, the order is a file in a queue directory (\<open>driver/queue-markers.mjs\<close>), taken in the order of
    \<open>driver/queue-order.mjs\<close> by one of several runner processes: \<open>driver/runner.mjs\<close> claims it by a rename, reads whether
    other claimers live (\<open>driver/claim-liveness.mjs\<close>), passes it through the gates of duplicates and caps, and runs it
    in a slot of the machine (\<open>driver/slot-lock.mjs\<close>). In the run a sweep over the web asks what a mark means:
    the driver derives from the recorded results which rulings are owed (\<open>driver/connotation-search.mjs\<close>), a model's
    seat answers them in calls (\<open>driver/disposition-call.mjs\<close>, \<open>driver/disposition-tool.mjs\<close>), and what is accepted is
    united with the form on disk (\<open>driver/disposition-union.mjs\<close>). Beside the searches the run can take record
    numbers it inherited; a seat declines some of them, in calls judged against the notes the run holds
    (\<open>driver/declination-call.mjs\<close>, \<open>driver/declination-tool.mjs\<close>), and the last decision on a record is the one told.
    What the run cannot account for it records as doubts, joined to evidence it already holds or closed by a seat that
    cites a file (\<open>driver/doubt-ledger.mjs\<close>, \<open>driver/doubt-closure-call.mjs\<close>, \<open>driver/doubt-closure-tool.mjs\<close>).
    When a run ends it drops a marker, and the delivery outbox (\<open>driver/outbox-backoff.mjs\<close>) wakes the agent that
    tells the client. Every session, staff, portal or connector, is resolved and checked by
    \<open>shared/scope.mjs\<close> against the grants file, which \<open>shared/grants-edit.mjs\<close> edits.

  Which theory models what.
    \<^item> \<open>JsPrelude\<close>: strings as lists of UTF-16 code units (\<open>jstr\<close>), reads out of range, insertion-ordered sets,
      \<open>split\<close>, \<open>join\<close>, \<open>sort\<close>; the locale \<open>unicode_ascii\<close> states what is relied on of NFD and case mapping.
    \<^item> \<open>JsonValue\<close>: values as \<open>JSON.parse\<close> gives them, truthiness, optional chaining, spread. \<open>Disk\<close>: a file rewritten in
      place, which a failed write leaves as it was or torn.
    \<^item> \<open>Phonetic\<close>: \<open>doubleMetaphone\<close>. One function per \<open>case\<close>, \<open>dm_step\<close> is the \<open>switch\<close>, \<open>dm_loop\<close> the loop.
    \<^item> \<open>FormNeighbourhood\<close>: the generators of the band, their order, folds and dedupe, and the coverage oracle.
    \<^item> \<open>VariantFloor\<close>: seeds, families, and the merge with the model's variants.
    \<^item> \<open>Outbox\<close>: \<open>check\<close>, \<open>settle\<close> and \<open>rescan\<close> over the directories; every swallowed file failure is a branch.
    \<^item> \<open>Grants\<close>, \<open>GrantsEdit\<close>, \<open>Scope\<close>: shape check, person, edits, tokens, sessions, \<open>authorize\<close>.
    \<^item> \<open>RegisterProvider\<close>: the guard around a provider's call (\<open>transport-guard.mjs\<close>), the count probe
      (\<open>count.mjs\<close>), floors (\<open>register-floor.mjs\<close>), the clip (\<open>provider-text.mjs\<close>).
    \<^item> \<open>EnumerateText\<close>, \<open>Steps\<close>, \<open>Enumerate\<close>, \<open>EnumerateSpec\<close>: the kernel's answers and reasons, the steps of
      asynchronous code, the kernel, and what it promises.
    \<^item> \<open>ClaimLiveness\<close>: the token of a claim and the judgement on its claimer and on a codename.
    \<^item> \<open>Claims\<close>, \<open>ClaimsSpec\<close>: one job's marker and sidecars, and the claim, takeover, retire, park, end and sweep of any
      number of runners as places \<open>pc\<close>, one file operation per event, with deaths and failed writes as events.
    \<^item> \<open>Slots\<close>, \<open>SlotsSpec\<close>: the slot and mutex files, each operation undisturbed and as interleaved file operations.
    \<^item> \<open>QueueMarkers\<close>, \<open>QueueOrder\<close>: the names of a queue, the assembly of a job, the order file and reorders.
    \<^item> \<open>Intake\<close>, \<open>IntakeSpec\<close>: the signature of a matter, the ledger (\<open>queue_dir\<close>), the duplicate rule, the caps and their
      display (\<open>driver/usage-ledger.mjs\<close>), and when a parked run is due.
    \<^item> \<open>JsText\<close>, \<open>Receipts\<close>, \<open>Rulings\<close>: texts as code points, the ledger of the meaning sweep and the identity of a
      result (\<open>fnv1a64\<close> over 64-bit words), passages and what binds to them, obligations, \<open>isRuled\<close>.
    \<^item> \<open>DispositionUnion\<close>, \<open>DispositionCall\<close>: the form with its file and union (\<open>form_row\<close>), and a call over the state
      \<open>sweep\<close> (the form's file and the ledger of verdicts). \<open>DispositionSpec\<close>, \<open>DispositionProps\<close>, \<open>RulingsSpec\<close>:
      what they promise; \<open>DispositionCases\<close>: concrete ledgers.
    \<^item> \<open>Rx\<close>: regular expressions as data, with the ordered choice of a JavaScript matcher (\<open>ways\<close>), \<open>matchAll\<close> and
      \<open>replace\<close>. \<open>Declination\<close>: addresses, goods and marks as a note's text gives them, the acceptance and one call;
      \<open>DeclinationLedger\<close>: the ledger as a store with keys, which a bad write can clear (locale \<open>keyed_store\<close>); \<open>DeclinationSpec\<close>,
      \<open>DeclinationCases\<close>: what a call promises, and concrete calls.
    \<^item> \<open>Doubts\<close>: \<open>driver/doubt-ledger.mjs\<close> as a whole, minting, join, stitch and \<open>applyClosure\<close>, its expressions as data;
      \<open>DoubtClosure\<close>: the call that closes doubts, its repeats (\<open>driver/call-repeat.mjs\<close>), its record and the application
      of the record. \<open>DoubtSpec\<close>: whole words; \<open>DoubtClosureSpec\<close>: what ends a doubt; \<open>DoubtCalls\<close>: the calls against
      the ledger; \<open>DoubtCases\<close>: concrete calls.

  What the lemmas show.
    Phonetic: the published vectors, the alphabet of the codes. Band: every string one edit away is
    searched or excused, no search twice, the oracle is exact, the merge adds exactly the
    variants it reports. Outbox: no marker is lost, whatever fails at each operation, the breaker trips on time, a rescan adds what is owed and is idempotent. Grants and
    scopes: access is exactly what the file grants, edits change exactly what they say, every write needs
    authority, tokens are sound. Enumeration: a complete answer refines the specification \<open>complete_band\<close>, which
    names for each way of asking what was read, counted and reconciled, every question is answered, and a faithful register is read whole.
    Queue: at most one live runner works on a job and a job is recovered wherever the runners died, the cap of
    slots is kept and dead slots come free, names tell states, a reorder moves only the caller's jobs, a matter runs
    once and a failed one is free again, and the allowance shown is the one enforced.
    Meaning sweep: over any run of calls that tears no file no ruling is lost and the work outstanding does not grow, a row is given up
    for cause only, what is accepted is on record, quotes are captured text, spot checks go by hash, and the numbers a
    seat was shown keep their meaning.
    Declinations: the seam tells the last decision written on each record since the ledger was last lost, a record is declined for cause only, and every
    row of a call is answered once.
    Doubts: a name is found by whole words, an ending rests on evidence other than the file the doubt came from or on
    the first line that holds up, a doubt left open has neither, and what a call accepts is kept and settled. Lemmas that end a section
    prove on a concrete run where the code falls short: the races at a terminal and at a park, the slot stolen
    through a stale mutex, the empty slot file, a repeated id in a reorder, a wiped ledger, a torn form and a torn ledger, marks with a bar,
    a row accepted and never ruled, a declared row reported lost, a corrected row never judged, a doubt taken for an ask.

  Parameters and hypotheses.
    Unicode NFD and case mapping (a record; where a property needs ASCII behaviour, \<open>unicode_ascii\<close>), \<open>JSON.parse\<close>,
    the hash of a batch of doubts, the signature and base64url codec (\<open>world\<close>), which file operations succeed (\<open>host\<close>), the clock, the elements a
    manifest's prose names, and a register provider (\<open>deps\<close>, over a state of which nothing is assumed).
    For claims and slots: a token names one process (a pid with the time of its birth), the process table a runner reads
    tells which of them live, and the switches of a system say which events are admitted (\<open>aging\<close> for a
    takeover, for age alone, of a claim whose claimer lives, \<open>hasty\<close> for a park that is due at once, \<open>calm\<close> for no death inside a slot mutex); the
    races they shut out are the findings. \<open>localeCompare\<close> is a comparison with the laws of the locale \<open>collation\<close>,
    which may call different texts equal; the registry of products is a function; numbers in texts are decimal integers.
    Each property that assumes anything of them has a witness with a concrete instance.

  Fuel. \<open>enumerate_js\<close> carries a budget of nested calls. \<open>2 * size_of q + 2\<close>, twice the names, regions and
    classes plus two, is enough for any question (\<open>enumerate_terminates\<close>): each nested call has fewer of one of
    them, or is the same question once with a width that gives it fewer names. The page loop counts its pages
    down from the page guard. \<open>dm_loop\<close> needs no fuel: the index grows.

  Not modelled. The validation of an order and its notices, the drain loop of the runner and the enqueue door. The prompts and the calls to the language models (\<open>gateway.mjs\<close>, \<open>stages.mjs\<close>, \<open>pipeline.mjs\<close>), whose
    results are prose; the network clients of the registers, whose behaviour is the provider parameter; rendering and
    user interface; installation, command line and process set-up. Within the modelled files: the prose of
    refusals, Markdown parsing, file writers and caches, as each theory says.\<close>

end
